(* ===== verification/Go_Prelude.thy ===== *)
theory Go_Prelude
  imports Main "HOL-Library.Word" "HOL-Library.Sublist"
begin

text \<open>
  What the components share. Go strings and byte slices are both sequences of bytes; a byte
  is an Isabelle \<open>char\<close>, so \<open>bytes\<close> is \<open>char list\<close> and the source's literals keep their
  shape. The theory models the functions of Go's \<open>strings\<close>, \<open>bytes\<close>, \<open>strconv\<close> packages
  that the program calls, Go's 64-bit integers (\<open>go_int\<close> wraps around), and collects the
  generic list lemmas the components use.

  Collections: \<open>go_strings\<close> (rewrite rules for the string functions), \<open>go_results\<close>
  (rules that split a fallible result).
\<close>

named_theorems go_strings "rewrite rules for the models of Go's string functions"
named_theorems go_results "splitting rules for fallible results"

declare sum.splits [go_results]
declare option.splits [go_results]
declare if_splits [go_results]

section \<open>Bytes and machine integers\<close>

type_synonym bytes = string

abbreviation byte_val :: "char \<Rightarrow> nat" where
  "byte_val c \<equiv> of_char c"

text \<open>Conversion to Go's 64-bit \<open>int\<close>/\<open>int64\<close>: two's complement wrap-around.\<close>

definition go_int :: "int \<Rightarrow> int" where
  "go_int n = sint (word_of_int n :: 64 word)"

definition CR :: char where
  "CR = CHR 0x0D"

definition LF :: char where
  "LF = CHR 0x0A"

definition TAB :: char where
  "TAB = CHR 0x09"

text \<open>The constant \<open>CRLF\<close> of http.go.\<close>

definition CRLF :: bytes where
  "CRLF = [CHR 0x0D, CHR 0x0A]"

lemma go_int_id: "- (2 ^ 63) \<le> n \<Longrightarrow> n < 2 ^ 63 \<Longrightarrow> go_int n = n"
  by (simp add: go_int_def sint_sbintrunc' signed_take_bit_int_eq_self)

lemma go_int_bounds: "- (2 ^ 63) \<le> go_int n" "go_int n < 2 ^ 63"
  using sint_greater_eq [of "word_of_int n :: 64 word"] sint_less [of "word_of_int n :: 64 word"]
  by (simp_all add: go_int_def)

section \<open>Searching\<close>

text \<open>\<open>strings.Index\<close> / \<open>bytes.Index\<close>; \<open>None\<close> stands for the result -1.\<close>

fun Index :: "bytes \<Rightarrow> bytes \<Rightarrow> nat option" where
  "Index [] sub = (if sub = [] then Some 0 else None)"
| "Index (x # xs) sub =
     (if prefix sub (x # xs) then Some 0 else map_option Suc (Index xs sub))"

text \<open>\<open>IndexByte\<close> and \<open>LastIndexByte\<close>.\<close>

fun IndexByte :: "bytes \<Rightarrow> char \<Rightarrow> nat option" where
  "IndexByte [] c = None"
| "IndexByte (x # xs) c = (if x = c then Some 0 else map_option Suc (IndexByte xs c))"

fun LastIndexByte :: "bytes \<Rightarrow> char \<Rightarrow> nat option" where
  "LastIndexByte [] c = None"
| "LastIndexByte (x # xs) c =
     (case LastIndexByte xs c of
        Some i \<Rightarrow> Some (Suc i)
      | None \<Rightarrow> if x = c then Some 0 else None)"

definition Contains :: "bytes \<Rightarrow> bytes \<Rightarrow> bool" where
  "Contains s sub \<longleftrightarrow> Index s sub \<noteq> None"

definition TrimPrefix :: "bytes \<Rightarrow> bytes \<Rightarrow> bytes" where
  "TrimPrefix s p = (if prefix p s then drop (length p) s else s)"

definition TrimSuffix :: "bytes \<Rightarrow> bytes \<Rightarrow> bytes" where
  "TrimSuffix s p = (if suffix p s then take (length s - length p) s else s)"

lemma IndexByte_None [simp, go_strings]: "IndexByte s c = None \<longleftrightarrow> c \<notin> set s"
  by (induction s) auto

lemma IndexByte_notin [simp]: "c \<notin> set s \<Longrightarrow> IndexByte s c = None"
  by simp

lemma IndexByte_Some:
  "IndexByte s c = Some i \<longleftrightarrow> i < length s \<and> s ! i = c \<and> c \<notin> set (take i s)"
proof (induction s arbitrary: i)
  case (Cons x xs)
  show ?case
    by (cases i) (auto simp: Cons.IH)
qed simp

lemma IndexByte_append [go_strings]:
  "c \<notin> set s \<Longrightarrow> IndexByte (s @ c # t) c = Some (length s)"
  by (induction s) auto

lemma IndexByte_split:
  assumes "IndexByte s c = Some i"
  shows "s = take i s @ c # drop (Suc i) s"
  using assms by (auto simp: IndexByte_Some id_take_nth_drop [symmetric])

lemma LastIndexByte_None [simp, go_strings]: "LastIndexByte s c = None \<longleftrightarrow> c \<notin> set s"
  by (induction s) (auto split: option.splits)

lemma LastIndexByte_notin [simp]: "c \<notin> set s \<Longrightarrow> LastIndexByte s c = None"
  by simp

lemma LastIndexByte_append [go_strings]:
  "c \<notin> set t \<Longrightarrow> LastIndexByte (s @ c # t) c = Some (length s)"
  by (induction s) auto

lemma LastIndexByte_Some:
  "LastIndexByte s c = Some i \<Longrightarrow> i < length s \<and> s ! i = c \<and> c \<notin> set (drop (Suc i) s)"
proof (induction s arbitrary: i)
  case (Cons x xs)
  show ?case
  proof (cases "LastIndexByte xs c")
    case None
    with Cons.prems show ?thesis by (auto split: if_splits)
  next
    case (Some j)
    with Cons.prems Cons.IH [OF Some] show ?thesis by auto
  qed
qed simp

lemma LastIndexByte_split:
  assumes "LastIndexByte s c = Some i"
  shows "s = take i s @ c # drop (Suc i) s"
  using LastIndexByte_Some [OF assms] by (auto simp: id_take_nth_drop [symmetric])

lemma Index_Some_le: "Index s sub = Some i \<Longrightarrow> i + length sub \<le> length s"
proof (induction s arbitrary: i)
  case (Cons x xs)
  show ?case
  proof (cases "prefix sub (x # xs)")
    case True
    with Cons.prems show ?thesis by (auto dest: prefix_length_le)
  next
    case False
    with Cons.prems obtain j where "Index xs sub = Some j" "i = Suc j" by auto
    with Cons.IH show ?thesis by auto
  qed
qed (auto split: if_splits)

lemma Contains_sublist: "Contains s sub \<longleftrightarrow> sublist sub s"
proof (induction s)
  case (Cons x xs)
  then show ?case by (auto simp: Contains_def sublist_Cons_right)
qed (auto simp: Contains_def)

section \<open>Splitting and joining\<close>

text \<open>
  \<open>strings.SplitN\<close> with a positive count: at most \<open>n\<close> pieces, the last one the unsplit
  rest. The program never passes an empty separator. \<open>strings.Split\<close> has no bound on the
  pieces; a string of length \<open>k\<close> has at most \<open>k + 1\<close>.
\<close>

fun SplitN :: "bytes \<Rightarrow> bytes \<Rightarrow> nat \<Rightarrow> bytes list" where
  "SplitN s sep 0 = []"
| "SplitN s sep (Suc 0) = [s]"
| "SplitN s sep (Suc (Suc n)) =
     (case Index s sep of
        None \<Rightarrow> [s]
      | Some i \<Rightarrow> take i s # SplitN (drop (i + length sep) s) sep (Suc n))"

definition Split :: "bytes \<Rightarrow> bytes \<Rightarrow> bytes list" where
  "Split s sep = SplitN s sep (Suc (length s))"

fun Join :: "bytes list \<Rightarrow> bytes \<Rightarrow> bytes" where
  "Join [] sep = []"
| "Join [x] sep = x"
| "Join (x # y # ys) sep = x @ sep @ Join (y # ys) sep"

lemma SplitN_nonempty: "0 < n \<Longrightarrow> SplitN s sep n \<noteq> []"
  by (induction s sep n rule: SplitN.induct) (auto split: option.splits)

lemma SplitN_length: "length (SplitN s sep n) \<le> n"
  by (induction s sep n rule: SplitN.induct) (auto split: option.splits)

lemma prefix_take: "prefix p s \<Longrightarrow> take (length p) s = p"
  by (auto simp: prefix_def)

lemma Index_Some_take:
  "Index s sub = Some i \<Longrightarrow> take (length sub) (drop i s) = sub"
proof (induction s arbitrary: i)
  case (Cons x xs)
  show ?case
  proof (cases "prefix sub (x # xs)")
    case True
    with Cons.prems show ?thesis by (auto dest: prefix_take)
  next
    case False
    with Cons.prems obtain j where "Index xs sub = Some j" "i = Suc j" by auto
    with Cons.IH show ?thesis by auto
  qed
qed (auto split: if_splits)

lemma Index_split:
  assumes "Index s sub = Some i"
  shows "s = take i s @ sub @ drop (i + length sub) s"
proof -
  have "drop i s = take (length sub) (drop i s) @ drop (length sub) (drop i s)"
    by (rule append_take_drop_id [symmetric])
  also have "\<dots> = sub @ drop (i + length sub) s"
    by (simp only: Index_Some_take [OF assms]) (simp add: add.commute)
  finally have "drop i s = sub @ drop (i + length sub) s" .
  then show ?thesis by (metis append_take_drop_id)
qed

text \<open>Splitting and joining again gives the string back.\<close>

lemma Join_SplitN: "0 < n \<Longrightarrow> Join (SplitN s sep n) sep = s"
proof (induction s sep n rule: SplitN.induct)
  case (3 s sep n)
  show ?case
  proof (cases "Index s sep")
    case None
    then show ?thesis by simp
  next
    case (Some i)
    obtain y ys where "SplitN (drop (i + length sep) s) sep (Suc n) = y # ys"
      using SplitN_nonempty [of "Suc n"] by (cases "SplitN (drop (i + length sep) s) sep (Suc n)") auto
    with "3.IH" [OF Some] have "Join (y # ys) sep = drop (i + length sep) s" by simp
    with Some \<open>SplitN _ _ _ = _\<close> show ?thesis
      using Index_split [OF Some] by simp
  qed
qed auto

text \<open>Splitting at a single byte, by structural recursion: what \<open>Split\<close> computes.\<close>

fun split_char :: "char \<Rightarrow> bytes \<Rightarrow> bytes list" where
  "split_char c [] = [[]]"
| "split_char c (x # xs) =
     (if x = c then [] # split_char c xs
      else (x # hd (split_char c xs)) # tl (split_char c xs))"

lemma split_char_nonempty [simp]: "split_char c s \<noteq> []"
  by (cases s) auto

lemma split_char_no_sep [simp]: "c \<notin> set s \<Longrightarrow> split_char c s = [s]"
  by (induction s) auto

lemma split_char_append [simp]:
  "split_char c (s @ c # t) = split_char c s @ split_char c t"
  by (induction s) (auto simp: hd_append tl_append split: list.splits)

lemma split_char_parts: "x \<in> set (split_char c s) \<Longrightarrow> c \<notin> set x"
proof (induction s arbitrary: x)
  case (Cons y ys)
  have "hd (split_char c ys) \<in> set (split_char c ys)" by simp
  with Cons show ?case
    by (auto split: if_splits dest: list.set_sel(2) [OF split_char_nonempty])
qed simp

lemma Index_single: "Index s [c] = IndexByte s c"
  by (induction s) auto

lemma SplitN_char: "length s \<le> n \<Longrightarrow> SplitN s [c] (Suc n) = split_char c s"
proof (induction n arbitrary: s)
  case (Suc n)
  show ?case
  proof (cases "IndexByte s c")
    case None
    then show ?thesis by (simp add: Index_single)
  next
    case (Some i)
    then have i: "i < length s" "c \<notin> set (take i s)" by (auto simp: IndexByte_Some)
    have "SplitN s [c] (Suc (Suc n)) = take i s # SplitN (drop (Suc i) s) [c] (Suc n)"
      using Some by (simp add: Index_single)
    also have "SplitN (drop (Suc i) s) [c] (Suc n) = split_char c (drop (Suc i) s)"
      using Suc.prems i by (intro Suc.IH) auto
    also have "take i s # split_char c (drop (Suc i) s) = split_char c (take i s @ c # drop (Suc i) s)"
      using i by simp
    finally show ?thesis using IndexByte_split [OF Some] by simp
  qed
qed simp

lemma Split_char [go_strings]: "Split s [c] = split_char c s"
  by (simp add: Split_def SplitN_char)

lemma Join_append_one:
  "xs \<noteq> [] \<Longrightarrow> Join (xs @ [y]) sep = Join xs sep @ sep @ y"
  by (induction xs sep rule: Join.induct) auto

lemma Join_Cons: "xs \<noteq> [] \<Longrightarrow> Join (x # xs) sep = x @ sep @ Join xs sep"
  by (cases xs) auto

lemma Join_split_char [simp]: "Join (split_char c s) [c] = s"
  using Join_SplitN [of "Suc (length s)" s "[c]"] by (simp add: SplitN_char)

section \<open>Trimming Unicode white space\<close>

text \<open>
  \<open>strings.TrimSpace\<close> cuts the runes with \<open>unicode.IsSpace\<close> at both ends. The list holds
  their UTF-8 encodings: the six ASCII ones, U+0085, U+00A0, U+1680, U+2000 to U+200A,
  U+2028, U+2029, U+202F, U+205F and U+3000.
\<close>

definition space_encodings :: "bytes list" where
  "space_encodings =
     [[CHR 0x09], [CHR 0x0A], [CHR 0x0B], [CHR 0x0C], [CHR 0x0D], [CHR 0x20],
      [CHR 0xC2, CHR 0x85], [CHR 0xC2, CHR 0xA0], [CHR 0xE1, CHR 0x9A, CHR 0x80],
      [CHR 0xE2, CHR 0x80, CHR 0x80], [CHR 0xE2, CHR 0x80, CHR 0x81],
      [CHR 0xE2, CHR 0x80, CHR 0x82], [CHR 0xE2, CHR 0x80, CHR 0x83],
      [CHR 0xE2, CHR 0x80, CHR 0x84], [CHR 0xE2, CHR 0x80, CHR 0x85],
      [CHR 0xE2, CHR 0x80, CHR 0x86], [CHR 0xE2, CHR 0x80, CHR 0x87],
      [CHR 0xE2, CHR 0x80, CHR 0x88], [CHR 0xE2, CHR 0x80, CHR 0x89],
      [CHR 0xE2, CHR 0x80, CHR 0x8A], [CHR 0xE2, CHR 0x80, CHR 0xA8],
      [CHR 0xE2, CHR 0x80, CHR 0xA9], [CHR 0xE2, CHR 0x80, CHR 0xAF],
      [CHR 0xE2, CHR 0x81, CHR 0x9F], [CHR 0xE3, CHR 0x80, CHR 0x80]]"

text \<open>Cut leading occurrences of any of the non-empty words \<open>es\<close>.\<close>

fun trim_left_words :: "bytes list \<Rightarrow> nat \<Rightarrow> bytes \<Rightarrow> bytes" where
  "trim_left_words es 0 s = s"
| "trim_left_words es (Suc n) s =
     (case find (\<lambda>e. prefix e s) es of
        None \<Rightarrow> s
      | Some e \<Rightarrow> trim_left_words es n (drop (length e) s))"

definition strings_TrimSpace :: "bytes \<Rightarrow> bytes" where
  "strings_TrimSpace s =
     (let l = trim_left_words space_encodings (length s) s
      in rev (trim_left_words (map rev space_encodings) (length l) (rev l)))"

section \<open>Letter case\<close>

text \<open>
  \<open>strings.ToLower\<close> and \<open>strings.ToUpper\<close> take a fast path for ASCII strings and map
  \<open>unicode.ToLower\<close> over the runes of the others; that table is the argument \<open>uni\<close>.
\<close>

definition is_ascii :: "char \<Rightarrow> bool" where
  "is_ascii c \<longleftrightarrow> byte_val c < 128"

definition lower_byte :: "char \<Rightarrow> char" where
  "lower_byte c = (if 65 \<le> byte_val c \<and> byte_val c \<le> 90 then char_of (byte_val c + 32) else c)"

definition upper_byte :: "char \<Rightarrow> char" where
  "upper_byte c = (if 97 \<le> byte_val c \<and> byte_val c \<le> 122 then char_of (byte_val c - 32) else c)"

definition strings_ToLower :: "(bytes \<Rightarrow> bytes) \<Rightarrow> bytes \<Rightarrow> bytes" where
  "strings_ToLower uni s = (if list_all is_ascii s then map lower_byte s else uni s)"

lemma lower_byte_idem [simp]: "lower_byte (lower_byte c) = lower_byte c"
  by (auto simp: lower_byte_def)

lemma upper_byte_idem [simp]: "upper_byte (upper_byte c) = upper_byte c"
  by (auto simp: upper_byte_def)

section \<open>Numbers in text\<close>

text \<open>\<open>strconv.Itoa\<close> and the verb \<open>%x\<close>: digits, most significant first.\<close>

definition digit_char :: "nat \<Rightarrow> char" where
  "digit_char d = (if d < 10 then char_of (48 + d) else char_of (87 + d))"

fun nat_digits :: "nat \<Rightarrow> nat \<Rightarrow> bytes" where
  "nat_digits b n =
     (if b < 2 \<or> n < b then [digit_char n]
      else nat_digits b (n div b) @ [digit_char (n mod b)])"

declare nat_digits.simps [simp del]

definition Itoa :: "int \<Rightarrow> bytes" where
  "Itoa i = (if i < 0 then CHR ''-'' # nat_digits 10 (nat (- i)) else nat_digits 10 (nat i))"

definition is_digit_char :: "char \<Rightarrow> bool" where
  "is_digit_char c \<longleftrightarrow> 48 \<le> byte_val c \<and> byte_val c \<le> 57"

fun dec_value :: "nat \<Rightarrow> bytes \<Rightarrow> nat" where
  "dec_value acc [] = acc"
| "dec_value acc (c # cs) = dec_value (10 * acc + (byte_val c - 48)) cs"

text \<open>
  \<open>strconv.Atoi\<close>: an optional sign, one or more decimal digits, a value within \<open>int\<close>.
  Every error is \<open>None\<close>: the program only tests for it.
\<close>

definition Atoi :: "bytes \<Rightarrow> int option" where
  "Atoi s =
     (let neg = (s \<noteq> [] \<and> hd s = CHR ''-'');
          ds = (if s \<noteq> [] \<and> (hd s = CHR ''-'' \<or> hd s = CHR ''+'') then tl s else s)
      in if ds = [] \<or> \<not> list_all is_digit_char ds then None
         else let v = int (dec_value 0 ds); n = (if neg then - v else v)
              in if - (2 ^ 63) \<le> n \<and> n < 2 ^ 63 then Some n else None)"

lemma byte_val_digit_char [simp]: "d < 10 \<Longrightarrow> byte_val (digit_char d) = 48 + d"
  by (simp add: digit_char_def of_char_of)

lemma is_digit_char_digit_char [simp]: "d < 10 \<Longrightarrow> is_digit_char (digit_char d)"
  by (simp add: is_digit_char_def)

lemma nat_digits_nonempty [simp]: "nat_digits b n \<noteq> []"
  by (subst nat_digits.simps) simp

lemma nat_digits_length: "2 \<le> b \<Longrightarrow> k < b ^ d \<Longrightarrow> 0 < d \<Longrightarrow> length (nat_digits b k) \<le> d"
proof (induction d arbitrary: k)
  case (Suc d)
  show ?case
  proof (cases "k < b")
    case True
    then show ?thesis by (subst nat_digits.simps) simp
  next
    case False
    then have "0 < d" using Suc.prems(2) by (cases d) auto
    moreover have "k div b < b ^ d" using Suc.prems by (simp add: less_mult_imp_div_less mult.commute)
    ultimately have "length (nat_digits b (k div b)) \<le> d" using Suc by simp
    then show ?thesis using False Suc.prems(1) by (subst nat_digits.simps) simp
  qed
qed simp

lemma nat_digits_are_digits: "list_all is_digit_char (nat_digits 10 n)"
proof (induction n rule: less_induct)
  case (less n)
  show ?case
    by (subst nat_digits.simps) (auto simp: less)
qed

lemma dec_value_append: "dec_value acc (s @ t) = dec_value (dec_value acc s) t"
  by (induction s arbitrary: acc) auto

lemma dec_value_nat_digits [simp]: "dec_value 0 (nat_digits 10 n) = n"
proof (induction n rule: less_induct)
  case (less n)
  show ?case
  proof (cases "n < 10")
    case True
    then show ?thesis by (subst nat_digits.simps) simp
  next
    case False
    then have "dec_value 0 (nat_digits 10 (n div 10)) = n div 10" by (intro less) auto
    with False show ?thesis
      by (subst nat_digits.simps) (simp add: dec_value_append)
  qed
qed

lemma nat_digits_hd_digit: "is_digit_char (hd (nat_digits 10 n))"
  using nat_digits_are_digits [of n] nat_digits_nonempty [of 10 n]
  by (cases "nat_digits 10 n") auto

lemma digit_not_sign [simp]: "is_digit_char c \<Longrightarrow> c \<noteq> CHR ''-'' \<and> c \<noteq> CHR ''+''"
  by (auto simp: is_digit_char_def)

text \<open>\<open>Atoi\<close> reads back what \<open>Itoa\<close> printed.\<close>

lemma Atoi_Itoa_nat: "n < 2 ^ 63 \<Longrightarrow> Atoi (Itoa (int n)) = Some (int n)"
  using nat_digits_hd_digit [of n] nat_digits_are_digits [of n]
  by (auto simp: Atoi_def Itoa_def Let_def)

section \<open>Lists\<close>

lemma find_skip: "\<forall>x \<in> set s. \<not> P x \<Longrightarrow> find P (s @ t) = find P t"
  by (induction s) auto

text \<open>The longest leading run, used by the trimming loops of the program.\<close>

lemma dropWhile_eq_drop: "dropWhile P s = drop (length (takeWhile P s)) s"
  by (induction s) auto

lemma takeWhile_all: "list_all P l \<Longrightarrow> takeWhile P l = l"
  by (induction l) auto

lemma dropWhile_all: "list_all P l \<Longrightarrow> dropWhile P l = []"
  by (induction l) auto

lemma dropWhile_none: "list_all (\<lambda>c. \<not> P c) s \<Longrightarrow> dropWhile P s = s"
  by (cases s) auto

section \<open>Splitting what was joined\<close>

lemma Index_before_sep:
  assumes "hd sep \<notin> set x" "sep \<noteq> []"
  shows "Index (x @ sep @ y) sep = Some (length x)"
  using assms
proof (induction x)
  case Nil
  then show ?case by (cases sep) auto
next
  case (Cons a x)
  then have "\<not> prefix sep ((a # x) @ sep @ y)" by (cases sep) auto
  with Cons show ?case by simp
qed

lemma Index_no_sep: "hd sep \<notin> set x \<Longrightarrow> sep \<noteq> [] \<Longrightarrow> Index x sep = None"
  by (induction x) (cases sep; auto)+

lemma SplitN_Join:
  assumes "sep \<noteq> []" "\<forall>x \<in> set xs. hd sep \<notin> set x" "xs \<noteq> []" "length xs \<le> n"
  shows "SplitN (Join xs sep) sep n = xs"
  using assms
proof (induction xs sep arbitrary: n rule: Join.induct)
  case (2 x sep)
  then obtain m where "n = Suc m" by (cases n) auto
  moreover have "Index x sep = None" using 2 by (intro Index_no_sep) auto
  ultimately show ?case by (cases m) simp_all
next
  case (3 x y ys sep)
  then obtain m where n: "n = Suc (Suc m)" by (cases n; cases "n - 1") auto
  have "SplitN (Join (y # ys) sep) sep (Suc m) = y # ys" using 3 n by (intro 3) auto
  then show ?case using 3 n by (simp add: Index_before_sep)
qed simp

lemma Join_length: "sep \<noteq> [] \<Longrightarrow> length xs \<le> Suc (length (Join xs sep))"
proof (induction xs sep rule: Join.induct)
  case (3 x y ys sep)
  then show ?case by (cases sep) auto
qed auto

lemma Split_Join:
  "sep \<noteq> [] \<Longrightarrow> \<forall>x \<in> set xs. hd sep \<notin> set x \<Longrightarrow> xs \<noteq> [] \<Longrightarrow> Split (Join xs sep) sep = xs"
  by (simp add: Split_def SplitN_Join Join_length)

lemma split_char_Join:
  assumes "ls \<noteq> []" "\<forall>l \<in> set ls. c \<notin> set l"
  shows "split_char c (Join ls [c]) = ls"
  using Split_Join [of "[c]" ls] assms by (simp add: Split_char)

end
