(* ===== verification/Go_Errors.thy ===== *)
theory Go_Errors
  imports Go_Prelude
begin

text \<open>
  Go error values, as far as the program tells them apart, and the predicates of
  proxy_unix.go and proxy.go that classify them. A panic of the source is the left summand
  of \<open>'a may_panic\<close>, with its message.
\<close>

type_synonym 'a may_panic = "string + 'a"

text \<open>
  \<open>OpError\<close> is \<open>*net.OpError\<close>: its \<open>Op\<close>, the text of its inner error, whether \<open>Timeout()\<close>
  holds and whether the inner error is \<open>EMFILE\<close> or \<open>ENFILE\<close>. \<open>NetError\<close> is any other
  \<open>net.Error\<close>. \<open>Wrapped\<close> is what \<open>fmt.Errorf\<close> with the verb \<open>%w\<close> returns; \<open>ErrorString\<close>
  is every other error, known by its text only. The named constructors are the program's
  and the library's error variables, which the code compares by identity.
\<close>

datatype err =
    EOF
  | UnexpectedEOF
  | ShortWrite
  | OpError string string bool bool
  | NetError bool string
  | ErrPageSent
  | ErrClientTimeout
  | ErrAuthRequired
  | CustomHttpErr
  | SocksProtocolErr
  | RetryError err
  | SocksRequestError nat string
  | Wrapped string err
  | ErrorString string

text \<open>
  The text of an error. That of \<open>OpError\<close> also names the network and the addresses, which are
  left out.
\<close>

fun err_Error :: "err \<Rightarrow> string" where
  "err_Error EOF = ''EOF''"
| "err_Error UnexpectedEOF = ''unexpected EOF''"
| "err_Error ShortWrite = ''short write''"
| "err_Error (OpError op inner t fd) = op @ '': '' @ inner"
| "err_Error (NetError t m) = m"
| "err_Error ErrPageSent = ''error page has sent''"
| "err_Error ErrClientTimeout = ''read client request timeout''"
| "err_Error ErrAuthRequired = ''authentication requried''"
| "err_Error CustomHttpErr = ''CustomHttpErr''"
| "err_Error SocksProtocolErr = ''socks protocol error''"
| "err_Error (RetryError e) = err_Error e"
| "err_Error (SocksRequestError n m) = m"
| "err_Error (Wrapped m e) = m @ err_Error e"
| "err_Error (ErrorString m) = m"

definition connreset_text :: string where
  "connreset_text = ''connection reset by peer''"

fun isErrConnReset :: "err \<Rightarrow> bool" where
  "isErrConnReset (OpError op inner t fd) = Contains inner connreset_text"
| "isErrConnReset _ = False"

fun isErrOpWrite :: "err \<Rightarrow> bool" where
  "isErrOpWrite (OpError op inner t fd) = (op = ''write'')"
| "isErrOpWrite _ = False"

fun isErrOpRead :: "err \<Rightarrow> bool" where
  "isErrOpRead (OpError op inner t fd) = (op = ''read'')"
| "isErrOpRead _ = False"

fun isErrTooManyOpenFd :: "err \<Rightarrow> bool" where
  "isErrTooManyOpenFd (OpError op inner t fd) = fd"
| "isErrTooManyOpenFd _ = False"

fun isErrTimeout :: "err \<Rightarrow> bool" where
  "isErrTimeout (OpError op inner t fd) = t"
| "isErrTimeout (NetError t msg) = t"
| "isErrTimeout _ = False"

fun isErrRetry :: "err option \<Rightarrow> bool" where
  "isErrRetry (Some (RetryError e)) = True"
| "isErrRetry _ = False"

definition isHttpErrCode :: "int \<Rightarrow> err \<Rightarrow> bool" where
  "isHttpErrCode httpErrorCode e =
     (if httpErrorCode \<le> 0 then False else if e = CustomHttpErr then True else False)"

text \<open>\<open>parentEmpty\<close> is \<open>parentProxy.empty()\<close>.\<close>

definition maybeBlocked :: "int \<Rightarrow> bool \<Rightarrow> err \<Rightarrow> bool" where
  "maybeBlocked httpErrorCode parentEmpty e =
     (if parentEmpty then False
      else isErrTimeout e \<or> isErrConnReset e \<or> isHttpErrCode httpErrorCode e)"

lemma isErrRetry_iff: "isErrRetry e \<longleftrightarrow> (\<exists>e'. e = Some (RetryError e'))"
  by (cases e rule: isErrRetry.cases) auto

lemma isErrTimeout_cases:
  "isErrTimeout e \<Longrightarrow> (\<exists>op i fd. e = OpError op i True fd) \<or> (\<exists>m. e = NetError True m)"
  by (cases e rule: isErrTimeout.cases) auto

lemma maybeBlocked_not_named [simp]:
  "\<not> maybeBlocked h p EOF" "\<not> maybeBlocked h p ErrPageSent"
  "\<not> maybeBlocked h p (RetryError e)" "\<not> maybeBlocked h p (ErrorString m)"
  by (auto simp: maybeBlocked_def isHttpErrCode_def)

end
