(* ===== verification/Util.thy ===== *)
theory Util
  imports Go_Errors
begin

unbundle bit_operations_syntax

text \<open>
  util.go: ASCII case mapping, white-space trimming, field splitting, the integer parser
  used for content lengths and chunk sizes, IPv4 masks and the domain of a host name.
\<close>

section \<open>Case mapping and white space\<close>

definition ASCIIToUpperInplace :: "bytes \<Rightarrow> bytes" where
  "ASCIIToUpperInplace b = map upper_byte b"

definition ASCIIToLowerInplace :: "bytes \<Rightarrow> bytes" where
  "ASCIIToLowerInplace b = map lower_byte b"

definition ASCIIToUpper :: "bytes \<Rightarrow> bytes" where
  "ASCIIToUpper b = map upper_byte b"

definition ASCIIToLower :: "bytes \<Rightarrow> bytes" where
  "ASCIIToLower b = map lower_byte b"

definition IsDigit :: "char \<Rightarrow> bool" where
  "IsDigit b \<longleftrightarrow> byte_val (CHR ''0'') \<le> byte_val b \<and> byte_val b \<le> byte_val (CHR ''9'')"

text \<open>The table \<open>spaceTbl\<close> holds four bytes.\<close>

definition IsSpace :: "char \<Rightarrow> bool" where
  "IsSpace b \<longleftrightarrow> b = CHR 0x09 \<or> b = CHR 0x0A \<or> b = CHR 0x0D \<or> b = CHR '' ''"

text \<open>\<open>st\<close> and \<open>e\<close> are where the two index loops of \<open>TrimSpace\<close> stop (\<open>e\<close> is \<open>end + 1\<close>).\<close>

definition TrimSpace :: "bytes \<Rightarrow> bytes" where
  "TrimSpace s =
     (let st = length (takeWhile IsSpace s)
      in if st = length s then []
         else let e = length s - length (takeWhile IsSpace (rev s))
              in take (e - st) (drop st s))"

definition TrimTrailingSpace :: "bytes \<Rightarrow> bytes" where
  "TrimTrailingSpace s = take (length s - length (takeWhile IsSpace (rev s))) s"

lemma TrimTrailingSpace_rev: "TrimTrailingSpace s = rev (dropWhile IsSpace (rev s))"
  by (simp add: TrimTrailingSpace_def dropWhile_eq_drop rev_drop)

lemma TrimSpace_rev: "TrimSpace s = rev (dropWhile IsSpace (rev (dropWhile IsSpace s)))"
proof (cases "list_all IsSpace s")
  case True
  then have "\<forall>x \<in> set s. IsSpace x" by (simp add: list_all_iff)
  then show ?thesis
    by (simp add: TrimSpace_def Let_def takeWhile_eq_all_conv [THEN iffD2]
        dropWhile_eq_Nil_conv [THEN iffD2])
next
  case False
  then obtain x where x: "x \<in> set s" "\<not> IsSpace x" by (auto simp: list_all_iff)
  let ?l = "takeWhile IsSpace s" and ?d = "dropWhile IsSpace s"
  have s: "s = ?l @ ?d" by simp
  have "?d \<noteq> []" using x by auto
  then have "length ?l \<noteq> length s" using s by (metis append_self_conv append_eq_conv_conj take_all_iff order_refl)
  have "\<exists>y \<in> set ?d. \<not> IsSpace y"
    using \<open>?d \<noteq> []\<close> hd_dropWhile [OF \<open>?d \<noteq> []\<close>] by (meson list.set_sel(1))
  then have tw: "takeWhile IsSpace (rev s) = takeWhile IsSpace (rev ?d)"
    by (subst s, subst rev_append) (metis set_rev takeWhile_append1)
  have "take (length s - length (takeWhile IsSpace (rev s)) - length ?l) (drop (length ?l) s)
        = take (length ?d - length (takeWhile IsSpace (rev ?d))) ?d"
  proof -
    have "length s = length ?l + length ?d" by (subst s) (simp del: takeWhile_dropWhile_id)
    moreover have "drop (length ?l) s = ?d" by (simp add: dropWhile_eq_drop)
    ultimately show ?thesis by (simp add: tw)
  qed
  also have "\<dots> = rev (dropWhile IsSpace (rev ?d))"
    by (simp add: dropWhile_eq_drop [of IsSpace "rev ?d"] rev_drop)
  finally show ?thesis
    using \<open>length ?l \<noteq> length s\<close> by (simp add: TrimSpace_def Let_def)
qed

lemma TrimSpace_Nil_iff: "TrimSpace s = [] \<longleftrightarrow> list_all IsSpace s"
proof -
  have "TrimSpace s = [] \<longleftrightarrow> (\<forall>x \<in> set (dropWhile IsSpace s). IsSpace x)"
    by (simp add: TrimSpace_rev)
  also have "\<dots> \<longleftrightarrow> list_all IsSpace s"
    by (auto simp: list_all_iff dest: set_dropWhileD) (metis dropWhile_eq_Nil_conv hd_dropWhile hd_in_set)
  finally show ?thesis .
qed

lemma TrimSpace_ends:
  assumes "TrimSpace s \<noteq> []"
  shows "\<not> IsSpace (hd (TrimSpace s)) \<and> \<not> IsSpace (last (TrimSpace s))"
proof -
  let ?d = "dropWhile IsSpace s" and ?t = "dropWhile IsSpace (rev (dropWhile IsSpace s))"
  have t: "TrimSpace s = rev ?t" by (rule TrimSpace_rev)
  with assms have "?t \<noteq> []" by simp
  then have l: "\<not> IsSpace (last (TrimSpace s))"
    using hd_dropWhile [OF \<open>?t \<noteq> []\<close>] by (simp add: t last_rev)
  have "?d \<noteq> []" using \<open>?t \<noteq> []\<close> by force
  obtain p where p: "rev ?d = p @ ?t" by (metis takeWhile_dropWhile_id)
  then have "?d = rev ?t @ rev p" by (metis rev_append rev_rev_ident)
  then have "hd ?d = hd (rev ?t)" using \<open>?t \<noteq> []\<close> by (metis hd_append rev_is_Nil_conv)
  then have "\<not> IsSpace (hd (rev ?t))" using hd_dropWhile [OF \<open>?d \<noteq> []\<close>] by simp
  with l t show ?thesis by simp
qed

lemma TrimSpace_sublist: "sublist (TrimSpace s) s"
proof -
  have "suffix (dropWhile IsSpace (rev (dropWhile IsSpace s))) (rev (dropWhile IsSpace s))"
    by (rule suffix_dropWhile)
  then have "prefix (TrimSpace s) (dropWhile IsSpace s)"
    by (simp only: suffix_to_prefix TrimSpace_rev rev_rev_ident)
  then show ?thesis
    by (meson prefix_imp_sublist sublist_order.order_trans suffix_dropWhile suffix_imp_sublist)
qed

section \<open>Splitting a line into fields\<close>

text \<open>
  The loop of \<open>FieldsN\<close> over the bytes not read yet. \<open>cur\<close> is \<open>None\<close> while \<open>fieldStart\<close> is
  -1 and otherwise the bytes \<open>s[fieldStart:i]\<close>; \<open>res\<close> are the fields stored so far (\<open>na\<close> is
  its length). At the end it returns \<open>s[fieldStart:]\<close>, if a field was started.
\<close>

definition is_sep :: "char \<Rightarrow> bool" where
  "is_sep c \<longleftrightarrow> c = CHR '' '' \<or> c = CHR 0x09"

fun FieldsN_loop :: "nat \<Rightarrow> bytes \<Rightarrow> bytes option \<Rightarrow> bytes list \<Rightarrow> bytes option \<times> bytes list" where
  "FieldsN_loop n [] cur res = (cur, res)"
| "FieldsN_loop n (c # rest) cur res =
     (let issep = is_sep c;
          cur1 = (if cur = None \<and> \<not> issep then Some [] else cur)
      in case cur1 of
           None \<Rightarrow> FieldsN_loop n rest None res
         | Some f \<Rightarrow>
             if issep then
               (if length res = n - 1 then (Some (f @ c # rest), res)
                else FieldsN_loop n rest None (res @ [f]))
             else FieldsN_loop n rest (Some (f @ [c])) res)"

definition FieldsN_finish :: "bytes option \<times> bytes list \<Rightarrow> bytes list" where
  "FieldsN_finish p =
     (case p of
        (None, res) \<Rightarrow> res
      | (Some f, res) \<Rightarrow>
          let t = TrimSpace f in if length t \<noteq> 0 then res @ [t] else res)"

definition FieldsN :: "bytes \<Rightarrow> int \<Rightarrow> bytes list" where
  "FieldsN s n = (if n \<le> 0 then [] else FieldsN_finish (FieldsN_loop (nat n) s None []))"

text \<open>
  What the comment of \<open>FieldsN\<close> promises, without indices: skip separators, cut a word,
  and when only one field is left (or the line ends) give the trimmed remainder.
\<close>

fun fields_ref :: "nat \<Rightarrow> bytes \<Rightarrow> bytes list" where
  "fields_ref 0 s = []"
| "fields_ref (Suc n) s =
     (let s' = dropWhile is_sep s;
          w = takeWhile (\<lambda>c. \<not> is_sep c) s';
          rest = dropWhile (\<lambda>c. \<not> is_sep c) s'
      in if s' = [] then []
         else if n = 0 \<or> rest = [] then (if TrimSpace s' = [] then [] else [TrimSpace s'])
         else w # fields_ref n rest)"

lemma fields_ref_sep: "is_sep c \<Longrightarrow> fields_ref n (c # s) = fields_ref n s"
  by (cases n) auto

lemma fields_ref_word:
  assumes "f \<noteq> []" "\<forall>c \<in> set f. \<not> is_sep c"
  shows "fields_ref (Suc n) f = (if TrimSpace f = [] then [] else [TrimSpace f])"
    and "is_sep c \<Longrightarrow> fields_ref (Suc n) (f @ c # rest) =
           (if n = 0 then (if TrimSpace (f @ c # rest) = [] then [] else [TrimSpace (f @ c # rest)])
            else f # fields_ref n rest)"
proof -
  have d: "dropWhile is_sep (f @ t) = f @ t" for t
    using assms by (cases f) auto
  show "fields_ref (Suc n) f = (if TrimSpace f = [] then [] else [TrimSpace f])"
    using assms d [of "[]"] by (simp add: Let_def dropWhile_eq_Nil_conv [THEN iffD2])
  assume c: "is_sep c"
  have "takeWhile (\<lambda>c. \<not> is_sep c) (f @ c # rest) = f"
    "dropWhile (\<lambda>c. \<not> is_sep c) (f @ c # rest) = c # rest"
    using assms(2) c by (auto simp: takeWhile_append dropWhile_append)
  then show "fields_ref (Suc n) (f @ c # rest) =
      (if n = 0 then (if TrimSpace (f @ c # rest) = [] then [] else [TrimSpace (f @ c # rest)])
       else f # fields_ref n rest)"
    using assms(1) c by (simp add: Let_def d fields_ref_sep)
qed

lemma FieldsN_loop_ref:
  assumes "length res < n" "case cur of None \<Rightarrow> True | Some f \<Rightarrow> f \<noteq> [] \<and> (\<forall>c \<in> set f. \<not> is_sep c)"
  shows "FieldsN_finish (FieldsN_loop n s cur res) =
           res @ fields_ref (n - length res) (case cur of None \<Rightarrow> s | Some f \<Rightarrow> f @ s)"
  using assms
proof (induction s arbitrary: cur res)
  case Nil
  then obtain m where "n - length res = Suc m" by (metis Suc_diff_Suc)
  with Nil show ?case
    by (auto simp: FieldsN_finish_def fields_ref_word simp del: fields_ref.simps(2)
        split: option.splits) (simp add: fields_ref.simps)
next
  case (Cons c s)
  then obtain m where m: "n - length res = Suc m" by (metis Suc_diff_Suc)
  show ?case
  proof (cases cur)
    case None
    show ?thesis
    proof (cases "is_sep c")
      case True
      with None Cons.IH [of res None] Cons.prems show ?thesis by (simp add: fields_ref_sep)
    next
      case False
      with None Cons.IH [of res "Some [c]"] Cons.prems show ?thesis by simp
    qed
  next
    case (Some f)
    with Cons.prems have f: "f \<noteq> []" "\<forall>c \<in> set f. \<not> is_sep c" by auto
    show ?thesis
    proof (cases "is_sep c")
      case sep: True
      show ?thesis
      proof (cases "m = 0")
        case True
        then have "length res = n - 1" using m by simp
        with Some sep True f m show ?thesis
          by (simp add: fields_ref_word FieldsN_finish_def Let_def del: fields_ref.simps)
      next
        case False
        then have "length res \<noteq> n - 1" "length (res @ [f]) < n" "n - length (res @ [f]) = m"
          using m by auto
        with Some sep False f m Cons.IH [of "res @ [f]" None] show ?thesis
          by (simp add: fields_ref_word del: fields_ref.simps)
      qed
    next
      case False
      with Some f Cons.prems Cons.IH [of res "Some (f @ [c])"] show ?thesis by simp
    qed
  qed
qed

lemma FieldsN_eq_ref: "FieldsN s n = fields_ref (nat n) s"
  using FieldsN_loop_ref [of "[]" "nat n" None s] by (simp add: FieldsN_def)

lemma fields_ref_length: "length (fields_ref n s) \<le> n"
  by (induction n arbitrary: s) (auto simp: Let_def)

lemma fields_ref_nonempty: "f \<in> set (fields_ref n s) \<Longrightarrow> f \<noteq> []"
proof (induction n arbitrary: s)
  case (Suc n)
  show ?case
  proof (cases "dropWhile is_sep s")
    case Nil
    with Suc.prems show ?thesis by simp
  next
    case (Cons c t)
    then have "\<not> is_sep c" by (metis hd_dropWhile list.distinct(1) list.sel(1))
    with Cons Suc show ?thesis by (auto simp: Let_def split: if_splits)
  qed
qed simp

section \<open>Integers in headers and chunk sizes\<close>

text \<open>
  \<open>digitTbl\<close> as the source initialises it: the composite literal lists the first 128
  entries, and Go zeroes the other 128.
\<close>

definition digitTbl :: "int list" where
  "digitTbl =
     replicate 48 (-1) @
     [0, 1, 2, 3, 4, 5, 6, 7, 8, 9, -1, -1, -1, -1, -1, -1] @
     [-1, 10, 11, 12, 13, 14, 15, -1, -1, -1, -1, -1, -1, -1, -1, -1] @
     replicate 16 (-1) @
     [-1, 10, 11, 12, 13, 14, 15, -1, -1, -1, -1, -1, -1, -1, -1, -1] @
     replicate 16 (-1) @
     replicate 128 0"

fun ParseInt_loop :: "int \<Rightarrow> 64 word \<Rightarrow> bytes \<Rightarrow> err + 64 word" where
  "ParseInt_loop base n [] = Inr n"
| "ParseInt_loop base n (d # ds) =
     (let v = digitTbl ! byte_val d
      in if v = -1 then Inl (ErrorString ''invalid number'')
         else if v \<ge> base then Inl (ErrorString ''invalid base number'')
         else ParseInt_loop base (n * word_of_int base + word_of_int v) ds)"

definition ParseIntFromBytes :: "bytes \<Rightarrow> int \<Rightarrow> err + int" where
  "ParseIntFromBytes b base =
     (if base \<noteq> 10 \<and> base \<noteq> 16 then Inl (ErrorString (''invalid base: '' @ Itoa base))
      else if b = [] then Inl (ErrorString ''parse int from empty bytes'')
      else let neg = (hd b = CHR ''-'');
               ds = (if hd b = CHR ''+'' \<or> hd b = CHR ''-'' then tl b else b)
           in case ParseInt_loop base 0 ds of
                Inl e \<Rightarrow> Inl e
              | Inr n \<Rightarrow> Inr (sint (if neg then - n else n)))"

lemma byte_val_digit_char_hex: "d < 16 \<Longrightarrow> byte_val (digit_char d) = (if d < 10 then 48 + d else 87 + d)"
  by (simp add: digit_char_def of_char_of)

lemma digitTbl_digit_char:
  assumes "d < 16"
  shows "digitTbl ! byte_val (digit_char d) = int d"
proof -
  from assms have "d = 0 \<or> d = 1 \<or> d = 2 \<or> d = 3 \<or> d = 4 \<or> d = 5 \<or> d = 6 \<or> d = 7 \<or>
    d = 8 \<or> d = 9 \<or> d = 10 \<or> d = 11 \<or> d = 12 \<or> d = 13 \<or> d = 14 \<or> d = 15" by arith
  then show ?thesis
    by (auto simp: byte_val_digit_char_hex digitTbl_def nth_append simp del: byte_val_digit_char)
qed

lemma digitTbl_high: "128 \<le> byte_val c \<Longrightarrow> digitTbl ! byte_val c = 0"
proof -
  assume "128 \<le> byte_val c"
  then obtain k where k: "byte_val c = 128 + k" by (rule less_eqE)
  then have "k < 128" using nat_of_char_less_256 [of c] by linarith
  then show ?thesis by (simp add: k digitTbl_def nth_append)
qed

lemma ParseInt_loop_append:
  "ParseInt_loop base n (s @ t) =
     (case ParseInt_loop base n s of Inl e \<Rightarrow> Inl e | Inr m \<Rightarrow> ParseInt_loop base m t)"
  by (induction s arbitrary: n) (auto simp: Let_def)

lemma ParseInt_loop_digits:
  assumes "base = 10 \<or> base = 16"
  shows "ParseInt_loop (int base) 0 (nat_digits base k) = Inr (of_nat k)"
proof (induction k rule: less_induct)
  case (less k)
  have dig: "ParseInt_loop (int base) n [digit_char d] = Inr (n * of_nat base + of_nat d)"
    if "d < base" for n d
    using that assms digitTbl_digit_char [of d] by (auto simp: Let_def simp del: byte_val_digit_char)
  show ?case
  proof (cases "k < base")
    case True
    with dig [of k 0] show ?thesis by (subst nat_digits.simps) simp
  next
    case False
    with assms have "k div base < k" "\<not> base < 2" by auto
    with less have "ParseInt_loop (int base) 0 (nat_digits base (k div base)) = Inr (of_nat (k div base))"
      by blast
    moreover have "(of_nat (k div base) * of_nat base + of_nat (k mod base) :: 64 word) = of_nat k"
      by (metis div_mult_mod_eq of_nat_add of_nat_mult)
    ultimately show ?thesis
      using False \<open>\<not> base < 2\<close> assms
      by (subst nat_digits.simps) (auto simp: ParseInt_loop_append dig simp del: ParseInt_loop.simps)
  qed
qed

lemma nat_digits_hd_not_sign:
  assumes "base = 10 \<or> base = 16"
  shows "hd (nat_digits base k) \<noteq> CHR ''+'' \<and> hd (nat_digits base k) \<noteq> CHR ''-''"
proof (induction k rule: less_induct)
  case (less k)
  have dig: "digit_char d \<noteq> CHR ''+'' \<and> digit_char d \<noteq> CHR ''-''" if "d < 16" for d
    using byte_val_digit_char_hex [OF that] by (auto split: if_splits)
  show ?case
  proof (cases "k < base")
    case True
    with dig assms show ?thesis by (subst (1 2) nat_digits.simps) auto
  next
    case False
    with assms less [of "k div base"] show ?thesis by (subst (1 2) nat_digits.simps) auto
  qed
qed

lemma sint_of_nat_64: "k < 2 ^ 63 \<Longrightarrow> sint (of_nat k :: 64 word) = int k"
  using go_int_id [of "int k"] by (simp add: go_int_def)

lemma ParseInt_nat_digits:
  assumes "base = 10 \<or> base = 16" "k < 2 ^ 63"
  shows "ParseIntFromBytes (nat_digits base k) (int base) = Inr (int k)"
proof -
  have "ParseInt_loop (int base) 0 (nat_digits base k) = Inr (of_nat k)"
    using assms(1) by (rule ParseInt_loop_digits)
  then show ?thesis
    using assms nat_digits_hd_not_sign [OF assms(1), of k]
    by (auto simp: ParseIntFromBytes_def Let_def sint_of_nat_64)
qed

section \<open>IPv4 hosts and masks\<close>

text \<open>\<open>hostIsIP\<close> returns the pair (is an IP address, is private).\<close>

definition octet_ok :: "bytes \<Rightarrow> bool" where
  "octet_ok i =
     (if length i = 0 \<or> length i > 3 then False
      else case Atoi i of None \<Rightarrow> False | Some n \<Rightarrow> \<not> (n < 0 \<or> n > 255))"

definition hostIsIP :: "bytes \<Rightarrow> bool \<times> bool" where
  "hostIsIP host =
     (let part = Split host ''.''
      in if length part \<noteq> 4 then (False, False)
         else if \<not> list_all octet_ok part then (False, False)
         else if part ! 0 = ''127'' \<or> part ! 0 = ''10'' \<or> (part ! 0 = ''192'' \<and> part ! 1 = ''168'')
         then (True, True)
         else if part ! 0 = ''172'' \<and>
                 (case Atoi (part ! 1) of None \<Rightarrow> False | Some n \<Rightarrow> 16 \<le> n \<and> n \<le> 31)
         then (True, True)
         else (True, False))"

text \<open>
  The mask loop: \<open>k\<close> bytes are left, \<open>n\<close> bits are still to be set. In
  \<open>^byte(1<<(uint8(8-n)) - 1)\<close> the constant 1 has type byte, so a shift by 8 gives 0.
\<close>

definition mask_byte :: "int \<Rightarrow> char" where
  "mask_byte n =
     char_of (unat (NOT (push_bit (unat (word_of_int (8 - n) :: 8 word)) (1 :: 8 word) - 1)))"

fun mask_loop :: "nat \<Rightarrow> int \<Rightarrow> bytes" where
  "mask_loop 0 n = []"
| "mask_loop (Suc k) n =
     (if n \<ge> 8 then CHR 0xFF # mask_loop k (n - 8)
      else mask_byte n # replicate k (CHR 0x00))"

definition NewNbitIPv4Mask :: "int \<Rightarrow> bytes may_panic" where
  "NewNbitIPv4Mask n =
     (if n > 32 then Inl ''NewNbitIPv4Mask: bit number > 32'' else Inr (mask_loop 4 n))"

text \<open>The bits of a byte string, most significant first.\<close>

definition byte_bits :: "char \<Rightarrow> bool list" where
  "byte_bits c =
     (let v = byte_val c in [bit v 7, bit v 6, bit v 5, bit v 4, bit v 3, bit v 2, bit v 1, bit v 0])"


lemma replicate_numerals:
  "replicate (numeral k) x = x # replicate (pred_numeral k) x"
  by (simp add: numeral_eq_Suc)

lemma byte_bits_partial:
  assumes "0 \<le> n" "n < 8"
  shows "byte_bits (mask_byte n) = replicate (nat n) True @ replicate (8 - nat n) False"
proof -
  from assms have "n = 0 \<or> n = 1 \<or> n = 2 \<or> n = 3 \<or> n = 4 \<or> n = 5 \<or> n = 6 \<or> n = 7" by arith
  then show ?thesis by (elim disjE) (simp_all add: byte_bits_def mask_byte_def Let_def bit_0 replicate_numerals)
qed

lemma byte_bits_full: "byte_bits (CHR 0xFF) = replicate 8 True"
  by (simp add: byte_bits_def mask_byte_def Let_def bit_0 replicate_numerals)

lemma byte_bits_zero: "byte_bits (CHR 0x00) = replicate 8 False"
  by (simp add: byte_bits_def mask_byte_def Let_def bit_0 replicate_numerals)

lemma mask_loop_bits:
  "0 \<le> n \<Longrightarrow> n \<le> 8 * int k \<Longrightarrow>
   concat (map byte_bits (mask_loop k n)) = replicate (nat n) True @ replicate (8 * k - nat n) False"
proof (induction k arbitrary: n)
  case (Suc k)
  show ?case
  proof (cases "n \<ge> 8")
    case True
    then have "concat (map byte_bits (mask_loop k (n - 8))) =
        replicate (nat (n - 8)) True @ replicate (8 * k - nat (n - 8)) False"
      using Suc by simp
    moreover have "nat n = 8 + nat (n - 8)" using True by simp
    ultimately show ?thesis
      using True by (simp add: byte_bits_full replicate_add)
  next
    case False
    then have "nat n \<le> 8" by simp
    then have "replicate (8 - nat n) False @ replicate (8 * k) False = replicate (8 + 8 * k - nat n) False"
      by (simp add: replicate_add [symmetric])
    moreover have "concat (map byte_bits (replicate k (CHR 0x00))) = replicate (8 * k) False"
      by (induction k) (simp_all add: byte_bits_zero replicate_add [symmetric])
    ultimately show ?thesis
      using False Suc.prems
      by (simp add: byte_bits_partial del: map_replicate)
  qed
qed simp

section \<open>The domain of a host\<close>

definition topLevelDomain :: "bytes \<Rightarrow> bool" where
  "topLevelDomain s \<longleftrightarrow> s \<in> {''ac'', ''co'', ''com'', ''edu'', ''gov'', ''net'', ''org''}"

definition trimLastDot :: "bytes \<Rightarrow> bytes" where
  "trimLastDot s = (if length s > 0 \<and> last s = CHR ''.'' then take (length s - 1) s else s)"

definition host2Domain :: "bytes \<Rightarrow> bytes" where
  "host2Domain host0 =
     (let (isIP, isPrivate) = hostIsIP host0
      in if isPrivate then []
         else if isIP then host0
         else let host = trimLastDot host0
              in case LastIndexByte host (CHR ''.'') of
                   None \<Rightarrow> []
                 | Some lastDot \<Rightarrow>
                     (case LastIndexByte (take lastDot host) (CHR ''.'') of
                        None \<Rightarrow> host
                      | Some dot2ndLast \<Rightarrow>
                          let part = take (lastDot - (dot2ndLast + 1)) (drop (dot2ndLast + 1) host)
                          in if topLevelDomain part then
                               (case LastIndexByte (take dot2ndLast host) (CHR ''.'') of
                                  None \<Rightarrow> host
                                | Some dot3rdLast \<Rightarrow> drop (dot3rdLast + 1) host)
                             else drop (dot2ndLast + 1) host))"

text \<open>
  What the domain is in terms of the dot-separated labels: the last two, or the last three
  when the last but one is a generic top-level name (\<open>bbc.co.uk\<close>); nothing for a host with
  one label.
\<close>

definition domain_of_labels :: "bytes list \<Rightarrow> bytes" where
  "domain_of_labels ls =
     (let n = length ls
      in if n < 2 then []
         else let k = (if n > 2 \<and> topLevelDomain (ls ! (n - 2)) then 3 else 2)
              in Join (drop (n - min n k) ls) ''.'')"

lemma labels_snoc:
  assumes "LastIndexByte h c = Some i"
  shows "split_char c h = split_char c (take i h) @ [drop (Suc i) h]"
proof -
  have "c \<notin> set (drop (Suc i) h)" using LastIndexByte_Some [OF assms] by simp
  moreover have "split_char c (take i h @ c # drop (Suc i) h)
      = split_char c (take i h) @ split_char c (drop (Suc i) h)" by simp
  ultimately show ?thesis
    using LastIndexByte_split [OF assms] by simp
qed

text \<open>\<open>Suc (LastIndexByte \<dots>)\<close> bytes are cut off with the leading labels.\<close>

lemma Join_last_labels:
  assumes "LastIndexByte (take i h) c = Some j" "i \<le> length h"
  shows "drop (Suc j) h = drop (Suc j) (take i h) @ drop i h"
  using LastIndexByte_Some [OF assms(1)] assms(2)
  by (metis append_take_drop_id drop_append length_take min.absorb2 Suc_leI diff_is_0_eq drop0)

lemma host2Domain_eq_labels:
  "host2Domain h =
     (if snd (hostIsIP h) then [] else if fst (hostIsIP h) then h
      else domain_of_labels (Split (trimLastDot h) ''.''))"
proof (cases "hostIsIP h")
  case (Pair isIP isPrivate)
  let ?h = "trimLastDot h" and ?d = "CHR ''.''"
  show ?thesis
  proof (cases "isPrivate \<or> isIP")
    case True
    with Pair show ?thesis by (auto simp: host2Domain_def)
  next
    case ip: False
    show ?thesis
    proof (cases "LastIndexByte ?h ?d")
      case None
      then have "split_char ?d ?h = [?h]" by simp
      with None Pair ip show ?thesis
        by (simp add: host2Domain_def domain_of_labels_def Split_char)
    next
      case (Some i)
      then have i: "i < length ?h" "?h ! i = ?d" using LastIndexByte_Some by auto
      then have di: "drop i ?h = ?d # drop (Suc i) ?h" by (metis Cons_nth_drop_Suc)
      note l1 = labels_snoc [OF Some]
      show ?thesis
      proof (cases "LastIndexByte (take i ?h) ?d")
        case None
        then have "split_char ?d ?h = [take i ?h, drop (Suc i) ?h]" using l1 by simp
        moreover have "Join (split_char ?d ?h) [?d] = ?h" by simp
        ultimately show ?thesis
          using Pair ip Some None
          by (simp add: host2Domain_def domain_of_labels_def Split_char)
      next
        case j: (Some j)
        then have jl: "j < i" using LastIndexByte_Some [OF j] i by auto
        then have tj: "take j (take i ?h) = take j ?h" by simp
        have part: "drop (Suc j) (take i ?h) = take (i - Suc j) (drop (Suc j) ?h)"
          by (simp add: drop_take)
        let ?part = "take (i - Suc j) (drop (Suc j) ?h)" and ?l = "drop (Suc i) ?h"
        have l2: "split_char ?d ?h = split_char ?d (take j ?h) @ [?part, ?l]"
          using l1 labels_snoc [OF j] tj part by simp
        have two: "drop (Suc j) ?h = ?part @ ?d # ?l"
          using Join_last_labels [OF j] i(1) part di by simp
        show ?thesis
        proof (cases "topLevelDomain ?part")
          case False
          with Pair ip Some j l2 two show ?thesis
            by (simp add: host2Domain_def domain_of_labels_def Split_char Let_def nth_append)
        next
          case tld: True
          show ?thesis
          proof (cases "LastIndexByte (take j ?h) ?d")
            case None
            then have "split_char ?d ?h = [take j ?h, ?part, ?l]" using l2 by simp
            moreover have "Join (split_char ?d ?h) [?d] = ?h" by simp
            ultimately show ?thesis
              using Pair ip Some j tld None
              by (simp add: host2Domain_def domain_of_labels_def Split_char Let_def)
          next
            case k: (Some k)
            have kj: "k < j" using LastIndexByte_Some [OF k] jl i by auto
            let ?p3 = "drop (Suc k) (take j ?h)"
            have l3: "split_char ?d ?h = split_char ?d (take k ?h) @ [?p3, ?part, ?l]"
              using l2 labels_snoc [OF k] kj by simp
            have "drop j ?h = ?d # drop (Suc j) ?h"
              using LastIndexByte_Some [OF j] jl i by (metis Cons_nth_drop_Suc less_trans nth_take)
            then have three: "drop (Suc k) ?h = ?p3 @ ?d # ?part @ ?d # ?l"
              using Join_last_labels [OF k] jl i two by simp
            have "length (split_char ?d (take k ?h)) > 0" by simp
            with Pair ip Some j tld k l3 three show ?thesis
              by (simp add: host2Domain_def domain_of_labels_def Split_char Let_def nth_append)
          qed
        qed
      qed
    qed
  qed
qed

text \<open>
  \<open>host2Domain\<close>, written with three searches for a dot from the right, computes the domain
  in terms of labels: nothing for a private address or a host with one label, the address
  itself for a public IPv4 address, and otherwise the last two labels, or the last three when
  the last but one is a generic top-level name.
\<close>

theorem host2Domain_labels:
  "host2Domain h =
     (if snd (hostIsIP h) then [] else if fst (hostIsIP h) then h
      else domain_of_labels (Split (trimLastDot h) ''.''))"
  by (rule host2Domain_eq_labels)

end
