(* ===== verification/Net_Addr.thy ===== *)
theory Net_Addr
  imports Go_Prelude
begin

unbundle bit_operations_syntax

text \<open>
  The part of Go's package \<open>net\<close> the program relies on: splitting and joining
  \<open>host:port\<close>, IP addresses (4 or 16 bytes), their text form, masks and comparison.
  \<open>None\<close> stands for an error or a nil address.
\<close>

section \<open>Host and port\<close>

definition SplitHostPort :: "bytes \<Rightarrow> (bytes \<times> bytes) option" where
  "SplitHostPort hp =
     (case LastIndexByte hp (CHR '':'') of
        None \<Rightarrow> None
      | Some i \<Rightarrow>
          if hd hp = CHR ''['' then
            (case IndexByte hp (CHR '']'') of
               None \<Rightarrow> None
             | Some e \<Rightarrow>
                 if e + 1 \<noteq> i then None
                 else if CHR ''['' \<in> set (drop 1 hp) \<or> CHR '']'' \<in> set (drop (e + 1) hp) then None
                 else Some (take (e - 1) (drop 1 hp), drop (i + 1) hp))
          else if CHR '':'' \<in> set (take i hp) then None
          else if CHR ''['' \<in> set hp \<or> CHR '']'' \<in> set hp then None
          else Some (take i hp, drop (i + 1) hp))"

definition JoinHostPort :: "bytes \<Rightarrow> bytes \<Rightarrow> bytes" where
  "JoinHostPort host port =
     (if CHR '':'' \<in> set host then ''['' @ host @ '']:'' @ port else host @ '':'' @ port)"

definition no_brackets :: "bytes \<Rightarrow> bool" where
  "no_brackets s \<longleftrightarrow> CHR ''['' \<notin> set s \<and> CHR '']'' \<notin> set s"

lemma SplitHostPort_JoinHostPort:
  assumes "no_brackets host" "no_brackets port" "CHR '':'' \<notin> set port"
  shows "SplitHostPort (JoinHostPort host port) = Some (host, port)"
proof (cases "CHR '':'' \<in> set host")
  case True
  let ?s = "CHR ''['' # host @ CHR '']'' # CHR '':'' # port"
  have "LastIndexByte ((CHR ''['' # host @ [CHR '']'']) @ CHR '':'' # port) (CHR '':'')
      = Some (length (CHR ''['' # host @ [CHR '']'']))"
    using assms(3) by (rule LastIndexByte_append)
  then have l: "LastIndexByte ?s (CHR '':'') = Some (length host + 2)" by simp
  have "IndexByte ((CHR ''['' # host) @ CHR '']'' # CHR '':'' # port) (CHR '']'') = Some (length (CHR ''['' # host))"
    using assms(1) by (intro IndexByte_append) (auto simp: no_brackets_def)
  then have e: "IndexByte ?s (CHR '']'') = Some (length host + 1)" by simp
  show ?thesis
    unfolding JoinHostPort_def SplitHostPort_def
    using True assms l e by (simp add: no_brackets_def del: LastIndexByte.simps IndexByte.simps)
next
  case False
  have l: "LastIndexByte (host @ CHR '':'' # port) (CHR '':'') = Some (length host)"
    using assms(3) by (rule LastIndexByte_append)
  have "hd (host @ CHR '':'' # port) \<noteq> CHR ''[''"
    using assms(1) by (cases host) (auto simp: no_brackets_def)
  with False assms l show ?thesis
    by (auto simp: JoinHostPort_def SplitHostPort_def no_brackets_def)
qed

lemma SplitHostPort_hostport:
  assumes "SplitHostPort hp = Some (h, p)"
  shows "(hp = h @ '':'' @ p \<and> CHR '':'' \<notin> set h) \<or> hp = ''['' @ h @ '']:'' @ p"
proof -
  from assms obtain i where i: "LastIndexByte hp (CHR '':'') = Some i"
    by (auto simp: SplitHostPort_def split: option.splits)
  note sp = LastIndexByte_split [OF i]
  show ?thesis
  proof (cases "hd hp = CHR ''[''")
    case False
    with assms i have "h = take i hp" "p = drop (i + 1) hp" "CHR '':'' \<notin> set (take i hp)"
      by (auto simp: SplitHostPort_def split: if_splits)
    with sp show ?thesis by simp
  next
    case True
    with assms i obtain e where e: "IndexByte hp (CHR '']'') = Some e" "e + 1 = i"
      and h: "h = take (e - 1) (drop 1 hp)" and p: "p = drop (i + 1) hp"
      by (auto simp: SplitHostPort_def split: if_splits option.splits)
    have "hp \<noteq> []" using i by auto
    then obtain t where t: "hp = CHR ''['' # t" using True by (cases hp) auto
    have "e \<noteq> 0" using e(1) t by (auto simp: IndexByte_Some)
    then obtain e' where e': "e = Suc e'" by (cases e) auto
    have "hp = take e hp @ CHR '']'' # drop (Suc e) hp" by (rule IndexByte_split [OF e(1)])
    moreover have "drop (Suc e) hp = CHR '':'' # p"
      using sp p e(2) LastIndexByte_Some [OF i] by (metis Cons_nth_drop_Suc Suc_eq_plus1)
    moreover have "take e hp = CHR ''['' # h" using t h e' by simp
    ultimately show ?thesis by simp
  qed
qed

section \<open>IP addresses\<close>

text \<open>An address is 4 or 16 bytes; \<open>ParseIP\<close> always gives the 16-byte form.\<close>

definition v4InV6Prefix :: bytes where
  "v4InV6Prefix = replicate 10 (CHR 0x00) @ [CHR 0xFF, CHR 0xFF]"

definition To4 :: "bytes \<Rightarrow> bytes option" where
  "To4 ip =
     (if length ip = 4 then Some ip
      else if length ip = 16 \<and> take 12 ip = v4InV6Prefix then Some (drop 12 ip)
      else None)"

definition To16 :: "bytes \<Rightarrow> bytes option" where
  "To16 ip =
     (if length ip = 4 then Some (v4InV6Prefix @ ip)
      else if length ip = 16 then Some ip
      else None)"

definition parse_octet :: "bytes \<Rightarrow> char option" where
  "parse_octet s =
     (if s = [] \<or> \<not> list_all is_digit_char s then None
      else if length s > 1 \<and> hd s = CHR ''0'' then None
      else if dec_value 0 s > 255 then None
      else Some (char_of (dec_value 0 s)))"

definition parseIPv4 :: "bytes \<Rightarrow> bytes option" where
  "parseIPv4 s =
     (let parts = map parse_octet (Split s ''.'')
      in if length parts = 4 \<and> list_all (\<lambda>p. p \<noteq> None) parts then Some (map the parts) else None)"

definition is_hex_char :: "char \<Rightarrow> bool" where
  "is_hex_char c \<longleftrightarrow>
     is_digit_char c \<or> (97 \<le> byte_val c \<and> byte_val c \<le> 102) \<or> (65 \<le> byte_val c \<and> byte_val c \<le> 70)"

definition hex_digit :: "char \<Rightarrow> nat" where
  "hex_digit c =
     (if is_digit_char c then byte_val c - 48
      else if 97 \<le> byte_val c then byte_val c - 87 else byte_val c - 55)"

definition hex_value :: "bytes \<Rightarrow> nat" where
  "hex_value s = foldl (\<lambda>acc c. 16 * acc + hex_digit c) 0 s"

text \<open>
  The loop of \<open>parseIPv6\<close>: \<open>ip\<close> are the bytes parsed so far, \<open>ell\<close> the position of the
  ellipsis. It returns these and the unread text.
\<close>

function parseIPv6_loop :: "bytes \<Rightarrow> bytes \<Rightarrow> nat option \<Rightarrow> (bytes \<times> nat option \<times> bytes) option" where
  "parseIPv6_loop s ip ell =
     (if length ip \<ge> 16 then Some (ip, ell, s)
      else let d = takeWhile is_hex_char s; r = dropWhile is_hex_char s
           in if d = [] \<or> length d > 4 then None
              else if r \<noteq> [] \<and> hd r = CHR ''.'' then
                (if ell = None \<and> length ip \<noteq> 12 then None
                 else if length ip + 4 > 16 then None
                 else case parseIPv4 s of None \<Rightarrow> None | Some q \<Rightarrow> Some (ip @ q, ell, []))
              else let ip' = ip @ [char_of (hex_value d div 256), char_of (hex_value d mod 256)]
                   in if r = [] then Some (ip', ell, [])
                      else if hd r \<noteq> CHR '':'' then None
                      else if length r = 1 then None
                      else if hd (tl r) = CHR '':'' then
                        (if ell \<noteq> None then None
                         else if tl (tl r) = [] then Some (ip', Some (length ip'), [])
                         else parseIPv6_loop (tl (tl r)) ip' (Some (length ip')))
                      else parseIPv6_loop (tl r) ip' ell)"
  by pat_completeness auto
termination
  by (relation "measure (\<lambda>(s, ip, ell). 16 - length ip)") auto

declare parseIPv6_loop.simps [simp del]

definition parseIPv6 :: "bytes \<Rightarrow> bytes option" where
  "parseIPv6 s0 =
     (if CHR ''%'' \<in> set s0 then None
      else let lead = prefix ''::'' s0; s = (if lead then drop 2 s0 else s0)
           in if lead \<and> s = [] then Some (replicate 16 (CHR 0x00))
              else case parseIPv6_loop s [] (if lead then Some 0 else None) of
                     None \<Rightarrow> None
                   | Some (ip, ell, rest) \<Rightarrow>
                       if rest \<noteq> [] then None
                       else if length ip < 16 then
                         (case ell of
                            None \<Rightarrow> None
                          | Some e \<Rightarrow> Some (take e ip @ replicate (16 - length ip) (CHR 0x00) @ drop e ip))
                       else if ell \<noteq> None then None else Some ip)"

text \<open>The first of the bytes dot, colon and percent decides which parser runs.\<close>

definition ParseIP :: "bytes \<Rightarrow> bytes option" where
  "ParseIP s =
     (case find (\<lambda>c. c = CHR ''.'' \<or> c = CHR '':'' \<or> c = CHR ''%'') s of
        None \<Rightarrow> None
      | Some c \<Rightarrow>
          if c = CHR ''.'' then map_option (\<lambda>q. v4InV6Prefix @ q) (parseIPv4 s)
          else if c = CHR '':'' then parseIPv6 s
          else None)"

text \<open>The text of an address: dotted decimal, or RFC 5952 with the longest zero run cut out.\<close>

definition ipv4_string :: "bytes \<Rightarrow> bytes" where
  "ipv4_string ip = Join (map (\<lambda>c. Itoa (int (byte_val c))) ip) ''.''"

fun groups16 :: "bytes \<Rightarrow> nat list" where
  "groups16 (a # b # rest) = (256 * byte_val a + byte_val b) # groups16 rest"
| "groups16 _ = []"

definition zero_run :: "nat list \<Rightarrow> nat \<Rightarrow> nat" where
  "zero_run gs i = length (takeWhile (\<lambda>g. g = 0) (drop i gs))"

definition best_run :: "nat list \<Rightarrow> (nat \<times> nat) option" where
  "best_run gs =
     foldl (\<lambda>best i. let l = zero_run gs i
                     in if l \<ge> 2 \<and> (case best of None \<Rightarrow> True | Some (a, b) \<Rightarrow> l > b - a)
                        then Some (i, i + l) else best) None [0..<length gs]"

definition ipv6_string :: "bytes \<Rightarrow> bytes" where
  "ipv6_string ip =
     (let gs = groups16 ip; hx = map (nat_digits 16)
      in case best_run gs of
           None \<Rightarrow> Join (hx gs) '':''
         | Some (i, j) \<Rightarrow> Join (hx (take i gs)) '':'' @ ''::'' @ Join (hx (drop j gs)) '':'')"

definition IP_String :: "bytes \<Rightarrow> bytes" where
  "IP_String ip =
     (if ip = [] then ''<nil>''
      else if length ip \<noteq> 4 \<and> length ip \<noteq> 16
      then ''?'' @ concat (map (\<lambda>c. [digit_char (byte_val c div 16), digit_char (byte_val c mod 16)]) ip)
      else case To4 ip of Some p4 \<Rightarrow> ipv4_string p4 | None \<Rightarrow> ipv6_string ip)"

text \<open>\<open>IP.Mask\<close> (nil, the empty list, when the lengths do not fit) and \<open>IP.Equal\<close>.\<close>

definition byte_and :: "char \<Rightarrow> char \<Rightarrow> char" where
  "byte_and a b = char_of (byte_val a AND byte_val b)"

definition IP_Mask :: "bytes \<Rightarrow> bytes \<Rightarrow> bytes" where
  "IP_Mask ip0 mask0 =
     (let mask = (if length mask0 = 16 \<and> length ip0 = 4 \<and> list_all (\<lambda>c. c = CHR 0xFF) (take 12 mask0)
                  then drop 12 mask0 else mask0);
          ip = (if length mask = 4 \<and> length ip0 = 16 \<and> take 12 ip0 = v4InV6Prefix
                then drop 12 ip0 else ip0)
      in if length ip \<noteq> length mask then [] else map2 byte_and ip mask)"

definition IP_Equal :: "bytes \<Rightarrow> bytes \<Rightarrow> bool" where
  "IP_Equal ip x =
     (if length ip = length x then ip = x
      else if length ip = 4 \<and> length x = 16 then take 12 x = v4InV6Prefix \<and> ip = drop 12 x
      else if length ip = 16 \<and> length x = 4 then take 12 ip = v4InV6Prefix \<and> drop 12 ip = x
      else False)"

lemma length_v4InV6Prefix [simp]: "length v4InV6Prefix = 12"
  by (simp add: v4InV6Prefix_def)

lemma To4_v4InV6 [simp]: "length q = 4 \<Longrightarrow> To4 (v4InV6Prefix @ q) = Some q"
  by (simp add: To4_def)

lemma parse_octet_Itoa [simp]: "parse_octet (Itoa (int (byte_val c))) = Some c"
proof -
  let ?n = "byte_val c" and ?s = "nat_digits 10 (byte_val c)"
  have hd0: "hd (nat_digits 10 n) \<noteq> CHR ''0''" if "n > 0" for n
    using that
  proof (induction n rule: less_induct)
    case (less n)
    show ?case
    proof (cases "n < 10")
      case True
      then have "byte_val (digit_char n) \<noteq> 48" using less.prems by simp
      then have "digit_char n \<noteq> CHR ''0''" by auto
      with True show ?thesis by (subst nat_digits.simps) simp
    next
      case False
      with less.IH [of "n div 10"] show ?thesis by (subst nat_digits.simps) simp
    qed
  qed
  have "length ?s = 1" if "?n = 0"
    using that by (subst nat_digits.simps) simp
  then have "\<not> (length ?s > 1 \<and> hd ?s = CHR ''0'')"
    using hd0 [of ?n] by (cases "?n = 0") auto
  moreover have "\<not> 255 < ?n" using nat_of_char_less_256 [of c] by linarith
  ultimately show ?thesis
    using nat_digits_are_digits [of ?n]
    by (simp add: parse_octet_def Itoa_def)
qed

lemma Itoa_no_char:
  assumes "\<not> is_digit_char d"
  shows "d \<notin> set (Itoa (int n))"
  using nat_digits_are_digits [of n] assms by (auto simp: Itoa_def list_all_iff)

lemma dot_not_digit [simp]: "\<not> is_digit_char (CHR ''.'')" "\<not> is_digit_char (CHR '':'')"
  "\<not> is_digit_char (CHR ''%'')" "\<not> is_digit_char (CHR ''['')" "\<not> is_digit_char (CHR '']'')"
  by (simp_all add: is_digit_char_def)

lemma parseIPv4_string:
  assumes "length ip = 4"
  shows "parseIPv4 (ipv4_string ip) = Some ip"
proof -
  let ?xs = "map (\<lambda>c. Itoa (int (byte_val c))) ip"
  have "Split (ipv4_string ip) ''.'' = ?xs"
    using assms unfolding ipv4_string_def Split_char
    by (intro split_char_Join) (auto simp: Itoa_no_char)
  then have "map parse_octet (Split (ipv4_string ip) ''.'') = map Some ip" by simp
  with assms show ?thesis by (simp add: parseIPv4_def list_all_iff comp_def)
qed

lemma ipv4_string_find:
  assumes "length ip = 4"
  shows "find (\<lambda>c. c = CHR ''.'' \<or> c = CHR '':'' \<or> c = CHR ''%'') (ipv4_string ip) = Some (CHR ''.'')"
proof -
  obtain a b where ab: "ip = a # b" "b \<noteq> []"
    using assms by (cases ip; cases "tl ip") auto
  let ?P = "\<lambda>c. c = CHR ''.'' \<or> c = CHR '':'' \<or> c = CHR ''%''"
  let ?s = "Itoa (int (byte_val a))"
  have "\<not> ?P c" if "c \<in> set ?s" for c
    using that Itoa_no_char [of _ "byte_val a"] by auto
  then have "find ?P (?s @ t) = find ?P t" for t
    by (intro find_skip) blast
  moreover have "ipv4_string ip = ?s @ CHR ''.'' # Join (map (\<lambda>c. Itoa (int (byte_val c))) b) ''.''"
    using ab by (simp add: ipv4_string_def Join_Cons)
  ultimately show ?thesis by simp
qed

lemma ParseIP_ipv4_string:
  "length ip = 4 \<Longrightarrow> ParseIP (ipv4_string ip) = Some (v4InV6Prefix @ ip)"
  by (simp add: ParseIP_def ipv4_string_find parseIPv4_string)

lemma find_Some_in: "find P xs = Some x \<Longrightarrow> P x \<and> x \<in> set xs"
  by (auto simp: find_Some_iff)

lemma ParseIP_zone: "CHR ''%'' \<in> set s \<Longrightarrow> CHR ''.'' \<notin> set s \<Longrightarrow> ParseIP s = None"
  by (auto simp: ParseIP_def parseIPv6_def split: option.splits dest: find_Some_in)

lemma parseIPv4_length: "parseIPv4 s = Some ip \<Longrightarrow> length ip = 4"
  by (auto simp: parseIPv4_def Let_def split: if_splits)

lemma parseIPv6_loop_length:
  "parseIPv6_loop s ip ell = Some (ip', ell', r) \<Longrightarrow> even (length ip) \<Longrightarrow> length ip \<le> 16 \<Longrightarrow>
   length ip' \<le> 16"
proof (induction s ip ell rule: parseIPv6_loop.induct)
  case (1 s ip ell)
  then show ?case
    by (subst (asm) (3) parseIPv6_loop.simps)
      (fastforce simp: Let_def dest: parseIPv4_length split: if_splits option.splits)
qed

lemma parseIPv6_length: "parseIPv6 s = Some ip \<Longrightarrow> length ip = 16"
  using parseIPv6_loop_length [where ip = "[]"]
  by (fastforce simp: parseIPv6_def Let_def split: if_splits option.splits)

lemma ParseIP_length: "ParseIP s = Some ip \<Longrightarrow> length ip = 16"
  by (auto simp: ParseIP_def dest: parseIPv4_length parseIPv6_length split: option.splits if_splits)

end
