(* ===== verification/Url.thy ===== *)
theory Url
  imports Util Net_Addr
begin

text \<open>
  The \<open>URL\<close> type of http.go and its two parsers: \<open>ParseHostPort\<close> for a host header and
  \<open>ParseRequestURIBytes\<close> for the target of a request line.
\<close>

record URL =
  url_HostPort :: bytes
  url_Host :: bytes
  url_Port :: bytes
  url_Domain :: bytes
  url_Path :: bytes

definition empty_URL :: URL where
  "empty_URL = \<lparr>url_HostPort = [], url_Host = [], url_Port = [], url_Domain = [], url_Path = []\<rparr>"

definition URL_String :: "URL \<Rightarrow> bytes" where
  "URL_String url = url_HostPort url @ url_Path url"

definition ParseHostPort :: "URL \<Rightarrow> bytes \<Rightarrow> URL" where
  "ParseHostPort url hostPort0 =
     (if hostPort0 = [] then url
      else let (host, port, hostPort) =
                 (case SplitHostPort hostPort0 of
                    Some (h, p) \<Rightarrow> (h, p, hostPort0)
                  | None \<Rightarrow> (hostPort0, ''80'', JoinHostPort hostPort0 ''80''))
           in url\<lparr>url_Host := host, url_Port := port, url_HostPort := hostPort,
                  url_Domain := host2Domain host\<rparr>)"

definition supported_scheme :: "bytes \<Rightarrow> bool" where
  "supported_scheme s \<longleftrightarrow> s = ''http'' \<or> s = ''https'' \<or> s = ''ws'' \<or> s = ''wss''"

definition ParseRequestURIBytes :: "bytes \<Rightarrow> err + URL" where
  "ParseRequestURIBytes rawurl =
     (if length rawurl = 0 then Inl (ErrorString ''empty request uri'')
      else if hd rawurl = CHR ''/'' then Inr (empty_URL\<lparr>url_Path := rawurl\<rparr>)
      else let (scheme, rest) =
                 (case Index rawurl ''://'' of
                    None \<Rightarrow> (''http'', rawurl)
                  | Some i \<Rightarrow> (ASCIIToLowerInplace (take i rawurl), drop (i + 3) rawurl))
           in if \<not> supported_scheme scheme then Inl (ErrorString ''protocol not supported'')
              else let (hostport, path) =
                         (case IndexByte rest (CHR ''/'') of
                            None \<Rightarrow> (rest, [])
                          | Some i \<Rightarrow> (take i rest, drop i rest));
                       (host, port) =
                         (case SplitHostPort hostport of
                            Some (h, p) \<Rightarrow> (h, p)
                          | None \<Rightarrow>
                              (hostport, if scheme = ''http'' \<or> scheme = ''ws'' then ''80'' else ''443''));
                       host' = TrimSuffix (TrimPrefix host ''[::ffff:'') '']''
                   in Inr \<lparr>url_HostPort = JoinHostPort host' port, url_Host = host', url_Port = port,
                           url_Domain = host2Domain host', url_Path = path\<rparr>)"

text \<open>Every URL the parsers produce carries the domain of its host.\<close>

definition url_wf :: "URL \<Rightarrow> bool" where
  "url_wf url \<longleftrightarrow> url_Domain url = host2Domain (url_Host url)"

lemma host2Domain_Nil [simp]: "host2Domain [] = []"
  by (simp add: host2Domain_def hostIsIP_def Split_char trimLastDot_def)

lemma empty_URL_wf [simp]: "url_wf empty_URL"
  by (simp add: url_wf_def empty_URL_def)

lemma ParseHostPort_wf: "url_wf url \<Longrightarrow> url_wf (ParseHostPort url hp)"
  by (auto simp: url_wf_def ParseHostPort_def split: option.splits)

lemma ParseRequestURIBytes_wf: "ParseRequestURIBytes s = Inr url \<Longrightarrow> url_wf url"
  by (auto simp: ParseRequestURIBytes_def url_wf_def empty_URL_def Let_def
      split: if_splits option.splits prod.splits)

lemma ParseRequestURIBytes_host:
  assumes "ParseRequestURIBytes s = Inr url" "hd s \<noteq> CHR ''/''"
  shows "url_HostPort url = JoinHostPort (url_Host url) (url_Port url) \<and> url_HostPort url \<noteq> []"
  using assms
  by (auto simp: ParseRequestURIBytes_def JoinHostPort_def Let_def split: if_splits option.splits prod.splits)

end
