(* ===== verification/Site_Lists.thy ===== *)
theory Site_Lists
  imports Go_Prelude
begin

text \<open>
  The builtin site lists of site_blocked.go and site_direct.go, entry by entry.
\<close>

definition blockedDomainList :: "bytes list" where
  "blockedDomainList =
     [''bit.ly'', ''j.mp'', ''bitly.com'', ''fbcdn.net'', ''facebook.com'', ''plus.google.com'',
      ''plusone.google.com'', ''t.co'', ''twimg.com'', ''twitpic.com'', ''twitter.com'',
      ''youtu.be'', ''youtube.com'', ''ytimg.com'']"

definition directDomainList :: "bytes list" where
  "directDomainList =
     [''xunlei.com'', ''kankan.com'', ''kanimg.com'', ''tdimg.com'', ''tudou.com'',
      ''tudouui.com'', ''soku.com'', ''youku.com'', ''ykimg.com'', ''ku6.cn'', ''ku6.com'',
      ''ku6cdn.com'', ''ku6img.com'', ''z.cn'', ''amazon.cn'', ''360buy.com'', ''360buyimg.com'',
      ''jd.com'', ''51buy.com'', ''icson.com'', ''dangdang.com'', ''ddimg.cn'', ''yihaodian.com'',
      ''yihaodianimg.com'', ''paipai.com'', ''paipaiimg.com'', ''tmall.com'', ''taobao.com'',
      ''taobaocdn.com'', ''tbcdn.cn'', ''etao.com'', ''aicdn.com'', ''alicdn.com'', ''alimama.cn'',
      ''alimama.com'', ''alipay.com'', ''alipayobjects.com'', ''bankcomm.com'',
      ''bankofchina.com'', ''95559.com.cn'', ''abchina.com'', ''95599.cn'', ''boc.cn'',
      ''ccb.com'', ''cmbchina.com'', ''icbc.com.cn'', ''spdb.com.cn'', ''douban.com'', ''t.cn'',
      ''weibo.com'', ''zhihu.com'', ''kaixin001.com'', ''qq.com'', ''renren.com'', ''rrimg.com'',
      ''xiaonei.com'', ''xnimg.cn'', ''xnpic.com'', ''dianping.com'', ''dpfile.com'',
      ''huaban.com'', ''yupoo.com'', ''upyun.com'', ''upaiyun.com'', ''ifanr.cn'', ''ifanr.com'',
      ''163.com'', ''hexun.com'', ''sina.com.cn'', ''sinaapp.com'', ''sinaimg.cn'', ''sinajs.cn'',
      ''sohu.com'', ''solidot.org'', ''bing.com'', ''bing.com.cn'', ''baidu.com'',
      ''bdstatic.com'', ''bdimg.com'', ''youdao.com'', ''sogou.com'', ''apple.com'',
      ''apple.com.cn'', ''icloud.com'', ''macromedia.com'', ''mmcdn.cn'', ''12306.cn'']"

lemma builtin_lists_disjoint: "set blockedDomainList \<inter> set directDomainList = {}"
  unfolding blockedDomainList_def directDomainList_def by simp

lemma builtin_lists_distinct: "distinct blockedDomainList" "distinct directDomainList"
  unfolding blockedDomainList_def directDomainList_def by simp_all

end
