(* ===== verification/Site_Stat.thy ===== *)
theory Site_Stat
  imports Url Site_Lists "HOL-Library.AList"
begin

text \<open>
  sitestat.go: the visit counters that decide whether a site is reached directly or through
  a parent proxy, and the table of them. Counters are Go's \<open>int8\<close>, kept at their width
  (\<open>8 word\<close>, read with \<open>sint\<close>); times are nanoseconds, the current time is an argument.
  The table \<open>Vcnt\<close> is an association list with distinct keys: Go iterates over a map in an
  unspecified order, so no statement depends on the order of the list. A pointer to a
  \<open>VisitCnt\<close> is a \<open>vref\<close>: the shared \<open>alwaysDirectVisitCnt\<close> or the entry of a site.
\<close>

section \<open>Time\<close>

type_synonym time = int
type_synonym duration = int

definition second :: duration where
  "second = 1000000000"

definition minute :: duration where
  "minute = 60 * second"

definition hour :: duration where
  "hour = 60 * minute"

text \<open>\<open>Time.Sub\<close> saturates at the limits of \<open>Duration\<close>; \<open>zeroTime\<close> is January 1 of year 1.\<close>

definition time_Sub :: "time \<Rightarrow> time \<Rightarrow> duration" where
  "time_Sub t u = max (- (2 ^ 63)) (min (2 ^ 63 - 1) (t - u))"

definition zeroTime :: time where
  "zeroTime = - 62135596800 * 1000000000"

section \<open>Visit counters\<close>

type_synonym vcntint = "8 word"

abbreviation userCnt :: vcntint where
  "userCnt \<equiv> - 1"

definition directDelta :: int where
  "directDelta = 5"

definition blockedDelta :: int where
  "blockedDelta = 5"

definition maxCnt :: vcntint where
  "maxCnt = 100"

record VisitCnt =
  Direct :: vcntint
  Blocked :: vcntint
  Recent :: time
  rUpdated :: bool
  blockedOn :: time

definition newVisitCnt :: "time \<Rightarrow> vcntint \<Rightarrow> vcntint \<Rightarrow> VisitCnt" where
  "newVisitCnt now direct blocked =
     \<lparr>Direct = direct, Blocked = blocked, Recent = now, rUpdated = True, blockedOn = zeroTime\<rparr>"

definition newVisitCntWithTime :: "vcntint \<Rightarrow> vcntint \<Rightarrow> time \<Rightarrow> VisitCnt" where
  "newVisitCntWithTime direct blocked t =
     \<lparr>Direct = direct, Blocked = blocked, Recent = t, rUpdated = True, blockedOn = zeroTime\<rparr>"

definition userSpecified :: "VisitCnt \<Rightarrow> bool" where
  "userSpecified vc \<longleftrightarrow> Blocked vc = userCnt \<or> Direct vc = userCnt"

definition siteStaleThreshold :: duration where
  "siteStaleThreshold = 10 * 24 * hour"

definition isStale :: "time \<Rightarrow> VisitCnt \<Rightarrow> bool" where
  "isStale now vc \<longleftrightarrow> time_Sub now (Recent vc) > siteStaleThreshold"

definition shouldNotSave :: "time \<Rightarrow> VisitCnt \<Rightarrow> bool" where
  "shouldNotSave now vc \<longleftrightarrow> userSpecified vc \<or> isStale now vc \<or> (Blocked vc = 0 \<and> Direct vc = 0)"

definition tmpBlockedTimeout :: duration where
  "tmpBlockedTimeout = 2 * minute"

definition AsTempBlocked :: "time \<Rightarrow> VisitCnt \<Rightarrow> bool" where
  "AsTempBlocked now vc \<longleftrightarrow> time_Sub now (blockedOn vc) < tmpBlockedTimeout"

definition AlwaysDirect :: "VisitCnt \<Rightarrow> bool" where
  "AlwaysDirect vc \<longleftrightarrow> Direct vc = userCnt"

definition AlwaysBlocked :: "VisitCnt \<Rightarrow> bool" where
  "AlwaysBlocked vc \<longleftrightarrow> Blocked vc = userCnt"

definition AsDirect :: "VisitCnt \<Rightarrow> bool" where
  "AsDirect vc \<longleftrightarrow> Blocked vc = 0 \<or> sint (Direct vc - Blocked vc) \<ge> directDelta \<or> AlwaysDirect vc"

text \<open>\<open>intn n\<close> is the value \<open>rand.Intn(n)\<close> draws.\<close>

definition AsBlocked :: "(int \<Rightarrow> int) \<Rightarrow> time \<Rightarrow> VisitCnt \<Rightarrow> bool" where
  "AsBlocked intn now vc =
     (if Blocked vc = userCnt \<or> AsTempBlocked now vc then True
      else let delta = sint (Blocked vc - Direct vc)
           in delta \<ge> blockedDelta \<and> intn delta \<noteq> 0)"

definition OnceBlocked :: "time \<Rightarrow> VisitCnt \<Rightarrow> bool" where
  "OnceBlocked now vc \<longleftrightarrow> sint (Blocked vc) > 0 \<or> AlwaysBlocked vc \<or> AsTempBlocked now vc"

definition tempBlocked :: "time \<Rightarrow> VisitCnt \<Rightarrow> VisitCnt" where
  "tempBlocked now vc = vc\<lparr>blockedOn := now\<rparr>"

text \<open>\<open>visit\<close> increments the counter it is given a pointer to, then refreshes \<open>Recent\<close>.\<close>

definition visit_inc :: "vcntint \<Rightarrow> vcntint" where
  "visit_inc inc =
     (let i = (if sint inc < sint maxCnt then inc + 1 else inc)
      in if sint i > sint maxCnt \<or> sint i < 0 then maxCnt else i)"

definition visit_recent :: "time \<Rightarrow> VisitCnt \<Rightarrow> VisitCnt" where
  "visit_recent now vc = (if \<not> rUpdated vc then vc\<lparr>rUpdated := True, Recent := now\<rparr> else vc)"

definition DirectVisit :: "bool \<Rightarrow> time \<Rightarrow> VisitCnt \<Rightarrow> VisitCnt" where
  "DirectVisit networkBad now vc =
     (if networkBad \<or> userSpecified vc then vc
      else (visit_recent now (vc\<lparr>Direct := visit_inc (Direct vc)\<rparr>))\<lparr>Blocked := 0\<rparr>)"

definition BlockedVisit :: "bool \<Rightarrow> time \<Rightarrow> VisitCnt \<Rightarrow> VisitCnt" where
  "BlockedVisit networkBad now vc =
     (if networkBad \<or> userSpecified vc then vc
      else (visit_recent now (vc\<lparr>Blocked := visit_inc (Blocked vc)\<rparr>))\<lparr>Direct := 0\<rparr>)"

lemmas visit_defs = DirectVisit_def BlockedVisit_def visit_recent_def tempBlocked_def
lemmas class_defs = userSpecified_def AlwaysDirect_def AlwaysBlocked_def

text \<open>The counter invariant: -1 (given by the user) or between 0 and \<open>maxCnt\<close>.\<close>

definition cnt_ok :: "vcntint \<Rightarrow> bool" where
  "cnt_ok c \<longleftrightarrow> - 1 \<le> sint c \<and> sint c \<le> 100"

definition vc_ok :: "VisitCnt \<Rightarrow> bool" where
  "vc_ok vc \<longleftrightarrow> cnt_ok (Direct vc) \<and> cnt_ok (Blocked vc)"

lemma sint_bounds8: "- 128 \<le> sint (w :: 8 word)" "sint (w :: 8 word) < 128"
  using sint_greater_eq [of w] sint_less [of w] by simp_all

lemma sint_plus1_8:
  assumes "sint (w :: 8 word) < 127"
  shows "sint (w + 1) = sint w + 1"
proof -
  have "sint (w + 1) = signed_take_bit 7 (sint w + 1)"
    by (simp add: sint_word_ariths)
  also have "\<dots> = sint w + 1"
    using sint_bounds8 [of w] assms by (intro signed_take_bit_int_eq_self) auto
  finally show ?thesis .
qed

lemma sint_minus_8:
  assumes "- 128 \<le> sint v - sint w" "sint v - sint w < 128"
  shows "sint (v - w) = sint v - sint (w :: 8 word)"
proof -
  have "sint (v - w) = signed_take_bit 7 (sint v - sint w)"
    by (simp add: sint_word_ariths)
  also have "\<dots> = sint v - sint w"
    using assms by (intro signed_take_bit_int_eq_self) auto
  finally show ?thesis .
qed

lemma visit_inc_range: "0 \<le> sint (visit_inc c) \<and> sint (visit_inc c) \<le> 100"
proof -
  have "sint (c + 1) = sint c + 1" if "sint c < 100"
    using that by (intro sint_plus1_8) simp
  then show ?thesis
    by (auto simp: visit_inc_def maxCnt_def Let_def)
qed

lemma visit_inc_pos: "- 1 \<noteq> sint c \<Longrightarrow> 0 < sint (visit_inc c)"
proof -
  assume "- 1 \<noteq> sint c"
  moreover have "sint (c + 1) = sint c + 1" if "sint c < 100"
    using that by (intro sint_plus1_8) simp
  ultimately show ?thesis
    by (auto simp: visit_inc_def maxCnt_def Let_def)
qed

lemma sint_eq_m1_iff: "sint (c :: 8 word) = - 1 \<longleftrightarrow> c = - 1"
  by (metis sint_n1 signed_word_eqI)

lemma sint_eq_0_iff8: "sint (c :: 8 word) = 0 \<longleftrightarrow> c = 0"
  by (metis sint_0 signed_word_eqI)

lemma cnt_ok_simps [simp]: "cnt_ok 0" "cnt_ok (- 1)" "cnt_ok (visit_inc c)"
  using visit_inc_range [of c] by (auto simp: cnt_ok_def)

lemma vc_ok_visits [simp, intro]:
  "vc_ok vc \<Longrightarrow> vc_ok (DirectVisit bad now vc)"
  "vc_ok vc \<Longrightarrow> vc_ok (BlockedVisit bad now vc)"
  "vc_ok vc \<Longrightarrow> vc_ok (tempBlocked now vc)"
  by (auto simp: vc_ok_def visit_defs)

lemma vc_ok_new [simp, intro]:
  "cnt_ok d \<Longrightarrow> cnt_ok b \<Longrightarrow> vc_ok (newVisitCnt now d b)"
  "cnt_ok d \<Longrightarrow> cnt_ok b \<Longrightarrow> vc_ok (newVisitCntWithTime d b now)"
  by (auto simp: vc_ok_def newVisitCnt_def newVisitCntWithTime_def)

text \<open>Within the invariant the \<open>int8\<close> differences never wrap around.\<close>

lemma vc_ok_diff:
  assumes "vc_ok vc"
  shows "sint (Direct vc - Blocked vc) = sint (Direct vc) - sint (Blocked vc)"
    and "sint (Blocked vc - Direct vc) = sint (Blocked vc) - sint (Direct vc)"
  using assms by (auto simp: vc_ok_def cnt_ok_def intro!: sint_minus_8)

lemma userSpecified_visits [simp]:
  "userSpecified (DirectVisit bad now vc) = userSpecified vc"
  "userSpecified (BlockedVisit bad now vc) = userSpecified vc"
  "userSpecified (tempBlocked now vc) = userSpecified vc"
proof -
  have "visit_inc c \<noteq> - 1" for c
    using visit_inc_range [of c] by (metis sint_n1 neg_0_le_iff_le not_one_le_zero)
  then show "userSpecified (DirectVisit bad now vc) = userSpecified vc"
    "userSpecified (BlockedVisit bad now vc) = userSpecified vc"
    "userSpecified (tempBlocked now vc) = userSpecified vc"
    by (auto simp: visit_defs userSpecified_def)
qed

section \<open>The site table\<close>

record SiteStat =
  Update :: time
  Vcnt :: "(bytes \<times> VisitCnt) list"
  hasBlockedHost :: "bytes \<Rightarrow> bool"

definition newSiteStat :: SiteStat where
  "newSiteStat = \<lparr>Update = zeroTime, Vcnt = [], hasBlockedHost = (\<lambda>_. False)\<rparr>"

datatype vref = AlwaysDirectRef | SiteRef bytes

definition SiteStat_get :: "SiteStat \<Rightarrow> bytes \<Rightarrow> VisitCnt option" where
  "SiteStat_get ss s = map_of (Vcnt ss) s"

definition SiteStat_put :: "bytes \<Rightarrow> VisitCnt \<Rightarrow> SiteStat \<Rightarrow> SiteStat" where
  "SiteStat_put s vc ss = ss\<lparr>Vcnt := AList.update s vc (Vcnt ss)\<rparr>"

definition SiteStat_create :: "time \<Rightarrow> bytes \<Rightarrow> SiteStat \<Rightarrow> SiteStat" where
  "SiteStat_create now s ss = SiteStat_put s (newVisitCnt now 0 0) ss"

text \<open>
  \<open>alwaysDirectVisitCnt\<close> is created when the program starts, at time \<open>start\<close>; no operation
  changes it, since it is user specified and \<open>TempBlocked\<close> only reaches entries of the table.
\<close>

definition alwaysDirectVisitCnt :: "time \<Rightarrow> VisitCnt" where
  "alwaysDirectVisitCnt start = newVisitCnt start userCnt 0"

definition deref :: "time \<Rightarrow> SiteStat \<Rightarrow> vref \<Rightarrow> VisitCnt option" where
  "deref start ss r =
     (case r of
        AlwaysDirectRef \<Rightarrow> Some (alwaysDirectVisitCnt start)
      | SiteRef s \<Rightarrow> SiteStat_get ss s)"

definition TempBlocked :: "time \<Rightarrow> URL \<Rightarrow> SiteStat \<Rightarrow> SiteStat may_panic" where
  "TempBlocked now url ss =
     (case SiteStat_get ss (url_Host url) of
        None \<Rightarrow> Inl ''TempBlocked should always get existing visitCnt''
      | Some vcnt \<Rightarrow>
          let ss1 = SiteStat_put (url_Host url) (tempBlocked now vcnt) ss
          in Inr (if \<not> hasBlockedHost ss1 (url_Domain url)
                  then ss1\<lparr>hasBlockedHost := (hasBlockedHost ss1)(url_Domain url := True)\<rparr>
                  else ss1))"

text \<open>\<open>parentEmpty\<close> is \<open>parentProxy.empty()\<close>.\<close>

definition GetVisitCnt :: "bool \<Rightarrow> time \<Rightarrow> URL \<Rightarrow> SiteStat \<Rightarrow> vref \<times> SiteStat" where
  "GetVisitCnt parentEmpty now url ss =
     (if parentEmpty then (AlwaysDirectRef, ss)
      else if url_Domain url = [] then (AlwaysDirectRef, ss)
      else case SiteStat_get ss (url_Host url) of
             Some _ \<Rightarrow> (SiteRef (url_Host url), ss)
           | None \<Rightarrow>
               (case (if length (url_Domain url) \<noteq> length (url_Host url)
                      then SiteStat_get ss (url_Domain url) else None) of
                  Some dmcnt \<Rightarrow>
                    if userSpecified dmcnt then (SiteRef (url_Domain url), ss)
                    else (SiteRef (url_Host url), SiteStat_create now (url_Host url) ss)
                | None \<Rightarrow> (SiteRef (url_Host url), SiteStat_create now (url_Host url) ss)))"

text \<open>
  \<open>store\<close> up to the JSON encoding: the table that is written, and the table in memory, whose
  \<open>Update\<close> may change.
\<close>

definition store_select :: "time \<Rightarrow> SiteStat \<Rightarrow> SiteStat \<times> SiteStat" where
  "store_select now ss0 =
     (let ss = (if Update ss0 = zeroTime then ss0\<lparr>Update := now\<rparr> else ss0)
      in if time_Sub now (Update ss) > siteStaleThreshold then
           let u = Update ss + siteStaleThreshold div 2;
               saved = ss\<lparr>Update := (if u > now then now else u)\<rparr>
           in (saved, saved)
         else (ss, newSiteStat\<lparr>Update := now,
                               Vcnt := filter (\<lambda>(site, vc). \<not> shouldNotSave now vc) (Vcnt ss)\<rparr>))"

definition loadList :: "bytes list \<Rightarrow> vcntint \<Rightarrow> vcntint \<Rightarrow> SiteStat \<Rightarrow> SiteStat" where
  "loadList lst direct blocked ss =
     fold (\<lambda>d. SiteStat_put d (newVisitCntWithTime direct blocked zeroTime)) lst ss"

definition loadBuiltinList :: "SiteStat \<Rightarrow> SiteStat" where
  "loadBuiltinList ss = loadList directDomainList userCnt 0 (loadList blockedDomainList 0 userCnt ss)"

text \<open>
  \<open>loadSiteList\<close> reads a file; \<open>scan\<close> is what opening and scanning it gives (an error, or the
  lines read and the scanner's final error).
\<close>

definition loadSiteList :: "bytes \<Rightarrow> (bytes \<Rightarrow> err + (bytes list \<times> err option)) \<Rightarrow> bytes list \<times> err option" where
  "loadSiteList fpath scan =
     (if fpath = [] then ([], None)
      else case scan fpath of
             Inl e \<Rightarrow> ([], Some e)
           | Inr (lines, e) \<Rightarrow> (filter (\<lambda>s. s \<noteq> []) (map strings_TrimSpace lines), e))"

definition loadUserList ::
    "(bytes \<Rightarrow> err + (bytes list \<times> err option)) \<Rightarrow> bytes \<Rightarrow> bytes \<Rightarrow> SiteStat \<Rightarrow> SiteStat" where
  "loadUserList scan directFile blockedFile ss =
     (let ss1 = (case loadSiteList directFile scan of
                   (lst, None) \<Rightarrow> loadList lst userCnt 0 ss
                 | (_, Some e) \<Rightarrow> ss)
      in case loadSiteList blockedFile scan of
           (lst, None) \<Rightarrow> loadList lst 0 userCnt ss1
         | (_, Some e) \<Rightarrow> ss1)"

text \<open>The test of \<open>filterSites\<close> for one entry: is it removed?\<close>

definition removeSite :: "time \<Rightarrow> SiteStat \<Rightarrow> bytes \<times> VisitCnt \<Rightarrow> bool" where
  "removeSite now ss sv =
     (case sv of (site, vcnt) \<Rightarrow>
        if userSpecified vcnt then False
        else if isStale now vcnt then True
        else let domain = host2Domain site;
                 dmcnt = (if domain \<noteq> site then SiteStat_get ss domain else None)
             in case dmcnt of None \<Rightarrow> False | Some d \<Rightarrow> userSpecified d)"

definition filterSites :: "time \<Rightarrow> SiteStat \<Rightarrow> SiteStat" where
  "filterSites now ss =
     (let removeSites = map fst (filter (removeSite now ss) (Vcnt ss))
      in ss\<lparr>Vcnt := fold AList.delete removeSites (Vcnt ss)\<rparr>)"

text \<open>
  \<open>load\<close>: \<open>readStat\<close> is reading and decoding the stat file into the table. The deferred
  function runs on every path.
\<close>

definition load_deferred ::
    "(bytes \<Rightarrow> err + (bytes list \<times> err option)) \<Rightarrow> bytes \<Rightarrow> bytes \<Rightarrow> time \<Rightarrow> SiteStat \<Rightarrow> SiteStat" where
  "load_deferred scan directFile blockedFile now ss =
     (let ss1 = filterSites now (loadUserList scan directFile blockedFile (loadBuiltinList ss))
      in ss1\<lparr>hasBlockedHost :=
               fold (\<lambda>(host, vcnt) hbh. if OnceBlocked now vcnt then hbh(host2Domain host := True) else hbh)
                 (Vcnt ss1) (hasBlockedHost ss1)\<rparr>)"

definition SiteStat_load ::
    "(bytes \<Rightarrow> SiteStat \<Rightarrow> SiteStat \<times> err option) \<Rightarrow>
     (bytes \<Rightarrow> err + (bytes list \<times> err option)) \<Rightarrow> bytes \<Rightarrow> bytes \<Rightarrow> time \<Rightarrow>
     bytes \<Rightarrow> SiteStat \<Rightarrow> SiteStat \<times> err option" where
  "SiteStat_load readStat scan directFile blockedFile now file ss =
     (let (ss1, e) = (if file = [] then (ss, None) else readStat file ss)
      in (load_deferred scan directFile blockedFile now ss1, e))"

definition GetDirectList :: "SiteStat \<Rightarrow> bytes list" where
  "GetDirectList ss =
     map fst (filter (\<lambda>(site, vc). \<not> hasBlockedHost ss (host2Domain site) \<and> AsDirect vc) (Vcnt ss))"

definition initSiteStat ::
    "(bytes \<Rightarrow> SiteStat \<Rightarrow> SiteStat \<times> err option) \<Rightarrow>
     (bytes \<Rightarrow> err + (bytes list \<times> err option)) \<Rightarrow> bytes \<Rightarrow> bytes \<Rightarrow> time \<Rightarrow> bytes \<Rightarrow> SiteStat" where
  "initSiteStat readStat scan directFile blockedFile now statFile =
     (let ld = SiteStat_load readStat scan directFile blockedFile now
      in case ld statFile newSiteStat of
           (ss, None) \<Rightarrow> ss
         | (_, Some _) \<Rightarrow>
             (case ld (statFile @ ''.bak'') newSiteStat of
                (ss, None) \<Rightarrow> ss
              | (_, Some _) \<Rightarrow> fst (ld [] newSiteStat)))"

text \<open>
  \<open>storeSiteStat\<close>: the flag \<open>siteStatFini\<close> and the number of calls of \<open>store\<close> so far.
\<close>

datatype store_cont = siteStatExit | siteStatCont

definition storeSiteStat :: "store_cont \<Rightarrow> bool \<times> 'a \<Rightarrow> ('a \<Rightarrow> 'a) \<Rightarrow> bool \<times> 'a" where
  "storeSiteStat cont st store =
     (case st of (fini, w) \<Rightarrow>
        if fini then (fini, w) else (cont = siteStatExit, store w))"

lemma SiteStat_get_put [simp]:
  "SiteStat_get (SiteStat_put s vc ss) t = (if t = s then Some vc else SiteStat_get ss t)"
  by (simp add: SiteStat_get_def SiteStat_put_def update_conv)

lemma SiteStat_put_fields [simp]:
  "hasBlockedHost (SiteStat_put s vc ss) = hasBlockedHost ss"
  "Update (SiteStat_put s vc ss) = Update ss"
  by (simp_all add: SiteStat_put_def)

lemma SiteStat_get_hbh [simp]: "SiteStat_get (ss\<lparr>hasBlockedHost := h\<rparr>) s = SiteStat_get ss s"
  by (simp add: SiteStat_get_def)

definition ss_distinct :: "SiteStat \<Rightarrow> bool" where
  "ss_distinct ss \<longleftrightarrow> distinct (map fst (Vcnt ss))"

lemma ss_distinct_put [simp, intro]: "ss_distinct ss \<Longrightarrow> ss_distinct (SiteStat_put s vc ss)"
  by (simp add: ss_distinct_def SiteStat_put_def distinct_update)

lemma ss_distinct_member: "ss_distinct ss \<Longrightarrow> (s, vc) \<in> set (Vcnt ss) \<longleftrightarrow> SiteStat_get ss s = Some vc"
  by (simp add: ss_distinct_def SiteStat_get_def)

lemma loadList_get:
  "SiteStat_get (loadList lst d b ss) s =
     (if s \<in> set lst then Some (newVisitCntWithTime d b zeroTime) else SiteStat_get ss s)"
  by (induction lst arbitrary: ss) (auto simp: loadList_def)

lemma loadList_distinct [simp, intro]: "ss_distinct ss \<Longrightarrow> ss_distinct (loadList lst d b ss)"
  by (induction lst arbitrary: ss) (auto simp: loadList_def)

lemma loadList_hbh [simp]: "hasBlockedHost (loadList lst d b ss) = hasBlockedHost ss"
  by (induction lst arbitrary: ss) (auto simp: loadList_def)

end
