(* ===== verification/Site_Table.thy ===== *)
theory Site_Table
  imports Site_Stat
begin

text \<open>
  Invariants of the site table. \<open>ss_step\<close> is one operation on the table while the proxy
  runs; a run is a sequence of steps from the table \<open>load\<close> built.
\<close>

section \<open>Loading\<close>

lemma map_of_fold_delete:
  "map_of (fold AList.delete ks al) k = (if k \<in> set ks then None else map_of al k)"
  by (induction ks arbitrary: al) (auto simp: delete_conv')

lemma filterSites_get:
  assumes "ss_distinct ss"
  shows "SiteStat_get (filterSites now ss) s =
           (case SiteStat_get ss s of
              None \<Rightarrow> None
            | Some vc \<Rightarrow> if removeSite now ss (s, vc) then None else Some vc)"
proof -
  have "s \<in> fst ` set (filter (removeSite now ss) (Vcnt ss)) \<longleftrightarrow>
        (\<exists>vc. SiteStat_get ss s = Some vc \<and> removeSite now ss (s, vc))"
    using ss_distinct_member [OF assms] by force
  then show ?thesis
    by (auto simp: filterSites_def SiteStat_get_def map_of_fold_delete Let_def split: option.splits)
qed

lemma distinct_fold_delete: "distinct (map fst al) \<Longrightarrow> distinct (map fst (fold AList.delete ks al))"
  by (induction ks arbitrary: al) (auto simp: distinct_delete)

lemma filterSites_distinct [intro]: "ss_distinct ss \<Longrightarrow> ss_distinct (filterSites now ss)"
  by (simp add: filterSites_def ss_distinct_def distinct_fold_delete Let_def)

lemma loadUserList_distinct [intro]:
  "ss_distinct ss \<Longrightarrow> ss_distinct (loadUserList scan df bf ss)"
  by (auto simp: loadUserList_def Let_def split: prod.splits option.splits)

lemma loadBuiltinList_distinct [intro]: "ss_distinct ss \<Longrightarrow> ss_distinct (loadBuiltinList ss)"
  by (simp add: loadBuiltinList_def)

lemma load_deferred_get:
  "SiteStat_get (load_deferred scan df bf now ss) s =
   SiteStat_get (filterSites now (loadUserList scan df bf (loadBuiltinList ss))) s"
  by (simp add: load_deferred_def Let_def)

lemma hbh_fold:
  "fold (\<lambda>(host, vcnt) hbh. if P vcnt then hbh(f host := True) else hbh) al h d \<longleftrightarrow>
     h d \<or> (\<exists>(host, vcnt) \<in> set al. P vcnt \<and> f host = d)"
  by (induction al arbitrary: h) (auto split: if_splits)

lemma load_deferred_hbh:
  assumes "ss_distinct ss"
  shows "hasBlockedHost (load_deferred scan df bf now ss) d \<longleftrightarrow>
           hasBlockedHost ss d \<or>
           (\<exists>host vc. SiteStat_get (load_deferred scan df bf now ss) host = Some vc \<and>
                      OnceBlocked now vc \<and> host2Domain host = d)"
proof -
  let ?s1 = "filterSites now (loadUserList scan df bf (loadBuiltinList ss))"
  have d: "ss_distinct ?s1" using assms by blast
  have "hasBlockedHost ?s1 = hasBlockedHost ss"
    by (auto simp: filterSites_def loadUserList_def loadBuiltinList_def Let_def
        split: prod.splits option.splits)
  then show ?thesis
    using ss_distinct_member [OF d]
    by (fastforce simp: load_deferred_get load_deferred_def Let_def hbh_fold)
qed

text \<open>What the three lists say about a site, the later ones first.\<close>

definition list_entry :: "bytes list \<Rightarrow> bytes list \<Rightarrow> bytes \<Rightarrow> VisitCnt option" where
  "list_entry directs blockeds s =
     (if s \<in> set blockeds then Some (newVisitCntWithTime 0 userCnt zeroTime)
      else if s \<in> set directs then Some (newVisitCntWithTime userCnt 0 zeroTime)
      else if s \<in> set directDomainList then Some (newVisitCntWithTime userCnt 0 zeroTime)
      else if s \<in> set blockedDomainList then Some (newVisitCntWithTime 0 userCnt zeroTime)
      else None)"

lemma loaded_lists_get:
  assumes "loadSiteList df scan = (directs, None)" "loadSiteList bf scan = (blockeds, None)"
  shows "SiteStat_get (loadUserList scan df bf (loadBuiltinList ss)) s =
           (case list_entry directs blockeds s of Some vc \<Rightarrow> Some vc | None \<Rightarrow> SiteStat_get ss s)"
  using assms by (simp add: loadUserList_def loadBuiltinList_def list_entry_def loadList_get)

lemma list_entry_user: "list_entry directs blockeds s = Some vc \<Longrightarrow> userSpecified vc"
  by (auto simp: list_entry_def newVisitCntWithTime_def userSpecified_def split: if_splits)

section \<open>Steps of the running table\<close>

inductive ss_step :: "SiteStat \<Rightarrow> SiteStat \<Rightarrow> bool" where
  step_get: "ss_step ss (snd (GetVisitCnt parentEmpty now url ss))"
| step_temp: "TempBlocked now url ss = Inr ss' \<Longrightarrow> ss_step ss ss'"
| step_direct: "SiteStat_get ss s = Some vc \<Longrightarrow> ss_step ss (SiteStat_put s (DirectVisit bad now vc) ss)"
| step_blocked: "SiteStat_get ss s = Some vc \<Longrightarrow> ss_step ss (SiteStat_put s (BlockedVisit bad now vc) ss)"
| step_store: "ss_step ss (fst (store_select now ss))"

definition ss_ok :: "SiteStat \<Rightarrow> bool" where
  "ss_ok ss \<longleftrightarrow> (\<forall>s vc. SiteStat_get ss s = Some vc \<longrightarrow> vc_ok vc)"

lemma ss_ok_put: "ss_ok ss \<Longrightarrow> vc_ok vc \<Longrightarrow> ss_ok (SiteStat_put s vc ss)"
  by (simp add: ss_ok_def)

lemma ss_ok_hbh [simp]: "ss_ok (ss\<lparr>hasBlockedHost := h\<rparr>) = ss_ok ss"
  by (simp add: ss_ok_def)

lemma SiteStat_get_Update [simp]: "SiteStat_get (ss\<lparr>Update := u\<rparr>) s = SiteStat_get ss s"
  by (simp add: SiteStat_get_def)

lemma TempBlocked_Inr:
  assumes "TempBlocked now url ss = Inr ss'"
  obtains vc where "SiteStat_get ss (url_Host url) = Some vc"
    "ss' = (SiteStat_put (url_Host url) (tempBlocked now vc) ss)
             \<lparr>hasBlockedHost := (hasBlockedHost ss)(url_Domain url := True)\<rparr>"
proof -
  have same: "s\<lparr>hasBlockedHost := (hasBlockedHost s)(d := True)\<rparr> = s" if "hasBlockedHost s d"
    for s :: SiteStat and d
    using that by (simp add: fun_upd_idem)
  show thesis
    using assms that same [of "SiteStat_put (url_Host url) _ ss" "url_Domain url"]
    by (auto simp: TempBlocked_def Let_def split: option.splits if_splits)
qed

lemma store_select_fst:
  "SiteStat_get (fst (store_select now ss)) s = SiteStat_get ss s"
  "hasBlockedHost (fst (store_select now ss)) = hasBlockedHost ss"
  by (auto simp: store_select_def Let_def)

lemma GetVisitCnt_get:
  "SiteStat_get (snd (GetVisitCnt pe now url ss)) s = SiteStat_get ss s \<or>
   SiteStat_get ss s = None \<and> SiteStat_get (snd (GetVisitCnt pe now url ss)) s = Some (newVisitCnt now 0 0)"
  by (auto simp: GetVisitCnt_def SiteStat_create_def split: option.splits)

lemma GetVisitCnt_hbh [simp]: "hasBlockedHost (snd (GetVisitCnt pe now url ss)) = hasBlockedHost ss"
  by (auto simp: GetVisitCnt_def SiteStat_create_def split: option.splits)

lemma ss_step_ok: "ss_step ss ss' \<Longrightarrow> ss_ok ss \<Longrightarrow> ss_ok ss'"
proof (induction rule: ss_step.induct)
  case (step_get ss parentEmpty now url)
  then show ?case
    using GetVisitCnt_get [of parentEmpty now url ss] unfolding ss_ok_def
    by (metis cnt_ok_simps(1) option.inject option.distinct(1) vc_ok_new(1))
next
  case (step_temp now url ss ss')
  from step_temp(1) obtain vc where vc: "SiteStat_get ss (url_Host url) = Some vc"
    "ss' = (SiteStat_put (url_Host url) (tempBlocked now vc) ss)
             \<lparr>hasBlockedHost := (hasBlockedHost ss)(url_Domain url := True)\<rparr>"
    by (rule TempBlocked_Inr)
  with step_temp(2) show ?case by (auto intro!: ss_ok_put simp: ss_ok_def)
next
  case (step_store ss now)
  then show ?case by (simp add: ss_ok_def store_select_fst)
qed (auto intro!: ss_ok_put simp: ss_ok_def)

lemma ss_steps_ok: "ss_step\<^sup>*\<^sup>* ss ss' \<Longrightarrow> ss_ok ss \<Longrightarrow> ss_ok ss'"
  by (induction rule: rtranclp_induct) (auto intro: ss_step_ok)

text \<open>A domain marked as having a blocked host stays marked.\<close>

lemma ss_step_hbh: "ss_step ss ss' \<Longrightarrow> hasBlockedHost ss d \<Longrightarrow> hasBlockedHost ss' d"
  by (induction rule: ss_step.induct) (auto simp: store_select_fst elim: TempBlocked_Inr)

lemma ss_steps_hbh: "ss_step\<^sup>*\<^sup>* ss ss' \<Longrightarrow> hasBlockedHost ss d \<Longrightarrow> hasBlockedHost ss' d"
  by (induction rule: rtranclp_induct) (auto intro: ss_step_hbh)

text \<open>An entry stays in the table, and whether the user specified it never changes.\<close>

lemma ss_step_entry:
  "ss_step ss ss' \<Longrightarrow> SiteStat_get ss s = Some vc \<Longrightarrow>
   \<exists>vc'. SiteStat_get ss' s = Some vc' \<and> userSpecified vc' = userSpecified vc"
proof (induction rule: ss_step.induct)
  case (step_get ss parentEmpty now url)
  then show ?case using GetVisitCnt_get [of parentEmpty now url ss s] by auto
qed (auto simp: store_select_fst elim!: TempBlocked_Inr)

lemma ss_steps_entry:
  "ss_step\<^sup>*\<^sup>* ss ss' \<Longrightarrow> SiteStat_get ss s = Some vc \<Longrightarrow>
   \<exists>vc'. SiteStat_get ss' s = Some vc' \<and> userSpecified vc' = userSpecified vc"
  by (induction rule: rtranclp_induct) (auto dest: ss_step_entry)

lemma loadUserList_ok: "ss_ok ss \<Longrightarrow> ss_ok (loadUserList scan df bf (loadBuiltinList ss))"
  by (auto simp: ss_ok_def loadUserList_def loadBuiltinList_def loadList_get Let_def
      split: prod.splits option.splits if_splits)

lemma load_deferred_ok:
  assumes "ss_distinct ss" "ss_ok ss"
  shows "ss_ok (load_deferred scan df bf now ss)"
proof -
  have "ss_distinct (loadUserList scan df bf (loadBuiltinList ss))" using assms(1) by blast
  then show ?thesis
    using loadUserList_ok [OF assms(2), of scan df bf]
    by (auto simp: ss_ok_def load_deferred_get filterSites_get split: option.splits if_splits)
qed

lemma sint_visit_inc:
  assumes "cnt_ok c" "c \<noteq> - 1"
  shows "sint (visit_inc c) = min 100 (sint c + 1)"
proof -
  have "sint c \<noteq> - 1" using assms(2) by (simp add: sint_eq_m1_iff)
  moreover have "sint (c + 1) = sint c + 1" if "sint c < 100"
    using that by (intro sint_plus1_8) simp
  ultimately show ?thesis
    using assms(1) by (auto simp: visit_inc_def maxCnt_def Let_def cnt_ok_def)
qed

section \<open>An example table\<close>

text \<open>
  A stat file with a fresh counter for \<open>www.example.com\<close>, a user who lists \<open>example.com\<close> as
  blocked and \<open>youtube.com\<close>, builtin blocked, as direct.
\<close>

definition ex_scan :: "bytes \<Rightarrow> err + (bytes list \<times> err option)" where
  "ex_scan f = (if f = ''direct'' then Inr ([''youtube.com''], None) else Inr ([''example.com''], None))"

definition ex_stat :: SiteStat where
  "ex_stat = newSiteStat\<lparr>Vcnt := [(''www.example.com'', newVisitCnt 0 3 0)]\<rparr>"

lemma ex_lists:
  "loadSiteList ''direct'' ex_scan = ([''youtube.com''], None)"
  "loadSiteList ''blocked'' ex_scan = ([''example.com''], None)"
  by (simp_all add: loadSiteList_def ex_scan_def) code_simp+

lemma ex_stat_ok: "ss_distinct ex_stat" "ss_ok ex_stat"
  by (auto simp: ex_stat_def ss_distinct_def ss_ok_def SiteStat_get_def vc_ok_def cnt_ok_def
      newVisitCnt_def split: if_splits)

lemma ex_domain: "host2Domain ''www.example.com'' = ''example.com''"
  by code_simp

definition ex_url :: URL where
  "ex_url = ParseHostPort empty_URL ''www.example.com''"

definition ex_stat2 :: SiteStat where
  "ex_stat2 = newSiteStat\<lparr>Vcnt := [(''www.example.com'', newVisitCnt 0 3 0), (''other.org'', newVisitCnt 0 3 0)]\<rparr>"

lemma ex_url_fields:
  "url_Host ex_url = ''www.example.com''" "url_Domain ex_url = ''example.com''" "url_HostPort ex_url = ''www.example.com:80''"
  by code_simp+

lemma ex_other_domain: "host2Domain ''other.org'' = ''other.org''"
  by code_simp

lemma ex_temp_blocked:
  "TempBlocked 0 ex_url ex_stat2 =
     Inr ((SiteStat_put ''www.example.com'' (tempBlocked 0 (newVisitCnt 0 3 0)) ex_stat2)
            \<lparr>hasBlockedHost := (\<lambda>_. False)(''example.com'' := True)\<rparr>)"
  by (simp add: TempBlocked_def ex_url_fields ex_stat2_def SiteStat_get_def newSiteStat_def Let_def SiteStat_put_def)

lemma ex_direct_list:
  "''other.org'' \<in> set (GetDirectList ((SiteStat_put ''www.example.com'' (tempBlocked 0 (newVisitCnt 0 3 0)) ex_stat2)
            \<lparr>hasBlockedHost := (\<lambda>_. False)(''example.com'' := True)\<rparr>))"
  by (simp add: GetDirectList_def SiteStat_put_def ex_stat2_def ex_other_domain AsDirect_def newVisitCnt_def)

lemma listed_entry:
  assumes "ss_distinct ss0" "loadSiteList df scan = (directs, None)" "loadSiteList bf scan = (blockeds, None)"
    and "list_entry directs blockeds s = Some vc"
  shows "SiteStat_get (load_deferred scan df bf now ss0) s = Some vc"
proof -
  have "ss_distinct (loadUserList scan df bf (loadBuiltinList ss0))" using assms(1) by blast
  then show ?thesis
    using loaded_lists_get [OF assms(2,3), of ss0 s] list_entry_user [OF assms(4)] assms(4)
    by (simp add: load_deferred_get filterSites_get removeSite_def)
qed

lemma ex_loaded:
  "SiteStat_get (load_deferred ex_scan ''direct'' ''blocked'' 0 ex_stat) ''youtube.com''
     = Some (newVisitCntWithTime userCnt 0 zeroTime)"
  by (rule listed_entry [OF ex_stat_ok(1) ex_lists]) (simp add: list_entry_def)

section \<open>Properties\<close>

text \<open>
  C21: the counters never leave their range. Starting from a decoded stat file whose counters
  are in range, after loading the lists and after any sequence of operations every counter is
  -1 or between 0 and 100, and the \<open>int8\<close> differences the decisions use do not wrap around.
\<close>

theorem visit_counters_bounded:
  assumes "ss_distinct ss0" "ss_ok ss0"
    and "ss_step\<^sup>*\<^sup>* (load_deferred scan directFile blockedFile now ss0) ss"
    and "SiteStat_get ss site = Some vc"
  shows "- 1 \<le> sint (Direct vc) \<and> sint (Direct vc) \<le> 100 \<and>
         - 1 \<le> sint (Blocked vc) \<and> sint (Blocked vc) \<le> 100 \<and>
         sint (Direct vc - Blocked vc) = sint (Direct vc) - sint (Blocked vc) \<and>
         sint (Blocked vc - Direct vc) = sint (Blocked vc) - sint (Direct vc)"
proof -
  have "ss_ok ss" using assms(1-3) by (blast intro: ss_steps_ok load_deferred_ok)
  with assms(4) have "vc_ok vc" by (simp add: ss_ok_def)
  then show ?thesis using vc_ok_diff [of vc] by (auto simp: vc_ok_def cnt_ok_def)
qed

theorem visit_counters_bounded_witness:
  "SiteStat_get (load_deferred ex_scan ''direct'' ''blocked'' 0 ex_stat) ''youtube.com''
     = Some (newVisitCntWithTime userCnt 0 zeroTime) \<and>
   sint (Direct (newVisitCntWithTime userCnt 0 zeroTime)
         - Blocked (newVisitCntWithTime userCnt 0 zeroTime)) = - 1"
  using visit_counters_bounded [OF ex_stat_ok rtranclp.rtrancl_refl ex_loaded] ex_loaded
  by (simp add: newVisitCntWithTime_def)

text \<open>
  C10: a site is never put into the PAC file's direct list once its domain has a host that was
  found blocked: after \<open>TempBlocked\<close> on a URL, whatever operations follow, \<open>GetDirectList\<close>
  contains no site of that URL's domain.
\<close>

theorem temp_blocked_domain_not_direct:
  assumes "TempBlocked now url ss = Inr ss1" "ss_step\<^sup>*\<^sup>* ss1 ss2" "site \<in> set (GetDirectList ss2)"
  shows "host2Domain site \<noteq> url_Domain url"
proof -
  have "hasBlockedHost ss1 (url_Domain url)" using assms(1) by (auto elim: TempBlocked_Inr)
  then have "hasBlockedHost ss2 (url_Domain url)" by (rule ss_steps_hbh [OF assms(2)])
  with assms(3) show ?thesis by (auto simp: GetDirectList_def)
qed

theorem temp_blocked_domain_not_direct_witness:
  "TempBlocked 0 ex_url ex_stat2 =
     Inr ((SiteStat_put ''www.example.com'' (tempBlocked 0 (newVisitCnt 0 3 0)) ex_stat2)
            \<lparr>hasBlockedHost := (\<lambda>_. False)(''example.com'' := True)\<rparr>) \<and>
   host2Domain ''other.org'' \<noteq> url_Domain ex_url"
  using temp_blocked_domain_not_direct [OF ex_temp_blocked rtranclp.rtrancl_refl ex_direct_list]
    ex_temp_blocked by simp

text \<open>
  What a visit teaches, for a site the user has not specified while the network is good.
  One successful direct visit makes the site direct and clears its blocked count; one visit
  through a parent makes it not direct, so that it leaves the direct list, and the blocked
  count then grows by one up to 100. Nothing is learnt when the network is bad or the user
  specified the site.
\<close>

theorem visit_learning:
  assumes "vc_ok vc"
  shows "(networkBad \<or> userSpecified vc \<longrightarrow>
           DirectVisit networkBad now vc = vc \<and> BlockedVisit networkBad now vc = vc) \<and>
         (\<not> networkBad \<and> \<not> userSpecified vc \<longrightarrow>
           AsDirect (DirectVisit networkBad now vc) \<and> Blocked (DirectVisit networkBad now vc) = 0 \<and>
           sint (Direct (DirectVisit networkBad now vc)) = min 100 (sint (Direct vc) + 1) \<and>
           \<not> AsDirect (BlockedVisit networkBad now vc) \<and> Direct (BlockedVisit networkBad now vc) = 0 \<and>
           sint (Blocked (BlockedVisit networkBad now vc)) = min 100 (sint (Blocked vc) + 1))"
proof (intro conjI impI)
  show "DirectVisit networkBad now vc = vc" "BlockedVisit networkBad now vc = vc"
    if "networkBad \<or> userSpecified vc"
    using that by (auto simp: visit_defs)
  assume good: "\<not> networkBad \<and> \<not> userSpecified vc"
  have inc: "sint (visit_inc c) = min 100 (sint c + 1)" if "cnt_ok c" "c \<noteq> - 1" for c
    using that by (rule sint_visit_inc)
  let ?d = "DirectVisit networkBad now vc" and ?b = "BlockedVisit networkBad now vc"
  have d: "Blocked ?d = 0" "Direct ?d = visit_inc (Direct vc)"
    and b: "Direct ?b = 0" "Blocked ?b = visit_inc (Blocked vc)"
    using good by (auto simp: visit_defs)
  have ne: "Direct vc \<noteq> - 1" "Blocked vc \<noteq> - 1" using good by (auto simp: userSpecified_def)
  have ok: "cnt_ok (Direct vc)" "cnt_ok (Blocked vc)" using assms by (auto simp: vc_ok_def)
  show "AsDirect ?d" "Blocked ?d = 0" "Direct ?b = 0" using d b by (simp_all add: AsDirect_def)
  show "sint (Direct ?d) = min 100 (sint (Direct vc) + 1)"
    "sint (Blocked ?b) = min 100 (sint (Blocked vc) + 1)"
    using d b inc ok ne by simp_all
  have "0 < sint (Blocked ?b)"
    using b(2) ne(2) visit_inc_pos [of "Blocked vc"] sint_eq_m1_iff [of "Blocked vc"] by auto
  moreover have "sint (Direct ?b - Blocked ?b) = - sint (Blocked ?b)"
    using vc_ok_diff(1) [of ?b] assms b(1) by (simp add: vc_ok_visits)
  ultimately show "\<not> AsDirect ?b"
    using b(1) by (auto simp: AsDirect_def AlwaysDirect_def directDelta_def)
qed

text \<open>
  A counter that is about to saturate: 100 visits leave it at 100, and the difference to an
  empty counter still does not wrap.
\<close>

theorem visit_learning_witness:
  "vc_ok (newVisitCnt 0 100 0) \<and>
   sint (Direct (DirectVisit False 7 (newVisitCnt 0 100 0))) = 100 \<and>
   \<not> AsDirect (BlockedVisit False 7 (newVisitCnt 0 100 0))"
  using visit_learning [of "newVisitCnt 0 100 0" False 7]
  by (simp add: vc_ok_def cnt_ok_def newVisitCnt_def userSpecified_def)

text \<open>
  What \<open>load\<close> leaves in the table, site by site. The user's blocked list overrides the
  user's direct list, which overrides the builtin lists (direct before blocked); a site from
  the stat file survives unless it is stale or its domain is one the user or a builtin list
  specifies.
\<close>

theorem load_precedence:
  assumes "ss_distinct ss0"
    and "loadSiteList directFile scan = (directs, None)"
    and "loadSiteList blockedFile scan = (blockeds, None)"
  shows "SiteStat_get (load_deferred scan directFile blockedFile now ss0) site =
    (case list_entry directs blockeds site of
       Some vc \<Rightarrow> Some vc
     | None \<Rightarrow>
         (case SiteStat_get ss0 site of
            None \<Rightarrow> None
          | Some vc \<Rightarrow>
              if \<not> userSpecified vc \<and>
                 (isStale now vc \<or>
                  host2Domain site \<noteq> site \<and>
                  (case list_entry directs blockeds (host2Domain site) of
                     Some d \<Rightarrow> True
                   | None \<Rightarrow>
                       (case SiteStat_get ss0 (host2Domain site) of
                          Some d \<Rightarrow> userSpecified d | None \<Rightarrow> False)))
              then None else Some vc))"
proof -
  let ?m = "loadUserList scan directFile blockedFile (loadBuiltinList ss0)"
  have dm: "ss_distinct ?m" using assms(1) by blast
  note get = loaded_lists_get [OF assms(2,3)]
  have "SiteStat_get (load_deferred scan directFile blockedFile now ss0) site =
      (case SiteStat_get ?m site of None \<Rightarrow> None
       | Some vc \<Rightarrow> if removeSite now ?m (site, vc) then None else Some vc)"
    by (simp add: load_deferred_get filterSites_get [OF dm])
  then show ?thesis
    using list_entry_user
    by (auto simp: get removeSite_def Let_def split: option.splits)
qed

theorem load_precedence_witness:
  "ss_distinct ex_stat \<and>
   SiteStat_get (load_deferred ex_scan ''direct'' ''blocked'' 0 ex_stat) ''youtube.com''
     = Some (newVisitCntWithTime userCnt 0 zeroTime) \<and>
   SiteStat_get (load_deferred ex_scan ''direct'' ''blocked'' 0 ex_stat) ''www.example.com'' = None"
  using load_precedence [OF ex_stat_ok(1) ex_lists, of 0 "''youtube.com''"]
    load_precedence [OF ex_stat_ok(1) ex_lists, of 0 "''www.example.com''"] ex_stat_ok(1)
  by (simp add: list_entry_def ex_domain blockedDomainList_def directDomainList_def ex_stat_def
      SiteStat_get_def newVisitCnt_def userSpecified_def)

end
