(* ===== verification/Bufio.thy ===== *)
theory Bufio
  imports Util
begin

text \<open>
  The interfaces the program reads from and writes to.

  The buffered reader is the third-party package github.com/cyfdecyf/bufio, which is not part
  of the sources: \<open>Reader\<close> is the record of the operations the program calls, over an
  arbitrary state type, and every function that reads takes such a record as an argument. The
  locale \<open>bufio_reader\<close> states the documented behaviour the program relies on, in terms of
  the bytes still to be delivered (\<open>str\<close>) and the error that follows them (\<open>fin\<close>).
  \<open>mem_reader\<close> is a reader with a bounded buffer in front of a list of network segments; it
  satisfies the laws and is what the witnesses run. The operation after which a reader has
  reported an error is not constrained further.

  The locale \<open>io_writer\<close> is the contract of Go's \<open>io.Writer\<close>.
\<close>

section \<open>Readers\<close>

lemma split_at_first:
  "t @ d # u = t' @ d # u' \<Longrightarrow> d \<notin> set t \<Longrightarrow> d \<notin> set t' \<Longrightarrow> t = t' \<and> u = u'"
proof (induction t arbitrary: t')
  case Nil
  then show ?case by (cases t') auto
next
  case (Cons a t)
  then show ?case by (cases t') auto
qed

lemma before_delim: "s @ u = l @ d # rest \<Longrightarrow> d \<notin> set s \<Longrightarrow> length s \<le> length l"
  by (auto simp: append_eq_append_conv2 append_eq_Cons_conv)

record 'r Reader =
  ReadSlice :: "char \<Rightarrow> 'r \<Rightarrow> bytes \<times> err option \<times> 'r"
  PeekSlice :: "char \<Rightarrow> 'r \<Rightarrow> bytes \<times> err option \<times> 'r"
  ReadN :: "int \<Rightarrow> 'r \<Rightarrow> bytes \<times> err option \<times> 'r"
  ReadNext :: "'r \<Rightarrow> bytes \<times> err option \<times> 'r"
  Skip :: "int \<Rightarrow> 'r \<Rightarrow> err option \<times> 'r"
  ReadByte :: "'r \<Rightarrow> char \<times> err option \<times> 'r"
  UnreadByte :: "'r \<Rightarrow> err option \<times> 'r"
  Buffered :: "'r \<Rightarrow> int"
  Peek :: "int \<Rightarrow> 'r \<Rightarrow> bytes \<times> err option \<times> 'r"
  Read :: "int \<Rightarrow> 'r \<Rightarrow> bytes \<times> err option \<times> 'r"

text \<open>
  The laws. \<open>B\<close> is the size of the reader's buffer. A line that does not fit into the buffer
  is reported as an error; every other error means that the stream has ended.
\<close>

locale bufio_reader =
  fixes R :: "'r Reader" and B :: nat and str :: "'r \<Rightarrow> bytes" and fin :: "'r \<Rightarrow> err"
  assumes ReadSlice_split:
      "ReadSlice R d r = (s, e, r') \<Longrightarrow> str r = s @ str r' \<and> fin r' = fin r"
    and ReadSlice_line:
      "ReadSlice R d r = (s, None, r') \<Longrightarrow> \<exists>t. s = t @ [d] \<and> d \<notin> set t"
    and ReadSlice_error:
      "ReadSlice R d r = (s, Some x, r') \<Longrightarrow>
         d \<notin> set s \<and> (B \<le> length s \<or> str r' = [] \<and> x = fin r)"
    and PeekSlice_keeps:
      "PeekSlice R d r = (s, e, r') \<Longrightarrow> prefix s (str r) \<and> str r' = str r \<and> fin r' = fin r"
    and PeekSlice_line:
      "PeekSlice R d r = (s, None, r') \<Longrightarrow> \<exists>t. s = t @ [d] \<and> d \<notin> set t"
    and PeekSlice_error:
      "PeekSlice R d r = (s, Some x, r') \<Longrightarrow>
         d \<notin> set s \<and> (B \<le> length s \<or> s = str r \<and> x = fin r)"
    and ReadN_split:
      "0 < n \<Longrightarrow> n \<le> int B \<Longrightarrow> ReadN R n r = (s, e, r') \<Longrightarrow>
         str r = s @ str r' \<and> fin r' = fin r \<and> int (length s) \<le> n"
    and ReadN_progress:
      "0 < n \<Longrightarrow> n \<le> int B \<Longrightarrow> ReadN R n r = (s, None, r') \<Longrightarrow> s \<noteq> []"
    and ReadN_error:
      "0 < n \<Longrightarrow> n \<le> int B \<Longrightarrow> ReadN R n r = (s, Some x, r') \<Longrightarrow>
         int (length s) < n \<and> str r' = [] \<and> x = fin r"
    and ReadNext_split:
      "ReadNext R r = (s, e, r') \<Longrightarrow> str r = s @ str r' \<and> fin r' = fin r \<and> length s \<le> B"
    and ReadNext_progress: "ReadNext R r = (s, None, r') \<Longrightarrow> s \<noteq> []"
    and ReadNext_error: "ReadNext R r = (s, Some x, r') \<Longrightarrow> str r = [] \<and> x = fin r"
    and Skip_ok:
      "k \<le> length (str r) \<Longrightarrow> k \<le> B \<Longrightarrow> Skip R (int k) r = (e, r') \<Longrightarrow>
         e = None \<and> str r' = drop k (str r) \<and> fin r' = fin r"
    and ReadByte_ok:
      "ReadByte R r = (c, None, r') \<Longrightarrow> str r = c # str r' \<and> fin r' = fin r"
    and ReadByte_error:
      "ReadByte R r = (c, Some x, r') \<Longrightarrow> str r = [] \<and> str r' = [] \<and> x = fin r"
    and UnreadByte_ok:
      "ReadByte R r = (c, None, r') \<Longrightarrow> UnreadByte R r' = (e, r'') \<Longrightarrow>
         e = None \<and> str r'' = str r \<and> fin r'' = fin r"
    and Buffered_bounds: "0 \<le> Buffered R r \<and> Buffered R r \<le> int (length (str r))"
    and Peek_ok:
      "int k \<le> Buffered R r \<Longrightarrow> Peek R (int k) r = (s, e, r') \<Longrightarrow>
         e = None \<and> s = take k (str r) \<and> str r' = str r \<and> fin r' = fin r"
    and Read_split:
      "0 < n \<Longrightarrow> Read R n r = (s, e, r') \<Longrightarrow>
         str r = s @ str r' \<and> fin r' = fin r \<and> int (length s) \<le> n"
    and Read_progress: "0 < n \<Longrightarrow> Read R n r = (s, None, r') \<Longrightarrow> s \<noteq> []"
    and Read_error: "0 < n \<Longrightarrow> Read R n r = (s, Some x, r') \<Longrightarrow> str r' = [] \<and> x = fin r"
begin

text \<open>Which line a read returns is determined by the stream.\<close>

lemma ReadSlice_full_line:
  assumes "str r = l @ d # rest" "d \<notin> set l" "length l < B"
  obtains r' where "ReadSlice R d r = (l @ [d], None, r')" "str r' = rest" "fin r' = fin r"
proof -
  obtain s e r' where rs: "ReadSlice R d r = (s, e, r')" by (metis prod_cases3)
  have sp: "str r = s @ str r'" "fin r' = fin r" using ReadSlice_split [OF rs] by auto
  show thesis
  proof (cases e)
    case None
    then obtain t where t: "s = t @ [d]" "d \<notin> set t" using ReadSlice_line rs by blast
    have "l @ d # rest = t @ d # str r'" using sp t assms(1) by simp
    then have "l = t" "rest = str r'" using split_at_first [OF _ assms(2) t(2)] by auto
    with rs None t sp that [of r'] show thesis by simp
  next
    case (Some x)
    have no: "d \<notin> set s" and or: "B \<le> length s \<or> str r' = []"
      using ReadSlice_error rs Some by blast+
    have "str r' \<noteq> []" using sp assms(1) no by (metis append.right_neutral in_set_conv_decomp)
    moreover have "length s \<le> length l"
      using before_delim [of s "str r'" l d rest] sp(1) assms(1) no by simp
    ultimately show thesis using or assms(3) by simp
  qed
qed

lemma PeekSlice_full_line:
  assumes "str r = l @ d # rest" "d \<notin> set l" "length l < B"
  obtains r' where "PeekSlice R d r = (l @ [d], None, r')" "str r' = str r" "fin r' = fin r"
proof -
  obtain s e r' where ps: "PeekSlice R d r = (s, e, r')" by (metis prod_cases3)
  have sp: "prefix s (str r)" "str r' = str r" "fin r' = fin r" using PeekSlice_keeps [OF ps] by auto
  show thesis
  proof (cases e)
    case None
    then obtain t where t: "s = t @ [d]" "d \<notin> set t" using PeekSlice_line ps by blast
    obtain u where "str r = s @ u" using sp(1) by (auto elim: prefixE)
    then have "l @ d # rest = t @ d # u" using t assms(1) by simp
    then have "l = t" using split_at_first [OF _ assms(2) t(2)] by auto
    with ps None t sp that [of r'] show thesis by simp
  next
    case (Some x)
    have no: "d \<notin> set s" and or: "B \<le> length s \<or> s = str r"
      using PeekSlice_error ps Some by blast+
    obtain u where u: "str r = s @ u" using sp(1) by (auto elim: prefixE)
    have "s \<noteq> str r" using assms(1) no by auto
    moreover have "length s \<le> length l"
      using before_delim [of s u l d rest] u assms(1) no by simp
    ultimately show thesis using or assms(3) by simp
  qed
qed

end

section \<open>A reader over network segments\<close>

record mem_state =
  mr_buf :: bytes
  mr_segs :: "bytes list"
  mr_err :: err
  mr_last :: char

text \<open>
  \<open>mr_until P B buf segs\<close> moves bytes of the pending segments into the buffer until \<open>P\<close> holds
  of it, it is full, or no segment is left.
\<close>

fun mr_until :: "(bytes \<Rightarrow> bool) \<Rightarrow> nat \<Rightarrow> bytes \<Rightarrow> bytes list \<Rightarrow> bytes \<times> bytes list" where
  "mr_until P B buf [] = (buf, [])"
| "mr_until P B buf (s # ss) =
     (if P buf \<or> B \<le> length buf then (buf, s # ss)
      else if length buf + length s \<le> B then mr_until P B (buf @ s) ss
      else (buf @ take (B - length buf) s, drop (B - length buf) s # ss))"

definition mr_fill :: "(bytes \<Rightarrow> bool) \<Rightarrow> nat \<Rightarrow> mem_state \<Rightarrow> mem_state" where
  "mr_fill P B r =
     (case mr_until P B (mr_buf r) (mr_segs r) of (b, ss) \<Rightarrow> r \<lparr>mr_buf := b, mr_segs := ss\<rparr>)"

definition ErrBufferFull :: err where
  "ErrBufferFull = ErrorString ''bufio: buffer full''"

fun upto_delim :: "char \<Rightarrow> bytes \<Rightarrow> bytes option" where
  "upto_delim d [] = None"
| "upto_delim d (c # cs) =
     (if c = d then Some [c] else (case upto_delim d cs of None \<Rightarrow> None | Some l \<Rightarrow> Some (c # l)))"

definition mr_line :: "nat \<Rightarrow> char \<Rightarrow> mem_state \<Rightarrow> bytes \<times> err option \<times> mem_state" where
  "mr_line B d r =
     (let r1 = mr_fill (\<lambda>b. d \<in> set b) B r in
      case upto_delim d (mr_buf r1) of
        Some l \<Rightarrow> (l, None, r1)
      | None \<Rightarrow> (mr_buf r1, Some (if B \<le> length (mr_buf r1) then ErrBufferFull else mr_err r1), r1))"

definition mr_take :: "nat \<Rightarrow> nat \<Rightarrow> mem_state \<Rightarrow> bytes \<times> err option \<times> mem_state" where
  "mr_take B n r =
     (let r1 = mr_fill (\<lambda>b. n \<le> length b) B r in
      (take n (mr_buf r1), (if length (mr_buf r1) < n then Some (mr_err r1) else None),
       r1 \<lparr>mr_buf := drop n (mr_buf r1)\<rparr>))"

definition mem_reader :: "nat \<Rightarrow> mem_state Reader" where
  "mem_reader B = \<lparr>
     ReadSlice = (\<lambda>d r. case mr_line B d r of
       (s, e, r1) \<Rightarrow> (s, e, r1 \<lparr>mr_buf := drop (length s) (mr_buf r1)\<rparr>)),
     PeekSlice = mr_line B,
     ReadN = (\<lambda>n r. mr_take B (nat n) r),
     ReadNext = (\<lambda>r. let r1 = mr_fill (\<lambda>b. b \<noteq> []) B r in
       if mr_buf r1 = [] then ([], Some (mr_err r1), r1)
       else (take B (mr_buf r1), None, r1 \<lparr>mr_buf := drop B (mr_buf r1)\<rparr>)),
     Skip = (\<lambda>n r. case mr_take B (nat n) r of (s, e, r1) \<Rightarrow> (e, r1)),
     ReadByte = (\<lambda>r. let r1 = mr_fill (\<lambda>b. b \<noteq> []) B r in
       case mr_buf r1 of
         [] \<Rightarrow> (CHR 0x00, Some (mr_err r1), r1)
       | c # cs \<Rightarrow> (c, None, r1 \<lparr>mr_buf := cs, mr_last := c\<rparr>)),
     UnreadByte = (\<lambda>r. (None, r \<lparr>mr_buf := mr_last r # mr_buf r\<rparr>)),
     Buffered = (\<lambda>r. int (length (mr_buf r))),
     Peek = (\<lambda>n r. let r1 = mr_fill (\<lambda>b. nat n \<le> length b) B r in
       (take (nat n) (mr_buf r1),
        (if length (mr_buf r1) < nat n then Some (mr_err r1) else None), r1)),
     Read = (\<lambda>n r. let r1 = mr_fill (\<lambda>b. b \<noteq> []) B r in
       if mr_buf r1 = [] then ([], Some (mr_err r1), r1)
       else (take (nat n) (mr_buf r1), None, r1 \<lparr>mr_buf := drop (nat n) (mr_buf r1)\<rparr>)) \<rparr>"

definition mem_str :: "mem_state \<Rightarrow> bytes" where
  "mem_str r = mr_buf r @ concat (mr_segs r)"

text \<open>A fresh reader on a connection that delivers the given segments and then ends.\<close>

definition mem_open :: "bytes list \<Rightarrow> err \<Rightarrow> mem_state" where
  "mem_open segs e = \<lparr>mr_buf = [], mr_segs = segs, mr_err = e, mr_last = CHR 0x00\<rparr>"

lemma mr_until_concat:
  "mr_until P B buf segs = (b, ss) \<Longrightarrow> b @ concat ss = buf @ concat segs"
  by (induction P B buf segs rule: mr_until.induct) (auto split: if_splits)

lemma mr_until_stop:
  "mr_until P B buf segs = (b, ss) \<Longrightarrow> P b \<or> B \<le> length b \<or> concat ss = []"
  by (induction P B buf segs rule: mr_until.induct) (auto split: if_splits)

lemma mr_fill_str [simp]: "mem_str (mr_fill P B r) = mem_str r" "mr_err (mr_fill P B r) = mr_err r"
  using mr_until_concat [of P B "mr_buf r" "mr_segs r"]
  by (auto simp: mr_fill_def mem_str_def split: prod.splits)

lemma mr_fill_stop:
  "P (mr_buf (mr_fill P B r)) \<or> B \<le> length (mr_buf (mr_fill P B r)) \<or>
   mem_str r = mr_buf (mr_fill P B r)"
proof (cases "mr_until P B (mr_buf r) (mr_segs r)")
  case (Pair b ss)
  then have "P b \<or> B \<le> length b \<or> mem_str r = b"
    using mr_until_stop [OF Pair] mr_until_concat [OF Pair] by (metis append_Nil2 mem_str_def)
  then show ?thesis by (simp add: mr_fill_def Pair)
qed

lemma mem_str_buf: "prefix (mr_buf r) (mem_str r)"
  by (simp add: mem_str_def)

lemma mem_str_drop:
  "n \<le> length (mr_buf r) \<Longrightarrow> mem_str (r \<lparr>mr_buf := drop n (mr_buf r)\<rparr>) = drop n (mem_str r)"
  by (simp add: mem_str_def)

lemma upto_delim_Some:
  "upto_delim d s = Some l \<Longrightarrow> \<exists>t u. s = t @ d # u \<and> l = t @ [d] \<and> d \<notin> set t"
proof (induction s arbitrary: l)
  case (Cons c cs)
  show ?case
  proof (cases "c = d")
    case True
    then have "c # cs = [] @ d # cs \<and> l = [] @ [d] \<and> d \<notin> set []" using Cons.prems by simp
    then show ?thesis by blast
  next
    case False
    then obtain l' where l': "upto_delim d cs = Some l'" "l = c # l'"
      using Cons.prems by (auto split: option.splits)
    then obtain t u where "cs = t @ d # u \<and> l' = t @ [d] \<and> d \<notin> set t" using Cons.IH by blast
    then have "c # cs = (c # t) @ d # u \<and> l = (c # t) @ [d] \<and> d \<notin> set (c # t)"
      using l' False by simp
    then show ?thesis by blast
  qed
qed simp

lemma upto_delim_None: "upto_delim d s = None \<longleftrightarrow> d \<notin> set s"
  by (induction s) (auto split: option.splits)

lemma mr_line_cases:
  assumes "mr_line B d r = (s, e, r1)"
  shows "mem_str r1 = mem_str r \<and> mr_err r1 = mr_err r \<and> prefix s (mr_buf r1) \<and>
    (case e of None \<Rightarrow> \<exists>t. s = t @ [d] \<and> d \<notin> set t
     | Some x \<Rightarrow> d \<notin> set s \<and> s = mr_buf r1 \<and> (B \<le> length s \<or> s = mem_str r \<and> x = mr_err r))"
proof -
  define r2 where "r2 = mr_fill (\<lambda>b. d \<in> set b) B r"
  have st: "d \<in> set (mr_buf r2) \<or> B \<le> length (mr_buf r2) \<or> mem_str r = mr_buf r2"
    using mr_fill_stop [of "\<lambda>b. d \<in> set b" B r] by (simp add: r2_def)
  have keep: "mem_str r2 = mem_str r" "mr_err r2 = mr_err r" by (simp_all add: r2_def)
  show ?thesis
  proof (cases "upto_delim d (mr_buf r2)")
    case None
    then have "(s, e, r1) =
        (mr_buf r2, Some (if B \<le> length (mr_buf r2) then ErrBufferFull else mr_err r2), r2)"
      using assms by (simp only: mr_line_def Let_def option.case flip: r2_def)
    then have res: "s = mr_buf r2" "r1 = r2"
        "e = Some (if B \<le> length (mr_buf r2) then ErrBufferFull else mr_err r2)" by blast+
    have "d \<notin> set (mr_buf r2)" using None upto_delim_None by blast
    with st res keep show ?thesis by auto
  next
    case (Some l)
    then have res: "s = l" "r1 = r2" "e = None"
      using assms by (simp_all add: mr_line_def Let_def flip: r2_def)
    obtain t u where "mr_buf r2 = t @ d # u \<and> l = t @ [d] \<and> d \<notin> set t"
      using upto_delim_Some [OF Some] by blast
    with res keep show ?thesis by (auto simp: prefix_def)
  qed
qed

lemma mr_take_cases:
  assumes "mr_take B n r = (s, e, r1)" "n \<le> B"
  shows "mem_str r = s @ mem_str r1 \<and> mr_err r1 = mr_err r \<and> length s \<le> n \<and>
    (case e of None \<Rightarrow> length s = n | Some x \<Rightarrow> length (mem_str r) < n \<and> mem_str r1 = [] \<and> x = mr_err r)"
proof -
  define r2 where "r2 = mr_fill (\<lambda>b. n \<le> length b) B r"
  have st: "n \<le> length (mr_buf r2) \<or> mem_str r = mr_buf r2"
    using mr_fill_stop [of "\<lambda>b. n \<le> length b" B r] assms(2) by (auto simp: r2_def)
  have keep: "mem_str r2 = mem_str r" "mr_err r2 = mr_err r" by (simp_all add: r2_def)
  have res: "s = take n (mr_buf r2)" "r1 = r2 \<lparr>mr_buf := drop n (mr_buf r2)\<rparr>"
      "e = (if length (mr_buf r2) < n then Some (mr_err r2) else None)"
    using assms(1) by (simp_all add: mr_take_def Let_def flip: r2_def)
  have "mem_str r = s @ mem_str r1"
    unfolding res(1) res(2) keep(1) [symmetric] by (simp add: mem_str_def)
  moreover have "mem_str r1 = [] \<and> length (mem_str r) < n" if "length (mr_buf r2) < n"
  proof -
    have "mem_str r = mr_buf r2" using st that by simp
    then show ?thesis using that calculation res(1) by simp
  qed
  ultimately show ?thesis using res keep(2) by simp
qed

lemma mr_nonempty:
  fixes r :: mem_state and B :: nat
  assumes "0 < B"
  defines "r1 \<equiv> mr_fill (\<lambda>b. b \<noteq> []) B r"
  shows "mr_buf r1 = [] \<longleftrightarrow> mem_str r = []"
    and "mem_str (r1 \<lparr>mr_buf := drop n (mr_buf r1)\<rparr>) =
           drop (min n (length (mr_buf r1))) (mem_str r)"
    and "take n (mr_buf r1) @ mem_str (r1 \<lparr>mr_buf := drop n (mr_buf r1)\<rparr>) = mem_str r"
proof -
  have k: "mem_str r1 = mem_str r" by (simp add: r1_def)
  show "mr_buf r1 = [] \<longleftrightarrow> mem_str r = []"
    using mr_fill_stop [of "\<lambda>b. b \<noteq> []" B r] assms(1) mem_str_buf [of r1] k
    by (auto simp: r1_def)
  show "take n (mr_buf r1) @ mem_str (r1 \<lparr>mr_buf := drop n (mr_buf r1)\<rparr>) = mem_str r"
    unfolding k [symmetric] by (simp add: mem_str_def)
  show "mem_str (r1 \<lparr>mr_buf := drop n (mr_buf r1)\<rparr>) =
           drop (min n (length (mr_buf r1))) (mem_str r)"
    unfolding k [symmetric] by (simp add: mem_str_def min_def)
qed

lemma mem_reader_ReadSlice:
  assumes "ReadSlice (mem_reader B) d r = (s, e, r')"
  obtains r1 where "mr_line B d r = (s, e, r1)" "r' = r1 \<lparr>mr_buf := drop (length s) (mr_buf r1)\<rparr>"
  using assms by (auto simp: mem_reader_def split: prod.splits)

lemma prefix_drop_str:
  "prefix s (mr_buf r1) \<Longrightarrow> mem_str r1 = s @ mem_str (r1 \<lparr>mr_buf := drop (length s) (mr_buf r1)\<rparr>)"
  by (auto simp: mem_str_def prefix_def)

lemma mem_reader_laws:
  assumes B: "0 < B"
  shows "bufio_reader (mem_reader B) B mem_str mr_err"
proof
  fix d r s e r' x
  show "mem_str r = s @ mem_str r' \<and> mr_err r' = mr_err r"
    if "ReadSlice (mem_reader B) d r = (s, e, r')"
    using that by (auto elim!: mem_reader_ReadSlice dest!: mr_line_cases prefix_drop_str)
  show "\<exists>t. s = t @ [d] \<and> d \<notin> set t" if "ReadSlice (mem_reader B) d r = (s, None, r')"
    using that by (auto elim!: mem_reader_ReadSlice dest!: mr_line_cases)
  show "d \<notin> set s \<and> (B \<le> length s \<or> mem_str r' = [] \<and> x = mr_err r)"
    if "ReadSlice (mem_reader B) d r = (s, Some x, r')"
    using that by (auto elim!: mem_reader_ReadSlice dest!: mr_line_cases simp: mem_str_def)
  show "prefix s (mem_str r) \<and> mem_str r' = mem_str r \<and> mr_err r' = mr_err r"
    if "PeekSlice (mem_reader B) d r = (s, e, r')"
    using mr_line_cases that mem_str_buf [of r'] by (fastforce simp: mem_reader_def)
  show "\<exists>t. s = t @ [d] \<and> d \<notin> set t" if "PeekSlice (mem_reader B) d r = (s, None, r')"
    using mr_line_cases that by (fastforce simp: mem_reader_def)
  show "d \<notin> set s \<and> (B \<le> length s \<or> s = mem_str r \<and> x = mr_err r)"
    if "PeekSlice (mem_reader B) d r = (s, Some x, r')"
    using mr_line_cases that by (fastforce simp: mem_reader_def)
next
  fix n :: int and r s e r' x
  assume n: "0 < n" "n \<le> int B"
  show "mem_str r = s @ mem_str r' \<and> mr_err r' = mr_err r \<and> int (length s) \<le> n"
    if "ReadN (mem_reader B) n r = (s, e, r')"
    using mr_take_cases [of B "nat n" r s e r'] that n by (simp add: mem_reader_def) linarith
  show "s \<noteq> []" if "ReadN (mem_reader B) n r = (s, None, r')"
    using mr_take_cases [of B "nat n" r s None r'] that n by (auto simp: mem_reader_def nat_le_iff)
  show "int (length s) < n \<and> mem_str r' = [] \<and> x = mr_err r"
    if "ReadN (mem_reader B) n r = (s, Some x, r')"
    using mr_take_cases [of B "nat n" r s "Some x" r'] that n
    by (auto simp: mem_reader_def nat_le_iff zless_nat_eq_int_zless)
next
  fix r s e r' x
  show "mem_str r = s @ mem_str r' \<and> mr_err r' = mr_err r \<and> length s \<le> B"
    if "ReadNext (mem_reader B) r = (s, e, r')"
    using that mr_nonempty(3) [OF B, of B r]
    by (auto simp: mem_reader_def Let_def mr_nonempty(1) [OF B] split: if_splits)
  show "s \<noteq> []" if "ReadNext (mem_reader B) r = (s, None, r')"
    using that B by (auto simp: mem_reader_def Let_def split: if_splits)
  show "mem_str r = [] \<and> x = mr_err r" if "ReadNext (mem_reader B) r = (s, Some x, r')"
    using that by (auto simp: mem_reader_def Let_def mr_nonempty(1) [OF B] split: if_splits)
next
  fix k r e r'
  assume k: "k \<le> length (mem_str r)" "k \<le> B" "Skip (mem_reader B) (int k) r = (e, r')"
  then obtain s where "mr_take B k r = (s, e, r')" by (auto simp: mem_reader_def split: prod.splits)
  then show "e = None \<and> mem_str r' = drop k (mem_str r) \<and> mr_err r' = mr_err r"
    using mr_take_cases [of B k r s e r'] k by (auto split: option.splits)
next
  fix r c e r' r'' x
  let ?f = "mr_fill (\<lambda>b. b \<noteq> []) B r"
  have f: "mem_str ?f = mem_str r" "mr_err ?f = mr_err r" by simp_all
  show rb: "mem_str r = c # mem_str r' \<and> mr_err r' = mr_err r"
    if "ReadByte (mem_reader B) r = (c, None, r')"
    using that f by (auto simp: mem_reader_def Let_def mem_str_def split: list.splits)
  show "mem_str r = [] \<and> mem_str r' = [] \<and> x = mr_err r"
    if "ReadByte (mem_reader B) r = (c, Some x, r')"
    using that by (auto simp: mem_reader_def Let_def mr_nonempty(1) [OF B] split: list.splits)
  show "e = None \<and> mem_str r'' = mem_str r \<and> mr_err r'' = mr_err r"
    if "ReadByte (mem_reader B) r = (c, None, r')" "UnreadByte (mem_reader B) r' = (e, r'')"
  proof -
    have "mr_last r' = c" using that(1) by (auto simp: mem_reader_def Let_def split: list.splits)
    then show ?thesis using rb [OF that(1)] that(2) by (auto simp: mem_reader_def mem_str_def)
  qed
next
  fix r
  show "0 \<le> Buffered (mem_reader B) r \<and> Buffered (mem_reader B) r \<le> int (length (mem_str r))"
    by (simp add: mem_reader_def mem_str_def)
next
  fix k r s e r'
  assume k: "int k \<le> Buffered (mem_reader B) r" "Peek (mem_reader B) (int k) r = (s, e, r')"
  then have "k \<le> length (mr_buf r)" by (simp add: mem_reader_def)
  then have "mr_fill (\<lambda>b. k \<le> length b) B r = r"
    by (cases r; cases "mr_segs r") (simp_all add: mr_fill_def)
  then show "e = None \<and> s = take k (mem_str r) \<and> mem_str r' = mem_str r \<and> mr_err r' = mr_err r"
    using k by (auto simp: mem_reader_def Let_def mem_str_def)
next
  fix n :: int and r s e r' x
  assume n: "0 < n"
  show "mem_str r = s @ mem_str r' \<and> mr_err r' = mr_err r \<and> int (length s) \<le> n"
    if "Read (mem_reader B) n r = (s, e, r')"
    using that mr_nonempty(3) [OF B, of "nat n" r] n
    by (auto simp: mem_reader_def Let_def mr_nonempty(1) [OF B] split: if_splits)
  show "s \<noteq> []" if "Read (mem_reader B) n r = (s, None, r')"
    using that n by (auto simp: mem_reader_def Let_def split: if_splits)
  show "mem_str r' = [] \<and> x = mr_err r" if "Read (mem_reader B) n r = (s, Some x, r')"
    using that by (auto simp: mem_reader_def Let_def mr_nonempty(1) [OF B] split: if_splits)
qed

text \<open>The constant \<open>httpBufSize\<close> of proxy.go, the size of every buffered reader.\<close>

definition httpBufSize :: nat where
  "httpBufSize = 8192"

lemma httpBufSize_pos [simp]: "0 < httpBufSize"
  by (simp add: httpBufSize_def)

interpretation mem: bufio_reader "mem_reader httpBufSize" httpBufSize mem_str mr_err
  by (rule mem_reader_laws) simp

section \<open>Writers\<close>

text \<open>
  \<open>io.Writer\<close>: \<open>Write b w\<close> returns the number of bytes written, an error and the new state.
  The contract: without an error all bytes are written; otherwise a prefix of them is.
\<close>

type_synonym 'w writer = "bytes \<Rightarrow> 'w \<Rightarrow> int \<times> err option \<times> 'w"

locale io_writer =
  fixes W :: "'w writer" and written :: "'w \<Rightarrow> bytes"
  assumes Write_ok:
      "W b w = (n, None, w') \<Longrightarrow> n = int (length b) \<and> written w' = written w @ b"
    and Write_prefix:
      "W b w = (n, Some e, w') \<Longrightarrow> \<exists>k \<le> length b. written w' = written w @ take k b"

text \<open>A destination that never fails.\<close>

locale reliable_writer = io_writer +
  assumes Write_no_error: "W b w = (n, e, w') \<Longrightarrow> e = None"
begin

lemma Write_all:
  obtains w' where "W b w = (int (length b), None, w')" "written w' = written w @ b"
proof -
  obtain n e w' where w: "W b w = (n, e, w')" by (metis prod_cases3)
  then have "e = None" by (rule Write_no_error)
  with w Write_ok [of b w n w'] that [of w'] show thesis by simp
qed

end

text \<open>A \<open>bytes.Buffer\<close> as a writer, and a connection that breaks after a number of bytes.\<close>

definition buffer_write :: "bytes writer" where
  "buffer_write b w = (int (length b), None, w @ b)"

definition limited_write :: "nat \<Rightarrow> err \<Rightarrow> bytes writer" where
  "limited_write lim e b w =
     (if length w + length b \<le> lim then (int (length b), None, w @ b)
      else (int (min (length b) (lim - length w)), Some e, w @ take (lim - length w) b))"

interpretation buffer: reliable_writer buffer_write "\<lambda>w. w"
  by unfold_locales (auto simp: buffer_write_def)

interpretation limited: io_writer "limited_write lim e" "\<lambda>w. w"
proof
  fix b w n e' w'
  show "n = int (length b) \<and> w' = w @ b" if "limited_write lim e b w = (n, None, w')"
    using that by (auto simp: limited_write_def split: if_splits)
  show "\<exists>k \<le> length b. w' = w @ take k b" if "limited_write lim e b w = (n, Some e', w')"
    using that by (auto simp: limited_write_def split: if_splits
        intro: exI [of _ "min (length b) (lim - length w)"])
qed

end
