(* ===== verification/Body.thy ===== *)
theory Body
  imports Bufio
begin

text \<open>
  Message bodies: \<open>copyN\<close> of util.go and the body functions of proxy.go (\<open>sendBodyWithContLen\<close>,
  \<open>skipTrailer\<close>, \<open>skipCRLF\<close>, \<open>sendBodyChunked\<close>, \<open>sendBodySplitIntoChunk\<close>, \<open>sendBody\<close>). Each
  takes a reader and a writer, and returns the error with the new states of both. The loops of
  the source may run forever on some readers, so they are \<open>partial_function (option)\<close>: \<open>None\<close>
  is a call that does not return. Sizes are Go \<open>int\<close>s and wrap around.
\<close>

section \<open>Copying a number of bytes\<close>

partial_function (option) copyN ::
    "'r Reader \<Rightarrow> 'w writer \<Rightarrow> int \<Rightarrow> int \<Rightarrow> 'r \<Rightarrow> 'w \<Rightarrow> (err option \<times> 'r \<times> 'w) option" where
  "copyN R W n rdSize r w =
     (if \<not> 0 < n then Some (None, r, w)
      else
        (case ReadN R (if rdSize < n then rdSize else n) r of
          (b, er, r1) \<Rightarrow>
            (case (if b = [] then (0, None, w) else W b w) of
              (nw, ew, w1) \<Rightarrow>
                (if ew \<noteq> None then Some (ew, r1, w1)
                 else if b \<noteq> [] \<and> nw \<noteq> int (length b) then Some (Some ShortWrite, r1, w1)
                 else if er = Some EOF then Some (None, r1, w1)
                 else if er \<noteq> None then Some (er, r1, w1)
                 else copyN R W (go_int (n - int (length b))) rdSize r1 w1))))"

definition sendBodyWithContLen ::
    "'r Reader \<Rightarrow> 'w writer \<Rightarrow> int \<Rightarrow> 'r \<Rightarrow> 'w \<Rightarrow> (err option \<times> 'r \<times> 'w) option" where
  "sendBodyWithContLen R W contLen r w =
     (if contLen = 0 then Some (None, r, w) else copyN R W contLen (int httpBufSize) r w)"

section \<open>Chunked transfer coding\<close>

definition malformed_chunk_end :: "bytes \<Rightarrow> err" where
  "malformed_chunk_end s = ErrorString (''malformed chunk body end: '' @ s)"

partial_function (option) skipTrailer :: "'r Reader \<Rightarrow> 'r \<Rightarrow> (err option \<times> 'r) option" where
  "skipTrailer R r =
     (case ReadSlice R LF r of
       (s, e, r1) \<Rightarrow>
         (if e \<noteq> None then Some (e, r1)
          else if s = CRLF then Some (None, r1)
          else if length s = 1 \<or> length s = 2 then Some (Some (malformed_chunk_end s), r1)
          else skipTrailer R r1))"

text \<open>\<open>io.ReadFull\<close>: reads until \<open>n\<close> bytes are there or an error occurs.\<close>

partial_function (option) ReadFull ::
    "'r Reader \<Rightarrow> nat \<Rightarrow> bytes \<Rightarrow> 'r \<Rightarrow> (bytes \<times> err option \<times> 'r) option" where
  "ReadFull R n got r =
     (if n \<le> length got then Some (got, None, r)
      else
        (case Read R (int (n - length got)) r of
          (b, e, r1) \<Rightarrow>
            (let got1 = got @ b in
             if e = None then ReadFull R n got1 r1
             else if n \<le> length got1 then Some (got1, None, r1)
             else if got1 \<noteq> [] \<and> e = Some EOF then Some (got1, Some UnexpectedEOF, r1)
             else Some (got1, e, r1))))"

definition skipCRLF :: "'r Reader \<Rightarrow> 'r \<Rightarrow> (err option \<times> 'r) option" where
  "skipCRLF R r =
     (case ReadFull R 2 [] r of
       None \<Rightarrow> None
     | Some (buf, e, r1) \<Rightarrow>
         (if e \<noteq> None then Some (e, r1)
          else if buf ! 0 \<noteq> CR \<or> buf ! 1 \<noteq> LF then Some (Some (malformed_chunk_end buf), r1)
          else Some (None, r1)))"

definition chunkEnd :: bytes where
  "chunkEnd = ''0'' @ CRLF @ CRLF"

text \<open>The size a chunk header line announces; a chunk extension after \<open>;\<close> is ignored.\<close>

definition chunk_size :: "bytes \<Rightarrow> err + int" where
  "chunk_size s =
     (let smid = (case IndexByte s (CHR '';'') of None \<Rightarrow> length s | Some i \<Rightarrow> i)
      in ParseIntFromBytes (TrimSpace (take smid s)) 16)"

partial_function (option) sendBodyChunked ::
    "'r Reader \<Rightarrow> 'w writer \<Rightarrow> int \<Rightarrow> 'r \<Rightarrow> 'w \<Rightarrow> (err option \<times> 'r \<times> 'w) option" where
  "sendBodyChunked R W rdSize r w =
     (case PeekSlice R LF r of
       (s, e, r1) \<Rightarrow>
         (if e \<noteq> None then Some (e, r1, w)
          else
            (case chunk_size s of
              Inl er \<Rightarrow> Some (Some er, r1, w)
            | Inr sz \<Rightarrow>
                (if sz = 0 then
                   (case skipCRLF R (snd (Skip R (int (length s)) r1)) of
                     None \<Rightarrow> None
                   | Some (e2, r2) \<Rightarrow>
                       (if e2 \<noteq> None then Some (e2, r2, w)
                        else (case W chunkEnd w of (nw, ew, w1) \<Rightarrow> Some (ew, r2, w1))))
                 else
                   Option.bind (copyN R W (go_int (int (length s) + sz + 2)) rdSize r1 w)
                     (\<lambda>(e3, r3, w3).
                        if e3 \<noteq> None then Some (e3, r3, w3)
                        else sendBodyChunked R W rdSize r3 w3)))))"

partial_function (option) sendBodySplitIntoChunk ::
    "'r Reader \<Rightarrow> 'w writer \<Rightarrow> 'r \<Rightarrow> 'w \<Rightarrow> (err option \<times> 'r \<times> 'w) option" where
  "sendBodySplitIntoChunk R W r w =
     (case ReadNext R r of
       (b, e, r1) \<Rightarrow>
         (if e = Some EOF then (case W chunkEnd w of (nw, ew, w1) \<Rightarrow> Some (ew, r1, w1))
          else if e \<noteq> None then Some (e, r1, w)
          else
            (case W (nat_digits 16 (length b) @ CRLF) w of
              (n1, e1, w1) \<Rightarrow>
                (if e1 \<noteq> None then Some (e1, r1, w1)
                 else
                   (case W b w1 of
                     (n2, e2, w2) \<Rightarrow>
                       (if e2 \<noteq> None then Some (e2, r1, w2)
                        else
                          (case W CRLF w2 of
                            (n3, e3, w3) \<Rightarrow>
                              (if e3 \<noteq> None then Some (e3, r1, w3)
                               else sendBodySplitIntoChunk R W r1 w3))))))))"

definition sendBody ::
    "'r Reader \<Rightarrow> 'w writer \<Rightarrow> int \<Rightarrow> bool \<Rightarrow> 'r \<Rightarrow> 'w \<Rightarrow> (err option \<times> 'r \<times> 'w) option" where
  "sendBody R W contLen chunk r w =
     (if chunk then sendBodyChunked R W (int httpBufSize) r w
      else if 0 \<le> contLen then sendBodyWithContLen R W contLen r w
      else sendBodySplitIntoChunk R W r w)"

section \<open>The body functions on a lawful reader and writer\<close>

locale body_io = bufio_reader R B str fin + io_writer W written
  for R :: "'r Reader" and B :: nat and str :: "'r \<Rightarrow> bytes" and fin :: "'r \<Rightarrow> err"
    and W :: "'w writer" and written :: "'w \<Rightarrow> bytes"
begin

text \<open>One round of the loop of \<open>copyN\<close>: the write fails, the stream ends, or bytes are moved.\<close>

lemma copyN_step:
  assumes "0 < rdSize" "rdSize \<le> int B" "0 < n" "n < 2 ^ 63"
  obtains
    (failed) x k r1 w1 where "copyN R W n rdSize r w = Some (Some x, r1, w1)" "k \<le> nat n"
      "written w1 = written w @ take k (str r)" "\<exists>b w. fst (snd (W b w)) \<noteq> None"
  | (ended) r1 w1 where
      "copyN R W n rdSize r w = Some (if fin r = EOF then None else Some (fin r), r1, w1)"
      "int (length (str r)) < n" "written w1 = written w @ str r" "str r1 = []" "fin r1 = fin r"
  | (moved) b r1 w1 where "copyN R W n rdSize r w = copyN R W (n - int (length b)) rdSize r1 w1"
      "b \<noteq> []" "int (length b) \<le> n" "str r = b @ str r1" "fin r1 = fin r" "written w1 = written w @ b"
proof -
  define m where "m = (if rdSize < n then rdSize else n)"
  have m: "0 < m" "m \<le> int B" "m \<le> n" using assms by (auto simp: m_def)
  obtain b er r1 where rd: "ReadN R m r = (b, er, r1)" by (metis prod_cases3)
  have sp: "str r = b @ str r1" "fin r1 = fin r" "int (length b) \<le> m"
    using ReadN_split [OF m(1,2) rd] by auto
  obtain nw ew w1 where wr: "(if b = [] then (0, None, w) else W b w) = (nw, ew, w1)"
    by (metis prod_cases3)
  note unf = copyN.simps [of R W n rdSize r w]
  consider (F) x where "ew = Some x" | (E) x where "ew = None" "er = Some x" | (M) "ew = None" "er = None"
    by fastforce
  then show thesis
  proof cases
    case F
    then have W: "W b w = (nw, Some x, w1)" using wr by (auto split: if_splits)
    then obtain k where k: "k \<le> length b" "written w1 = written w @ take k b"
      using Write_prefix by blast
    have "copyN R W n rdSize r w = Some (Some x, r1, w1)"
      using unf assms(3) rd wr F by (simp flip: m_def)
    moreover have "\<exists>b w. fst (snd (W b w)) \<noteq> None" using W by (intro exI [of _ b] exI [of _ w]) simp
    ultimately show thesis using failed [of x r1 w1 k] k sp m(3) by simp
  next
    case E
    have wok: "written w1 = written w @ b" "b = [] \<or> nw = int (length b)"
      using wr E Write_ok [of b w nw w1] by (auto split: if_splits)
    have fin: "int (length b) < m" "str r1 = []" "x = fin r" using ReadN_error m(1,2) rd E(2) by blast+
    have "copyN R W n rdSize r w = Some (if fin r = EOF then None else Some (fin r), r1, w1)"
      using unf assms(3) rd wr E fin wok by (auto simp flip: m_def)
    then show thesis using ended [of r1 w1] fin sp wok m(3) by simp
  next
    case M
    have wok: "written w1 = written w @ b" "b = [] \<or> nw = int (length b)"
      using wr M Write_ok [of b w nw w1] by (auto split: if_splits)
    have b: "b \<noteq> []" using ReadN_progress m(1,2) rd M by blast
    have gi: "go_int (n - int (length b)) = n - int (length b)"
      using sp m(3) assms(4) by (intro go_int_id) auto
    have "copyN R W n rdSize r w = copyN R W (n - int (length b)) rdSize r1 w1"
      using unf assms(3) rd wr M wok gi by (auto simp flip: m_def)
    then show thesis using moved [of b r1 w1] b sp m(3) wok by simp
  qed
qed

text \<open>
  \<open>copyN\<close> always returns. Without an error it has copied the next \<open>n\<close> bytes of the stream, or
  all of it when the stream ended before with \<open>EOF\<close>; with an error, a prefix of them.
\<close>

definition copyN_post :: "int \<Rightarrow> 'r \<Rightarrow> 'w \<Rightarrow> err option \<Rightarrow> 'r \<Rightarrow> 'w \<Rightarrow> bool" where
  "copyN_post n r w e r' w' \<longleftrightarrow>
     (\<exists>k \<le> nat n. written w' = written w @ take k (str r)) \<and>
     (e = None \<longrightarrow> written w' = written w @ take (nat n) (str r) \<and> str r' = drop (nat n) (str r) \<and>
        fin r' = fin r \<and> (int (length (str r)) < n \<longrightarrow> fin r = EOF)) \<and>
     ((n \<le> int (length (str r)) \<or> fin r = EOF) \<and> (\<forall>b w. fst (snd (W b w)) = None) \<longrightarrow> e = None)"

lemma copyN_post_moved:
  assumes "copyN_post (n - int (length b)) r1 w1 e r' w'" "int (length b) \<le> n"
    "str r = b @ str r1" "fin r1 = fin r" "written w1 = written w @ b"
  shows "copyN_post n r w e r' w'"
proof -
  have nn: "nat n = length b + nat (n - int (length b))" using assms(2) by simp
  obtain k where k: "k \<le> nat (n - int (length b))" "written w' = written w1 @ take k (str r1)"
    using assms(1) unfolding copyN_post_def by blast
  then have "\<exists>k \<le> nat n. written w' = written w @ take k (str r)"
    using assms(3,5) nn by (intro exI [of _ "length b + k"]) simp
  then show ?thesis using assms nn by (auto simp: copyN_post_def)
qed

lemma copyN_returns:
  assumes "0 < rdSize" "rdSize \<le> int B" "n < 2 ^ 63"
  shows "\<exists>e r' w'. copyN R W n rdSize r w = Some (e, r', w') \<and> copyN_post n r w e r' w'"
  using assms(3)
proof (induction "nat n" arbitrary: n r w rule: less_induct)
  case less
  show ?case
  proof (cases "0 < n")
    case False
    then have "copyN R W n rdSize r w = Some (None, r, w)" by (subst copyN.simps) simp
    then show ?thesis using False by (auto simp: copyN_post_def)
  next
    case True
    show ?thesis
    proof (cases rule: copyN_step [OF assms(1,2) True less.prems, of r w, case_names failed ended moved])
      case (failed x k r1 w1)
      then show ?thesis by (auto simp: copyN_post_def)
    next
      case (ended r1 w1)
      then have "\<exists>k \<le> nat n. written w1 = written w @ take k (str r)"
        by (intro exI [of _ "length (str r)"]) auto
      with ended show ?thesis by (auto simp: copyN_post_def)
    next
      case (moved b r1 w1)
      then have "nat (n - int (length b)) < nat n" "n - int (length b) < 2 ^ 63"
        using True less.prems by auto
      from less.hyps [OF this, of r1 w1]
      show ?thesis using moved copyN_post_moved by metis
    qed
  qed
qed

text \<open>\<open>skipCRLF\<close> consumes exactly two bytes of the stream.\<close>

lemma ReadFull_all:
  "n \<le> length got + length (str r) \<Longrightarrow> length got \<le> n \<Longrightarrow>
   \<exists>r'. ReadFull R n got r = Some (got @ take (n - length got) (str r), None, r') \<and>
     str r' = drop (n - length got) (str r) \<and> fin r' = fin r"
proof (induction "n - length got" arbitrary: got r rule: less_induct)
  case less
  show ?case
  proof (cases "n \<le> length got")
    case True
    then show ?thesis by (subst ReadFull.simps) simp
  next
    case False
    obtain b e r1 where rd: "Read R (int (n - length got)) r = (b, e, r1)" by (metis prod_cases3)
    have pos: "0 < int (n - length got)" using False by simp
    have sp: "str r = b @ str r1" "fin r1 = fin r" "length b \<le> n - length got"
      using Read_split [OF pos rd] by auto
    note unf = ReadFull.simps [of R n got r]
    show ?thesis
    proof (cases e)
      case None
      then have b: "b \<noteq> []" using Read_progress pos rd by blast
      have "n - length (got @ b) < n - length got" using b False by (cases b) auto
      then obtain r' where "ReadFull R n (got @ b) r1 =
          Some ((got @ b) @ take (n - length (got @ b)) (str r1), None, r')"
        "str r' = drop (n - length (got @ b)) (str r1)" "fin r' = fin r1"
        using less.hyps [of "got @ b" r1] less.prems sp False by force
      moreover have "ReadFull R n got r = ReadFull R n (got @ b) r1"
        using unf False rd None by simp
      ultimately show ?thesis using sp by simp
    next
      case (Some x)
      then have "str r1 = []" using Read_error pos rd by blast
      then have "length b = n - length got" using sp less.prems by simp
      then show ?thesis using unf False rd Some sp \<open>str r1 = []\<close> by simp
    qed
  qed
qed

lemma skipCRLF_spec:
  assumes "str r = c1 # c2 # rest"
  obtains r' where "str r' = rest" "fin r' = fin r"
    "skipCRLF R r = Some (if c1 = CR \<and> c2 = LF then None else Some (malformed_chunk_end [c1, c2]), r')"
proof -
  obtain r' where "ReadFull R 2 [] r = Some ([c1, c2], None, r')" "str r' = rest" "fin r' = fin r"
    using ReadFull_all [of 2 "[]" r] assms by auto
  with that [of r'] show thesis by (simp add: skipCRLF_def)
qed

end

section \<open>Well-formed chunked bodies\<close>

text \<open>
  A chunk is its header line without the line feed, and its data. It is well formed when the
  header fits into the reader's buffer and announces the length of the data.
\<close>

definition wf_chunk :: "nat \<Rightarrow> bytes \<times> bytes \<Rightarrow> bool" where
  "wf_chunk B c \<longleftrightarrow>
     LF \<notin> set (fst c) \<and> length (fst c) < B \<and> snd c \<noteq> [] \<and>
     chunk_size (fst c @ [LF]) = Inr (int (length (snd c))) \<and>
     int (length (fst c)) + int (length (snd c)) + 3 < 2 ^ 63"

definition chunk_bytes :: "bytes \<times> bytes \<Rightarrow> bytes" where
  "chunk_bytes c = fst c @ [LF] @ snd c @ CRLF"

definition chunked_body :: "(bytes \<times> bytes) list \<Rightarrow> bytes" where
  "chunked_body cs = concat (map chunk_bytes cs)"

definition last_chunk :: "nat \<Rightarrow> bytes \<Rightarrow> bool" where
  "last_chunk B l \<longleftrightarrow> LF \<notin> set l \<and> length l < B \<and> chunk_size (l @ [LF]) = Inr 0"

text \<open>A chunk whose data has the given bytes, with the header \<open>sendBodySplitIntoChunk\<close> writes.\<close>

definition mk_chunk :: "bytes \<Rightarrow> bytes \<times> bytes" where
  "mk_chunk b = (nat_digits 16 (length b) @ [CR], b)"

lemma chunk_bytes_length: "length (chunk_bytes c) = length (fst c) + length (snd c) + 3"
  by (simp add: chunk_bytes_def CRLF_def)

locale reliable_body_io = bufio_reader R B str fin + reliable_writer W written
  for R :: "'r Reader" and B :: nat and str :: "'r \<Rightarrow> bytes" and fin :: "'r \<Rightarrow> err"
    and W :: "'w writer" and written :: "'w \<Rightarrow> bytes"
begin

sublocale body_io R B str fin W written
  by unfold_locales

lemma copyN_exact:
  assumes "0 < rdSize" "rdSize \<le> int B" "n < 2 ^ 63" "str r = s @ rest" "n = int (length s)"
  obtains r' w' where "copyN R W n rdSize r w = Some (None, r', w')" "str r' = rest"
    "fin r' = fin r" "written w' = written w @ s"
proof -
  obtain e r' w' where c: "copyN R W n rdSize r w = Some (e, r', w')" "copyN_post n r w e r' w'"
    using copyN_returns [OF assms(1-3)] by blast
  have "\<forall>b w. fst (snd (W b w)) = None" by (metis Write_all fst_conv snd_conv)
  then have "e = None" using c(2) assms(4,5) by (simp add: copyN_post_def)
  with c that [of r' w'] assms show thesis by (simp add: copyN_post_def)
qed

lemma sendBodyChunked_last:
  assumes "last_chunk B l" "str r = l @ [LF] @ CRLF @ rest"
  shows "\<exists>r' w'. sendBodyChunked R W rdSize r w = Some (None, r', w') \<and>
    str r' = rest \<and> fin r' = fin r \<and> written w' = written w @ chunkEnd"
proof -
  have l: "LF \<notin> set l" "length l < B" "chunk_size (l @ [LF]) = Inr 0"
    using assms(1) by (auto simp: last_chunk_def)
  have "str r = l @ LF # CRLF @ rest" using assms(2) by simp
  then obtain r1 where r1: "PeekSlice R LF r = (l @ [LF], None, r1)" "str r1 = str r" "fin r1 = fin r"
    using PeekSlice_full_line l(1,2) by metis
  obtain e2 r2 where sk: "Skip R (int (length (l @ [LF]))) r1 = (e2, r2)" by fastforce
  have "length (l @ [LF]) \<le> length (str r1)" "length (l @ [LF]) \<le> B" using r1 assms(2) l(2) by auto
  from Skip_ok [OF this sk] have r2: "str r2 = CR # LF # rest" "fin r2 = fin r"
    using r1 assms(2) by (simp_all add: CRLF_def CR_def LF_def)
  obtain r3 where r3: "skipCRLF R r2 = Some (None, r3)" "str r3 = rest" "fin r3 = fin r"
    using skipCRLF_spec [OF r2(1)] r2(2) by (metis)
  obtain w' where w': "W chunkEnd w = (int (length chunkEnd), None, w')" "written w' = written w @ chunkEnd"
    using Write_all by blast
  have "sendBodyChunked R W rdSize r w = Some (None, r3, w')"
    using r1 l(3) sk r3 w' by (subst sendBodyChunked.simps) simp
  with r3 w' show ?thesis by blast
qed

lemma sendBodyChunked_one:
  assumes "0 < rdSize" "rdSize \<le> int B" "wf_chunk B c" "str r = chunk_bytes c @ rest"
  obtains r' w' where "sendBodyChunked R W rdSize r w = sendBodyChunked R W rdSize r' w'"
    "str r' = rest" "fin r' = fin r" "written w' = written w @ chunk_bytes c"
proof -
  obtain l d where cld: "c = (l, d)" by (cases c)
  let ?tot = "int (length (l @ [LF])) + int (length d) + 2"
  have l: "LF \<notin> set l" "length l < B" "chunk_size (l @ [LF]) = Inr (int (length d))" "d \<noteq> []"
      "?tot < 2 ^ 63"
    using assms(3) by (auto simp: wf_chunk_def cld)
  have "str r = l @ LF # d @ CRLF @ rest" using assms(4) by (simp add: cld chunk_bytes_def)
  then obtain r1 where r1: "PeekSlice R LF r = (l @ [LF], None, r1)" "str r1 = str r" "fin r1 = fin r"
    using PeekSlice_full_line l(1,2) by metis
  have tot: "?tot = int (length (chunk_bytes c))" "go_int ?tot = ?tot"
    using l(5) by (simp_all add: chunk_bytes_length cld go_int_id)
  obtain r' w' where cp: "copyN R W ?tot rdSize r1 w = Some (None, r', w')" "str r' = rest"
      "fin r' = fin r1" "written w' = written w @ chunk_bytes c"
    using copyN_exact [OF assms(1,2) l(5), of r1 "chunk_bytes c" rest w] tot assms(4) r1 by metis
  have "sendBodyChunked R W rdSize r w = sendBodyChunked R W rdSize r' w'"
    using r1 l(3,4) cp tot by (subst sendBodyChunked.simps) simp
  with that [of r' w'] cp r1 show thesis by simp
qed

lemma sendBodyChunked_copies:
  assumes "0 < rdSize" "rdSize \<le> int B" "\<forall>c \<in> set cs. wf_chunk B c" "last_chunk B l"
    "str r = chunked_body cs @ l @ [LF] @ CRLF @ rest"
  shows "\<exists>r' w'. sendBodyChunked R W rdSize r w = Some (None, r', w') \<and>
    str r' = rest \<and> written w' = written w @ chunked_body cs @ chunkEnd"
  using assms(3,5)
proof (induction cs arbitrary: r w)
  case Nil
  then show ?case using sendBodyChunked_last [OF assms(4), of r rest rdSize w]
    by (auto simp: chunked_body_def)
next
  case (Cons c cs)
  then have "str r = chunk_bytes c @ chunked_body cs @ l @ [LF] @ CRLF @ rest" "wf_chunk B c"
    by (simp_all add: chunked_body_def)
  from sendBodyChunked_one [OF assms(1,2) this(2,1), of w] obtain r' w' where
    one: "sendBodyChunked R W rdSize r w = sendBodyChunked R W rdSize r' w'"
      "str r' = chunked_body cs @ l @ [LF] @ CRLF @ rest" "written w' = written w @ chunk_bytes c"
    by metis
  from Cons.IH [OF _ one(2), of w'] Cons.prems(1) one show ?case
    by (auto simp: chunked_body_def)
qed

text \<open>\<open>sendBodySplitIntoChunk\<close> sends the whole stream, one chunk per read.\<close>

lemma sendBodySplitIntoChunk_one:
  assumes "str r \<noteq> []"
  obtains b r' w' where "sendBodySplitIntoChunk R W r w = sendBodySplitIntoChunk R W r' w'"
    "b \<noteq> []" "length b \<le> B" "str r = b @ str r'" "fin r' = fin r"
    "written w' = written w @ chunk_bytes (mk_chunk b)"
proof -
  obtain b e r' where rd: "ReadNext R r = (b, e, r')" by (metis prod_cases3)
  have e: "e = None" using ReadNext_error [of r b _ r'] rd assms by (cases e) auto
  have b: "b \<noteq> []" "length b \<le> B" "str r = b @ str r'" "fin r' = fin r"
    using ReadNext_progress [of r b r'] ReadNext_split [OF rd] rd e by auto
  obtain w1 where w1: "W (nat_digits 16 (length b) @ CRLF) w =
      (int (length (nat_digits 16 (length b) @ CRLF)), None, w1)"
      "written w1 = written w @ nat_digits 16 (length b) @ CRLF" using Write_all by blast
  obtain w2 where w2: "W b w1 = (int (length b), None, w2)" "written w2 = written w1 @ b"
    using Write_all by blast
  obtain w3 where w3: "W CRLF w2 = (int (length CRLF), None, w3)" "written w3 = written w2 @ CRLF"
    using Write_all by blast
  have "sendBodySplitIntoChunk R W r w = sendBodySplitIntoChunk R W r' w3"
    using rd e w1(1) w2(1) w3(1) by (subst sendBodySplitIntoChunk.simps) simp
  moreover have "written w3 = written w @ chunk_bytes (mk_chunk b)"
    using w1 w2 w3 by (simp add: chunk_bytes_def mk_chunk_def CRLF_def CR_def LF_def)
  ultimately show thesis using that [of r' w3 b] b by blast
qed

lemma sendBodySplitIntoChunk_sends:
  assumes "fin r = EOF"
  shows "\<exists>r' w' bs. sendBodySplitIntoChunk R W r w = Some (None, r', w') \<and>
    (\<forall>b \<in> set bs. b \<noteq> [] \<and> length b \<le> B) \<and> concat bs = str r \<and>
    written w' = written w @ chunked_body (map mk_chunk bs) @ chunkEnd"
  using assms
proof (induction "length (str r)" arbitrary: r w rule: less_induct)
  case less
  show ?case
  proof (cases "str r = []")
    case True
    obtain b e r' where rd: "ReadNext R r = (b, e, r')" by (metis prod_cases3)
    have "e = Some EOF"
      using ReadNext_error [of r b _ r'] ReadNext_progress [of r b r'] ReadNext_split [OF rd] rd True less.prems
      by (cases e) auto
    moreover obtain w' where "W chunkEnd w = (int (length chunkEnd), None, w')"
      "written w' = written w @ chunkEnd" using Write_all by blast
    ultimately show ?thesis using rd True
      by (subst sendBodySplitIntoChunk.simps) (auto simp: chunked_body_def intro!: exI [of _ "[]"])
  next
    case False
    then obtain b r1 w1 where one:
      "sendBodySplitIntoChunk R W r w = sendBodySplitIntoChunk R W r1 w1" "b \<noteq> []" "length b \<le> B"
      "str r = b @ str r1" "fin r1 = fin r" "written w1 = written w @ chunk_bytes (mk_chunk b)"
      using sendBodySplitIntoChunk_one by metis
    obtain r' w' bs where ih: "sendBodySplitIntoChunk R W r1 w1 = Some (None, r', w')"
      "\<forall>b \<in> set bs. b \<noteq> [] \<and> length b \<le> B" "concat bs = str r1"
      "written w' = written w1 @ chunked_body (map mk_chunk bs) @ chunkEnd"
      using less.hyps [of r1 w1] one less.prems by auto
    show ?thesis using one ih
      by (intro exI [of _ r'] exI [of _ w'] exI [of _ "b # bs"]) (auto simp: chunked_body_def)
  qed
qed

end

section \<open>Chunk headers\<close>

lemma digit_char_plain:
  assumes "d < 16"
  shows "\<not> IsSpace (digit_char d) \<and> digit_char d \<noteq> CHR '';'' \<and> digit_char d \<noteq> LF"
proof -
  have "48 \<le> byte_val (digit_char d) \<and> byte_val (digit_char d) \<noteq> 59"
    using assms by (auto simp: byte_val_digit_char_hex)
  then show ?thesis by (auto simp: IsSpace_def LF_def)
qed

lemma nat_digits_set:
  "2 \<le> base \<Longrightarrow> c \<in> set (nat_digits base k) \<Longrightarrow> \<exists>d < base. c = digit_char d"
proof (induction base k rule: nat_digits.induct)
  case (1 b n)
  from 1(3) have "c \<in> set (nat_digits b (n div b)) \<and> \<not> n < b \<or> c = digit_char (n mod b)"
    using 1(2) by (subst (asm) nat_digits.simps) (auto split: if_splits)
  then show ?case using 1(1,2) mod_less_divisor [of b n] by fastforce
qed

lemma TrimSpace_suffix:
  assumes "s \<noteq> []" "\<forall>c \<in> set s. \<not> IsSpace c" "\<forall>c \<in> set t. IsSpace c"
  shows "TrimSpace (s @ t) = s"
proof -
  have "dropWhile IsSpace (s @ t) = s @ t" using assms(1,2) by (cases s) auto
  moreover have "dropWhile IsSpace (rev t @ rev s) = rev s"
    using assms by (subst dropWhile_append2) (auto simp: dropWhile_eq_self_iff hd_rev)
  ultimately show ?thesis by (simp add: TrimSpace_rev)
qed

lemma chunk_size_digits:
  assumes "k < 2 ^ 63"
  shows "chunk_size (nat_digits 16 k @ [CR, LF]) = Inr (int k)"
proof -
  have dc: "\<not> IsSpace c \<and> c \<noteq> CHR '';''" if "c \<in> set (nat_digits 16 k)" for c
    using nat_digits_set [of 16 c k] that digit_char_plain by auto
  have "IndexByte (nat_digits 16 k @ [CR, LF]) (CHR '';'') = None"
    using dc by (auto simp: CR_def LF_def)
  moreover have "TrimSpace (nat_digits 16 k @ [CR, LF]) = nat_digits 16 k"
    using dc by (intro TrimSpace_suffix) (auto simp: IsSpace_def CR_def LF_def)
  ultimately show ?thesis
    using ParseInt_nat_digits [of 16 k] assms by (simp add: chunk_size_def)
qed

lemma wf_mk_chunk:
  assumes "16 < B" "B < 2 ^ 60" "b \<noteq> []" "length b \<le> B"
  shows "wf_chunk B (mk_chunk b)"
proof -
  have k: "length b < 16 ^ 15" using assms(2,4) by simp
  then have len: "length (nat_digits 16 (length b)) \<le> 15" by (intro nat_digits_length) auto
  have "LF \<notin> set (nat_digits 16 (length b))" using nat_digits_set [of 16 LF "length b"] digit_char_plain by fastforce
  moreover have "chunk_size (nat_digits 16 (length b) @ [CR, LF]) = Inr (int (length b))"
    using k by (intro chunk_size_digits) simp
  ultimately show ?thesis using len k assms(1,3)
    by (simp add: wf_chunk_def mk_chunk_def) (simp add: CR_def LF_def)
qed

lemma last_chunk_chunkEnd: "1 < B \<Longrightarrow> chunkEnd = (''0'' @ [CR]) @ [LF] @ CRLF"
  by (simp add: chunkEnd_def CRLF_def CR_def LF_def)

lemma copyN_nonpos: "n \<le> 0 \<Longrightarrow> copyN R W n rd r w = Some (None, r, w)"
  by (subst copyN.simps) simp

context bufio_reader
begin

lemma sendBodyChunked_negative:
  assumes "str r = l @ LF # rest" "LF \<notin> set l" "length l < B"
    "chunk_size (l @ [LF]) = Inr sz" "sz \<noteq> 0" "go_int (int (length l) + sz + 3) \<le> 0"
  shows "sendBodyChunked R W rdSize r w = None"
proof -
  have "R = R \<longrightarrow> str r \<noteq> l @ LF # rest" if call: "sendBodyChunked R W rdSize r w = Some y" for y
  proof (rule sendBodyChunked.raw_induct [OF _ call, where
        P = "\<lambda>R' W' rd' r' w' y'. R' = R \<longrightarrow> str r' \<noteq> l @ LF # rest"], goal_cases)
    case (1 f R' W' rd' r' w' y')
    show ?case
    proof (intro impI notI)
      assume a: "R' = R" "str r' = l @ LF # rest"
      obtain r1 where r1: "PeekSlice R LF r' = (l @ [LF], None, r1)" "str r1 = str r'"
        using PeekSlice_full_line [OF a(2) assms(2,3)] by blast
      have "copyN R W' (go_int (int (length (l @ [LF])) + sz + 2)) rd' r1 w' = Some (None, r1, w')"
        using assms(6) by (intro copyN_nonpos) (simp add: algebra_simps)
      then have "f R W' rd' r1 w' = Some y'" using 1(2) a(1) r1(1) assms(4,5) by simp
      from 1(1) [OF this] show False using r1(2) a by simp
    qed
  qed
  with assms(1) show ?thesis by (metis option.exhaust)
qed

end

interpretation mem_limited: body_io "mem_reader httpBufSize" httpBufSize mem_str mr_err
    "limited_write lim e" "\<lambda>w. w"
  by (intro body_io.intro mem.bufio_reader_axioms limited.io_writer_axioms)

interpretation mem_buffer: reliable_body_io "mem_reader httpBufSize" httpBufSize mem_str mr_err
    buffer_write "\<lambda>w. w"
  by (intro reliable_body_io.intro mem.bufio_reader_axioms buffer.reliable_writer_axioms)

lemma mem_open_simps [simp]: "mem_str (mem_open segs e) = concat segs" "mr_err (mem_open segs e) = e"
  by (simp_all add: mem_open_def mem_str_def)

section \<open>Properties\<close>

text \<open>C29: \<open>sendBody\<close> with a content length. On every lawful reader and writer the call returns.
  It writes a prefix of the next \<open>contLen\<close> bytes of the stream and nothing else; without an error
  it has written all of them and consumed exactly them, except that a stream that ends early with
  \<open>EOF\<close> is written completely and also reported as success. If the bytes are there and the writer
  does not fail, the result is success.\<close>

theorem sendBody_content_length:
  assumes "bufio_reader R B str fin" "io_writer W written" "httpBufSize \<le> B"
    "0 \<le> contLen" "contLen < 2 ^ 63"
  shows "\<exists>e r' w'. sendBody R W contLen False r w = Some (e, r', w') \<and>
    (\<exists>k \<le> nat contLen. written w' = written w @ take k (str r)) \<and>
    (e = None \<longrightarrow> written w' = written w @ take (nat contLen) (str r) \<and>
       str r' = drop (nat contLen) (str r) \<and> (int (length (str r)) < contLen \<longrightarrow> fin r = EOF)) \<and>
    ((contLen \<le> int (length (str r)) \<or> fin r = EOF) \<and> (\<forall>b w. fst (snd (W b w)) = None) \<longrightarrow> e = None)"
proof -
  have io: "body_io R B str fin W written" using assms(1,2) by (rule body_io.intro)
  have "sendBody R W contLen False r w = copyN R W contLen (int httpBufSize) r w"
    using assms(4) by (simp add: sendBody_def sendBodyWithContLen_def copyN_nonpos)
  moreover have "0 < int httpBufSize" "int httpBufSize \<le> int B"
    using assms(3) by (simp_all add: httpBufSize_def)
  ultimately show ?thesis
    using body_io.copyN_returns [OF io, of "int httpBufSize" contLen r w] assms(5)
    unfolding body_io.copyN_post_def [OF io] by (simp add: conj_assoc) blast
qed

theorem sendBody_content_length_witness:
  "\<exists>r'. sendBody (mem_reader httpBufSize) buffer_write 5 False
       (mem_open [''hel'', ''lo world''] EOF) [] = Some (None, r', ''hello'') \<and> mem_str r' = '' world''"
proof -
  have "\<forall>b w. fst (snd (buffer_write b w)) = None" by (simp add: buffer_write_def)
  then show ?thesis
    using sendBody_content_length [OF mem.bufio_reader_axioms buffer.io_writer_axioms, of 5
        "mem_open [''hel'', ''lo world''] EOF" "[]"] by auto
qed

text \<open>C9: \<open>sendBody\<close> with chunked encoding, which has precedence over a content length. A
  well-formed chunked body, chunk extensions included, is forwarded byte for byte up to the last
  chunk, which is written anew without its extension; exactly the body is consumed, and the loop
  ends.\<close>

theorem sendBody_chunked_forwards:
  assumes "bufio_reader R B str fin" "reliable_writer W written" "httpBufSize \<le> B"
    "\<forall>c \<in> set cs. wf_chunk B c" "last_chunk B l"
    "str r = chunked_body cs @ l @ [LF] @ CRLF @ rest"
  shows "\<exists>r' w'. sendBody R W contLen True r w = Some (None, r', w') \<and>
    str r' = rest \<and> written w' = written w @ chunked_body cs @ chunkEnd"
proof -
  have io: "reliable_body_io R B str fin W written" using assms(1,2) by (rule reliable_body_io.intro)
  have "0 < int httpBufSize" "int httpBufSize \<le> int B"
    using assms(3) by (simp_all add: httpBufSize_def)
  from reliable_body_io.sendBodyChunked_copies [OF io this assms(4-6), of w]
  show ?thesis by (simp add: sendBody_def)
qed

theorem sendBody_chunked_forwards_witness:
  "\<exists>r' w'. sendBody (mem_reader httpBufSize) buffer_write 0 True
       (mem_open [''3;x'' @ CRLF @ ''ab'', ''c'' @ CRLF @ ''0'' @ CRLF @ CRLF @ ''GET''] EOF) [] =
         Some (None, r', w') \<and>
     mem_str r' = ''GET'' \<and> w' = ''3;x'' @ CRLF @ ''abc'' @ CRLF @ chunkEnd"
proof -
  have sz: "chunk_size (''3;x'' @ [CR, LF]) = Inr 3" "chunk_size (''0'' @ [CR, LF]) = Inr 0" by code_simp+
  have "\<forall>c \<in> set [(''3;x'' @ [CR], ''abc'')]. wf_chunk httpBufSize c" "last_chunk httpBufSize (''0'' @ [CR])"
    using sz by (simp_all add: wf_chunk_def last_chunk_def httpBufSize_def) (simp_all add: CR_def LF_def)
  from sendBody_chunked_forwards [OF mem.bufio_reader_axioms buffer.reliable_writer_axioms order.refl this,
      of "mem_open [''3;x'' @ CRLF @ ''ab'', ''c'' @ CRLF @ ''0'' @ CRLF @ CRLF @ ''GET''] EOF" "''GET''" 0 "[]"]
  show ?thesis by (simp add: chunked_body_def chunk_bytes_def CRLF_def CR_def LF_def)
qed

text \<open>C30: \<open>sendBody\<close> with neither: the response is read until the server closes the connection
  and sent as chunks. The call returns without an error, and what it has written is a well-formed
  chunked body, in the sense in which \<open>sendBody\<close> itself accepts one, that carries exactly the
  bytes of the stream.\<close>

theorem sendBody_until_close_encodes:
  assumes "bufio_reader R B str fin" "reliable_writer W written" "16 < B" "B < 2 ^ 60"
    "contLen < 0" "fin r = EOF"
  shows "\<exists>r' w' cs. sendBody R W contLen False r w = Some (None, r', w') \<and>
    written w' = written w @ chunked_body cs @ chunkEnd \<and>
    (\<forall>c \<in> set cs. wf_chunk B c) \<and> concat (map snd cs) = str r"
proof -
  have io: "reliable_body_io R B str fin W written" using assms(1,2) by (rule reliable_body_io.intro)
  obtain r' w' bs where r: "sendBodySplitIntoChunk R W r w = Some (None, r', w')"
    "\<forall>b \<in> set bs. b \<noteq> [] \<and> length b \<le> B" "concat bs = str r"
    "written w' = written w @ chunked_body (map mk_chunk bs) @ chunkEnd"
    using reliable_body_io.sendBodySplitIntoChunk_sends [OF io assms(6), of w] by blast
  have "\<forall>c \<in> set (map mk_chunk bs). wf_chunk B c" using r(2) wf_mk_chunk assms(3,4) by auto
  moreover have "concat (map snd (map mk_chunk bs)) = str r"
    using r(3) by (simp add: mk_chunk_def comp_def)
  ultimately show ?thesis using r(1,4) assms(5)
    by (intro exI [of _ r'] exI [of _ w'] exI [of _ "map mk_chunk bs"]) (simp add: sendBody_def)
qed

theorem sendBody_until_close_encodes_witness:
  "\<exists>r' w' cs. sendBody (mem_reader httpBufSize) buffer_write (-1) False
       (mem_open [''one'', ''two''] EOF) ''head'' = Some (None, r', w') \<and>
     w' = ''head'' @ chunked_body cs @ chunkEnd \<and>
     (\<forall>c \<in> set cs. wf_chunk httpBufSize c) \<and> concat (map snd cs) = ''onetwo''"
  using sendBody_until_close_encodes [OF mem.bufio_reader_axioms buffer.reliable_writer_axioms, of "-1"
      "mem_open [''one'', ''two''] EOF" "''head''"] by (simp add: httpBufSize_def)

text \<open>C31: A chunk header whose size makes the number of bytes to copy zero or negative, such as
  \<open>-ff\<close>, is never left behind: \<open>sendBody\<close> does not return, for any writer and any data that
  follows.\<close>

theorem sendBody_negative_chunk_diverges:
  assumes "bufio_reader R B str fin" "str r = l @ LF # rest" "LF \<notin> set l" "length l < B"
    "chunk_size (l @ [LF]) = Inr sz" "sz \<noteq> 0" "go_int (int (length l) + sz + 3) \<le> 0"
  shows "sendBody R W contLen True r w = None"
  using bufio_reader.sendBodyChunked_negative [OF assms] by (simp add: sendBody_def)


theorem sendBody_negative_chunk_diverges_witness:
  "sendBody (mem_reader httpBufSize) buffer_write 0 True (mem_open [''-ff'' @ CRLF @ ''data''] EOF) [] = None"
proof -
  have "chunk_size ((''-ff'' @ [CR]) @ [LF]) = Inr (- 255)" by code_simp
  moreover have "go_int (int (length (''-ff'' @ [CR])) + (- 255) + 3) \<le> 0" by code_simp
  ultimately show ?thesis
    using sendBody_negative_chunk_diverges [OF mem.bufio_reader_axioms, of
        "mem_open [''-ff'' @ CRLF @ ''data''] EOF" "''-ff'' @ [CR]" "''data''" "-255" buffer_write 0 "[]"]
    by (simp add: httpBufSize_def CRLF_def) (simp add: CR_def LF_def)
qed

end
