(* ===== verification/Http.thy ===== *)
theory Http
  imports Bufio Url
begin

text \<open>
  http.go: the \<open>Header\<close>, \<open>Request\<close> and \<open>Response\<close> structs, the header parsers, the reading of
  header lines with continuation, \<open>parseHeader\<close>, \<open>parseRequest\<close> and \<open>parseResponse\<close>.

  The \<open>raw\<close> buffer is its contents, \<open>None\<close> after \<open>releaseBuf\<close>; the underlying byte arrays of the
  buffer pool are not modelled, nor are the capture and plugin handles of a request. A nil
  \<open>URL\<close> is \<open>empty_URL\<close>. Header parsers get a slice of the reader's buffer and some of them change
  its letter case in place, which also changes the header line that is forwarded: a parser
  returns the changed value, and \<open>parseHeader\<close> writes it back into the line.
\<close>

section \<open>Headers\<close>

record Header =
  ContLen :: int
  KeepAlive :: int
  ContentType :: bytes
  ContentEncoding :: bytes
  ProxyAuthorization :: bytes
  Chunking :: bool
  Trailer :: bool
  ConnectionKeepAlive :: bool
  ExpectContinue :: bool
  Host :: bytes
  Upgrade :: bytes

text \<open>The header of \<open>zeroRequest\<close> and \<open>zeroResponse\<close>.\<close>

definition zeroHeader :: Header where
  "zeroHeader = \<lparr>ContLen = 0, KeepAlive = 0, ContentType = [], ContentEncoding = [],
     ProxyAuthorization = [], Chunking = False, Trailer = False, ConnectionKeepAlive = True,
     ExpectContinue = False, Host = [], Upgrade = []\<rparr>"

type_synonym HeaderParserFunc = "Header \<Rightarrow> bytes \<Rightarrow> err option \<times> Header \<times> bytes"

definition parseConnection :: HeaderParserFunc where
  "parseConnection h s =
     (let s' = ASCIIToLowerInplace s
      in (None, h \<lparr>ConnectionKeepAlive := \<not> Contains s' ''close''\<rparr>, s'))"

definition parseContentLength :: HeaderParserFunc where
  "parseContentLength h s =
     (case ParseIntFromBytes s 10 of
        Inl e \<Rightarrow> (Some e, h \<lparr>ContLen := 0\<rparr>, s)
      | Inr n \<Rightarrow> (None, h \<lparr>ContLen := n\<rparr>, s))"

definition parseContentType :: HeaderParserFunc where
  "parseContentType h s = (None, h \<lparr>ContentType := s\<rparr>, s)"

definition parseContentEncoding :: HeaderParserFunc where
  "parseContentEncoding h s = (None, h \<lparr>ContentEncoding := s\<rparr>, s)"

definition parseHost :: HeaderParserFunc where
  "parseHost h s = (None, (if Host h = [] then h \<lparr>Host := s\<rparr> else h), s)"

definition parseKeepAlive :: HeaderParserFunc where
  "parseKeepAlive h s =
     (let s' = ASCIIToLowerInplace s in
      case Index s' ''timeout='' of
        None \<Rightarrow> (None, h, s')
      | Some i \<Rightarrow>
          (case ParseIntFromBytes (takeWhile IsDigit (drop (i + length ''timeout='') s')) 10 of
             Inl e \<Rightarrow> (Some e, h, s')
           | Inr delta \<Rightarrow> (None, h \<lparr>KeepAlive := go_int (1000000000 * delta)\<rparr>, s')))"

definition parseProxyAuthorization :: HeaderParserFunc where
  "parseProxyAuthorization h s = (None, h \<lparr>ProxyAuthorization := s\<rparr>, s)"

text \<open>\<open>uni\<close> is what \<open>strings.ToLower\<close> does to a string with non-ASCII characters.\<close>

definition parseUpgrade :: "(bytes \<Rightarrow> bytes) \<Rightarrow> HeaderParserFunc" where
  "parseUpgrade uni h s = (None, h \<lparr>Upgrade := strings_ToLower uni s\<rparr>, s)"

definition parseTransferEncoding :: HeaderParserFunc where
  "parseTransferEncoding h s =
     (let s' = ASCIIToLowerInplace s;
          h' = h \<lparr>Chunking := Contains s' ''chunked''\<rparr>
      in (if \<not> Chunking h' \<and> \<not> Contains s' ''identity''
          then (Some (ErrorString (''invalid transfer encoding: '' @ s')), h', s')
          else (None, h', s')))"

definition parseTrailer :: HeaderParserFunc where
  "parseTrailer h s = (None, (if length s \<noteq> 0 then h \<lparr>Trailer := True\<rparr> else h), s)"

definition parseExpect :: HeaderParserFunc where
  "parseExpect h s = (None, h \<lparr>ExpectContinue := True\<rparr>, ASCIIToLowerInplace s)"

definition headerParser :: "(bytes \<Rightarrow> bytes) \<Rightarrow> bytes \<Rightarrow> HeaderParserFunc option" where
  "headerParser uni kn = map_of
     [(''connection'', parseConnection),
      (''content-encoding'', parseContentEncoding),
      (''content-length'', parseContentLength),
      (''content-type'', parseContentType),
      (''expect'', parseExpect),
      (''host'', parseHost),
      (''keep-alive'', parseKeepAlive),
      (''proxy-authorization'', parseProxyAuthorization),
      (''proxy-connection'', parseConnection),
      (''transfer-encoding'', parseTransferEncoding),
      (''trailer'', parseTrailer),
      (''upgrade'', parseUpgrade uni)] kn"

definition hopByHopHeader :: "bytes \<Rightarrow> bool" where
  "hopByHopHeader kn \<longleftrightarrow> kn \<in> set
     [''connection'', ''keep-alive'', ''proxy-authorization'', ''proxy-connection'', ''te'',
      ''trailer'', ''transfer-encoding'', ''upgrade'']"

text \<open>\<open>splitHeader\<close>: the lower-case name and the trimmed value.\<close>

definition splitHeader :: "bytes \<Rightarrow> err + (bytes \<times> bytes)" where
  "splitHeader s =
     (case IndexByte s (CHR '':'') of
        None \<Rightarrow> Inl (ErrorString (''malformed header: '' @ s))
      | Some i \<Rightarrow> Inr (ASCIIToLower (take i s), TrimSpace (drop (i + 1) s)))"

text \<open>Where the value slice starts in the line, and the line after the slice was changed.\<close>

definition value_offset :: "bytes \<Rightarrow> nat" where
  "value_offset s =
     (case IndexByte s (CHR '':'') of
        None \<Rightarrow> length s
      | Some i \<Rightarrow> i + 1 + length (takeWhile IsSpace (drop (i + 1) s)))"

definition write_back :: "bytes \<Rightarrow> bytes \<Rightarrow> bytes" where
  "write_back line v =
     take (value_offset line) line @ v @ drop (value_offset line + length v) line"

section \<open>Reading header lines\<close>

definition line_space :: "char \<Rightarrow> bool" where
  "line_space b \<longleftrightarrow> b = CHR '' '' \<or> b = TAB"

partial_function (option) skipSpace :: "'r Reader \<Rightarrow> nat \<Rightarrow> 'r \<Rightarrow> (nat \<times> 'r) option" where
  "skipSpace R n r =
     (case ReadByte R r of
       (c, e, r1) \<Rightarrow>
         (if e \<noteq> None then Some (n, r1)
          else if c \<noteq> CHR '' '' \<and> c \<noteq> TAB then Some (n, snd (UnreadByte R r1))
          else skipSpace R (n + 1) r1))"

text \<open>The continuation lines after a first line; \<open>buf\<close> collects the unfolded line.\<close>

partial_function (option) continuation_lines ::
    "'r Reader \<Rightarrow> bytes \<Rightarrow> 'r \<Rightarrow> (bytes \<times> 'r) option" where
  "continuation_lines R buf r =
     Option.bind (skipSpace R 0 r)
       (\<lambda>(n, r1).
          if n = 0 then Some (buf, r1)
          else
            (case ReadSlice R LF r1 of
              (line, e, r2) \<Rightarrow>
                (if e \<noteq> None then Some (buf, r2)
                 else continuation_lines R (buf @ [CHR '' ''] @ TrimTrailingSpace line) r2)))"

text \<open>
  \<open>readContinuedLineSlice\<close>; an empty line is returned for the end of the headers.
\<close>

definition readContinuedLineSlice ::
    "'r Reader \<Rightarrow> 'r \<Rightarrow> (bytes \<times> err option \<times> 'r) option" where
  "readContinuedLineSlice R r =
     (case ReadSlice R LF r of
       (line, e, r1) \<Rightarrow>
         (if e \<noteq> None then Some ([], e, r1)
          else
            (let trimmed = TrimSpace line;
                 slow = (\<lambda>r2. map_option (\<lambda>(buf, r3). (buf @ CRLF, None, r3))
                                (continuation_lines R trimmed r2))
             in if trimmed = [] then
                  (if 2 < length line
                   then Some ([], Some (ErrorString (''malformed end of headers: '' @ line)), r1)
                   else Some ([], None, r1))
                else if line_space (line ! 0) then
                  Some ([], Some (ErrorString (''malformed header, start with space: '' @ line)), r1)
                else if 0 < Buffered R r1 then
                  (case Peek R 1 r1 of
                    (peek, pe, r2) \<Rightarrow>
                      (if pe = None \<and> \<not> line_space (peek ! 0) then Some (line, None, r2)
                       else slow r2))
                else slow r1)))"

text \<open>One round of the loop of \<open>parseHeader\<close>, after the line was read.\<close>

definition parseHeader_line ::
    "(bytes \<Rightarrow> bytes) \<Rightarrow> Header \<Rightarrow> bytes \<Rightarrow> bytes \<Rightarrow> err option \<times> Header \<times> bytes" where
  "parseHeader_line uni h raw line =
     (case splitHeader line of
       Inl er \<Rightarrow> (Some er, h, raw)
     | Inr (kn, val) \<Rightarrow>
         (case headerParser uni kn of
           None \<Rightarrow> (None, h, if hopByHopHeader kn then raw else raw @ line)
         | Some parseFunc \<Rightarrow>
             (if val = [] then (None, h, raw)
              else
                (case parseFunc h val of
                  (pe, h1, val1) \<Rightarrow>
                    (if pe \<noteq> None then (pe, h1, raw)
                     else (None, h1,
                           if hopByHopHeader kn then raw else raw @ write_back line val1))))))"

partial_function (option) parseHeader_loop ::
    "(bytes \<Rightarrow> bytes) \<Rightarrow> 'r Reader \<Rightarrow> Header \<Rightarrow> bytes \<Rightarrow> 'r \<Rightarrow>
     (err option \<times> Header \<times> bytes \<times> 'r) option" where
  "parseHeader_loop uni R h raw r =
     Option.bind (readContinuedLineSlice R r)
       (\<lambda>(line, e, r1).
          if e \<noteq> None \<or> line = [] then Some (e, h, raw, r1)
          else
            (case parseHeader_line uni h raw line of
              (pe, h1, raw1) \<Rightarrow>
                (if pe \<noteq> None then Some (pe, h1, raw1, r1)
                 else parseHeader_loop uni R h1 raw1 r1)))"

text \<open>\<open>parseHeader\<close> on the header \<open>h\<close> and the buffer \<open>raw\<close>. Its \<open>url\<close> argument is not used.\<close>

definition parseHeader ::
    "(bytes \<Rightarrow> bytes) \<Rightarrow> 'r Reader \<Rightarrow> Header \<Rightarrow> bytes \<Rightarrow> 'r \<Rightarrow>
     (err option \<times> Header \<times> bytes \<times> 'r) option" where
  "parseHeader uni R h raw r = parseHeader_loop uni R (h \<lparr>ContLen := -1\<rparr>) raw r"

section \<open>Requests\<close>

datatype rqState = rsCreated | rsSent | rsRecvBody | rsDone

text \<open>The states are numbered in the order of their declaration and compared as numbers.\<close>

fun rqState_num :: "rqState \<Rightarrow> nat" where
  "rqState_num rsCreated = 0"
| "rqState_num rsSent = 1"
| "rqState_num rsRecvBody = 2"
| "rqState_num rsDone = 3"

instantiation rqState :: linorder
begin

definition less_eq_rqState :: "rqState \<Rightarrow> rqState \<Rightarrow> bool" where
  "less_eq_rqState a b \<longleftrightarrow> rqState_num a \<le> rqState_num b"

definition less_rqState :: "rqState \<Rightarrow> rqState \<Rightarrow> bool" where
  "less_rqState a b \<longleftrightarrow> rqState_num a < rqState_num b"

instance
proof
  fix a b :: rqState
  show "a \<le> b \<Longrightarrow> b \<le> a \<Longrightarrow> a = b"
    by (cases a; cases b) (simp_all add: less_eq_rqState_def)
qed (auto simp: less_eq_rqState_def less_rqState_def)

end

record Request =
  Method :: bytes
  URL :: URL
  raw :: "bytes option"
  reqLnStart :: nat
  headStart :: nat
  bodyStart :: nat
  header :: Header
  isConnect :: bool
  partial :: bool
  state :: rqState
  tryCnt :: "8 word"

definition zeroRequest :: Request where
  "zeroRequest = \<lparr>Method = [], URL = empty_URL, raw = None, reqLnStart = 0, headStart = 0,
     bodyStart = 0, header = zeroHeader, isConnect = False, partial = False, state = rsCreated,
     tryCnt = 0\<rparr>"

definition Request_reset :: "Request \<Rightarrow> Request" where
  "Request_reset r = zeroRequest \<lparr>raw := Some []\<rparr>"

text \<open>\<open>raw.Write\<close>, and the contents of the buffer; the callers hold a buffer.\<close>

definition raw_write :: "bytes \<Rightarrow> Request \<Rightarrow> Request" where
  "raw_write s r = r \<lparr>raw := map_option (\<lambda>b. b @ s) (raw r)\<rparr>"

definition raw_bytes :: "Request \<Rightarrow> bytes" where
  "raw_bytes r = (case raw r of None \<Rightarrow> [] | Some b \<Rightarrow> b)"

definition hasBody :: "Request \<Rightarrow> bool" where
  "hasBody r \<longleftrightarrow> Chunking (header r) \<or> ContLen (header r) > 0"

definition isRetry :: "Request \<Rightarrow> bool" where
  "isRetry r \<longleftrightarrow> 1 < tryCnt r"

definition tryOnce :: "Request \<Rightarrow> Request" where
  "tryOnce r = r \<lparr>tryCnt := tryCnt r + 1\<rparr>"

definition tooManyRetry :: "Request \<Rightarrow> bool" where
  "tooManyRetry r \<longleftrightarrow> 3 < tryCnt r"

definition responseNotSent :: "Request \<Rightarrow> bool" where
  "responseNotSent r \<longleftrightarrow> state r \<le> rsSent"

definition hasSent :: "Request \<Rightarrow> bool" where
  "hasSent r \<longleftrightarrow> rsSent \<le> state r"

definition setState :: "rqState \<Rightarrow> Request \<Rightarrow> Request" where
  "setState s r = r \<lparr>state := s\<rparr>"

definition Request_releaseBuf :: "Request \<Rightarrow> Request" where
  "Request_releaseBuf r = r \<lparr>raw := None\<rparr>"

definition rawRequest :: "Request \<Rightarrow> bytes" where
  "rawRequest r = drop (reqLnStart r) (raw_bytes r)"

definition rawBeforeBody :: "Request \<Rightarrow> bytes" where
  "rawBeforeBody r = take (bodyStart r) (raw_bytes r)"

definition rawHeaderBody :: "Request \<Rightarrow> bytes" where
  "rawHeaderBody r = drop (headStart r) (raw_bytes r)"

definition rawBody :: "Request \<Rightarrow> bytes" where
  "rawBody r = drop (bodyStart r) (raw_bytes r)"

definition proxyRequestLine :: "Request \<Rightarrow> bytes" where
  "proxyRequestLine r = take (reqLnStart r) (raw_bytes r)"

definition genRequestLine :: "Request \<Rightarrow> Request" where
  "genRequestLine r =
     raw_write ('' HTTP/1.1'' @ CRLF)
       (raw_write (if url_Path (URL r) = [] then ''/'' else url_Path (URL r))
         (raw_write (Method r @ '' '') r))"

definition isWebSocket :: "(bytes \<Rightarrow> bool) \<Rightarrow> Request \<Rightarrow> bool" where
  "isWebSocket foldEq r =
     (let u = Upgrade (header r)
      in if list_all is_ascii u then map lower_byte u = ''websocket'' else foldEq u)"

definition fullHeaderConnectionKeepAlive :: bytes where
  "fullHeaderConnectionKeepAlive = ''Connection: keep-alive'' @ CRLF"

definition fullHeaderConnectionClose :: bytes where
  "fullHeaderConnectionClose = ''Connection: close'' @ CRLF"

definition fullHeaderTransferEncoding :: bytes where
  "fullHeaderTransferEncoding = ''Transfer-Encoding: chunked'' @ CRLF"

definition fullKeepAliveHeader :: bytes where
  "fullKeepAliveHeader = ''Keep-Alive: timeout=15'' @ CRLF"

definition upgradeHeader :: "bytes \<Rightarrow> bytes" where
  "upgradeHeader u = ''Connection: Upgrade'' @ CRLF @ ''Upgrade: '' @ u @ CRLF"

text \<open>The headers \<open>parseRequest\<close> adds after those of the client.\<close>

definition request_trailer :: "Header \<Rightarrow> bytes" where
  "request_trailer h =
     (if Chunking h then fullHeaderTransferEncoding else []) @
     (if Upgrade h \<noteq> [] then upgradeHeader (Upgrade h)
      else if ConnectionKeepAlive h then fullHeaderConnectionKeepAlive
      else fullHeaderConnectionClose) @ CRLF"

text \<open>
  \<open>saveReqLine\<close> is \<open>config.saveReqLine\<close>. Deadlines are set and unset on the connection around
  the first read, which the reader's error reflects. What a debug build records of a \<open>CONNECT\<close>
  request line for its log is left out.
\<close>

definition parseRequest ::
    "(bytes \<Rightarrow> bytes) \<Rightarrow> bool \<Rightarrow> 'r Reader \<Rightarrow> Request \<Rightarrow> 'r \<Rightarrow>
     (err option \<times> Request \<times> 'r) option" where
  "parseRequest uni saveReqLine R rq r =
     (case ReadSlice R LF r of
       (s, Some e, r1) \<Rightarrow> Some (Some (if isErrTimeout e then ErrClientTimeout else e), rq, r1)
     | (s, None, r1) \<Rightarrow>
         (let q0 = Request_reset rq;
              q1 = (if saveReqLine then (raw_write s q0) \<lparr>reqLnStart := length s\<rparr> else q0);
              f = FieldsN s 3
          in if length f \<noteq> 3 then
               Some (Some (ErrorString (''malformed request line: '' @ s)), q1, r1)
             else
               (let q2 = q1 \<lparr>Method := ASCIIToUpperInplace (f ! 0)\<rparr>
                in case ParseRequestURIBytes (f ! 1) of
                     Inl e \<Rightarrow> Some (Some e, q2, r1)
                   | Inr u \<Rightarrow>
                       (let q3 = q2 \<lparr>URL := u, header := (header q2) \<lparr>Host := url_HostPort u\<rparr>\<rparr>;
                            q4 = (if Method q3 = ''CONNECT''
                                  then q3 \<lparr>isConnect := True\<rparr>
                                  else genRequestLine q3);
                            q5 = q4 \<lparr>headStart := length (raw_bytes q4)\<rparr>
                        in case parseHeader uni R (header q5) (raw_bytes q5) r1 of
                             None \<Rightarrow> None
                           | Some (e, h, b, r2) \<Rightarrow>
                               (let q6 = q5 \<lparr>header := h, raw := Some b\<rparr>
                                in if e \<noteq> None then Some (e, q6, r2)
                                   else
                                     (let q7 = raw_write (request_trailer h) q6
                                      in Some (None, q7 \<lparr>bodyStart := length (raw_bytes q7)\<rparr>, r2)))))))"

section \<open>Responses\<close>

record Response =
  Status :: int
  Reason :: bytes
  rp_header :: Header
  rp_raw :: "bytes option"

definition zeroResponse :: Response where
  "zeroResponse = \<lparr>Status = 0, Reason = [], rp_header = zeroHeader, rp_raw = None\<rparr>"

definition Response_reset :: "Response \<Rightarrow> Response" where
  "Response_reset rp = zeroResponse \<lparr>rp_raw := Some []\<rparr>"

definition Response_releaseBuf :: "Response \<Rightarrow> Response" where
  "Response_releaseBuf rp = rp \<lparr>rp_raw := None\<rparr>"

definition rawResponse :: "Response \<Rightarrow> bytes" where
  "rawResponse rp = (case rp_raw rp of None \<Rightarrow> [] | Some b \<Rightarrow> b)"

definition rp_write :: "bytes \<Rightarrow> Response \<Rightarrow> Response" where
  "rp_write s rp = rp \<lparr>rp_raw := map_option (\<lambda>b. b @ s) (rp_raw rp)\<rparr>"

definition genStatusLine :: "Response \<Rightarrow> Response" where
  "genStatusLine rp =
     rp_write (''HTTP/1.1 '' @ Itoa (Status rp) @
       (if Reason rp \<noteq> [] then CHR '' '' # Reason rp else []) @ CRLF) rp"

definition Response_hasBody :: "Response \<Rightarrow> bytes \<Rightarrow> bool" where
  "Response_hasBody rp meth =
     (if meth = ''HEAD'' \<or> Status rp = 304 \<or> Status rp = 204 \<or> Status rp < 200 then False else True)"

text \<open>The framing and connection headers \<open>parseResponse\<close> adds, and the header it leaves.\<close>

definition response_framing :: "Response \<Rightarrow> bytes \<Rightarrow> Response" where
  "response_framing rp meth =
     (let h = rp_header rp in
      if Chunking h then rp_write fullHeaderTransferEncoding rp
      else if ContLen h = -1 then
        (let rp1 = rp \<lparr>rp_header := h \<lparr>ConnectionKeepAlive := False\<rparr>\<rparr>
         in if Response_hasBody rp1 meth then rp_write fullHeaderTransferEncoding rp1
            else rp_write (''Content-Length: 0'' @ CRLF) rp1)
      else rp)"

definition response_connection :: "Response \<Rightarrow> Request \<Rightarrow> bytes" where
  "response_connection rp rq =
     (if Upgrade (rp_header rp) \<noteq> [] then upgradeHeader (Upgrade (rp_header rp))
      else if ConnectionKeepAlive (header rq) then fullHeaderConnectionKeepAlive @ fullKeepAliveHeader
      else fullHeaderConnectionClose) @ CRLF"

text \<open>\<open>httpErrorCode\<close> is \<open>config.HttpErrorCode\<close>.\<close>

partial_function (option) parseResponse ::
    "(bytes \<Rightarrow> bytes) \<Rightarrow> int \<Rightarrow> 'r Reader \<Rightarrow> Request \<Rightarrow> Response \<Rightarrow> 'r \<Rightarrow>
     (err option \<times> Response \<times> 'r) option" where
  "parseResponse uni httpErrorCode R rq rp r =
     (case ReadSlice R LF r of
       (s, e, r1) \<Rightarrow>
         (if e \<noteq> None then Some (e, rp, r1)
          else
            (let f = FieldsN s 3 in
             if length f < 2 then
               Some (Some (ErrorString (''malformed response status line: '' @ s)), rp, r1)
             else
               (let status = (case ParseIntFromBytes (f ! 1) 10 of Inl _ \<Rightarrow> 0 | Inr n \<Rightarrow> n);
                    p0 = (Response_reset rp) \<lparr>Status := status\<rparr>;
                    p1 = (if length f = 3 then p0 \<lparr>Reason := f ! 2\<rparr> else p0);
                    proto = f ! 0
                in if isl (ParseIntFromBytes (f ! 1) 10) then
                     Some (Some (ErrorString (''response status not valid: '' @ f ! 1)), p0, r1)
                   else if length proto \<noteq> length ''HTTP/1.1'' \<or> take 7 proto \<noteq> ''HTTP/1.'' then
                     Some (Some (ErrorString (''invalid response status line: '' @ proto)), p1, r1)
                   else if proto ! 7 \<noteq> CHR ''1'' \<and> proto ! 7 \<noteq> CHR ''0'' then
                     Some (Some (ErrorString (''response protocol not supported: '' @ proto)), p1, r1)
                   else
                     (let p2 = (if proto ! 7 = CHR ''1'' then rp_write s p1 else genStatusLine p1)
                      in Option.bind (parseHeader uni R (rp_header p2) (rawResponse p2) r1)
                           (\<lambda>(he, h, b, r2).
                              let p3 = p2 \<lparr>rp_header := h, rp_raw := Some b\<rparr>
                              in if he \<noteq> None then Some (he, p3, r2)
                                 else if 0 < httpErrorCode \<and> Status p3 = httpErrorCode then
                                   Some (Some CustomHttpErr, p3, r2)
                                 else if Status p3 = 100 \<and> \<not> ExpectContinue (header rq) then
                                   parseResponse uni httpErrorCode R rq p3 r2
                                 else
                                   (let p4 = response_framing p3 (Method rq)
                                    in Some (None, rp_write (response_connection p4 rq) p4, r2))))))))"

section \<open>Key-value lists\<close>

definition trim_quotes :: "bytes \<Rightarrow> bytes" where
  "trim_quotes s =
     rev (dropWhile (\<lambda>c. c = CHR 0x22) (rev (dropWhile (\<lambda>c. c = CHR 0x22) s)))"

definition unquote :: "bytes \<Rightarrow> bytes" where
  "unquote s = trim_quotes s"

fun kv_fill :: "bytes list \<Rightarrow> (bytes \<rightharpoonup> bytes) \<Rightarrow> (bytes \<rightharpoonup> bytes) option" where
  "kv_fill [] res = Some res"
| "kv_fill (ele # list) res =
     (let kv = SplitN (strings_TrimSpace ele) ''='' 2
      in if length kv \<noteq> 2 then None
         else kv_fill list (res(kv ! 0 \<mapsto> unquote (kv ! 1))))"

text \<open>\<open>parseKeyValueList\<close>; \<open>None\<close> is the nil map.\<close>

definition parseKeyValueList :: "bytes \<Rightarrow> (bytes \<rightharpoonup> bytes) option" where
  "parseKeyValueList s =
     (let list = Split s '',''
      in if length list = 1 \<and> list ! 0 = [] then None else kv_fill list (\<lambda>_. None))"

end
