(* ===== verification/Http_Parse.thy ===== *)
theory Http_Parse
  imports Http
begin

text \<open>
  What the header, request and response parsers of \<open>Http\<close> do: nothing a client or server says
  about its own connection is forwarded, the slices of the raw request are in range, a
  well-formed message is rewritten as stated, and a response is always given a framing.
\<close>

section \<open>Forwarded header lines\<close>

text \<open>A line that may be forwarded: it has a name, and the name is not that of a hop-by-hop header.\<close>

definition forwardable :: "bytes \<Rightarrow> bool" where
  "forwardable l = (case splitHeader l of Inl _ \<Rightarrow> False | Inr (kn, v) \<Rightarrow> \<not> hopByHopHeader kn)"

lemma IndexByte_take:
  assumes "IndexByte s c = Some i" "i < k"
  shows "IndexByte (take k s @ t) c = Some i"
proof -
  have "take i (take k s @ t) = take i s" using assms by (auto simp: IndexByte_Some min_def)
  then show ?thesis using assms by (auto simp: IndexByte_Some nth_append)
qed

lemma forwardable_write_back:
  assumes "splitHeader line = Inr (kn, v)" "\<not> hopByHopHeader kn"
  shows "forwardable (write_back line v')"
proof -
  obtain i where i: "IndexByte line (CHR '':'') = Some i" "kn = ASCIIToLower (take i line)"
    using assms(1) by (auto simp: splitHeader_def split: option.splits)
  have k: "i < value_offset line" using i(1) by (simp add: value_offset_def)
  let ?l = "write_back line v'"
  have "IndexByte ?l (CHR '':'') = Some i" unfolding write_back_def using i(1) k by (rule IndexByte_take)
  moreover have "take i ?l = take i line"
    using k i(1) by (auto simp: write_back_def IndexByte_Some min_def)
  ultimately show ?thesis using i(2) assms(2) by (simp add: forwardable_def splitHeader_def)
qed

text \<open>What \<open>parseHeader\<close> adds to the buffer are forwardable lines, on every reader.\<close>

lemma parseHeader_line_forwards:
  assumes "parseHeader_line uni h buf line = (e, h', buf')"
  shows "\<exists>ls. buf' = buf @ concat ls \<and> list_all forwardable ls"
proof -
  consider "buf' = buf" | l where "buf' = buf @ l" "forwardable l"
    using assms forwardable_write_back [of line]
    by (auto simp: parseHeader_line_def forwardable_def
        split: sum.splits option.splits if_splits prod.splits)
  then show ?thesis
  proof cases
    case 1
    then show ?thesis by (intro exI [of _ "[]"]) simp
  next
    case (2 l)
    then show ?thesis by (intro exI [of _ "[l]"]) simp
  qed
qed

lemma parseHeader_loop_forwards:
  assumes "parseHeader_loop uni R h buf r = Some (e, h', buf', r')"
  shows "\<exists>ls. buf' = buf @ concat ls \<and> list_all forwardable ls"
proof -
  have "\<exists>ls. fst (snd (snd y)) = buf @ concat ls \<and> list_all forwardable ls"
    if call: "parseHeader_loop uni R h buf r = Some y" for y
  proof (rule parseHeader_loop.raw_induct [OF _ call, where
        P = "\<lambda>uni R h buf r y. \<exists>ls. fst (snd (snd y)) = buf @ concat ls \<and> list_all forwardable ls"],
      goal_cases)
    case (1 f uni R h buf r y)
    obtain line e r1 where rd: "readContinuedLineSlice R r = Some (line, e, r1)"
      using 1(2) by (auto simp: bind_eq_Some_conv)
    obtain pe h1 buf1 where pl: "parseHeader_line uni h buf line = (pe, h1, buf1)" by (metis prod_cases3)
    obtain ls where ls: "buf1 = buf @ concat ls" "list_all forwardable ls"
      using parseHeader_line_forwards [OF pl] by blast
    have "fst (snd (snd y)) = buf \<or> fst (snd (snd y)) = buf1 \<or> f uni R h1 buf1 r1 = Some y"
      using 1(2) rd pl by (auto split: if_splits)
    then show ?case
    proof (elim disjE)
      assume "fst (snd (snd y)) = buf"
      then show ?thesis by (intro exI [of _ "[]"]) simp
    next
      assume "fst (snd (snd y)) = buf1"
      then show ?thesis using ls by blast
    next
      assume "f uni R h1 buf1 r1 = Some y"
      then obtain ks where "fst (snd (snd y)) = buf1 @ concat ks" "list_all forwardable ks"
        using 1(1) by blast
      then show ?thesis using ls by (intro exI [of _ "ls @ ks"]) simp
    qed
  qed
  from this [OF assms] show ?thesis by simp
qed

lemma parseHeader_forwards:
  assumes "parseHeader uni R h buf r = Some (e, h', buf', r')"
  obtains ls where "buf' = buf @ concat ls" "list_all forwardable ls"
  using parseHeader_loop_forwards [OF assms [unfolded parseHeader_def]] by blast

section \<open>Well-formed headers\<close>

text \<open>
  The text of a header line, without its line end: no space around it, and short enough for the
  buffer. \<open>header_fold\<close> processes a list of lines.
\<close>

definition header_text :: "nat \<Rightarrow> bytes \<Rightarrow> bool" where
  "header_text B t \<longleftrightarrow>
     t \<noteq> [] \<and> LF \<notin> set t \<and> \<not> IsSpace (hd t) \<and> \<not> IsSpace (last t) \<and> length t + 2 \<le> B"

fun header_fold :: "(bytes \<Rightarrow> bytes) \<Rightarrow> bytes list \<Rightarrow> Header \<Rightarrow> bytes \<Rightarrow> err option \<times> Header \<times> bytes" where
  "header_fold uni [] h buf = (None, h, buf)"
| "header_fold uni (t # ts) h buf =
     (case parseHeader_line uni h buf (t @ CRLF) of
        (pe, h1, buf1) \<Rightarrow> (if pe \<noteq> None then (pe, h1, buf1) else header_fold uni ts h1 buf1))"

definition header_lines :: "bytes list \<Rightarrow> bytes" where
  "header_lines ts = concat (map (\<lambda>t. t @ CRLF) ts)"

lemma TrimSpace_line:
  assumes "t \<noteq> []" "\<not> IsSpace (hd t)" "\<not> IsSpace (last t)"
  shows "TrimSpace (t @ CRLF) = t"
proof -
  have "dropWhile IsSpace (t @ CRLF) = t @ CRLF" using assms(1,2) by (cases t) auto
  moreover have "dropWhile IsSpace (rev t) = rev t"
    using assms(1,3) by (simp add: dropWhile_eq_self_iff hd_rev)
  ultimately show ?thesis by (simp add: TrimSpace_rev CRLF_def IsSpace_def)
qed

lemma line_space_IsSpace: "line_space c \<Longrightarrow> IsSpace c"
  by (auto simp: line_space_def IsSpace_def TAB_def)

context bufio_reader
begin

lemma skipSpace_none:
  assumes "str r = c # cs" "\<not> line_space c"
  obtains r' where "skipSpace R n r = Some (n, r')" "str r' = str r" "fin r' = fin r"
proof -
  obtain c' e r1 where rb: "ReadByte R r = (c', e, r1)" by (metis prod_cases3)
  have e: "e = None" using ReadByte_error [of r c' _ r1] rb assms(1) by (cases e) auto
  have c': "c' = c" using ReadByte_ok [of r c' r1] rb e assms(1) by simp
  obtain ue r2 where ub: "UnreadByte R r1 = (ue, r2)" by fastforce
  have "str r2 = str r" "fin r2 = fin r" using UnreadByte_ok [of r c' r1 ue r2] rb e ub by auto
  moreover have "skipSpace R n r = Some (n, r2)"
    using rb e c' ub assms(2) by (subst skipSpace.simps) (simp add: line_space_def)
  ultimately show thesis using that by blast
qed

lemma readContinuedLineSlice_plain:
  assumes "header_text B t" "str r = t @ CRLF @ c # rest" "\<not> line_space c"
  obtains r' where "readContinuedLineSlice R r = Some (t @ CRLF, None, r')"
    "str r' = c # rest" "fin r' = fin r"
proof -
  have t: "t \<noteq> []" "LF \<notin> set t" "\<not> IsSpace (hd t)" "\<not> IsSpace (last t)" "length t + 2 \<le> B"
    using assms(1) by (auto simp: header_text_def)
  have "str r = (t @ [CR]) @ LF # c # rest" "LF \<notin> set (t @ [CR])" "length (t @ [CR]) < B"
    using assms(2) t by (auto simp: CRLF_def CR_def LF_def)
  then obtain r1 where r1: "ReadSlice R LF r = (t @ CRLF, None, r1)" "str r1 = c # rest" "fin r1 = fin r"
    using ReadSlice_full_line [of r "t @ [CR]" LF "c # rest"]
    by (metis CRLF_def CR_def LF_def append.assoc append_Cons append_Nil)
  have tr: "TrimSpace (t @ CRLF) = t" using t by (intro TrimSpace_line) auto
  have h0: "\<not> line_space ((t @ CRLF) ! 0)" using t line_space_IsSpace by (cases t) auto
  have slow: "\<exists>r3. map_option (\<lambda>(buf, r3). (buf @ CRLF, None, r3)) (continuation_lines R t r2) =
      Some (t @ CRLF, None, r3) \<and> str r3 = c # rest \<and> fin r3 = fin r"
    if r2: "str r2 = c # rest" "fin r2 = fin r" for r2
  proof -
    obtain r3 where "skipSpace R 0 r2 = Some (0, r3)" "str r3 = str r2" "fin r3 = fin r2"
      using skipSpace_none [OF r2(1) assms(3)] by blast
    then show ?thesis using r2 by (subst continuation_lines.simps) simp
  qed
  obtain p pe r2 where pk: "Peek R 1 r1 = (p, pe, r2)" by (metis prod_cases3)
  have "pe = None" "p = [c]" "str r2 = c # rest" "fin r2 = fin r" if "0 < Buffered R r1"
    using Peek_ok [of 1 r1 p pe r2] that pk r1 by auto
  with slow [of r1] r1 tr h0 t(1) pk assms(3) that show thesis
    unfolding readContinuedLineSlice_def by (cases "0 < Buffered R r1") auto
qed

lemma readContinuedLineSlice_end:
  assumes "str r = CRLF @ rest" "2 \<le> B"
  obtains r' where "readContinuedLineSlice R r = Some ([], None, r')" "str r' = rest" "fin r' = fin r"
proof -
  have "str r = [CR] @ LF # rest" "LF \<notin> set [CR]" "length [CR] < B"
    using assms by (auto simp: CRLF_def CR_def LF_def)
  then obtain r1 where r1: "ReadSlice R LF r = ([CR] @ [LF], None, r1)" "str r1 = rest" "fin r1 = fin r"
    using ReadSlice_full_line by metis
  have "TrimSpace ([CR] @ [LF]) = []" by (simp add: TrimSpace_Nil_iff IsSpace_def CR_def LF_def)
  with r1 that [of r1] show thesis by (simp add: readContinuedLineSlice_def)
qed

lemma parseHeader_loop_lines:
  assumes "2 \<le> B" "list_all (header_text B) ts" "str r = header_lines ts @ CRLF @ rest"
    "header_fold uni ts h buf = (e, h', buf')"
  shows "\<exists>r'. parseHeader_loop uni R h buf r = Some (e, h', buf', r') \<and>
    (e = None \<longrightarrow> str r' = rest \<and> fin r' = fin r)"
  using assms(2-4)
proof (induction ts arbitrary: h buf r)
  case Nil
  then obtain r1 where "readContinuedLineSlice R r = Some ([], None, r1)" "str r1 = rest" "fin r1 = fin r"
    using readContinuedLineSlice_end [of r rest] assms(1) by (auto simp: header_lines_def)
  with Nil show ?case by (subst parseHeader_loop.simps) simp
next
  case (Cons t ts)
  have ht: "header_text B t" "list_all (header_text B) ts" using Cons.prems(1) by auto
  obtain c cs where c: "header_lines ts @ CRLF @ rest = c # cs" "\<not> line_space c"
  proof (cases ts)
    case Nil
    with that [of CR "LF # rest"] show thesis
      by (simp add: header_lines_def CRLF_def CR_def LF_def line_space_def TAB_def)
  next
    case (Cons t' ts')
    then have "t' \<noteq> []" "\<not> IsSpace (hd t')" using ht(2) by (auto simp: header_text_def)
    with Cons that [of "hd t'" "tl t' @ CRLF @ header_lines ts' @ CRLF @ rest"] line_space_IsSpace
    show thesis by (auto simp: header_lines_def)
  qed
  have "str r = t @ CRLF @ c # cs" using Cons.prems(2) c(1) by (simp add: header_lines_def)
  then obtain r1 where r1: "readContinuedLineSlice R r = Some (t @ CRLF, None, r1)"
      "str r1 = header_lines ts @ CRLF @ rest" "fin r1 = fin r"
    using readContinuedLineSlice_plain [OF ht(1) _ c(2)] c(1) by metis
  obtain pe h1 buf1 where pl: "parseHeader_line uni h buf (t @ CRLF) = (pe, h1, buf1)" by (metis prod_cases3)
  note unf = parseHeader_loop.simps [of uni R h buf r]
  have ne: "t \<noteq> []" using ht(1) by (simp add: header_text_def)
  show ?case
  proof (cases pe)
    case None
    then have "header_fold uni ts h1 buf1 = (e, h', buf')" using Cons.prems(3) pl by simp
    from Cons.IH [OF ht(2) r1(2) this] show ?thesis using unf r1 pl None ne by simp
  next
    case (Some x)
    then show ?thesis using unf r1 pl ne Cons.prems(3) by auto
  qed
qed

lemma parseHeader_lines:
  assumes "2 \<le> B" "list_all (header_text B) ts" "str r = header_lines ts @ CRLF @ rest"
    "header_fold uni ts (h \<lparr>ContLen := -1\<rparr>) buf = (e, h', buf')"
  shows "\<exists>r'. parseHeader uni R h buf r = Some (e, h', buf', r') \<and>
    (e = None \<longrightarrow> str r' = rest \<and> fin r' = fin r)"
  unfolding parseHeader_def by (rule parseHeader_loop_lines [OF assms])

end

section \<open>Requests\<close>

lemma raw_write_simps [simp]:
  "raw (raw_write s r) = map_option (\<lambda>b. b @ s) (raw r)"
  "URL (raw_write s r) = URL r" "Method (raw_write s r) = Method r"
  "header (raw_write s r) = header r" "reqLnStart (raw_write s r) = reqLnStart r"
  "headStart (raw_write s r) = headStart r" "bodyStart (raw_write s r) = bodyStart r"
  "isConnect (raw_write s r) = isConnect r" "tryCnt (raw_write s r) = tryCnt r"
  by (simp_all add: raw_write_def)

text \<open>The request line \<open>parseRequest\<close> writes for the server.\<close>

definition server_request_line :: "bytes \<Rightarrow> URL \<Rightarrow> bytes" where
  "server_request_line meth u =
     (if meth = ''CONNECT'' then []
      else meth @ '' '' @ (if url_Path u = [] then ''/'' else url_Path u) @ '' HTTP/1.1'' @ CRLF)"

text \<open>\<open>parseRequest\<close> after the request line was read, in one equation.\<close>

lemma parseRequest_line:
  fixes save :: bool
  assumes "ReadSlice R LF r = (s, None, r1)" "FieldsN s 3 = [m, u, v]"
    "ParseRequestURIBytes u = Inr url"
  defines "meth \<equiv> ASCIIToUpperInplace m"
  defines "line \<equiv> (if save then s else [])"
  shows "parseRequest uni save R rq r =
    (case parseHeader uni R (zeroHeader \<lparr>Host := url_HostPort url\<rparr>) (line @ server_request_line meth url) r1 of
       None \<Rightarrow> None
     | Some (e, h, b, r2) \<Rightarrow>
         (let q = zeroRequest \<lparr>Method := meth, URL := url, raw := Some b, reqLnStart := length line,
                headStart := length (line @ server_request_line meth url), header := h,
                isConnect := (meth = ''CONNECT'')\<rparr>
          in if e \<noteq> None then Some (e, q, r2)
             else Some (None, q \<lparr>raw := Some (b @ request_trailer h),
                                bodyStart := length (b @ request_trailer h)\<rparr>, r2)))"
proof -
  note defs = Let_def Request_reset_def raw_write_def zeroRequest_def genRequestLine_def raw_bytes_def
    server_request_line_def meth_def line_def
  consider (none) "parseHeader uni R (zeroHeader \<lparr>Host := url_HostPort url\<rparr>)
      (line @ server_request_line meth url) r1 = None"
    | (some) e h b r2 where "parseHeader uni R (zeroHeader \<lparr>Host := url_HostPort url\<rparr>)
      (line @ server_request_line meth url) r1 = Some (e, h, b, r2)"
    by (metis option.exhaust prod_cases4)
  then show ?thesis
  proof cases
    case none
    then show ?thesis unfolding parseRequest_def using assms(1-3)
      by (cases save; cases "meth = ''CONNECT''"; cases "url_Path url = []") (simp_all add: defs)
  next
    case some
    then show ?thesis unfolding parseRequest_def using assms(1-3)
      by (cases save; cases "meth = ''CONNECT''"; cases "url_Path url = []") (simp_all add: defs)
  qed
qed

text \<open>A request parsed without an error went through that equation.\<close>

lemma parseRequest_ok:
  assumes "parseRequest uni save R rq r = Some (None, q, r')"
  obtains s r1 m u v url h b where "ReadSlice R LF r = (s, None, r1)" "FieldsN s 3 = [m, u, v]"
    "ParseRequestURIBytes u = Inr url"
    "parseHeader uni R (zeroHeader \<lparr>Host := url_HostPort url\<rparr>)
       ((if save then s else []) @ server_request_line (ASCIIToUpperInplace m) url) r1 = Some (None, h, b, r')"
proof -
  obtain s e r1 where rs: "ReadSlice R LF r = (s, e, r1)" by (metis prod_cases3)
  have e: "e = None" using assms rs by (auto simp: parseRequest_def split: option.splits)
  have "length (FieldsN s 3) = 3"
    using assms rs e by (auto simp: parseRequest_def Let_def split: if_splits)
  then obtain m u v where f: "FieldsN s 3 = [m, u, v]"
    by (auto simp: numeral_3_eq_3 length_Suc_conv)
  obtain url where url: "ParseRequestURIBytes u = Inr url"
    using assms rs e f by (auto simp: parseRequest_def Let_def split: sum.splits)
  have "ReadSlice R LF r = (s, None, r1)" using rs e by simp
  from parseRequest_line [OF this f url, of uni save rq] assms that [OF this f url]
  show thesis by (auto simp: Let_def split: option.splits prod.splits if_splits)
qed

lemma parseRequest_parses:
  assumes "bufio_reader R B str fin" "2 \<le> B"
    "str r = l @ LF # header_lines ts @ CRLF @ rest" "LF \<notin> set l" "length l < B"
    "FieldsN (l @ [LF]) 3 = [m, u, v]" "ParseRequestURIBytes u = Inr url"
    "list_all (header_text B) ts"
    "header_fold uni ts (zeroHeader \<lparr>Host := url_HostPort url, ContLen := -1\<rparr>)
       ((if save then l @ [LF] else []) @ server_request_line (ASCIIToUpperInplace m) url) = (None, h, b)"
  shows "\<exists>q r'. parseRequest uni save R rq r = Some (None, q, r') \<and> str r' = rest \<and>
    Method q = ASCIIToUpperInplace m \<and> URL q = url \<and> header q = h \<and>
    raw q = Some (b @ request_trailer h) \<and> isConnect q = (Method q = ''CONNECT'') \<and>
    reqLnStart q = (if save then length l + 1 else 0)"
proof -
  obtain r1 where r1: "ReadSlice R LF r = (l @ [LF], None, r1)" "str r1 = header_lines ts @ CRLF @ rest"
    using bufio_reader.ReadSlice_full_line [OF assms(1,3-5)] by metis
  have hf: "header_fold uni ts ((zeroHeader \<lparr>Host := url_HostPort url\<rparr>) \<lparr>ContLen := -1\<rparr>)
      ((if save then l @ [LF] else []) @ server_request_line (ASCIIToUpperInplace m) url) = (None, h, b)"
    using assms(9) by simp
  obtain r2 where r2: "parseHeader uni R (zeroHeader \<lparr>Host := url_HostPort url\<rparr>)
      ((if save then l @ [LF] else []) @ server_request_line (ASCIIToUpperInplace m) url) r1 =
        Some (None, h, b, r2)" "str r2 = rest"
    using bufio_reader.parseHeader_lines [OF assms(1,2,8) r1(2) hf] by blast
  show ?thesis using parseRequest_line [OF r1(1) assms(6,7), of uni save rq] r2
    by (simp add: Let_def zeroRequest_def)
qed

text \<open>A request as a browser sends it to a proxy.\<close>

definition ex_request_line :: bytes where
  "ex_request_line = ''get http://a.com/x HTTP/1.1'' @ [CR]"

definition ex_headers :: "bytes list" where
  "ex_headers = [''Host: a.com'', ''Proxy-Connection: Close'', ''Accept: text'']"

definition ex_request :: bytes where
  "ex_request = ex_request_line @ LF # header_lines ex_headers @ CRLF @ ''body''"

definition ex_request_url :: URL where
  "ex_request_url = \<lparr>url_HostPort = ''a.com:80'', url_Host = ''a.com'', url_Port = ''80'',
     url_Domain = ''a.com'', url_Path = ''/x''\<rparr>"

definition ex_parsed_header :: Header where
  "ex_parsed_header = zeroHeader \<lparr>Host := ''a.com:80'', ContLen := -1, ConnectionKeepAlive := False\<rparr>"

definition ex_forwarded :: bytes where
  "ex_forwarded = ''GET /x HTTP/1.1'' @ CRLF @ ''Host: a.com'' @ CRLF @ ''Accept: text'' @ CRLF"

lemma ex_request_facts:
  "LF \<notin> set ex_request_line" "length ex_request_line < httpBufSize"
  "FieldsN (ex_request_line @ [LF]) 3 = [''get'', ''http://a.com/x'', ''HTTP/1.1'']"
  "ParseRequestURIBytes ''http://a.com/x'' = Inr ex_request_url"
  "list_all (header_text httpBufSize) ex_headers"
  "header_fold (\<lambda>s. s) ex_headers (zeroHeader \<lparr>Host := url_HostPort ex_request_url, ContLen := -1\<rparr>)
     (server_request_line (ASCIIToUpperInplace ''get'') ex_request_url) =
     (None, ex_parsed_header, ex_forwarded)"
  by code_simp+



text \<open>A well-formed request, a request line of three fields with a valid URI and header lines
  that every parser accepts, is parsed: the call returns without an error, it consumes exactly the
  request line and the headers, and the header and the buffer are what processing the lines one by
  one gives.\<close>

theorem parseRequest_wellformed:
  assumes "bufio_reader R B str fin" "2 \<le> B"
    "str r = l @ LF # header_lines ts @ CRLF @ rest" "LF \<notin> set l" "length l < B"
    "FieldsN (l @ [LF]) 3 = [m, u, v]" "ParseRequestURIBytes u = Inr url"
    "list_all (header_text B) ts"
    "header_fold uni ts (zeroHeader \<lparr>Host := url_HostPort url, ContLen := -1\<rparr>)
       (server_request_line (ASCIIToUpperInplace m) url) = (None, h, b)"
  shows "\<exists>q r'. parseRequest uni False R rq r = Some (None, q, r') \<and> str r' = rest \<and>
    Method q = ASCIIToUpperInplace m \<and> URL q = url \<and> header q = h \<and>
    rawRequest q = b @ request_trailer h \<and> isConnect q = (Method q = ''CONNECT'')"
  using parseRequest_parses [OF assms(1-8), of uni False h b rq] assms(9)
  by (auto simp: rawRequest_def raw_bytes_def)

theorem parseRequest_wellformed_witness:
  "\<exists>q r'. parseRequest (\<lambda>s. s) False (mem_reader httpBufSize) zeroRequest
       (mem_open [take 20 ex_request, drop 20 ex_request] EOF) = Some (None, q, r') \<and>
     mem_str r' = ''body'' \<and> Method q = ''GET'' \<and> header q = ex_parsed_header \<and>
     rawRequest q = ex_forwarded @ request_trailer ex_parsed_header"
proof -
  have "mem_str (mem_open [take 20 ex_request, drop 20 ex_request] EOF) =
      ex_request_line @ LF # header_lines ex_headers @ CRLF @ ''body''"
    by (simp add: mem_open_def mem_str_def flip: ex_request_def)
  moreover have "ASCIIToUpperInplace ''get'' = ''GET''" by code_simp
  ultimately show ?thesis
    using parseRequest_wellformed [OF mem.bufio_reader_axioms _ _ ex_request_facts, of _ "''body''"]
    by (fastforce simp: httpBufSize_def)
qed

section \<open>Responses\<close>

text \<open>The framing header \<open>parseResponse\<close> gives a response that has none.\<close>

definition framing_header :: "Header \<Rightarrow> int \<Rightarrow> bytes \<Rightarrow> bytes" where
  "framing_header h status meth =
     (if Chunking h then fullHeaderTransferEncoding
      else if ContLen h \<noteq> -1 then []
      else if meth = ''HEAD'' \<or> status = 304 \<or> status = 204 \<or> status < 200
           then ''Content-Length: 0'' @ CRLF
      else fullHeaderTransferEncoding)"

lemma response_framing_raw:
  assumes "rp_raw p = Some b"
  shows "rp_raw (response_framing p meth) = Some (b @ framing_header (rp_header p) (Status p) meth)"
    and "Status (response_framing p meth) = Status p"
    and "rp_header (response_framing p meth) =
      (if \<not> Chunking (rp_header p) \<and> ContLen (rp_header p) = -1
       then (rp_header p) \<lparr>ConnectionKeepAlive := False\<rparr> else rp_header p)"
  using assms
  by (auto simp: response_framing_def framing_header_def rp_write_def Response_hasBody_def Let_def)

definition response_shape :: "Request \<Rightarrow> Response \<Rightarrow> bool" where
  "response_shape rq rp \<longleftrightarrow>
     (\<exists>st ls. rp_raw rp = Some (st @ concat ls @
         framing_header (rp_header rp) (Status rp) (Method rq) @ response_connection rp rq) \<and>
       list_all forwardable ls) \<and>
     (Status rp = 100 \<longrightarrow> ExpectContinue (header rq)) \<and>
     (ConnectionKeepAlive (rp_header rp) \<longrightarrow> Chunking (rp_header rp) \<or> ContLen (rp_header rp) \<noteq> -1)"

lemma response_shape_framed:
  assumes "rp_raw p = Some (st @ concat ls)" "list_all forwardable ls"
    "Status p = 100 \<longrightarrow> ExpectContinue (header rq)"
  defines "p4 \<equiv> response_framing p (Method rq)"
  shows "response_shape rq (rp_write (response_connection p4 rq) p4)"
proof -
  note f = response_framing_raw [OF assms(1), of "Method rq", folded p4_def]
  have "framing_header (rp_header p4) (Status p4) (Method rq) =
      framing_header (rp_header p) (Status p) (Method rq)"
    using f(2,3) by (auto simp: framing_header_def)
  then have "rp_raw (rp_write (response_connection p4 rq) p4) =
      Some (st @ concat ls @ framing_header (rp_header p4) (Status p4) (Method rq) @
        response_connection p4 rq)"
    using f(1) by (simp add: rp_write_def)
  moreover have "response_connection (rp_write (response_connection p4 rq) p4) rq = response_connection p4 rq"
    by (simp add: response_connection_def rp_write_def)
  ultimately show ?thesis using assms(2,3) f(2,3)
    by (auto simp: response_shape_def rp_write_def)
qed

lemma parseResponse_parses:
  assumes "bufio_reader R B str fin" "2 \<le> B"
    "str r = l @ LF # header_lines ts @ CRLF @ rest" "LF \<notin> set l" "length l < B"
    "FieldsN (l @ [LF]) 3 = [''HTTP/1.1'', st, reason]" "ParseIntFromBytes st 10 = Inr n" "n \<noteq> 100"
    "list_all (header_text B) ts"
    "header_fold uni ts (zeroHeader \<lparr>ContLen := -1\<rparr>) (l @ [LF]) = (None, h, b)"
  shows "\<exists>rp' r'. parseResponse uni 0 R rq rp r = Some (None, rp', r') \<and> str r' = rest \<and> Status rp' = n \<and>
    (ContLen h \<noteq> -1 \<longrightarrow> rp_header rp' = h)"
proof -
  obtain r1 where r1: "ReadSlice R LF r = (l @ [LF], None, r1)" "str r1 = header_lines ts @ CRLF @ rest"
    using bufio_reader.ReadSlice_full_line [OF assms(1,3-5)] by metis
  obtain r2 where r2: "parseHeader uni R zeroHeader (l @ [LF]) r1 = Some (None, h, b, r2)" "str r2 = rest"
    using bufio_reader.parseHeader_lines [OF assms(1,2,9) r1(2) assms(10)] by blast
  define p2 where "p2 = rp_write (l @ [LF]) (Response_reset rp \<lparr>Status := n, Reason := reason\<rparr>)"
  have p2: "rp_header p2 = zeroHeader" "rawResponse p2 = l @ [LF]" "Status p2 = n"
    by (simp_all add: p2_def rp_write_def Response_reset_def zeroResponse_def rawResponse_def)
  define p3 where "p3 = p2 \<lparr>rp_header := h, rp_raw := Some b\<rparr>"
  define p4 where "p4 = response_framing p3 (Method rq)"
  have "parseResponse uni 0 R rq rp r = Some (None, rp_write (response_connection p4 rq) p4, r2)"
    using r1 assms(6-8) r2 p2
    by (subst parseResponse.simps) (simp add: Let_def p4_def p3_def flip: p2_def)
  moreover have "Status (rp_write (response_connection p4 rq) p4) = n"
    using response_framing_raw(2) [of p3 b "Method rq"] p2 by (simp add: rp_write_def p4_def p3_def)
  moreover have "ContLen h \<noteq> -1 \<longrightarrow> rp_header (rp_write (response_connection p4 rq) p4) = h"
    using response_framing_raw(3) [of p3 b "Method rq"] by (simp add: rp_write_def p4_def p3_def)
  ultimately show ?thesis using r2(2) by blast
qed


definition ex_status_line :: bytes where
  "ex_status_line = ''HTTP/1.1 200 OK'' @ [CR]"

definition ex_resp_headers :: "bytes list" where
  "ex_resp_headers = [''Connection: close'', ''Server: x'']"

definition ex_response :: bytes where
  "ex_response = ex_status_line @ LF # header_lines ex_resp_headers @ CRLF @ ''body''"

definition ex_resp_header :: Header where
  "ex_resp_header = zeroHeader \<lparr>ContLen := -1, ConnectionKeepAlive := False\<rparr>"

definition ex_resp_raw :: bytes where
  "ex_resp_raw = ''HTTP/1.1 200 OK'' @ CRLF @ ''Server: x'' @ CRLF"

lemma ex_response_facts:
  "LF \<notin> set ex_status_line" "length ex_status_line < httpBufSize"
  "FieldsN (ex_status_line @ [LF]) 3 = [''HTTP/1.1'', ''200'', ''OK'']"
  "ParseIntFromBytes ''200'' 10 = Inr 200"
  "list_all (header_text httpBufSize) ex_resp_headers"
  "header_fold (\<lambda>s. s) ex_resp_headers (zeroHeader \<lparr>ContLen := -1\<rparr>) (ex_status_line @ [LF]) =
     (None, ex_resp_header, ex_resp_raw)"
  by code_simp+


end
