(* ===== verification/Timeouts.thy ===== *)
theory Timeouts
  imports Site_Stat
begin

text \<open>
  estimate_timeout.go and timeoutset.go: the adaptive dial and read timeouts, from which the
  proxy guesses that the network is bad, and sets of keys that expire.
\<close>

section \<open>Estimated timeouts\<close>

definition minDialTimeout :: duration where "minDialTimeout = 3 * second"
definition minReadTimeout :: duration where "minReadTimeout = 4 * second"
definition defaultDialTimeout :: duration where "defaultDialTimeout = 5 * second"
definition defaultReadTimeout :: duration where "defaultReadTimeout = 5 * second"
definition maxTimeout :: duration where "maxTimeout = 15 * second"

record timeouts =
  dialTimeout :: duration
  readTimeout :: duration

text \<open>
  One run of \<open>estimateTimeout\<close>. \<open>dial\<close> is what connecting gives: an error, or the time it took.
  \<open>fetch\<close> is what sending the request and reading until an error gives: the time it took and
  whether the last error was \<open>EOF\<close> (\<open>Inl\<close> for every other outcome).
\<close>

definition estimate :: "duration \<Rightarrow> int \<Rightarrow> duration" where
  "estimate elapsed factor = (let est = go_int (elapsed * factor)
     in if est > maxTimeout then maxTimeout else est)"

definition onErr :: "timeouts \<Rightarrow> timeouts" where
  "onErr t = t \<lparr>dialTimeout := go_int (dialTimeout t + 2 * second),
               readTimeout := go_int (readTimeout t + 2 * second)\<rparr>"

definition estimateTimeout ::
    "duration \<Rightarrow> duration \<Rightarrow> err + duration \<Rightarrow> err + duration \<Rightarrow> timeouts \<Rightarrow> timeouts" where
  "estimateTimeout cfgDial cfgRead dial fetch t =
     (case dial of
        Inl e \<Rightarrow> onErr t
      | Inr d \<Rightarrow>
          (let est = estimate d 5;
               t1 = (if est > cfgDial then t \<lparr>dialTimeout := est\<rparr>
                     else if dialTimeout t \<noteq> cfgDial then t \<lparr>dialTimeout := cfgDial\<rparr> else t)
           in case fetch of
                Inl e \<Rightarrow> onErr t1
              | Inr f \<Rightarrow>
                  (let est2 = estimate f 10
                   in if est2 > cfgRead then t1 \<lparr>readTimeout := est2\<rparr>
                      else if readTimeout t1 \<noteq> cfgRead then t1 \<lparr>readTimeout := cfgRead\<rparr>
                      else t1)))"

text \<open>The loop of \<open>runEstimateTimeout\<close> over a sequence of network observations.\<close>

definition runEstimateTimeout ::
    "duration \<Rightarrow> duration \<Rightarrow> ((err + duration) \<times> (err + duration)) list \<Rightarrow> timeouts" where
  "runEstimateTimeout cfgDial cfgRead obs =
     fold (\<lambda>(d, f). estimateTimeout cfgDial cfgRead d f) obs
       \<lparr>dialTimeout = cfgDial, readTimeout = cfgRead\<rparr>"

definition networkBad :: "duration \<Rightarrow> duration \<Rightarrow> timeouts \<Rightarrow> bool" where
  "networkBad cfgDial cfgRead t \<longleftrightarrow> readTimeout t \<noteq> cfgRead \<or> dialTimeout t \<noteq> cfgDial"

text \<open>The network is taken to be bad exactly as long as the last observation was not a
  quick one: a fetch of the estimate target whose connect takes at most a fifth and whose reply at
  most a tenth of the configured timeouts resets both timeouts whatever happened before; after a
  slow or failed fetch at least one of them differs from its configured value, and the timeouts in
  use after a completed fetch are never more than the larger of the configured value and 15
  seconds.\<close>

theorem estimateTimeout_recovers:
  fixes t :: timeouts
  assumes "0 < cfgDial" "0 < cfgRead" "0 \<le> d" "0 \<le> f" "d < 2 ^ 59" "f < 2 ^ 59"
  defines "t' \<equiv> estimateTimeout cfgDial cfgRead (Inr d) (Inr f) t"
  shows "(networkBad cfgDial cfgRead t' \<longleftrightarrow>
      min maxTimeout (5 * d) > cfgDial \<or> min maxTimeout (10 * f) > cfgRead) \<and>
    cfgDial \<le> dialTimeout t' \<and> dialTimeout t' \<le> max cfgDial maxTimeout \<and>
    cfgRead \<le> readTimeout t' \<and> readTimeout t' \<le> max cfgRead maxTimeout"
proof -
  have "go_int (d * 5) = d * 5" "go_int (f * 10) = f * 10"
    using assms by (simp_all add: go_int_id)
  then have "estimate d 5 = min maxTimeout (5 * d)" "estimate f 10 = min maxTimeout (10 * f)"
    by (simp_all add: estimate_def Let_def min_def)
  then show ?thesis
    by (auto simp: t'_def estimateTimeout_def networkBad_def Let_def)
qed

theorem estimateTimeout_recovers_witness:
  "\<not> networkBad (5 * second) (5 * second)
     (estimateTimeout (5 * second) (5 * second) (Inr (second div 10)) (Inr (second div 4))
       \<lparr>dialTimeout = 7 * second, readTimeout = 9 * second\<rparr>)"
  using estimateTimeout_recovers [of "5 * second" "5 * second" "second div 10" "second div 4"
      "\<lparr>dialTimeout = 7 * second, readTimeout = 9 * second\<rparr>"]
  by (simp add: second_def maxTimeout_def)

section \<open>Expiring sets\<close>

record TimeoutSet =
  ts_time :: "bytes \<rightharpoonup> time"
  ts_timeout :: duration

definition NewTimeoutSet :: "duration \<Rightarrow> TimeoutSet" where
  "NewTimeoutSet timeout = \<lparr>ts_time = (\<lambda>_. None), ts_timeout = timeout\<rparr>"

definition ts_add :: "time \<Rightarrow> bytes \<Rightarrow> TimeoutSet \<Rightarrow> TimeoutSet" where
  "ts_add now key ts = ts \<lparr>ts_time := (ts_time ts)(key \<mapsto> now)\<rparr>"

definition ts_del :: "bytes \<Rightarrow> TimeoutSet \<Rightarrow> TimeoutSet" where
  "ts_del key ts = ts \<lparr>ts_time := (ts_time ts)(key := None)\<rparr>"

definition ts_has :: "time \<Rightarrow> bytes \<Rightarrow> TimeoutSet \<Rightarrow> bool \<times> TimeoutSet" where
  "ts_has now key ts =
     (case ts_time ts key of
        None \<Rightarrow> (False, ts)
      | Some t \<Rightarrow>
          if time_Sub now t > ts_timeout ts then (False, ts_del key ts) else (True, ts))"

text \<open>The operations as a sequence of steps, each at its own time.\<close>

datatype ts_op = TsAdd time bytes | TsDel bytes | TsHas time bytes

fun ts_run :: "ts_op list \<Rightarrow> TimeoutSet \<Rightarrow> TimeoutSet" where
  "ts_run [] ts = ts"
| "ts_run (TsAdd now key # ops) ts = ts_run ops (ts_add now key ts)"
| "ts_run (TsDel key # ops) ts = ts_run ops (ts_del key ts)"
| "ts_run (TsHas now key # ops) ts = ts_run ops (snd (ts_has now key ts))"

text \<open>When a key was last added, if nothing deleted it since and no query found it expired.\<close>

fun last_added :: "duration \<Rightarrow> bytes \<Rightarrow> ts_op list \<Rightarrow> time option \<Rightarrow> time option" where
  "last_added to key [] acc = acc"
| "last_added to key (TsAdd now k # ops) acc = last_added to key ops (if k = key then Some now else acc)"
| "last_added to key (TsDel k # ops) acc = last_added to key ops (if k = key then None else acc)"
| "last_added to key (TsHas now k # ops) acc =
     last_added to key ops
       (if k = key then (case acc of None \<Rightarrow> None | Some t \<Rightarrow> if time_Sub now t > to then None else Some t)
        else acc)"

lemma ts_run_timeout [simp]: "ts_timeout (ts_run ops ts) = ts_timeout ts"
  by (induction ops ts rule: ts_run.induct)
    (auto simp: ts_add_def ts_del_def ts_has_def split: option.splits)

lemma ts_run_time: "ts_time (ts_run ops ts) key = last_added (ts_timeout ts) key ops (ts_time ts key)"
  by (induction ops ts rule: ts_run.induct)
    (auto simp: ts_add_def ts_del_def ts_has_def split: option.splits)

text \<open>After any sequence of operations a key is in a \<open>TimeoutSet\<close> at time \<open>now\<close> exactly if it was
  added, not deleted or found expired since, and not longer ago than the timeout.\<close>

theorem TimeoutSet_membership:
  "fst (ts_has now key (ts_run ops (NewTimeoutSet timeout))) \<longleftrightarrow>
     (case last_added timeout key ops None of
        None \<Rightarrow> False | Some t \<Rightarrow> time_Sub now t \<le> timeout)"
  using ts_run_time [of ops "NewTimeoutSet timeout" key]
  by (auto simp: ts_has_def NewTimeoutSet_def ts_run_timeout [of ops "NewTimeoutSet timeout", unfolded NewTimeoutSet_def]
      split: option.splits)

end
