(* ===== verification/Parent_Proxy.thy ===== *)
theory Parent_Proxy
  imports Timeouts "HOL-Library.Multiset"
begin

text \<open>
  parent_proxy.go, parent pools: the kinds of parent proxies, the backup, hash and latency
  pools, and the pool of HTTP parents with its health probes. What a parent's \<open>connect\<close> does on
  the network, the random numbers and \<open>networkBad()\<close> are operations of an environment \<open>'e\<close>,
  which every call may change; the handshake of a SOCKS parent is modelled in \<open>Socks\<close>.
\<close>

section \<open>Parents and connections\<close>

datatype ParentProxy =
    httpParent bytes bytes "bytes option"
  | shadowsocksParent bytes bytes bytes
  | cowParent bytes bytes bytes
  | socksParent bytes bytes bytes

text \<open>A network connection: the wrapper type the code tells apart, and which connection it is.\<close>

datatype net_conn =
    directConn nat
  | httpConn nat ParentProxy
  | shadowsocksConn nat ParentProxy
  | cowConn nat ParentProxy
  | socksConn nat ParentProxy
  | plainConn nat

fun getServer :: "ParentProxy \<Rightarrow> bytes" where
  "getServer (httpParent server up ah) = server"
| "getServer (shadowsocksParent server m p) = server"
| "getServer (cowParent server m p) = server"
| "getServer (socksParent server u p) = server"

definition isHTTPParent :: "ParentProxy \<Rightarrow> bool" where
  "isHTTPParent p = (case p of httpParent _ _ _ \<Rightarrow> True | _ \<Rightarrow> False)"

fun Parent_genConfig :: "ParentProxy \<Rightarrow> bytes" where
  "Parent_genConfig (httpParent server userPasswd ah) =
     (if userPasswd \<noteq> [] then ''proxy = http://'' @ userPasswd @ ''@'' @ server
      else ''proxy = http://'' @ server)"
| "Parent_genConfig (shadowsocksParent server meth passwd) =
     ''proxy = ss://'' @ (if meth = [] then ''table'' else meth) @ '':'' @ passwd @ ''@'' @ server"
| "Parent_genConfig (cowParent server meth passwd) =
     ''proxy = cow://'' @ (if meth = [] then ''table'' else meth) @ '':'' @ passwd @ ''@'' @ server"
| "Parent_genConfig (socksParent server username password) =
     (if username \<noteq> [] then ''proxy = socks5://'' @ username @ '':'' @ password @ ''@'' @ server
      else ''proxy = socks5://'' @ server)"

text \<open>The environment the pools run in.\<close>

record 'e penv =
  env_connect :: "ParentProxy \<Rightarrow> URL \<Rightarrow> 'e \<Rightarrow> (err + net_conn) \<times> 'e"
  env_hpool :: "URL \<Rightarrow> 'e \<Rightarrow> (err + net_conn) \<times> 'e"
  env_intn :: "int \<Rightarrow> 'e \<Rightarrow> int \<times> 'e"
  env_bad :: "'e \<Rightarrow> bool"

text \<open>What \<open>connect\<close> of a pool returns: a connection and an error, each of which may be nil.\<close>

type_synonym conn_result = "net_conn option \<times> err option"

definition no_parent :: conn_result where
  "no_parent = (None, Some (ErrorString ''no parent proxy''))"

section \<open>Backup and hash pools\<close>

record ParentWithFail =
  pw_parent :: ParentProxy
  pw_fail :: int

definition maxFailCnt :: int where
  "maxFailCnt = 30"

definition ParentWithFail_connect ::
    "'e penv \<Rightarrow> URL \<Rightarrow> ParentWithFail \<Rightarrow> 'e \<Rightarrow> (err + net_conn) \<times> ParentWithFail \<times> 'e" where
  "ParentWithFail_connect E url parent e =
     (case env_connect E (pw_parent parent) url e of
        (Inl x, e1) \<Rightarrow>
          (Inl x, (if pw_fail parent < maxFailCnt \<and> \<not> env_bad E e1
                   then parent \<lparr>pw_fail := pw_fail parent + 1\<rparr> else parent), e1)
      | (Inr c, e1) \<Rightarrow> (Inr c, parent \<lparr>pw_fail := 0\<rparr>, e1))"

definition baseFailCnt :: int where
  "baseFailCnt = 9"

text \<open>
  The first loop of \<open>connectInOrder\<close>, over the list of the indices still to visit. The state is
  the slice of parents, the skipped indices, whether the HTTP pool was tried, and the last error.
\<close>

fun order_loop ::
    "'e penv \<Rightarrow> URL \<Rightarrow> nat list \<Rightarrow> ParentWithFail list \<Rightarrow> nat list \<Rightarrow> bool \<Rightarrow> err option \<Rightarrow> 'e \<Rightarrow>
     net_conn option \<times> ParentWithFail list \<times> nat list \<times> err option \<times> 'e" where
  "order_loop E url [] pp skipped tried er e = (None, pp, skipped, er, e)"
| "order_loop E url (proxyId # ids) pp skipped tried er e =
     (let parent = pp ! proxyId in
      if isHTTPParent (pw_parent parent) then
        (if tried then order_loop E url ids pp skipped tried er e
         else
           (case env_hpool E url e of
              (Inr c, e1) \<Rightarrow> (Some c, pp, skipped, None, e1)
            | (Inl x, e1) \<Rightarrow> order_loop E url ids pp skipped True (Some x) e1))
      else
        (let skip = (if 0 < pw_fail parent then env_intn E (pw_fail parent + baseFailCnt) e else (0, e))
         in if fst skip \<noteq> 0
            then order_loop E url ids pp (skipped @ [proxyId]) tried er (snd skip)
            else
              (case ParentWithFail_connect E url parent (snd skip) of
                 (Inr c, parent1, e1) \<Rightarrow> (Some c, pp[proxyId := parent1], skipped, None, e1)
               | (Inl x, parent1, e1) \<Rightarrow>
                   order_loop E url ids (pp[proxyId := parent1]) skipped tried (Some x) e1)))"

fun skipped_loop ::
    "'e penv \<Rightarrow> URL \<Rightarrow> nat list \<Rightarrow> ParentWithFail list \<Rightarrow> err option \<Rightarrow> 'e \<Rightarrow>
     conn_result \<times> ParentWithFail list \<times> 'e" where
  "skipped_loop E url [] pp er e = ((None, er), pp, e)"
| "skipped_loop E url (skippedId # ids) pp er e =
     (case ParentWithFail_connect E url (pp ! skippedId) e of
        (Inr c, parent1, e1) \<Rightarrow> ((Some c, None), pp[skippedId := parent1], e1)
      | (Inl x, parent1, e1) \<Rightarrow> skipped_loop E url ids (pp[skippedId := parent1]) (Some x) e1)"

definition connectInOrder ::
    "'e penv \<Rightarrow> URL \<Rightarrow> ParentWithFail list \<Rightarrow> nat \<Rightarrow> 'e \<Rightarrow>
     conn_result \<times> ParentWithFail list \<times> 'e" where
  "connectInOrder E url pp start e =
     (let nproxy = length pp in
      if nproxy = 0 then (no_parent, pp, e)
      else
        (case order_loop E url (map (\<lambda>i. (start + i) mod nproxy) [0..<nproxy]) pp [] False None e of
           (Some c, pp1, skipped, er, e1) \<Rightarrow> ((Some c, None), pp1, e1)
         | (None, pp1, skipped, er, e1) \<Rightarrow> skipped_loop E url skipped pp1 er e1))"

definition Pool_add :: "ParentProxy \<Rightarrow> ParentWithFail list \<Rightarrow> ParentWithFail list" where
  "Pool_add parent pp = pp @ [\<lparr>pw_parent = parent, pw_fail = 0\<rparr>]"

definition Pool_empty :: "ParentWithFail list \<Rightarrow> bool" where
  "Pool_empty pp \<longleftrightarrow> length pp = 0"

definition backup_connect ::
    "'e penv \<Rightarrow> URL \<Rightarrow> ParentWithFail list \<Rightarrow> 'e \<Rightarrow> conn_result \<times> ParentWithFail list \<times> 'e" where
  "backup_connect E url pp e = connectInOrder E url pp 0 e"

text \<open>\<open>crc32.ChecksumIEEE\<close>, bit by bit.\<close>

fun crc_bits :: "nat \<Rightarrow> 32 word \<Rightarrow> 32 word" where
  "crc_bits 0 c = c"
| "crc_bits (Suc n) c =
     crc_bits n (if bit c 0 then xor (drop_bit 1 c) 0xEDB88320 else drop_bit 1 c)"

definition crc32_IEEE :: "bytes \<Rightarrow> 32 word" where
  "crc32_IEEE s = not (fold (\<lambda>b c. crc_bits 8 (xor c (of_nat (byte_val b)))) s (not 0))"

definition hash_start :: "URL \<Rightarrow> nat \<Rightarrow> nat" where
  "hash_start url n = unat (crc32_IEEE (url_Host url) mod of_nat n)"

definition hash_connect ::
    "'e penv \<Rightarrow> URL \<Rightarrow> ParentWithFail list \<Rightarrow> 'e \<Rightarrow> conn_result \<times> ParentWithFail list \<times> 'e" where
  "hash_connect E url pp e = connectInOrder E url pp (hash_start url (length pp)) e"

section \<open>What the backup and hash pools try\<close>

datatype attempt = Tried ParentProxy | TriedHttpPool

text \<open>An environment in which the connection attempts can be observed.\<close>

locale logged_env =
  fixes E :: "'e penv" and log :: "'e \<Rightarrow> attempt list"
  assumes connect_log: "env_connect E p url e = (res, e') \<Longrightarrow> log e' = log e @ [Tried p]"
    and hpool_log: "env_hpool E url e = (res, e') \<Longrightarrow> log e' = log e @ [TriedHttpPool]"
    and intn_log: "env_intn E n e = (k, e') \<Longrightarrow> log e' = log e"

definition fails_ok :: "ParentWithFail list \<Rightarrow> bool" where
  "fails_ok pp \<longleftrightarrow> (\<forall>p \<in> set pp. 0 \<le> pw_fail p \<and> pw_fail p \<le> maxFailCnt)"

lemma ParentWithFail_connect_keeps:
  assumes "ParentWithFail_connect E url p e = (res, p', e')"
  shows "pw_parent p' = pw_parent p"
    and "0 \<le> pw_fail p \<and> pw_fail p \<le> maxFailCnt \<Longrightarrow> 0 \<le> pw_fail p' \<and> pw_fail p' \<le> maxFailCnt"
  using assms by (auto simp: ParentWithFail_connect_def maxFailCnt_def split: prod.splits sum.splits)

text \<open>The same parents in the same order, with failure counts still in their range.\<close>

definition same_pool :: "ParentWithFail list \<Rightarrow> ParentWithFail list \<Rightarrow> bool" where
  "same_pool pp pp' \<longleftrightarrow> map pw_parent pp' = map pw_parent pp \<and> (fails_ok pp \<longrightarrow> fails_ok pp')"

lemma same_pool_refl [simp]: "same_pool pp pp"
  by (simp add: same_pool_def)

lemma same_pool_trans: "same_pool pp pp' \<Longrightarrow> same_pool pp' pp'' \<Longrightarrow> same_pool pp pp''"
  by (simp add: same_pool_def)

lemma same_pool_length: "same_pool pp pp' \<Longrightarrow> length pp' = length pp"
  unfolding same_pool_def by (metis length_map)

lemma same_pool_nth: "same_pool pp pp' \<Longrightarrow> i < length pp \<Longrightarrow> pw_parent (pp' ! i) = pw_parent (pp ! i)"
  unfolding same_pool_def by (metis length_map nth_map)

lemma same_pool_update:
  assumes "ParentWithFail_connect E url (pp ! i) e = (res, p', e')" "i < length pp"
  shows "same_pool pp (pp[i := p'])"
proof -
  have "map pw_parent (pp[i := p']) = map pw_parent pp"
    using ParentWithFail_connect_keeps(1) [OF assms(1)] assms(2)
    by (metis list_update_id map_update nth_map)
  moreover have "fails_ok (pp[i := p'])" if "fails_ok pp"
    using that ParentWithFail_connect_keeps(2) [OF assms(1)] assms(2) set_update_subset_insert [of pp i p']
    by (fastforce simp: fails_ok_def)
  ultimately show ?thesis by (simp add: same_pool_def)
qed

text \<open>One round of the first loop.\<close>

lemma order_loop_cases:
  assumes "order_loop E url (i # ids) pp sk tried er e = res"
  obtains
    (http_again) "isHTTPParent (pw_parent (pp ! i))" "tried" "res = order_loop E url ids pp sk tried er e"
  | (http_ok) c e1 where "isHTTPParent (pw_parent (pp ! i))" "\<not> tried" "env_hpool E url e = (Inr c, e1)"
      "res = (Some c, pp, sk, None, e1)"
  | (http_fail) x e1 where "isHTTPParent (pw_parent (pp ! i))" "\<not> tried" "env_hpool E url e = (Inl x, e1)"
      "res = order_loop E url ids pp sk True (Some x) e1"
  | (skip) n k e1 where "\<not> isHTTPParent (pw_parent (pp ! i))" "env_intn E n e = (k, e1)"
      "res = order_loop E url ids pp (sk @ [i]) tried er e1"
  | (ok) n k e0 c p1 e1 where "\<not> isHTTPParent (pw_parent (pp ! i))" "e0 = e \<or> env_intn E n e = (k, e0)"
      "ParentWithFail_connect E url (pp ! i) e0 = (Inr c, p1, e1)" "res = (Some c, pp[i := p1], sk, None, e1)"
  | (fail) n k e0 x p1 e1 where "\<not> isHTTPParent (pw_parent (pp ! i))" "e0 = e \<or> env_intn E n e = (k, e0)"
      "ParentWithFail_connect E url (pp ! i) e0 = (Inl x, p1, e1)"
      "res = order_loop E url ids (pp[i := p1]) sk tried (Some x) e1"
proof (cases "isHTTPParent (pw_parent (pp ! i))")
  case True
  then show thesis using assms http_again http_ok http_fail
    by (cases tried; cases "env_hpool E url e"; cases "fst (env_hpool E url e)") (auto simp: Let_def)
next
  case False
  define s where "s = (if 0 < pw_fail (pp ! i) then env_intn E (pw_fail (pp ! i) + baseFailCnt) e else (0, e))"
  obtain x p1 e1 where cn: "ParentWithFail_connect E url (pp ! i) (snd s) = (x, p1, e1)" by (metis prod_cases3)
  have e0: "snd s = e \<or> env_intn E (pw_fail (pp ! i) + baseFailCnt) e = (fst s, snd s)"
    by (simp add: s_def)
  show thesis
  proof (cases "fst s \<noteq> 0")
    case True
    then have n: "env_intn E (pw_fail (pp ! i) + baseFailCnt) e = (fst s, snd s)"
      by (auto simp: s_def split: if_splits)
    from True False assms skip [OF False n] show thesis by (simp add: Let_def flip: s_def)
  next
    case f: False
    show thesis
    proof (cases x)
      case (Inl y)
      with f False assms cn fail [OF False e0] show thesis by (simp add: Let_def flip: s_def)
    next
      case (Inr c)
      with f False assms cn ok [OF False e0] show thesis by (simp add: Let_def flip: s_def)
    qed
  qed
qed

lemma order_loop_keeps:
  assumes "order_loop E url ids pp sk tried er e = (c, pp', sk', er', e')" "set ids \<subseteq> {..<length pp}"
  shows "same_pool pp pp'"
  using assms
proof (induction ids arbitrary: pp sk tried er e)
  case (Cons i ids)
  have i: "i < length pp" "set ids \<subseteq> {..<length pp}" using Cons.prems(2) by auto
  note up = same_pool_update [OF _ i(1), of E url]
  from Cons.prems(1) show ?case
  proof (cases rule: order_loop_cases)
    case (fail n k e0 x p1 e1)
    with Cons.IH [of "pp[i := p1]"] i(2) up [OF fail(3)] show ?thesis
      using same_pool_trans by (metis length_list_update)
  qed (use Cons.IH i up in auto)
qed simp

lemma skipped_loop_keeps:
  assumes "skipped_loop E url ids pp er e = (res, pp', e')" "set ids \<subseteq> {..<length pp}"
  shows "same_pool pp pp'"
  using assms
proof (induction ids arbitrary: pp er e)
  case (Cons i ids)
  have i: "i < length pp" "set ids \<subseteq> {..<length pp}" using Cons.prems(2) by auto
  obtain x p1 e1 where cn: "ParentWithFail_connect E url (pp ! i) e = (x, p1, e1)" by (metis prod_cases3)
  note up = same_pool_update [OF cn i(1)]
  show ?case
  proof (cases x)
    case (Inl y)
    then have "skipped_loop E url ids (pp[i := p1]) (Some y) e1 = (res, pp', e')"
      using Cons.prems(1) cn by simp
    from Cons.IH [OF this] i(2) have "same_pool (pp[i := p1]) pp'" by simp
    with up show ?thesis by (rule same_pool_trans)
  next
    case (Inr c)
    then show ?thesis using Cons.prems(1) cn up by auto
  qed
qed simp

text \<open>The first loop leaves an error or a skipped parent when it does not connect.\<close>

lemma order_loop_progress:
  assumes "order_loop E url ids pp sk tried er e = (None, pp', sk', er', e')"
    "ids \<noteq> [] \<or> er \<noteq> None \<or> sk \<noteq> []" "tried \<longrightarrow> er \<noteq> None"
  shows "er' \<noteq> None \<or> sk' \<noteq> []"
  using assms
proof (induction ids arbitrary: pp sk tried er e)
  case (Cons i ids)
  from Cons.prems(1) show ?case
    by (cases rule: order_loop_cases) (use Cons.IH Cons.prems in auto)
qed auto

lemma skipped_loop_result:
  assumes "skipped_loop E url ids pp er e = (res, pp', e')" "er \<noteq> None \<or> ids \<noteq> []"
  shows "(\<exists>c. res = (Some c, None)) \<or> (\<exists>x. res = (None, Some x))"
  using assms
proof (induction ids arbitrary: pp er e)
  case (Cons i ids)
  then show ?case by (fastforce split: prod.splits sum.splits)
qed auto

lemma order_loop_skipped:
  assumes "order_loop E url ids pp sk tried er e = (c, pp', sk', er', e')"
  shows "\<exists>new. sk' = sk @ new \<and> set new \<subseteq> set ids"
  using assms
proof (induction ids arbitrary: pp sk tried er e)
  case (Cons i ids)
  from Cons.prems(1) show ?case
  proof (cases rule: order_loop_cases)
    case http_again
    from Cons.IH [OF http_again(3) [symmetric]] show ?thesis by auto
  next
    case (http_fail x e1)
    from Cons.IH [OF http_fail(4) [symmetric]] show ?thesis by auto
  next
    case (skip n k e1)
    from Cons.IH [OF skip(3) [symmetric]] show ?thesis by auto
  next
    case (fail n k e0 x p1 e1)
    from Cons.IH [OF fail(4) [symmetric]] show ?thesis by auto
  qed simp_all
qed simp

text \<open>Which indices are visited: a rotation of all of them.\<close>

lemma rotation_mset:
  assumes "0 < n"
  shows "mset (map (\<lambda>i. (start + i) mod n) [0..<n]) = mset [0..<n]"
proof -
  have key: "x = y" if "x \<le> y" "y < n" "(start + x) mod n = (start + y) mod n" for x y
  proof -
    have "n dvd (start + y) - (start + x)"
      using mod_eq_dvd_iff_nat [of "start + x" "start + y" n] that by simp
    then show ?thesis using that nat_dvd_not_less [of "y - x" n] by fastforce
  qed
  have "inj_on (\<lambda>i. (start + i) mod n) {0..<n}"
    by (rule inj_onI) (metis key atLeastLessThan_iff nle_le)
  moreover have "(\<lambda>i. (start + i) mod n) ` {0..<n} = {0..<n}"
  proof (rule card_subset_eq)
    show "card ((\<lambda>i. (start + i) mod n) ` {0..<n}) = card {0..<n}"
      using calculation by (simp add: card_image)
  qed (use assms in auto)
  ultimately have "mset_set {0..<n} = image_mset (\<lambda>i. (start + i) mod n) (mset_set {0..<n})"
    by (simp add: image_mset_mset_set)
  then show ?thesis by (simp flip: mset_upt)
qed

context logged_env
begin

text \<open>What is tried for the parents \<open>ps\<close>: the HTTP pool once, every other parent once.\<close>

definition due :: "ParentProxy list \<Rightarrow> bool \<Rightarrow> attempt multiset" where
  "due ps tried = image_mset Tried (mset (filter (\<lambda>p. \<not> isHTTPParent p) ps)) +
     (if \<not> tried \<and> list_ex isHTTPParent ps then {#TriedHttpPool#} else {#})"

lemma due_mset: "mset xs = mset ys \<Longrightarrow> due xs tried = due ys tried"
  using mset_eq_setD [of xs ys] by (simp add: due_def list_ex_iff)

lemma PF_connect_log:
  "ParentWithFail_connect E url p e = (res, p', e') \<Longrightarrow> log e' = log e @ [Tried (pw_parent p)]"
  using connect_log by (fastforce simp: ParentWithFail_connect_def split: prod.splits sum.splits)

lemma order_loop_log:
  assumes "order_loop E url ids pp sk tried er e = (None, pp', sk @ new, er', e')"
    "set ids \<subseteq> {..<length pp}" "ps = map pw_parent pp"
  shows "\<exists>as. log e' = log e @ as \<and>
    mset as + mset (map (\<lambda>i. Tried (ps ! i)) new) = due (map (\<lambda>i. ps ! i) ids) tried"
  using assms
proof (induction ids arbitrary: pp sk new tried er e)
  case Nil
  then show ?case by (simp add: due_def)
next
  case (Cons i ids)
  have i: "i < length pp" "set ids \<subseteq> {..<length pp}" "ps ! i = pw_parent (pp ! i)"
    using Cons.prems(2,3) by auto
  from Cons.prems(1) show ?case
  proof (cases rule: order_loop_cases)
    case http_again
    from Cons.IH [OF http_again(3) [symmetric] i(2) Cons.prems(3)] http_again(1,2) i(3) show ?thesis
      by (simp add: due_def)
  next
    case (http_fail x e1)
    from Cons.IH [OF http_fail(4) [symmetric] i(2) Cons.prems(3)] obtain as where
      "log e' = log e1 @ as" "mset as + mset (map (\<lambda>i. Tried (ps ! i)) new) = due (map (\<lambda>i. ps ! i) ids) True"
      by blast
    then show ?thesis using hpool_log [OF http_fail(3)] http_fail(1,2) i(3)
      by (intro exI [of _ "TriedHttpPool # as"]) (simp add: due_def)
  next
    case (skip n k e1)
    obtain new1 where new1: "sk @ new = (sk @ [i]) @ new1"
      using order_loop_skipped [OF skip(3) [symmetric]] by auto
    from Cons.IH [OF skip(3) [symmetric, unfolded new1] i(2) Cons.prems(3)] obtain as where
      "log e' = log e1 @ as" "mset as + mset (map (\<lambda>i. Tried (ps ! i)) new1) = due (map (\<lambda>i. ps ! i) ids) tried"
      by blast
    then show ?thesis using intn_log [OF skip(2)] skip(1) i(3) new1
      by (intro exI [of _ as]) (simp add: due_def add.commute)
  next
    case (fail n k e0 x p1 e1)
    have sp: "same_pool pp (pp[i := p1])" using fail(3) i(1) by (rule same_pool_update)
    then have "ps = map pw_parent (pp[i := p1])" using Cons.prems(3) by (simp add: same_pool_def)
    from Cons.IH [OF fail(4) [symmetric] _ this] i(2) obtain as where
      as: "log e' = log e1 @ as" "mset as + mset (map (\<lambda>i. Tried (ps ! i)) new) = due (map (\<lambda>i. ps ! i) ids) tried"
      by auto
    have "log e0 = log e" using fail(2) intn_log by blast
    then show ?thesis using PF_connect_log [OF fail(3)] as fail(1) i(3)
      by (intro exI [of _ "Tried (ps ! i) # as"]) (simp add: due_def)
  qed simp_all
qed

lemma skipped_loop_log:
  assumes "skipped_loop E url ids pp er e = ((None, er'), pp', e')" "set ids \<subseteq> {..<length pp}"
    "ps = map pw_parent pp"
  shows "log e' = log e @ map (\<lambda>i. Tried (ps ! i)) ids"
  using assms
proof (induction ids arbitrary: pp er e)
  case (Cons i ids)
  have i: "i < length pp" "set ids \<subseteq> {..<length pp}" "ps ! i = pw_parent (pp ! i)"
    using Cons.prems(2,3) by auto
  obtain x p1 e1 where cn: "ParentWithFail_connect E url (pp ! i) e = (x, p1, e1)" by (metis prod_cases3)
  have sp: "same_pool pp (pp[i := p1])" using cn i(1) by (rule same_pool_update)
  obtain y where "x = Inl y" using Cons.prems(1) cn by (cases x) auto
  then have "skipped_loop E url ids (pp[i := p1]) (Some y) e1 = ((None, er'), pp', e')"
    using Cons.prems(1) cn by simp
  from Cons.IH [OF this] i sp Cons.prems(3) PF_connect_log [OF cn] show ?case
    by (simp add: same_pool_def)
qed simp

lemma connectInOrder_log:
  assumes "connectInOrder E url pp start e = ((None, Some x), pp', e')" "pp \<noteq> []"
  shows "\<exists>as. log e' = log e @ as \<and> mset as = due (map pw_parent pp) False"
proof -
  let ?n = "length pp" and ?ps = "map pw_parent pp"
  let ?ids = "map (\<lambda>i. (start + i) mod ?n) [0..<?n]"
  have n: "0 < ?n" using assms(2) by simp
  have ids: "set ?ids \<subseteq> {..<?n}" using n by auto
  obtain c pp1 sk er e1 where ol: "order_loop E url ?ids pp [] False None e = (c, pp1, sk, er, e1)"
    by (metis prod_cases5)
  have c: "c = None" and sl: "skipped_loop E url sk pp1 er e1 = ((None, Some x), pp', e')"
    using assms ol by (auto simp: connectInOrder_def Let_def split: option.splits)
  have ol': "order_loop E url ?ids pp [] False None e = (None, pp1, [] @ sk, er, e1)" using ol c by simp
  obtain as where as: "log e1 = log e @ as"
      "mset as + mset (map (\<lambda>i. Tried (?ps ! i)) sk) = due (map (\<lambda>i. ?ps ! i) ?ids) False"
    using order_loop_log [OF ol' ids refl] by blast
  have sp: "same_pool pp pp1" using order_loop_keeps [OF ol ids] .
  have sk: "set sk \<subseteq> {..<length pp1}"
    using order_loop_skipped [OF ol] ids same_pool_length [OF sp] by auto
  have "log e' = log e1 @ map (\<lambda>i. Tried (?ps ! i)) sk"
    using skipped_loop_log [OF sl sk, of ?ps] sp by (simp add: same_pool_def)
  moreover have "mset (map (\<lambda>i. ?ps ! i) ?ids) = mset ?ps"
  proof -
    have "mset (map (\<lambda>i. ?ps ! i) ?ids) = image_mset (\<lambda>i. ?ps ! i) (mset [0..<?n])"
      using rotation_mset [OF n, of start] by (metis mset_map)
    also have "\<dots> = mset ?ps" by (metis length_map map_nth mset_map)
    finally show ?thesis .
  qed
  then have "due (map (\<lambda>i. ?ps ! i) ?ids) False = due ?ps False"
    by (rule due_mset)
  ultimately show ?thesis using as by (intro exI [of _ "as @ map (\<lambda>i. Tried (?ps ! i)) sk"]) simp
qed

end

lemma connectInOrder_result:
  assumes "connectInOrder E url pp start e = (res, pp', e')"
  shows "((\<exists>c. res = (Some c, None)) \<or> (\<exists>x. res = (None, Some x))) \<and> same_pool pp pp'"
proof (cases "pp = []")
  case True
  then show ?thesis using assms by (auto simp: connectInOrder_def no_parent_def)
next
  case False
  let ?ids = "map (\<lambda>i. (start + i) mod length pp) [0..<length pp]"
  have ids: "set ?ids \<subseteq> {..<length pp}" "?ids \<noteq> []" using False by auto
  obtain c pp1 sk er e1 where ol: "order_loop E url ?ids pp [] False None e = (c, pp1, sk, er, e1)"
    by (metis prod_cases5)
  have sp: "same_pool pp pp1" using order_loop_keeps [OF ol ids(1)] .
  show ?thesis
  proof (cases c)
    case None
    have sl: "skipped_loop E url sk pp1 er e1 = (res, pp', e')"
      using assms ol None False by (simp add: connectInOrder_def Let_def)
    have "set sk \<subseteq> {..<length pp1}"
      using order_loop_skipped [OF ol] ids same_pool_length [OF sp] by auto
    from skipped_loop_keeps [OF sl this] sp have "same_pool pp pp'" using same_pool_trans by blast
    moreover have "er \<noteq> None \<or> sk \<noteq> []"
      using order_loop_progress [OF ol [unfolded None]] ids(2) by simp
    ultimately show ?thesis using skipped_loop_result [OF sl] by blast
  next
    case (Some a)
    then show ?thesis using assms ol False sp by (auto simp: connectInOrder_def Let_def)
  qed
qed

text \<open>An environment that records the attempts: which parents answer, and the random draws, are given.\<close>

definition trace_env ::
    "(ParentProxy \<Rightarrow> err + net_conn) \<Rightarrow> (URL \<Rightarrow> err + net_conn) \<Rightarrow> (int \<Rightarrow> nat \<Rightarrow> int) \<Rightarrow> bool \<Rightarrow>
     attempt list penv" where
  "trace_env answer hanswer draw bad = \<lparr>
     env_connect = (\<lambda>p url tr. (answer p, tr @ [Tried p])),
     env_hpool = (\<lambda>url tr. (hanswer url, tr @ [TriedHttpPool])),
     env_intn = (\<lambda>n tr. (draw n (length tr), tr)),
     env_bad = (\<lambda>tr. bad)\<rparr>"

interpretation traced: logged_env "trace_env answer hanswer draw bad" "\<lambda>tr. tr"
  by unfold_locales (auto simp: trace_env_def)

text \<open>C17: \<open>connectInOrder\<close>, the backup and hash strategies. It returns a connection or an error,
  never both and never neither; it returns an error only after it has tried every parent that is
  not an HTTP parent exactly once and, if there is an HTTP parent, the pool of HTTP parents exactly
  once, in whatever order and with whatever random skips. The parents keep their order and their
  failure counts stay between 0 and 30.\<close>

theorem connectInOrder_tries_all:
  assumes "logged_env E log" "pp \<noteq> []" "connectInOrder E url pp start e = (res, pp', e')"
  shows "((\<exists>c. res = (Some c, None)) \<or>
      (\<exists>x as. res = (None, Some x) \<and> log e' = log e @ as \<and>
         mset as = image_mset Tried (mset (filter (\<lambda>p. \<not> isHTTPParent p) (map pw_parent pp))) +
           (if list_ex isHTTPParent (map pw_parent pp) then {#TriedHttpPool#} else {#}))) \<and>
    map pw_parent pp' = map pw_parent pp \<and> (fails_ok pp \<longrightarrow> fails_ok pp')"
proof -
  have r: "(\<exists>c. res = (Some c, None)) \<or> (\<exists>x. res = (None, Some x))" "same_pool pp pp'"
    using connectInOrder_result [OF assms(3)] by auto
  moreover have "\<exists>as. log e' = log e @ as \<and>
       mset as = image_mset Tried (mset (filter (\<lambda>p. \<not> isHTTPParent p) (map pw_parent pp))) +
           (if list_ex isHTTPParent (map pw_parent pp) then {#TriedHttpPool#} else {#})"
    if "res = (None, Some x)" for x
    using logged_env.connectInOrder_log [OF assms(1) assms(3) [unfolded that] assms(2)]
    by (simp add: logged_env.due_def [OF assms(1)])
  ultimately show ?thesis unfolding same_pool_def by blast
qed

definition ex_pool :: "ParentWithFail list" where
  "ex_pool = [\<lparr>pw_parent = socksParent ''a:1080'' [] [], pw_fail = 3\<rparr>,
     \<lparr>pw_parent = httpParent ''b:80'' [] None, pw_fail = 0\<rparr>,
     \<lparr>pw_parent = httpParent ''c:80'' [] None, pw_fail = 0\<rparr>,
     \<lparr>pw_parent = cowParent ''d:99'' [] [], pw_fail = 0\<rparr>]"

theorem connectInOrder_tries_all_witness:
  "\<exists>pp' tr. connectInOrder (trace_env (\<lambda>p. Inl EOF) (\<lambda>u. Inl UnexpectedEOF) (\<lambda>n k. 1) False)
       empty_URL ex_pool 1 [] = ((None, Some EOF), pp', tr) \<and>
     tr = [TriedHttpPool, Tried (cowParent ''d:99'' [] []), Tried (socksParent ''a:1080'' [] [])] \<and>
     mset tr = {#Tried (socksParent ''a:1080'' [] []), Tried (cowParent ''d:99'' [] []), TriedHttpPool#} \<and>
     fails_ok pp'"
proof -
  let ?E = "trace_env (\<lambda>p. Inl EOF) (\<lambda>u. Inl UnexpectedEOF) (\<lambda>n k. 1) False"
  obtain res pp' tr where r: "connectInOrder ?E empty_URL ex_pool 1 [] = (res, pp', tr)"
    by (metis prod_cases3)
  then have e: "res = (None, Some EOF)"
      "tr = [TriedHttpPool, Tried (cowParent ''d:99'' [] []), Tried (socksParent ''a:1080'' [] [])]"
    by (auto simp: connectInOrder_def ex_pool_def trace_env_def isHTTPParent_def Let_def upt_rec
        ParentWithFail_connect_def)
  have "ex_pool \<noteq> []" "fails_ok ex_pool" by (simp_all add: ex_pool_def fails_ok_def maxFailCnt_def)
  with connectInOrder_tries_all [OF traced.logged_env_axioms _ r] r e show ?thesis
    by (simp add: ex_pool_def isHTTPParent_def)
qed

end
