(* ===== verification/Parent_Pools.thy ===== *)
theory Parent_Pools
  imports Parent_Proxy
begin

text \<open>
  parent_proxy.go, continued: the latency pool, the pool of HTTP parents that is probed in the
  background, the choice of a pool by \<open>initParentPool\<close>, and the interface \<open>ParentPool\<close> as a locale
  that every strategy satisfies.
\<close>

section \<open>The latency pool\<close>

record ParentWithLatency =
  pl_parent :: ParentProxy
  pl_latency :: duration

definition latencyMax :: duration where
  "latencyMax = hour"

definition lat_add :: "ParentProxy \<Rightarrow> ParentWithLatency list \<Rightarrow> ParentWithLatency list" where
  "lat_add parent pp = pp @ [\<lparr>pl_parent = parent, pl_latency = 0\<rparr>]"

definition newLatencyParentPool :: "ParentWithFail list \<Rightarrow> ParentWithLatency list" where
  "newLatencyParentPool parent = fold (\<lambda>p. lat_add (pw_parent p)) parent []"

definition lat_empty :: "ParentWithLatency list \<Rightarrow> bool" where
  "lat_empty pp \<longleftrightarrow> length pp = 0"

fun setLatency :: "bytes \<Rightarrow> duration \<Rightarrow> ParentWithLatency list \<Rightarrow> ParentWithLatency list" where
  "setLatency server latency [] = []"
| "setLatency server latency (p # pp) =
     (if getServer (pl_parent p) = server then p \<lparr>pl_latency := latency\<rparr> # pp
      else p # setLatency server latency pp)"

text \<open>
  \<open>connect\<close> runs over the slice \<open>lp\<close> it read at the start, and lowers the priority of failing
  parents in the pool; the entries it has still to visit are not changed by that.
\<close>

fun lat_loop ::
    "'e penv \<Rightarrow> URL \<Rightarrow> ParentWithLatency list \<Rightarrow> ParentWithLatency list \<Rightarrow> ParentProxy list \<Rightarrow> bool \<Rightarrow>
     err option \<Rightarrow> 'e \<Rightarrow>
     net_conn option \<times> ParentWithLatency list \<times> ParentProxy list \<times> err option \<times> 'e" where
  "lat_loop E url [] pp skipped tried er e = (None, pp, skipped, er, e)"
| "lat_loop E url (parent # lp) pp skipped tried er e =
     (if isHTTPParent (pl_parent parent) then
        (if tried then lat_loop E url lp pp skipped tried er e
         else
           (case env_hpool E url e of
              (Inr c, e1) \<Rightarrow> (Some c, pp, skipped, None, e1)
            | (Inl x, e1) \<Rightarrow> lat_loop E url lp pp skipped True (Some x) e1))
      else if pl_latency parent \<ge> latencyMax then
        lat_loop E url lp pp (skipped @ [pl_parent parent]) tried er e
      else
        (case env_connect E (pl_parent parent) url e of
           (Inr c, e1) \<Rightarrow> (Some c, pp, skipped, None, e1)
         | (Inl x, e1) \<Rightarrow>
             lat_loop E url lp (setLatency (getServer (pl_parent parent)) latencyMax pp)
               skipped tried (Some x) e1))"

fun lat_skipped :: "'e penv \<Rightarrow> URL \<Rightarrow> ParentProxy list \<Rightarrow> err option \<Rightarrow> 'e \<Rightarrow> conn_result \<times> 'e" where
  "lat_skipped E url [] er e = ((None, er), e)"
| "lat_skipped E url (p # ps) er e =
     (case env_connect E p url e of
        (Inr c, e1) \<Rightarrow> ((Some c, None), e1)
      | (Inl x, e1) \<Rightarrow> lat_skipped E url ps (Some x) e1)"

definition latency_connect ::
    "'e penv \<Rightarrow> URL \<Rightarrow> ParentWithLatency list \<Rightarrow> 'e \<Rightarrow> conn_result \<times> ParentWithLatency list \<times> 'e" where
  "latency_connect E url pp e =
     (if length pp = 0 then (no_parent, pp, e)
      else
        (case lat_loop E url pp pp [] False None e of
           (Some c, pp1, skipped, er, e1) \<Rightarrow> ((Some c, None), pp1, e1)
         | (None, pp1, skipped, er, e1) \<Rightarrow>
             (case lat_skipped E url skipped er e1 of (res, e2) \<Rightarrow> (res, pp1, e2))))"

text \<open>
  One parent's \<open>updateLatency\<close>: a host that does not resolve, or three dials, each of which fails
  (a penalty of one minute) or takes some time.
\<close>

definition updateLatency1 :: "err + (err + duration) list \<Rightarrow> ParentWithLatency \<Rightarrow> ParentWithLatency" where
  "updateLatency1 measured parent =
     (case measured of
        Inl e \<Rightarrow> parent \<lparr>pl_latency := latencyMax\<rparr>
      | Inr dials \<Rightarrow>
          parent \<lparr>pl_latency :=
            sum_list (map (\<lambda>d. case d of Inl e \<Rightarrow> minute | Inr t \<Rightarrow> t) dials) div 3\<rparr>)"

definition lat_updateLatency ::
    "(ParentProxy \<Rightarrow> err + (err + duration) list) \<Rightarrow> ParentWithLatency list \<Rightarrow> ParentWithLatency list" where
  "lat_updateLatency measured pp =
     sort_key pl_latency (map (\<lambda>p. updateLatency1 (measured (pl_parent p)) p) pp)"

lemma setLatency_parents [simp]: "map pl_parent (setLatency s l pp) = map pl_parent pp"
  by (induction pp) auto

lemma lat_loop_result:
  assumes "lat_loop E url lp pp sk tried er e = (c, pp', sk', er', e')" "lp \<noteq> [] \<or> er \<noteq> None \<or> sk \<noteq> []"
    "tried \<longrightarrow> er \<noteq> None"
  shows "map pl_parent pp' = map pl_parent pp \<and> (c = None \<longrightarrow> er' \<noteq> None \<or> sk' \<noteq> [])"
  using assms
proof (induction lp arbitrary: pp sk tried er e)
  case (Cons p lp)
  obtain ha he where h: "env_hpool E url e = (ha, he)" by fastforce
  obtain ca ce where c: "env_connect E (pl_parent p) url e = (ca, ce)" by fastforce
  consider "isHTTPParent (pl_parent p)" "tried" | "isHTTPParent (pl_parent p)" "\<not> tried" |
    "\<not> isHTTPParent (pl_parent p)" "latencyMax \<le> pl_latency p" |
    "\<not> isHTTPParent (pl_parent p)" "\<not> latencyMax \<le> pl_latency p" by blast
  then show ?case
  proof cases
    case 1
    with Cons.prems show ?thesis by (intro Cons.IH) auto
  next
    case 2
    show ?thesis
    proof (cases ha)
      case (Inl x)
      with 2 h Cons.prems have "lat_loop E url lp pp sk True (Some x) he = (c, pp', sk', er', e')" by simp
      from Cons.IH [OF this] show ?thesis by simp
    next
      case (Inr y)
      with 2 h Cons.prems show ?thesis by auto
    qed
  next
    case 3
    with Cons.prems show ?thesis by (intro Cons.IH) auto
  next
    case 4
    show ?thesis
    proof (cases ca)
      case (Inl x)
      with 4 c Cons.prems have "lat_loop E url lp (setLatency (getServer (pl_parent p)) latencyMax pp)
          sk tried (Some x) ce = (c, pp', sk', er', e')" by simp
      from Cons.IH [OF this] show ?thesis by simp
    next
      case (Inr y)
      with 4 c Cons.prems show ?thesis by auto
    qed
  qed
qed auto

lemma lat_skipped_result:
  assumes "lat_skipped E url ps er e = (res, e')" "er \<noteq> None \<or> ps \<noteq> []"
  shows "(\<exists>c. res = (Some c, None)) \<or> (\<exists>x. res = (None, Some x))"
  using assms by (induction ps arbitrary: er e) (fastforce split: prod.splits sum.splits)+

lemma latency_connect_result:
  assumes "latency_connect E url pp e = (res, pp', e')"
  shows "((\<exists>c. res = (Some c, None)) \<or> (\<exists>x. res = (None, Some x))) \<and> map pl_parent pp' = map pl_parent pp"
proof (cases "pp = []")
  case True
  then show ?thesis using assms by (auto simp: latency_connect_def no_parent_def)
next
  case False
  obtain c pp1 sk er e1 where ol: "lat_loop E url pp pp [] False None e = (c, pp1, sk, er, e1)"
    by (metis prod_cases5)
  have lr: "map pl_parent pp1 = map pl_parent pp" "c = None \<longrightarrow> er \<noteq> None \<or> sk \<noteq> []"
    using lat_loop_result [OF ol] False by auto
  obtain res2 e2 where sl: "lat_skipped E url sk er e1 = (res2, e2)" by fastforce
  show ?thesis using assms ol lr sl False lat_skipped_result [OF sl]
    by (cases c) (auto simp: latency_connect_def)
qed

section \<open>The interface of a parent pool\<close>

text \<open>
  What the proxy relies on: \<open>connect\<close> returns a connection or an error, and keeps the parents.
\<close>

locale ParentPool =
  fixes pool_connect :: "'e penv \<Rightarrow> URL \<Rightarrow> 'p \<Rightarrow> 'e \<Rightarrow> conn_result \<times> 'p \<times> 'e"
    and pool_parents :: "'p \<Rightarrow> ParentProxy list"
  assumes connect_xor:
      "pool_connect E url p e = (res, p', e') \<Longrightarrow>
         (\<exists>c. res = (Some c, None)) \<or> (\<exists>x. res = (None, Some x))"
    and connect_parents:
      "pool_connect E url p e = (res, p', e') \<Longrightarrow> pool_parents p' = pool_parents p"
begin

lemma connect_cases:
  obtains (conn) c p' e' where "pool_connect E url p e = ((Some c, None), p', e')"
      "pool_parents p' = pool_parents p"
  | (error) x p' e' where "pool_connect E url p e = ((None, Some x), p', e')"
      "pool_parents p' = pool_parents p"
  using connect_xor connect_parents by (metis prod_cases3)

end

interpretation backup: ParentPool backup_connect "map pw_parent"
  by unfold_locales
    (use connectInOrder_result in \<open>fastforce simp: backup_connect_def same_pool_def\<close>)+

interpretation hash: ParentPool hash_connect "map pw_parent"
  by unfold_locales
    (use connectInOrder_result in \<open>fastforce simp: hash_connect_def same_pool_def\<close>)+

interpretation latency: ParentPool latency_connect "map pl_parent"
  by unfold_locales (use latency_connect_result in fastforce)+

text \<open>\<open>parentProxy\<close>, whichever strategy it holds.\<close>

datatype parent_pool =
    backupParentPool "ParentWithFail list"
  | hashParentPool "ParentWithFail list"
  | latencyParentPool "ParentWithLatency list"

fun parentProxy_empty :: "parent_pool \<Rightarrow> bool" where
  "parentProxy_empty (backupParentPool pp) = Pool_empty pp"
| "parentProxy_empty (hashParentPool pp) = Pool_empty pp"
| "parentProxy_empty (latencyParentPool pp) = lat_empty pp"

fun parentProxy_add :: "ParentProxy \<Rightarrow> parent_pool \<Rightarrow> parent_pool" where
  "parentProxy_add p (backupParentPool pp) = backupParentPool (Pool_add p pp)"
| "parentProxy_add p (hashParentPool pp) = hashParentPool (Pool_add p pp)"
| "parentProxy_add p (latencyParentPool pp) = latencyParentPool (lat_add p pp)"

fun parentProxy_connect ::
    "'e penv \<Rightarrow> URL \<Rightarrow> parent_pool \<Rightarrow> 'e \<Rightarrow> conn_result \<times> parent_pool \<times> 'e" where
  "parentProxy_connect E url (backupParentPool pp) e =
     (case backup_connect E url pp e of (res, pp', e') \<Rightarrow> (res, backupParentPool pp', e'))"
| "parentProxy_connect E url (hashParentPool pp) e =
     (case hash_connect E url pp e of (res, pp', e') \<Rightarrow> (res, hashParentPool pp', e'))"
| "parentProxy_connect E url (latencyParentPool pp) e =
     (case latency_connect E url pp e of (res, pp', e') \<Rightarrow> (res, latencyParentPool pp', e'))"

fun parentProxy_parents :: "parent_pool \<Rightarrow> ParentProxy list" where
  "parentProxy_parents (backupParentPool pp) = map pw_parent pp"
| "parentProxy_parents (hashParentPool pp) = map pw_parent pp"
| "parentProxy_parents (latencyParentPool pp) = map pl_parent pp"

interpretation parentProxy: ParentPool parentProxy_connect parentProxy_parents
proof
  fix E :: "'e penv" and url p e res p' e'
  assume c: "parentProxy_connect E url p e = (res, p', e')"
  show "(\<exists>c. res = (Some c, None)) \<or> (\<exists>x. res = (None, Some x))"
    using c by (cases p) (auto split: prod.splits
        dest: backup.connect_xor hash.connect_xor latency.connect_xor)
  show "parentProxy_parents p' = parentProxy_parents p"
    using c by (cases p) (auto split: prod.splits
        dest: backup.connect_parents hash.connect_parents latency.connect_parents)
qed

lemma parentProxy_empty_iff: "parentProxy_empty p \<longleftrightarrow> parentProxy_parents p = []"
  by (cases p) (auto simp: Pool_empty_def lat_empty_def)

text \<open>Every connection a pool returns was returned by a parent or the pool of HTTP parents.\<close>

definition env_conns :: "(net_conn \<Rightarrow> bool) \<Rightarrow> 'e penv \<Rightarrow> bool" where
  "env_conns Q E \<longleftrightarrow> (\<forall>p url e c e'. env_connect E p url e = (Inr c, e') \<longrightarrow> Q c) \<and>
     (\<forall>url e c e'. env_hpool E url e = (Inr c, e') \<longrightarrow> Q c)"

lemma env_connsD:
  "env_conns Q E \<Longrightarrow> env_connect E p url e = (Inr c, e') \<Longrightarrow> Q c"
  "env_conns Q E \<Longrightarrow> env_hpool E url e = (Inr c, e') \<Longrightarrow> Q c"
  unfolding env_conns_def by blast+

lemma PF_connect_conn:
  "env_conns Q E \<Longrightarrow> ParentWithFail_connect E url p e = (Inr c, p', e') \<Longrightarrow> Q c"
  by (auto simp: ParentWithFail_connect_def split: prod.splits sum.splits intro: env_connsD)

lemma order_loop_conn:
  assumes "env_conns Q E" "order_loop E url ids pp sk tried er e = (Some c, pp', sk', er', e')"
  shows "Q c"
  using assms(2)
proof (induction ids arbitrary: pp sk tried er e)
  case (Cons i ids)
  from Cons.prems show ?case
  proof (cases rule: order_loop_cases)
    case (http_ok c1 e1)
    then show ?thesis using env_connsD(2) [OF assms(1) http_ok(3)] by simp
  next
    case (ok n k e0 c1 p1 e1)
    then show ?thesis using PF_connect_conn [OF assms(1) ok(3)] by simp
  qed (use Cons.IH in auto)
qed simp

lemma skipped_loop_conn:
  assumes "env_conns Q E" "skipped_loop E url ids pp er e = ((Some c, er'), pp', e')"
  shows "Q c"
  using assms(2)
proof (induction ids arbitrary: pp er e)
  case (Cons i ids)
  obtain x p1 e1 where cn: "ParentWithFail_connect E url (pp ! i) e = (x, p1, e1)" by (metis prod_cases3)
  then show ?case using Cons PF_connect_conn [OF assms(1)] by (cases x) fastforce+
qed simp

lemma connectInOrder_conn:
  assumes "env_conns Q E" "connectInOrder E url pp start e = ((Some c, er), pp', e')"
  shows "Q c"
proof -
  obtain c1 pp1 sk er1 e1 where ol: "order_loop E url (map (\<lambda>i. (start + i) mod length pp) [0..<length pp])
      pp [] False None e = (c1, pp1, sk, er1, e1)" by (metis prod_cases5)
  then show ?thesis
    using assms order_loop_conn [OF assms(1)] skipped_loop_conn [OF assms(1)]
    by (cases c1) (auto simp: connectInOrder_def Let_def no_parent_def split: if_splits)
qed

lemma lat_loop_conn:
  assumes "env_conns Q E" "lat_loop E url lp pp sk tried er e = (Some c, pp', sk', er', e')"
  shows "Q c"
  using assms(2)
proof (induction lp arbitrary: pp sk tried er e)
  case (Cons p lp)
  obtain ha he where h: "env_hpool E url e = (ha, he)" by fastforce
  obtain ca ce where c: "env_connect E (pl_parent p) url e = (ca, ce)" by fastforce
  from Cons.prems h c assms(1) show ?case
    by (cases ha; cases ca) (auto split: if_splits intro: Cons.IH env_connsD)
qed simp

lemma lat_skipped_conn:
  assumes "env_conns Q E" "lat_skipped E url ps er e = ((Some c, er'), e')"
  shows "Q c"
  using assms(2)
proof (induction ps arbitrary: er e)
  case (Cons p ps)
  obtain ca ce where c: "env_connect E p url e = (ca, ce)" by fastforce
  from Cons.prems c assms(1) show ?case by (cases ca) (auto intro: Cons.IH env_connsD)
qed simp

lemma parentProxy_connect_conn:
  assumes "env_conns Q E" "parentProxy_connect E url p e = ((Some c, er), p', e')"
  shows "Q c"
proof (cases p)
  case (latencyParentPool pp)
  obtain c1 pp1 sk er1 e1 where ol: "lat_loop E url pp pp [] False None e = (c1, pp1, sk, er1, e1)"
    by (metis prod_cases5)
  then show ?thesis
    using assms latencyParentPool lat_loop_conn [OF assms(1)] lat_skipped_conn [OF assms(1)]
    by (cases c1) (auto simp: latency_connect_def no_parent_def split: if_splits prod.splits)
qed (use assms(2) connectInOrder_conn [OF assms(1)] in
      \<open>auto simp: backup_connect_def hash_connect_def split: prod.splits\<close>)

section \<open>Choosing the pool\<close>

datatype LoadBalanceMode = loadBalanceBackup | loadBalanceHash | loadBalanceLatency

text \<open>
  \<open>initParentPool\<close> returns the pool, the load balance mode that is left in the configuration, and
  whether the probing of HTTP parents is started.
\<close>

definition initParentPool ::
    "LoadBalanceMode \<Rightarrow> nat \<Rightarrow> parent_pool \<Rightarrow> (parent_pool \<times> LoadBalanceMode \<times> bool) may_panic" where
  "initParentPool mode httpParents p =
     (case p of
        backupParentPool pp \<Rightarrow>
          (if length pp = 0 then Inr (p, mode, False)
           else
             (let mode1 = (if length pp = 1 \<and> mode \<noteq> loadBalanceBackup then loadBalanceBackup else mode)
              in Inr ((case mode1 of
                         loadBalanceHash \<Rightarrow> hashParentPool pp
                       | loadBalanceLatency \<Rightarrow> latencyParentPool (newLatencyParentPool pp)
                       | loadBalanceBackup \<Rightarrow> p), mode1, 0 < httpParents)))
      | _ \<Rightarrow> Inl ''initial parent pool should be backup pool'')"

lemma newLatencyParentPool_parents: "map pl_parent (newLatencyParentPool pp) = map pw_parent pp"
proof -
  have "map pl_parent (fold (\<lambda>p. lat_add (pw_parent p)) pp acc) = map pl_parent acc @ map pw_parent pp" for acc
    by (induction pp arbitrary: acc) (auto simp: lat_add_def)
  then show ?thesis by (simp add: newLatencyParentPool_def)
qed

text \<open>What the latency pool tries when everything fails, in the environments that record it.\<close>

lemma lat_loop_order:
  assumes "logged_env E log" "\<forall>p \<in> set lp. \<not> isHTTPParent (pl_parent p) \<and> pl_latency p < latencyMax"
    "lat_loop E url lp pp sk tried er e = (None, pp', sk', er', e')"
  shows "log e' = log e @ map (\<lambda>p. Tried (pl_parent p)) lp \<and> sk' = sk"
  using assms(2,3)
proof (induction lp arbitrary: pp tried er e)
  case (Cons p lp)
  obtain ca ce where c: "env_connect E (pl_parent p) url e = (ca, ce)" by fastforce
  have p: "\<not> isHTTPParent (pl_parent p)" "\<not> latencyMax \<le> pl_latency p" using Cons.prems(1) by auto
  obtain x where "ca = Inl x" using Cons.prems(2) c p by (cases ca) auto
  with Cons.prems(2) c p have "lat_loop E url lp (setLatency (getServer (pl_parent p)) latencyMax pp)
      sk tried (Some x) ce = (None, pp', sk', er', e')" by simp
  from Cons.IH [OF _ this] Cons.prems(1) logged_env.connect_log [OF assms(1) c] show ?case by simp
qed simp

text \<open>\<open>updateLatency\<close> sorts the parents by their measured latency, parents with equal latency
  keeping their order, and the next \<open>connect\<close> tries them in exactly this order: if none of them
  answers, the attempts are the parents in the order of their latency, and the result is an error.\<close>

theorem latency_pool_order:
  assumes "logged_env E log" "pp \<noteq> []"
    "\<forall>p \<in> set (lat_updateLatency m pp). \<not> isHTTPParent (pl_parent p) \<and> pl_latency p < latencyMax"
    "latency_connect E url (lat_updateLatency m pp) e = ((None, Some x), pp', e')"
  shows "sorted (map pl_latency (lat_updateLatency m pp)) \<and>
    mset (map pl_parent (lat_updateLatency m pp)) = mset (map pl_parent pp) \<and>
    (\<forall>l. filter (\<lambda>p. pl_latency p = l) (lat_updateLatency m pp) =
       filter (\<lambda>p. pl_latency p = l) (map (\<lambda>p. updateLatency1 (m (pl_parent p)) p) pp)) \<and>
    log e' = log e @ map (\<lambda>p. Tried (pl_parent p)) (lat_updateLatency m pp)"
proof -
  let ?pp = "lat_updateLatency m pp"
  have keep: "pl_parent (updateLatency1 d p) = pl_parent p" for d p
    by (simp add: updateLatency1_def split: sum.splits)
  have "mset (map pl_parent ?pp) = mset (map pl_parent pp)"
    by (simp add: lat_updateLatency_def keep comp_def image_mset.compositionality)
  moreover have "sorted (map pl_latency ?pp)" by (simp add: lat_updateLatency_def)
  moreover have "filter (\<lambda>p. pl_latency p = l) ?pp =
       filter (\<lambda>p. pl_latency p = l) (map (\<lambda>p. updateLatency1 (m (pl_parent p)) p) pp)" for l
    unfolding lat_updateLatency_def by (rule sort_key_stable)
  moreover have "log e' = log e @ map (\<lambda>p. Tried (pl_parent p)) ?pp"
  proof -
    obtain c pp1 sk er e1 where ol: "lat_loop E url ?pp ?pp [] False None e = (c, pp1, sk, er, e1)"
      by (metis prod_cases5)
    have ne: "?pp \<noteq> []" using assms(2) length_sort [of pl_latency "map (\<lambda>p. updateLatency1 (m (pl_parent p)) p) pp"]
      unfolding lat_updateLatency_def by (metis length_0_conv length_map)
    have c: "c = None" using assms(4) ol ne by (cases c) (auto simp: latency_connect_def)
    have "log e1 = log e @ map (\<lambda>p. Tried (pl_parent p)) ?pp" "sk = []"
      using lat_loop_order [OF assms(1,3) ol [unfolded c]] by auto
    then show ?thesis using assms(4) ol c ne by (auto simp: latency_connect_def)
  qed
  ultimately show ?thesis by blast
qed

theorem latency_pool_order_witness:
  "\<exists>pp' tr. latency_connect (trace_env (\<lambda>p. Inl EOF) (\<lambda>u. Inl EOF) (\<lambda>n k. 0) False) empty_URL
       (lat_updateLatency (\<lambda>p. Inr [Inr (if getServer p = ''a:1'' then 90 else 30), Inr 0, Inr 0])
          [\<lparr>pl_parent = socksParent ''a:1'' [] [], pl_latency = 0\<rparr>,
           \<lparr>pl_parent = socksParent ''b:1'' [] [], pl_latency = 0\<rparr>]) [] = ((None, Some EOF), pp', tr) \<and>
     tr = [Tried (socksParent ''b:1'' [] []), Tried (socksParent ''a:1'' [] [])]"
proof -
  let ?E = "trace_env (\<lambda>p. Inl EOF) (\<lambda>u. Inl EOF) (\<lambda>n k. 0) False"
  let ?m = "\<lambda>p. Inr [Inr (if getServer p = ''a:1'' then 90 else 30), Inr 0, Inr 0]"
  let ?pp = "[\<lparr>pl_parent = socksParent ''a:1'' [] [], pl_latency = 0\<rparr>,
           \<lparr>pl_parent = socksParent ''b:1'' [] [], pl_latency = 0\<rparr>]"
  have u: "lat_updateLatency ?m ?pp = [\<lparr>pl_parent = socksParent ''b:1'' [] [], pl_latency = 10\<rparr>,
      \<lparr>pl_parent = socksParent ''a:1'' [] [], pl_latency = 30\<rparr>]"
    by (simp add: lat_updateLatency_def updateLatency1_def)
  obtain res pp' tr where r: "latency_connect ?E empty_URL (lat_updateLatency ?m ?pp) [] = (res, pp', tr)"
    by (metis prod_cases3)
  then have res: "res = (None, Some EOF)"
    by (simp add: u latency_connect_def trace_env_def isHTTPParent_def latencyMax_def hour_def minute_def
        second_def)
  have "\<forall>p \<in> set (lat_updateLatency ?m ?pp). \<not> isHTTPParent (pl_parent p) \<and> pl_latency p < latencyMax"
    by (simp add: u isHTTPParent_def latencyMax_def hour_def minute_def second_def)
  from latency_pool_order [OF traced.logged_env_axioms _ this r [unfolded res]] r res show ?thesis
    by (simp add: u)
qed

section \<open>The pool of HTTP parents\<close>

record httpParentNode =
  hn_parent :: ParentProxy
  hn_latency :: duration
  hn_available :: bool

text \<open>Nodes are referred to by their position; \<open>hp_available\<close> is the slice \<open>available\<close>.\<close>

record httpParentPool =
  hp_nodes :: "httpParentNode list"
  hp_available :: "nat list"

definition newHTTPParentPool :: httpParentPool where
  "newHTTPParentPool = \<lparr>hp_nodes = [], hp_available = []\<rparr>"

definition hp_add :: "ParentProxy \<Rightarrow> httpParentPool \<Rightarrow> httpParentPool" where
  "hp_add parent pp = pp \<lparr>hp_nodes := hp_nodes pp @
     [\<lparr>hn_parent = parent, hn_latency = 0, hn_available = False\<rparr>]\<rparr>"

definition hp_size :: "httpParentPool \<Rightarrow> nat" where
  "hp_size pp = length (hp_nodes pp)"

text \<open>What a probe reports: \<open>probeNode\<close> returns \<open>latencyMax\<close> with its error.\<close>

definition probe_latency :: "err + duration \<Rightarrow> duration" where
  "probe_latency r = (case r of Inl e \<Rightarrow> latencyMax | Inr d \<Rightarrow> d)"

text \<open>
  \<open>updateAvailable\<close> with the results in the order in which the probes complete.
\<close>

fun apply_probes ::
    "(nat \<times> (err + duration)) list \<Rightarrow> httpParentNode list \<Rightarrow> nat list \<Rightarrow> httpParentNode list \<times> nat list" where
  "apply_probes [] nodes available = (nodes, available)"
| "apply_probes ((i, r) # res) nodes available =
     apply_probes res
       (nodes[i := (nodes ! i) \<lparr>hn_latency := probe_latency r, hn_available := \<not> isl r\<rparr>])
       (if \<not> isl r then available @ [i] else available)"

definition updateAvailable ::
    "(nat \<times> (err + duration)) list \<Rightarrow> httpParentPool \<Rightarrow> httpParentPool" where
  "updateAvailable results pp =
     (if length (hp_nodes pp) = 0 then pp
      else
        (case apply_probes results (hp_nodes pp) [] of
           (nodes, available) \<Rightarrow>
             \<lparr>hp_nodes = nodes, hp_available = sort_key (\<lambda>i. hn_latency (nodes ! i)) available\<rparr>))"

definition markUnavailable :: "nat \<Rightarrow> httpParentPool \<Rightarrow> httpParentPool" where
  "markUnavailable i pp =
     \<lparr>hp_nodes = (hp_nodes pp)[i := (hp_nodes pp ! i) \<lparr>hn_available := False, hn_latency := latencyMax\<rparr>],
      hp_available = filter (\<lambda>j. j \<noteq> i) (hp_available pp)\<rparr>"

text \<open>\<open>dial\<close> and \<open>probes\<close> are the network: dialling a parent, and probing all nodes.\<close>

fun hp_dial_loop ::
    "(ParentProxy \<Rightarrow> URL \<Rightarrow> 'e \<Rightarrow> (err + net_conn) \<times> 'e) \<Rightarrow> URL \<Rightarrow> nat list \<Rightarrow> httpParentPool \<Rightarrow>
     err option \<Rightarrow> 'e \<Rightarrow> conn_result \<times> httpParentPool \<times> 'e" where
  "hp_dial_loop dial url [] pp er e = ((None, er), pp, e)"
| "hp_dial_loop dial url (i # is) pp er e =
     (case dial (hn_parent (hp_nodes pp ! i)) url e of
        (Inr c, e1) \<Rightarrow> ((Some c, None), pp, e1)
      | (Inl x, e1) \<Rightarrow> hp_dial_loop dial url is (markUnavailable i pp) (Some x) e1)"

definition hp_connect ::
    "(ParentProxy \<Rightarrow> URL \<Rightarrow> 'e \<Rightarrow> (err + net_conn) \<times> 'e) \<Rightarrow>
     (httpParentPool \<Rightarrow> 'e \<Rightarrow> (nat \<times> (err + duration)) list \<times> 'e) \<Rightarrow>
     URL \<Rightarrow> httpParentPool \<Rightarrow> 'e \<Rightarrow> conn_result \<times> httpParentPool \<times> 'e" where
  "hp_connect dial probes url pp e =
     (if hp_size pp = 0 then ((None, Some (ErrorString ''no http parent proxy'')), pp, e)
      else
        (let (pp1, e1) = (if hp_available pp = []
                          then (case probes pp e of (res, e1) \<Rightarrow> (updateAvailable res pp, e1))
                          else (pp, e))
         in if hp_available pp1 = []
            then ((None, Some (ErrorString ''no available http parent proxy'')), pp1, e1)
            else hp_dial_loop dial url (hp_available pp1) pp1 None e1))"

text \<open>The invariant: the available nodes, each once, in the order of their latency.\<close>

definition hp_ok :: "httpParentPool \<Rightarrow> bool" where
  "hp_ok pp \<longleftrightarrow> distinct (hp_available pp) \<and>
     (\<forall>i. i \<in> set (hp_available pp) \<longleftrightarrow> i < hp_size pp \<and> hn_available (hp_nodes pp ! i)) \<and>
     sorted (map (\<lambda>i. hn_latency (hp_nodes pp ! i)) (hp_available pp))"

text \<open>A complete round of probes reports once for every node.\<close>

definition full_round :: "(nat \<times> (err + duration)) list \<Rightarrow> httpParentPool \<Rightarrow> bool" where
  "full_round res pp \<longleftrightarrow> distinct (map fst res) \<and> set (map fst res) = {..<hp_size pp}"

lemma apply_probes_spec:
  assumes "apply_probes res nodes av = (nodes', av')" "distinct (map fst res)"
    "\<forall>i \<in> fst ` set res. i < length nodes"
  shows "length nodes' = length nodes \<and> map hn_parent nodes' = map hn_parent nodes \<and>
    av' = av @ map fst (filter (\<lambda>(i, r). \<not> isl r) res) \<and>
    (\<forall>i < length nodes. hn_available (nodes' ! i) =
       (case map_of res i of None \<Rightarrow> hn_available (nodes ! i) | Some r \<Rightarrow> \<not> isl r))"
  using assms
proof (induction res nodes av rule: apply_probes.induct)
  case (2 i r res nodes av)
  let ?n = "nodes[i := (nodes ! i) \<lparr>hn_latency := probe_latency r, hn_available := \<not> isl r\<rparr>]"
  have i: "i < length nodes" "i \<notin> fst ` set res" using "2.prems"(2,3) by auto
  have pa: "map hn_parent ?n = map hn_parent nodes" using i(1)
    by (simp add: list_eq_iff_nth_eq nth_list_update)
  have none: "map_of res i = None" using i(2) by (simp add: map_of_eq_None_iff)
  show ?case using 2 i pa none by (auto simp: nth_list_update split: option.splits)
qed auto

lemma hp_ok_new: "hp_ok newHTTPParentPool"
  by (simp add: hp_ok_def newHTTPParentPool_def hp_size_def)

lemma hp_ok_add:
  assumes "hp_ok pp"
  shows "hp_ok (hp_add p pp)"
proof -
  have "map (\<lambda>i. hn_latency (hp_nodes (hp_add p pp) ! i)) (hp_available pp) =
      map (\<lambda>i. hn_latency (hp_nodes pp ! i)) (hp_available pp)"
    using assms by (simp add: hp_ok_def hp_add_def hp_size_def nth_append)
  moreover have "i \<in> set (hp_available pp) \<longleftrightarrow>
      i < hp_size (hp_add p pp) \<and> hn_available (hp_nodes (hp_add p pp) ! i)" for i
    using assms by (cases "i = hp_size pp") (auto simp: hp_ok_def hp_add_def hp_size_def nth_append)
  moreover have "hp_available (hp_add p pp) = hp_available pp" by (simp add: hp_add_def)
  ultimately show ?thesis using assms unfolding hp_ok_def by metis
qed

lemma hp_ok_updateAvailable:
  assumes "hp_ok pp" "full_round res pp"
  shows "hp_ok (updateAvailable res pp) \<and> map hn_parent (hp_nodes (updateAvailable res pp)) = map hn_parent (hp_nodes pp)"
proof (cases "hp_size pp = 0")
  case True
  then show ?thesis using assms by (simp add: updateAvailable_def hp_size_def)
next
  case False
  obtain nodes av where ap: "apply_probes res (hp_nodes pp) [] = (nodes, av)" by fastforce
  have d: "distinct (map fst res)" and r: "set (map fst res) = {..<hp_size pp}"
    using assms(2) by (auto simp: full_round_def)
  have sp: "length nodes = hp_size pp" "map hn_parent nodes = map hn_parent (hp_nodes pp)"
      "av = map fst (filter (\<lambda>(i, r). \<not> isl r) res)"
      "\<And>i. i < hp_size pp \<Longrightarrow> hn_available (nodes ! i) =
         (case map_of res i of None \<Rightarrow> hn_available (hp_nodes pp ! i) | Some r \<Rightarrow> \<not> isl r)"
    using apply_probes_spec [OF ap d] r by (auto simp: hp_size_def)
  have "distinct av" using d sp(3) by (simp add: distinct_map_filter)
  moreover have "i \<in> set av \<longleftrightarrow> i < hp_size pp \<and> hn_available (nodes ! i)" for i
  proof -
    have "i \<in> set av \<longleftrightarrow> (\<exists>r. (i, r) \<in> set res \<and> \<not> isl r)" using sp(3) by force
    also have "\<dots> \<longleftrightarrow> (\<exists>r. map_of res i = Some r \<and> \<not> isl r)" using d by (metis map_of_eq_Some_iff)
    also have "\<dots> \<longleftrightarrow> i < hp_size pp \<and> hn_available (nodes ! i)"
    proof (cases "map_of res i")
      case None
      then have "\<not> i < hp_size pp" using r by (metis lessThan_iff list.set_map map_of_eq_None_iff)
      then show ?thesis using None by simp
    next
      case (Some x)
      then have "i < hp_size pp" using r by (metis image_eqI lessThan_iff list.set_map map_of_SomeD fst_conv)
      then show ?thesis using Some sp(4) by simp
    qed
    finally show ?thesis .
  qed
  ultimately show ?thesis using False ap sp(1,2)
    by (simp add: updateAvailable_def hp_ok_def hp_size_def)
qed

lemma hp_ok_markUnavailable:
  assumes "hp_ok pp" "i < hp_size pp"
  shows "hp_ok (markUnavailable i pp)"
    "map hn_parent (hp_nodes (markUnavailable i pp)) = map hn_parent (hp_nodes pp)"
    "hp_size (markUnavailable i pp) = hp_size pp"
proof -
  have n: "hp_nodes (markUnavailable i pp) ! j = hp_nodes pp ! j" if "j \<noteq> i" for j
    using that by (simp add: markUnavailable_def)
  have "map (\<lambda>j. hn_latency (hp_nodes (markUnavailable i pp) ! j)) (filter (\<lambda>j. j \<noteq> i) xs) =
      map (\<lambda>j. hn_latency (hp_nodes pp ! j)) (filter (\<lambda>j. j \<noteq> i) xs)" for xs
    using n by simp
  moreover have "sorted (map (\<lambda>j. hn_latency (hp_nodes pp ! j)) (filter (\<lambda>j. j \<noteq> i) (hp_available pp)))"
    using assms(1) by (simp add: hp_ok_def sorted_filter)
  moreover have "j \<in> set (filter (\<lambda>j. j \<noteq> i) (hp_available pp)) \<longleftrightarrow>
      j < hp_size (markUnavailable i pp) \<and> hn_available (hp_nodes (markUnavailable i pp) ! j)" for j
    using assms by (cases "j = i") (simp_all add: hp_ok_def markUnavailable_def hp_size_def)
  moreover have "hp_available (markUnavailable i pp) = filter (\<lambda>j. j \<noteq> i) (hp_available pp)"
    by (simp add: markUnavailable_def)
  ultimately show "hp_ok (markUnavailable i pp)"
    using assms(1) unfolding hp_ok_def by (simp only: distinct_filter) simp
  show "map hn_parent (hp_nodes (markUnavailable i pp)) = map hn_parent (hp_nodes pp)"
    using assms(2) by (simp add: markUnavailable_def hp_size_def list_eq_iff_nth_eq nth_list_update)
  show "hp_size (markUnavailable i pp) = hp_size pp" by (simp add: markUnavailable_def hp_size_def)
qed

lemma hp_dial_loop_ok:
  assumes "hp_dial_loop dial url is pp er e = (res, pp', e')" "hp_ok pp" "set is \<subseteq> {..<hp_size pp}"
    "is \<noteq> [] \<or> er \<noteq> None"
  shows "hp_ok pp' \<and> map hn_parent (hp_nodes pp') = map hn_parent (hp_nodes pp) \<and>
    ((\<exists>c. res = (Some c, None)) \<or>
     (\<exists>x. res = (None, Some x) \<and> hp_available pp' = filter (\<lambda>j. j \<notin> set is) (hp_available pp)))"
  using assms
proof (induction "is" arbitrary: pp er e)
  case (Cons i "is")
  obtain a e1 where d: "dial (hn_parent (hp_nodes pp ! i)) url e = (a, e1)" by fastforce
  have i: "i < hp_size pp" "set is \<subseteq> {..<hp_size pp}" using Cons.prems(3) by auto
  note mk = hp_ok_markUnavailable [OF Cons.prems(2) i(1)]
  show ?case
  proof (cases a)
    case (Inl x)
    with Cons.prems(1) d have "hp_dial_loop dial url is (markUnavailable i pp) (Some x) e1 = (res, pp', e')" by simp
    from Cons.IH [OF this mk(1)] i(2) mk show ?thesis
      by (auto simp: markUnavailable_def intro!: filter_cong)
  next
    case (Inr c)
    with Cons.prems(1,2) d show ?thesis by auto
  qed
qed auto

text \<open>The pool of HTTP parents keeps the list of available nodes free of duplicates, exact and
  sorted by latency through every operation; \<open>connect\<close> returns a connection or an error, keeps the
  parents, and returns an error only after every node it considered available was tried and is
  marked unavailable.\<close>

theorem http_parent_pool_connect:
  assumes "hp_ok pp" "\<And>pp e res e'. probes pp e = (res, e') \<Longrightarrow> full_round res pp"
    "hp_connect dial probes url pp e = (res, pp', e')"
  shows "hp_ok pp' \<and> map hn_parent (hp_nodes pp') = map hn_parent (hp_nodes pp) \<and>
    ((\<exists>c. res = (Some c, None)) \<or> (\<exists>x. res = (None, Some x) \<and> hp_available pp' = []))"
proof (cases "hp_size pp = 0")
  case True
  then have "hp_available pp = []" using assms(1) by (cases "hp_available pp") (auto simp: hp_ok_def)
  with True assms(1,3) show ?thesis by (auto simp: hp_connect_def)
next
  case False
  obtain pp1 e1 where p1: "(if hp_available pp = []
      then (case probes pp e of (res, e1) \<Rightarrow> (updateAvailable res pp, e1)) else (pp, e)) = (pp1, e1)" by fastforce
  have ok1: "hp_ok pp1" "map hn_parent (hp_nodes pp1) = map hn_parent (hp_nodes pp)"
    using p1 assms(1) hp_ok_updateAvailable [OF assms(1)] assms(2) [of pp e]
    by (auto split: if_splits prod.splits)
  show ?thesis
  proof (cases "hp_available pp1 = []")
    case True
    then show ?thesis using False p1 assms(3) ok1 by (auto simp: hp_connect_def)
  next
    case ne: False
    have "hp_dial_loop dial url (hp_available pp1) pp1 None e1 = (res, pp', e')"
      using False p1 assms(3) ne by (simp add: hp_connect_def)
    moreover have "set (hp_available pp1) \<subseteq> {..<hp_size pp1}" using ok1(1) by (auto simp: hp_ok_def)
    ultimately show ?thesis using hp_dial_loop_ok [of dial url _ pp1 None e1 res pp' e'] ok1 ne by auto
  qed
qed

theorem http_parent_pool_connect_witness:
  "\<exists>res pp' e'. hp_connect (\<lambda>p u (n :: nat). (Inl EOF, Suc n))
       (\<lambda>pp n. (map (\<lambda>i. (i, Inr 5)) [0..<hp_size pp], n)) empty_URL
       (hp_add (httpParent ''a:80'' [] None) (hp_add (httpParent ''b:80'' [] None) newHTTPParentPool)) 0 = (res, pp', e') \<and>
     hp_ok pp' \<and> ((\<exists>c. res = (Some c, None)) \<or> (\<exists>x. res = (None, Some x) \<and> hp_available pp' = []))"
proof -
  let ?p = "hp_add (httpParent ''a:80'' [] None) (hp_add (httpParent ''b:80'' [] None) newHTTPParentPool)"
  let ?pr = "\<lambda>pp (n :: nat). (map (\<lambda>i. (i, Inr 5)) [0..<hp_size pp], n)"
  have ok: "hp_ok ?p" by (intro hp_ok_add hp_ok_new)
  have fr: "full_round res pp" if "?pr pp e = (res, e')" for pp e e' and res :: "(nat \<times> (err + duration)) list"
    using that by (auto simp: full_round_def comp_def image_image lessThan_atLeast0)
  obtain res pp' e' where "hp_connect (\<lambda>p u (n :: nat). (Inl EOF, Suc n)) ?pr empty_URL ?p 0 = (res, pp', e')"
    by (metis prod_cases3)
  from this http_parent_pool_connect [OF ok fr this] show ?thesis by (intro exI conjI) auto
qed

end
