(* ===== verification/Conn_Pool.thy ===== *)
theory Conn_Pool
  imports Parent_Pools
begin

text \<open>
  The server connection of proxy.go, as far as the pool looks at it, and conn_pool.go.

  A channel is the queue of its elements; channels have an identity (their position in
  \<open>cp_chans\<close>), because the cleanup loop of a channel that was removed from the map still drains it.
  Connections that are closed are recorded in \<open>cp_closed\<close>. Every operation is one step; the loops
  of the source that receive from a channel until it is empty are recursions over its contents.
\<close>

section \<open>Server connections\<close>

datatype serverConnState = svConnected | svSendRecvResponse | svStopped

record serverConn =
  sv_Conn :: net_conn
  sv_hostPort :: bytes
  sv_state :: serverConnState
  willCloseOn :: time
  siteInfo :: vref
  visited :: bool
  tunneled :: bool

definition newServerConn :: "net_conn \<Rightarrow> bytes \<Rightarrow> vref \<Rightarrow> serverConn" where
  "newServerConn c hostPort si =
     \<lparr>sv_Conn = c, sv_hostPort = hostPort, sv_state = svConnected, willCloseOn = zeroTime,
      siteInfo = si, visited = False, tunneled = False\<rparr>"

definition isDirect :: "serverConn \<Rightarrow> bool" where
  "isDirect sv = (case sv_Conn sv of directConn _ \<Rightarrow> True | _ \<Rightarrow> False)"

definition mayBeClosed :: "time \<Rightarrow> serverConn \<Rightarrow> bool" where
  "mayBeClosed now sv = (case sv_Conn sv of cowConn _ _ \<Rightarrow> False | _ \<Rightarrow> willCloseOn sv < now)"

text \<open>Connections that support multiplexing: those to HTTP and cow parents.\<close>

definition isMux :: "serverConn \<Rightarrow> bool" where
  "isMux sv = (case sv_Conn sv of httpConn _ _ \<Rightarrow> True | cowConn _ _ \<Rightarrow> True | _ \<Rightarrow> False)"

section \<open>The pool\<close>

definition maxServerConnCnt :: nat where
  "maxServerConnCnt = 5"

record chan =
  ch_conns :: "serverConn list"
  ch_host :: bytes

record ConnPool =
  idleConn :: "bytes \<rightharpoonup> nat"
  cp_chans :: "chan list"
  muxConn :: "serverConn list"
  cp_closed :: "serverConn list"

definition emptyPool :: ConnPool where
  "emptyPool = \<lparr>idleConn = (\<lambda>_. None), cp_chans = [], muxConn = [], cp_closed = []\<rparr>"

text \<open>\<open>getConnFromChan\<close>: the connection, what is left in the channel, and what was closed.\<close>

fun getConnFromChan ::
    "time \<Rightarrow> serverConn list \<Rightarrow> serverConn option \<times> serverConn list \<times> serverConn list" where
  "getConnFromChan now [] = (None, [], [])"
| "getConnFromChan now (sv # ch) =
     (if mayBeClosed now sv
      then (case getConnFromChan now ch of (r, rest, closed) \<Rightarrow> (r, rest, sv # closed))
      else (Some sv, ch, []))"

text \<open>\<open>putConnToChan\<close> on a channel with capacity \<open>cap\<close>.\<close>

definition putConnToChan ::
    "nat \<Rightarrow> serverConn \<Rightarrow> serverConn list \<Rightarrow> serverConn list \<times> serverConn list" where
  "putConnToChan cap sv ch = (if length ch < cap then (ch @ [sv], []) else (ch, [sv]))"

definition set_chan :: "nat \<Rightarrow> serverConn list \<Rightarrow> ConnPool \<Rightarrow> ConnPool" where
  "set_chan i q cp = cp \<lparr>cp_chans := (cp_chans cp)[i := (cp_chans cp ! i) \<lparr>ch_conns := q\<rparr>]\<rparr>"

definition pool_close :: "serverConn list \<Rightarrow> ConnPool \<Rightarrow> ConnPool" where
  "pool_close svs cp = cp \<lparr>cp_closed := cp_closed cp @ svs\<rparr>"

definition Pool_Get ::
    "bool \<Rightarrow> time \<Rightarrow> bytes \<Rightarrow> bool \<Rightarrow> ConnPool \<Rightarrow> serverConn option \<times> ConnPool" where
  "Pool_Get alwaysProxy now hostPort asDirect cp =
     (let (sv, cp1) =
        (case idleConn cp hostPort of
           None \<Rightarrow> (None, cp)
         | Some i \<Rightarrow>
             (case getConnFromChan now (ch_conns (cp_chans cp ! i)) of
                (r, rest, closed) \<Rightarrow> (r, pool_close closed (set_chan i rest cp))))
      in if sv \<noteq> None then (sv, cp1)
         else if asDirect \<and> \<not> alwaysProxy then (None, cp1)
         else
           (case getConnFromChan now (muxConn cp1) of
              (r, rest, closed) \<Rightarrow> (r, pool_close closed (cp1 \<lparr>muxConn := rest\<rparr>))))"

definition Pool_Put :: "serverConn \<Rightarrow> ConnPool \<Rightarrow> ConnPool" where
  "Pool_Put sv cp =
     (if isMux sv then
        (case putConnToChan (maxServerConnCnt * 2) sv (muxConn cp) of
           (q, closed) \<Rightarrow> pool_close closed (cp \<lparr>muxConn := q\<rparr>))
      else
        (let (i, cp1) =
           (case idleConn cp (sv_hostPort sv) of
              Some i \<Rightarrow> (i, cp)
            | None \<Rightarrow>
                (length (cp_chans cp),
                 cp \<lparr>idleConn := (idleConn cp)(sv_hostPort sv \<mapsto> length (cp_chans cp)),
                     cp_chans := cp_chans cp @ [\<lparr>ch_conns = [], ch_host = sv_hostPort sv\<rparr>]\<rparr>))
         in case putConnToChan maxServerConnCnt sv (ch_conns (cp_chans cp1 ! i)) of
              (q, closed) \<Rightarrow> pool_close closed (set_chan i q cp1)))"

text \<open>
  The loop of \<open>closeServerConn\<close>: \<open>n\<close> rounds, each of which takes the first connection and closes
  it or puts it back at the end. The result says whether the channel was found empty.
\<close>

fun close_rounds ::
    "nat \<Rightarrow> time \<Rightarrow> bool \<Rightarrow> serverConn list \<Rightarrow> bool \<times> serverConn list \<times> serverConn list" where
  "close_rounds 0 now force ch = (False, ch, [])"
| "close_rounds (Suc n) now force [] = (True, [], [])"
| "close_rounds (Suc n) now force (sv # ch) =
     (if force \<or> mayBeClosed now sv
      then (case close_rounds n now force ch of (d, rest, closed) \<Rightarrow> (d, rest, sv # closed))
      else close_rounds n now force (ch @ [sv]))"

definition close_count :: "serverConn list \<Rightarrow> nat" where
  "close_count ch = (if length ch = 0 then 1 else length ch)"

text \<open>\<open>closeServerConn\<close> on a channel of a site, and on the channel of multiplexing connections.\<close>

definition closeServerConn :: "nat \<Rightarrow> bytes \<Rightarrow> time \<Rightarrow> bool \<Rightarrow> ConnPool \<Rightarrow> bool \<times> ConnPool" where
  "closeServerConn i hostPort now force cp =
     (let q = ch_conns (cp_chans cp ! i) in
      case close_rounds (close_count q) now force q of
        (done, rest, closed) \<Rightarrow>
          (let cp1 = pool_close closed (set_chan i rest cp)
           in (done, if done \<and> idleConn cp1 hostPort = Some i
                     then cp1 \<lparr>idleConn := (idleConn cp1)(hostPort := None)\<rparr> else cp1)))"

definition closeMuxConn :: "time \<Rightarrow> bool \<Rightarrow> ConnPool \<Rightarrow> bool \<times> ConnPool" where
  "closeMuxConn now force cp =
     (case close_rounds (close_count (muxConn cp)) now force (muxConn cp) of
        (done, rest, closed) \<Rightarrow> (done, pool_close closed (cp \<lparr>muxConn := rest\<rparr>)))"

text \<open>The map is iterated in the order \<open>hosts\<close>, which lists its keys.\<close>

definition CloseAll :: "bytes list \<Rightarrow> time \<Rightarrow> ConnPool \<Rightarrow> ConnPool" where
  "CloseAll hosts now cp =
     (let connCh = map (\<lambda>h. (h, the (idleConn cp h))) (filter (\<lambda>h. idleConn cp h \<noteq> None) hosts)
      in snd (closeMuxConn now True
           (fold (\<lambda>(h, i) cp. snd (closeServerConn i h now True cp)) connCh cp)))"

text \<open>The last part of \<open>closeStaleServerConn\<close>: everything left in the channel is closed.\<close>

definition drain :: "nat \<Rightarrow> ConnPool \<Rightarrow> ConnPool" where
  "drain i cp = pool_close (ch_conns (cp_chans cp ! i)) (set_chan i [] cp)"

section \<open>Invariants\<close>

definition pooled :: "ConnPool \<Rightarrow> serverConn multiset" where
  "pooled cp = mset (muxConn cp) + mset (concat (map ch_conns (cp_chans cp)))"

definition held :: "ConnPool \<Rightarrow> serverConn multiset" where
  "held cp = pooled cp + mset (cp_closed cp)"

definition chan_ok :: "chan \<Rightarrow> bool" where
  "chan_ok c \<longleftrightarrow> length (ch_conns c) \<le> maxServerConnCnt \<and>
     (\<forall>sv \<in> set (ch_conns c). \<not> isMux sv \<and> sv_hostPort sv = ch_host c)"

definition cp_ok :: "ConnPool \<Rightarrow> bool" where
  "cp_ok cp \<longleftrightarrow>
     length (muxConn cp) \<le> maxServerConnCnt * 2 \<and> (\<forall>sv \<in> set (muxConn cp). isMux sv) \<and>
     (\<forall>c \<in> set (cp_chans cp). chan_ok c) \<and>
     (\<forall>h i. idleConn cp h = Some i \<longrightarrow> i < length (cp_chans cp) \<and> ch_host (cp_chans cp ! i) = h)"

lemma getConnFromChan_spec:
  assumes "getConnFromChan now ch = (r, rest, closed)"
  shows "ch = closed @ (case r of None \<Rightarrow> [] | Some sv \<Rightarrow> [sv]) @ rest \<and>
    (\<forall>sv \<in> set closed. mayBeClosed now sv) \<and>
    (case r of None \<Rightarrow> rest = [] | Some sv \<Rightarrow> \<not> mayBeClosed now sv)"
  using assms
proof (induction ch arbitrary: r rest closed)
  case (Cons sv ch)
  obtain r1 rest1 closed1 where g: "getConnFromChan now ch = (r1, rest1, closed1)" by (metis prod_cases3)
  show ?case using Cons.IH [OF g] Cons.prems g by (auto split: if_splits)
qed auto

lemma close_rounds_spec:
  assumes "close_rounds n now force ch = (d, rest, closed)"
  shows "mset rest + mset closed = mset ch \<and> (d \<longrightarrow> rest = []) \<and>
    (\<forall>sv \<in> set closed. force \<or> mayBeClosed now sv)"
  using assms
proof (induction n now force ch arbitrary: d rest closed rule: close_rounds.induct)
  case (3 n now force sv ch)
  show ?case
  proof (cases "force \<or> mayBeClosed now sv")
    case True
    obtain d1 rest1 closed1 where g: "close_rounds n now force ch = (d1, rest1, closed1)" by (metis prod_cases3)
    from "3.IH"(1) [OF True g] "3.prems" g True show ?thesis by auto
  next
    case False
    from "3.IH"(2) [OF False, of d rest closed] "3.prems" False show ?thesis by auto
  qed
qed auto

lemma close_rounds_force:
  "length ch \<le> n \<Longrightarrow> close_rounds n now True ch = (length ch < n, [], ch)"
  by (induction ch arbitrary: n) (case_tac [!] n, auto)

lemma mset_concat_update:
  assumes "i < length cs"
  shows "mset (concat (map ch_conns (cs[i := (cs ! i) \<lparr>ch_conns := q\<rparr>]))) + mset (ch_conns (cs ! i)) =
    mset (concat (map ch_conns cs)) + mset q"
  using assms
proof (induction cs arbitrary: i)
  case (Cons c cs)
  then show ?case by (cases i) (auto simp: algebra_simps)
qed simp

lemma set_chan_simps [simp]:
  "muxConn (set_chan i q cp) = muxConn cp" "cp_closed (set_chan i q cp) = cp_closed cp"
  "idleConn (set_chan i q cp) = idleConn cp" "length (cp_chans (set_chan i q cp)) = length (cp_chans cp)"
  by (simp_all add: set_chan_def)

lemma pool_close_simps [simp]:
  "muxConn (pool_close s cp) = muxConn cp" "cp_closed (pool_close s cp) = cp_closed cp @ s"
  "idleConn (pool_close s cp) = idleConn cp" "cp_chans (pool_close s cp) = cp_chans cp"
  by (simp_all add: pool_close_def)

lemma held_set_chan:
  assumes "i < length (cp_chans cp)" "mset (ch_conns (cp_chans cp ! i)) = mset q + mset closed + M"
  shows "held (pool_close closed (set_chan i q cp)) + M = held cp"
proof -
  have c: "mset (concat (map ch_conns (cp_chans cp))) =
      mset (concat (map ch_conns (cp_chans (set_chan i q cp)))) + mset closed + M"
    using mset_concat_update [OF assms(1), of q] assms(2) by (simp add: set_chan_def algebra_simps)
  show ?thesis unfolding held_def pooled_def c by (simp add: ac_simps del: mset_concat)
qed

lemma held_mux:
  assumes "mset (muxConn cp) = mset q + mset closed + M"
  shows "held (pool_close closed (cp \<lparr>muxConn := q\<rparr>)) + M = held cp"
  using assms by (simp add: held_def pooled_def ac_simps)

text \<open>The invariant is kept when a channel gets fewer connections, and when one is added.\<close>

lemma cp_ok_set_chan:
  assumes "cp_ok cp" "i < length (cp_chans cp)" "length q \<le> maxServerConnCnt"
    "\<forall>sv \<in> set q. \<not> isMux sv \<and> sv_hostPort sv = ch_host (cp_chans cp ! i)"
  shows "cp_ok (set_chan i q cp)"
proof -
  have "chan_ok ((cp_chans cp ! i) \<lparr>ch_conns := q\<rparr>)" using assms(3,4) by (simp add: chan_ok_def)
  then have "\<forall>c \<in> set (cp_chans (set_chan i q cp)). chan_ok c"
    using assms(1) set_update_subset_insert [of "cp_chans cp" i "(cp_chans cp ! i) \<lparr>ch_conns := q\<rparr>"]
    by (auto simp: set_chan_def cp_ok_def)
  moreover have "ch_host (cp_chans (set_chan i q cp) ! j) = ch_host (cp_chans cp ! j)" for j
    using assms(2) by (cases "j = i") (simp_all add: set_chan_def)
  ultimately show ?thesis using assms by (auto simp: cp_ok_def)
qed

lemma cp_ok_pool_close [simp]: "cp_ok (pool_close s cp) = cp_ok cp"
  by (simp add: cp_ok_def)

lemma cp_ok_chan:
  assumes "cp_ok cp" "i < length (cp_chans cp)"
  shows "length (ch_conns (cp_chans cp ! i)) \<le> maxServerConnCnt"
    "\<And>sv. sv \<in> set (ch_conns (cp_chans cp ! i)) \<Longrightarrow> \<not> isMux sv \<and> sv_hostPort sv = ch_host (cp_chans cp ! i)"
  using assms nth_mem [OF assms(2)] by (auto simp: cp_ok_def chan_ok_def)

lemma cp_ok_mux:
  "cp_ok cp \<Longrightarrow> length q \<le> maxServerConnCnt * 2 \<Longrightarrow> \<forall>sv \<in> set q. isMux sv \<Longrightarrow> cp_ok (cp \<lparr>muxConn := q\<rparr>)"
  by (simp add: cp_ok_def)

lemma Pool_Get_ok:
  assumes "cp_ok cp" "Pool_Get ap now hp asDirect cp = (r, cp')"
  shows "cp_ok cp' \<and> held cp' + (case r of None \<Rightarrow> {#} | Some sv \<Rightarrow> {#sv#}) = held cp \<and>
    (\<forall>sv. r = Some sv \<longrightarrow> \<not> mayBeClosed now sv \<and>
       (\<not> isMux sv \<and> sv_hostPort sv = hp \<or> isMux sv \<and> (ap \<or> \<not> asDirect)))"
proof -
  obtain sv1 cp1 where g1: "(case idleConn cp hp of None \<Rightarrow> (None, cp)
      | Some i \<Rightarrow> (case getConnFromChan now (ch_conns (cp_chans cp ! i)) of
          (r, rest, closed) \<Rightarrow> (r, pool_close closed (set_chan i rest cp)))) = (sv1, cp1)" by fastforce
  have one: "cp_ok cp1 \<and> held cp1 + (case sv1 of None \<Rightarrow> {#} | Some sv \<Rightarrow> {#sv#}) = held cp \<and>
      (\<forall>sv. sv1 = Some sv \<longrightarrow> \<not> mayBeClosed now sv \<and> \<not> isMux sv \<and> sv_hostPort sv = hp)"
  proof (cases "idleConn cp hp")
    case None
    then show ?thesis using g1 assms(1) by auto
  next
    case (Some i)
    then have i: "i < length (cp_chans cp)" "ch_host (cp_chans cp ! i) = hp"
      using assms(1) by (auto simp: cp_ok_def)
    obtain rest closed where g: "getConnFromChan now (ch_conns (cp_chans cp ! i)) = (sv1, rest, closed)"
        "cp1 = pool_close closed (set_chan i rest cp)"
      using g1 Some by (auto split: prod.splits)
    note sp = getConnFromChan_spec [OF g(1)] and ch = cp_ok_chan [OF assms(1) i(1)]
    have sub: "set rest \<subseteq> set (ch_conns (cp_chans cp ! i))" "length rest \<le> length (ch_conns (cp_chans cp ! i))"
      using sp by (auto split: option.splits)
    have "mset (ch_conns (cp_chans cp ! i)) =
        mset rest + mset closed + (case sv1 of None \<Rightarrow> {#} | Some sv \<Rightarrow> {#sv#})"
      using sp by (auto split: option.splits)
    then have "held cp1 + (case sv1 of None \<Rightarrow> {#} | Some sv \<Rightarrow> {#sv#}) = held cp"
      unfolding g(2) by (rule held_set_chan [OF i(1)])
    moreover have "cp_ok cp1" unfolding g(2) using sub ch
      by (auto intro!: cp_ok_set_chan [OF assms(1) i(1)])
    moreover have "sv1 = Some sv \<Longrightarrow> sv \<in> set (ch_conns (cp_chans cp ! i))" for sv using sp by auto
    ultimately show ?thesis using sp ch i(2) by auto
  qed
  show ?thesis
  proof (cases "sv1 \<noteq> None \<or> asDirect \<and> \<not> ap")
    case True
    then show ?thesis using assms(2) g1 one by (auto simp: Pool_Get_def Let_def split: if_splits)
  next
    case False
    obtain rest closed where g: "getConnFromChan now (muxConn cp1) = (r, rest, closed)"
        "cp' = pool_close closed (cp1 \<lparr>muxConn := rest\<rparr>)"
      using assms(2) g1 False by (auto simp: Pool_Get_def Let_def split: prod.splits)
    note sp = getConnFromChan_spec [OF g(1)]
    have mx: "length (muxConn cp1) \<le> maxServerConnCnt * 2" "\<forall>sv \<in> set (muxConn cp1). isMux sv"
      using one by (auto simp: cp_ok_def)
    have "held cp' + (case r of None \<Rightarrow> {#} | Some sv \<Rightarrow> {#sv#}) = held cp1"
      unfolding g(2) using sp by (intro held_mux) (auto split: option.splits)
    moreover have "set rest \<subseteq> set (muxConn cp1)" "length rest \<le> length (muxConn cp1)" using sp by (auto split: option.splits)
    then have "cp_ok cp'" unfolding g(2) using one mx by (auto intro!: cp_ok_mux)
    moreover have "r = Some sv \<Longrightarrow> sv \<in> set (muxConn cp1)" for sv using sp by auto
    ultimately show ?thesis using one sp mx False by auto
  qed
qed

text \<open>\<open>Get\<close> only takes connections out of the pool.\<close>

lemma pooled_set:
  "set_mset (pooled cp) = set (muxConn cp) \<union> (\<Union>c \<in> set (cp_chans cp). set (ch_conns c))"
  by (auto simp: pooled_def)

lemma pooled_set_chan:
  assumes "i < length (cp_chans cp)" "set q \<subseteq> set (ch_conns (cp_chans cp ! i))"
  shows "set_mset (pooled (pool_close cl (set_chan i q cp))) \<subseteq> set_mset (pooled cp)"
proof -
  have "(\<Union>c \<in> set (cp_chans (set_chan i q cp)). set (ch_conns c)) \<subseteq> (\<Union>c \<in> set (cp_chans cp). set (ch_conns c))"
    using set_update_subset_insert [of "cp_chans cp" i "(cp_chans cp ! i) \<lparr>ch_conns := q\<rparr>"] assms
      nth_mem [OF assms(1)] by (fastforce simp: set_chan_def)
  then show ?thesis by (auto simp: pooled_set)
qed

lemma Pool_Get_pooled:
  assumes "cp_ok cp" "Pool_Get ap now hp asDirect cp = (r, cp')"
  shows "set_mset (pooled cp') \<subseteq> set_mset (pooled cp)" "r = Some sv \<Longrightarrow> sv \<in># pooled cp"
proof -
  obtain sv1 cp1 where g1: "(case idleConn cp hp of None \<Rightarrow> (None, cp)
      | Some i \<Rightarrow> (case getConnFromChan now (ch_conns (cp_chans cp ! i)) of
          (r, rest, closed) \<Rightarrow> (r, pool_close closed (set_chan i rest cp)))) = (sv1, cp1)" by fastforce
  have one: "set_mset (pooled cp1) \<subseteq> set_mset (pooled cp) \<and> (\<forall>s. sv1 = Some s \<longrightarrow> s \<in># pooled cp)"
  proof (cases "idleConn cp hp")
    case None
    then show ?thesis using g1 by auto
  next
    case (Some i)
    then have i: "i < length (cp_chans cp)" using assms(1) by (auto simp: cp_ok_def)
    obtain rest closed where g: "getConnFromChan now (ch_conns (cp_chans cp ! i)) = (sv1, rest, closed)"
        "cp1 = pool_close closed (set_chan i rest cp)"
      using g1 Some by (auto split: prod.splits)
    note sp = getConnFromChan_spec [OF g(1)]
    have "set rest \<subseteq> set (ch_conns (cp_chans cp ! i))" using sp by (auto split: option.splits)
    moreover have "sv1 = Some s \<Longrightarrow> s \<in> set (ch_conns (cp_chans cp ! i))" for s using sp by auto
    ultimately show ?thesis using pooled_set_chan [OF i] g(2) nth_mem [OF i] by (auto simp: pooled_set)
  qed
  have two: "set_mset (pooled cp') \<subseteq> set_mset (pooled cp1) \<and> (\<forall>s. r = Some s \<longrightarrow> sv1 = Some s \<or> s \<in># pooled cp1)"
  proof (cases "sv1 \<noteq> None \<or> asDirect \<and> \<not> ap")
    case True
    then show ?thesis using assms(2) g1 by (auto simp: Pool_Get_def Let_def split: if_splits)
  next
    case False
    obtain rest closed where g: "getConnFromChan now (muxConn cp1) = (r, rest, closed)"
        "cp' = pool_close closed (cp1 \<lparr>muxConn := rest\<rparr>)"
      using assms(2) g1 False by (auto simp: Pool_Get_def Let_def split: prod.splits)
    then show ?thesis using getConnFromChan_spec [OF g(1)] by (auto simp: pooled_set split: option.splits)
  qed
  show "set_mset (pooled cp') \<subseteq> set_mset (pooled cp)" using one two by blast
  show "r = Some sv \<Longrightarrow> sv \<in># pooled cp" using one two by blast
qed

lemma mset_exchange:
  fixes A A' X Q C S :: "'a multiset"
  assumes "A' + X = A + Q" "Q + C = X + S"
  shows "A' + C = A + S"
proof -
  have "A' + C + X = (A' + X) + C" by (simp only: ac_simps)
  also have "\<dots> = A + (Q + C)" unfolding assms(1) by (simp only: ac_simps)
  also have "\<dots> = A + S + X" unfolding assms(2) by (simp only: ac_simps)
  finally show ?thesis by simp
qed

lemma putConnToChan_spec:
  assumes "putConnToChan cap sv ch = (q, closed)" "length ch \<le> cap"
  shows "mset q + mset closed = mset ch + {#sv#} \<and> length q \<le> cap \<and> set q \<subseteq> insert sv (set ch)"
  using assms by (auto simp: putConnToChan_def split: if_splits)

lemma Pool_Put_ok:
  assumes "cp_ok cp"
  shows "cp_ok (Pool_Put sv cp) \<and> held (Pool_Put sv cp) = held cp + {#sv#}"
proof (cases "isMux sv")
  case True
  obtain q closed where p: "putConnToChan (maxServerConnCnt * 2) sv (muxConn cp) = (q, closed)" by fastforce
  have mx: "length (muxConn cp) \<le> maxServerConnCnt * 2" "\<forall>sv \<in> set (muxConn cp). isMux sv"
    using assms by (auto simp: cp_ok_def)
  note sp = putConnToChan_spec [OF p mx(1)]
  have "cp_ok (cp \<lparr>muxConn := q\<rparr>)" using assms sp mx True by (intro cp_ok_mux) auto
  moreover have "held (pool_close closed (cp \<lparr>muxConn := q\<rparr>)) = held cp + {#sv#}"
    using sp by (simp add: held_def pooled_def)
  ultimately show ?thesis using True p by (simp add: Pool_Put_def)
next
  case False
  obtain i cp1 where ch: "(case idleConn cp (sv_hostPort sv) of Some i \<Rightarrow> (i, cp)
      | None \<Rightarrow> (length (cp_chans cp),
          cp \<lparr>idleConn := (idleConn cp)(sv_hostPort sv \<mapsto> length (cp_chans cp)),
              cp_chans := cp_chans cp @ [\<lparr>ch_conns = [], ch_host = sv_hostPort sv\<rparr>]\<rparr>)) = (i, cp1)" by fastforce
  have i: "i < length (cp_chans cp1)" "ch_host (cp_chans cp1 ! i) = sv_hostPort sv"
    using ch assms by (auto simp: cp_ok_def split: option.splits)
  have ok1: "cp_ok cp1"
    using ch assms by (auto simp: cp_ok_def chan_ok_def nth_append split: option.splits if_splits)
      (metis less_SucI)+
  have held1: "held cp1 = held cp" using ch by (auto simp: held_def pooled_def split: option.splits)
  obtain q closed where p: "putConnToChan maxServerConnCnt sv (ch_conns (cp_chans cp1 ! i)) = (q, closed)" by fastforce
  note c = cp_ok_chan [OF ok1 i(1)]
  note sp = putConnToChan_spec [OF p c(1)]
  have "cp_ok (set_chan i q cp1)"
    using sp c(2) i(2) False by (intro cp_ok_set_chan [OF ok1 i(1)]) auto
  moreover have "held (pool_close closed (set_chan i q cp1)) = held cp1 + {#sv#}"
  proof -
    have "mset (concat (map ch_conns (cp_chans (set_chan i q cp1)))) + mset closed =
        mset (concat (map ch_conns (cp_chans cp1))) + {#sv#}"
      using mset_exchange [OF mset_concat_update [OF i(1), of q]] sp by (simp add: set_chan_def del: mset_concat)
    then show ?thesis
      unfolding held_def pooled_def by (simp del: mset_concat)
  qed
  ultimately show ?thesis using False ch p held1 by (simp add: Pool_Put_def)
qed

lemma close_rounds_chan:
  assumes "close_rounds n now force ch = (d, rest, closed)"
  shows "mset ch = mset rest + mset closed + {#}" "length rest \<le> length ch" "set rest \<subseteq> set ch"
proof -
  have m: "mset rest + mset closed = mset ch" using close_rounds_spec [OF assms] by simp
  then show "mset ch = mset rest + mset closed + {#}" by simp
  show "length rest \<le> length ch" by (metis m le_add1 size_mset size_union)
  show "set rest \<subseteq> set ch" by (metis m set_mset_mset set_mset_union sup_ge1)
qed

lemma closeServerConn_ok:
  assumes "cp_ok cp" "i < length (cp_chans cp)" "closeServerConn i hp now force cp = (d, cp')"
  shows "cp_ok cp' \<and> held cp' = held cp \<and> length (cp_chans cp') = length (cp_chans cp)"
proof -
  let ?q = "ch_conns (cp_chans cp ! i)"
  obtain rest closed where c: "close_rounds (close_count ?q) now force ?q = (d, rest, closed)"
    using assms(3) by (auto simp: closeServerConn_def Let_def split: prod.splits)
  define cp1 where "cp1 = pool_close closed (set_chan i rest cp)"
  have cp': "cp' = cp1 \<or> cp' = cp1 \<lparr>idleConn := (idleConn cp1)(hp := None)\<rparr>"
    using assms(3) c by (auto simp: closeServerConn_def Let_def cp1_def)
  note sp = close_rounds_chan [OF c] and ch = cp_ok_chan [OF assms(1,2)]
  have "cp_ok cp1" unfolding cp1_def using sp(2,3) ch by (auto intro!: cp_ok_set_chan [OF assms(1,2)])
  moreover have "held cp1 = held cp" unfolding cp1_def using held_set_chan [OF assms(2) sp(1)] by simp
  moreover have "length (cp_chans cp1) = length (cp_chans cp)" by (simp add: cp1_def)
  ultimately show ?thesis using cp' by (auto simp: cp_ok_def held_def pooled_def split: if_splits)
qed

lemma closeMuxConn_ok:
  assumes "cp_ok cp" "closeMuxConn now force cp = (d, cp')"
  shows "cp_ok cp' \<and> held cp' = held cp"
proof -
  obtain rest closed where c: "close_rounds (close_count (muxConn cp)) now force (muxConn cp) = (d, rest, closed)"
      "cp' = pool_close closed (cp \<lparr>muxConn := rest\<rparr>)"
    using assms(2) by (auto simp: closeMuxConn_def split: prod.splits)
  note sp = close_rounds_chan [OF c(1)]
  have "held cp' = held cp" unfolding c(2) using held_mux [OF sp(1)] by simp
  moreover have "cp_ok cp'" unfolding c(2) using assms(1) sp(2,3)
    by (auto intro!: cp_ok_mux simp: cp_ok_def)
  ultimately show ?thesis by simp
qed

lemma drain_ok:
  assumes "cp_ok cp" "i < length (cp_chans cp)"
  shows "cp_ok (drain i cp) \<and> held (drain i cp) = held cp"
proof -
  have "held (drain i cp) + {#} = held cp" unfolding drain_def by (rule held_set_chan [OF assms(2)]) simp
  moreover have "cp_ok (drain i cp)" unfolding drain_def using cp_ok_set_chan [OF assms, of "[]"] by simp
  ultimately show ?thesis by simp
qed

section \<open>Steps of the running pool\<close>

text \<open>
  The state is the pool with the connections that requests have taken out of it; a connection
  that is put was taken out before or is new.
\<close>

inductive pool_step :: "ConnPool \<Rightarrow> ConnPool \<Rightarrow> serverConn multiset \<Rightarrow> serverConn multiset \<Rightarrow> bool" where
  step_Get: "Pool_Get ap now hp asDirect cp = (r, cp') \<Longrightarrow>
     pool_step cp cp' {#} (case r of None \<Rightarrow> {#} | Some sv \<Rightarrow> {#sv#})"
| step_Put: "pool_step cp (Pool_Put sv cp) {#sv#} {#}"
| step_close: "i < length (cp_chans cp) \<Longrightarrow> closeServerConn i (ch_host (cp_chans cp ! i)) now force cp = (d, cp') \<Longrightarrow>
     pool_step cp cp' {#} {#}"
| step_closeMux: "closeMuxConn now force cp = (d, cp') \<Longrightarrow> pool_step cp cp' {#} {#}"
| step_drain: "i < length (cp_chans cp) \<Longrightarrow> pool_step cp (drain i cp) {#} {#}"

text \<open>A run, with all the connections that went in and all that came out.\<close>

inductive pool_run :: "ConnPool \<Rightarrow> serverConn multiset \<Rightarrow> serverConn multiset \<Rightarrow> bool" where
  run_start: "pool_run emptyPool {#} {#}"
| run_step: "pool_run cp ins outs \<Longrightarrow> pool_step cp cp' i out \<Longrightarrow> pool_run cp' (ins + i) (outs + out)"

inductive_cases pool_stepE: "pool_step cp cp' i out"

lemma pool_step_ok:
  assumes "pool_step cp cp' i out" "cp_ok cp"
  shows "cp_ok cp' \<and> held cp' + out = held cp + i"
  using assms(1)
proof (cases rule: pool_step.cases)
  case (step_Get ap now hp asDirect r)
  then show ?thesis using Pool_Get_ok [OF assms(2)] by simp
next
  case (step_Put sv)
  then show ?thesis using Pool_Put_ok [OF assms(2)] by simp
next
  case (step_close k now force d)
  then show ?thesis using closeServerConn_ok [OF assms(2)] by simp
next
  case (step_closeMux now force d)
  then show ?thesis using closeMuxConn_ok [OF assms(2)] by simp
next
  case (step_drain k)
  then show ?thesis using drain_ok [OF assms(2)] by simp
qed

lemma pool_run_ok: "pool_run cp ins outs \<Longrightarrow> cp_ok cp \<and> held cp + outs = ins"
proof (induction rule: pool_run.induct)
  case run_start
  then show ?case by (simp add: cp_ok_def emptyPool_def held_def pooled_def)
next
  case (run_step cp ins outs cp' i out)
  then have "cp_ok cp'" "held cp' + out = held cp + i" using pool_step_ok by auto
  moreover have "held cp' + (outs + out) = (held cp' + out) + outs" by (simp only: ac_simps)
  moreover have "(held cp + i) + outs = (held cp + outs) + i" by (simp only: ac_simps)
  ultimately show ?case using run_step by simp
qed

text \<open>A forced close empties the channel and leaves the others alone.\<close>

lemma closeServerConn_force:
  fixes now :: time and hp :: bytes
  assumes "i < length (cp_chans cp)"
  defines "cp' \<equiv> snd (closeServerConn i hp now True cp)"
  shows "length (cp_chans cp') = length (cp_chans cp)" "ch_conns (cp_chans cp' ! i) = []"
    "j \<noteq> i \<Longrightarrow> cp_chans cp' ! j = cp_chans cp ! j" "muxConn cp' = muxConn cp" "idleConn cp' \<subseteq>\<^sub>m idleConn cp"
proof -
  let ?q = "ch_conns (cp_chans cp ! i)"
  have "close_rounds (close_count ?q) now True ?q = (length ?q < close_count ?q, [], ?q)"
    by (rule close_rounds_force) (simp add: close_count_def)
  then show "length (cp_chans cp') = length (cp_chans cp)" "ch_conns (cp_chans cp' ! i) = []"
    "j \<noteq> i \<Longrightarrow> cp_chans cp' ! j = cp_chans cp ! j" "muxConn cp' = muxConn cp" "idleConn cp' \<subseteq>\<^sub>m idleConn cp"
    using assms(1) by (auto simp: cp'_def closeServerConn_def Let_def set_chan_def pool_close_def map_le_def)
qed

lemma CloseAll_fold:
  fixes now :: time
  assumes "\<forall>(h, i) \<in> set L. i < length (cp_chans cp)"
  defines "cp' \<equiv> fold (\<lambda>(h, i) cp. snd (closeServerConn i h now True cp)) L cp"
  shows "(\<forall>(h, i) \<in> set L. ch_conns (cp_chans cp' ! i) = []) \<and>
    (\<forall>j < length (cp_chans cp). ch_conns (cp_chans cp ! j) = [] \<longrightarrow> ch_conns (cp_chans cp' ! j) = []) \<and>
    idleConn cp' \<subseteq>\<^sub>m idleConn cp"
  using assms(1) unfolding cp'_def
proof (induction L arbitrary: cp)
  case (Cons a L)
  obtain h i where a: "a = (h, i)" by (cases a)
  define c1 where "c1 = snd (closeServerConn i h now True cp)"
  have i: "i < length (cp_chans cp)" using Cons.prems a by simp
  note f = closeServerConn_force [OF i, where now = now and hp = h, folded c1_def]
  have pr: "\<forall>(h, i) \<in> set L. i < length (cp_chans c1)" using Cons.prems f(1) by auto
  have e: "ch_conns (cp_chans c1 ! j) = []" if "ch_conns (cp_chans cp ! j) = [] \<or> j = i" for j
    using f(2,3) that by metis
  from Cons.IH [OF pr] f(1,5) e i show ?case
    by (auto simp: a simp flip: c1_def intro: map_le_trans)
qed simp

section \<open>Properties\<close>


definition ex_conn :: serverConn where
  "ex_conn = (newServerConn (directConn 1) ''a.com:80'' (SiteRef ''a.com'')) \<lparr>willCloseOn := 10\<rparr>"

lemma ex_pool_run: "pool_run (Pool_Put ex_conn emptyPool) {#ex_conn#} {#}"
  using run_step [OF run_start step_Put [of emptyPool ex_conn]] by simp


text \<open>C20: \<open>Get\<close> hands out only connections that have not expired, and the right ones: a connection of
  that very host and port, or a connection to an HTTP or cow parent, which a site that is direct
  never gets unless every request goes through a parent. So a direct site never uses a parent by
  way of the pool.\<close>

theorem pool_Get_right_connection:
  assumes "pool_run cp ins outs" "Pool_Get alwaysProxy now hostPort asDirect cp = (Some sv, cp')"
  shows "\<not> mayBeClosed now sv \<and>
    (\<not> isMux sv \<and> sv_hostPort sv = hostPort \<or> isMux sv \<and> (alwaysProxy \<or> \<not> asDirect))"
  using Pool_Get_ok [OF _ assms(2)] pool_run_ok [OF assms(1)] by blast

theorem pool_Get_right_connection_witness:
  "\<exists>cp'. Pool_Get False 5 ''a.com:80'' True (Pool_Put ex_conn emptyPool) = (Some ex_conn, cp') \<and>
     \<not> mayBeClosed 5 ex_conn \<and> sv_hostPort ex_conn = ''a.com:80''"
proof -
  have "\<exists>cp'. Pool_Get False 5 ''a.com:80'' True (Pool_Put ex_conn emptyPool) = (Some ex_conn, cp')"
    by (simp add: Pool_Get_def Pool_Put_def emptyPool_def ex_conn_def newServerConn_def isMux_def
        putConnToChan_def maxServerConnCnt_def set_chan_def pool_close_def mayBeClosed_def)
  then obtain cp' where g: "Pool_Get False 5 ''a.com:80'' True (Pool_Put ex_conn emptyPool) = (Some ex_conn, cp')" by blast
  with pool_Get_right_connection [OF ex_pool_run g] show ?thesis
    by (auto simp: ex_conn_def newServerConn_def isMux_def)
qed

text \<open>After \<open>CloseAll\<close>, with the keys of the map listed, no channel in the map and not the channel
  of multiplexing connections holds a connection any more.\<close>

theorem CloseAll_closes_all:
  assumes "cp_ok cp" "\<forall>h. idleConn cp h \<noteq> None \<longrightarrow> h \<in> set hosts"
  shows "muxConn (CloseAll hosts now cp) = [] \<and>
    (\<forall>h i. idleConn (CloseAll hosts now cp) h = Some i \<longrightarrow>
       ch_conns (cp_chans (CloseAll hosts now cp) ! i) = [])"
proof -
  define L where "L = map (\<lambda>h. (h, the (idleConn cp h))) (filter (\<lambda>h. idleConn cp h \<noteq> None) hosts)"
  define c1 where "c1 = fold (\<lambda>(h, i) cp. snd (closeServerConn i h now True cp)) L cp"
  have "\<forall>(h, i) \<in> set L. i < length (cp_chans cp)" using assms(1) by (auto simp: L_def cp_ok_def)
  note f = CloseAll_fold [OF this, where now = now, folded c1_def]
  have "close_rounds (close_count (muxConn c1)) now True (muxConn c1) =
      (length (muxConn c1) < close_count (muxConn c1), [], muxConn c1)"
    by (rule close_rounds_force) (simp add: close_count_def)
  moreover have "CloseAll hosts now cp = snd (closeMuxConn now True c1)"
    by (simp only: CloseAll_def Let_def L_def c1_def)
  ultimately have ca: "muxConn (CloseAll hosts now cp) = []" "idleConn (CloseAll hosts now cp) = idleConn c1"
      "cp_chans (CloseAll hosts now cp) = cp_chans c1"
    by (simp_all add: closeMuxConn_def)
  have "ch_conns (cp_chans c1 ! i) = []" if "idleConn c1 h = Some i" for h i
  proof -
    have "idleConn cp h = Some i" using f that by (metis domI map_le_def)
    then have "(h, i) \<in> set L" using assms(2) by (auto simp: L_def)
    then show ?thesis using f by auto
  qed
  then show ?thesis using ca by simp
qed

theorem CloseAll_closes_all_witness:
  "cp_ok (Pool_Put ex_conn emptyPool) \<and>
   muxConn (CloseAll [''a.com:80''] 0 (Pool_Put ex_conn emptyPool)) = []"
proof -
  have "cp_ok (Pool_Put ex_conn emptyPool)" using pool_run_ok [OF ex_pool_run] by simp
  moreover have "\<forall>h. idleConn (Pool_Put ex_conn emptyPool) h \<noteq> None \<longrightarrow> h \<in> set [''a.com:80'']"
    by (auto simp: Pool_Put_def emptyPool_def ex_conn_def newServerConn_def isMux_def
        putConnToChan_def maxServerConnCnt_def set_chan_def pool_close_def split: if_splits)
  ultimately show ?thesis using CloseAll_closes_all by blast
qed

end
