(* ===== verification/Proxy.thy ===== *)
theory Proxy
  imports Conn_Pool Site_Table Http
begin

text \<open>
  proxy.go, connections: how a request gets its server connection (\<open>connectDirect\<close>,
  \<open>connectServer\<close>, \<open>getServerConn\<close>), what a server connection learns about a site, and what is done
  about errors (\<open>handleServerReadError\<close>, \<open>handleServerWriteError\<close>, \<open>shouldRetry\<close>).

  The state \<open>world\<close> holds the site table, the connection pool, the parent pool, the timeouts and an
  environment \<open>'e\<close>. The record \<open>xenv\<close> gives what the environment does: the clock, dialling, the
  parents (\<open>penv\<close>), and sending an error page to the client. A panic is the left summand of the
  result. Log output is not modelled.
\<close>

section \<open>The world\<close>

record cfg =
  c_AlwaysProxy :: bool
  c_HttpErrorCode :: int
  c_DialTimeout :: duration
  c_ReadTimeout :: duration
  c_TunnelAllowedPort :: "bytes list"
  c_start :: time

record 'e xenv =
  xe_parent :: "'e penv"
  xe_now :: "'e \<Rightarrow> time"
  xe_dial :: "bytes \<Rightarrow> duration option \<Rightarrow> 'e \<Rightarrow> (err + nat) \<times> 'e"
  xe_page :: "bytes \<Rightarrow> 'e \<Rightarrow> 'e"

record 'e world =
  w_site :: SiteStat
  w_pool :: ConnPool
  w_parent :: parent_pool
  w_times :: timeouts
  w_env :: 'e

definition w_now :: "'e xenv \<Rightarrow> 'e world \<Rightarrow> time" where
  "w_now E w = xe_now E (w_env w)"

definition parentEmpty :: "'e world \<Rightarrow> bool" where
  "parentEmpty w = parentProxy_empty (w_parent w)"

definition sendErrorPage :: "'e xenv \<Rightarrow> bytes \<Rightarrow> 'e world \<Rightarrow> 'e world" where
  "sendErrorPage E codeReason w = w \<lparr>w_env := xe_page E codeReason (w_env w)\<rparr>"

text \<open>The counters behind a \<open>*VisitCnt\<close>; every pointer the proxy holds is to an existing entry.\<close>

definition vc_of :: "cfg \<Rightarrow> SiteStat \<Rightarrow> vref \<Rightarrow> VisitCnt" where
  "vc_of C ss r = (case deref (c_start C) ss r of Some vc \<Rightarrow> vc | None \<Rightarrow> newVisitCnt 0 0 0)"

definition vc_put :: "vref \<Rightarrow> VisitCnt \<Rightarrow> SiteStat \<Rightarrow> SiteStat" where
  "vc_put r vc ss = (case r of AlwaysDirectRef \<Rightarrow> ss | SiteRef s \<Rightarrow> SiteStat_put s vc ss)"

section \<open>Server connections and visits\<close>

definition updateVisit :: "cfg \<Rightarrow> 'e xenv \<Rightarrow> serverConn \<Rightarrow> 'e world \<Rightarrow> serverConn \<times> 'e world" where
  "updateVisit C E sv w =
     (if visited sv then (sv, w)
      else
        (let bad = networkBad (c_DialTimeout C) (c_ReadTimeout C) (w_times w);
             vc = vc_of C (w_site w) (siteInfo sv);
             vc' = (if isDirect sv then DirectVisit bad (w_now E w) vc else BlockedVisit bad (w_now E w) vc)
         in (sv \<lparr>visited := True\<rparr>, w \<lparr>w_site := vc_put (siteInfo sv) vc' (w_site w)\<rparr>)))"

definition maybeFake :: "cfg \<Rightarrow> SiteStat \<Rightarrow> serverConn \<Rightarrow> bool" where
  "maybeFake C ss sv \<longleftrightarrow>
     sv_state sv = svConnected \<and> isDirect sv \<and> \<not> AlwaysDirect (vc_of C ss (siteInfo sv))"

definition sv_readTimeout :: "cfg \<Rightarrow> 'e xenv \<Rightarrow> serverConn \<Rightarrow> 'e world \<Rightarrow> duration" where
  "sv_readTimeout C E sv w =
     (let to = readTimeout (w_times w); vc = vc_of C (w_site w) (siteInfo sv)
      in if OnceBlocked (w_now E w) vc \<and> to > defaultReadTimeout then minReadTimeout
         else if AsDirect vc then maxTimeout else to)"

definition sslLeastDuration :: duration where
  "sslLeastDuration = second"

definition maybeSSLErr :: "time \<Rightarrow> time \<Rightarrow> serverConn \<Rightarrow> bool" where
  "maybeSSLErr now cliStart sv \<longleftrightarrow>
     sv_state sv \<noteq> svConnected \<and> time_Sub now cliStart < sslLeastDuration"

definition portAllowed :: "cfg \<Rightarrow> bytes \<Rightarrow> bool" where
  "portAllowed C port = (if ''*'' \<in> set (c_TunnelAllowedPort C) then True
     else port \<in> set (c_TunnelAllowedPort C))"

section \<open>Connecting\<close>

definition dial_timeout :: "'e xenv \<Rightarrow> VisitCnt \<Rightarrow> 'e world \<Rightarrow> duration option" where
  "dial_timeout E vc w =
     (if AlwaysDirect vc then None
      else
        (let to = dialTimeout (w_times w)
         in Some (if OnceBlocked (w_now E w) vc \<and> to \<ge> defaultDialTimeout then minDialTimeout
                  else if AsDirect vc then maxTimeout else to)))"

definition dial_direct :: "'e xenv \<Rightarrow> URL \<Rightarrow> VisitCnt \<Rightarrow> 'e world \<Rightarrow> (err + nat) \<times> 'e world" where
  "dial_direct E url vc w =
     (case xe_dial E (url_HostPort url) (dial_timeout E vc w) (w_env w) of
        (r, e) \<Rightarrow> (r, w \<lparr>w_env := e\<rparr>))"

text \<open>\<open>connectDirect2\<close>; it calls itself at most once, after running out of file descriptors.\<close>

definition connectDirect :: "'e xenv \<Rightarrow> URL \<Rightarrow> VisitCnt \<Rightarrow> 'e world \<Rightarrow> conn_result \<times> 'e world" where
  "connectDirect E url vc w =
     (case dial_direct E url vc w of
        (Inr c, w1) \<Rightarrow> ((Some (directConn c), None), w1)
      | (Inl x, w1) \<Rightarrow>
          (if isErrTooManyOpenFd x then
             (case dial_direct E url vc w1 of
                (Inr c, w2) \<Rightarrow> ((Some (directConn c), None), w2)
              | (Inl x2, w2) \<Rightarrow> ((None, Some x2), w2))
           else ((None, Some x), w1)))"

definition parent_connect :: "'e xenv \<Rightarrow> URL \<Rightarrow> 'e world \<Rightarrow> conn_result \<times> 'e world" where
  "parent_connect E url w =
     (case parentProxy_connect (xe_parent E) url (w_parent w) (w_env w) of
        (res, p, e) \<Rightarrow> (res, w \<lparr>w_parent := p, w_env := e\<rparr>))"

text \<open>\<open>TempBlocked\<close> on the world's table, and \<open>handleBlockedRequest\<close>, which returns the retry error.\<close>

definition w_TempBlocked :: "'e xenv \<Rightarrow> URL \<Rightarrow> 'e world \<Rightarrow> 'e world may_panic" where
  "w_TempBlocked E url w =
     (case TempBlocked (w_now E w) url (w_site w) of
        Inl p \<Rightarrow> Inl p | Inr ss \<Rightarrow> Inr (w \<lparr>w_site := ss\<rparr>))"

definition handleBlockedRequest :: "'e xenv \<Rightarrow> URL \<Rightarrow> err \<Rightarrow> 'e world \<Rightarrow> (err \<times> 'e world) may_panic" where
  "handleBlockedRequest E url er w =
     (case w_TempBlocked E url w of Inl p \<Rightarrow> Inl p | Inr w1 \<Rightarrow> Inr (RetryError er, w1))"

text \<open>The draw of \<open>AsBlocked\<close> comes from the environment.\<close>

definition draw_AsBlocked :: "'e xenv \<Rightarrow> VisitCnt \<Rightarrow> 'e world \<Rightarrow> bool \<times> 'e world" where
  "draw_AsBlocked E vc w =
     (let delta = sint (Blocked vc - Direct vc);
          drawn = \<not> (Blocked vc = userCnt \<or> AsTempBlocked (w_now E w) vc) \<and> delta \<ge> blockedDelta
      in (AsBlocked (\<lambda>d. fst (env_intn (xe_parent E) d (w_env w))) (w_now E w) vc,
          if drawn then w \<lparr>w_env := snd (env_intn (xe_parent E) delta (w_env w))\<rparr> else w))"

definition connect_fail ::
    "'e xenv \<Rightarrow> bool \<Rightarrow> err option \<Rightarrow> 'e world \<Rightarrow> (conn_result \<times> 'e world) may_panic" where
  "connect_fail E sendError er w =
     Inr (if sendError then ((None, Some ErrPageSent), sendErrorPage E ''504 Connection failed'' w)
          else ((None, er), w))"

text \<open>The part of \<open>connectServer\<close> for a site that is taken as blocked.\<close>

definition connect_blocked ::
    "'e xenv \<Rightarrow> URL \<Rightarrow> VisitCnt \<Rightarrow> bool \<Rightarrow> 'e world \<Rightarrow> (conn_result \<times> 'e world) may_panic" where
  "connect_blocked E url vc sendError w =
     (case parent_connect E url w of
        ((c, None), w1) \<Rightarrow> Inr ((c, None), w1)
      | ((c, Some x), w1) \<Rightarrow>
          (if AlwaysBlocked vc \<or> AsTempBlocked (w_now E w1) vc then connect_fail E sendError (Some x) w1
           else
             (case connectDirect E url vc w1 of
                ((d, None), w2) \<Rightarrow> Inr ((d, None), w2)
              | ((d, Some y), w2) \<Rightarrow> connect_fail E sendError (Some y) w2)))"

definition connect_direct_first ::
    "'e xenv \<Rightarrow> URL \<Rightarrow> VisitCnt \<Rightarrow> bool \<Rightarrow> 'e world \<Rightarrow> (conn_result \<times> 'e world) may_panic" where
  "connect_direct_first E url vc sendError w =
     (case connectDirect E url vc w of
        ((d, None), w1) \<Rightarrow> Inr ((d, None), w1)
      | ((d, Some x), w1) \<Rightarrow>
          (if parentEmpty w1 \<or> AlwaysDirect vc then connect_fail E sendError (Some x) w1
           else
             (case parent_connect E url w1 of
                ((c, None), w2) \<Rightarrow>
                  (case handleBlockedRequest E url x w2 of
                     Inl p \<Rightarrow> Inl p | Inr (_, w3) \<Rightarrow> Inr ((c, None), w3))
              | ((c, Some y), w2) \<Rightarrow> connect_fail E sendError (Some x) w2)))"

definition connectServer ::
    "cfg \<Rightarrow> 'e xenv \<Rightarrow> URL \<Rightarrow> vref \<Rightarrow> bool \<Rightarrow> 'e world \<Rightarrow> (conn_result \<times> 'e world) may_panic" where
  "connectServer C E url si sendError w =
     (if c_AlwaysProxy C then
        (case parent_connect E url w of
           ((c, None), w1) \<Rightarrow> Inr ((c, None), w1)
         | ((c, Some x), w1) \<Rightarrow> connect_fail E sendError (Some x) w1)
      else
        (let vc = vc_of C (w_site w) si
         in case draw_AsBlocked E vc w of
              (blocked, w0) \<Rightarrow>
                (if blocked \<and> \<not> parentEmpty w0 then connect_blocked E url vc sendError w0
                 else connect_direct_first E url vc sendError w0)))"

definition createServerConn ::
    "cfg \<Rightarrow> 'e xenv \<Rightarrow> URL \<Rightarrow> vref \<Rightarrow> 'e world \<Rightarrow> ((serverConn option \<times> err option) \<times> 'e world) may_panic" where
  "createServerConn C E url si w =
     (case connectServer C E url si True w of
        Inl p \<Rightarrow> Inl p
      | Inr ((c, Some x), w1) \<Rightarrow> Inr ((None, Some x), w1)
      | Inr ((None, None), w1) \<Rightarrow> Inl ''nil connection''
      | Inr ((Some c, None), w1) \<Rightarrow> Inr ((Some (newServerConn c (url_HostPort url) si), None), w1))"

definition getServerConn ::
    "cfg \<Rightarrow> 'e xenv \<Rightarrow> Request \<Rightarrow> 'e world \<Rightarrow> ((serverConn option \<times> err option) \<times> 'e world) may_panic" where
  "getServerConn C E r w =
     (case GetVisitCnt (parentEmpty w) (w_now E w) (URL r) (w_site w) of
        (si, ss) \<Rightarrow>
          (let w1 = w \<lparr>w_site := ss\<rparr>
           in if isConnect r then createServerConn C E (URL r) si w1
              else
                (case Pool_Get (c_AlwaysProxy C) (w_now E w1) (url_HostPort (URL r))
                        (AsDirect (vc_of C ss si)) (w_pool w1) of
                   (Some sv, cp) \<Rightarrow>
                     Inr ((Some (sv \<lparr>sv_state := svConnected\<rparr>), None), w1 \<lparr>w_pool := cp\<rparr>)
                 | (None, cp) \<Rightarrow> createServerConn C E (URL r) si (w1 \<lparr>w_pool := cp\<rparr>))))"

section \<open>Errors\<close>

definition handleServerReadError ::
    "cfg \<Rightarrow> 'e xenv \<Rightarrow> Request \<Rightarrow> serverConn \<Rightarrow> err \<Rightarrow> 'e world \<Rightarrow> (err \<times> 'e world) may_panic" where
  "handleServerReadError C E r sv er w =
     (if er = EOF then Inr (RetryError er, w)
      else if maybeFake C (w_site w) sv \<and> maybeBlocked (c_HttpErrorCode C) (parentEmpty w) er
      then handleBlockedRequest E (URL r) er w
      else if responseNotSent r then Inr (ErrPageSent, sendErrorPage E ''502 read error'' w)
      else Inr (er, w))"

definition handleServerWriteError ::
    "cfg \<Rightarrow> 'e xenv \<Rightarrow> Request \<Rightarrow> serverConn \<Rightarrow> err \<Rightarrow> 'e world \<Rightarrow> (err \<times> 'e world) may_panic" where
  "handleServerWriteError C E r sv er w =
     (if maybeFake C (w_site w) sv \<and> isErrConnReset er
      then (case w_TempBlocked E (URL r) w of Inl p \<Rightarrow> Inl p | Inr w1 \<Rightarrow> Inr (RetryError er, w1))
      else Inr (RetryError er, w))"

definition shouldRetry ::
    "cfg \<Rightarrow> 'e xenv \<Rightarrow> Request \<Rightarrow> serverConn \<Rightarrow> err option \<Rightarrow> 'e world \<Rightarrow>
     (bool \<times> Request \<times> 'e world) may_panic" where
  "shouldRetry C E r sv re w =
     (if \<not> isErrRetry re then Inr (False, r, w)
      else if \<not> responseNotSent r then Inr (False, r, w)
      else if partial r then Inr (False, r, sendErrorPage E ''502 partial request'' w)
      else if raw r = None then
        Inl ''Please report issue to the developer: Non partial request with buffer released''
      else if tooManyRetry r then
        (if maybeFake C (w_site w) sv then
           (case w_TempBlocked E (URL r) w of
              Inl p \<Rightarrow> Inl p
            | Inr w1 \<Rightarrow> Inr (True, r \<lparr>tryCnt := 0\<rparr>, w1))
         else Inr (False, r, sendErrorPage E ''502 retry failed'' w))
      else Inr (True, r, w))"

section \<open>Connecting never panics\<close>

text \<open>The parents' connections are not direct ones.\<close>

definition not_direct :: "net_conn \<Rightarrow> bool" where
  "not_direct c = (case c of directConn _ \<Rightarrow> False | _ \<Rightarrow> True)"

lemma parent_connect_cases:
  obtains (conn) c w' where "parent_connect E url w = ((Some c, None), w')" "w_site w' = w_site w"
      "w_pool w' = w_pool w" "parentEmpty w' = parentEmpty w" "env_conns not_direct (xe_parent E) \<Longrightarrow> not_direct c"
  | (error) x w' where "parent_connect E url w = ((None, Some x), w')" "w_site w' = w_site w"
      "w_pool w' = w_pool w" "parentEmpty w' = parentEmpty w"
proof (rule parentProxy.connect_cases [of "xe_parent E" url "w_parent w" "w_env w"])
  fix c p' e'
  assume a: "parentProxy_connect (xe_parent E) url (w_parent w) (w_env w) = ((Some c, None), p', e')"
    "parentProxy_parents p' = parentProxy_parents (w_parent w)"
  from parentProxy_connect_conn [OF _ a(1), of not_direct]
    conn [of c "w \<lparr>w_parent := p', w_env := e'\<rparr>"] a
  show thesis by (simp add: parent_connect_def parentEmpty_def parentProxy_empty_iff)
next
  fix x p' e'
  assume "parentProxy_connect (xe_parent E) url (w_parent w) (w_env w) = ((None, Some x), p', e')"
    "parentProxy_parents p' = parentProxy_parents (w_parent w)"
  then show thesis using error [of x "w \<lparr>w_parent := p', w_env := e'\<rparr>"]
    by (simp add: parent_connect_def parentEmpty_def parentProxy_empty_iff)
qed

lemma connectDirect_cases:
  obtains (conn) c w' where "connectDirect E url vc w = ((Some (directConn c), None), w')"
      "w_site w' = w_site w" "w_pool w' = w_pool w" "parentEmpty w' = parentEmpty w"
  | (error) x w' where "connectDirect E url vc w = ((None, Some x), w')"
      "w_site w' = w_site w" "w_pool w' = w_pool w" "parentEmpty w' = parentEmpty w"
proof -
  have dd: "\<exists>r e. dial_direct E url vc v = (r, v \<lparr>w_env := e\<rparr>)" for v
    by (auto simp: dial_direct_def split: prod.splits)
  obtain r e where 1: "dial_direct E url vc w = (r, w \<lparr>w_env := e\<rparr>)" using dd by blast
  obtain r2 e2 where 2: "dial_direct E url vc (w \<lparr>w_env := e\<rparr>) = (r2, w \<lparr>w_env := e2\<rparr>)"
    using dd [of "w \<lparr>w_env := e\<rparr>"] by auto
  note simps = connectDirect_def 1 2 parentEmpty_def
  show thesis
  proof (cases r)
    case (Inr c)
    then show thesis by (intro conn [of c "w \<lparr>w_env := e\<rparr>"]) (simp_all add: simps)
  next
    case x: (Inl x)
    show thesis
    proof (cases "isErrTooManyOpenFd x")
      case False
      with x show thesis by (intro error [of x "w \<lparr>w_env := e\<rparr>"]) (simp_all add: simps)
    next
      case True
      with x show thesis
        using conn [of _ "w \<lparr>w_env := e2\<rparr>"] error [of _ "w \<lparr>w_env := e2\<rparr>"]
        by (cases r2) (simp_all add: simps)
    qed
  qed
qed

text \<open>
  What makes the table ready for \<open>TempBlocked\<close> on a URL: it has an entry for the host, or the
  counters in use are specified by the user.
\<close>

definition ref_safe :: "cfg \<Rightarrow> SiteStat \<Rightarrow> URL \<Rightarrow> vref \<Rightarrow> bool" where
  "ref_safe C ss url si \<longleftrightarrow> SiteStat_get ss (url_Host url) \<noteq> None \<or> userSpecified (vc_of C ss si)"

definition sv_safe :: "cfg \<Rightarrow> SiteStat \<Rightarrow> URL \<Rightarrow> serverConn \<Rightarrow> bool" where
  "sv_safe C ss url sv \<longleftrightarrow>
     (isDirect sv \<longrightarrow> SiteStat_get ss (url_Host url) \<noteq> None \<or> AlwaysDirect (vc_of C ss (siteInfo sv)))"

lemma TempBlocked_ok:
  assumes "SiteStat_get ss (url_Host url) \<noteq> None"
  obtains ss' where "TempBlocked now url ss = Inr ss'"
  using assms by (auto simp: TempBlocked_def Let_def)

lemma GetVisitCnt_ref_safe:
  assumes "GetVisitCnt pe now url ss = (si, ss')"
  shows "ref_safe C ss' url si" "pe \<longrightarrow> AlwaysDirect (vc_of C ss' si)"
proof -
  have "vc_of C ss' AlwaysDirectRef = alwaysDirectVisitCnt (c_start C)"
    by (simp add: vc_of_def deref_def)
  then have ad: "userSpecified (vc_of C ss' AlwaysDirectRef)" "AlwaysDirect (vc_of C ss' AlwaysDirectRef)"
    by (simp_all add: alwaysDirectVisitCnt_def newVisitCnt_def userSpecified_def AlwaysDirect_def)
  show "ref_safe C ss' url si"
    using assms ad by (auto simp: GetVisitCnt_def ref_safe_def SiteStat_create_def vc_of_def deref_def
        split: if_splits option.splits)
  show "pe \<longrightarrow> AlwaysDirect (vc_of C ss' si)" using assms ad by (auto simp: GetVisitCnt_def)
qed

lemma userSpecified_cases: "userSpecified vc \<Longrightarrow> AlwaysDirect vc \<or> AlwaysBlocked vc"
  by (auto simp: userSpecified_def AlwaysDirect_def AlwaysBlocked_def)

text \<open>What \<open>connectServer\<close> returns, and how the table and the pool change.\<close>

definition connect_post ::
    "cfg \<Rightarrow> URL \<Rightarrow> vref \<Rightarrow> 'e world \<Rightarrow> (conn_result \<times> 'e world) may_panic \<Rightarrow> bool" where
  "connect_post C url si w res =
     (case res of
        Inl p \<Rightarrow> False
      | Inr ((c, er), w') \<Rightarrow>
          w_pool w' = w_pool w \<and>
          (w_site w' = w_site w \<or> (\<exists>now. TempBlocked now url (w_site w) = Inr (w_site w'))) \<and>
          (case (c, er) of
             (Some c, None) \<Rightarrow>
               \<not> not_direct c \<longrightarrow> w_site w' = w_site w \<and> \<not> c_AlwaysProxy C \<and>
                 (AlwaysBlocked (vc_of C (w_site w) si) \<longrightarrow> parentEmpty w)
           | (None, Some x) \<Rightarrow> True
           | _ \<Rightarrow> False))"

lemma connect_fail_post:
  "w_site w1 = w_site w \<Longrightarrow> w_pool w1 = w_pool w \<Longrightarrow>
   connect_post C url si w (connect_fail E b (Some x) w1)"
  by (simp add: connect_post_def connect_fail_def sendErrorPage_def)

lemma connect_blocked_post:
  assumes "vc = vc_of C (w_site w) si" "\<not> c_AlwaysProxy C" "env_conns not_direct (xe_parent E)"
  shows "connect_post C url si w (connect_blocked E url vc b w)"
proof (cases rule: parent_connect_cases [of E url w, case_names conn error])
  case (conn c w1)
  then show ?thesis using assms by (auto simp: connect_blocked_def connect_post_def)
next
  case (error x w1)
  show ?thesis
  proof (cases rule: connectDirect_cases [of E url vc w1, case_names conn error])
    case c: (conn c w2)
    then show ?thesis using error assms connect_fail_post [of w1 w]
      by (auto simp: connect_blocked_def connect_post_def)
  next
    case d: (error y w2)
    then show ?thesis using error connect_fail_post [of w1 w] connect_fail_post [of w2 w]
      by (simp add: connect_blocked_def)
  qed
qed

lemma connect_direct_first_post:
  assumes "vc = vc_of C (w_site w) si" "\<not> c_AlwaysProxy C" "ref_safe C (w_site w) url si"
    "AlwaysBlocked vc \<longrightarrow> parentEmpty w" "env_conns not_direct (xe_parent E)"
  shows "connect_post C url si w (connect_direct_first E url vc b w)"
proof (cases rule: connectDirect_cases [of E url vc w, case_names conn error])
  case (conn c w1)
  then show ?thesis using assms by (auto simp: connect_direct_first_def connect_post_def)
next
  case (error x w1)
  show ?thesis
  proof (cases "parentEmpty w1 \<or> AlwaysDirect vc")
    case True
    then show ?thesis using error connect_fail_post [of w1 w] by (simp add: connect_direct_first_def)
  next
    case False
    have "\<not> userSpecified vc" using False error assms(4) userSpecified_cases by blast
    then have here: "SiteStat_get (w_site w) (url_Host url) \<noteq> None"
      using assms(1,3) by (auto simp: ref_safe_def)
    show ?thesis
    proof (cases rule: parent_connect_cases [of E url w1, case_names conn error])
      case c: (conn c w2)
      have "SiteStat_get (w_site w2) (url_Host url) \<noteq> None" using here c error by simp
      then obtain ss where t: "TempBlocked (w_now E w2) url (w_site w2) = Inr ss" using TempBlocked_ok by blast
      have "connect_direct_first E url vc b w = Inr ((Some c, None), w2 \<lparr>w_site := ss\<rparr>)"
        using error c t False by (simp add: connect_direct_first_def handleBlockedRequest_def w_TempBlocked_def)
      moreover have "\<exists>now. TempBlocked now url (w_site w) = Inr ss" using t c error by metis
      ultimately show ?thesis using error c assms by (auto simp: connect_post_def)
    next
      case d: (error y w2)
      then show ?thesis using error False connect_fail_post [of w2 w] by (simp add: connect_direct_first_def)
    qed
  qed
qed

lemma draw_AsBlocked_world:
  assumes "draw_AsBlocked E vc w = (blocked, w0)"
  shows "w_site w0 = w_site w" "w_pool w0 = w_pool w" "parentEmpty w0 = parentEmpty w"
    "AlwaysBlocked vc \<Longrightarrow> blocked"
  using assms by (auto simp: draw_AsBlocked_def Let_def parentEmpty_def AsBlocked_def AlwaysBlocked_def split: if_splits)

lemma connectServer_post:
  assumes "ref_safe C (w_site w) url si" "env_conns not_direct (xe_parent E)"
  shows "connect_post C url si w (connectServer C E url si b w)"
proof (cases "c_AlwaysProxy C")
  case True
  show ?thesis
  proof (cases rule: parent_connect_cases [of E url w, case_names conn error])
    case (conn c w1)
    then show ?thesis using True assms by (simp add: connectServer_def connect_post_def)
  next
    case (error x w1)
    then show ?thesis using True connect_fail_post [of w1 w] by (simp add: connectServer_def)
  qed
next
  case False
  define vc where "vc = vc_of C (w_site w) si"
  obtain blocked w0 where d: "draw_AsBlocked E vc w = (blocked, w0)" by fastforce
  note dw = draw_AsBlocked_world [OF d]
  have eq: "connect_post C url si w0 = connect_post C url si w" by (rule ext) (simp add: connect_post_def dw(1-3) cong: option.case_cong prod.case_cong sum.case_cong)
  have "connectServer C E url si b w =
      (if blocked \<and> \<not> parentEmpty w0 then connect_blocked E url vc b w0 else connect_direct_first E url vc b w0)"
    using False d by (simp add: connectServer_def Let_def flip: vc_def)
  moreover have "connect_post C url si w0 (connect_blocked E url vc b w0)"
    using connect_blocked_post [of vc C w0 si E] False assms(2) dw(1) vc_def by simp
  moreover have "connect_post C url si w0 (connect_direct_first E url vc b w0)" if "\<not> (blocked \<and> \<not> parentEmpty w0)"
    using connect_direct_first_post [of vc C w0 si url E] False assms dw vc_def that by auto
  ultimately show ?thesis using eq by simp
qed

section \<open>The pool and the table together\<close>

text \<open>
  \<open>hostOf\<close> gives the host of a host and port. Every direct connection in the pool was made for a host
  that has an entry, or for a site that is always direct.
\<close>

definition pool_sites_ok :: "cfg \<Rightarrow> (bytes \<Rightarrow> bytes) \<Rightarrow> SiteStat \<Rightarrow> ConnPool \<Rightarrow> bool" where
  "pool_sites_ok C hostOf ss cp \<longleftrightarrow>
     (\<forall>sv \<in># pooled cp. isDirect sv \<longrightarrow>
        SiteStat_get ss (hostOf (sv_hostPort sv)) \<noteq> None \<or> AlwaysDirect (vc_of C ss (siteInfo sv)))"

definition world_ok :: "cfg \<Rightarrow> (bytes \<Rightarrow> bytes) \<Rightarrow> 'e world \<Rightarrow> bool" where
  "world_ok C hostOf w \<longleftrightarrow> cp_ok (w_pool w) \<and> pool_sites_ok C hostOf (w_site w) (w_pool w)"

text \<open>Steps of the table keep entries and keep what is always direct.\<close>

lemma ss_step_AlwaysDirect:
  "ss_step ss ss' \<Longrightarrow> SiteStat_get ss s = Some vc \<Longrightarrow> AlwaysDirect vc \<Longrightarrow>
   \<exists>vc'. SiteStat_get ss' s = Some vc' \<and> AlwaysDirect vc'"
proof (induction rule: ss_step.induct)
  case (step_get ss parentEmpty now url)
  then show ?case using GetVisitCnt_get [of parentEmpty now url ss s] by auto
qed (auto simp: store_select_fst AlwaysDirect_def visit_defs userSpecified_def elim!: TempBlocked_Inr)

definition ss_mono :: "cfg \<Rightarrow> SiteStat \<Rightarrow> SiteStat \<Rightarrow> bool" where
  "ss_mono C ss ss' \<longleftrightarrow>
     (\<forall>s. SiteStat_get ss s \<noteq> None \<longrightarrow> SiteStat_get ss' s \<noteq> None) \<and>
     (\<forall>r. deref (c_start C) ss r \<noteq> None \<and> AlwaysDirect (vc_of C ss r) \<longrightarrow> AlwaysDirect (vc_of C ss' r))"

lemma ss_step_mono: "ss_step ss ss' \<Longrightarrow> ss_mono C ss ss'"
proof -
  assume st: "ss_step ss ss'"
  have "AlwaysDirect (vc_of C ss' r)" if "deref (c_start C) ss r \<noteq> None" "AlwaysDirect (vc_of C ss r)" for r
    using that ss_step_AlwaysDirect [OF st] by (cases r) (fastforce simp: vc_of_def deref_def)+
  moreover have "SiteStat_get ss' s \<noteq> None" if "SiteStat_get ss s \<noteq> None" for s
    using that ss_step_entry [OF st] by fastforce
  ultimately show ?thesis by (simp add: ss_mono_def)
qed

lemma AlwaysDirect_deref: "AlwaysDirect (vc_of C ss r) \<Longrightarrow> deref (c_start C) ss r \<noteq> None"
  by (cases "deref (c_start C) ss r") (simp_all add: vc_of_def newVisitCnt_def AlwaysDirect_def)

lemma ss_steps_mono: "ss_step\<^sup>*\<^sup>* ss ss' \<Longrightarrow> ss_mono C ss ss'"
proof (induction rule: rtranclp_induct)
  case (step y z)
  from step.IH ss_step_mono [OF step.hyps(2), of C] show ?case
    using AlwaysDirect_deref unfolding ss_mono_def by metis
qed (simp add: ss_mono_def)

lemma pool_sites_mono: "ss_mono C ss ss' \<Longrightarrow> pool_sites_ok C h ss cp \<Longrightarrow> pool_sites_ok C h ss' cp"
  using AlwaysDirect_deref unfolding ss_mono_def pool_sites_ok_def by metis

lemma sv_safe_mono: "ss_mono C ss ss' \<Longrightarrow> sv_safe C ss url sv \<Longrightarrow> sv_safe C ss' url sv"
  using AlwaysDirect_deref unfolding ss_mono_def sv_safe_def by metis

lemma Get_pool_sites:
  assumes "cp_ok cp" "pool_sites_ok C h ss cp" "Pool_Get ap now hp d cp = (r, cp')"
  shows "pool_sites_ok C h ss cp'"
    "r = Some sv \<Longrightarrow> isDirect sv \<Longrightarrow>
       SiteStat_get ss (h (sv_hostPort sv)) \<noteq> None \<or> AlwaysDirect (vc_of C ss (siteInfo sv))"
  using assms(2) Pool_Get_pooled [OF assms(1,3)] unfolding pool_sites_ok_def by blast+

lemma connectServer_safe:
  assumes "world_ok C hostOf w" "env_conns not_direct (xe_parent E)" "ref_safe C (w_site w) url si"
    "parentEmpty w \<longrightarrow> AlwaysDirect (vc_of C (w_site w) si)"
  shows "\<exists>c er w'. connectServer C E url si b w = Inr ((c, er), w') \<and> world_ok C hostOf w' \<and>
    (case c of
       None \<Rightarrow> er \<noteq> None
     | Some k \<Rightarrow> er = None \<and> sv_safe C (w_site w') url (newServerConn k (url_HostPort url) si))"
proof -
  obtain c er w' where cs: "connectServer C E url si b w = Inr ((c, er), w')"
    and post: "connect_post C url si w (Inr ((c, er), w'))"
    using connectServer_post [OF assms(3,2), of b]
    by (cases "connectServer C E url si b w") (auto simp: connect_post_def)
  have "ss_step\<^sup>*\<^sup>* (w_site w) (w_site w')"
    using post by (auto simp: connect_post_def intro: step_temp)
  then have ok: "world_ok C hostOf w'"
    using assms(1) post pool_sites_mono [OF ss_steps_mono] by (auto simp: world_ok_def connect_post_def)
  show ?thesis
  proof (cases c)
    case None
    then show ?thesis using cs post ok
      by (cases er) (auto simp: connect_post_def)
  next
    case (Some k)
    then have er: "er = None" using post by (cases er) (auto simp: connect_post_def)
    have "sv_safe C (w_site w') url (newServerConn k (url_HostPort url) si)"
    proof (cases "not_direct k")
      case True
      then show ?thesis
        by (cases k) (auto simp: sv_safe_def isDirect_def newServerConn_def not_direct_def)
    next
      case False
      then have "w_site w' = w_site w" "AlwaysBlocked (vc_of C (w_site w) si) \<longrightarrow> parentEmpty w"
        using post Some er by (auto simp: connect_post_def)
      then show ?thesis using assms(3,4) userSpecified_cases
        by (fastforce simp: sv_safe_def ref_safe_def newServerConn_def)
    qed
    then show ?thesis using cs Some er ok by simp
  qed
qed

lemma createServerConn_safe:
  assumes "world_ok C hostOf w" "env_conns not_direct (xe_parent E)" "ref_safe C (w_site w) url si"
    "parentEmpty w \<longrightarrow> AlwaysDirect (vc_of C (w_site w) si)"
  shows "\<exists>svo er w'. createServerConn C E url si w = Inr ((svo, er), w') \<and> world_ok C hostOf w' \<and>
    (case svo of
       None \<Rightarrow> er \<noteq> None
     | Some sv \<Rightarrow> er = None \<and> sv_state sv = svConnected \<and> sv_safe C (w_site w') url sv)"
proof -
  obtain c er w' where c: "connectServer C E url si True w = Inr ((c, er), w')" "world_ok C hostOf w'"
      "case c of None \<Rightarrow> er \<noteq> None
        | Some k \<Rightarrow> er = None \<and> sv_safe C (w_site w') url (newServerConn k (url_HostPort url) si)"
    using connectServer_safe [OF assms, of True] by blast
  show ?thesis
    using c by (cases c) (auto simp: createServerConn_def newServerConn_def)
qed

section \<open>An example world\<close>

text \<open>Direct connections time out, the one parent answers, and pages and attempts are recorded.\<close>

definition ex_cfg :: cfg where
  "ex_cfg = \<lparr>c_AlwaysProxy = False, c_HttpErrorCode = 0, c_DialTimeout = 5, c_ReadTimeout = 5,
     c_TunnelAllowedPort = [''443''], c_start = 0\<rparr>"

definition ex_xenv :: "attempt list xenv" where
  "ex_xenv = \<lparr>xe_parent = trace_env (\<lambda>p. Inr (socksConn 7 p)) (\<lambda>u. Inl EOF) (\<lambda>n k. 1) False,
     xe_now = (\<lambda>_. 10 ^ 13), xe_dial = (\<lambda>hp d e. (Inl (NetError True ''i/o timeout''), e)),
     xe_page = (\<lambda>c e. e @ [TriedHttpPool])\<rparr>"

definition ex_world :: "SiteStat \<Rightarrow> attempt list world" where
  "ex_world ss = \<lparr>w_site = ss, w_pool = emptyPool,
     w_parent = backupParentPool [\<lparr>pw_parent = socksParent ''s:1080'' [] [], pw_fail = 0\<rparr>],
     w_times = \<lparr>dialTimeout = 5, readTimeout = 5\<rparr>, w_env = []\<rparr>"

definition ex_rq :: "8 word \<Rightarrow> Request" where
  "ex_rq n = zeroRequest \<lparr>URL := ex_url, raw := Some ''x'', tryCnt := n\<rparr>"

definition ex_sv :: serverConn where
  "ex_sv = (newServerConn (directConn 1) ''www.example.com:80'' (SiteRef ''www.example.com''))
     \<lparr>sv_state := svConnected\<rparr>"

lemma ex_env_conns: "env_conns not_direct (xe_parent ex_xenv)"
  by (simp add: env_conns_def ex_xenv_def trace_env_def not_direct_def)

lemma ex_world_ok: "world_ok ex_cfg (takeWhile (\<lambda>c. c \<noteq> CHR '':'')) (ex_world newSiteStat)"
  by (simp add: world_ok_def ex_world_def cp_ok_def held_def pool_sites_ok_def pooled_def emptyPool_def)

lemma ex_sv_safe: "sv_safe ex_cfg ex_stat2 (URL (ex_rq n)) ex_sv" "maybeFake ex_cfg ex_stat2 ex_sv"
  by (simp_all add: sv_safe_def ex_rq_def ex_url_fields ex_stat2_def SiteStat_get_def maybeFake_def ex_sv_def
      isDirect_def newServerConn_def vc_of_def deref_def newVisitCnt_def AlwaysDirect_def)

lemma getServerConn_ok:
  assumes "world_ok C hostOf w" "env_conns not_direct (xe_parent E)"
    "url_Host (URL r) = hostOf (url_HostPort (URL r))"
  shows "\<exists>svo er w'. getServerConn C E r w = Inr ((svo, er), w') \<and> world_ok C hostOf w' \<and>
    (case svo of
       None \<Rightarrow> er \<noteq> None
     | Some sv \<Rightarrow> er = None \<and> sv_state sv = svConnected \<and> sv_safe C (w_site w') (URL r) sv)"
proof -
  obtain si ss where gv: "GetVisitCnt (parentEmpty w) (w_now E w) (URL r) (w_site w) = (si, ss)" by fastforce
  define w1 where "w1 = w \<lparr>w_site := ss\<rparr>"
  have "ss_step (w_site w) ss" using step_get [of "w_site w" "parentEmpty w" "w_now E w" "URL r"] gv by simp
  then have m: "ss_mono C (w_site w) ss" by (rule ss_step_mono)
  have ok1: "cp_ok (w_pool w1)" "pool_sites_ok C hostOf ss (w_pool w1)"
    using assms(1) pool_sites_mono [OF m] by (auto simp: world_ok_def w1_def)
  have rs: "ref_safe C ss (URL r) si" "parentEmpty w1 \<longrightarrow> AlwaysDirect (vc_of C ss si)"
    using GetVisitCnt_ref_safe [OF gv] by (auto simp: w1_def parentEmpty_def)
  obtain svo cp where pg: "Pool_Get (c_AlwaysProxy C) (w_now E w1) (url_HostPort (URL r))
      (AsDirect (vc_of C ss si)) (w_pool w1) = (svo, cp)" by fastforce
  note gs = Get_pool_sites [OF ok1 pg] and go = Pool_Get_ok [OF ok1(1) pg]
  show ?thesis
  proof (cases "isConnect r \<or> svo = None")
    case True
    define v where "v = (if isConnect r then w1 else w1 \<lparr>w_pool := cp\<rparr>)"
    have "getServerConn C E r w = createServerConn C E (URL r) si v"
      using True gv pg by (auto simp: getServerConn_def Let_def v_def simp flip: w1_def)
    moreover have v: "w_site v = ss" "parentEmpty v = parentEmpty w1"
      by (simp_all add: v_def w1_def parentEmpty_def)
    moreover have "world_ok C hostOf v"
      using ok1 gs(1) go(1) by (cases "isConnect r") (simp_all add: world_ok_def v_def w1_def)
    ultimately show ?thesis using createServerConn_safe [OF _ assms(2), of C hostOf v "URL r" si] rs by simp
  next
    case False
    then obtain sv where sv: "svo = Some sv" by blast
    have g: "getServerConn C E r w = Inr ((Some (sv \<lparr>sv_state := svConnected\<rparr>), None), w1 \<lparr>w_pool := cp\<rparr>)"
      using False gv pg sv by (simp add: getServerConn_def Let_def w1_def)
    have "isDirect sv \<Longrightarrow> sv_hostPort sv = url_HostPort (URL r)"
      using go sv by (auto simp: isDirect_def isMux_def split: net_conn.splits)
    then have "sv_safe C ss (URL r) (sv \<lparr>sv_state := svConnected\<rparr>)"
      using gs(2) [OF sv] assms(3) by (auto simp: sv_safe_def isDirect_def)
    then show ?thesis using g gs(1) go by (simp add: world_ok_def w1_def)
  qed
qed

text \<open>Getting a server connection never panics. In a world in which every pooled direct connection
  belongs to a known or always direct host, and with parents whose connections are not direct
  ones, \<open>getServerConn\<close> returns a connection or an error, \<open>TempBlocked\<close> finds its counters, the world
  keeps that property, and the connection is safe for the error handlers.\<close>

theorem getServerConn_safe:
  assumes "world_ok C hostOf w" "env_conns not_direct (xe_parent E)"
    "url_Host (URL r) = hostOf (url_HostPort (URL r))"
  shows "\<exists>svo er w'. getServerConn C E r w = Inr ((svo, er), w') \<and> world_ok C hostOf w' \<and>
    (case svo of
       None \<Rightarrow> er \<noteq> None
     | Some sv \<Rightarrow> er = None \<and> sv_state sv = svConnected \<and> sv_safe C (w_site w') (URL r) sv)"
  by (rule getServerConn_ok [OF assms])

theorem getServerConn_safe_witness:
  "\<exists>svo er w'. getServerConn ex_cfg ex_xenv (ex_rq 1) (ex_world newSiteStat) = Inr ((svo, er), w') \<and>
    world_ok ex_cfg (takeWhile (\<lambda>c. c \<noteq> CHR '':'')) w' \<and> (svo = None \<longrightarrow> er \<noteq> None)"
  using getServerConn_safe [OF ex_world_ok ex_env_conns, of "ex_rq 1"]
  by (fastforce simp: ex_rq_def ex_url_fields)

lemma AlwaysDirect_not_drawn:
  "AlwaysDirect vc \<Longrightarrow> Blocked vc = 0 \<Longrightarrow> \<not> AsTempBlocked (w_now E w) vc \<Longrightarrow>
   draw_AsBlocked E vc w = (False, w)"
  by (simp add: draw_AsBlocked_def AlwaysDirect_def AsBlocked_def blockedDelta_def Let_def)

definition connect_allowed :: "cfg \<Rightarrow> 'e xenv \<Rightarrow> VisitCnt \<Rightarrow> bool \<Rightarrow> net_conn \<Rightarrow> bool" where
  "connect_allowed C E vc noParent c \<longleftrightarrow>
     (c_AlwaysProxy C \<longrightarrow> not_direct c) \<and>
     (\<not> noParent \<and> (AlwaysBlocked vc \<or> (\<forall>e. AsTempBlocked (xe_now E e) vc)) \<longrightarrow> not_direct c) \<and>
     (\<not> c_AlwaysProxy C \<and> (noParent \<or>
        AlwaysDirect vc \<and> Blocked vc = 0 \<and> (\<forall>e. \<not> AsTempBlocked (xe_now E e) vc)) \<longrightarrow> \<not> not_direct c)"

lemma draw_AsBlocked_temp:
  "draw_AsBlocked E vc w = (b, w0) \<Longrightarrow> \<forall>e. AsTempBlocked (xe_now E e) vc \<Longrightarrow> b"
  by (auto simp: draw_AsBlocked_def AsBlocked_def w_now_def)

lemma connect_blocked_allowed:
  assumes "connect_blocked E url vc b w = Inr ((Some c, er), w')" "env_conns not_direct (xe_parent E)"
  shows "er = None \<and> ((AlwaysBlocked vc \<or> (\<forall>e. AsTempBlocked (xe_now E e) vc)) \<longrightarrow> not_direct c)"
proof (cases rule: parent_connect_cases [of E url w, case_names conn error])
  case (conn c w1)
  then show ?thesis using assms by (simp add: connect_blocked_def)
next
  case (error x w1)
  show ?thesis
    by (cases rule: connectDirect_cases [of E url vc w1])
      (use error assms in \<open>auto simp: connect_blocked_def connect_fail_def w_now_def split: if_splits\<close>)
qed

lemma connect_direct_first_allowed:
  assumes "connect_direct_first E url vc b w = Inr ((Some c, er), w')"
  shows "er = None \<and> ((AlwaysDirect vc \<or> parentEmpty w) \<longrightarrow> \<not> not_direct c)"
proof (cases rule: connectDirect_cases [of E url vc w, case_names conn error])
  case (conn c w1)
  then show ?thesis using assms by (auto simp: connect_direct_first_def not_direct_def)
next
  case (error x w1)
  show ?thesis
    by (cases rule: parent_connect_cases [of E url w1])
      (use error assms in \<open>auto simp: connect_direct_first_def connect_fail_def split: if_splits sum.splits\<close>)
qed


lemma ex_connectServer:
  "\<exists>w'. connectServer ex_cfg ex_xenv ex_url (SiteRef ''www.example.com'') True
     (ex_world (newSiteStat \<lparr>Vcnt := [(''www.example.com'', newVisitCnt 0 0 userCnt)]\<rparr>)) =
     Inr ((Some (socksConn 7 (socksParent ''s:1080'' [] [])), None), w')"
  by (simp add: connectServer_def ex_cfg_def Let_def draw_AsBlocked_def AsBlocked_def vc_of_def deref_def
      SiteStat_get_def newSiteStat_def newVisitCnt_def ex_world_def parentEmpty_def Pool_empty_def connect_blocked_def
      parent_connect_def backup_connect_def connectInOrder_def ex_xenv_def trace_env_def
      ParentWithFail_connect_def isHTTPParent_def upt_rec)


section \<open>The error handlers\<close>

lemma sv_safe_TempBlocked:
  assumes "sv_safe C ss url sv" "ss_step\<^sup>*\<^sup>* ss (w_site w)" "maybeFake C (w_site w) sv"
  obtains ss' where "w_TempBlocked E url w = Inr (w \<lparr>w_site := ss'\<rparr>)"
    "TempBlocked (w_now E w) url (w_site w) = Inr ss'"
proof -
  have "SiteStat_get (w_site w) (url_Host url) \<noteq> None"
    using sv_safe_mono [OF ss_steps_mono [OF assms(2)] assms(1)] assms(3)
    by (auto simp: sv_safe_def maybeFake_def)
  then obtain ss' where "TempBlocked (w_now E w) url (w_site w) = Inr ss'" by (rule TempBlocked_ok)
  then show thesis using that by (simp add: w_TempBlocked_def)
qed

text \<open>The error handlers never panic. For a connection that \<open>getServerConn\<close> returned, at any later
  time (other clients may have changed the table in between), and a request whose buffer is there
  unless only a part of it is left, \<open>handleServerReadError\<close>, \<open>handleServerWriteError\<close> and
  \<open>shouldRetry\<close> do not reach a panic.\<close>

theorem error_handlers_never_panic:
  assumes "sv_safe C ss (URL r) sv" "ss_step\<^sup>*\<^sup>* ss (w_site w)" "raw r \<noteq> None \<or> partial r"
  shows "handleServerReadError C E r sv x w \<noteq> Inl p \<and> handleServerWriteError C E r sv x w \<noteq> Inl p \<and>
    shouldRetry C E r sv re w \<noteq> Inl p"
proof (cases "maybeFake C (w_site w) sv")
  case True
  obtain ss' where "w_TempBlocked E (URL r) w = Inr (w \<lparr>w_site := ss'\<rparr>)"
    using sv_safe_TempBlocked [OF assms(1,2) True, where E = E] .
  then show ?thesis using assms(3)
    by (auto simp: handleServerReadError_def handleServerWriteError_def shouldRetry_def handleBlockedRequest_def)
next
  case False
  then show ?thesis using assms(3)
    by (auto simp: handleServerReadError_def handleServerWriteError_def shouldRetry_def)
qed

theorem error_handlers_never_panic_witness:
  "maybeFake ex_cfg ex_stat2 ex_sv \<and>
   (\<forall>p. handleServerReadError ex_cfg ex_xenv (ex_rq 1) ex_sv (NetError True ''i/o timeout'') (ex_world ex_stat2) \<noteq> Inl p \<and>
        shouldRetry ex_cfg ex_xenv (ex_rq 1) ex_sv (Some (RetryError EOF)) (ex_world ex_stat2) \<noteq> Inl p)"
  using ex_sv_safe(2) error_handlers_never_panic [OF ex_sv_safe(1) [of 1], of "ex_world ex_stat2"]
  by (simp add: ex_world_def ex_rq_def)



end
