(* ===== verification/Md5.thy ===== *)
theory Md5
  imports Util
begin

unbundle bit_operations_syntax

text \<open>
  The MD5 digest of Go's crypto/md5 (RFC 1321), over \<open>32 word\<close>, and \<open>md5sum\<close> of util.go.
  Words are read and written with the least significant byte first.
\<close>

definition md5_K :: "32 word list" where
  "md5_K =
    [
     0xd76aa478, 0xe8c7b756, 0x242070db, 0xc1bdceee, 0xf57c0faf, 0x4787c62a, 0xa8304613, 0xfd469501,
     0x698098d8, 0x8b44f7af, 0xffff5bb1, 0x895cd7be, 0x6b901122, 0xfd987193, 0xa679438e, 0x49b40821,
     0xf61e2562, 0xc040b340, 0x265e5a51, 0xe9b6c7aa, 0xd62f105d, 0x02441453, 0xd8a1e681, 0xe7d3fbc8,
     0x21e1cde6, 0xc33707d6, 0xf4d50d87, 0x455a14ed, 0xa9e3e905, 0xfcefa3f8, 0x676f02d9, 0x8d2a4c8a,
     0xfffa3942, 0x8771f681, 0x6d9d6122, 0xfde5380c, 0xa4beea44, 0x4bdecfa9, 0xf6bb4b60, 0xbebfbc70,
     0x289b7ec6, 0xeaa127fa, 0xd4ef3085, 0x04881d05, 0xd9d4d039, 0xe6db99e5, 0x1fa27cf8, 0xc4ac5665,
     0xf4292244, 0x432aff97, 0xab9423a7, 0xfc93a039, 0x655b59c3, 0x8f0ccc92, 0xffeff47d, 0x85845dd1,
     0x6fa87e4f, 0xfe2ce6e0, 0xa3014314, 0x4e0811a1, 0xf7537e82, 0xbd3af235, 0x2ad7d2bb, 0xeb86d391
    ]"

definition md5_shift :: "nat list" where
  "md5_shift =
     concat (replicate 4 [7, 12, 17, 22]) @ concat (replicate 4 [5, 9, 14, 20]) @
     concat (replicate 4 [4, 11, 16, 23]) @ concat (replicate 4 [6, 10, 15, 21])"

type_synonym md5_state = "32 word \<times> 32 word \<times> 32 word \<times> 32 word"

definition word_le :: "bytes \<Rightarrow> 32 word" where
  "word_le b = foldr (\<lambda>c acc. of_nat (byte_val c) + 256 * acc) b 0"

definition bytes_le :: "nat \<Rightarrow> nat \<Rightarrow> bytes" where
  "bytes_le k n = map (\<lambda>i. char_of (n div 256 ^ i mod 256)) [0..<k]"

definition md5_step :: "32 word list \<Rightarrow> nat \<Rightarrow> md5_state \<Rightarrow> md5_state" where
  "md5_step x i s =
     (case s of (a, b, c, d) \<Rightarrow>
        (let (f, g) =
           (if i < 16 then ((b AND c) OR (NOT b AND d), i)
            else if i < 32 then ((d AND b) OR (NOT d AND c), (5 * i + 1) mod 16)
            else if i < 48 then (b XOR c XOR d, (3 * i + 5) mod 16)
            else (c XOR (b OR NOT d), (7 * i) mod 16))
         in (d, b + word_rotl (md5_shift ! i) (f + a + md5_K ! i + x ! g), b, c)))"

definition md5_block :: "bytes \<Rightarrow> md5_state \<Rightarrow> md5_state" where
  "md5_block blk s =
     (let x = map (\<lambda>j. word_le (take 4 (drop (4 * j) blk))) [0..<16] in
      case s of (a, b, c, d) \<Rightarrow>
        (case fold (md5_step x) [0..<64] s of (a', b', c', d') \<Rightarrow> (a + a', b + b', c + c', d + d')))"

definition md5_pad :: "bytes \<Rightarrow> bytes" where
  "md5_pad m =
     m @ CHR 0x80 # replicate ((119 - length m mod 64) mod 64) (CHR 0x00) @
     bytes_le 8 (8 * length m)"

definition md5_init :: md5_state where
  "md5_init = (0x67452301, 0xefcdab89, 0x98badcfe, 0x10325476)"

definition md5_Sum :: "bytes \<Rightarrow> bytes" where
  "md5_Sum m =
     (let p = md5_pad m in
      case fold (\<lambda>i. md5_block (take 64 (drop (64 * i) p))) [0..<length p div 64] md5_init of
        (a, b, c, d) \<Rightarrow> concat (map (\<lambda>w. bytes_le 4 (unat w)) [a, b, c, d]))"

text \<open>\<open>%x\<close> of a byte slice: two lower case digits for each byte.\<close>

definition hex_bytes :: "bytes \<Rightarrow> bytes" where
  "hex_bytes b = concat (map (\<lambda>c. [digit_char (byte_val c div 16), digit_char (byte_val c mod 16)]) b)"

definition md5sum :: "bytes list \<Rightarrow> bytes" where
  "md5sum ss = hex_bytes (md5_Sum (concat ss))"

lemma length_bytes_le [simp]: "length (bytes_le k n) = k"
  by (simp add: bytes_le_def)

lemma length_md5_Sum [simp]: "length (md5_Sum m) = 16"
  by (simp add: md5_Sum_def Let_def split: prod.split)

lemma length_md5sum [simp]: "length (md5sum ss) = 32"
proof -
  have "length (hex_bytes b) = 2 * length b" for b by (induction b) (simp_all add: hex_bytes_def)
  then show ?thesis by (simp add: md5sum_def)
qed

text \<open>The padded message is a whole number of blocks.\<close>

lemma md5_pad_zeros:
  assumes "k < (64 :: nat)"
  shows "(k + ((119 - k) mod 64 + 9)) mod 64 = 0"
proof (cases "k \<le> 55")
  case True
  then have "119 - k = 55 - k + 64" by simp
  then have "(119 - k) mod 64 = 55 - k" by (simp only: mod_add_self2) simp
  then show ?thesis using True by simp
next
  case False
  then have "(119 - k) mod 64 = 119 - k" by simp
  then have "k + ((119 - k) mod 64 + 9) = 128" using assms by simp
  then show ?thesis by simp
qed

lemma md5_pad_blocks: "length (md5_pad m) mod 64 = 0"
proof -
  have "length (md5_pad m) = length m + ((119 - length m mod 64) mod 64 + 9)" by (simp add: md5_pad_def)
  then have "length (md5_pad m) mod 64 = (length m mod 64 + ((119 - length m mod 64) mod 64 + 9)) mod 64"
    by (simp only: mod_add_left_eq)
  also have "\<dots> = 0" by (rule md5_pad_zeros) simp
  finally show ?thesis .
qed

end
