(* ===== verification/Auth.thy ===== *)
theory Auth
  imports Timeouts Http Md5
begin

text \<open>
  auth.go: the configuration of users and allowed clients (\<open>parseUserPasswd\<close>,
  \<open>parseAllowedClient\<close>, \<open>initAuth\<close>), and the authentication of a request (\<open>Authenticate\<close>) by
  client address, basic or digest credentials.

  The global \<open>auth\<close> is the record \<open>auth_state\<close>; the map of users is an association list. A
  client connection is given by its two addresses. \<open>Fatal\<close>, which ends the program, and panics
  are the left summand of the result. The clock, the client's writer and the function that sends
  an error page are arguments. Offsets in the texts of the library's errors are left out.
\<close>

unbundle bit_operations_syntax

section \<open>What the code uses of the standard library\<close>

text \<open>\<open>base64.StdEncoding.DecodeString\<close>.\<close>

definition b64_digit :: "char \<Rightarrow> nat option" where
  "b64_digit c =
     (let v = byte_val c in
      if 65 \<le> v \<and> v \<le> 90 then Some (v - 65)
      else if 97 \<le> v \<and> v \<le> 122 then Some (v - 71)
      else if 48 \<le> v \<and> v \<le> 57 then Some (v + 4)
      else if c = CHR ''+'' then Some 62
      else if c = CHR ''/'' then Some 63
      else None)"

fun b64_groups :: "bytes \<Rightarrow> bytes option" where
  "b64_groups [] = Some []"
| "b64_groups (a # b # c # d # rest) =
     (case (b64_digit a, b64_digit b) of
        (Some w, Some x) \<Rightarrow>
          (case b64_digit c of
             None \<Rightarrow> if c = CHR ''='' \<and> d = CHR ''='' \<and> rest = []
                      then Some [char_of (4 * w + x div 16)] else None
           | Some y \<Rightarrow>
               (case b64_digit d of
                  None \<Rightarrow> if d = CHR ''='' \<and> rest = []
                           then Some [char_of (4 * w + x div 16), char_of (16 * x + y div 4)] else None
                | Some z \<Rightarrow>
                    (case b64_groups rest of
                       None \<Rightarrow> None
                     | Some out \<Rightarrow>
                         Some (char_of (4 * w + x div 16) # char_of (16 * x + y div 4) #
                               char_of (64 * y + z) # out))))
      | _ \<Rightarrow> None)"
| "b64_groups _ = None"

definition b64_decode :: "bytes \<Rightarrow> bytes option" where
  "b64_decode s = b64_groups (filter (\<lambda>c. c \<noteq> CR \<and> c \<noteq> LF) s)"

text \<open>\<open>base64.StdEncoding.EncodeToString\<close>, as a reference for the clients.\<close>

definition b64_char :: "nat \<Rightarrow> char" where
  "b64_char n =
     (if n < 26 then char_of (n + 65) else if n < 52 then char_of (n + 71)
      else if n < 62 then char_of (n - 4) else if n = 62 then CHR ''+'' else CHR ''/'')"

fun b64_encode :: "bytes \<Rightarrow> bytes" where
  "b64_encode [] = []"
| "b64_encode [a] =
     [b64_char (byte_val a div 4), b64_char (byte_val a mod 4 * 16), CHR ''='', CHR ''='']"
| "b64_encode [a, b] =
     [b64_char (byte_val a div 4), b64_char (byte_val a mod 4 * 16 + byte_val b div 16),
      b64_char (byte_val b mod 16 * 4), CHR ''='']"
| "b64_encode (a # b # c # rest) =
     b64_char (byte_val a div 4) # b64_char (byte_val a mod 4 * 16 + byte_val b div 16) #
     b64_char (byte_val b mod 16 * 4 + byte_val c div 64) # b64_char (byte_val c mod 64) #
     b64_encode rest"

text \<open>\<open>strconv.ParseInt(s, 16, 64)\<close> and \<open>%x\<close> of an integer.\<close>

definition ParseInt16 :: "bytes \<Rightarrow> int option" where
  "ParseInt16 s =
     (if s = [] then None
      else
        (let neg = hd s = CHR ''-'';
             d = (if neg \<or> hd s = CHR ''+'' then tl s else s)
         in if d = [] \<or> \<not> list_all is_hex_char d then None
            else if \<not> neg \<and> hex_value d \<ge> 2 ^ 63 \<or> neg \<and> hex_value d > 2 ^ 63 then None
            else Some (if neg then - int (hex_value d) else int (hex_value d))))"

definition fmt_x :: "int \<Rightarrow> bytes" where
  "fmt_x i = (if i < 0 then CHR ''-'' # nat_digits 16 (nat (- i)) else nat_digits 16 (nat i))"

text \<open>\<open>time.Unix(sec, 0)\<close>, whose seconds are kept relative to year 1, and \<open>Time.Unix\<close>.\<close>

definition time_Unix :: "int \<Rightarrow> time" where
  "time_Unix sec = (go_int (sec + 62135596800) - 62135596800) * 1000000000"

definition unix_sec :: "time \<Rightarrow> int" where
  "unix_sec t = t div 1000000000"

text \<open>The value \<open>strconv.Atoi\<close> returns when its error is ignored.\<close>

definition Atoi_value :: "bytes \<Rightarrow> int" where
  "Atoi_value s =
     (case Atoi s of
        Some v \<Rightarrow> v
      | None \<Rightarrow>
          (let d = (if s \<noteq> [] \<and> (hd s = CHR ''-'' \<or> hd s = CHR ''+'') then tl s else s)
           in if d = [] \<or> \<not> list_all is_digit_char d then 0
              else if hd s = CHR ''-'' then - (2 ^ 63) else 2 ^ 63 - 1))"

section \<open>Users and allowed clients\<close>

record netAddr =
  na_ip :: bytes
  na_mask :: bytes

record authUser =
  passwd :: bytes
  ha1 :: bytes
  au_port :: "16 word"

record auth_state =
  auth_required :: bool
  auth_user :: "(bytes \<times> authUser) list"
  allowedClient :: "netAddr list"
  authed :: "TimeoutSet option"

definition auth_zero :: auth_state where
  "auth_zero = \<lparr>auth_required = False, auth_user = [], allowedClient = [], authed = None\<rparr>"

definition authRealm :: bytes where
  "authRealm = ''cow proxy''"

definition initHA1 :: "bytes \<Rightarrow> authUser \<Rightarrow> authUser" where
  "initHA1 user au =
     (if ha1 au = [] then au \<lparr>ha1 := md5sum [user @ '':'' @ authRealm @ '':'' @ passwd au]\<rparr> else au)"

definition parseUserPasswd :: "bytes \<Rightarrow> err + (bytes \<times> authUser)" where
  "parseUserPasswd userPasswd =
     (let arr = Split userPasswd '':''; n = length arr
      in if n = 1 \<or> n > 3 then
           Inl (ErrorString (''user password: '' @ userPasswd @
             '' syntax wrong, should be username:password[:port]''))
         else if arr ! 0 = [] \<or> arr ! 1 = [] then
           Inl (ErrorString (''user password '' @ userPasswd @
             '' should not contain empty user name or password''))
         else if n = 3 \<and> arr ! 2 \<noteq> [] then
           (case Atoi (arr ! 2) of
              None \<Rightarrow> Inl (ErrorString (''user password: '' @ userPasswd @ '' invalid port''))
            | Some port \<Rightarrow>
                if port \<le> 0 \<or> port > 0xffff
                then Inl (ErrorString (''user password: '' @ userPasswd @ '' invalid port''))
                else Inr (arr ! 0, \<lparr>passwd = arr ! 1, ha1 = [], au_port = word_of_int port\<rparr>))
         else Inr (arr ! 0, \<lparr>passwd = arr ! 1, ha1 = [], au_port = 0\<rparr>))"

text \<open>One entry of \<open>allowedClient\<close>, and the loop over the entries.\<close>

definition parseAllowedEntry :: "bytes \<Rightarrow> netAddr may_panic" where
  "parseAllowedEntry v =
     (let s = strings_TrimSpace v; ipAndMask = Split s ''/''
      in if length ipAndMask > 2 then
           Inl ''allowedClient syntax error: client should be the form ip/nbitmask''
         else
           (case ParseIP (ipAndMask ! 0) of
              None \<Rightarrow> Inl (''allowedClient syntax error '' @ s @ '': ip address not valid'')
            | Some ip \<Rightarrow>
                (let mk = (\<lambda>m. case m of Inl p \<Rightarrow> Inl p
                            | Inr msk \<Rightarrow> Inr \<lparr>na_ip = IP_Mask ip msk, na_mask = msk\<rparr>)
                 in if length ipAndMask = 2 then
                      (case Atoi (ipAndMask ! 1) of
                         None \<Rightarrow> Inl (''allowedClient syntax error '' @ s)
                       | Some nbit \<Rightarrow>
                           if nbit > 32 then Inl ''allowedClient error: mask number should <= 32''
                           else mk (NewNbitIPv4Mask nbit))
                    else mk (NewNbitIPv4Mask 32))))"

fun parseAllowed_loop :: "bytes list \<Rightarrow> netAddr list may_panic" where
  "parseAllowed_loop [] = Inr []"
| "parseAllowed_loop (v # arr) =
     (case parseAllowedEntry v of
        Inl p \<Rightarrow> Inl p
      | Inr na \<Rightarrow> (case parseAllowed_loop arr of Inl p \<Rightarrow> Inl p | Inr nas \<Rightarrow> Inr (na # nas)))"

definition parseAllowedClient :: "bytes \<Rightarrow> auth_state \<Rightarrow> auth_state may_panic" where
  "parseAllowedClient val a =
     (if val = [] then Inr a
      else
        (case parseAllowed_loop (Split val '','') of
           Inl p \<Rightarrow> Inl p | Inr nas \<Rightarrow> Inr (a \<lparr>allowedClient := nas\<rparr>)))"

definition addUserPasswd :: "bytes \<Rightarrow> auth_state \<Rightarrow> auth_state may_panic" where
  "addUserPasswd val a =
     (if val = [] then Inr a
      else
        (case parseUserPasswd val of
           Inl e \<Rightarrow> Inl ''user password error''
         | Inr (user, au) \<Rightarrow>
             (if map_of (auth_user a) user \<noteq> None then Inl (''duplicate user:'' @ user)
              else Inr (a \<lparr>auth_user := AList.update user au (auth_user a)\<rparr>))))"

text \<open>\<open>lines\<close> is what opening and scanning the password file gives.\<close>

fun addUser_lines :: "bytes list \<Rightarrow> auth_state \<Rightarrow> auth_state may_panic" where
  "addUser_lines [] a = Inr a"
| "addUser_lines (l # ls) a =
     (case addUserPasswd l a of Inl p \<Rightarrow> Inl p | Inr a1 \<Rightarrow> addUser_lines ls a1)"

definition loadUserPasswdFile ::
    "(bytes \<Rightarrow> err + bytes list) \<Rightarrow> bytes \<Rightarrow> auth_state \<Rightarrow> auth_state may_panic" where
  "loadUserPasswdFile open file a =
     (if file = [] then Inr a
      else
        (case open file of
           Inl e \<Rightarrow> Inl ''error opening user passwd fle:''
         | Inr lines \<Rightarrow> addUser_lines lines a))"

record auth_config =
  UserPasswd :: bytes
  UserPasswdFile :: bytes
  AllowedClient :: bytes
  AuthTimeout :: duration

definition initAuth ::
    "(bytes \<Rightarrow> err + bytes list) \<Rightarrow> auth_config \<Rightarrow> auth_state \<Rightarrow> auth_state may_panic" where
  "initAuth open C a =
     (if UserPasswd C = [] \<and> UserPasswdFile C = [] \<and> AllowedClient C = [] then Inr a
      else
        (case addUserPasswd (UserPasswd C) (a \<lparr>auth_required := True, auth_user := []\<rparr>) of
           Inl p \<Rightarrow> Inl p
         | Inr a1 \<Rightarrow>
             (case loadUserPasswdFile open (UserPasswdFile C) a1 of
                Inl p \<Rightarrow> Inl p
              | Inr a2 \<Rightarrow>
                  (case parseAllowedClient (AllowedClient C) a2 of
                     Inl p \<Rightarrow> Inl p
                   | Inr a3 \<Rightarrow> Inr (a3 \<lparr>authed := Some (NewTimeoutSet (AuthTimeout C))\<rparr>)))))"

section \<open>Checking a request\<close>

record cli_addr =
  remoteAddr :: bytes
  localAddr :: bytes

record 'w cli_out =
  co_write :: "'w writer"
  co_page :: "bytes \<Rightarrow> 'w \<Rightarrow> 'w"

definition authIP :: "bytes \<Rightarrow> auth_state \<Rightarrow> bool may_panic" where
  "authIP clientIP a =
     (case ParseIP clientIP of
        None \<Rightarrow> Inl ''authIP should always get IP address''
      | Some ip \<Rightarrow> Inr (\<exists>na \<in> set (allowedClient a). IP_Equal (IP_Mask ip (na_mask na)) (na_ip na)))"

definition genNonce :: "time \<Rightarrow> bytes" where
  "genNonce now = fmt_x (unix_sec now)"

definition kv_get :: "(bytes \<rightharpoonup> bytes) \<Rightarrow> bytes \<Rightarrow> bytes" where
  "kv_get kv k = (case kv k of None \<Rightarrow> [] | Some v \<Rightarrow> v)"

definition calcRequestDigest :: "(bytes \<rightharpoonup> bytes) \<Rightarrow> bytes \<Rightarrow> bytes \<Rightarrow> bytes" where
  "calcRequestDigest kv h1 meth =
     md5sum [Join [h1, kv_get kv ''nonce'', kv_get kv ''nc'', kv_get kv ''cnonce'', ''auth'',
                   md5sum [meth @ '':'' @ kv_get kv ''uri'']] '':'']"

definition authPort :: "cli_addr \<Rightarrow> authUser \<Rightarrow> err option" where
  "authPort cl au =
     (if au_port au = 0 then None
      else
        (let portStr = (case SplitHostPort (localAddr cl) of None \<Rightarrow> [] | Some (h, p) \<Rightarrow> p);
             port = Atoi_value portStr
         in if word_of_int port \<noteq> au_port au then Some ErrAuthRequired else None))"

definition authBasic :: "cli_addr \<Rightarrow> bytes \<Rightarrow> auth_state \<Rightarrow> err option" where
  "authBasic cl userPasswd a =
     (case b64_decode userPasswd of
        None \<Rightarrow> Some (ErrorString ''auth:illegal base64 data'')
      | Some b64 \<Rightarrow>
          (let arr = Split b64 '':''
           in if length arr \<noteq> 2 then Some (ErrorString ''auth: malformed basic auth user:passwd'')
              else
                (case map_of (auth_user a) (arr ! 0) of
                   None \<Rightarrow> Some ErrAuthRequired
                 | Some au \<Rightarrow>
                     if passwd au \<noteq> arr ! 1 then Some ErrAuthRequired else authPort cl au)))"

definition authDigest ::
    "time \<Rightarrow> cli_addr \<Rightarrow> Request \<Rightarrow> bytes \<Rightarrow> auth_state \<Rightarrow> err option \<times> auth_state" where
  "authDigest now cl r keyVal a =
     (case parseKeyValueList keyVal of
        None \<Rightarrow> (Some (ErrorString ''auth: empty authorization list''), a)
      | Some authHeader \<Rightarrow>
          (case ParseInt16 (kv_get authHeader ''nonce'') of
             None \<Rightarrow> (Some (ErrorString ''auth: nonce''), a)
           | Some nonceTime \<Rightarrow>
               (if time_Sub now (time_Unix nonceTime) > minute then (Some ErrAuthRequired, a)
                else
                  (let user = kv_get authHeader ''username''
                   in case map_of (auth_user a) user of
                        None \<Rightarrow> (Some ErrAuthRequired, a)
                      | Some au \<Rightarrow>
                          (case authPort cl au of
                             Some e \<Rightarrow> (Some e, a)
                           | None \<Rightarrow>
                               (if kv_get authHeader ''qop'' \<noteq> ''auth'' then
                                  (Some (ErrorString (''auth: qop wrong: '' @ kv_get authHeader ''qop'')), a)
                                else
                                  (case authHeader ''response'' of
                                     None \<Rightarrow> (Some (ErrorString ''auth: no request-digest response''), a)
                                   | Some response \<Rightarrow>
                                       (let au1 = initHA1 user au;
                                            a1 = a \<lparr>auth_user := AList.update user au1 (auth_user a)\<rparr>
                                        in if response \<noteq> calcRequestDigest authHeader (ha1 au1) (Method r)
                                           then (Some ErrAuthRequired, a1) else (None, a1)))))))))"

definition checkProxyAuthorization ::
    "(bytes \<Rightarrow> bytes) \<Rightarrow> time \<Rightarrow> cli_addr \<Rightarrow> Request \<Rightarrow> auth_state \<Rightarrow> err option \<times> auth_state" where
  "checkProxyAuthorization uni now cl r a =
     (let arr = SplitN (ProxyAuthorization (header r)) '' '' 2
      in if length arr \<noteq> 2 then
           (Some (ErrorString (''auth: malformed ProxyAuthorization header: '' @ ProxyAuthorization (header r))), a)
         else
           (let authMethod = strings_ToLower uni (strings_TrimSpace (arr ! 0))
            in if authMethod = ''digest'' then authDigest now cl r (arr ! 1) a
               else if authMethod = ''basic'' then (authBasic cl (arr ! 1) a, a)
               else (Some (ErrorString (''auth: method '' @ arr ! 0 @ '' unsupported, must use digest'')), a)))"

definition authRawBodyTmpl :: bytes where
  "authRawBodyTmpl =
     ''<!DOCTYPE html>'' @ [LF] @ ''<html>'' @ [LF] @
     CHR 0x09 # ''<head> <title>COW Proxy</title> </head>'' @ [LF] @
     CHR 0x09 # ''<body>'' @ [LF] @
     [CHR 0x09, CHR 0x09] @ ''<h1>407 Proxy authentication required</h1>'' @ [LF] @
     [CHR 0x09, CHR 0x09] @ ''<hr />'' @ [LF] @
     [CHR 0x09, CHR 0x09] @ ''Generated by <i>COW</i>'' @ [LF] @
     CHR 0x09 # ''</body>'' @ [LF] @ ''</html>'' @ [LF]"

definition auth_response :: "bytes \<Rightarrow> bytes" where
  "auth_response nonce =
     ''HTTP/1.1 407 Proxy Authentication Required'' @ CRLF @
     ''Proxy-Authenticate: Digest realm='' @ [CHR 0x22] @ authRealm @ [CHR 0x22] @ '', nonce='' @ [CHR 0x22] @
     nonce @ [CHR 0x22] @ '', qop='' @ [CHR 0x22] @ ''auth'' @ [CHR 0x22] @ CRLF @
     ''Content-Type: text/html'' @ CRLF @ ''Cache-Control: no-cache'' @ CRLF @
     ''Content-Length: '' @ Itoa (int (length authRawBodyTmpl)) @ CRLF @ CRLF @ authRawBodyTmpl"

definition send_challenge :: "'w cli_out \<Rightarrow> time \<Rightarrow> 'w \<Rightarrow> err option \<times> 'w" where
  "send_challenge out now w =
     (case co_write out (auth_response (genNonce now)) w of
        (n, Some e, w1) \<Rightarrow> (Some (ErrorString (''send auth response error: '' @ err_Error e)), w1)
      | (n, None, w1) \<Rightarrow> (Some ErrAuthRequired, w1))"

definition authUserPasswd ::
    "(bytes \<Rightarrow> bytes) \<Rightarrow> 'w cli_out \<Rightarrow> time \<Rightarrow> cli_addr \<Rightarrow> Request \<Rightarrow> auth_state \<Rightarrow> 'w \<Rightarrow>
     err option \<times> auth_state \<times> 'w" where
  "authUserPasswd uni out now cl r a w =
     (if ProxyAuthorization (header r) \<noteq> [] then
        (case checkProxyAuthorization uni now cl r a of
           (None, a1) \<Rightarrow> (None, a1, w)
         | (Some e, a1) \<Rightarrow>
             (if e \<noteq> ErrAuthRequired then (Some e, a1, co_page out ''400 Bad Request'' w)
              else (case send_challenge out now w of (e2, w1) \<Rightarrow> (e2, a1, w1))))
      else (case send_challenge out now w of (e2, w1) \<Rightarrow> (e2, a, w1)))"

definition ts_has_opt :: "time \<Rightarrow> bytes \<Rightarrow> auth_state \<Rightarrow> (bool \<times> auth_state) may_panic" where
  "ts_has_opt now key a =
     (case authed a of
        None \<Rightarrow> Inl ''nil TimeoutSet''
      | Some ts \<Rightarrow> (case ts_has now key ts of (b, ts1) \<Rightarrow> Inr (b, a \<lparr>authed := Some ts1\<rparr>)))"

definition auth_remember :: "time \<Rightarrow> bytes \<Rightarrow> auth_state \<Rightarrow> auth_state" where
  "auth_remember now key a = a \<lparr>authed := map_option (ts_add now key) (authed a)\<rparr>"

definition Authenticate ::
    "(bytes \<Rightarrow> bytes) \<Rightarrow> 'w cli_out \<Rightarrow> time \<Rightarrow> cli_addr \<Rightarrow> Request \<Rightarrow> auth_state \<Rightarrow> 'w \<Rightarrow>
     (err option \<times> auth_state \<times> 'w) may_panic" where
  "Authenticate uni out now cl r a w =
     (let clientIP = (case SplitHostPort (remoteAddr cl) of None \<Rightarrow> [] | Some (h, p) \<Rightarrow> h)
      in case ts_has_opt now clientIP a of
           Inl p \<Rightarrow> Inl p
         | Inr (True, a1) \<Rightarrow> Inr (None, a1, w)
         | Inr (False, a1) \<Rightarrow>
             (case authIP clientIP a1 of
                Inl p \<Rightarrow> Inl p
              | Inr True \<Rightarrow> Inr (None, a1, w)
              | Inr False \<Rightarrow>
                  (case authUserPasswd uni out now cl r a1 w of
                     (None, a2, w1) \<Rightarrow> Inr (None, auth_remember now clientIP a2, w1)
                   | (Some e, a2, w1) \<Rightarrow> Inr (Some e, a2, w1))))"

lemma byte_val_lt [simp]: "byte_val c < 256"
  using nat_of_char_less_256 by simp

lemma char_of_plus_256 [simp]: "char_of (byte_val c + 256 * y) = c"
proof -
  have "char_of ((byte_val c + 256 * y) mod 256) = c" by simp
  then show ?thesis by (simp only: char_of_mod_256)
qed

lemma b64_digit_char [simp]: "n < 64 \<Longrightarrow> b64_digit (b64_char n) = Some n"
proof -
  assume n: "n < 64"
  consider "n < 26" | "26 \<le> n" "n < 52" | "52 \<le> n" "n < 62" | "n = 62" | "n = 63" using n by linarith
  then show ?thesis by cases (auto simp: b64_char_def b64_digit_def Let_def of_char_of)
qed

lemma b64_byte1: "x < 16 \<Longrightarrow> char_of (4 * (byte_val a div 4) + (byte_val a mod 4 * 16 + x) div 16) = a"
  by simp

lemma b64_byte2:
  assumes "x < 4"
  shows "char_of (16 * (y * 16 + byte_val b div 16) + (byte_val b mod 16 * 4 + x) div 4) = b"
proof -
  have "(byte_val b mod 16 * 4 + x) div 4 = byte_val b mod 16" using assms by simp
  then have "16 * (y * 16 + byte_val b div 16) + (byte_val b mod 16 * 4 + x) div 4 = byte_val b + 256 * y"
    by simp
  then show ?thesis by (simp only: char_of_plus_256)
qed

lemma b64_byte3: "char_of (64 * (y * 4 + byte_val c div 64) + byte_val c mod 64) = c"
proof -
  have "64 * (y * 4 + byte_val c div 64) + byte_val c mod 64 = byte_val c + 256 * y" by simp
  then show ?thesis by (simp only: char_of_plus_256)
qed

lemma b64_not_digit [simp]: "b64_digit (CHR ''='') = None"
  by (simp add: b64_digit_def)

lemma b64_bounds: "byte_val a div 4 < 64" "byte_val a mod 4 * 16 + byte_val b div 16 < 64"
  "byte_val b mod 16 * 4 + byte_val c div 64 < 64" "byte_val a mod 4 * 16 < 64" "byte_val b mod 16 * 4 < 64"
  "byte_val b div 16 < 16" "byte_val c div 64 < 4"
  using byte_val_lt [of a] byte_val_lt [of b] byte_val_lt [of c] by (simp_all add: less_mult_imp_div_less, linarith+)


lemma b64_groups_encode: "b64_groups (b64_encode s) = Some s"
proof (induction s rule: b64_encode.induct)
  case (2 a)
  then show ?case using b64_byte1 [of 0 a] b64_bounds by simp
next
  case (3 a b)
  then show ?case
    using b64_bounds b64_byte1 [OF b64_bounds(6)] b64_byte2 [of 0] by simp
next
  case (4 a b c rest)
  then show ?case
    using b64_bounds b64_byte1 [OF b64_bounds(6)] b64_byte2 [OF b64_bounds(7)] b64_byte3 by simp
qed simp

lemma b64_char_no_newline [simp]: "n < 64 \<Longrightarrow> b64_char n \<noteq> CR \<and> b64_char n \<noteq> LF"
proof -
  assume "n < 64"
  then have "b64_digit (b64_char n) = Some n" by simp
  moreover have "b64_digit CR = None" "b64_digit LF = None" by (simp_all add: b64_digit_def CR_def LF_def)
  ultimately show ?thesis by (metis option.distinct(1))
qed

lemma b64_encode_no_newline: "filter (\<lambda>c. c \<noteq> CR \<and> c \<noteq> LF) (b64_encode s) = b64_encode s"
proof -
  have "CHR ''='' \<noteq> CR" "CHR ''='' \<noteq> LF" by (simp_all add: CR_def LF_def)
  then show ?thesis by (induction s rule: b64_encode.induct) (use b64_bounds in \<open>simp_all\<close>)
qed

lemma b64_decode_encode [simp]: "b64_decode (b64_encode s) = Some s"
  by (simp add: b64_decode_def b64_encode_no_newline b64_groups_encode)

section \<open>The configured users\<close>

definition user_ok :: "bytes \<Rightarrow> authUser \<Rightarrow> bool" where
  "user_ok user au \<longleftrightarrow>
     user \<noteq> [] \<and> passwd au \<noteq> [] \<and> CHR '':'' \<notin> set user \<and> CHR '':'' \<notin> set (passwd au) \<and>
     (ha1 au = [] \<or> ha1 au = md5sum [user @ '':'' @ authRealm @ '':'' @ passwd au])"

definition auth_ok :: "auth_state \<Rightarrow> bool" where
  "auth_ok a \<longleftrightarrow> (\<forall>user au. map_of (auth_user a) user = Some au \<longrightarrow> user_ok user au)"

lemma Split_colon_free: "x \<in> set (Split s '':'') \<Longrightarrow> CHR '':'' \<notin> set x"
  by (simp add: Split_char split_char_parts)

lemma parseUserPasswd_Inr:
  assumes "parseUserPasswd s = Inr (user, au)"
  shows "user_ok user au \<and> ha1 au = []"
proof -
  let ?arr = "Split s '':''"
  have n: "length ?arr \<noteq> 1" "length ?arr \<le> 3" "?arr ! 0 \<noteq> []" "?arr ! 1 \<noteq> []"
    using assms by (auto simp: parseUserPasswd_def Let_def split: if_splits)
  have e: "user = ?arr ! 0" "passwd au = ?arr ! 1" "ha1 au = []"
    using assms by (auto simp: parseUserPasswd_def Let_def split: if_splits option.splits)
  have "length ?arr \<noteq> 0" by (simp add: Split_char)
  then have "0 < length ?arr" "1 < length ?arr" using n(1) by linarith+
  then have "?arr ! 0 \<in> set ?arr" "?arr ! 1 \<in> set ?arr" by (simp_all add: nth_mem)
  then show ?thesis using Split_colon_free n e by (auto simp: user_ok_def)
qed

lemma auth_ok_update:
  "auth_ok a \<Longrightarrow> user_ok user au \<Longrightarrow> auth_ok (a \<lparr>auth_user := AList.update user au (auth_user a)\<rparr>)"
  by (auto simp: auth_ok_def update_conv' split: if_splits)

lemma auth_ok_other [simp]:
  "auth_ok (a \<lparr>allowedClient := x\<rparr>) = auth_ok a" "auth_ok (a \<lparr>authed := y\<rparr>) = auth_ok a"
  "auth_ok (a \<lparr>auth_required := b\<rparr>) = auth_ok a"
  by (simp_all add: auth_ok_def)

lemma addUserPasswd_ok: "addUserPasswd v a = Inr a' \<Longrightarrow> auth_ok a \<Longrightarrow> auth_ok a'"
  using parseUserPasswd_Inr
  by (auto simp: addUserPasswd_def intro!: auth_ok_update split: if_splits sum.splits)

lemma addUser_lines_ok: "addUser_lines ls a = Inr a' \<Longrightarrow> auth_ok a \<Longrightarrow> auth_ok a'"
  by (induction ls a rule: addUser_lines.induct) (auto split: sum.splits dest: addUserPasswd_ok)

lemma initAuth_ok:
  assumes "initAuth open C a = Inr a'" "auth_ok a"
  shows "auth_ok a'"
proof -
  have "auth_ok (a \<lparr>auth_required := True, auth_user := []\<rparr>)" by (simp add: auth_ok_def)
  then show ?thesis using assms
    by (auto simp: initAuth_def loadUserPasswdFile_def parseAllowedClient_def
        split: if_splits sum.splits dest!: addUserPasswd_ok addUser_lines_ok)
qed

section \<open>Who is let in\<close>

text \<open>What a client has to show, for the two methods.\<close>

definition basic_proof :: "auth_state \<Rightarrow> cli_addr \<Rightarrow> bytes \<Rightarrow> bool" where
  "basic_proof a cl tok \<longleftrightarrow>
     (\<exists>user au. map_of (auth_user a) user = Some au \<and> b64_decode tok = Some (user @ '':'' @ passwd au) \<and>
        authPort cl au = None)"

definition digest_proof :: "time \<Rightarrow> auth_state \<Rightarrow> cli_addr \<Rightarrow> bytes \<Rightarrow> bytes \<Rightarrow> bool" where
  "digest_proof now a cl meth tok \<longleftrightarrow>
     (\<exists>kv user au t. parseKeyValueList tok = Some kv \<and> kv ''username'' = Some user \<and>
        map_of (auth_user a) user = Some au \<and> authPort cl au = None \<and> kv ''qop'' = Some ''auth'' \<and>
        ParseInt16 (kv_get kv ''nonce'') = Some t \<and> time_Sub now (time_Unix t) \<le> minute \<and>
        kv ''response'' = Some (calcRequestDigest kv (md5sum [user @ '':'' @ authRealm @ '':'' @ passwd au]) meth))"

definition shown_proof :: "(bytes \<Rightarrow> bytes) \<Rightarrow> time \<Rightarrow> auth_state \<Rightarrow> cli_addr \<Rightarrow> Request \<Rightarrow> bool" where
  "shown_proof uni now a cl r \<longleftrightarrow>
     (\<exists>s tok. SplitN (ProxyAuthorization (header r)) '' '' 2 = [s, tok] \<and>
        (strings_ToLower uni (strings_TrimSpace s) = ''basic'' \<and> basic_proof a cl tok \<or>
         strings_ToLower uni (strings_TrimSpace s) = ''digest'' \<and> digest_proof now a cl (Method r) tok))"

lemma authBasic_iff:
  assumes "auth_ok a"
  shows "authBasic cl tok a = None \<longleftrightarrow> basic_proof a cl tok"
proof (cases "b64_decode tok")
  case None
  then show ?thesis by (simp add: authBasic_def basic_proof_def)
next
  case (Some b)
  have split: "Split b '':'' = [u, p] \<longleftrightarrow> b = u @ '':'' @ p" if "CHR '':'' \<notin> set u" "CHR '':'' \<notin> set p" for u p
  proof
    have "Join (Split b '':'') '':'' = b" by (simp add: Split_char)
    then show "Split b '':'' = [u, p] \<Longrightarrow> b = u @ '':'' @ p" by simp
  qed (simp add: Split_char that)
  show ?thesis
  proof
    assume l: "authBasic cl tok a = None"
    then obtain u p where up: "Split b '':'' = [u, p]"
      using Some by (auto simp: authBasic_def Let_def numeral_2_eq_2 length_Suc_conv split: if_splits)
    then have "CHR '':'' \<notin> set u" "CHR '':'' \<notin> set p" using Split_colon_free [of _ b] by auto
    then have b: "b = u @ '':'' @ p" using split up by blast
    obtain au where "map_of (auth_user a) u = Some au" "passwd au = p" "authPort cl au = None"
      using l Some up by (auto simp: authBasic_def split: option.splits if_splits)
    then show "basic_proof a cl tok" using Some b by (auto simp: basic_proof_def)
  next
    assume "basic_proof a cl tok"
    then obtain u au where a: "map_of (auth_user a) u = Some au" "b = u @ '':'' @ passwd au" "authPort cl au = None"
      using Some by (auto simp: basic_proof_def)
    then have "Split b '':'' = [u, passwd au]" using assms split by (simp add: auth_ok_def user_ok_def)
    then show "authBasic cl tok a = None" using Some a by (simp add: authBasic_def)
  qed
qed

lemma initHA1_value:
  assumes "user_ok user au"
  shows "ha1 (initHA1 user au) = md5sum [user @ '':'' @ authRealm @ '':'' @ passwd au]"
    "user_ok user (initHA1 user au)"
  using assms by (auto simp: initHA1_def user_ok_def)

lemma kv_get_Some: "v \<noteq> [] \<Longrightarrow> kv_get kv k = v \<longleftrightarrow> kv k = Some v"
  by (cases "kv k") (auto simp: kv_get_def)

lemma authDigest_iff:
  assumes "auth_ok a" "authDigest now cl r tok a = (e, a')"
  shows "(e = None \<longleftrightarrow> digest_proof now a cl (Method r) tok) \<and> auth_ok a' \<and>
    authed a' = authed a \<and> allowedClient a' = allowedClient a"
proof (cases "\<exists>kv t au. parseKeyValueList tok = Some kv \<and> ParseInt16 (kv_get kv ''nonce'') = Some t \<and>
      time_Sub now (time_Unix t) \<le> minute \<and> map_of (auth_user a) (kv_get kv ''username'') = Some au \<and>
      authPort cl au = None \<and> kv_get kv ''qop'' = ''auth'' \<and> kv ''response'' \<noteq> None")
  case False
  then have "e \<noteq> None" "a' = a"
    using assms(2) by (auto simp: authDigest_def Let_def split: option.splits if_splits) metis
  moreover have "\<not> digest_proof now a cl (Method r) tok"
    using False by (auto simp: digest_proof_def kv_get_def)
  ultimately show ?thesis using assms by simp
next
  case True
  then obtain kv t au resp where k: "parseKeyValueList tok = Some kv" "ParseInt16 (kv_get kv ''nonce'') = Some t"
      "time_Sub now (time_Unix t) \<le> minute" "map_of (auth_user a) (kv_get kv ''username'') = Some au"
      "authPort cl au = None" "kv_get kv ''qop'' = ''auth''" "kv ''response'' = Some resp" by blast
  define user where "user = kv_get kv ''username''"
  have u: "user_ok user au" using k(4) assms(1) by (auto simp: auth_ok_def user_def)
  have us: "kv ''username'' = Some user" using u kv_get_Some [of user kv] by (auto simp: user_ok_def user_def)
  have q: "kv ''qop'' = Some ''auth''" using k(6) kv_get_Some by simp
  note h = initHA1_value [OF u]
  have "authDigest now cl r tok a =
      (if resp \<noteq> calcRequestDigest kv (ha1 (initHA1 user au)) (Method r) then Some ErrAuthRequired else None,
       a \<lparr>auth_user := AList.update user (initHA1 user au) (auth_user a)\<rparr>)"
    using k by (simp add: authDigest_def Let_def not_less user_def)
  then have "e = None \<longleftrightarrow> resp = calcRequestDigest kv (ha1 (initHA1 user au)) (Method r)"
      and a': "a' = a \<lparr>auth_user := AList.update user (initHA1 user au) (auth_user a)\<rparr>"
    using assms(2) by (auto split: if_splits)
  moreover have "digest_proof now a cl (Method r) tok \<longleftrightarrow> resp = calcRequestDigest kv (ha1 (initHA1 user au)) (Method r)"
    unfolding h digest_proof_def using k(1-5,7) us q by (auto simp flip: user_def)
  moreover have "auth_ok a'" using auth_ok_update [OF assms(1) h(2)] a' by simp
  ultimately show ?thesis by simp
qed

lemma checkProxyAuthorization_iff:
  assumes "auth_ok a" "checkProxyAuthorization uni now cl r a = (e, a')"
  shows "(e = None \<longleftrightarrow> shown_proof uni now a cl r) \<and> auth_ok a' \<and>
    authed a' = authed a \<and> allowedClient a' = allowedClient a"
proof (cases "\<exists>s tok. SplitN (ProxyAuthorization (header r)) '' '' 2 = [s, tok]")
  case False
  then have "length (SplitN (ProxyAuthorization (header r)) '' '' 2) \<noteq> 2"
    by (auto simp: numeral_2_eq_2 length_Suc_conv)
  then show ?thesis using assms False by (auto simp: checkProxyAuthorization_def shown_proof_def)
next
  case True
  then obtain s tok where st: "SplitN (ProxyAuthorization (header r)) '' '' 2 = [s, tok]" by blast
  show ?thesis
    using assms st authBasic_iff [OF assms(1)] authDigest_iff [OF assms(1), of now cl r tok e a']
    by (auto simp: checkProxyAuthorization_def shown_proof_def Let_def split: if_splits)
qed


lemma SplitN_Nil: "SplitN [] '' '' 2 \<noteq> [s, tok]"
  by (simp add: numeral_2_eq_2)

lemma authUserPasswd_iff:
  assumes "auth_ok a" "authUserPasswd uni out now cl r a w = (e, a', w')"
  shows "(e = None \<longleftrightarrow> shown_proof uni now a cl r) \<and> auth_ok a' \<and>
    authed a' = authed a \<and> allowedClient a' = allowedClient a"
proof (cases "ProxyAuthorization (header r) = []")
  case True
  then have "\<not> shown_proof uni now a cl r" by (simp add: shown_proof_def SplitN_Nil)
  then show ?thesis using True assms
    by (auto simp: authUserPasswd_def send_challenge_def split: prod.splits option.splits)
next
  case False
  obtain e1 a1 where c: "checkProxyAuthorization uni now cl r a = (e1, a1)" by fastforce
  note i = checkProxyAuthorization_iff [OF assms(1) c]
  show ?thesis using False assms c i
    by (cases e1) (auto simp: authUserPasswd_def send_challenge_def split: prod.splits option.splits if_splits)
qed

lemma ts_has_del: "fst (ts_has t k (ts_del k' ts)) \<Longrightarrow> fst (ts_has t k ts)"
  by (auto simp: ts_has_def ts_del_def split: if_splits option.splits)

lemma ts_has_keeps: "fst (ts_has t k (snd (ts_has t' k' ts))) \<Longrightarrow> fst (ts_has t k ts)"
  using ts_has_del [of t k k' ts] by (auto simp: ts_has_def [of t' k'] split: option.splits if_splits)

lemma ts_has_add: "0 \<le> ts_timeout ts \<Longrightarrow> fst (ts_has now k (ts_add now k ts))"
  by (simp add: ts_has_def ts_add_def time_Sub_def)

section \<open>An example configuration\<close>

definition ex_auth_config :: auth_config where
  "ex_auth_config = \<lparr>UserPasswd = ''joe:secret'', UserPasswdFile = [], AllowedClient = [], AuthTimeout = hour\<rparr>"

definition ex_auth :: auth_state where
  "ex_auth = \<lparr>auth_required = True, auth_user = [(''joe'', \<lparr>passwd = ''secret'', ha1 = [], au_port = 0\<rparr>)],
     allowedClient = [], authed = Some (NewTimeoutSet hour)\<rparr>"

definition ex_cl :: cli_addr where
  "ex_cl = \<lparr>remoteAddr = ''10.0.0.7:5000'', localAddr = ''10.0.0.1:7777''\<rparr>"

definition ex_out :: "bytes cli_out" where
  "ex_out = \<lparr>co_write = buffer_write, co_page = (\<lambda>c w. w @ c)\<rparr>"

definition ex_auth_rq :: "bytes \<Rightarrow> Request" where
  "ex_auth_rq h = zeroRequest \<lparr>header := (header zeroRequest) \<lparr>ProxyAuthorization := h\<rparr>\<rparr>"

lemma ex_initAuth: "initAuth (\<lambda>f. Inl EOF) ex_auth_config auth_zero = Inr ex_auth"
  by (simp add: initAuth_def ex_auth_config_def auth_zero_def addUserPasswd_def parseUserPasswd_def
      Split_char Let_def loadUserPasswdFile_def parseAllowedClient_def ex_auth_def)

lemma ex_client: "SplitHostPort (remoteAddr ex_cl) = Some (''10.0.0.7'', ''5000'')" "ParseIP ''10.0.0.7'' \<noteq> None"
  by (simp add: ex_cl_def SplitHostPort_def)
    (simp add: ParseIP_def parseIPv4_def Split_char parse_octet_def is_digit_char_def)

section \<open>The theorems on authentication\<close>

lemma Authenticate_iff:
  assumes "auth_ok a" "authed a = Some ts" "SplitHostPort (remoteAddr cl) = Some (ip, port)" "ParseIP ip \<noteq> None"
    "0 \<le> ts_timeout ts"
  shows "\<exists>e a' w' ts'. Authenticate uni out now cl r a w = Inr (e, a', w') \<and> auth_ok a' \<and> authed a' = Some ts' \<and>
    (e = None \<longleftrightarrow> fst (ts_has now ip ts) \<or> authIP ip a = Inr True \<or> shown_proof uni now a cl r) \<and>
    (if e = None \<and> authIP ip a \<noteq> Inr True then fst (ts_has now ip ts')
     else \<forall>t k. fst (ts_has t k ts') \<longrightarrow> fst (ts_has t k ts))"
proof -
  obtain b ts1 where h: "ts_has now ip ts = (b, ts1)" by fastforce
  define a1 where "a1 = a \<lparr>authed := Some ts1\<rparr>"
  have a1: "auth_ok a1" "authed a1 = Some ts1" "authIP ip a1 = authIP ip a" "shown_proof uni now a1 cl r = shown_proof uni now a cl r"
    using assms(1) by (simp_all add: a1_def authIP_def shown_proof_def basic_proof_def digest_proof_def
        split: option.split)
  have kept: "fst (ts_has t k ts1) \<Longrightarrow> fst (ts_has t k ts)" for t k using ts_has_keeps [of t k now ip ts] h by simp
  have to: "0 \<le> ts_timeout ts1"
    using h assms(5) by (auto simp: ts_has_def ts_del_def split: option.splits if_splits)
  obtain v where v: "authIP ip a = Inr v" using assms(4) by (auto simp: authIP_def)
  have t: "ts_has_opt now ip a = Inr (b, a1)" using assms(2) h by (simp add: ts_has_opt_def a1_def)
  note unf = Authenticate_def Let_def assms(3) t
  consider "b" | "\<not> b" "v" | "\<not> b" "\<not> v" by blast
  then show ?thesis
  proof cases
    case 1
    then have "Authenticate uni out now cl r a w = Inr (None, a1, w)" by (simp add: unf)
    moreover have "ts1 = ts" using 1 h by (auto simp: ts_has_def split: option.splits if_splits)
    ultimately show ?thesis using 1 h a1(1,2) by simp
  next
    case 2
    then have "Authenticate uni out now cl r a w = Inr (None, a1, w)" by (simp add: unf a1 v)
    then show ?thesis using 2 v a1(1,2) kept by simp
  next
    case 3
    obtain e a2 w2 where u: "authUserPasswd uni out now cl r a1 w = (e, a2, w2)" by (metis prod_cases3)
    note i = authUserPasswd_iff [OF a1(1) u]
    show ?thesis
    proof (cases e)
      case None
      then have "Authenticate uni out now cl r a w = Inr (None, auth_remember now ip a2, w2)"
        using 3 by (simp add: unf a1 v u)
      then show ?thesis using None 3 h a1 v i ts_has_add [OF to] by (simp add: auth_remember_def)
    next
      case (Some x)
      then have "Authenticate uni out now cl r a w = Inr (Some x, a2, w2)"
        using 3 by (simp add: unf a1 v u)
      then show ?thesis using Some 3 h a1 v i kept by simp
    qed
  qed
qed

text \<open>C8: Who is let in. For a client whose address is an IP address, \<open>Authenticate\<close> returns without a panic,
  and it lets the client in exactly if the address was authenticated before and that has not
  expired, or is an allowed one, or the request shows the password of a configured user on that
  user's port: in clear with the basic method, or with the digest method a response computed from
  the password, the request method and a nonce of at most a minute. A client that is refused is
  not remembered; one that has shown a password is.\<close>

theorem Authenticate_correct:
  assumes "auth_ok a" "authed a = Some ts" "SplitHostPort (remoteAddr cl) = Some (ip, port)" "ParseIP ip \<noteq> None"
    "0 \<le> ts_timeout ts"
  shows "\<exists>e a' w' ts'. Authenticate uni out now cl r a w = Inr (e, a', w') \<and> auth_ok a' \<and> authed a' = Some ts' \<and>
    (e = None \<longleftrightarrow> fst (ts_has now ip ts) \<or> authIP ip a = Inr True \<or> shown_proof uni now a cl r) \<and>
    (if e = None \<and> authIP ip a \<noteq> Inr True then fst (ts_has now ip ts')
     else \<forall>t k. fst (ts_has t k ts') \<longrightarrow> fst (ts_has t k ts))"
  by (rule Authenticate_iff [OF assms])

theorem Authenticate_correct_witness:
  "\<exists>e a' w'. Authenticate (\<lambda>s. s) ex_out 0 ex_cl (ex_auth_rq ''Digest x'') ex_auth [] = Inr (e, a', w') \<and>
     (e = None \<longleftrightarrow> shown_proof (\<lambda>s. s) 0 ex_auth ex_cl (ex_auth_rq ''Digest x''))"
proof -
  have "auth_ok ex_auth" using initAuth_ok [OF ex_initAuth] by (simp add: auth_ok_def auth_zero_def)
  moreover have "authIP ''10.0.0.7'' ex_auth \<noteq> Inr True" "\<not> fst (ts_has 0 ''10.0.0.7'' (NewTimeoutSet hour))"
    by (simp_all add: authIP_def ex_auth_def ts_has_def NewTimeoutSet_def split: option.split)
  ultimately show ?thesis
    using Authenticate_correct [OF _ _ ex_client(1) ex_client(2), of ex_auth "NewTimeoutSet hour" "\<lambda>s. s" ex_out 0
        "ex_auth_rq ''Digest x''" "[]"]
    by (auto simp: ex_auth_def NewTimeoutSet_def hour_def minute_def second_def)
qed

lemma Basic_header:
  "SplitN (''Basic '' @ tok) '' '' 2 = [''Basic'', tok]"
  "strings_ToLower uni (strings_TrimSpace ''Basic'') = ''basic''"
  by (simp_all add: numeral_2_eq_2 strings_ToLower_def strings_TrimSpace_def space_encodings_def Let_def is_ascii_def lower_byte_def char_of_def bit_simps)

text \<open>Configured users get in. If the configuration has a user without a port, a client anywhere that
  sends the base64 of the user and the password with the basic method is let in.\<close>

theorem configured_user_accepted:
  assumes "initAuth open C auth_zero = Inr a" "map_of (auth_user a) user = Some au" "au_port au = 0"
    "ProxyAuthorization (header r) = ''Basic '' @ b64_encode (user @ '':'' @ passwd au)"
    "SplitHostPort (remoteAddr cl) = Some (ip, port)" "ParseIP ip \<noteq> None"
  shows "\<exists>a' w'. Authenticate uni out now cl r a w = Inr (None, a', w')"
proof -
  have ok: "auth_ok a" using initAuth_ok [OF assms(1)] by (simp add: auth_ok_def auth_zero_def)
  have "authed a \<noteq> None"
    using assms(1,2) by (auto simp: initAuth_def auth_zero_def split: if_splits sum.splits)
  then obtain ts where ts: "authed a = Some ts" by blast
  obtain b ts1 where h: "ts_has now ip ts = (b, ts1)" by fastforce
  obtain v where v: "authIP ip (a \<lparr>authed := Some ts1\<rparr>) = Inr v" using assms(6) by (auto simp: authIP_def)
  have "basic_proof (a \<lparr>authed := Some ts1\<rparr>) cl (b64_encode (user @ '':'' @ passwd au))"
    using assms(2,3) by (auto simp: basic_proof_def authPort_def)
  then have "shown_proof uni now (a \<lparr>authed := Some ts1\<rparr>) cl r"
    using assms(4) Basic_header(1) Basic_header(2) by (auto simp: shown_proof_def)
  then have "\<exists>a2 w2. authUserPasswd uni out now cl r (a \<lparr>authed := Some ts1\<rparr>) w = (None, a2, w2)"
    using authUserPasswd_iff [of "a \<lparr>authed := Some ts1\<rparr>" uni out now cl r w] ok
    by (metis auth_ok_other(2) prod_cases3)
  then show ?thesis using ts h v assms(5)
    by (cases b; cases v) (auto simp: Authenticate_def ts_has_opt_def)
qed

theorem configured_user_accepted_witness:
  "initAuth (\<lambda>f. Inl EOF) ex_auth_config auth_zero = Inr ex_auth \<and>
   (\<exists>a' w'. Authenticate (\<lambda>s. s) ex_out 0 ex_cl (ex_auth_rq ''Basic am9lOnNlY3JldA=='') ex_auth [] = Inr (None, a', w'))"
proof -
  have "''am9lOnNlY3JldA=='' = b64_encode ''joe:secret''"
    by (simp add: b64_char_def char_of_def bit_simps)
  then show ?thesis
    using ex_initAuth configured_user_accepted [OF ex_initAuth _ _ _ ex_client, of "''joe''"
        "\<lparr>passwd = ''secret'', ha1 = [], au_port = 0\<rparr>" "ex_auth_rq ''Basic am9lOnNlY3JldA==''" "\<lambda>s. s" ex_out 0 "[]"]
    by (simp add: ex_auth_def ex_auth_rq_def)
qed

section \<open>Allowed clients\<close>

definition addr_bits :: "bytes \<Rightarrow> bool list" where
  "addr_bits ip = concat (map byte_bits ip)"

lemma byte_bits_and: "byte_bits (byte_and a b) = map2 (\<and>) (byte_bits a) (byte_bits b)"
proof -
  have "byte_val (byte_and a b) = take_bit 8 (byte_val a AND byte_val b)"
    by (simp add: byte_and_def of_char_of take_bit_eq_mod)
  then show ?thesis by (simp add: byte_bits_def Let_def bit_and_iff bit_take_bit_iff)
qed

lemma length_byte_bits [simp]: "length (byte_bits c) = 8"
  by (simp add: byte_bits_def Let_def)

lemma length_addr_bits [simp]: "length (addr_bits ip) = 8 * length ip"
  by (induction ip) (simp_all add: addr_bits_def)

lemma byte_bits_inj: "byte_bits a = byte_bits b \<Longrightarrow> a = b"
proof -
  assume "byte_bits a = byte_bits b"
  then have eq: "bit (byte_val a) i \<longleftrightarrow> bit (byte_val b) i" if "i < 8" for i
    using that by (auto simp: byte_bits_def Let_def less_Suc_eq numeral_eq_Suc)
  have "take_bit 8 (byte_val a) = take_bit 8 (byte_val b)"
    by (rule bit_eqI) (auto simp: bit_take_bit_iff eq)
  moreover have "take_bit 8 (byte_val c) = byte_val c" for c
    by (simp add: take_bit_eq_mod)
  ultimately show "a = b" by (simp add: of_char_eq_iff)
qed

lemma addr_bits_inj: "length x = length y \<Longrightarrow> addr_bits x = addr_bits y \<longleftrightarrow> x = y"
  by (induction x y rule: list_induct2) (auto simp: addr_bits_def dest: byte_bits_inj)

lemma addr_bits_masked:
  "length ip = length m \<Longrightarrow> addr_bits (map2 byte_and ip m) = map2 (\<and>) (addr_bits ip) (addr_bits m)"
  by (induction ip m rule: list_induct2) (simp_all add: addr_bits_def byte_bits_and)

lemma map2_and_mask:
  "length xs = n + k \<Longrightarrow> map2 (\<and>) xs (replicate n True @ replicate k False) = take n xs @ replicate k False"
proof (induction n arbitrary: xs)
  case 0
  then show ?case by (induction k arbitrary: xs) (auto simp: length_Suc_conv)
next
  case (Suc n)
  then show ?case by (cases xs) auto
qed

lemma masked_eq_iff:
  assumes "length c = 4" "length q = 4" "n \<le> 32"
  shows "map2 byte_and c (mask_loop 4 (int n)) = map2 byte_and q (mask_loop 4 (int n)) \<longleftrightarrow>
    take n (addr_bits c) = take n (addr_bits q)"
proof -
  let ?m = "mask_loop 4 (int n)"
  have m: "addr_bits ?m = replicate n True @ replicate (32 - n) False"
    using mask_loop_bits [of "int n" 4] assms(3) by (simp add: addr_bits_def)
  have "8 * length ?m = n + (32 - n)" using arg_cong [OF m, of length] by simp
  then have l: "length ?m = 4" using assms(3) by simp
  have "map2 byte_and c ?m = map2 byte_and q ?m \<longleftrightarrow> addr_bits (map2 byte_and c ?m) = addr_bits (map2 byte_and q ?m)"
    using assms l by (intro addr_bits_inj [symmetric]) simp
  also have "\<dots> \<longleftrightarrow> take n (addr_bits c) @ replicate (32 - n) False = take n (addr_bits q) @ replicate (32 - n) False"
    using assms l by (simp add: addr_bits_masked m map2_and_mask)
  finally show ?thesis by simp
qed

lemma mask_loop_length [simp]: "length (mask_loop k n) = k"
  by (induction k n rule: mask_loop.induct) auto

lemma TrimSpace_plain:
  assumes "s \<noteq> []" "32 < byte_val (hd s)" "byte_val (hd s) < 128" "32 < byte_val (last s)" "byte_val (last s) < 128"
  shows "strings_TrimSpace s = s"
proof -
  have no: "find (\<lambda>e. prefix e t) es = None"
    if "t \<noteq> []" "\<forall>e \<in> set es. e \<noteq> [] \<and> (byte_val (hd e) \<le> 32 \<or> 128 \<le> byte_val (hd e))"
      "32 < byte_val (hd t)" "byte_val (hd t) < 128" for t es
  proof -
    have "hd e = hd t" if "prefix e t" "e \<noteq> []" for e using that by (auto simp: prefix_def)
    then have "\<not> prefix e t" if "e \<in> set es" for e
      using that \<open>\<forall>e \<in> set es. _ e\<close> \<open>32 < byte_val (hd t)\<close> \<open>byte_val (hd t) < 128\<close> by (metis not_le)
    then show ?thesis by (auto simp: find_None_iff)
  qed
  have "find (\<lambda>e. prefix e s) space_encodings = None"
    using assms by (intro no) (auto simp: space_encodings_def)
  moreover have "find (\<lambda>e. prefix e (rev s)) (map rev space_encodings) = None"
    using assms by (intro no) (auto simp: space_encodings_def hd_rev)
  ultimately show ?thesis using assms(1) by (cases s) (simp_all add: strings_TrimSpace_def Let_def)
qed

definition allowed_text :: "bytes \<times> nat \<Rightarrow> bytes" where
  "allowed_text qn = ipv4_string (fst qn) @ ''/'' @ Itoa (int (snd qn))"

lemma ipv4_string_chars: "c \<in> set (ipv4_string ip) \<Longrightarrow> is_digit_char c \<or> c = CHR ''.''"
proof (induction ip)
  case (Cons a ip)
  then show ?case using Itoa_no_char [of c "byte_val a"]
    by (cases ip) (auto simp: ipv4_string_def)
qed (simp add: ipv4_string_def)

lemma not_digits [simp]: "\<not> is_digit_char (CHR ''/'')" "\<not> is_digit_char (CHR '','')"
  by (simp_all add: is_digit_char_def)

lemma allowed_text_plain:
  assumes "length q = 4"
  shows "strings_TrimSpace (allowed_text (q, n)) = allowed_text (q, n)"
    "Split (allowed_text (q, n)) ''/'' = [ipv4_string q, Itoa (int n)]" "CHR '','' \<notin> set (allowed_text (q, n))"
proof -
  have ne: "ipv4_string q \<noteq> []" "Itoa (int n) \<noteq> []"
    using assms by (auto simp: ipv4_string_def Itoa_def length_Suc_conv numeral_eq_Suc Join_Cons)
  have "hd (ipv4_string q) \<in> set (ipv4_string q)" "last (Itoa (int n)) \<in> set (Itoa (int n))" using ne by simp_all
  then have h: "is_digit_char (hd (ipv4_string q)) \<or> hd (ipv4_string q) = CHR ''.''" "is_digit_char (last (Itoa (int n)))"
    using ipv4_string_chars Itoa_no_char by blast+
  show "strings_TrimSpace (allowed_text (q, n)) = allowed_text (q, n)"
    using h ne by (intro TrimSpace_plain) (auto simp: allowed_text_def is_digit_char_def)
  have no: "CHR ''/'' \<notin> set (ipv4_string q)" "CHR ''/'' \<notin> set (Itoa (int n))"
      "CHR '','' \<notin> set (ipv4_string q)" "CHR '','' \<notin> set (Itoa (int n))"
    using ipv4_string_chars [of _ q] Itoa_no_char [of _ n] by fastforce+
  then show "Split (allowed_text (q, n)) ''/'' = [ipv4_string q, Itoa (int n)]" "CHR '','' \<notin> set (allowed_text (q, n))"
    by (simp_all add: allowed_text_def Split_char)
qed

lemma parseAllowedEntry_text:
  assumes "length q = 4" "n \<le> 32"
  shows "parseAllowedEntry (allowed_text (q, n)) =
    Inr \<lparr>na_ip = map2 byte_and q (mask_loop 4 (int n)), na_mask = mask_loop 4 (int n)\<rparr>"
  using assms Atoi_Itoa_nat [of n]
  by (simp add: parseAllowedEntry_def allowed_text_plain ParseIP_ipv4_string NewNbitIPv4Mask_def IP_Mask_def)

lemma parseAllowed_loop_text:
  "\<forall>qn \<in> set qs. length (fst qn) = 4 \<and> snd qn \<le> 32 \<Longrightarrow>
   parseAllowed_loop (map allowed_text qs) =
     Inr (map (\<lambda>(q, n). \<lparr>na_ip = map2 byte_and q (mask_loop 4 (int n)), na_mask = mask_loop 4 (int n)\<rparr>) qs)"
  by (induction qs) (auto simp: parseAllowedEntry_text)

text \<open>Allowed client networks. With \<open>allowedClient = a/n, b/m, ...\<close>, a list of IPv4 addresses with
  prefix lengths, a client with an IPv4 address needs no password exactly if the first \<open>n\<close> bits of
  its address agree with those of one of the listed addresses.\<close>

theorem allowedClient_prefixes:
  assumes "qs \<noteq> []" "\<forall>qn \<in> set qs. length (fst qn) = 4 \<and> snd qn \<le> 32" "length c = 4"
  shows "\<exists>a'. parseAllowedClient (Join (map allowed_text qs) '','') a = Inr a' \<and>
    authIP (ipv4_string c) a' =
      Inr (\<exists>(q, n) \<in> set qs. take n (addr_bits c) = take n (addr_bits q))"
proof -
  let ?nas = "map (\<lambda>(q, n). \<lparr>na_ip = map2 byte_and q (mask_loop 4 (int n)), na_mask = mask_loop 4 (int n)\<rparr>) qs"
  have no: "\<forall>t \<in> set (map allowed_text qs). CHR '','' \<notin> set t"
  proof
    fix t assume "t \<in> set (map allowed_text qs)"
    then obtain q n where "(q, n) \<in> set qs" "t = allowed_text (q, n)" by auto
    then show "CHR '','' \<notin> set t" using assms(2) allowed_text_plain(3) [of q n] by fastforce
  qed
  have sp: "Split (Join (map allowed_text qs) '','') '','' = map allowed_text qs"
    using split_char_Join [OF _ no] assms(1) by (simp add: Split_char)
  have "Join (map allowed_text qs) '','' \<noteq> []"
  proof
    assume "Join (map allowed_text qs) '','' = []"
    then have "map allowed_text qs = [[]]" using sp by (simp add: Split_char)
    then show False by (auto simp: allowed_text_def)
  qed
  then have p: "parseAllowedClient (Join (map allowed_text qs) '','') a = Inr (a \<lparr>allowedClient := ?nas\<rparr>)"
    using sp parseAllowed_loop_text [OF assms(2)] by (simp add: parseAllowedClient_def)
  have "IP_Equal (IP_Mask (v4InV6Prefix @ c) (mask_loop 4 (int n))) (map2 byte_and q (mask_loop 4 (int n))) \<longleftrightarrow>
      take n (addr_bits c) = take n (addr_bits q)" if "(q, n) \<in> set qs" for q n
    using that assms(2,3) masked_eq_iff [of c q n] by (force simp: IP_Mask_def IP_Equal_def)
  then have "authIP (ipv4_string c) (a \<lparr>allowedClient := ?nas\<rparr>) =
      Inr (\<exists>(q, n) \<in> set qs. take n (addr_bits c) = take n (addr_bits q))"
    using assms(3) by (force simp: authIP_def ParseIP_ipv4_string)
  with p show ?thesis by blast
qed

theorem allowedClient_prefixes_witness:
  "\<exists>a'. parseAllowedClient ''192.168.1.0/24'' ex_auth = Inr a' \<and> authIP ''192.168.1.77'' a' = Inr True"
proof -
  have b: "ipv4_string [CHR 0xC0, CHR 0xA8, CHR 0x01, CHR 0x00] = ''192.168.1.0''"
      "ipv4_string [CHR 0xC0, CHR 0xA8, CHR 0x01, CHR 0x4D] = ''192.168.1.77''" "Itoa 24 = ''24''"
    by (simp_all add: ipv4_string_def Itoa_def nat_digits.simps digit_char_def char_of_def bit_simps)
  have "take 24 (addr_bits [CHR 0xC0, CHR 0xA8, CHR 0x01, CHR 0x4D]) =
      take 24 (addr_bits [CHR 0xC0, CHR 0xA8, CHR 0x01, CHR 0x00])"
    by (simp add: addr_bits_def byte_bits_def)
  then show ?thesis
    using b allowedClient_prefixes [of "[([CHR 0xC0, CHR 0xA8, CHR 0x01, CHR 0x00], 24)]"
        "[CHR 0xC0, CHR 0xA8, CHR 0x01, CHR 0x4D]" ex_auth] by (simp add: allowed_text_def)
qed

text \<open>An IPv6 address in \<open>allowedClient\<close> opens the proxy to every IPv6 client: the mask has four
  bytes, so that masking any IPv6 address gives nil, and nil equals nil.\<close>

theorem allowedClient_ipv6_open:
  assumes "ParseIP (strings_TrimSpace val) = Some ip" "CHR ''/'' \<notin> set (strings_TrimSpace val)" "CHR '','' \<notin> set val"
    "length ip = 16" "To4 ip = None" "ParseIP client = Some cip" "length cip = 16" "To4 cip = None" "val \<noteq> []"
  shows "\<exists>a'. parseAllowedClient val a = Inr a' \<and> authIP client a' = Inr True"
proof -
  have m: "IP_Mask x (mask_loop 4 32) = []" if "length x = 16" "To4 x = None" for x
    using that by (auto simp: IP_Mask_def To4_def)
  have "parseAllowedEntry val = Inr \<lparr>na_ip = [], na_mask = mask_loop 4 32\<rparr>"
    using assms(1,2) m [OF assms(4,5)] by (simp add: parseAllowedEntry_def Split_char NewNbitIPv4Mask_def Let_def)
  then show ?thesis
    using assms m [OF assms(7,8)] by (simp add: parseAllowedClient_def Split_char authIP_def IP_Equal_def)
qed

theorem allowedClient_ipv6_open_witness:
  "\<exists>a'. parseAllowedClient ''::1'' ex_auth = Inr a' \<and> authIP ''2001:db8::5'' a' = Inr True"
proof -
  have "\<exists>ip. ParseIP ''::1'' = Some ip \<and> length ip = 16 \<and> To4 ip = None"
      "\<exists>ip. ParseIP ''2001:db8::5'' = Some ip \<and> length ip = 16 \<and> To4 ip = None"
    by (simp_all add: ParseIP_def parseIPv6_def parseIPv6_loop.simps is_hex_char_def is_digit_char_def
        hex_value_def hex_digit_def To4_def v4InV6Prefix_def Let_def replicate_numerals char_of_def bit_simps)
  moreover have "strings_TrimSpace ''::1'' = ''::1''" by (rule TrimSpace_plain) simp_all
  ultimately show ?thesis using allowedClient_ipv6_open [of "''::1''"] by auto
qed

end
