(* ===== verification/Net_IO.thy ===== *)
theory Net_IO
  imports Body
begin

text \<open>
  Code that talks over a connection, step by step: a value of type \<open>('s, 'a) io\<close> takes the state and
  gives an outcome (a result, an error it returns, or a panic) and the new state; \<open>None\<close> is a call
  that never returns. \<open>io_bind\<close> is the sequence of two steps, the second of which runs only if the
  first returned no error, which is how the code is written (\<open>if err != nil { return err }\<close>).
\<close>

datatype 'a outcome = Ok 'a | Fail err | Panic string

type_synonym ('s, 'a) io = "'s \<Rightarrow> ('a outcome \<times> 's) option"

definition io_ret :: "'a \<Rightarrow> ('s, 'a) io" where
  "io_ret a s = Some (Ok a, s)"

definition io_fail :: "err \<Rightarrow> ('s, 'a) io" where
  "io_fail e s = Some (Fail e, s)"

definition io_bind :: "('s, 'a) io \<Rightarrow> ('a \<Rightarrow> ('s, 'b) io) \<Rightarrow> ('s, 'b) io" where
  "io_bind m f s =
     (case m s of
        None \<Rightarrow> None
      | Some (Ok a, s1) \<Rightarrow> f a s1
      | Some (Fail e, s1) \<Rightarrow> Some (Fail e, s1)
      | Some (Panic p, s1) \<Rightarrow> Some (Panic p, s1))"

text \<open>The two ends of a connection: a reader and a writer.\<close>

record ('r, 'w) net_io =
  io_rd :: 'r
  io_wr :: 'w

text \<open>\<open>io.ReadFull\<close> into an array of \<open>n\<close> bytes, and \<open>Write\<close>.\<close>

definition io_read :: "'r Reader \<Rightarrow> nat \<Rightarrow> (('r, 'w, 'm) net_io_scheme, bytes) io" where
  "io_read R n s =
     (case ReadFull R n [] (io_rd s) of
        None \<Rightarrow> None
      | Some (b, None, r1) \<Rightarrow> Some (Ok b, s \<lparr>io_rd := r1\<rparr>)
      | Some (b, Some e, r1) \<Rightarrow> Some (Fail e, s \<lparr>io_rd := r1\<rparr>))"

definition io_write :: "'w writer \<Rightarrow> bytes \<Rightarrow> (('r, 'w, 'm) net_io_scheme, unit) io" where
  "io_write W b s =
     (case W b (io_wr s) of
        (n, None, w1) \<Rightarrow> Some (Ok (), s \<lparr>io_wr := w1\<rparr>)
      | (n, Some e, w1) \<Rightarrow> Some (Fail e, s \<lparr>io_wr := w1\<rparr>))"

lemma io_bind_Ok [simp]: "m s = Some (Ok a, s1) \<Longrightarrow> io_bind m f s = f a s1"
  by (simp add: io_bind_def)

lemma io_bind_Fail [simp]: "m s = Some (Fail e, s1) \<Longrightarrow> io_bind m f s = Some (Fail e, s1)"
  by (simp add: io_bind_def)

lemma io_ret_bind [simp]: "io_bind (io_ret a) f = f a" "io_bind (io_fail e) f' = io_fail e"
  by (simp_all add: io_bind_def io_ret_def io_fail_def fun_eq_iff)

lemma io_bind_assoc: "io_bind (io_bind m f) g = io_bind m (\<lambda>a. io_bind (f a) g)"
  by (auto simp: io_bind_def fun_eq_iff split: option.split outcome.split)

lemmas io_simps = io_bind_def io_ret_def io_fail_def

text \<open>
  What was read and written between two states of a connection, in terms of the peer's stream
  (\<open>str\<close>) and of what has arrived at the peer (\<open>written\<close>). Nothing else of the state changes.
\<close>

definition talk ::
    "('r \<Rightarrow> bytes) \<Rightarrow> ('w \<Rightarrow> bytes) \<Rightarrow> ('r, 'w, 'm) net_io_scheme \<Rightarrow> bytes \<Rightarrow> bytes \<Rightarrow>
     ('r, 'w, 'm) net_io_scheme \<Rightarrow> bool" where
  "talk str written s i out s' \<longleftrightarrow>
     str (io_rd s) = i @ str (io_rd s') \<and> written (io_wr s') = written (io_wr s) @ out \<and>
     net_io.more s' = net_io.more s"

lemma talk_refl [simp]: "talk str written s [] [] s"
  by (simp add: talk_def)

lemma talk_trans: "talk str written s i out s1 \<Longrightarrow> talk str written s1 j out' s2 \<Longrightarrow> talk str written s (i @ j) (out @ out') s2"
  by (simp add: talk_def)

context reliable_body_io
begin

lemma io_write_ok: "\<exists>s'. io_write W b s = Some (Ok (), s') \<and> talk str written s [] b s'"
proof -
  obtain w' where "W b (io_wr s) = (int (length b), None, w')" "written w' = written (io_wr s) @ b"
    by (rule Write_all)
  then show ?thesis by (simp add: io_write_def talk_def)
qed

lemma ReadFull_short:
  "length got + length (str r) < n \<Longrightarrow>
   \<exists>b e r'. ReadFull R n got r = Some (b, Some e, r') \<and> str r' = []"
proof (induction "n - length got" arbitrary: got r rule: less_induct)
  case less
  obtain b e r1 where rd: "Read R (int (n - length got)) r = (b, e, r1)" by (metis prod_cases3)
  have pos: "0 < int (n - length got)" using less.prems by simp
  have sp: "str r = b @ str r1" using Read_split [OF pos rd] by auto
  note unf = ReadFull.simps [of R n got r]
  show ?case
  proof (cases e)
    case None
    then have b: "b \<noteq> []" using Read_progress pos rd by blast
    have "n - length (got @ b) < n - length got" using b less.prems by (cases b) auto
    then show ?thesis using less.hyps [of "got @ b" r1] less.prems sp unf rd None by simp
  next
    case (Some x)
    then have "str r1 = []" using Read_error pos rd by blast
    then show ?thesis using unf rd Some sp less.prems by (simp add: Let_def)
  qed
qed

text \<open>A read of \<open>n\<close> bytes returns the next \<open>n\<close> bytes of the stream, or fails if there are fewer.\<close>

lemma io_read_ok:
  assumes "str (io_rd s) = i @ rest" "length i = n"
  shows "\<exists>s'. io_read R n s = Some (Ok i, s') \<and> talk str written s i [] s' \<and> str (io_rd s') = rest"
  using ReadFull_all [of n "[]" "io_rd s"] assms by (auto simp: io_read_def talk_def)

lemma io_read_short:
  "length (str (io_rd s)) < n \<Longrightarrow> \<exists>e s'. io_read R n s = Some (Fail e, s') \<and> talk str written s (str (io_rd s)) [] s'"
  using ReadFull_short [of "[]" "io_rd s" n] by (force simp: io_read_def talk_def)

lemma io_read_cases:
  obtains (ok) i s' where "io_read R n s = Some (Ok i, s')" "talk str written s i [] s'" "length i = n"
  | (short) e s' where "io_read R n s = Some (Fail e, s')" "talk str written s (str (io_rd s)) [] s'"
      "length (str (io_rd s)) < n"
proof (cases "n \<le> length (str (io_rd s))")
  case True
  then show thesis using io_read_ok [of s "take n (str (io_rd s))" "drop n (str (io_rd s))" n] ok by auto
next
  case False
  then show thesis using io_read_short [of s n] short by auto
qed

end

end
