(* ===== verification/Socks.thy ===== *)
theory Socks
  imports Net_IO Auth
begin

text \<open>
  socks.go, the protocol of the SOCKS5 listener: method negotiation and password authentication,
  the request, replies, and the datagrams and address rules of UDP associations; and the
  client side of parent_proxy.go (\<open>socksParent\<close>) that speaks the same protocol to a parent.

  A client connection is a \<open>net_io\<close> with the authentication state; what it reads goes through the
  buffered reader \<open>R\<close>, what it writes through the writer \<open>W\<close>. Bytes are \<open>char\<close>, ports \<open>16 word\<close>.
  Slices of a datagram are taken with \<open>slice_of\<close>, which panics out of range.
\<close>

section \<open>Constants\<close>

definition socks5Version :: char where "socks5Version = CHR 0x05"
definition socks5AuthNone :: char where "socks5AuthNone = CHR 0x00"
definition socks5AuthUserPass :: char where "socks5AuthUserPass = CHR 0x02"
definition socks5AuthNoAcceptable :: char where "socks5AuthNoAcceptable = CHR 0xFF"
definition socks5UserPassVersion :: char where "socks5UserPassVersion = CHR 0x01"
definition socks5CmdConnect :: char where "socks5CmdConnect = CHR 0x01"
definition socks5CmdUDPAssociate :: char where "socks5CmdUDPAssociate = CHR 0x03"
definition socks5AtypIPv4 :: char where "socks5AtypIPv4 = CHR 0x01"
definition socks5AtypDomain :: char where "socks5AtypDomain = CHR 0x03"
definition socks5AtypIPv6 :: char where "socks5AtypIPv6 = CHR 0x04"
definition socks5StatusSucceeded :: char where "socks5StatusSucceeded = CHR 0x00"
definition socks5StatusGeneralError :: char where "socks5StatusGeneralError = CHR 0x01"
definition socks5StatusConnRefused :: char where "socks5StatusConnRefused = CHR 0x05"
definition socks5StatusCmdUnsupported :: char where "socks5StatusCmdUnsupported = CHR 0x07"
definition socks5StatusAtypUnsupported :: char where "socks5StatusAtypUnsupported = CHR 0x08"

lemmas socks_consts =
  socks5Version_def socks5AuthNone_def socks5AuthUserPass_def socks5AuthNoAcceptable_def
  socks5UserPassVersion_def socks5CmdConnect_def socks5CmdUDPAssociate_def socks5AtypIPv4_def
  socks5AtypDomain_def socks5AtypIPv6_def socks5StatusSucceeded_def socks5StatusGeneralError_def
  socks5StatusConnRefused_def socks5StatusCmdUnsupported_def socks5StatusAtypUnsupported_def

definition newSocksRequestError :: "char \<Rightarrow> string \<Rightarrow> err" where
  "newSocksRequestError reply msg = SocksRequestError (byte_val reply) msg"

text \<open>\<open>binary.BigEndian\<close> for 16 bits.\<close>

definition be_Uint16 :: "bytes \<Rightarrow> 16 word" where
  "be_Uint16 b = of_nat (256 * byte_val (b ! 0) + byte_val (b ! 1))"

definition be_PutUint16 :: "16 word \<Rightarrow> bytes" where
  "be_PutUint16 v = [char_of (unat v div 256), char_of (unat v mod 256)]"

section \<open>Negotiation\<close>

record ('r, 'w) sclient = "('r, 'w) net_io" +
  sc_auth :: auth_state

definition remoteIP :: "cli_addr \<Rightarrow> bytes" where
  "remoteIP cl = (case SplitHostPort (remoteAddr cl) of None \<Rightarrow> [] | Some (host, p) \<Rightarrow> host)"

fun hasByte :: "bytes \<Rightarrow> char \<Rightarrow> bool" where
  "hasByte [] needle = False"
| "hasByte (item # items) needle = (if item = needle then True else hasByte items needle)"

definition socksNoAuthAllowed :: "time \<Rightarrow> cli_addr \<Rightarrow> (('r, 'w) sclient, bool) io" where
  "socksNoAuthAllowed now cl s =
     (let a = sc_auth s; clientIP = remoteIP cl in
      if \<not> auth_required a then Some (Ok True, s)
      else if clientIP = [] then Some (Ok False, s)
      else
        (case (case authed a of
                 None \<Rightarrow> (False, a)
               | Some ts \<Rightarrow> (case ts_has now clientIP ts of (b, ts1) \<Rightarrow> (b, a \<lparr>authed := Some ts1\<rparr>))) of
           (True, a1) \<Rightarrow> Some (Ok True, s \<lparr>sc_auth := a1\<rparr>)
         | (False, a1) \<Rightarrow>
             (case authIP clientIP a1 of
                Inl p \<Rightarrow> Some (Panic p, s \<lparr>sc_auth := a1\<rparr>)
              | Inr b \<Rightarrow> Some (Ok b, s \<lparr>sc_auth := a1\<rparr>))))"

definition writeSocks5Method :: "'w writer \<Rightarrow> char \<Rightarrow> (('r, 'w) sclient, unit) io" where
  "writeSocks5Method W meth = io_write W [socks5Version, meth]"

definition writeSocks5UserPassStatus :: "'w writer \<Rightarrow> char \<Rightarrow> (('r, 'w) sclient, unit) io" where
  "writeSocks5UserPassStatus W status = io_write W [socks5UserPassVersion, status]"

text \<open>What follows after the four fields were read: the check and the answer.\<close>

definition checkSocksUserPass ::
    "'w writer \<Rightarrow> time \<Rightarrow> cli_addr \<Rightarrow> bytes \<Rightarrow> bytes \<Rightarrow> (('r, 'w) sclient, unit) io" where
  "checkSocksUserPass W now cl user pw s =
     (let refuse = (\<lambda>e. io_bind (writeSocks5UserPassStatus W (CHR 0x01)) (\<lambda>_. io_fail e)) in
      case map_of (auth_user (sc_auth s)) user of
        None \<Rightarrow> refuse ErrAuthRequired s
      | Some au \<Rightarrow>
          (if passwd au \<noteq> pw then refuse ErrAuthRequired s
           else
             (case authPort cl au of
                Some e \<Rightarrow> refuse e s
              | None \<Rightarrow>
                  io_bind (writeSocks5UserPassStatus W (CHR 0x00))
                    (\<lambda>_ s1. Some (Ok (), if remoteIP cl \<noteq> []
                        then s1 \<lparr>sc_auth := auth_remember now (remoteIP cl) (sc_auth s1)\<rparr> else s1)) s)))"

definition authSocksUserPass ::
    "'r Reader \<Rightarrow> 'w writer \<Rightarrow> time \<Rightarrow> cli_addr \<Rightarrow> (('r, 'w) sclient, unit) io" where
  "authSocksUserPass R W now cl =
     io_bind (io_read R 2) (\<lambda>hdr.
       if hdr ! 0 \<noteq> socks5UserPassVersion
       then io_bind (writeSocks5UserPassStatus W (CHR 0x01)) (\<lambda>_. io_fail ErrAuthRequired)
       else
         io_bind (io_read R (byte_val (hdr ! 1))) (\<lambda>user.
         io_bind (io_read R 1) (\<lambda>plen.
         io_bind (io_read R (byte_val (plen ! 0))) (\<lambda>pw.
         checkSocksUserPass W now cl user pw))))"

text \<open>The choice of a method, after the client's methods were read.\<close>

definition chooseSocks5Method ::
    "'r Reader \<Rightarrow> 'w writer \<Rightarrow> time \<Rightarrow> cli_addr \<Rightarrow> bytes \<Rightarrow> bool \<Rightarrow> (('r, 'w) sclient, unit) io" where
  "chooseSocks5Method R W now cl methods noAuth s =
     (if noAuth \<and> hasByte methods socks5AuthNone then writeSocks5Method W socks5AuthNone s
      else if length (auth_user (sc_auth s)) > 0 \<and> hasByte methods socks5AuthUserPass
      then io_bind (writeSocks5Method W socks5AuthUserPass) (\<lambda>_. authSocksUserPass R W now cl) s
      else io_bind (writeSocks5Method W socks5AuthNoAcceptable) (\<lambda>_. io_fail ErrAuthRequired) s)"

definition negotiateSocks5 ::
    "'r Reader \<Rightarrow> 'w writer \<Rightarrow> time \<Rightarrow> cli_addr \<Rightarrow> (('r, 'w) sclient, unit) io" where
  "negotiateSocks5 R W now cl =
     io_bind (io_read R 2) (\<lambda>hdr.
       if hdr ! 0 \<noteq> socks5Version
       then io_fail (newSocksRequestError socks5StatusGeneralError
              (''unsupported socks version '' @ Itoa (int (byte_val (hdr ! 0)))))
       else
         io_bind (io_read R (byte_val (hdr ! 1))) (\<lambda>methods.
         io_bind (socksNoAuthAllowed now cl) (chooseSocks5Method R W now cl methods)))"

section \<open>Requests and replies\<close>

definition readSocks5Target :: "'r Reader \<Rightarrow> char \<Rightarrow> (('r, 'w, 'm) net_io_scheme, bytes \<times> 16 word) io" where
  "readSocks5Target R atyp =
     io_bind
       (if atyp = socks5AtypIPv4 then io_bind (io_read R 4) (\<lambda>addr. io_ret (IP_String addr))
        else if atyp = socks5AtypIPv6 then io_bind (io_read R 16) (\<lambda>addr. io_ret (IP_String addr))
        else if atyp = socks5AtypDomain then
          io_bind (io_read R 1) (\<lambda>sz. io_read R (byte_val (sz ! 0)))
        else io_fail (newSocksRequestError socks5StatusAtypUnsupported
               (''unsupported socks address type '' @ Itoa (int (byte_val atyp)))))
       (\<lambda>host. io_bind (io_read R 2) (\<lambda>portBytes. io_ret (host, be_Uint16 portBytes)))"

record socks5ParsedRequest =
  sq_cmd :: char
  sq_host :: bytes
  sq_port :: "16 word"
  sq_hostPort :: bytes

text \<open>The request a CONNECT command becomes.\<close>

definition socks_connect_request :: "bytes \<Rightarrow> Request \<Rightarrow> Request" where
  "socks_connect_request hostPort r =
     (let url = ParseHostPort empty_URL hostPort; r1 = Request_reset r
      in r1 \<lparr>Method := ''CONNECT'', isConnect := True, URL := url,
             header := (header r1) \<lparr>Host := url_HostPort url\<rparr>\<rparr>)"

definition parseSocks5Request ::
    "'r Reader \<Rightarrow> Request \<Rightarrow> (('r, 'w, 'm) net_io_scheme, socks5ParsedRequest \<times> Request) io" where
  "parseSocks5Request R r =
     io_bind (io_read R 4) (\<lambda>hdr.
       if hdr ! 0 \<noteq> socks5Version
       then io_fail (newSocksRequestError socks5StatusGeneralError
              (''unsupported socks version '' @ Itoa (int (byte_val (hdr ! 0)))))
       else if hdr ! 2 \<noteq> CHR 0x00
       then io_fail (newSocksRequestError socks5StatusGeneralError
              (''invalid socks reserved byte '' @ Itoa (int (byte_val (hdr ! 2)))))
       else if hdr ! 1 \<noteq> socks5CmdConnect \<and> hdr ! 1 \<noteq> socks5CmdUDPAssociate
       then io_fail (newSocksRequestError socks5StatusCmdUnsupported
              (''unsupported socks command '' @ Itoa (int (byte_val (hdr ! 1)))))
       else
         io_bind (readSocks5Target R (hdr ! 3)) (\<lambda>(host, port).
           let hostPort = JoinHostPort host (Itoa (int (unat port)));
               req = \<lparr>sq_cmd = hdr ! 1, sq_host = host, sq_port = port, sq_hostPort = hostPort\<rparr>
           in io_ret (req, if hdr ! 1 = socks5CmdConnect then socks_connect_request hostPort r else r)))"

definition trimIPv6Zone :: "bytes \<Rightarrow> bytes" where
  "trimIPv6Zone host = (case LastIndexByte host (CHR ''%'') of None \<Rightarrow> host | Some i \<Rightarrow> take i host)"

definition trim_brackets :: "bytes \<Rightarrow> bytes" where
  "trim_brackets host =
     (let h = (if host \<noteq> [] \<and> last host = CHR '']'' then butlast host else host)
      in if h \<noteq> [] \<and> hd h = CHR ''['' then tl h else h)"

definition buildSocks5AddrPort :: "bytes \<Rightarrow> 16 word \<Rightarrow> err + bytes" where
  "buildSocks5AddrPort host0 port =
     (let host = trim_brackets host0; ipHost = trimIPv6Zone host
      in case ParseIP ipHost of
           Some ip \<Rightarrow>
             (case To4 ip of
                Some ip4 \<Rightarrow> Inr (socks5AtypIPv4 # ip4 @ be_PutUint16 port)
              | None \<Rightarrow>
                  (case To16 ip of
                     Some ip16 \<Rightarrow> Inr (socks5AtypIPv6 # ip16 @ be_PutUint16 port)
                   | None \<Rightarrow> Inl (ErrorString (''invalid socks5 ip '' @ host))))
         | None \<Rightarrow>
             (if length host = 0 \<or> length host > 255 then Inl (ErrorString (''invalid socks5 host '' @ host))
              else Inr (socks5AtypDomain # char_of (length host) # host @ be_PutUint16 port)))"

text \<open>A \<open>net.Addr\<close>: a TCP or UDP address, of some other type, or nil (\<open>None\<close>). A nil \<open>IP\<close> is \<open>[]\<close>.\<close>

record sockaddr =
  sa_IP :: bytes
  sa_Port :: int
  sa_Zone :: bytes

datatype netaddr = TCPAddr sockaddr | UDPAddr sockaddr | OtherAddr

definition IPv4zero :: bytes where
  "IPv4zero = v4InV6Prefix @ replicate 4 (CHR 0x00)"

definition IPv6zero :: bytes where
  "IPv6zero = replicate 16 (CHR 0x00)"

definition reply_addr :: "netaddr option \<Rightarrow> bytes \<times> int \<times> bytes" where
  "reply_addr addr =
     (let of_sa = (\<lambda>a. (if sa_IP a = [] then IPv4zero else sa_IP a, sa_Port a, sa_Zone a))
      in case addr of
           Some (TCPAddr a) \<Rightarrow> of_sa a
         | Some (UDPAddr a) \<Rightarrow> of_sa a
         | _ \<Rightarrow> (IPv4zero, 0, []))"

definition buildSocks5Reply :: "char \<Rightarrow> netaddr option \<Rightarrow> bytes" where
  "buildSocks5Reply reply addr =
     (case reply_addr addr of
        (ip, port0, zone) \<Rightarrow>
          (let port = (if port0 < 0 \<or> port0 > 0xffff then 0 else port0);
               host = IP_String ip @ (if zone \<noteq> [] \<and> To4 ip = None then ''%'' @ zone else []);
               addrPort = (case buildSocks5AddrPort host (word_of_int port) of
                             Inl e \<Rightarrow> socks5AtypIPv4 # replicate 6 (CHR 0x00)
                           | Inr b \<Rightarrow> b)
           in [socks5Version, reply, CHR 0x00] @ addrPort))"

definition writeSocks5Reply ::
    "'w writer \<Rightarrow> char \<Rightarrow> netaddr option \<Rightarrow> (('r, 'w, 'm) net_io_scheme, unit) io" where
  "writeSocks5Reply W reply addr = io_write W (buildSocks5Reply reply addr)"

text \<open>\<open>errors.As\<close> looks through the errors that \<open>%w\<close> wrapped.\<close>

fun as_socksRequestError :: "err \<Rightarrow> nat option" where
  "as_socksRequestError (SocksRequestError reply m) = Some reply"
| "as_socksRequestError (Wrapped m e) = as_socksRequestError e"
| "as_socksRequestError _ = None"

definition socksReplyFromError :: "(bytes \<Rightarrow> bytes) \<Rightarrow> err option \<Rightarrow> char" where
  "socksReplyFromError uni er =
     (case er of
        None \<Rightarrow> socks5StatusSucceeded
      | Some e \<Rightarrow>
          (case as_socksRequestError e of
             Some reply \<Rightarrow> char_of reply
           | None \<Rightarrow>
               if isErrTimeout e \<or> isErrConnReset e then socks5StatusGeneralError
               else if Contains (strings_ToLower uni (err_Error e)) ''connection refused''
               then socks5StatusConnRefused else socks5StatusGeneralError))"

section \<open>UDP associations\<close>

definition isZeroIP :: "bytes \<Rightarrow> bool" where
  "isZeroIP ip \<longleftrightarrow> ip = [] \<or> IP_Equal ip IPv4zero \<or> IP_Equal ip IPv6zero"

text \<open>The network and the address that \<open>listenSocks5UDPRelay\<close> listens on.\<close>

definition udp_relay_listen :: "netaddr option \<Rightarrow> bytes \<times> sockaddr" where
  "udp_relay_listen tcpLocal =
     (let (ip, zone) = (case tcpLocal of Some (TCPAddr a) \<Rightarrow> (sa_IP a, sa_Zone a) | _ \<Rightarrow> ([], []))
      in (if ip \<noteq> [] \<and> To4 ip = None \<and> To16 ip \<noteq> None then ''udp6'' else ''udp'',
          \<lparr>sa_IP = ip, sa_Port = 0, sa_Zone = zone\<rparr>))"

definition socks5UDPReplyAddr :: "netaddr option \<Rightarrow> sockaddr option \<Rightarrow> netaddr option" where
  "socks5UDPReplyAddr tcpLocal udpLocal =
     (case udpLocal of
        None \<Rightarrow> None
      | Some u \<Rightarrow>
          (case tcpLocal of
             Some (TCPAddr a) \<Rightarrow>
               (if \<not> isZeroIP (sa_IP a)
                then Some (UDPAddr \<lparr>sa_IP = sa_IP a, sa_Port = sa_Port u, sa_Zone = sa_Zone a\<rparr>)
                else Some (UDPAddr u))
           | _ \<Rightarrow> Some (UDPAddr u)))"

definition sameSocks5UDPClient :: "bytes \<Rightarrow> sockaddr option \<Rightarrow> sockaddr option \<Rightarrow> bool" where
  "sameSocks5UDPClient tcpPeerIP current expected =
     (case current of
        None \<Rightarrow> False
      | Some c \<Rightarrow>
          (case expected of
             Some e \<Rightarrow> IP_Equal (sa_IP c) (sa_IP e) \<and> sa_Port c = sa_Port e \<and> sa_Zone c = sa_Zone e
           | None \<Rightarrow>
               if tcpPeerIP = [] then True
               else (case ParseIP tcpPeerIP of None \<Rightarrow> False | Some peerIP \<Rightarrow> IP_Equal (sa_IP c) peerIP)))"

definition slice_of :: "bytes \<Rightarrow> nat \<Rightarrow> nat \<Rightarrow> bytes may_panic" where
  "slice_of p a b =
     (if a \<le> b \<and> b \<le> length p then Inr (take (b - a) (drop a p)) else Inl ''slice bounds out of range'')"

text \<open>The switch of \<open>parseSocks5UDPDatagram\<close>: the host and the offset behind it.\<close>

definition udp_host :: "bytes \<Rightarrow> (err + (bytes \<times> nat)) may_panic" where
  "udp_host packet =
     (let off = 4; bad = (\<lambda>reply m. Inr (Inl (newSocksRequestError reply m)));
          with = (\<lambda>sl f. case sl of Inl p \<Rightarrow> Inl p | Inr b \<Rightarrow> Inr (Inr (f b)))
      in if packet ! 3 = socks5AtypIPv4 then
           (if length packet < off + 4 + 2
            then bad socks5StatusGeneralError ''socks5 udp ipv4 packet too short''
            else with (slice_of packet off (off + 4)) (\<lambda>b. (IP_String b, off + 4)))
         else if packet ! 3 = socks5AtypIPv6 then
           (if length packet < off + 16 + 2
            then bad socks5StatusGeneralError ''socks5 udp ipv6 packet too short''
            else with (slice_of packet off (off + 16)) (\<lambda>b. (IP_String b, off + 16)))
         else if packet ! 3 = socks5AtypDomain then
           (if length packet < off + 1
            then bad socks5StatusGeneralError ''socks5 udp domain length missing''
            else
              (let sz = byte_val (packet ! off); off1 = off + 1
               in if sz = 0 \<or> length packet < off1 + sz + 2
                  then bad socks5StatusGeneralError ''socks5 udp domain packet too short''
                  else with (slice_of packet off1 (off1 + sz)) (\<lambda>b. (b, off1 + sz))))
         else bad socks5StatusAtypUnsupported
                (''unsupported socks5 udp address type '' @ Itoa (int (byte_val (packet ! 3)))))"

definition parseSocks5UDPDatagram :: "bytes \<Rightarrow> (err + (bytes \<times> bytes)) may_panic" where
  "parseSocks5UDPDatagram packet =
     (if length packet < 4 then
        Inr (Inl (newSocksRequestError socks5StatusGeneralError ''socks5 udp packet too short''))
      else if packet ! 0 \<noteq> CHR 0x00 \<or> packet ! 1 \<noteq> CHR 0x00 then
        Inr (Inl (newSocksRequestError socks5StatusGeneralError ''invalid socks5 udp reserved field''))
      else if packet ! 2 \<noteq> CHR 0x00 then
        Inr (Inl (newSocksRequestError socks5StatusCmdUnsupported ''socks5 udp fragment is not supported''))
      else
        (case udp_host packet of
           Inl p \<Rightarrow> Inl p
         | Inr (Inl e) \<Rightarrow> Inr (Inl e)
         | Inr (Inr (host, off)) \<Rightarrow>
             (case (slice_of packet off (off + 2), slice_of packet (off + 2) (length packet)) of
                (Inr pb, Inr payload) \<Rightarrow>
                  Inr (Inr (JoinHostPort host (Itoa (int (unat (be_Uint16 pb)))), payload))
              | (Inl p, _) \<Rightarrow> Inl p
              | (_, Inl p) \<Rightarrow> Inl p)))"

definition buildSocks5UDPDatagram :: "bytes \<Rightarrow> bytes \<Rightarrow> err + bytes" where
  "buildSocks5UDPDatagram addr payload =
     (case SplitHostPort addr of
        None \<Rightarrow> Inl (ErrorString (''address '' @ addr))
      | Some (host, portStr) \<Rightarrow>
          (case Atoi portStr of
             None \<Rightarrow> Inl (ErrorString (''invalid udp port '' @ portStr))
           | Some port \<Rightarrow>
               (if port < 0 \<or> port > 0xffff then Inl (ErrorString (''invalid udp port '' @ portStr))
                else
                  (case buildSocks5AddrPort host (word_of_int port) of
                     Inl e \<Rightarrow> Inl e
                   | Inr addrPort \<Rightarrow> Inr (replicate 3 (CHR 0x00) @ addrPort @ payload)))))"

text \<open>
  The two loops of \<open>serveSocksUDPAssociate\<close>, one packet at a time. The state is the client's
  address once it is known. A packet on the relay socket is dropped or forwarded to a remote
  address; a packet on the outgoing socket is dropped or sent to the client. \<open>resolve\<close> is
  \<open>net.ResolveUDPAddr\<close>.
\<close>

datatype udp_action = Drop | SendOut sockaddr bytes | SendClient bytes sockaddr

definition relay_packet ::
    "bytes \<Rightarrow> (bytes \<Rightarrow> sockaddr option) \<Rightarrow> sockaddr \<Rightarrow> bytes \<Rightarrow> sockaddr option \<Rightarrow>
     (udp_action \<times> sockaddr option) may_panic" where
  "relay_packet clientIP resolve src packet clientAddr =
     (if \<not> sameSocks5UDPClient clientIP (Some src) clientAddr then Inr (Drop, clientAddr)
      else
        (let clientAddr1 = (case clientAddr of None \<Rightarrow> Some src | Some a \<Rightarrow> Some a)
         in case parseSocks5UDPDatagram packet of
              Inl p \<Rightarrow> Inl p
            | Inr (Inl e) \<Rightarrow> Inr (Drop, clientAddr1)
            | Inr (Inr (target, payload)) \<Rightarrow>
                (case resolve target of
                   None \<Rightarrow> Inr (Drop, clientAddr1)
                 | Some remote \<Rightarrow> Inr (SendOut remote payload, clientAddr1))))"

definition remote_packet :: "(sockaddr \<Rightarrow> bytes) \<Rightarrow> sockaddr \<Rightarrow> bytes \<Rightarrow> sockaddr option \<Rightarrow> udp_action" where
  "remote_packet addr_String remote data clientAddr =
     (case clientAddr of
        None \<Rightarrow> Drop
      | Some addr \<Rightarrow>
          (case buildSocks5UDPDatagram (addr_String remote) data of
             Inl e \<Rightarrow> Drop
           | Inr packet \<Rightarrow> SendClient packet addr))"

section \<open>The client side: a SOCKS5 parent\<close>

definition authenticate ::
    "'r Reader \<Rightarrow> 'w writer \<Rightarrow> bytes \<Rightarrow> bytes \<Rightarrow> (('r, 'w, 'm) net_io_scheme, unit) io" where
  "authenticate R W username password =
     (let request = [socks5UserPassVersion, char_of (length username)] @ username @
                    [char_of (length password)] @ password
      in io_bind
           (\<lambda>s. case W request (io_wr s) of
              (n, Some e, w1) \<Rightarrow> Some (Fail (Wrapped ''send SOCKS5 authentication: '' e), s \<lparr>io_wr := w1\<rparr>)
            | (n, None, w1) \<Rightarrow>
                if n \<noteq> int (length request) then Some (Fail ShortWrite, s \<lparr>io_wr := w1\<rparr>)
                else Some (Ok (), s \<lparr>io_wr := w1\<rparr>))
           (\<lambda>_. io_bind
              (\<lambda>s. case io_read R 2 s of
                 Some (Fail e, s1) \<Rightarrow> Some (Fail (Wrapped ''read SOCKS5 authentication: '' e), s1)
               | x \<Rightarrow> x)
              (\<lambda>response.
                 if response ! 0 \<noteq> socks5UserPassVersion \<or> response ! 1 \<noteq> CHR 0x00
                 then io_fail (ErrorString ''SOCKS5 username/password authentication failed'')
                 else io_ret ())))"

definition readSocks5Address :: "'r Reader \<Rightarrow> char \<Rightarrow> (('r, 'w, 'm) net_io_scheme, unit) io" where
  "readSocks5Address R atyp =
     (if atyp = socks5AtypIPv4 then io_bind (io_read R 4) (\<lambda>_. io_ret ())
      else if atyp = socks5AtypIPv6 then io_bind (io_read R 16) (\<lambda>_. io_ret ())
      else if atyp = socks5AtypDomain then
        io_bind (io_read R 1) (\<lambda>sz. io_bind (io_read R (byte_val (sz ! 0))) (\<lambda>_. io_ret ()))
      else io_fail SocksProtocolErr)"

definition readSocks5ConnectReply :: "'r Reader \<Rightarrow> (('r, 'w, 'm) net_io_scheme, unit) io" where
  "readSocks5ConnectReply R =
     io_bind
       (\<lambda>s. case io_read R 4 s of
          Some (Fail e, s1) \<Rightarrow> Some (Fail (ErrorString ''connection failed. No such host?''), s1)
        | x \<Rightarrow> x)
       (\<lambda>hdr.
          if hdr ! 0 \<noteq> socks5Version then io_fail SocksProtocolErr
          else
            io_bind (readSocks5Address R (hdr ! 3)) (\<lambda>_.
            io_bind (io_read R 2) (\<lambda>_.
              if hdr ! 1 \<noteq> CHR 0x00 then io_fail SocksProtocolErr else io_ret ())))"

text \<open>
  \<open>socksParent.connect\<close> after dialling. A write that is cut short without an error, which
  \<open>io.Writer\<close> rules out, would return neither a connection nor an error; it is a failure here.
\<close>

definition write_all :: "'w writer \<Rightarrow> bytes \<Rightarrow> (('r, 'w, 'm) net_io_scheme, unit) io" where
  "write_all W b s =
     (case W b (io_wr s) of
        (n, Some e, w1) \<Rightarrow> Some (Fail e, s \<lparr>io_wr := w1\<rparr>)
      | (n, None, w1) \<Rightarrow>
          if n \<noteq> int (length b) then Some (Fail ShortWrite, s \<lparr>io_wr := w1\<rparr>)
          else Some (Ok (), s \<lparr>io_wr := w1\<rparr>))"

definition socks_request :: "URL \<Rightarrow> err + bytes" where
  "socks_request url =
     (case Atoi (url_Port url) of
        None \<Rightarrow> Inl (ErrorString (''strconv.Atoi: parsing '' @ url_Port url))
      | Some port \<Rightarrow>
          (if port < 0 \<or> port > 0xffff then Inl (ErrorString (''invalid socks target port '' @ Itoa port))
           else
             (case buildSocks5AddrPort (url_Host url) (word_of_int port) of
                Inl e \<Rightarrow> Inl e
              | Inr addrPort \<Rightarrow> Inr ([socks5Version, socks5CmdConnect, CHR 0x00] @ addrPort))))"

definition socksParent_connect ::
    "'r Reader \<Rightarrow> 'w writer \<Rightarrow> bytes \<Rightarrow> bytes \<Rightarrow> URL \<Rightarrow> (('r, 'w, 'm) net_io_scheme, unit) io" where
  "socksParent_connect R W username password url =
     (let methodSelection = (if username \<noteq> [] then [socks5Version, CHR 0x01, socks5AuthUserPass]
                             else [CHR 0x05, CHR 0x01, CHR 0x00])
      in io_bind (write_all W methodSelection) (\<lambda>_.
         io_bind (io_read R 2) (\<lambda>rep.
           if rep ! 0 \<noteq> socks5Version \<or> (rep ! 1 \<noteq> socks5AuthNone \<and> rep ! 1 \<noteq> socks5AuthUserPass) \<or>
              (rep ! 1 = socks5AuthUserPass) \<noteq> (username \<noteq> [])
           then io_fail SocksProtocolErr
           else
             io_bind (if rep ! 1 = socks5AuthUserPass then authenticate R W username password else io_ret ()) (\<lambda>_.
             case socks_request url of
               Inl e \<Rightarrow> io_fail e
             | Inr reqBuf \<Rightarrow> io_bind (write_all W reqBuf) (\<lambda>_. readSocks5ConnectReply R)))))"

end
