(* ===== verification/Socks_Correct.thy ===== *)
theory Socks_Correct
  imports Socks
begin

text \<open>
  Properties of the SOCKS5 listener and of the client side for a parent: who is let in, the round
  trips of requests, replies and datagrams between the two sides, and the isolation of UDP
  associations.
\<close>

section \<open>Negotiation is safe\<close>

lemma talk_auth: "talk str written s i out s' \<Longrightarrow> sc_auth s' = sc_auth s"
  by (cases s; cases s') (simp add: talk_def)

lemma hasByte_iff [simp]: "hasByte items b \<longleftrightarrow> b \<in> set items"
  by (induction items b rule: hasByte.induct) auto

definition noauth_ok :: "time \<Rightarrow> cli_addr \<Rightarrow> auth_state \<Rightarrow> bool" where
  "noauth_ok now cl a \<longleftrightarrow>
     \<not> auth_required a \<or>
     remoteIP cl \<noteq> [] \<and> ((\<exists>ts. authed a = Some ts \<and> fst (ts_has now (remoteIP cl) ts)) \<or>
       authIP (remoteIP cl) a = Inr True)"

lemma authIP_authed [simp]: "authIP ip (a \<lparr>authed := x\<rparr>) = authIP ip a"
  by (simp add: authIP_def split: option.split)

lemma socksNoAuthAllowed_cases:
  assumes "remoteIP cl = [] \<or> ParseIP (remoteIP cl) \<noteq> None"
  obtains a' where "socksNoAuthAllowed now cl s = Some (Ok (noauth_ok now cl (sc_auth s)), s \<lparr>sc_auth := a'\<rparr>)"
    "auth_user a' = auth_user (sc_auth s)"
proof -
  let ?a = "sc_auth s" and ?ip = "remoteIP cl"
  have s0: "s = s \<lparr>sc_auth := sc_auth s\<rparr>" by simp
  show thesis
  proof (cases "\<not> auth_required ?a \<or> ?ip = []")
    case True
    then show thesis using that [of "sc_auth s"] by (auto simp: socksNoAuthAllowed_def noauth_ok_def Let_def)
  next
    case False
    then obtain v where v: "authIP ?ip ?a = Inr v" using assms by (auto simp: authIP_def)
    show thesis
    proof (cases "authed ?a")
      case None
      then show thesis using that [of "sc_auth s"] False v by (simp add: socksNoAuthAllowed_def noauth_ok_def)
    next
      case (Some ts)
      obtain b ts1 where "ts_has now ?ip ts = (b, ts1)" by fastforce
      then show thesis using that [of "?a \<lparr>authed := Some ts1\<rparr>"] False v Some
        by (cases b) (simp_all add: socksNoAuthAllowed_def noauth_ok_def)
    qed
  qed
qed

context reliable_body_io
begin

lemma checkSocksUserPass_cases:
  obtains (refused) e s' where "checkSocksUserPass W now cl user pw s = Some (Fail e, s')"
      "str (io_rd s') = str (io_rd s)" "sc_auth s' = sc_auth s"
      "written (io_wr s') = written (io_wr s) @ [CHR 0x01, CHR 0x01]"
  | (accepted) au s' where "checkSocksUserPass W now cl user pw s = Some (Ok (), s')"
      "str (io_rd s') = str (io_rd s)" "written (io_wr s') = written (io_wr s) @ [CHR 0x01, CHR 0x00]"
      "map_of (auth_user (sc_auth s)) user = Some au" "passwd au = pw" "authPort cl au = None"
proof -
  obtain s1 where w1: "io_write W [CHR 0x01, CHR 0x01] s = Some (Ok (), s1)" "talk str written s [] [CHR 0x01, CHR 0x01] s1"
    using io_write_ok by blast
  obtain s2 where w2: "io_write W [CHR 0x01, CHR 0x00] s = Some (Ok (), s2)" "talk str written s [] [CHR 0x01, CHR 0x00] s2"
    using io_write_ok by blast
  have ref: "io_bind (writeSocks5UserPassStatus W (CHR 0x01)) (\<lambda>_. io_fail e) s = Some (Fail e, s1)" for e
    using w1 by (simp add: writeSocks5UserPassStatus_def socks_consts io_fail_def)
  have r1: thesis if "checkSocksUserPass W now cl user pw s = Some (Fail e, s1)" for e
    using that w1(2) refused [of e s1] talk_auth [OF w1(2)] by (simp add: talk_def)
  show thesis
  proof (cases "map_of (auth_user (sc_auth s)) user")
    case None
    then show thesis using ref by (intro r1 [of ErrAuthRequired]) (simp add: checkSocksUserPass_def)
  next
    case (Some au)
    show thesis
    proof (cases "passwd au = pw \<and> authPort cl au = None")
      case False
      then have "\<exists>e. checkSocksUserPass W now cl user pw s = Some (Fail e, s1)"
        using ref Some by (auto simp: checkSocksUserPass_def)
      then show thesis using r1 by blast
    next
      case True
      then have "checkSocksUserPass W now cl user pw s = Some (Ok (), if remoteIP cl \<noteq> []
          then s2 \<lparr>sc_auth := auth_remember now (remoteIP cl) (sc_auth s2)\<rparr> else s2)"
        using Some w2(1) by (simp add: checkSocksUserPass_def writeSocks5UserPassStatus_def socks_consts)
      then show thesis using accepted [of _ au] Some True w2(2) by (simp add: talk_def split: if_splits)
    qed
  qed
qed

text \<open>The password dialogue: what the client must have sent for it to succeed.\<close>

lemma authSocksUserPass_cases:
  obtains (refused) e s' where "authSocksUserPass R W now cl s = Some (Fail e, s')"
  | (accepted) user au s' where "authSocksUserPass R W now cl s = Some (Ok (), s')"
      "map_of (auth_user (sc_auth s)) user = Some au" "authPort cl au = None"
      "str (io_rd s) = CHR 0x01 # char_of (length user) # user @ char_of (length (passwd au)) # passwd au @ str (io_rd s')"
      "written (io_wr s') = written (io_wr s) @ [CHR 0x01, CHR 0x00]"
proof (cases rule: io_read_cases [of 2 s, case_names ok short])
  case short
  then show thesis using refused by (simp add: authSocksUserPass_def)
next
  case h: (ok hdr s1)
  then obtain v n where hdr: "hdr = [v, n]" by (auto simp: numeral_2_eq_2 length_Suc_conv)
  show thesis
  proof (cases "v = CHR 0x01")
    case False
    obtain s2 where "io_write W [CHR 0x01, CHR 0x01] s1 = Some (Ok (), s2)" using io_write_ok by blast
    then show thesis using refused h hdr False
      by (simp add: authSocksUserPass_def socks_consts writeSocks5UserPassStatus_def io_fail_def)
  next
    case v: True
    show thesis
    proof (cases rule: io_read_cases [of "byte_val n" s1, case_names ok short])
      case short
      then show thesis using refused h hdr v by (simp add: authSocksUserPass_def socks_consts)
    next
      case u: (ok user s2)
      show thesis
      proof (cases rule: io_read_cases [of 1 s2, case_names ok short])
        case short
        then show thesis using refused h hdr v u by (simp add: authSocksUserPass_def socks_consts)
      next
        case pl: (ok plen s3)
        then obtain p where p: "plen = [p]" by (auto simp: length_Suc_conv)
        show thesis
        proof (cases rule: io_read_cases [of "byte_val p" s3, case_names ok short])
          case short
          then show thesis using refused h hdr v u pl p by (simp add: authSocksUserPass_def socks_consts)
        next
          case pw: (ok pw s4)
          have run: "authSocksUserPass R W now cl s = checkSocksUserPass W now cl user pw s4"
            using h hdr v u pl p pw by (simp add: authSocksUserPass_def socks_consts)
          have t: "talk str written s (((hdr @ user) @ plen) @ pw) ((([] @ []) @ []) @ []) s4"
            using h u pl pw by (intro talk_trans)
          show thesis
          proof (cases rule: checkSocksUserPass_cases [of now cl user pw s4, case_names refused accepted])
            case (refused e s')
            then show thesis using run that(1) by simp
          next
            case (accepted au s')
            have "char_of (length user) = n" "char_of (length pw) = p" using u(3) pw(3) by simp_all
            then show thesis using that(2) [of s' user au] accepted run t talk_auth [OF t] hdr v p
              by (auto simp: talk_def)
          qed
        qed
      qed
    qed
  qed
qed


end

text \<open>How a client may have been let in: without a password, or with one.\<close>

definition socks_admitted ::
    "bool \<Rightarrow> auth_state \<Rightarrow> cli_addr \<Rightarrow> bytes \<Rightarrow> bytes \<Rightarrow> bytes \<Rightarrow> bool" where
  "socks_admitted noAuth a cl methods said answer \<longleftrightarrow>
     noAuth \<and> CHR 0x00 \<in> set methods \<and> said = [] \<and> answer = [CHR 0x05, CHR 0x00] \<or>
     CHR 0x02 \<in> set methods \<and> answer = [CHR 0x05, CHR 0x02, CHR 0x01, CHR 0x00] \<and>
       (\<exists>user au. map_of (auth_user a) user = Some au \<and> authPort cl au = None \<and>
          said = CHR 0x01 # char_of (length user) # user @ char_of (length (passwd au)) # passwd au)"

context reliable_body_io
begin

lemma chooseSocks5Method_spec:
  "\<exists>x s'. chooseSocks5Method R W now cl methods noAuth s = Some (x, s') \<and> (\<forall>p. x \<noteq> Panic p) \<and>
    (x = Ok () \<longrightarrow> (\<exists>said answer. socks_admitted noAuth (sc_auth s) cl methods said answer \<and>
       str (io_rd s) = said @ str (io_rd s') \<and> written (io_wr s') = written (io_wr s) @ answer))"
proof -
  obtain s4 where w0: "io_write W [CHR 0x05, CHR 0x00] s = Some (Ok (), s4)"
      "talk str written s [] [CHR 0x05, CHR 0x00] s4" using io_write_ok by blast
  obtain s5 where w2: "io_write W [CHR 0x05, CHR 0x02] s = Some (Ok (), s5)"
      "talk str written s [] [CHR 0x05, CHR 0x02] s5" using io_write_ok by blast
  obtain s6 where wF: "io_write W [CHR 0x05, CHR 0xFF] s = Some (Ok (), s6)" using io_write_ok by blast
  note defs = chooseSocks5Method_def socks_consts writeSocks5Method_def
  consider (none) "noAuth" "CHR 0x00 \<in> set methods"
    | (pass) "\<not> (noAuth \<and> CHR 0x00 \<in> set methods)" "auth_user (sc_auth s) \<noteq> []" "CHR 0x02 \<in> set methods"
    | (neither) "\<not> (noAuth \<and> CHR 0x00 \<in> set methods)"
        "\<not> (auth_user (sc_auth s) \<noteq> [] \<and> CHR 0x02 \<in> set methods)" by blast
  then show ?thesis
  proof cases
    case none
    then have "chooseSocks5Method R W now cl methods noAuth s = Some (Ok (), s4)" using w0 by (simp add: defs)
    then show ?thesis using none w0(2) by (simp add: talk_def socks_admitted_def)
  next
    case pass
    then have r: "chooseSocks5Method R W now cl methods noAuth s = authSocksUserPass R W now cl s5"
      using w2 by (auto simp: defs)
    show ?thesis
    proof (cases rule: authSocksUserPass_cases [of now cl s5, case_names refused accepted])
      case (refused e s')
      then show ?thesis using r by simp
    next
      case (accepted user au s')
      let ?said = "CHR 0x01 # char_of (length user) # user @ char_of (length (passwd au)) # passwd au"
      have "str (io_rd s) = ?said @ str (io_rd s')"
          "written (io_wr s') = written (io_wr s) @ [CHR 0x05, CHR 0x02, CHR 0x01, CHR 0x00]"
        using accepted w2(2) by (simp_all add: talk_def)
      moreover have "socks_admitted noAuth (sc_auth s) cl methods ?said [CHR 0x05, CHR 0x02, CHR 0x01, CHR 0x00]"
        using pass(3) accepted talk_auth [OF w2(2)] unfolding socks_admitted_def by auto
      ultimately show ?thesis using r accepted(1) by (metis outcome.distinct(3))
    qed
  next
    case neither
    then show ?thesis using wF by (auto simp: defs io_fail_def)
  qed
qed

lemma negotiateSocks5_spec:
  assumes "remoteIP cl = [] \<or> ParseIP (remoteIP cl) \<noteq> None"
  shows "\<exists>x s'. negotiateSocks5 R W now cl s = Some (x, s') \<and> (\<forall>p. x \<noteq> Panic p) \<and>
    (x = Ok () \<longrightarrow> (\<exists>methods said answer.
       socks_admitted (noauth_ok now cl (sc_auth s)) (sc_auth s) cl methods said answer \<and>
       str (io_rd s) = CHR 0x05 # char_of (length methods) # methods @ said @ str (io_rd s') \<and>
       written (io_wr s') = written (io_wr s) @ answer))"
proof (cases rule: io_read_cases [of 2 s, case_names ok short])
  case short
  then show ?thesis by (simp add: negotiateSocks5_def)
next
  case h: (ok hdr s1)
  then obtain v n where hdr: "hdr = [v, n]" by (auto simp: numeral_2_eq_2 length_Suc_conv)
  show ?thesis
  proof (cases "v = CHR 0x05")
    case False
    then show ?thesis using h hdr by (simp add: negotiateSocks5_def socks_consts io_fail_def)
  next
    case v: True
    show ?thesis
    proof (cases rule: io_read_cases [of "byte_val n" s1, case_names ok short])
      case short
      then show ?thesis using h hdr v by (simp add: negotiateSocks5_def socks_consts)
    next
      case ms: (ok methods s2)
      let ?na = "noauth_ok now cl (sc_auth s)"
      have t: "talk str written s (hdr @ methods) ([] @ []) s2" using h ms by (intro talk_trans)
      obtain a' where na: "socksNoAuthAllowed now cl s2 = Some (Ok ?na, s2 \<lparr>sc_auth := a'\<rparr>)"
          "auth_user a' = auth_user (sc_auth s)"
        using socksNoAuthAllowed_cases [OF assms, of now s2] talk_auth [OF t] by metis
      have run: "negotiateSocks5 R W now cl s = chooseSocks5Method R W now cl methods ?na (s2 \<lparr>sc_auth := a'\<rparr>)"
        using h hdr v ms na by (simp add: negotiateSocks5_def socks_consts)
      have adm: "socks_admitted ?na a' cl methods said answer = socks_admitted ?na (sc_auth s) cl methods said answer"
        for said answer using na(2) by (simp add: socks_admitted_def)
      have "char_of (length methods) = n" using ms(3) by simp
      then have "str (io_rd s) = CHR 0x05 # char_of (length methods) # methods @ str (io_rd s2)"
          "written (io_wr s2) = written (io_wr s)"
        using t v hdr by (simp_all add: talk_def)
      then show ?thesis
        using chooseSocks5Method_spec [of now cl methods ?na "s2 \<lparr>sc_auth := a'\<rparr>"] run adm by fastforce
    qed
  qed
qed

end

text \<open>C7: A SOCKS5 client is let in only if it may be. Whatever the client sends, \<open>negotiateSocks5\<close> returns,
  without a panic if the client's address is an IP address; and it returns without an error only
  if the client offered to go without a password and may (no authentication is configured, its
  address is allowed or was authenticated before), or if it sent the name and the password of a
  configured user on that user's port. The answers sent and the bytes consumed are exactly those
  of RFC 1928 and RFC 1929.\<close>

theorem negotiateSocks5_secure:
  assumes "reliable_body_io R B str fin W written" "remoteIP cl = [] \<or> ParseIP (remoteIP cl) \<noteq> None"
  shows "\<exists>x s'. negotiateSocks5 R W now cl s = Some (x, s') \<and> (\<forall>p. x \<noteq> Panic p) \<and>
    (x = Ok () \<longrightarrow> (\<exists>methods said answer.
       socks_admitted (noauth_ok now cl (sc_auth s)) (sc_auth s) cl methods said answer \<and>
       str (io_rd s) = CHR 0x05 # char_of (length methods) # methods @ said @ str (io_rd s') \<and>
       written (io_wr s') = written (io_wr s) @ answer))"
  by (rule reliable_body_io.negotiateSocks5_spec [OF assms])

definition ex_socks :: "bytes \<Rightarrow> auth_state \<Rightarrow> (mem_state, bytes) sclient" where
  "ex_socks inp a = \<lparr>io_rd = mem_open [inp] EOF, io_wr = [], sc_auth = a\<rparr>"

lemma ex_remoteIP: "remoteIP ex_cl = ''10.0.0.7''"
  using ex_client by (simp add: remoteIP_def)

theorem negotiateSocks5_secure_witness:
  "\<exists>x s'. negotiateSocks5 (mem_reader httpBufSize) buffer_write 0 ex_cl
      (ex_socks [CHR 0x05, CHR 0x01, CHR 0x00] ex_auth) = Some (x, s') \<and> x \<noteq> Ok ()"
proof -
  let ?s = "ex_socks [CHR 0x05, CHR 0x01, CHR 0x00] ex_auth"
  have "ParseIP (remoteIP ex_cl) \<noteq> None" using ex_client by (simp add: ex_remoteIP)
  then have ip: "remoteIP ex_cl = [] \<or> ParseIP (remoteIP ex_cl) \<noteq> None" ..
  have e: "sc_auth ?s = ex_auth" "mem_str (io_rd ?s) = [CHR 0x05, CHR 0x01, CHR 0x00]"
    by (simp_all add: ex_socks_def)
  obtain x s' where r: "negotiateSocks5 (mem_reader httpBufSize) buffer_write 0 ex_cl ?s = Some (x, s')"
    and ok: "x = Ok () \<Longrightarrow> \<exists>methods said answer.
       socks_admitted (noauth_ok 0 ex_cl ex_auth) ex_auth ex_cl methods said answer \<and>
       [CHR 0x05, CHR 0x01, CHR 0x00] = CHR 0x05 # char_of (length methods) # methods @ said @ mem_str (io_rd s')"
    using negotiateSocks5_secure [OF mem_buffer.reliable_body_io_axioms ip, of 0 ?s] unfolding e by blast
  have "\<not> noauth_ok 0 ex_cl ex_auth"
    by (simp add: noauth_ok_def ex_remoteIP ex_auth_def NewTimeoutSet_def ts_has_def authIP_def split: option.split)
  then have "x \<noteq> Ok ()"
    using ok by (auto simp: socks_admitted_def Cons_eq_append_conv)
  with r show ?thesis by blast
qed

section \<open>Requests and replies fit together\<close>

lemma be_Uint16_Put [simp]: "be_Uint16 (be_PutUint16 v) = v"
proof -
  have "unat v < 2 ^ LENGTH(16)" by (rule unsigned_less)
  then have "unat v div 256 < 256" by (simp add: less_mult_imp_div_less)
  then have "256 * byte_val (char_of (unat v div 256)) + byte_val (char_of (unat v mod 256)) = unat v"
    by (simp add: of_char_of)
  then have "be_Uint16 (be_PutUint16 v) = of_nat (unat v)"
    unfolding be_Uint16_def be_PutUint16_def by (simp only: nth_Cons_0 nth_Cons_Suc One_nat_def)
  then show ?thesis by simp
qed

lemma length_be_Put [simp]: "length (be_PutUint16 v) = 2"
  by (simp add: be_PutUint16_def)

text \<open>The host as the other side sees it: an address in its canonical text, or the name itself.\<close>

definition canon_host :: "bytes \<Rightarrow> bytes" where
  "canon_host host =
     (case ParseIP (trimIPv6Zone (trim_brackets host)) of
        Some ip \<Rightarrow> IP_String ip
      | None \<Rightarrow> trim_brackets host)"

text \<open>The three forms of an encoded address.\<close>

datatype addr_form = V4 bytes | V6 bytes | Name bytes

fun form_bytes :: "addr_form \<Rightarrow> bytes" where
  "form_bytes (V4 ip) = CHR 0x01 # ip"
| "form_bytes (V6 ip) = CHR 0x04 # ip"
| "form_bytes (Name h) = CHR 0x03 # char_of (length h) # h"

fun form_host :: "addr_form \<Rightarrow> bytes" where
  "form_host (V4 ip) = IP_String ip"
| "form_host (V6 ip) = IP_String ip"
| "form_host (Name h) = h"

fun form_ok :: "addr_form \<Rightarrow> bool" where
  "form_ok (V4 ip) \<longleftrightarrow> length ip = 4"
| "form_ok (V6 ip) \<longleftrightarrow> length ip = 16"
| "form_ok (Name h) \<longleftrightarrow> h \<noteq> [] \<and> length h \<le> 255"

lemma To4_length: "To4 ip = Some ip4 \<Longrightarrow> length ip4 = 4 \<and> IP_String ip4 = IP_String ip"
  by (auto simp: To4_def IP_String_def split: if_splits)

lemma buildSocks5AddrPort_form:
  assumes "buildSocks5AddrPort host port = Inr b"
  obtains f where "form_ok f" "b = form_bytes f @ be_PutUint16 port" "form_host f = canon_host host"
proof (cases "ParseIP (trimIPv6Zone (trim_brackets host))")
  case None
  then show thesis using assms that [of "Name (trim_brackets host)"]
    by (auto simp: buildSocks5AddrPort_def Let_def canon_host_def socks_consts split: if_splits)
next
  case (Some ip)
  show thesis
  proof (cases "To4 ip")
    case None
    then obtain ip16 where "To16 ip = Some ip16" "b = socks5AtypIPv6 # ip16 @ be_PutUint16 port"
      using assms Some by (auto simp: buildSocks5AddrPort_def Let_def split: option.splits)
    moreover from this(1) None have "ip16 = ip" "length ip = 16" by (auto simp: To16_def To4_def split: if_splits)
    ultimately show thesis using that [of "V6 ip"] Some by (simp add: canon_host_def socks_consts)
  next
    case v4: (Some ip4)
    then show thesis using assms Some that [of "V4 ip4"] To4_length [OF v4]
      by (simp add: buildSocks5AddrPort_def Let_def canon_host_def socks_consts)
  qed
qed

context reliable_body_io
begin

lemma io_read_then:
  assumes "str (io_rd s) = i @ rest" "length i = n"
    "\<And>s1. talk str written s i [] s1 \<Longrightarrow> str (io_rd s1) = rest \<Longrightarrow> P (f i s1)"
  shows "P (io_bind (io_read R n) f s)"
  using io_read_ok [OF assms(1,2)] assms(3) by auto

lemma io_read_body:
  assumes "str (io_rd s) = i @ rest" "length i = n"
  obtains s1 where "io_read R n s = Some (Ok i, s1)" "talk str written s i [] s1" "str (io_rd s1) = rest"
  using io_read_ok [OF assms] by blast

lemma readSocks5Target_form:
  assumes "form_ok f" "str (io_rd s) = tl (form_bytes f) @ be_PutUint16 port @ rest"
  shows "\<exists>s'. readSocks5Target R (hd (form_bytes f)) s = Some (Ok (form_host f, port), s') \<and>
    talk str written s (tl (form_bytes f) @ be_PutUint16 port) [] s' \<and> str (io_rd s') = rest"
proof -
  have port: "\<exists>s'. io_bind (io_read R 2) (\<lambda>portBytes. io_ret (h, be_Uint16 portBytes)) s1 = Some (Ok (h, port), s') \<and>
      talk str written s (i @ be_PutUint16 port) [] s' \<and> str (io_rd s') = rest"
    if "talk str written s i [] s1" "str (io_rd s1) = be_PutUint16 port @ rest" for h i s1
    using io_read_ok [of s1 "be_PutUint16 port" rest 2] that talk_trans [OF that(1)]
    by (force simp: io_ret_def)
  show ?thesis
  proof (cases f)
    case (V4 ip)
    then obtain s1 where "io_read R 4 s = Some (Ok ip, s1)" "talk str written s ip [] s1"
        "str (io_rd s1) = be_PutUint16 port @ rest"
      using assms io_read_body [of s ip "be_PutUint16 port @ rest" 4] by auto
    then show ?thesis using V4 port [of ip s1] by (simp add: readSocks5Target_def socks_consts io_bind_assoc)
  next
    case (V6 ip)
    then obtain s1 where "io_read R 16 s = Some (Ok ip, s1)" "talk str written s ip [] s1"
        "str (io_rd s1) = be_PutUint16 port @ rest"
      using assms io_read_body [of s ip "be_PutUint16 port @ rest" 16] by auto
    then show ?thesis using V6 port [of ip s1] by (simp add: readSocks5Target_def socks_consts io_bind_assoc)
  next
    case (Name h)
    then obtain s1 where 1: "io_read R 1 s = Some (Ok [char_of (length h)], s1)"
        "talk str written s [char_of (length h)] [] s1" "str (io_rd s1) = h @ be_PutUint16 port @ rest"
      using assms io_read_body [of s "[char_of (length h)]" "h @ be_PutUint16 port @ rest" 1] by auto
    have "byte_val (char_of (length h)) = length h" using Name assms(1) by (simp add: of_char_of)
    then obtain s2 where 2: "io_read R (byte_val (char_of (length h))) s1 = Some (Ok h, s2)"
        "talk str written s1 h [] s2" "str (io_rd s2) = be_PutUint16 port @ rest"
      using io_read_body [OF 1(3), of "length h"] by metis
    have "talk str written s ([char_of (length h)] @ h) ([] @ []) s2" using 1(2) 2(2) by (rule talk_trans)
    then show ?thesis using Name 1 2 port [of "char_of (length h) # h" s2]
      by (simp add: readSocks5Target_def socks_consts io_bind_assoc)
  qed
qed

lemma form_bytes_hd: "form_bytes f = hd (form_bytes f) # tl (form_bytes f)"
  by (cases f) simp_all

lemma parseSocks5Request_form:
  assumes "form_ok f" "cmd = CHR 0x01 \<or> cmd = CHR 0x03"
    "str (io_rd s) = [CHR 0x05, cmd, CHR 0x00] @ form_bytes f @ be_PutUint16 port @ rest"
  shows "\<exists>s'. parseSocks5Request R r s =
      Some (Ok (\<lparr>sq_cmd = cmd, sq_host = form_host f, sq_port = port,
          sq_hostPort = JoinHostPort (form_host f) (Itoa (int (unat port)))\<rparr>,
        if cmd = CHR 0x01 then socks_connect_request (JoinHostPort (form_host f) (Itoa (int (unat port)))) r else r), s') \<and>
    talk str written s ([CHR 0x05, cmd, CHR 0x00] @ form_bytes f @ be_PutUint16 port) [] s' \<and> str (io_rd s') = rest"
proof -
  let ?h = "[CHR 0x05, cmd, CHR 0x00, hd (form_bytes f)]" and ?t = "tl (form_bytes f) @ be_PutUint16 port"
  have st: "str (io_rd s) = ?h @ (?t @ rest)" using assms(3) form_bytes_hd [of f] by simp
  obtain s1 where 1: "io_read R 4 s = Some (Ok ?h, s1)" "talk str written s ?h [] s1" "str (io_rd s1) = ?t @ rest"
    using io_read_body [OF st, of 4] by auto
  have "str (io_rd s1) = tl (form_bytes f) @ be_PutUint16 port @ rest" using 1(3) by simp
  from readSocks5Target_form [OF assms(1) this] obtain s2 where
    2: "readSocks5Target R (hd (form_bytes f)) s1 = Some (Ok (form_host f, port), s2)"
       "talk str written s1 ?t [] s2" "str (io_rd s2) = rest" by blast
  have "?h @ ?t = [CHR 0x05, cmd, CHR 0x00] @ form_bytes f @ be_PutUint16 port" using form_bytes_hd [of f] by simp
  then have "talk str written s ([CHR 0x05, cmd, CHR 0x00] @ form_bytes f @ be_PutUint16 port) [] s2"
    using talk_trans [OF 1(2) 2(2)] by (metis append_Nil)
  then show ?thesis using 1(1) 2(1,3) assms(2) 
    by (auto simp: parseSocks5Request_def socks_consts Let_def io_ret_def)
qed


lemma readSocks5ConnectReply_form:
  fixes s :: "('r, 'w, 'm) net_io_scheme"
  assumes "form_ok f" "str (io_rd s) = [CHR 0x05, rep, CHR 0x00] @ form_bytes f @ be_PutUint16 port @ rest"
  shows "\<exists>s'. readSocks5ConnectReply R s =
      Some (if rep = CHR 0x00 then Ok () else Fail SocksProtocolErr, s') \<and> str (io_rd s') = rest"
proof -
  let ?h = "[CHR 0x05, rep, CHR 0x00, hd (form_bytes f)]" and ?t = "tl (form_bytes f) @ be_PutUint16 port"
  have st: "str (io_rd s) = ?h @ (?t @ rest)" using assms(2) form_bytes_hd [of f] by simp
  obtain s1 where 1: "io_read R 4 s = Some (Ok ?h, s1)" "str (io_rd s1) = ?t @ rest"
    using io_read_body [OF st, of 4] by auto
  have "\<exists>s2. readSocks5Address R (hd (form_bytes f)) s1 = Some (Ok (), s2) \<and> str (io_rd s2) = be_PutUint16 port @ rest"
  proof (cases f)
    case (V4 ip)
    then show ?thesis using assms(1) 1(2) io_read_ok [of s1 ip "be_PutUint16 port @ rest" 4]
      by (auto simp: readSocks5Address_def socks_consts io_ret_def)
  next
    case (V6 ip)
    then show ?thesis using assms(1) 1(2) io_read_ok [of s1 ip "be_PutUint16 port @ rest" 16]
      by (auto simp: readSocks5Address_def socks_consts io_ret_def)
  next
    case (Name h)
    then obtain s3 where 3: "io_read R 1 s1 = Some (Ok [char_of (length h)], s3)" "str (io_rd s3) = h @ be_PutUint16 port @ rest"
      using 1(2) io_read_body [of s1 "[char_of (length h)]" "h @ be_PutUint16 port @ rest" 1] by auto
    have "byte_val (char_of (length h)) = length h" using Name assms(1) by (simp add: of_char_of)
    then show ?thesis using Name 3(1) io_read_ok [OF 3(2), of "length h"]
      by (auto simp: readSocks5Address_def socks_consts io_ret_def)
  qed
  then obtain s2 where 2: "readSocks5Address R (hd (form_bytes f)) s1 = Some (Ok (), s2)"
      "str (io_rd s2) = be_PutUint16 port @ rest" by blast
  obtain s4 where "io_read R 2 s2 = Some (Ok (be_PutUint16 port), s4)" "str (io_rd s4) = rest"
    using io_read_body [OF 2(2), of 2] by auto
  then show ?thesis using 1(1) 2(1)
    by (auto simp: readSocks5ConnectReply_def socks_consts io_bind_def io_ret_def io_fail_def)
qed

end

lemma buildSocks5Reply_form:
  obtains f port where "form_ok f" "buildSocks5Reply reply addr = [CHR 0x05, reply, CHR 0x00] @ form_bytes f @ be_PutUint16 port"
proof -
  obtain ip port0 zone where ra: "reply_addr addr = (ip, port0, zone)" by (metis prod_cases3)
  let ?port = "if port0 < 0 \<or> port0 > 0xffff then 0 else port0"
  let ?host = "IP_String ip @ (if zone \<noteq> [] \<and> To4 ip = None then ''%'' @ zone else [])"
  show thesis
  proof (cases "buildSocks5AddrPort ?host (word_of_int ?port)")
    case (Inl e)
    have "replicate 6 (CHR 0x00) = replicate 4 (CHR 0x00) @ be_PutUint16 0"
      by (simp add: be_PutUint16_def replicate_numerals char_of_def)
    then show thesis using that [of "V4 (replicate 4 (CHR 0x00))" 0] Inl ra
      by (simp add: buildSocks5Reply_def socks_consts Let_def)
  next
    case (Inr b)
    obtain f where f: "form_ok f" "b = form_bytes f @ be_PutUint16 (word_of_int ?port)"
      using buildSocks5AddrPort_form [OF Inr] by blast
    then have "buildSocks5Reply reply addr = [CHR 0x05, reply, CHR 0x00] @ form_bytes f @ be_PutUint16 (word_of_int ?port)"
      unfolding buildSocks5Reply_def ra using Inr by (simp add: socks_consts Let_def)
    then show thesis using that f by blast
  qed
qed

text \<open>C33: The two sides understand each other's requests. What \<open>socksParent.connect\<close> writes for a URL,
  \<open>parseSocks5Request\<close> reads as a CONNECT to the same host (an IP address in canonical form) and port,
  consuming exactly the request.\<close>

theorem socks_request_roundtrip:
  fixes s :: "('r, 'w, 'm) net_io_scheme" and W :: "'w writer"
  assumes "reliable_body_io R B str fin W written" "socks_request url = Inr req" "str (io_rd s) = req @ rest"
  shows "\<exists>s' port. Atoi (url_Port url) = Some port \<and> 0 \<le> port \<and> port \<le> 65535 \<and> str (io_rd s') = rest \<and>
    (let hostPort = JoinHostPort (canon_host (url_Host url)) (Itoa port) in
     parseSocks5Request R r s =
       Some (Ok (\<lparr>sq_cmd = CHR 0x01, sq_host = canon_host (url_Host url), sq_port = word_of_int port,
           sq_hostPort = hostPort\<rparr>, socks_connect_request hostPort r), s'))"
proof -
  obtain port addrPort where p: "Atoi (url_Port url) = Some port" "0 \<le> port" "port \<le> 65535"
      "buildSocks5AddrPort (url_Host url) (word_of_int port) = Inr addrPort"
      "req = [CHR 0x05, CHR 0x01, CHR 0x00] @ addrPort"
    using assms(2) by (auto simp: socks_request_def socks_consts split: option.splits if_splits sum.splits)
  obtain f where f: "form_ok f" "addrPort = form_bytes f @ be_PutUint16 (word_of_int port)" "form_host f = canon_host (url_Host url)"
    using buildSocks5AddrPort_form [OF p(4)] by blast
  have "int (unat (word_of_int port :: 16 word)) = port" using p(2,3) by (simp add: unsigned_of_int take_bit_int_eq_self)
  moreover have "str (io_rd s) = [CHR 0x05, CHR 0x01, CHR 0x00] @ form_bytes f @ be_PutUint16 (word_of_int port) @ rest"
    using assms(3) p(5) f(2) by simp
  ultimately show ?thesis
    using reliable_body_io.parseSocks5Request_form [OF assms(1) f(1), of "CHR 0x01" s "word_of_int port" rest r] p f(3)
    by (force simp: Let_def)
qed

text \<open>Every reply the listener can build, for any address, is read by \<open>readSocks5ConnectReply\<close> to its
  last byte, and is taken as a success exactly if its status is zero.\<close>

theorem socks_reply_roundtrip:
  fixes s :: "('r, 'w, 'm) net_io_scheme" and W :: "'w writer"
  assumes "reliable_body_io R B str fin W written" "str (io_rd s) = buildSocks5Reply reply addr @ rest"
  shows "\<exists>s'. readSocks5ConnectReply R s =
      Some (if reply = socks5StatusSucceeded then Ok () else Fail SocksProtocolErr, s') \<and> str (io_rd s') = rest"
proof -
  obtain f port where "form_ok f" "buildSocks5Reply reply addr = [CHR 0x05, reply, CHR 0x00] @ form_bytes f @ be_PutUint16 port"
    by (rule buildSocks5Reply_form)
  then show ?thesis
    using reliable_body_io.readSocks5ConnectReply_form [OF assms(1), of f s reply port rest] assms(2)
    by (simp add: socks_consts)
qed

section \<open>Datagrams\<close>

lemma slice_of_ok [simp]: "a \<le> b \<Longrightarrow> b \<le> length p \<Longrightarrow> slice_of p a b = Inr (take (b - a) (drop a p))"
  by (simp add: slice_of_def)

text \<open>The host field of a packet: where it ends leaves room for the port.\<close>

lemma udp_host_or:
  assumes "4 \<le> length packet"
  shows "(\<exists>e. udp_host packet = Inr (Inl e)) \<or>
    (\<exists>h off. udp_host packet = Inr (Inr (h, off)) \<and> 6 \<le> off \<and> off + 2 \<le> length packet)"
proof -
  note defs = udp_host_def Let_def
  consider "packet ! 3 = socks5AtypIPv4" | "packet ! 3 = socks5AtypIPv6" | "packet ! 3 = socks5AtypDomain"
    | "packet ! 3 \<noteq> socks5AtypIPv4" "packet ! 3 \<noteq> socks5AtypIPv6" "packet ! 3 \<noteq> socks5AtypDomain" by blast
  then show ?thesis
  proof cases
    case 1
    then show ?thesis by (cases "length packet < 10") (simp_all add: defs)
  next
    case 2
    then show ?thesis by (cases "length packet < 22") (simp_all add: defs socks_consts)
  next
    case 3
    let ?sz = "byte_val (packet ! 4)"
    show ?thesis
    proof (cases "length packet < 5 \<or> ?sz = 0 \<or> length packet < 5 + ?sz + 2")
      case True
      then show ?thesis using 3 by (auto simp: defs socks_consts)
    next
      case False
      then show ?thesis using 3 by (simp add: defs socks_consts)
    qed
  next
    case 4
    then show ?thesis by (simp add: defs)
  qed
qed

lemma parseSocks5UDPDatagram_total:
  "\<exists>r. parseSocks5UDPDatagram packet = Inr r \<and>
     (case r of Inl e \<Rightarrow> True | Inr (target, payload) \<Rightarrow> suffix payload packet \<and> length payload + 8 \<le> length packet)"
proof (cases "length packet < 4 \<or> packet ! 0 \<noteq> CHR 0x00 \<or> packet ! 1 \<noteq> CHR 0x00 \<or> packet ! 2 \<noteq> CHR 0x00")
  case True
  then show ?thesis by (auto simp: parseSocks5UDPDatagram_def)
next
  case False
  then have "4 \<le> length packet" by simp
  from udp_host_or [OF this] show ?thesis
  proof (elim disjE exE conjE)
    fix e assume "udp_host packet = Inr (Inl e)"
    then show ?thesis using False by (auto simp: parseSocks5UDPDatagram_def)
  next
    fix h off assume "udp_host packet = Inr (Inr (h, off))" "6 \<le> off" "off + 2 \<le> length packet"
    then show ?thesis using False by (auto simp: parseSocks5UDPDatagram_def suffix_drop)
  qed
qed

lemma udp_host_form:
  assumes "form_ok f"
  shows "udp_host (replicate 3 (CHR 0x00) @ form_bytes f @ be_PutUint16 port @ payload) =
    Inr (Inr (form_host f, 3 + length (form_bytes f)))"
proof (cases f)
  case (Name h)
  have "byte_val (char_of (length h)) = length h" using Name assms by (simp add: of_char_of)
  then show ?thesis using Name assms
    by (simp add: udp_host_def Let_def socks_consts replicate_numerals)
qed (use assms in \<open>simp_all add: udp_host_def Let_def socks_consts replicate_numerals\<close>)

lemma form_bytes_length: "0 < length (form_bytes f)"
  by (cases f) simp_all

lemma parseSocks5UDPDatagram_form:
  assumes "form_ok f"
  shows "parseSocks5UDPDatagram (replicate 3 (CHR 0x00) @ form_bytes f @ be_PutUint16 port @ payload) =
    Inr (Inr (JoinHostPort (form_host f) (Itoa (int (unat port))), payload))"
proof -
  let ?p = "replicate 3 (CHR 0x00) @ form_bytes f @ be_PutUint16 port @ payload"
  let ?off = "3 + length (form_bytes f)"
  have d: "drop ?off ?p = be_PutUint16 port @ payload" "drop (?off + 2) ?p = payload" by simp_all
  have "slice_of ?p ?off (?off + 2) = Inr (be_PutUint16 port)" "slice_of ?p (?off + 2) (length ?p) = Inr payload"
    using d by (simp_all del: append_assoc)
  moreover have "\<not> length ?p < 4" using form_bytes_length [of f] by (cases "form_bytes f") auto
  moreover have "?p ! 0 = CHR 0x00" "?p ! 1 = CHR 0x00" "?p ! 2 = CHR 0x00" by (simp_all add: replicate_numerals)
  ultimately show ?thesis
    unfolding parseSocks5UDPDatagram_def udp_host_form [OF assms] by (simp del: replicate_numerals)
qed

text \<open>Parsing a datagram from a client never reads outside of it, whatever it holds: the result is
  an error, or a target and a payload that is the tail of the datagram after a header of at least eight
  bytes.\<close>

theorem parseSocks5UDPDatagram_in_range:
  "\<exists>r. parseSocks5UDPDatagram packet = Inr r \<and>
     (case r of Inl e \<Rightarrow> True | Inr (target, payload) \<Rightarrow> suffix payload packet \<and> length payload + 8 \<le> length packet)"
  by (rule parseSocks5UDPDatagram_total)

text \<open>A datagram that \<open>buildSocks5UDPDatagram\<close> made from an address and a payload is parsed to the
  same address, with an IP address in canonical form, and the same payload.\<close>

theorem udp_datagram_roundtrip:
  assumes "buildSocks5UDPDatagram addr payload = Inr packet"
  shows "\<exists>host portStr port. SplitHostPort addr = Some (host, portStr) \<and> Atoi portStr = Some port \<and>
    parseSocks5UDPDatagram packet = Inr (Inr (JoinHostPort (canon_host host) (Itoa port), payload))"
proof -
  obtain host portStr port b where h: "SplitHostPort addr = Some (host, portStr)" "Atoi portStr = Some port"
      "0 \<le> port" "port \<le> 65535" "buildSocks5AddrPort host (word_of_int port) = Inr b"
      "packet = replicate 3 (CHR 0x00) @ b @ payload"
    using assms by (auto simp: buildSocks5UDPDatagram_def split: option.splits if_splits sum.splits)
  obtain f where f: "form_ok f" "b = form_bytes f @ be_PutUint16 (word_of_int port)" "form_host f = canon_host host"
    using buildSocks5AddrPort_form [OF h(5)] by blast
  have "int (unat (word_of_int port :: 16 word)) = port"
    using h(3,4) by (simp add: unsigned_of_int take_bit_int_eq_self)
  then show ?thesis
    using h(1,2,6) f parseSocks5UDPDatagram_form [OF f(1), of "word_of_int port" payload] by simp
qed

section \<open>UDP associations\<close>

datatype udp_event = FromClient sockaddr bytes udp_action | FromRemote sockaddr bytes udp_action

text \<open>The packets of an association in the order in which they were handled.\<close>

inductive assoc_run ::
    "bytes \<Rightarrow> (bytes \<Rightarrow> sockaddr option) \<Rightarrow> (sockaddr \<Rightarrow> bytes) \<Rightarrow> sockaddr option \<Rightarrow> udp_event list \<Rightarrow> bool"
  for clientIP resolve addr_String where
  assoc_start: "assoc_run clientIP resolve addr_String None []"
| assoc_relay: "assoc_run clientIP resolve addr_String ca tr \<Longrightarrow>
    relay_packet clientIP resolve src packet ca = Inr (act, ca') \<Longrightarrow>
    assoc_run clientIP resolve addr_String ca' (tr @ [FromClient src packet act])"
| assoc_remote: "assoc_run clientIP resolve addr_String ca tr \<Longrightarrow>
    assoc_run clientIP resolve addr_String ca (tr @ [FromRemote remote data (remote_packet addr_String remote data ca)])"

definition same_addr :: "sockaddr \<Rightarrow> sockaddr \<Rightarrow> bool" where
  "same_addr a b \<longleftrightarrow> IP_Equal (sa_IP a) (sa_IP b) \<and> sa_Port a = sa_Port b \<and> sa_Zone a = sa_Zone b"

text \<open>What an event may do, if the client's address is \<open>a\<close>.\<close>

fun event_ok :: "sockaddr option \<Rightarrow> udp_event \<Rightarrow> bool" where
  "event_ok ca (FromClient src packet act) \<longleftrightarrow>
     act = Drop \<or>
     (case ca of None \<Rightarrow> False | Some a \<Rightarrow> same_addr src a) \<and>
     (\<exists>remote target payload. act = SendOut remote payload \<and>
        parseSocks5UDPDatagram packet = Inr (Inr (target, payload)))"
| "event_ok ca (FromRemote remote data act) \<longleftrightarrow>
     act = Drop \<or> (case ca of None \<Rightarrow> False | Some a \<Rightarrow> \<exists>packet. act = SendClient packet a)"

lemma event_ok_None: "event_ok None ev \<Longrightarrow> event_ok ca ev"
  by (cases ev) auto

lemma IP_Equal_refl [simp]: "IP_Equal ip ip"
  by (simp add: IP_Equal_def)

lemma relay_packet_cases:
  assumes "relay_packet clientIP resolve src packet ca = Inr (act, ca')"
  shows "event_ok ca' (FromClient src packet act) \<and>
    (ca' = ca \<or> ca = None \<and> ca' = Some src \<and> sameSocks5UDPClient clientIP (Some src) None)"
  using assms
  by (auto simp: relay_packet_def sameSocks5UDPClient_def same_addr_def Let_def
      split: if_splits option.splits sum.splits)

lemma assoc_run_ok:
  assumes "assoc_run clientIP resolve addr_String ca tr"
  shows "(\<forall>ev \<in> set tr. event_ok ca ev) \<and>
    (case ca of None \<Rightarrow> True | Some a \<Rightarrow> sameSocks5UDPClient clientIP (Some a) None)"
  using assms
proof (induction rule: assoc_run.induct)
  case (assoc_relay ca tr src packet act ca')
  note c = relay_packet_cases [OF assoc_relay.hyps(2)]
  show ?case
  proof (cases "ca' = ca")
    case True
    then show ?thesis using assoc_relay.IH c by auto
  next
    case False
    then show ?thesis using assoc_relay.IH c event_ok_None by auto
  qed
next
  case (assoc_remote ca tr remote data)
  then show ?case by (auto simp: remote_packet_def split: option.split sum.split)
qed simp

text \<open>UDP associations are isolated. In every run of an association, with any packets from anyone
  in any order, all datagrams that are forwarded came from one and the same address, every answer is
  sent to exactly that address, and its IP is the one of the client that opened the association.
  Handling a packet never panics.\<close>

theorem udp_association_isolated:
  assumes "assoc_run clientIP resolve addr_String ca tr"
  shows "(\<forall>ev \<in> set tr. event_ok ca ev) \<and>
    (\<forall>a. ca = Some a \<and> clientIP \<noteq> [] \<longrightarrow> (\<exists>peer. ParseIP clientIP = Some peer \<and> IP_Equal (sa_IP a) peer)) \<and>
    (\<forall>src packet. \<exists>r. relay_packet clientIP resolve src packet ca = Inr r)"
proof (intro conjI allI impI)
  show "\<forall>ev \<in> set tr. event_ok ca ev" using assoc_run_ok [OF assms] by blast
  show "\<exists>peer. ParseIP clientIP = Some peer \<and> IP_Equal (sa_IP a) peer" if "ca = Some a \<and> clientIP \<noteq> []" for a
    using assoc_run_ok [OF assms] that by (auto simp: sameSocks5UDPClient_def split: option.splits)
  show "\<exists>r. relay_packet clientIP resolve src packet ca = Inr r" for src packet
  proof -
    obtain r where "parseSocks5UDPDatagram packet = Inr r" using parseSocks5UDPDatagram_total [of packet] by blast
    then show ?thesis by (cases r) (auto simp: relay_packet_def Let_def split: option.split)
  qed
qed

section \<open>Witnesses\<close>

definition ex_net :: "bytes list \<Rightarrow> (mem_state, bytes) net_io" where
  "ex_net inp = \<lparr>io_rd = mem_open inp EOF, io_wr = []\<rparr>"

lemma ex_net_str [simp]: "mem_str (io_rd (ex_net inp)) = concat inp"
  by (simp add: ex_net_def)

definition ex_sock_url :: URL where
  "ex_sock_url = empty_URL \<lparr>url_Host := ''a.com'', url_Port := ''443''\<rparr>"

lemma ex_length: "char_of (Suc (Suc (Suc (Suc (Suc 0))))) = CHR 0x05"
proof -
  have "Suc (Suc (Suc (Suc (Suc 0)))) = 5" by simp
  then show ?thesis by (simp only: char_of_def) (simp add: bit_simps)
qed

lemma ex_addrPort:
  "buildSocks5AddrPort ''a.com'' 443 = Inr (CHR 0x03 # CHR 0x05 # ''a.com'' @ [CHR 0x01, CHR 0xBB])"
  "canon_host ''a.com'' = ''a.com''"
  by (simp_all add: buildSocks5AddrPort_def canon_host_def trim_brackets_def trimIPv6Zone_def ParseIP_def parseIPv4_def
      Split_char parse_octet_def is_digit_char_def socks_consts be_PutUint16_def ex_length)
    (simp_all add: char_of_def bit_simps)

lemma ex_Atoi: "Atoi ''443'' = Some 443" "Itoa 443 = ''443''"
  by (simp_all add: Atoi_def is_digit_char_def Itoa_def nat_digits.simps digit_char_def char_of_def bit_simps)

lemma ex_socks_request:
  "socks_request ex_sock_url = Inr ([CHR 0x05, CHR 0x01, CHR 0x00, CHR 0x03, CHR 0x05] @ ''a.com'' @ [CHR 0x01, CHR 0xBB])"
  by (simp add: socks_request_def ex_sock_url_def ex_Atoi ex_addrPort socks_consts)

theorem socks_request_roundtrip_witness:
  "\<exists>s'. parseSocks5Request (mem_reader httpBufSize) zeroRequest
      (ex_net [[CHR 0x05, CHR 0x01, CHR 0x00, CHR 0x03, CHR 0x05] @ ''a.com'' @ [CHR 0x01, CHR 0xBB], ''x'']) =
    Some (Ok (\<lparr>sq_cmd = CHR 0x01, sq_host = ''a.com'', sq_port = 443, sq_hostPort = ''a.com:443''\<rparr>,
      socks_connect_request ''a.com:443'' zeroRequest), s') \<and> mem_str (io_rd s') = ''x''"
  using socks_request_roundtrip [OF mem_buffer.reliable_body_io_axioms ex_socks_request, of
      "ex_net [[CHR 0x05, CHR 0x01, CHR 0x00, CHR 0x03, CHR 0x05] @ ''a.com'' @ [CHR 0x01, CHR 0xBB], ''x'']" "''x''" zeroRequest]
  by (auto simp: ex_sock_url_def ex_Atoi ex_addrPort Let_def JoinHostPort_def)

theorem socks_reply_roundtrip_witness:
  "\<exists>s'. readSocks5ConnectReply (mem_reader httpBufSize)
      (ex_net [buildSocks5Reply (CHR 0x05) None, ''rest'']) =
    Some (Fail SocksProtocolErr, s') \<and> mem_str (io_rd s') = ''rest''"
  using socks_reply_roundtrip [OF mem_buffer.reliable_body_io_axioms, of
      "ex_net [buildSocks5Reply (CHR 0x05) None, ''rest'']" "CHR 0x05" None "''rest''"]
  by (simp add: socks_consts)

theorem udp_datagram_roundtrip_witness:
  "\<exists>packet. buildSocks5UDPDatagram ''a.com:443'' ''data'' = Inr packet \<and>
     parseSocks5UDPDatagram packet = Inr (Inr (''a.com:443'', ''data''))"
proof -
  have sp: "SplitHostPort ''a.com:443'' = Some (''a.com'', ''443'')" by (simp add: SplitHostPort_def)
  then obtain packet where b: "buildSocks5UDPDatagram ''a.com:443'' ''data'' = Inr packet"
    by (simp add: buildSocks5UDPDatagram_def ex_Atoi ex_addrPort)
  from udp_datagram_roundtrip [OF b] sp b show ?thesis
    by (auto simp: ex_Atoi ex_addrPort JoinHostPort_def)
qed

definition ex_peer :: sockaddr where
  "ex_peer = \<lparr>sa_IP = [CHR 0x0A, CHR 0x00, CHR 0x00, CHR 0x07], sa_Port = 4000, sa_Zone = []\<rparr>"

theorem udp_association_isolated_witness:
  "\<exists>ca. assoc_run ''10.0.0.7'' (\<lambda>t. None) (\<lambda>a. []) ca [FromClient ex_peer ''bad'' Drop] \<and>
     event_ok ca (FromClient ex_peer ''bad'' Drop)"
proof -
  have "\<exists>ca. relay_packet ''10.0.0.7'' (\<lambda>t. None) ex_peer ''bad'' None = Inr (Drop, ca)"
    by (simp add: relay_packet_def parseSocks5UDPDatagram_def Let_def)
  then obtain ca where "relay_packet ''10.0.0.7'' (\<lambda>t. None) ex_peer ''bad'' None = Inr (Drop, ca)" by blast
  from assoc_relay [OF assoc_start this, of "\<lambda>a. []"]
  have run: "assoc_run ''10.0.0.7'' (\<lambda>t. None) (\<lambda>a. []) ca [FromClient ex_peer ''bad'' Drop]" by simp
  with udp_association_isolated [OF run] show ?thesis by auto
qed

end
