(* ===== verification/Forward.thy ===== *)
theory Forward
  imports Proxy Net_IO Http_Parse
begin

text \<open>
  proxy.go, a request on a server connection: \<open>serverWriter\<close>, \<open>sendRequestHeader\<close>,
  \<open>sendRequestBody\<close>, \<open>readResponse\<close>, \<open>doRequest\<close>, and the part of \<open>serve\<close> from the label \<open>retry\<close>
  on. The steps are \<open>io\<close> values over the state \<open>fwd\<close> of one client connection; the streams of the
  server connections are a store indexed by the connection.

  The client's end is written to through \<open>p_cw\<close>, on the environment that error pages go to as
  well. Capturing and plugins are off (\<open>r.capture\<close> and \<open>r.plugin\<close> are nil); \<open>Recording\<close> shows that
  recording a body changes nothing else.
\<close>

section \<open>State and environment\<close>

record ('cr, 'sr, 'sw, 'e) fwd =
  f_cli :: 'cr
  f_srv :: "net_conn \<Rightarrow> 'sr"
  f_out :: "net_conn \<Rightarrow> 'sw"
  f_w :: "'e world"
  f_rq :: Request
  f_rp :: Response
  f_sv :: serverConn

text \<open>
  \<open>p_cli\<close> and \<open>p_srv\<close> read from the client and from a server, \<open>p_out\<close> and \<open>p_cw\<close> write to a
  server and to the client. \<open>p_release\<close> is what releasing a read buffer does to a server's stream
  (bytes already buffered are lost). \<open>p_uni\<close> and \<open>p_fold\<close> are Unicode case mapping, for header
  values outside ASCII. \<open>p_tunnel\<close> is a complete run of the method \<open>tunnel\<close>, and \<open>p_connect\<close> of
  \<open>doConnect\<close>, whose steps are modelled on their own.
\<close>

record ('cr, 'sr, 'sw, 'e) fwd_env =
  p_C :: cfg
  p_E :: "'e xenv"
  p_cli :: "'cr Reader"
  p_srv :: "'sr Reader"
  p_out :: "'sw writer"
  p_cw :: "'e writer"
  p_release :: "'sr \<Rightarrow> 'sr"
  p_uni :: "bytes \<Rightarrow> bytes"
  p_fold :: "bytes \<Rightarrow> bool"
  p_tunnel :: "(('cr, 'sr, 'sw, 'e) fwd, unit) io"
  p_connect :: "(('cr, 'sr, 'sw, 'e) fwd, unit) io"

definition f_conn :: "('cr, 'sr, 'sw, 'e) fwd \<Rightarrow> net_conn" where
  "f_conn s = sv_Conn (f_sv s)"

definition set_srv :: "'sr \<Rightarrow> ('cr, 'sr, 'sw, 'e) fwd \<Rightarrow> ('cr, 'sr, 'sw, 'e) fwd" where
  "set_srv x s = s \<lparr>f_srv := (f_srv s)(f_conn s := x)\<rparr>"

definition set_out :: "'sw \<Rightarrow> ('cr, 'sr, 'sw, 'e) fwd \<Rightarrow> ('cr, 'sr, 'sw, 'e) fwd" where
  "set_out x s = s \<lparr>f_out := (f_out s)(f_conn s := x)\<rparr>"

definition on_rq :: "(Request \<Rightarrow> Request) \<Rightarrow> ('cr, 'sr, 'sw, 'e) fwd \<Rightarrow> ('cr, 'sr, 'sw, 'e) fwd" where
  "on_rq f s = s \<lparr>f_rq := f (f_rq s)\<rparr>"

section \<open>Sending the request\<close>

text \<open>\<open>serverWriter\<close>: what is written to the server is also kept in the request's buffer.\<close>

definition save_raw :: "bytes \<Rightarrow> Request \<Rightarrow> Request" where
  "save_raw p r =
     (case raw r of
        None \<Rightarrow> r
      | Some b \<Rightarrow>
          (if 2 * httpBufSize \<le> length b then (Request_releaseBuf r) \<lparr>partial := True\<rparr>
           else if responseNotSent r then raw_write p r
           else Request_releaseBuf r))"

definition serverWriter_Write :: "'sw writer \<Rightarrow> (Request \<times> 'sw) writer" where
  "serverWriter_Write W p = (\<lambda>(r, w). case W p w of (n, e, w') \<Rightarrow> (n, e, (save_raw p r, w')))"

definition write_error :: "('cr, 'sr, 'sw, 'e) fwd_env \<Rightarrow> err \<Rightarrow> (('cr, 'sr, 'sw, 'e) fwd, unit) io" where
  "write_error P e s =
     (case handleServerWriteError (p_C P) (p_E P) (f_rq s) (f_sv s) e (f_w s) of
        Inl p \<Rightarrow> Some (Panic p, s)
      | Inr (e', w) \<Rightarrow> Some (Fail e', s \<lparr>f_w := w\<rparr>))"

text \<open>\<open>sv.Write\<close>, with its error given to \<open>handleServerWriteError\<close>.\<close>

definition sv_Write :: "('cr, 'sr, 'sw, 'e) fwd_env \<Rightarrow> bytes \<Rightarrow> (('cr, 'sr, 'sw, 'e) fwd, unit) io" where
  "sv_Write P b s =
     (case p_out P b (f_out s (f_conn s)) of
        (n, None, x) \<Rightarrow> Some (Ok (), set_out x s)
      | (n, Some e, x) \<Rightarrow> write_error P e (set_out x s))"

definition authHeader :: "net_conn \<Rightarrow> bytes option" where
  "authHeader c = (case c of httpConn _ (httpParent _ _ ah) \<Rightarrow> ah | _ \<Rightarrow> None)"

definition sendHTTPProxyRequestHeader ::
    "('cr, 'sr, 'sw, 'e) fwd_env \<Rightarrow> (('cr, 'sr, 'sw, 'e) fwd, unit) io" where
  "sendHTTPProxyRequestHeader P s =
     io_bind (sv_Write P (proxyRequestLine (f_rq s)))
       (\<lambda>_. io_bind (case authHeader (f_conn s) of None \<Rightarrow> io_ret () | Some ah \<Rightarrow> sv_Write P ah)
         (\<lambda>_. sv_Write P (rawHeaderBody (f_rq s)))) s"

definition sendRequestHeader ::
    "('cr, 'sr, 'sw, 'e) fwd_env \<Rightarrow> (('cr, 'sr, 'sw, 'e) fwd, unit) io" where
  "sendRequestHeader P s =
     (if \<not> tunneled (f_sv s) \<and> isMux (f_sv s) then sendHTTPProxyRequestHeader P s
      else sv_Write P (rawRequest (f_rq s)) s)"

definition sendRequestBody ::
    "('cr, 'sr, 'sw, 'e) fwd_env \<Rightarrow> (('cr, 'sr, 'sw, 'e) fwd, unit) io" where
  "sendRequestBody P s =
     (let r = f_rq s in
      if \<not> hasBody r \<or> isRetry r then Some (Ok (), s)
      else
        (case sendBody (p_cli P) (serverWriter_Write (p_out P)) (ContLen (header r)) (Chunking (header r))
                (f_cli s) (r, f_out s (f_conn s)) of
           None \<Rightarrow> None
         | Some (e, c, (r1, x)) \<Rightarrow>
             (let s1 = set_out x (s \<lparr>f_cli := c, f_rq := r1\<rparr>)
              in case e of
                   None \<Rightarrow> Some (Ok (), s1)
                 | Some er \<Rightarrow> (if isErrOpWrite er then write_error P er s1 else Some (Fail er, s1)))))"

section \<open>The response\<close>

definition defaultServerConnTimeout :: duration where
  "defaultServerConnTimeout = 15 * second"

definition read_error :: "('cr, 'sr, 'sw, 'e) fwd_env \<Rightarrow> err \<Rightarrow> (('cr, 'sr, 'sw, 'e) fwd, unit) io" where
  "read_error P e s =
     (case handleServerReadError (p_C P) (p_E P) (f_rq s) (f_sv s) e (f_w s) of
        Inl p \<Rightarrow> Some (Panic p, s)
      | Inr (e', w) \<Rightarrow> Some (Fail e', s \<lparr>f_w := w\<rparr>))"

definition client_Write :: "('cr, 'sr, 'sw, 'e) fwd_env \<Rightarrow> bytes \<Rightarrow> (('cr, 'sr, 'sw, 'e) fwd, unit) io" where
  "client_Write P b s =
     (case p_cw P b (w_env (f_w s)) of
        (n, None, e) \<Rightarrow> Some (Ok (), s \<lparr>f_w := (f_w s) \<lparr>w_env := e\<rparr>\<rparr>)
      | (n, Some x, e) \<Rightarrow> Some (Fail x, s \<lparr>f_w := (f_w s) \<lparr>w_env := e\<rparr>\<rparr>))"

text \<open>The body of a response, and what its errors become.\<close>

definition send_response_body ::
    "('cr, 'sr, 'sw, 'e) fwd_env \<Rightarrow> (('cr, 'sr, 'sw, 'e) fwd, unit) io" where
  "send_response_body P s =
     (let h = rp_header (f_rp s) in
      case sendBody (p_srv P) (p_cw P) (ContLen h) (Chunking h) (f_srv s (f_conn s)) (w_env (f_w s)) of
        None \<Rightarrow> None
      | Some (e, x, en) \<Rightarrow>
          (let s1 = set_srv x (s \<lparr>f_w := (f_w s) \<lparr>w_env := en\<rparr>\<rparr>)
           in case e of
                None \<Rightarrow> Some (Ok (), s1)
              | Some er \<Rightarrow>
                  (if er = EOF then
                     Some (Fail (ErrorString (''read response body unexpected EOF '' @
                       Itoa (Status (f_rp s)) @ '' '' @ Reason (f_rp s))), s1)
                   else if isErrOpRead er then read_error P er s1
                   else Some (Fail er, s1))))"

text \<open>The end of \<open>readResponse\<close>: how long the server keeps the connection.\<close>

definition response_done :: "('cr, 'sr, 'sw, 'e) fwd_env \<Rightarrow> (('cr, 'sr, 'sw, 'e) fwd, unit) io" where
  "response_done P s =
     (let h = rp_header (f_rp s);
          s1 = on_rq (setState rsDone) s;
          to = (if KeepAlive h = 0 then defaultServerConnTimeout else KeepAlive h)
      in Some (Ok (), if ConnectionKeepAlive h
                      then s1 \<lparr>f_sv := (f_sv s1) \<lparr>willCloseOn := w_now (p_E P) (f_w s1) + to\<rparr>\<rparr>
                      else s1))"

definition forward_response ::
    "('cr, 'sr, 'sw, 'e) fwd_env \<Rightarrow> (('cr, 'sr, 'sw, 'e) fwd, unit) io" where
  "forward_response P s =
     io_bind (client_Write P (rawResponse (f_rp s)))
       (\<lambda>_. if Status (f_rp s) = 101 \<and> isWebSocket (p_fold P) (f_rq s) then p_tunnel P
            else io_bind (if Response_hasBody (f_rp s) (Method (f_rq s)) then send_response_body P
                          else io_ret ())
                   (\<lambda>_. response_done P))
       s"

text \<open>
  The deferred \<open>rp.releaseBuf()\<close> runs last; the response's buffer is not read after the client has
  got it.
\<close>

definition readResponse ::
    "('cr, 'sr, 'sw, 'e) fwd_env \<Rightarrow> (('cr, 'sr, 'sw, 'e) fwd, unit) io" where
  "readResponse P s =
     map_option (\<lambda>(o1, s1). (o1, s1 \<lparr>f_rp := Response_releaseBuf (f_rp s1)\<rparr>))
       (case parseResponse (p_uni P) (c_HttpErrorCode (p_C P)) (p_srv P) (f_rq s) (f_rp s)
               (f_srv s (f_conn s)) of
          None \<Rightarrow> None
        | Some (Some e, rp, x) \<Rightarrow> read_error P e (set_srv x (s \<lparr>f_rp := rp\<rparr>))
        | Some (None, rp, x) \<Rightarrow>
            forward_response P
              (on_rq (\<lambda>r. Request_releaseBuf (setState rsRecvBody r))
                (set_srv x (s \<lparr>f_rp := rp, f_sv := (f_sv s) \<lparr>sv_state := svSendRecvResponse\<rparr>\<rparr>))))"

definition f_updateVisit :: "('cr, 'sr, 'sw, 'e) fwd_env \<Rightarrow> (('cr, 'sr, 'sw, 'e) fwd, unit) io" where
  "f_updateVisit P s =
     (case updateVisit (p_C P) (p_E P) (f_sv s) (f_w s) of (sv, w) \<Rightarrow> Some (Ok (), s \<lparr>f_sv := sv, f_w := w\<rparr>))"

text \<open>The first two steps of \<open>doRequest\<close>, which send the request, and the whole.\<close>

definition send_request :: "('cr, 'sr, 'sw, 'e) fwd_env \<Rightarrow> (('cr, 'sr, 'sw, 'e) fwd, unit) io" where
  "send_request P s =
     io_bind (sendRequestHeader P) (\<lambda>_. sendRequestBody P) (on_rq (setState rsCreated) s)"

definition doRequest :: "('cr, 'sr, 'sw, 'e) fwd_env \<Rightarrow> (('cr, 'sr, 'sw, 'e) fwd, unit) io" where
  "doRequest P =
     io_bind (send_request P)
       (\<lambda>_ s. io_bind (readResponse P) (\<lambda>_. f_updateVisit P) (on_rq (setState rsSent) s))"

section \<open>Attempts\<close>

definition SinkWriter :: "unit writer" where
  "SinkWriter b u = (int (length b), None, u)"

text \<open>What \<open>serve\<close> does next: try the request again, read the next request, or return.\<close>

datatype next_step = TryAgain | NextRequest | CloseClient

definition no_server ::
    "('cr, 'sr, 'sw, 'e) fwd_env \<Rightarrow> err option \<Rightarrow> (('cr, 'sr, 'sw, 'e) fwd, next_step) io" where
  "no_server P e s =
     (let r = f_rq s in
      if e = Some ErrPageSent \<and> \<not> isConnect r then
        (if hasBody r then
           (case sendBody (p_cli P) SinkWriter (ContLen (header r)) (Chunking (header r)) (f_cli s) () of
              None \<Rightarrow> None
            | Some (e1, c, u) \<Rightarrow> Some (Ok NextRequest, s \<lparr>f_cli := c\<rparr>))
         else Some (Ok NextRequest, s))
      else Some (Ok CloseClient, s))"

definition close_server :: "('cr, 'sr, 'sw, 'e) fwd_env \<Rightarrow> ('cr, 'sr, 'sw, 'e) fwd \<Rightarrow> ('cr, 'sr, 'sw, 'e) fwd" where
  "close_server P s = set_srv (p_release P (f_srv s (f_conn s))) s"

text \<open>After a complete response: the server connection goes to the pool or is closed.\<close>

definition request_done ::
    "('cr, 'sr, 'sw, 'e) fwd_env \<Rightarrow> (('cr, 'sr, 'sw, 'e) fwd, next_step) io" where
  "request_done P s =
     (let s1 = close_server P s;
          isCow = (case f_conn s of cowConn _ _ \<Rightarrow> True | _ \<Rightarrow> False);
          s2 = (if ConnectionKeepAlive (rp_header (f_rp s)) \<or> isCow
                then s1 \<lparr>f_w := (f_w s1) \<lparr>w_pool := Pool_Put (f_sv s1) (w_pool (f_w s1))\<rparr>\<rparr>
                else s1)
      in Some (Ok (if ConnectionKeepAlive (header (f_rq s)) then NextRequest else CloseClient), s2))"

text \<open>What follows an error of \<open>doRequest\<close> or \<open>doConnect\<close>.\<close>

definition request_failed ::
    "('cr, 'sr, 'sw, 'e) fwd_env \<Rightarrow> err \<Rightarrow> (('cr, 'sr, 'sw, 'e) fwd, next_step) io" where
  "request_failed P er s =
     (case shouldRetry (p_C P) (p_E P) (f_rq s) (f_sv s) (Some er) (f_w s) of
        Inl p \<Rightarrow> Some (Panic p, s)
      | Inr (again, r, w) \<Rightarrow>
          Some (Ok (if again then TryAgain
                    else if \<not> isConnect r \<and> er = ErrPageSent \<and> (\<not> hasBody r \<or> hasSent r) then NextRequest
                    else CloseClient),
                s \<lparr>f_rq := r, f_w := w\<rparr>))"

text \<open>One attempt, and the loop of attempts from the label \<open>retry\<close> on.\<close>

definition try_request :: "('cr, 'sr, 'sw, 'e) fwd_env \<Rightarrow> (('cr, 'sr, 'sw, 'e) fwd, next_step) io" where
  "try_request P s =
     (let s0 = on_rq tryOnce s; conn = isConnect (f_rq s0) in
      case getServerConn (p_C P) (p_E P) (f_rq s0) (f_w s0) of
        Inl p \<Rightarrow> Some (Panic p, s0)
      | Inr ((None, e), w) \<Rightarrow> no_server P e (s0 \<lparr>f_w := w\<rparr>)
      | Inr ((Some sv, e), w) \<Rightarrow>
          (case (if conn then p_connect P else doRequest P) (s0 \<lparr>f_w := w, f_sv := sv\<rparr>) of
             None \<Rightarrow> None
           | Some (Panic p, s1) \<Rightarrow> Some (Panic p, s1)
           | Some (Ok _, s1) \<Rightarrow> (if conn then Some (Ok CloseClient, s1) else request_done P s1)
           | Some (Fail er, s1) \<Rightarrow> request_failed P er (if conn then s1 else close_server P s1)))"

partial_function (option) serve_retry ::
    "('cr, 'sr, 'sw, 'e) fwd_env \<Rightarrow> ('cr, 'sr, 'sw, 'e) fwd \<Rightarrow>
     (next_step outcome \<times> ('cr, 'sr, 'sw, 'e) fwd) option" where
  "serve_retry P s =
     Option.bind (try_request P s)
       (\<lambda>(res, s1). if res = Ok TryAgain then serve_retry P s1 else Some (res, s1))"

section \<open>What sending a body does to its writer\<close>

locale writer_rule =
  fixes W :: "'w writer" and I :: "'w \<Rightarrow> bool" and F :: "'w \<Rightarrow> bool"
  assumes write_ok: "I w \<Longrightarrow> W b w = (n, None, w') \<Longrightarrow> I w'"
    and write_fail: "I w \<Longrightarrow> W b w = (n, Some e, w') \<Longrightarrow> F w'"
begin

definition after :: "err option \<Rightarrow> 'w \<Rightarrow> bool" where
  "after e w \<longleftrightarrow> (if e = None then I w else I w \<or> F w)"

lemma after_None: "I w \<Longrightarrow> after None w"
  by (simp add: after_def)

lemma after_write: "I w \<Longrightarrow> W b w = (n, e, w') \<Longrightarrow> after e w'"
  by (cases e) (auto simp: after_def dest: write_ok write_fail)

lemma copyN_after:
  assumes "copyN R W n rdSize r w = Some (e, r', w')" "I w"
  shows "after e w'"
proof -
  have "W = W \<and> I w \<longrightarrow> (case (e, r', w') of (e, r', w') \<Rightarrow> after e w')"
  proof (rule copyN.raw_induct [OF _ assms(1), where
        P = "\<lambda>R' W1 n rdSize r w y. W1 = W \<and> I w \<longrightarrow> (case y of (e, r', w') \<Rightarrow> after e w')"], goal_cases)
    case (1 f R' W1 n rdSize r w y)
    show ?case
    proof (intro impI, elim conjE)
      assume a: "W1 = W" "I w"
      obtain b er r1 where rd: "ReadN R' (if rdSize < n then rdSize else n) r = (b, er, r1)" by (metis prod_cases3)
      obtain nw ew w1 where wr: "(if b = [] then (0, None, w) else W b w) = (nw, ew, w1)" by (metis prod_cases3)
      have w1: "after ew w1" using after_write a(2) wr by (auto simp: after_def split: if_splits)
      show "case y of (e, r', w') \<Rightarrow> after e w'"
        using 1(2) 1(1) [of R' W "go_int (n - int (length b))" rdSize r1 w1 y] a rd wr w1
        by (auto simp: after_def split: if_splits)
    qed
  qed
  with assms(2) show ?thesis by simp
qed

lemma sendBodyChunked_after:
  assumes "sendBodyChunked R W rdSize r w = Some (e, r', w')" "I w"
  shows "after e w'"
proof -
  have "W = W \<and> I w \<longrightarrow> (case (e, r', w') of (e, r', w') \<Rightarrow> after e w')"
  proof (rule sendBodyChunked.raw_induct [OF _ assms(1), where
        P = "\<lambda>R' W1 rdSize r w y. W1 = W \<and> I w \<longrightarrow> (case y of (e, r', w') \<Rightarrow> after e w')"], goal_cases)
    case (1 f R' W1 rdSize r w y)
    show ?case
    proof (intro impI, elim conjE)
      assume a: "W1 = W" "I w"
      obtain s e r1 where pk: "PeekSlice R' LF r = (s, e, r1)" by (metis prod_cases3)
      consider (stop) e1 r1 where "y = (e1, r1, w)" "e1 \<noteq> None"
        | (last) nw ew w1 r2 where "W chunkEnd w = (nw, ew, w1)" "y = (ew, r2, w1)"
        | (chunk) n e3 r3 w3 where "copyN R' W n rdSize r1 w = Some (e3, r3, w3)"
            "if e3 \<noteq> None then y = (e3, r3, w3) else f R' W rdSize r3 w3 = Some y"
        using 1(2) a pk
        by (auto simp: bind_eq_Some_conv split: if_splits sum.splits option.splits prod.splits)
      then show "case y of (e, r', w') \<Rightarrow> after e w'"
      proof cases
        case stop
        then show ?thesis using a by (simp add: after_def)
      next
        case last
        then show ?thesis using after_write a by simp
      next
        case chunk
        then show ?thesis using copyN_after [OF chunk(1) a(2)] 1(1) [of R' W rdSize r3 w3 y]
          by (auto simp: after_def split: if_splits)
      qed
    qed
  qed
  with assms(2) show ?thesis by simp
qed

lemma sendBodySplitIntoChunk_after:
  assumes "sendBodySplitIntoChunk R W r w = Some (e, r', w')" "I w"
  shows "after e w'"
proof -
  have "W = W \<and> I w \<longrightarrow> (case (e, r', w') of (e, r', w') \<Rightarrow> after e w')"
  proof (rule sendBodySplitIntoChunk.raw_induct [OF _ assms(1), where
        P = "\<lambda>R' W1 r w y. W1 = W \<and> I w \<longrightarrow> (case y of (e, r', w') \<Rightarrow> after e w')"], goal_cases)
    case (1 f R' W1 r w y)
    show ?case
    proof (intro impI, elim conjE)
      assume a: "W1 = W" "I w"
      obtain b e r1 where rd: "ReadNext R' r = (b, e, r1)" by (metis prod_cases3)
      obtain n0 e0 w0 where w0: "W chunkEnd w = (n0, e0, w0)" by (metis prod_cases3)
      obtain n1 e1 w1 where w1: "W (nat_digits 16 (length b) @ CRLF) w = (n1, e1, w1)" by (metis prod_cases3)
      obtain n2 e2 w2 where w2: "W b w1 = (n2, e2, w2)" by (metis prod_cases3)
      obtain n3 e3 w3 where w3: "W CRLF w2 = (n3, e3, w3)" by (metis prod_cases3)
      note st = after_write [OF a(2) w0] after_write [OF a(2) w1] after_write [OF _ w2] after_write [OF _ w3]
      show "case y of (e, r', w') \<Rightarrow> after e w'"
        using 1(2) 1(1) [of R' W r1 w3 y] a rd w0 w1 w2 w3 st
        by (auto simp: after_def split: if_splits)
    qed
  qed
  with assms(2) show ?thesis by simp
qed

lemma sendBody_after:
  "sendBody R W contLen ch r w = Some (e, r', w') \<Longrightarrow> I w \<Longrightarrow> after e w'"
  using sendBodyChunked_after [of R _ r w e r' w'] sendBodySplitIntoChunk_after [of R r w e r' w']
    copyN_after [of R _ _ r w e r' w']
  by (auto simp: sendBody_def sendBodyWithContLen_def after_None split: if_splits)

end

section \<open>The buffer of a request\<close>

lemma save_raw_simps [simp]:
  "header (save_raw p r) = header r" "state (save_raw p r) = state r" "reqLnStart (save_raw p r) = reqLnStart r"
  "headStart (save_raw p r) = headStart r" "tryCnt (save_raw p r) = tryCnt r" "URL (save_raw p r) = URL r"
  by (auto simp: save_raw_def raw_write_def Request_releaseBuf_def split: option.split)

definition kept :: "bytes \<Rightarrow> Request \<Rightarrow> bool" where
  "kept b r \<longleftrightarrow> (case raw r of None \<Rightarrow> partial r | Some c \<Rightarrow> c = b \<and> \<not> partial r)"

lemma save_raw_kept: "kept b r \<Longrightarrow> responseNotSent r \<Longrightarrow> kept (b @ p) (save_raw p r)"
  by (auto simp: kept_def save_raw_def raw_write_def Request_releaseBuf_def split: option.splits)

definition same_request :: "Request \<Rightarrow> Request \<Rightarrow> bool" where
  "same_request r r' \<longleftrightarrow> r' = r \<lparr>raw := raw r', partial := partial r'\<rparr>"

lemma same_request_save [simp]: "same_request r r' \<Longrightarrow> same_request r (save_raw p r')"
  by (cases r; cases r') (simp add: same_request_def save_raw_def raw_write_def Request_releaseBuf_def split: option.split)

lemma same_request_trans: "same_request r q \<Longrightarrow> same_request q p \<Longrightarrow> same_request r p"
  by (cases r; cases q; cases p) (simp add: same_request_def)

lemma same_request_refl [simp]: "same_request r r"
  by (simp add: same_request_def)

lemma same_request_fields:
  "same_request r r' \<Longrightarrow> header r' = header r \<and> state r' = state r \<and> reqLnStart r' = reqLnStart r \<and>
     headStart r' = headStart r \<and> tryCnt r' = tryCnt r \<and> URL r' = URL r"
  by (cases r; cases r') (simp add: same_request_def)

text \<open>The server's writer is lawful when the connection is, and reliable when the connection is.\<close>

lemma serverWriter_io_writer:
  assumes "io_writer W written"
  shows "io_writer (serverWriter_Write W) (\<lambda>(r, w). written w)"
  using io_writer.Write_ok [OF assms] io_writer.Write_prefix [OF assms]
  by unfold_locales (fastforce simp: serverWriter_Write_def split: prod.splits)+

lemma serverWriter_reliable:
  assumes "reliable_writer W written"
  shows "reliable_writer (serverWriter_Write W) (\<lambda>(r, w). written w)"
  using serverWriter_io_writer [of W written] assms
  by (auto simp: reliable_writer_def reliable_writer_axioms_def serverWriter_Write_def split: prod.splits)

text \<open>On a connection that does not fail, the buffer holds what was written, or is given up.\<close>

lemma serverWriter_keeps:
  fixes W :: "'a writer"
  assumes "io_writer W written" "responseNotSent q"
  shows "writer_rule (serverWriter_Write W)
     (\<lambda>(r, w). same_request q r \<and> (\<exists>x. written w = w0 @ x \<and> kept (b @ x) r)) (\<lambda>(r, w). same_request q r)"
proof unfold_locales
  fix p n e and v v' :: "Request \<times> 'a"
  obtain r w r' w' where v: "v = (r, w)" "v' = (r', w')" by fastforce
  assume I: "case v of (r, w) \<Rightarrow> same_request q r \<and> (\<exists>x. written w = w0 @ x \<and> kept (b @ x) r)"
  have ns: "responseNotSent r" using I v assms(2) by (auto dest!: same_request_fields simp: responseNotSent_def)
  show "case v' of (r, w) \<Rightarrow> same_request q r \<and> (\<exists>x. written w = w0 @ x \<and> kept (b @ x) r)"
    if "serverWriter_Write W p v = (n, None, v')"
  proof -
    have "W p w = (n, None, w')" "r' = save_raw p r"
      using that v by (auto simp: serverWriter_Write_def split: prod.splits)
    then have "written w' = written w @ p" using io_writer.Write_ok [OF assms(1)] by blast
    moreover obtain x where x: "written w = w0 @ x" "kept (b @ x) r" using I v by auto
    moreover have "kept (b @ x @ p) r'"
      using save_raw_kept [OF x(2) ns, of p] \<open>r' = _\<close> by simp
    ultimately show ?thesis using I v \<open>r' = _\<close> by auto
  qed
  show "case v' of (r, w) \<Rightarrow> same_request q r" if "serverWriter_Write W p v = (n, Some e, v')"
    using that I v by (auto simp: serverWriter_Write_def split: prod.splits)
qed

section \<open>What a server is sent\<close>

text \<open>The request line and the headers of a request, in the form a server connection is sent them.\<close>

definition request_bytes :: "serverConn \<Rightarrow> Request \<Rightarrow> bytes" where
  "request_bytes sv r =
     (if \<not> tunneled sv \<and> isMux sv then
        proxyRequestLine r @ (case authHeader (sv_Conn sv) of None \<Rightarrow> [] | Some ah \<Rightarrow> ah) @ rawHeaderBody r
      else rawRequest r)"

lemma request_bytes_append:
  assumes "raw r = Some b" "reqLnStart r \<le> length b" "headStart r \<le> length b"
    "raw r' = Some (b @ body)" "reqLnStart r' = reqLnStart r" "headStart r' = headStart r"
  shows "request_bytes sv r' = request_bytes sv r @ body"
  using assms by (simp add: request_bytes_def proxyRequestLine_def rawHeaderBody_def rawRequest_def raw_bytes_def)

lemma f_conn_simps [simp]:
  "f_conn (set_out x s) = f_conn s" "f_conn (set_srv y s) = f_conn s" "f_conn (on_rq f s) = f_conn s"
  "f_conn (s \<lparr>f_cli := c\<rparr>) = f_conn s" "f_conn (s \<lparr>f_rq := r\<rparr>) = f_conn s" "f_conn (s \<lparr>f_w := w\<rparr>) = f_conn s"
  "f_conn (s \<lparr>f_rp := rp\<rparr>) = f_conn s"
  by (simp_all add: f_conn_def set_out_def set_srv_def on_rq_def)

lemma set_out_simps [simp]:
  "f_out (set_out x s) (f_conn s) = x" "f_rq (set_out x s) = f_rq s" "f_cli (set_out x s) = f_cli s"
  "f_sv (set_out x s) = f_sv s" "f_w (set_out x s) = f_w s" "set_out x (set_out y s) = set_out x s"
  by (simp_all add: set_out_def f_conn_def)

lemma on_rq_simps [simp]:
  "f_rq (on_rq f s) = f (f_rq s)" "f_cli (on_rq f s) = f_cli s" "f_sv (on_rq f s) = f_sv s"
  "f_out (on_rq f s) = f_out s" "f_w (on_rq f s) = f_w s" "f_srv (on_rq f s) = f_srv s" "f_rp (on_rq f s) = f_rp s"
  by (simp_all add: on_rq_def)

lemma write_error_not_Ok: "write_error P e s \<noteq> Some (Ok u, s1)"
  by (auto simp: write_error_def split: sum.splits prod.splits)

lemma sv_Write_ok:
  assumes "io_writer (p_out P) written" "sv_Write P b s = Some (Ok u, s1)"
  shows "\<exists>x. s1 = set_out x s \<and> written x = written (f_out s (f_conn s)) @ b"
  using assms(2) io_writer.Write_ok [OF assms(1)]
  by (fastforce simp: sv_Write_def write_error_not_Ok split: prod.splits option.splits)

lemma sv_Write_reliable:
  assumes "reliable_writer (p_out P) written"
  shows "\<exists>x. sv_Write P b s = Some (Ok (), set_out x s) \<and> written x = written (f_out s (f_conn s)) @ b"
proof -
  obtain w' where "p_out P b (f_out s (f_conn s)) = (int (length b), None, w')"
    "written w' = written (f_out s (f_conn s)) @ b" by (rule reliable_writer.Write_all [OF assms])
  then show ?thesis by (auto simp: sv_Write_def)
qed

text \<open>Without an error the whole head of the request is at the server, and nothing else has changed.\<close>

lemma io_bind_eq_Ok: "io_bind m f s = Some (Ok b, s2) \<longleftrightarrow> (\<exists>a s1. m s = Some (Ok a, s1) \<and> f a s1 = Some (Ok b, s2))"
  by (auto simp: io_bind_def split: option.splits outcome.splits)

lemma sendRequestHeader_ok:
  assumes "io_writer (p_out P) written" "sendRequestHeader P s = Some (Ok u, s1)"
  shows "\<exists>x. s1 = set_out x s \<and> written x = written (f_out s (f_conn s)) @ request_bytes (f_sv s) (f_rq s)"
proof (cases "\<not> tunneled (f_sv s) \<and> isMux (f_sv s)")
  case False
  then show ?thesis using sv_Write_ok [OF assms(1)] assms(2)
    by (auto simp: sendRequestHeader_def request_bytes_def split: if_splits)
next
  case True
  let ?auth = "case authHeader (f_conn s) of None \<Rightarrow> io_ret () | Some ah \<Rightarrow> sv_Write P ah"
  let ?ab = "case authHeader (f_conn s) of None \<Rightarrow> [] | Some ah \<Rightarrow> ah"
  have auth: "\<exists>x. t1 = set_out x t \<and> written x = written (f_out t (f_conn t)) @ ?ab"
    if "?auth t = Some (Ok u, t1)" for t t1 u
    using that sv_Write_ok [OF assms(1)]
    by (cases "authHeader (f_conn s)") (auto simp: io_ret_def set_out_def intro: exI [of _ "f_out t (f_conn t)"])
  obtain t1 t2 u1 u2 where t: "sv_Write P (proxyRequestLine (f_rq s)) s = Some (Ok u1, t1)" "?auth t1 = Some (Ok u2, t2)"
      "sv_Write P (rawHeaderBody (f_rq s)) t2 = Some (Ok u, s1)"
    using True assms(2) by (auto simp: sendRequestHeader_def sendHTTPProxyRequestHeader_def io_bind_eq_Ok)
  obtain x1 where x1: "t1 = set_out x1 s" "written x1 = written (f_out s (f_conn s)) @ proxyRequestLine (f_rq s)"
    using sv_Write_ok [OF assms(1) t(1)] by blast
  obtain x2 where x2: "t2 = set_out x2 s" "written x2 = written x1 @ ?ab"
    using auth [OF t(2)] x1(1) by auto
  obtain x3 where "s1 = set_out x3 s" "written x3 = written x2 @ rawHeaderBody (f_rq s)"
    using sv_Write_ok [OF assms(1) t(3)] x2(1) by auto
  then show ?thesis using True x1 x2 by (intro exI [of _ x3]) (simp add: request_bytes_def f_conn_def)
qed

lemma sendRequestHeader_returns:
  assumes "reliable_writer (p_out P) written"
  shows "\<exists>s1. sendRequestHeader P s = Some (Ok (), s1)"
proof (cases "\<not> tunneled (f_sv s) \<and> isMux (f_sv s)")
  case False
  then show ?thesis using sv_Write_reliable [OF assms] by (auto simp: sendRequestHeader_def)
next
  case True
  obtain x1 where x1: "sv_Write P (proxyRequestLine (f_rq s)) s = Some (Ok (), set_out x1 s)"
    using sv_Write_reliable [OF assms] by blast
  obtain s2 where x2: "(case authHeader (f_conn s) of None \<Rightarrow> io_ret () | Some ah \<Rightarrow> sv_Write P ah) (set_out x1 s) = Some (Ok (), s2)"
    using sv_Write_reliable [OF assms, of _ "set_out x1 s"] by (cases "authHeader (f_conn s)") (auto simp: io_ret_def)
  obtain s3 where x3: "sv_Write P (rawHeaderBody (f_rq s)) s2 = Some (Ok (), s3)"
    using sv_Write_reliable [OF assms, of _ s2] by blast
  show ?thesis using True x1 x2 x3
    by (intro exI [of _ s3]) (simp add: sendRequestHeader_def sendHTTPProxyRequestHeader_def io_bind_eq_Ok)
qed

text \<open>The body a client sends with a request, as the request's headers frame it: \<open>body\<close> is what of
  the client's stream goes to the server, \<open>rest\<close> what follows it.\<close>

definition client_body :: "nat \<Rightarrow> Request \<Rightarrow> bytes \<Rightarrow> bytes \<Rightarrow> bytes \<Rightarrow> bool" where
  "client_body B r stream body rest \<longleftrightarrow>
     (if Chunking (header r) then
        (\<exists>cs l. (\<forall>c \<in> set cs. wf_chunk B c) \<and> last_chunk B l \<and>
           stream = chunked_body cs @ l @ [LF] @ CRLF @ rest \<and> body = chunked_body cs @ chunkEnd)
      else if 0 < ContLen (header r) then
        ContLen (header r) = int (length body) \<and> ContLen (header r) < 2 ^ 63 \<and> stream = body @ rest
      else body = [] \<and> stream = rest)"

lemma client_body_tryCnt [simp]: "client_body B (r \<lparr>tryCnt := n\<rparr>) = client_body B r"
  by (simp add: client_body_def fun_eq_iff)

lemma client_body_setState [simp]: "client_body B (setState st r) = client_body B r"
  by (simp add: client_body_def setState_def fun_eq_iff)

lemma sendBody_client_body:
  assumes "bufio_reader R B str fin" "reliable_writer W written" "httpBufSize \<le> B"
    "client_body B r (str c) body rest" "hasBody r"
  shows "\<exists>c' w'. sendBody R W (ContLen (header r)) (Chunking (header r)) c w = Some (None, c', w') \<and>
    str c' = rest \<and> written w' = written w @ body"
proof -
  have io: "reliable_body_io R B str fin W written" using assms(1,2) by (rule reliable_body_io.intro)
  have sz: "0 < int httpBufSize" "int httpBufSize \<le> int B" using assms(3) by (simp_all add: httpBufSize_def)
  show ?thesis
  proof (cases "Chunking (header r)")
    case True
    then obtain cs l where cs: "\<forall>c \<in> set cs. wf_chunk B c" "last_chunk B l"
        "str c = chunked_body cs @ l @ [LF] @ CRLF @ rest" "body = chunked_body cs @ chunkEnd"
      using assms(4) by (auto simp: client_body_def)
    from reliable_body_io.sendBodyChunked_copies [OF io sz cs(1-3), of w] cs(4) True
    show ?thesis by (simp add: sendBody_def)
  next
    case False
    then have l: "0 < ContLen (header r)" using assms(5) by (simp add: hasBody_def)
    then have b: "ContLen (header r) = int (length body)" "ContLen (header r) < 2 ^ 63" "str c = body @ rest"
      using assms(4) False by (auto simp: client_body_def)
    obtain c' w' where "copyN R W (ContLen (header r)) (int httpBufSize) c w = Some (None, c', w')"
      "str c' = rest" "written w' = written w @ body"
      by (rule reliable_body_io.copyN_exact [OF io sz b(2,3,1)])
    then show ?thesis using False l by (simp add: sendBody_def sendBodyWithContLen_def)
  qed
qed

lemma sendRequestBody_sends:
  assumes "bufio_reader (p_cli P) B str fin" "reliable_writer (p_out P) written" "httpBufSize \<le> B"
    "client_body B (f_rq s) (str (f_cli s)) body rest" "raw (f_rq s) = Some b" "responseNotSent (f_rq s)"
    "\<not> isRetry (f_rq s)" "\<not> partial (f_rq s)"
  shows "\<exists>s1. sendRequestBody P s = Some (Ok (), s1) \<and> str (f_cli s1) = rest \<and>
    written (f_out s1 (f_conn s)) = written (f_out s (f_conn s)) @ body \<and>
    same_request (f_rq s) (f_rq s1) \<and> kept (b @ body) (f_rq s1)"
proof (cases "hasBody (f_rq s)")
  case False
  then show ?thesis using assms(4,5,8)
    by (auto simp: sendRequestBody_def client_body_def hasBody_def kept_def)
next
  case True
  let ?W = "serverWriter_Write (p_out P)"
  have w: "io_writer (p_out P) written" using assms(2) by (rule reliable_writer.axioms)
  obtain c' r1 x where sb: "sendBody (p_cli P) ?W (ContLen (header (f_rq s))) (Chunking (header (f_rq s)))
      (f_cli s) (f_rq s, f_out s (f_conn s)) = Some (None, c', (r1, x))"
    and st: "str c' = rest" "written x = written (f_out s (f_conn s)) @ body"
    using sendBody_client_body [OF assms(1) serverWriter_reliable [OF assms(2)] assms(3,4) True,
        of "(f_rq s, f_out s (f_conn s))"] by auto
  have "kept (b @ []) (f_rq s)" using assms(5,8) by (simp add: kept_def)
  then have "same_request (f_rq s) r1 \<and> (\<exists>y. written x = written (f_out s (f_conn s)) @ y \<and> kept (b @ y) r1)"
    using writer_rule.sendBody_after [OF serverWriter_keeps [OF w assms(6), of "written (f_out s (f_conn s))" b] sb]
      writer_rule.after_def [OF serverWriter_keeps [OF w assms(6), of "written (f_out s (f_conn s))" b]] by auto
  then have k: "same_request (f_rq s) r1" "kept (b @ body) r1" using st(2) by auto
  show ?thesis using True assms(7) sb st k by (simp add: sendRequestBody_def Let_def f_conn_def set_out_def)
qed

lemma same_request_hasBody: "same_request r r' \<Longrightarrow> hasBody r' = hasBody r"
  by (drule same_request_fields) (simp add: hasBody_def)

text \<open>A retry sends what is in the buffer, and reads nothing from the client.\<close>

lemma send_request_retry:
  assumes "reliable_writer (p_out P) written" "isRetry (f_rq s)"
  shows "\<exists>s1. send_request P s = Some (Ok (), s1) \<and> f_cli s1 = f_cli s \<and>
    written (f_out s1 (f_conn s)) = written (f_out s (f_conn s)) @ request_bytes (f_sv s) (f_rq s)"
proof -
  let ?s = "on_rq (setState rsCreated) s"
  obtain s1 where s1: "sendRequestHeader P ?s = Some (Ok (), s1)" using sendRequestHeader_returns [OF assms(1)] by blast
  obtain x where x: "s1 = set_out x ?s" "written x = written (f_out s (f_conn s)) @ request_bytes (f_sv s) (f_rq ?s)"
    using sendRequestHeader_ok [OF reliable_writer.axioms(1) [OF assms(1)] s1] by auto
  have "request_bytes (f_sv s) (f_rq ?s) = request_bytes (f_sv s) (f_rq s)"
    by (simp add: setState_def request_bytes_def proxyRequestLine_def rawHeaderBody_def rawRequest_def raw_bytes_def)
  moreover have "sendRequestBody P s1 = Some (Ok (), s1)"
    using assms(2) x(1) by (simp add: sendRequestBody_def isRetry_def setState_def)
  moreover have "f_out (set_out x ?s) (f_conn s) = x" using set_out_simps(1) [of x ?s] by simp
  ultimately show ?thesis using s1 x by (simp add: send_request_def)
qed

text \<open>The first attempt: the head, then the body from the client, both kept in the buffer.\<close>

lemma request_bytes_setState [simp]: "request_bytes sv (setState st r) = request_bytes sv r"
  by (simp add: setState_def request_bytes_def proxyRequestLine_def rawHeaderBody_def rawRequest_def raw_bytes_def)

lemma send_request_first:
  assumes "bufio_reader (p_cli P) B str fin" "httpBufSize \<le> B" "reliable_writer (p_out P) written"
    "client_body B (f_rq s) (str (f_cli s)) body rest" "raw (f_rq s) = Some b" "\<not> isRetry (f_rq s)" "\<not> partial (f_rq s)"
  shows "\<exists>s1. send_request P s = Some (Ok (), s1) \<and> str (f_cli s1) = rest \<and>
    written (f_out s1 (f_conn s)) = written (f_out s (f_conn s)) @ request_bytes (f_sv s) (f_rq s) @ body \<and>
    same_request (setState rsCreated (f_rq s)) (f_rq s1) \<and> kept (b @ body) (f_rq s1)"
proof -
  let ?s = "on_rq (setState rsCreated) s"
  obtain s0 where s0: "sendRequestHeader P ?s = Some (Ok (), s0)" using sendRequestHeader_returns [OF assms(3)] by blast
  obtain x where x: "s0 = set_out x ?s" "written x = written (f_out s (f_conn s)) @ request_bytes (f_sv s) (f_rq s)"
    using sendRequestHeader_ok [OF reliable_writer.axioms(1) [OF assms(3)] s0] by auto
  have o: "f_out s0 (f_conn s) = x" "f_conn s0 = f_conn s" using x(1) set_out_simps(1) [of x ?s] by simp_all
  have pre: "client_body B (f_rq s0) (str (f_cli s0)) body rest" "raw (f_rq s0) = Some b"
      "responseNotSent (f_rq s0)" "\<not> isRetry (f_rq s0)" "\<not> partial (f_rq s0)"
    using assms(4-7) x(1) by simp_all (simp_all add: setState_def responseNotSent_def isRetry_def less_eq_rqState_def)
  obtain s1 where "sendRequestBody P s0 = Some (Ok (), s1)" "str (f_cli s1) = rest"
      "written (f_out s1 (f_conn s)) = written x @ body" "same_request (f_rq s0) (f_rq s1)" "kept (b @ body) (f_rq s1)"
    using sendRequestBody_sends [OF assms(1,3,2) pre] o by auto
  then show ?thesis using s0 x by (simp add: send_request_def)
qed


text \<open>When the attempts are used up on a connection that may be faked, \<open>shouldRetry\<close> sets the count
  of attempts back to zero, and the next attempt counts as a first one although the body is in the
  buffer already: it sends the head, the buffered body, and then as many further bytes of the
  client's stream (the beginning of the client's next request) as the body is long.\<close>

theorem reset_retry_reads_body_again:
  fixes P :: "('cr, 'sr, 'sw, 'e) fwd_env"
  assumes "bufio_reader (p_cli P) B str fin" "httpBufSize \<le> B" "reliable_writer (p_out P) written"
    "shouldRetry (p_C P) (p_E P) r sv (Some er) w = Inr (True, r', w')" "3 < tryCnt r"
    "raw r = Some (b @ body)" "reqLnStart r \<le> length b" "headStart r \<le> length b"
    "f_rq s = tryOnce r'" "client_body B r (str (f_cli s)) body2 rest"
  shows "\<exists>s1. send_request P s = Some (Ok (), s1) \<and> str (f_cli s1) = rest \<and>
    written (f_out s1 (f_conn s)) =
      written (f_out s (f_conn s)) @ request_bytes (f_sv s) (r \<lparr>raw := Some b\<rparr>) @ body @ body2"
proof -
  have r: "f_rq s = r \<lparr>tryCnt := 1\<rparr>" "\<not> partial r"
    using assms(4-6,9) by (auto simp: shouldRetry_def tooManyRetry_def tryOnce_def split: if_splits sum.splits)
  have "client_body B (f_rq s) (str (f_cli s)) body2 rest" "raw (f_rq s) = Some (b @ body)" "\<not> isRetry (f_rq s)"
      "\<not> partial (f_rq s)"
    using r assms(6,10) by (simp_all add: isRetry_def)
  then obtain s1 where "send_request P s = Some (Ok (), s1)" "str (f_cli s1) = rest"
      "written (f_out s1 (f_conn s)) = written (f_out s (f_conn s)) @ request_bytes (f_sv s) (f_rq s) @ body2"
    using send_request_first [OF assms(1-3)] by blast
  moreover have "request_bytes (f_sv s) (f_rq s) = request_bytes (f_sv s) (r \<lparr>raw := Some b\<rparr>) @ body"
    using assms(6-8) r(1) by (intro request_bytes_append [of _ b]) simp_all
  ultimately show ?thesis by simp
qed

text \<open>One round of \<open>copyN\<close> into a server's writer: it saves the bytes it has read, also when writing fails.\<close>

lemma copyN_round_kept:
  assumes "bufio_reader R B str fin" "0 < rd" "rd \<le> int B" "0 < n" "n < 2 ^ 63" "kept b q" "responseNotSent q"
  obtains (stop) c e1 r1 q1 x1 where "copyN R (serverWriter_Write W) n rd r (q, x) = Some (e1, r1, (q1, x1))"
      "str r = c @ str r1" "int (length c) \<le> n" "same_request q q1" "kept (b @ c) q1"
  | (more) c r1 q1 x1 where "copyN R (serverWriter_Write W) n rd r (q, x) =
        copyN R (serverWriter_Write W) (n - int (length c)) rd r1 (q1, x1)"
      "str r = c @ str r1" "c \<noteq> []" "int (length c) \<le> n" "same_request q q1" "kept (b @ c) q1"
proof -
  define m where "m = (if rd < n then rd else n)"
  have m: "0 < m" "m \<le> int B" "m \<le> n" using assms(2-4) by (auto simp: m_def)
  obtain c er r1 where rd: "ReadN R m r = (c, er, r1)" by (metis prod_cases3)
  have sp: "str r = c @ str r1" "int (length c) \<le> n" "er = None \<Longrightarrow> c \<noteq> []"
    using bufio_reader.ReadN_split [OF assms(1) m(1,2) rd] bufio_reader.ReadN_progress [OF assms(1) m(1,2)] rd m(3)
    by auto
  define q1 where "q1 = (if c = [] then q else save_raw c q)"
  have q1: "same_request q q1" "kept (b @ c) q1" using save_raw_kept [of b q c] assms(6,7) by (auto simp: q1_def)
  obtain a1 a2 a3 where a: "W c x = (a1, a2, a3)" by (metis prod_cases3)
  define nw ew x1 where "nw = (if c = [] then 0 else a1)" and "ew = (if c = [] then None else a2)"
    and "x1 = (if c = [] then x else a3)"
  have wr: "(if c = [] then (0, None, (q, x)) else serverWriter_Write W c (q, x)) = (nw, ew, (q1, x1))"
    using a by (simp add: nw_def ew_def x1_def q1_def serverWriter_Write_def)
  have gi: "go_int (n - int (length c)) = n - int (length c)" using sp(2) assms(5) by (intro go_int_id) auto
  have unf: "copyN R (serverWriter_Write W) n rd r (q, x) =
     (if ew \<noteq> None then Some (ew, r1, (q1, x1))
      else if c \<noteq> [] \<and> nw \<noteq> int (length c) then Some (Some ShortWrite, r1, (q1, x1))
      else if er = Some EOF then Some (None, r1, (q1, x1))
      else if er \<noteq> None then Some (er, r1, (q1, x1))
      else copyN R (serverWriter_Write W) (go_int (n - int (length c))) rd r1 (q1, x1))"
    using copyN.simps [of R "serverWriter_Write W" n rd r "(q, x)"] assms(4) rd wr
    by (simp flip: m_def split del: if_split)
  show thesis
  proof (cases "ew = None \<and> \<not> (c \<noteq> [] \<and> nw \<noteq> int (length c)) \<and> er = None")
    case True
    then show thesis using more [OF _ sp(1) _ sp(2) q1] unf sp(3) gi by auto
  next
    case False
    then show thesis using stop [OF _ sp(1,2) q1] unf by (auto split: if_splits)
  qed
qed

lemma copyN_kept:
  assumes "bufio_reader R B str fin" "0 < rd" "rd \<le> int B"
  shows "copyN R (serverWriter_Write W) n rd r (q, x) = Some (e, r', (q', x')) \<Longrightarrow> n < 2 ^ 63 \<Longrightarrow>
    kept b q \<Longrightarrow> responseNotSent q \<Longrightarrow>
    \<exists>k \<le> nat n. same_request q q' \<and> kept (b @ take k (str r)) q' \<and> str r' = drop k (str r)"
proof (induction "nat n" arbitrary: n r q x b rule: less_induct)
  case less
  show ?case
  proof (cases "0 < n")
    case False
    then show ?thesis using less.prems copyN.simps [of R "serverWriter_Write W" n rd r "(q, x)"]
      by (intro exI [of _ 0]) auto
  next
    case True
    show ?thesis
    proof (cases rule: copyN_round_kept [OF assms True less.prems(2-4), where W = W and r = r and x = x])
      case (1 c e1 r1 q1 x1)
      then show ?thesis using less.prems(1) by (intro exI [of _ "length c"]) auto
    next
      case stp: (2 c r1 q1 x1)
      have "nat (n - int (length c)) < nat n" using stp(3,4) by (cases c) auto
      moreover have "responseNotSent q1" using same_request_fields [OF stp(5)] less.prems(4) by (simp add: responseNotSent_def)
      ultimately obtain k where "k \<le> nat (n - int (length c))" "same_request q1 q'"
          "kept ((b @ c) @ take k (str r1)) q'" "str r' = drop k (str r1)"
        using less.hyps [of "n - int (length c)" r1 q1 x1 "b @ c"] less.prems(1,2) stp by auto
      then show ?thesis using stp same_request_trans [OF stp(5)] by (intro exI [of _ "length c + k"]) auto
    qed
  qed
qed

section \<open>A retry after an incomplete body\<close>

text \<open>Sending the head of a request leaves the client's stream and the request alone, whatever its outcome.\<close>

definition cli_frame :: "('cr, 'sr, 'sw, 'e) fwd \<Rightarrow> 'cr \<times> Request \<times> serverConn" where
  "cli_frame s = (f_cli s, f_rq s, f_sv s)"

lemma io_bind_frame:
  assumes "\<And>s res s1. m s = Some (res, s1) \<Longrightarrow> \<phi> s1 = \<phi> s" "\<And>a s res s1. f a s = Some (res, s1) \<Longrightarrow> \<phi> s1 = \<phi> s"
    "io_bind m f s = Some (res, s1)"
  shows "\<phi> s1 = \<phi> s"
  using assms(3) by (auto simp: io_bind_def split: option.splits outcome.splits dest!: assms(1,2))

lemma write_error_frame: "write_error P e s = Some (res, s1) \<Longrightarrow> cli_frame s1 = cli_frame s"
  by (auto simp: write_error_def cli_frame_def split: sum.splits prod.splits)

lemma sv_Write_frame: "sv_Write P b s = Some (res, s1) \<Longrightarrow> cli_frame s1 = cli_frame s"
  by (auto simp: sv_Write_def cli_frame_def dest!: write_error_frame split: prod.splits option.splits)

lemma sendRequestHeader_frame:
  assumes "sendRequestHeader P s = Some (res, s1)"
  shows "cli_frame s1 = cli_frame s"
proof -
  have "cli_frame t1 = cli_frame t"
    if "(case authHeader c of None \<Rightarrow> io_ret () | Some ah \<Rightarrow> sv_Write P ah) t = Some (r, t1)" for c r t t1
    using that sv_Write_frame by (cases "authHeader c") (auto simp: io_ret_def)
  then have "cli_frame s1 = cli_frame s" if "sendHTTPProxyRequestHeader P s = Some (res, s1)"
    using that unfolding sendHTTPProxyRequestHeader_def
    by (elim io_bind_frame [of _ cli_frame, rotated 2]) (blast intro: sv_Write_frame io_bind_frame [of _ cli_frame])+
  then show ?thesis using assms sv_Write_frame by (auto simp: sendRequestHeader_def split: if_splits)
qed

text \<open>What a failed first attempt leaves: the buffer holds as much of the body as was read.\<close>

lemma send_request_failed:
  assumes "bufio_reader (p_cli P) B str fin" "httpBufSize \<le> B"
    "\<not> Chunking (header (f_rq s))" "ContLen (header (f_rq s)) < 2 ^ 63" "raw (f_rq s) = Some b" "\<not> partial (f_rq s)"
    "send_request P s = Some (res, s1)"
  shows "\<exists>k \<le> nat (ContLen (header (f_rq s))). same_request (setState rsCreated (f_rq s)) (f_rq s1) \<and>
    kept (b @ take k (str (f_cli s))) (f_rq s1) \<and> str (f_cli s1) = drop k (str (f_cli s))"
proof -
  let ?s = "on_rq (setState rsCreated) s"
  have base: "kept b (f_rq ?s)" "responseNotSent (f_rq ?s)"
    using assms(5,6) by (simp_all add: kept_def setState_def responseNotSent_def less_eq_rqState_def)
  consider (head) "cli_frame s1 = cli_frame ?s"
    | (body) s0 where "cli_frame s0 = cli_frame ?s" "sendRequestBody P s0 = Some (res, s1)"
    using assms(7) by (auto simp: send_request_def io_bind_def dest!: sendRequestHeader_frame
        split: option.splits outcome.splits)
  then show ?thesis
  proof cases
    case head
    then show ?thesis using base by (intro exI [of _ 0]) (simp add: cli_frame_def)
  next
    case body
    have s0: "f_cli s0 = f_cli s" "f_rq s0 = f_rq ?s" using body(1) by (simp_all add: cli_frame_def)
    show ?thesis
    proof (cases "hasBody (f_rq s0) \<and> \<not> isRetry (f_rq s0)")
      case False
      then have "s1 = s0" using body(2) by (auto simp: sendRequestBody_def)
      then show ?thesis using base s0 by (intro exI [of _ 0]) simp
    next
      case True
      obtain e c q x where sb: "sendBody (p_cli P) (serverWriter_Write (p_out P)) (ContLen (header (f_rq s0)))
            (Chunking (header (f_rq s0))) (f_cli s0) (f_rq s0, f_out s0 (f_conn s0)) = Some (e, c, (q, x))"
        and s1: "cli_frame s1 = (c, q, f_sv s0)"
        using True body(2)
        by (auto simp: sendRequestBody_def Let_def cli_frame_def split: option.splits prod.splits if_splits dest!: write_error_frame)
      have pos: "0 < ContLen (header (f_rq s))" using True s0 assms(3) by (simp add: hasBody_def setState_def)
      have cp: "copyN (p_cli P) (serverWriter_Write (p_out P)) (ContLen (header (f_rq s))) (int httpBufSize)
          (f_cli s) (f_rq ?s, f_out s0 (f_conn s0)) = Some (e, c, (q, x))"
        using sb assms(3) pos s0 by (simp add: sendBody_def sendBodyWithContLen_def setState_def)
      show ?thesis
        using copyN_kept [OF assms(1) _ _ cp assms(4) base] assms(2) s1
        by (auto simp: httpBufSize_def cli_frame_def)
    qed
  qed
qed

lemma send_request_retry_ok:
  assumes "io_writer (p_out P) written" "isRetry (f_rq s)" "send_request P s = Some (Ok u, s1)"
  shows "f_cli s1 = f_cli s \<and>
    written (f_out s1 (f_conn s)) = written (f_out s (f_conn s)) @ request_bytes (f_sv s) (f_rq s)"
proof -
  let ?s = "on_rq (setState rsCreated) s"
  have rb: "request_bytes (f_sv s) (f_rq ?s) = request_bytes (f_sv s) (f_rq s)"
    by (simp add: setState_def request_bytes_def proxyRequestLine_def rawHeaderBody_def rawRequest_def raw_bytes_def)
  obtain u0 s0 where s0: "sendRequestHeader P ?s = Some (Ok u0, s0)" "sendRequestBody P s0 = Some (Ok u, s1)"
    using assms(3) by (auto simp: send_request_def io_bind_eq_Ok)
  obtain x where x: "s0 = set_out x ?s" "written x = written (f_out s (f_conn s)) @ request_bytes (f_sv s) (f_rq s)"
    using sendRequestHeader_ok [OF assms(1) s0(1)] rb by auto
  have "s1 = s0" using s0(2) assms(2) x(1) by (simp add: sendRequestBody_def isRetry_def setState_def)
  moreover have "f_out (set_out x ?s) (f_conn s) = x" using set_out_simps(1) [of x ?s] by simp
  ultimately show ?thesis using x by simp
qed

text \<open>C34: When the first attempt of a request with a content length fails while it is being sent, and the
  error asks for a retry, the request is tried again although its body is not complete: the retry
  sends the head of the request and only the \<open>k\<close> bytes of the body that were read before the
  error, and reports success. The rest of the body stays in the client's stream.\<close>

theorem retry_after_failed_body:
  fixes P :: "('cr, 'sr, 'sw, 'e) fwd_env"
  assumes "bufio_reader (p_cli P) B str fin" "httpBufSize \<le> B" "io_writer (p_out P) written"
    "\<not> Chunking (header (f_rq s))" "ContLen (header (f_rq s)) = int (length body)" "int (length body) < 2 ^ 63"
    "str (f_cli s) = body @ rest" "raw (f_rq s) = Some b" "reqLnStart (f_rq s) \<le> length b"
    "headStart (f_rq s) \<le> length b" "\<not> partial (f_rq s)" "tryCnt (f_rq s) = 1"
    "send_request P s = Some (Fail e, s1)" "isErrRetry (Some e)" "raw (f_rq s1) \<noteq> None"
  shows "request_failed P e s1 = Some (Ok TryAgain, s1) \<and>
    (\<exists>k \<le> length body. str (f_cli s1) = drop k body @ rest \<and>
       (\<forall>s2 s3. f_rq s2 = tryOnce (f_rq s1) \<and> send_request P s2 = Some (Ok (), s3) \<longrightarrow>
          f_cli s3 = f_cli s2 \<and>
          written (f_out s3 (f_conn s2)) =
            written (f_out s2 (f_conn s2)) @ request_bytes (f_sv s2) (f_rq s) @ take k body))"
proof -
  obtain k where k: "k \<le> length body" "same_request (setState rsCreated (f_rq s)) (f_rq s1)"
      "kept (b @ take k (str (f_cli s))) (f_rq s1)" "str (f_cli s1) = drop k (str (f_cli s))"
    using send_request_failed [OF assms(1,2,4) _ assms(8,11,13)] assms(5,6) by auto
  then have r1: "raw (f_rq s1) = Some (b @ take k body)" "\<not> partial (f_rq s1)" "str (f_cli s1) = drop k body @ rest"
    using assms(7,15) by (auto simp: kept_def)
  have f: "reqLnStart (f_rq s1) = reqLnStart (f_rq s)" "headStart (f_rq s1) = headStart (f_rq s)" "tryCnt (f_rq s1) = 1"
      "responseNotSent (f_rq s1)"
    using same_request_fields [OF k(2)] assms(12)
    by (simp_all add: setState_def responseNotSent_def less_eq_rqState_def)
  have "request_failed P e s1 = Some (Ok TryAgain, s1)"
    using assms(14) f r1 by (cases s1) (simp add: request_failed_def shouldRetry_def tooManyRetry_def)
  moreover have "f_cli s3 = f_cli s2 \<and>
      written (f_out s3 (f_conn s2)) = written (f_out s2 (f_conn s2)) @ request_bytes (f_sv s2) (f_rq s) @ take k body"
    if a: "f_rq s2 = tryOnce (f_rq s1)" "send_request P s2 = Some (Ok (), s3)" for s2 s3
  proof -
    have "isRetry (f_rq s2)" using a(1) f(3) by (simp add: isRetry_def tryOnce_def)
    moreover have "request_bytes (f_sv s2) (f_rq s2) = request_bytes (f_sv s2) (f_rq s) @ take k body"
      using a(1) f r1 by (intro request_bytes_append [OF assms(8-10)]) (simp_all add: tryOnce_def)
    ultimately show ?thesis using send_request_retry_ok [OF assms(3) _ a(2)] by simp
  qed
  ultimately show ?thesis using k(1) r1(3) by auto
qed

section \<open>A response that has begun\<close>

lemma shouldRetry_answered:
  "\<not> responseNotSent r \<Longrightarrow> shouldRetry C E r sv re w = Inr (False, r, w)"
  by (simp add: shouldRetry_def)

text \<open>After the head of the response no read error is turned into a page or a retry.\<close>

lemma read_error_answered:
  assumes "\<not> responseNotSent (f_rq s)" "sv_state (f_sv s) \<noteq> svConnected" "e \<noteq> EOF"
  shows "read_error P e s = Some (Fail e, s)"
  using assms by (simp add: read_error_def handleServerReadError_def maybeFake_def)

lemma io_writer_extends:
  assumes "io_writer W written"
  shows "writer_rule W (\<lambda>w. prefix b (written w)) (\<lambda>w. prefix b (written w))"
proof
  fix w p n e w' assume b: "prefix b (written w)"
  show "prefix b (written w')" if "W p w = (n, None, w')" using io_writer.Write_ok [OF assms that] b by simp
  show "prefix b (written w')" if "W p w = (n, Some e, w')"
    using io_writer.Write_prefix [OF assms that] b by (auto intro: prefix_prefix)
qed

definition answered :: "('cr, 'sr, 'sw, 'e) fwd \<Rightarrow> bool" where
  "answered s \<longleftrightarrow> \<not> responseNotSent (f_rq s) \<and> sv_state (f_sv s) \<noteq> svConnected"

lemma send_response_body_answered:
  assumes "io_writer (p_cw P) cout" "answered s" "prefix b (cout (w_env (f_w s)))"
    "send_response_body P s = Some (res, s1)"
  shows "f_rq s1 = f_rq s \<and> f_sv s1 = f_sv s \<and> f_rp s1 = f_rp s \<and> prefix b (cout (w_env (f_w s1))) \<and>
    (\<forall>p. res \<noteq> Panic p)"
proof -
  obtain e x en where sb: "sendBody (p_srv P) (p_cw P) (ContLen (rp_header (f_rp s))) (Chunking (rp_header (f_rp s)))
      (f_srv s (f_conn s)) (w_env (f_w s)) = Some (e, x, en)"
    using assms(4) by (auto simp: send_response_body_def Let_def split: option.splits)
  have p: "prefix b (cout en)"
    using writer_rule.sendBody_after [OF io_writer_extends [OF assms(1), of b] sb assms(3)]
      writer_rule.after_def [OF io_writer_extends [OF assms(1), of b]] by (simp split: if_splits)
  let ?s = "set_srv x (s \<lparr>f_w := (f_w s) \<lparr>w_env := en\<rparr>\<rparr>)"
  have "s1 = ?s \<and> (\<forall>p. res \<noteq> Panic p)"
    using assms(2,4) sb read_error_answered [of ?s _ P]
    by (auto simp: send_response_body_def Let_def answered_def set_srv_def split: option.splits if_splits)
  then show ?thesis using p by (simp add: set_srv_def)
qed

lemma response_done_ok:
  "response_done P s = Some (Ok (), s1) \<longleftrightarrow> s1 = snd (the (response_done P s))"
  "f_w (snd (the (response_done P s))) = f_w s" "\<exists>s1. response_done P s = Some (Ok (), s1)"
  "\<not> responseNotSent (f_rq (snd (the (response_done P s))))"
  by (auto simp: response_done_def Let_def setState_def responseNotSent_def less_eq_rqState_def)

lemma forward_response_answered:
  assumes "io_writer (p_cw P) cout" "answered s" "\<not> (Status (f_rp s) = 101 \<and> isWebSocket (p_fold P) (f_rq s))"
    "forward_response P s = Some (res, s1)"
  shows "\<exists>out. cout (w_env (f_w s1)) = cout (w_env (f_w s)) @ out \<and>
    (prefix out (rawResponse (f_rp s)) \<or> prefix (rawResponse (f_rp s)) out) \<and>
    (res = Ok () \<longrightarrow> prefix (rawResponse (f_rp s)) out) \<and> (\<forall>p. res \<noteq> Panic p) \<and> \<not> responseNotSent (f_rq s1)"
proof -
  let ?b = "rawResponse (f_rp s)"
  obtain n e en where w: "p_cw P ?b (w_env (f_w s)) = (n, e, en)" by (metis prod_cases3)
  let ?s = "s \<lparr>f_w := (f_w s) \<lparr>w_env := en\<rparr>\<rparr>"
  show ?thesis
  proof (cases e)
    case (Some er)
    then obtain k where "cout en = cout (w_env (f_w s)) @ take k ?b"
      using io_writer.Write_prefix [OF assms(1)] w by blast
    moreover have "s1 = ?s" "res = Fail er"
      using assms(4) w Some by (auto simp: forward_response_def client_Write_def io_bind_def)
    ultimately show ?thesis using assms(2) by (auto simp: answered_def take_is_prefix)
  next
    case None
    then have out: "cout en = cout (w_env (f_w s)) @ ?b" using io_writer.Write_ok [OF assms(1)] w by blast
    let ?body = "if Response_hasBody (f_rp s) (Method (f_rq s)) then send_response_body P else io_ret ()"
    have "client_Write P ?b s = Some (Ok (), ?s)" using w None by (simp add: client_Write_def)
    then have fr: "io_bind ?body (\<lambda>_. response_done P) ?s = Some (res, s1)"
      using assms(4) unfolding forward_response_def by (simp only: io_bind_Ok assms(3) if_False)
    obtain rb s2 where s2: "?body ?s = Some (rb, s2)" using fr by (auto simp: io_bind_def split: option.splits)
    have b: "f_rq s2 = f_rq s" "prefix (cout (w_env (f_w s)) @ ?b) (cout (w_env (f_w s2)))" "\<forall>p. rb \<noteq> Panic p"
      using send_response_body_answered [OF assms(1), of ?s "cout en" rb s2] s2 assms(2) out
      by (auto simp: answered_def io_ret_def split: if_splits)
    have "f_w s1 = f_w s2 \<and> \<not> responseNotSent (f_rq s1) \<and> (\<forall>p. res \<noteq> Panic p)"
      using fr s2 b(1,3) assms(2) response_done_ok [of P s2]
      by (cases rb) (auto simp: answered_def)
    then show ?thesis using b(2) by (auto simp: prefix_def)
  qed
qed


section \<open>Examples\<close>

text \<open>A connection that takes a given number of bytes and then fails.\<close>

definition ex_write :: "(nat \<times> bytes) writer" where
  "ex_write b = (\<lambda>(lim, w). case limited_write lim (OpError ''write'' ''broken pipe'' False False) b w of
     (n, e, w') \<Rightarrow> (n, e, (lim, w')))"

interpretation ex_write: io_writer ex_write snd
proof
  fix b n e and w w' :: "nat \<times> bytes"
  obtain l x l' x' where w: "w = (l, x)" "w' = (l', x')" by fastforce
  show "n = int (length b) \<and> snd w' = snd w @ b" if "ex_write b w = (n, None, w')"
    using that w limited.Write_ok [of l _ b x n x'] by (auto simp: ex_write_def split: prod.splits)
  show "\<exists>k \<le> length b. snd w' = snd w @ take k b" if "ex_write b w = (n, Some e, w')"
    using that w limited.Write_prefix [of l _ b x n e x'] by (auto simp: ex_write_def split: prod.splits)
qed

definition ex_bytes_env :: "bytes xenv" where
  "ex_bytes_env = \<lparr>xe_parent = \<lparr>env_connect = (\<lambda>p u e. (Inl EOF, e)), env_hpool = (\<lambda>u e. (Inl EOF, e)),
       env_intn = (\<lambda>n e. (0, e)), env_bad = (\<lambda>e. False)\<rparr>,
     xe_now = (\<lambda>e. 10 ^ 13), xe_dial = (\<lambda>hp d e. (Inr 1, e)), xe_page = (\<lambda>c e. e @ c)\<rparr>"

definition ex_fwd_env :: "'sw writer \<Rightarrow> (mem_state, mem_state, 'sw, bytes) fwd_env" where
  "ex_fwd_env W = \<lparr>p_C = ex_cfg, p_E = ex_bytes_env, p_cli = mem_reader httpBufSize, p_srv = mem_reader httpBufSize,
     p_out = W, p_cw = buffer_write, p_release = (\<lambda>x. x), p_uni = (\<lambda>x. x), p_fold = (\<lambda>x. False),
     p_tunnel = io_ret (), p_connect = io_ret ()\<rparr>"

definition ex_head :: bytes where
  "ex_head = ''POST / HTTP/1.1'' @ CRLF @ ''Content-Length: 5'' @ CRLF @ CRLF"

definition ex_post :: "8 word \<Rightarrow> Request" where
  "ex_post n = zeroRequest \<lparr>Method := ''POST'', URL := ex_url, raw := Some ex_head, headStart := 17,
     bodyStart := length ex_head, header := zeroHeader \<lparr>ContLen := 5\<rparr>, tryCnt := n\<rparr>"

definition ex_fwd :: "bytes list \<Rightarrow> bytes list \<Rightarrow> 'sw \<Rightarrow> Request \<Rightarrow> (mem_state, mem_state, 'sw, bytes) fwd" where
  "ex_fwd cli srv out r = \<lparr>f_cli = mem_open cli EOF, f_srv = (\<lambda>_. mem_open srv EOF), f_out = (\<lambda>_. out),
     f_w = \<lparr>w_site = newSiteStat, w_pool = emptyPool, w_parent = backupParentPool [],
       w_times = \<lparr>dialTimeout = 5, readTimeout = 5\<rparr>, w_env = []\<rparr>,
     f_rq = r, f_rp = zeroResponse,
     f_sv = newServerConn (plainConn 7) ''www.example.com:80'' (SiteRef ''www.example.com'')\<rparr>"

lemma ex_head_length [simp]: "length ex_head = 38"
  by (simp add: ex_head_def CRLF_def)

lemma ex_post_simps [simp]:
  "raw (ex_post n) = Some ex_head" "partial (ex_post n) = False" "tryCnt (ex_post n) = n"
  "header (ex_post n) = zeroHeader \<lparr>ContLen := 5\<rparr>" "reqLnStart (ex_post n) = 0" "headStart (ex_post n) = 17"
  by (simp_all add: ex_post_def zeroRequest_def)

lemma ex_fwd_simps [simp]:
  "f_cli (ex_fwd cli srv out r) = mem_open cli EOF" "f_rq (ex_fwd cli srv out r) = r"
  "f_out (ex_fwd cli srv out r) c = out" "f_conn (ex_fwd cli srv out r) = plainConn 7"
  "p_cli (ex_fwd_env W) = mem_reader httpBufSize" "p_out (ex_fwd_env W) = W"
  by (simp_all add: ex_fwd_def f_conn_def newServerConn_def ex_fwd_env_def)

lemma ex_request_bytes [simp]: "request_bytes (f_sv (ex_fwd cli srv out r)) (ex_post n) = ex_head"
  by (simp add: request_bytes_def ex_fwd_def newServerConn_def isMux_def rawRequest_def raw_bytes_def)


lemma ex_send_fails:
  obtains s1 where "send_request (ex_fwd_env ex_write) (ex_fwd [''hello''] [] (0, []) (ex_post 1)) =
      Some (Fail (RetryError (OpError ''write'' ''broken pipe'' False False)), s1)"
    "f_rq s1 = ex_post 1" "f_cli s1 = mem_open [''hello''] EOF"
proof -
  let ?s = "ex_fwd [''hello''] [] (0, []) (ex_post 1)"
  have e: "ex_write ex_head (0, []) = (0, Some (OpError ''write'' ''broken pipe'' False False), (0, []))"
    by (simp add: ex_write_def limited_write_def)
  have r: "on_rq (setState rsCreated) ?s = ?s"
    by (simp add: on_rq_def ex_fwd_def setState_def ex_post_def zeroRequest_def)
  have "sendRequestHeader (ex_fwd_env ex_write) ?s =
      Some (Fail (RetryError (OpError ''write'' ''broken pipe'' False False)), set_out (0, []) ?s)"
    using e by (simp add: sendRequestHeader_def sv_Write_def write_error_def handleServerWriteError_def maybeFake_def
        rawRequest_def raw_bytes_def isMux_def isDirect_def ex_fwd_env_def)
      (simp add: ex_fwd_def newServerConn_def set_out_def)
  then have "send_request (ex_fwd_env ex_write) ?s =
      Some (Fail (RetryError (OpError ''write'' ''broken pipe'' False False)), set_out (0, []) ?s)"
    unfolding send_request_def r by (rule io_bind_Fail)
  then show thesis using that by simp
qed

theorem retry_after_failed_body_witness:
  "\<exists>e s1 s3. send_request (ex_fwd_env ex_write) (ex_fwd [''hello''] [] (0, []) (ex_post 1)) = Some (Fail e, s1) \<and>
     request_failed (ex_fwd_env ex_write) e s1 = Some (Ok TryAgain, s1) \<and> mem_str (f_cli s1) = ''hello'' \<and>
     send_request (ex_fwd_env ex_write) (ex_fwd [''hello''] [] (100, []) (tryOnce (f_rq s1))) = Some (Ok (), s3) \<and>
     snd (f_out s3 (plainConn 7)) = ex_head"
proof -
  let ?P = "ex_fwd_env ex_write" and ?s = "ex_fwd [''hello''] [] (0 :: nat, [] :: bytes) (ex_post 1)"
  let ?s2 = "ex_fwd [''hello''] [] (100, []) (tryOnce (ex_post 1))"
  obtain s1 where s1: "send_request ?P ?s = Some (Fail (RetryError (OpError ''write'' ''broken pipe'' False False)), s1)"
    "f_rq s1 = ex_post 1" "f_cli s1 = mem_open [''hello''] EOF" by (rule ex_send_fails)
  let ?t = "on_rq (setState rsCreated) ?s2"
  have "sendRequestHeader ?P ?t = Some (Ok (), set_out (100, ex_head) ?t)"
    by (simp add: sendRequestHeader_def sv_Write_def ex_write_def limited_write_def rawRequest_def raw_bytes_def
        setState_def tryOnce_def isMux_def ex_fwd_def newServerConn_def)
  moreover have "sendRequestBody ?P (set_out (100, ex_head) ?t) = Some (Ok (), set_out (100, ex_head) ?t)"
    by (simp add: sendRequestBody_def isRetry_def setState_def tryOnce_def)
  ultimately have "send_request ?P ?s2 = Some (Ok (), set_out (100, ex_head) ?t)"
    unfolding send_request_def by (simp only: io_bind_Ok)
  then obtain s3 where s3: "send_request ?P ?s2 = Some (Ok (), s3)" by blast
  have "request_failed ?P (RetryError (OpError ''write'' ''broken pipe'' False False)) s1 = Some (Ok TryAgain, s1) \<and>
    (\<exists>k \<le> length ''hello''. mem_str (f_cli s1) = drop k ''hello'' @ [] \<and>
       (\<forall>s2 s3. f_rq s2 = tryOnce (f_rq s1) \<and> send_request ?P s2 = Some (Ok (), s3) \<longrightarrow> f_cli s3 = f_cli s2 \<and>
          snd (f_out s3 (f_conn s2)) =
            snd (f_out s2 (f_conn s2)) @ request_bytes (f_sv s2) (f_rq ?s) @ take k ''hello''))"
    by (rule retry_after_failed_body [where B = httpBufSize and fin = mr_err and b = ex_head, OF _ _ _ _ _ _ _ _ _ _ _ _ s1(1)])
      (simp_all add: s1(2) zeroHeader_def mem.bufio_reader_axioms ex_write.io_writer_axioms)
  then obtain k where k: "request_failed ?P (RetryError (OpError ''write'' ''broken pipe'' False False)) s1 = Some (Ok TryAgain, s1)"
      "''hello'' = drop k ''hello''" "\<forall>s2 s3. f_rq s2 = tryOnce (ex_post 1) \<and> send_request ?P s2 = Some (Ok (), s3) \<longrightarrow>
        f_cli s3 = f_cli s2 \<and>
        snd (f_out s3 (f_conn s2)) = snd (f_out s2 (f_conn s2)) @ request_bytes (f_sv s2) (ex_post 1) @ take k ''hello''"
    using s1(2,3) by auto
  have "length ''hello'' - k = length ''hello''" using k(2) by (metis length_drop)
  then have "k = 0" by simp
  then have "snd (f_out s3 (plainConn 7)) = ex_head" using k(3) [rule_format, of ?s2 s3] s3 by simp
  then show ?thesis using s1 s3 k(1) by auto
qed


text \<open>A request that was tried four times on a direct connection: its body is in the buffer, and what
  the client sends next is another request.\<close>

definition ex_retried :: Request where
  "ex_retried = ex_post 4 \<lparr>raw := Some (ex_head @ ''hello'')\<rparr>"

theorem reset_retry_reads_body_again_witness:
  "\<exists>r' w' s1. shouldRetry ex_cfg ex_bytes_env ex_retried ex_sv (Some (RetryError EOF))
       (f_w (ex_fwd [] [] () ex_retried) \<lparr>w_site := ex_stat2\<rparr>) = Inr (True, r', w') \<and>
     send_request (ex_fwd_env buffer_write) (ex_fwd [''GET / HTTP/1.1''] [] [] (tryOnce r')) = Some (Ok (), s1) \<and>
     f_out s1 (plainConn 7) = ex_head @ ''helloGET /'' \<and> mem_str (f_cli s1) = '' HTTP/1.1''"
proof -
  let ?P = "ex_fwd_env buffer_write" and ?w = "f_w (ex_fwd [] [] () ex_retried) \<lparr>w_site := ex_stat2\<rparr>"
  have g: "SiteStat_get ex_stat2 ''www.example.com'' = Some (newVisitCnt 0 3 0)"
    by (simp add: ex_stat2_def SiteStat_get_def)
  have q: "raw ex_retried = Some (ex_head @ ''hello'')" "tryCnt ex_retried = 4" "reqLnStart ex_retried = 0"
      "headStart ex_retried = 17" "header ex_retried = zeroHeader \<lparr>ContLen := 5\<rparr>" "partial ex_retried = False"
      "state ex_retried = rsCreated" "URL ex_retried = ex_url"
    by (simp_all add: ex_retried_def ex_post_def zeroRequest_def)
  obtain w' where sr: "shouldRetry ex_cfg ex_bytes_env ex_retried ex_sv (Some (RetryError EOF)) ?w =
      Inr (True, ex_retried \<lparr>tryCnt := 0\<rparr>, w')"
    using q by (simp add: shouldRetry_def responseNotSent_def tooManyRetry_def ex_sv_safe(2) w_TempBlocked_def
        TempBlocked_def ex_url_fields g Let_def less_eq_rqState_def)
  let ?s = "ex_fwd [''GET / HTTP/1.1''] [] ([] :: bytes) (tryOnce (ex_retried \<lparr>tryCnt := 0\<rparr>))"
  have b: "client_body httpBufSize ex_retried (mem_str (f_cli ?s)) ''GET /'' '' HTTP/1.1''"
    using q by (simp add: client_body_def zeroHeader_def)
  have "request_bytes (f_sv ?s) (ex_retried \<lparr>raw := Some ex_head\<rparr>) = ex_head"
    using q by (simp add: request_bytes_def ex_fwd_def newServerConn_def isMux_def rawRequest_def raw_bytes_def)
  then have "\<exists>s1. send_request ?P ?s = Some (Ok (), s1) \<and> f_out s1 (plainConn 7) = ex_head @ ''helloGET /'' \<and>
      mem_str (f_cli s1) = '' HTTP/1.1''"
    using reset_retry_reads_body_again [of ?P httpBufSize mem_str mr_err "\<lambda>w. w" ex_retried ex_sv "RetryError EOF" ?w
        "ex_retried \<lparr>tryCnt := 0\<rparr>" w' ex_head "''hello''" ?s "''GET /''" "'' HTTP/1.1''"]
      sr b q mem.bufio_reader_axioms buffer.reliable_writer_axioms by (auto simp: ex_fwd_env_def)
  with sr show ?thesis by blast
qed

end
