(* ===== verification/Tunnel.thy ===== *)
theory Tunnel
  imports Forward
begin

text \<open>
  Tunnels: \<open>doConnect\<close>, \<open>copyServer2Client\<close>, \<open>copyClient2Server\<close> and the tunnel watchdog of proxy.go,
  and \<open>tunnel\<close> of socks.go. The two copying goroutines run at the same time and share the request, the server
  connection and the site table; a state \<open>tun\<close> holds all of it, each block of code between two
  reads or writes is a definition, and \<open>tunnel_step\<close> lets the blocks of both goroutines happen in
  any order, with any outcome of the reads and writes.
\<close>

section \<open>State\<close>

datatype c2s = C_retry | C_buffered | C_read | C_write bytes | C_done err

datatype s2c = S_read | S_wrote | S_done err

datatype read_result = Data bytes | RdErr err

text \<open>
  \<open>tn_buf\<close> is what \<open>c.bufRd\<close> has buffered (\<open>None\<close> once it is released), \<open>tn_notified\<close> the state of
  \<open>srvStopped\<close>. \<open>tn_out\<close> and \<open>tn_cli\<close> are what has been written to the server connection and to
  the client. \<open>tn_in\<close>, the bytes taken from the client in this run, is history.
\<close>

record 'e tun =
  tn_w :: "'e world"
  tn_rq :: Request
  tn_sv :: serverConn
  tn_buf :: "bytes option"
  tn_in :: bytes
  tn_out :: bytes
  tn_cli :: bytes
  tn_total :: int
  tn_c2s :: c2s
  tn_s2c :: s2c
  tn_notified :: bool

text \<open>The outcome of a write: \<open>None\<close> is success, \<open>Some (k, e)\<close> an error after \<open>k\<close> bytes.\<close>

type_synonym write_result = "(nat \<times> err) option"

definition deliver :: "bytes \<Rightarrow> write_result \<Rightarrow> bytes \<Rightarrow> bytes" where
  "deliver b res out = out @ (case res of None \<Rightarrow> b | Some (k, e) \<Rightarrow> take k b)"

section \<open>Client to server\<close>

text \<open>\<open>serverWriter.Write\<close>.\<close>

definition tn_Write :: "write_result \<Rightarrow> bytes \<Rightarrow> 'e tun \<Rightarrow> 'e tun" where
  "tn_Write res b t = t \<lparr>tn_rq := save_raw b (tn_rq t), tn_out := deliver b res (tn_out t)\<rparr>"

definition c2s_next :: "write_result \<Rightarrow> c2s \<Rightarrow> 'e tun \<Rightarrow> 'e tun" where
  "c2s_next res c t = t \<lparr>tn_c2s := (case res of None \<Rightarrow> c | Some (k, e) \<Rightarrow> C_done e)\<rparr>"

text \<open>A retry first sends what is in the request's buffer.\<close>

definition c2s_retry :: "write_result \<Rightarrow> 'e tun \<Rightarrow> 'e tun" where
  "c2s_retry res t =
     (if isRetry (tn_rq t) then
        c2s_next res C_buffered (t \<lparr>tn_out := deliver (rawBody (tn_rq t)) res (tn_out t)\<rparr>)
      else t \<lparr>tn_c2s := C_buffered\<rparr>)"

text \<open>Then what the client's read buffer holds; the buffer is released only after that.\<close>

definition c2s_buffered :: "write_result \<Rightarrow> 'e tun \<Rightarrow> 'e tun" where
  "c2s_buffered res t =
     (case tn_buf t of
        None \<Rightarrow> t \<lparr>tn_c2s := C_read\<rparr>
      | Some b \<Rightarrow>
          (if b = [] then t \<lparr>tn_buf := None, tn_c2s := C_read\<rparr>
           else
             (let t1 = c2s_next res C_read (tn_Write res b (t \<lparr>tn_in := tn_in t @ b\<rparr>))
              in if res = None then t1 \<lparr>tn_buf := None\<rparr> else t1)))"

text \<open>
  The loop. \<open>detect\<close> is \<open>config.DetectSSLErr\<close>, \<open>start\<close> the time the loop was entered. A panic can
  come from \<open>TempBlocked\<close>.
\<close>

definition c2s_read ::
    "cfg \<Rightarrow> 'e xenv \<Rightarrow> bool \<Rightarrow> time \<Rightarrow> read_result \<Rightarrow> 'e tun \<Rightarrow> 'e tun may_panic" where
  "c2s_read C E detect start rd t =
     (case rd of
        Data b \<Rightarrow> Inr (t \<lparr>tn_in := tn_in t @ b, tn_c2s := C_write b\<rparr>)
      | RdErr e \<Rightarrow>
          (if detect \<and> maybeFake C (w_site (tn_w t)) (tn_sv t) \<and> (isErrConnReset e \<or> e = EOF) \<and>
              maybeSSLErr (w_now E (tn_w t)) start (tn_sv t)
           then (case w_TempBlocked E (URL (tn_rq t)) (tn_w t) of
                   Inl p \<Rightarrow> Inl p | Inr w \<Rightarrow> Inr (t \<lparr>tn_w := w, tn_c2s := C_done e\<rparr>))
           else if isErrTimeout e \<and> \<not> tn_notified t then Inr t
           else Inr (t \<lparr>tn_c2s := C_done e\<rparr>)))"

definition c2s_write :: "write_result \<Rightarrow> bytes \<Rightarrow> 'e tun \<Rightarrow> 'e tun" where
  "c2s_write res b t = c2s_next res C_read (tn_Write res b t)"

section \<open>Server to client\<close>

definition directThreshold :: int where
  "directThreshold = 8192"

definition s2c_read ::
    "cfg \<Rightarrow> 'e xenv \<Rightarrow> read_result \<Rightarrow> write_result \<Rightarrow> 'e tun \<Rightarrow> 'e tun may_panic" where
  "s2c_read C E rd res t =
     (case rd of
        RdErr e \<Rightarrow>
          (if maybeFake C (w_site (tn_w t)) (tn_sv t) \<and>
              maybeBlocked (c_HttpErrorCode C) (parentEmpty (tn_w t)) e
           then (case w_TempBlocked E (URL (tn_rq t)) (tn_w t) of
                   Inl p \<Rightarrow> Inl p | Inr w \<Rightarrow> Inr (t \<lparr>tn_w := w, tn_s2c := S_done (RetryError e)\<rparr>))
           else Inr (t \<lparr>tn_s2c := S_done e\<rparr>))
      | Data b \<Rightarrow>
          Inr (t \<lparr>tn_total := go_int (tn_total t + int (length b)), tn_cli := deliver b res (tn_cli t),
                  tn_s2c := (case res of None \<Rightarrow> S_wrote | Some (k, e) \<Rightarrow> S_done e)\<rparr>))"

text \<open>After a write to the client: the response has begun, and the server is not a fake one.\<close>

definition s2c_mark :: "cfg \<Rightarrow> 'e xenv \<Rightarrow> 'e tun \<Rightarrow> 'e tun" where
  "s2c_mark C E t =
     (let sv = (tn_sv t) \<lparr>sv_state := svSendRecvResponse\<rparr>;
          (sv1, w1) = (if directThreshold < tn_total t then updateVisit C E sv (tn_w t) else (sv, tn_w t))
      in t \<lparr>tn_rq := setState rsRecvBody (tn_rq t), tn_sv := sv1, tn_w := w1, tn_s2c := S_read\<rparr>)"

section \<open>Runs\<close>

text \<open>The errors of a connection are not the proxy's own \<open>RetryError\<close>.\<close>

definition net_write :: "write_result \<Rightarrow> bool" where
  "net_write res = (case res of None \<Rightarrow> True | Some (k, e) \<Rightarrow> \<not> isErrRetry (Some e))"

definition net_read :: "read_result \<Rightarrow> bool" where
  "net_read rd = (case rd of Data b \<Rightarrow> True | RdErr e \<Rightarrow> \<not> isErrRetry (Some e))"

inductive tunnel_step :: "cfg \<Rightarrow> 'e xenv \<Rightarrow> bool \<Rightarrow> time \<Rightarrow> 'e tun \<Rightarrow> 'e tun \<Rightarrow> bool"
  for C E detect start where
  retry: "tn_c2s t = C_retry \<Longrightarrow> net_write res \<Longrightarrow> tunnel_step C E detect start t (c2s_retry res t)"
| buffered: "tn_c2s t = C_buffered \<Longrightarrow> net_write res \<Longrightarrow> tunnel_step C E detect start t (c2s_buffered res t)"
| c_read: "tn_c2s t = C_read \<Longrightarrow> net_read rd \<Longrightarrow> c2s_read C E detect start rd t = Inr t' \<Longrightarrow>
    tunnel_step C E detect start t t'"
| c_write: "tn_c2s t = C_write b \<Longrightarrow> net_write res \<Longrightarrow> tunnel_step C E detect start t (c2s_write res b t)"
| s_read: "tn_s2c t = S_read \<Longrightarrow> net_read rd \<Longrightarrow> net_write res \<Longrightarrow> s2c_read C E rd res t = Inr t' \<Longrightarrow>
    tunnel_step C E detect start t t'"
| s_mark: "tn_s2c t = S_wrote \<Longrightarrow> tunnel_step C E detect start t (s2c_mark C E t)"
| notify: "tn_s2c t = S_done e \<Longrightarrow> isErrRetry (Some e) \<Longrightarrow>
    tunnel_step C E detect start t (t \<lparr>tn_notified := True\<rparr>)"

text \<open>What \<open>doConnect\<close> and \<open>tunnel\<close> return, once both goroutines are done.\<close>

definition tunnel_result :: "'e tun \<Rightarrow> err option" where
  "tunnel_result t =
     (case (tn_c2s t, tn_s2c t) of
        (C_done e1, S_done e2) \<Rightarrow> Some (if isErrRetry (Some e1) then e1 else e2)
      | _ \<Rightarrow> None)"

section \<open>The beginning of \<open>doConnect\<close>\<close>

definition connEstablished :: bytes where
  "connEstablished = ''HTTP/1.1 200 Tunnel established'' @ CRLF @ CRLF"

text \<open>With capturing off: a parent proxy is sent the request, a client without one a confirmation.\<close>

definition doConnect_begin ::
    "('cr, 'sr, 'sw, 'e) fwd_env \<Rightarrow> (('cr, 'sr, 'sw, 'e) fwd, unit) io" where
  "doConnect_begin P s =
     (let s0 = on_rq (setState rsCreated) s in
      if isMux (f_sv s0) then sendHTTPProxyRequestHeader P s0
      else if \<not> isRetry (f_rq s0) then client_Write P connEstablished s0
      else Some (Ok (), s0))"

text \<open>The goroutines start on the connection and the request \<open>doConnect\<close> has.\<close>

definition tunnel_start :: "bytes option \<Rightarrow> bytes \<Rightarrow> bytes \<Rightarrow> ('cr, 'sr, 'sw, 'e) fwd \<Rightarrow> 'e tun" where
  "tunnel_start buf out cli s =
     \<lparr>tn_w = f_w s, tn_rq = f_rq s, tn_sv = f_sv s, tn_buf = buf, tn_in = [], tn_out = out, tn_cli = cli,
      tn_total = 0, tn_c2s = C_retry, tn_s2c = S_read, tn_notified = False\<rparr>"

section \<open>The watchdog\<close>

text \<open>
  \<open>last\<close> is the time of the latest activity in nanoseconds; \<open>newTunnelWatchdog\<close> makes none for a
  timeout of zero or less. \<open>watch_tick\<close> says whether the connections are closed at a tick.
\<close>

record tunnelWatchdog =
  tw_timeout :: duration
  tw_last :: time

definition newTunnelWatchdog :: "duration \<Rightarrow> time \<Rightarrow> tunnelWatchdog option" where
  "newTunnelWatchdog timeout now =
     (if timeout \<le> 0 then None else Some \<lparr>tw_timeout = timeout, tw_last = now\<rparr>)"

definition touch :: "time \<Rightarrow> tunnelWatchdog option \<Rightarrow> tunnelWatchdog option" where
  "touch now tw = map_option (\<lambda>t. t \<lparr>tw_last := now\<rparr>) tw"

definition watch_interval :: "tunnelWatchdog \<Rightarrow> duration" where
  "watch_interval tw =
     (let interval = tw_timeout tw div 2 in if interval < 10000000 then 10000000 else interval)"

definition watch_tick :: "time \<Rightarrow> tunnelWatchdog \<Rightarrow> bool" where
  "watch_tick now tw \<longleftrightarrow> \<not> time_Sub now (tw_last tw) < tw_timeout tw"

section \<open>The invariant of a tunnel\<close>

text \<open>What of the client's bytes has gone through \<open>serverWriter\<close>: all but a chunk that is about to.\<close>

definition c2s_saved :: "'e tun \<Rightarrow> bytes \<Rightarrow> bool" where
  "c2s_saved t v \<longleftrightarrow> (case tn_c2s t of C_write b \<Rightarrow> tn_in t = v @ b | _ \<Rightarrow> tn_in t = v)"

definition buffer_inv :: "Request \<Rightarrow> bytes \<Rightarrow> Request \<Rightarrow> bytes \<Rightarrow> bool" where
  "buffer_inv r0 b0 r v \<longleftrightarrow> bodyStart r = bodyStart r0 \<and> tryCnt r = tryCnt r0 \<and> state r0 \<le> state r \<and>
     (case raw r of None \<Rightarrow> partial r \<or> \<not> responseNotSent r | Some b \<Rightarrow> b = b0 @ v \<and> \<not> partial r)"

definition out_inv :: "Request \<Rightarrow> bytes \<Rightarrow> 'e tun \<Rightarrow> bytes \<Rightarrow> bool" where
  "out_inv r0 out0 t v \<longleftrightarrow>
     (let first = (if isRetry r0 then rawBody r0 else []) in
      case tn_c2s t of
        C_retry \<Rightarrow> v = [] \<and> tn_out t = out0 \<and> raw (tn_rq t) = raw r0
      | C_buffered \<Rightarrow> v = [] \<and> tn_out t = out0 @ first
      | C_done e \<Rightarrow> prefix (tn_out t) (out0 @ first @ v) \<and> \<not> isErrRetry (Some e)
      | _ \<Rightarrow> tn_out t = out0 @ first @ v)"

definition cli_inv :: "Request \<Rightarrow> bytes \<Rightarrow> 'e tun \<Rightarrow> bool" where
  "cli_inv r0 cli0 t \<longleftrightarrow>
     (sv_state (tn_sv t) = svConnected \<and> tn_s2c t = S_read \<or> (\<exists>e. tn_s2c t = S_done e \<and> isErrRetry (Some e)) \<longrightarrow>
        tn_cli t = cli0 \<and> state (tn_rq t) = state r0)"

definition tunnel_inv :: "'e tun \<Rightarrow> bytes \<Rightarrow> 'e tun \<Rightarrow> bool" where
  "tunnel_inv t0 b0 t \<longleftrightarrow>
     (\<exists>v. c2s_saved t v \<and> buffer_inv (tn_rq t0) b0 (tn_rq t) v \<and> out_inv (tn_rq t0) (tn_out t0) t v) \<and>
     cli_inv (tn_rq t0) (tn_cli t0) t"

lemma save_raw_buffer: "buffer_inv r0 b0 r v \<Longrightarrow> buffer_inv r0 b0 (save_raw b r) (v @ b)"
  by (auto simp: buffer_inv_def save_raw_def raw_write_def Request_releaseBuf_def responseNotSent_def split: option.splits)

lemma deliver_simps [simp]: "deliver b None out = out @ b" "deliver b (Some (k, e)) out = out @ take k b"
  by (simp_all add: deliver_def)

lemmas tunnel_inv_defs = tunnel_inv_def c2s_saved_def out_inv_def cli_inv_def Let_def

lemma c2s_saved_cong: "tn_c2s t' = tn_c2s t \<Longrightarrow> tn_in t' = tn_in t \<Longrightarrow> c2s_saved t' v = c2s_saved t v"
  by (cases "tn_c2s t") (simp_all add: c2s_saved_def)

lemma out_inv_cong:
  "tn_c2s t' = tn_c2s t \<Longrightarrow> tn_out t' = tn_out t \<Longrightarrow> raw (tn_rq t') = raw (tn_rq t) \<Longrightarrow>
   out_inv r0 out0 t' v = out_inv r0 out0 t v"
  by (cases "tn_c2s t") (simp_all add: out_inv_def Let_def)

lemma tunnel_inv_cong:
  assumes "tn_rq t' = tn_rq t" "tn_in t' = tn_in t" "tn_out t' = tn_out t" "tn_c2s t' = tn_c2s t" "tn_s2c t' = tn_s2c t"
    "tn_cli t' = tn_cli t" "tn_sv t' = tn_sv t"
  shows "tunnel_inv t0 b0 t' = tunnel_inv t0 b0 t"
  unfolding tunnel_inv_def c2s_saved_def out_inv_def cli_inv_def assms ..

text \<open>A step of the client's side that takes no bytes and writes none.\<close>

lemma tunnel_inv_c2s:
  assumes "tunnel_inv t0 b0 t" "tn_c2s t = C_read" "c = C_read \<or> c = C_write b \<or> (\<exists>e. c = C_done e \<and> \<not> isErrRetry (Some e))"
    "tn_c2s t' = c" "tn_in t' = tn_in t @ (case c of C_write b \<Rightarrow> b | _ \<Rightarrow> [])"
    "tn_rq t' = tn_rq t" "tn_out t' = tn_out t" "tn_s2c t' = tn_s2c t" "tn_cli t' = tn_cli t" "tn_sv t' = tn_sv t"
  shows "tunnel_inv t0 b0 t'"
proof -
  have "cli_inv (tn_rq t0) (tn_cli t0) t'" using assms(1,6,8-10) by (simp add: tunnel_inv_def cli_inv_def)
  moreover obtain v where "tn_in t = v" "buffer_inv (tn_rq t0) b0 (tn_rq t) v"
      "tn_out t = tn_out t0 @ (if isRetry (tn_rq t0) then rawBody (tn_rq t0) else []) @ v"
    using assms(1,2) by (auto simp: tunnel_inv_def c2s_saved_def out_inv_def Let_def)
  ultimately show ?thesis using assms(3-7)
    by (auto simp: tunnel_inv_def c2s_saved_def out_inv_def Let_def)
qed

lemma inv_retry:
  assumes "tunnel_inv t0 b0 t" "tn_c2s t = C_retry" "net_write res"
  shows "tunnel_inv t0 b0 (c2s_retry res t)"
proof -
  have f: "tn_in t = []" "tn_out t = tn_out t0" "raw (tn_rq t) = raw (tn_rq t0)" "buffer_inv (tn_rq t0) b0 (tn_rq t) []"
      "cli_inv (tn_rq t0) (tn_cli t0) t"
    using assms(1,2) by (auto simp: tunnel_inv_defs)
  then have "isRetry (tn_rq t) = isRetry (tn_rq t0)" "rawBody (tn_rq t) = rawBody (tn_rq t0)"
    by (simp_all add: isRetry_def rawBody_def raw_bytes_def buffer_inv_def)
  then show ?thesis using f assms(3)
    by (cases res) (auto simp: tunnel_inv_defs c2s_retry_def c2s_next_def net_write_def take_is_prefix)
qed

lemma inv_save:
  assumes "c2s_saved t v" "buffer_inv (tn_rq t0) b0 (tn_rq t) v" "out_inv (tn_rq t0) (tn_out t0) t v"
    "cli_inv (tn_rq t0) (tn_cli t0) t" "tn_c2s t = C_buffered \<or> tn_c2s t = C_write b"
    "tn_in t1 = v @ b" "tn_rq t1 = save_raw b (tn_rq t)" "tn_out t1 = deliver b res (tn_out t)"
    "tn_c2s t1 = (case res of None \<Rightarrow> C_read | Some (k, e) \<Rightarrow> C_done e)" "tn_sv t1 = tn_sv t" "tn_s2c t1 = tn_s2c t"
    "tn_cli t1 = tn_cli t" "net_write res"
  shows "tunnel_inv t0 b0 t1"
proof -
  have "tn_out t = tn_out t0 @ (if isRetry (tn_rq t0) then rawBody (tn_rq t0) else []) @ v"
    using assms(3,5) by (auto simp: out_inv_def Let_def)
  then have "out_inv (tn_rq t0) (tn_out t0) t1 (v @ b)" "c2s_saved t1 (v @ b)"
    using assms(6,8,9,13) by (cases res; auto simp: out_inv_def c2s_saved_def Let_def net_write_def take_is_prefix)+
  moreover have "cli_inv (tn_rq t0) (tn_cli t0) t1" using assms(4,7,10-12) by (simp add: cli_inv_def)
  ultimately show ?thesis using save_raw_buffer [OF assms(2)] assms(7) unfolding tunnel_inv_def by auto
qed

lemma inv_buffered:
  assumes "tunnel_inv t0 b0 t" "tn_c2s t = C_buffered" "net_write res"
  shows "tunnel_inv t0 b0 (c2s_buffered res t)"
proof -
  obtain v where v: "c2s_saved t v" "buffer_inv (tn_rq t0) b0 (tn_rq t) v" "out_inv (tn_rq t0) (tn_out t0) t v"
    "cli_inv (tn_rq t0) (tn_cli t0) t" using assms(1) by (auto simp: tunnel_inv_def)
  show ?thesis
  proof (cases "\<exists>b. tn_buf t = Some b \<and> b \<noteq> []")
    case True
    then obtain b where b: "tn_buf t = Some b" "b \<noteq> []" by blast
    have "tn_in t = v" using v(1) assms(2) by (simp add: c2s_saved_def)
    then show ?thesis using b assms(2,3)
      by (intro inv_save [OF v, of b _ res])
        (auto simp: c2s_buffered_def c2s_next_def tn_Write_def Let_def split: option.split)
  next
    case False
    then show ?thesis using v assms(2)
      by (auto simp: c2s_buffered_def tunnel_inv_defs split: option.splits)
  qed
qed

lemma inv_c_write:
  assumes "tunnel_inv t0 b0 t" "tn_c2s t = C_write b" "net_write res"
  shows "tunnel_inv t0 b0 (c2s_write res b t)"
proof -
  obtain v where v: "c2s_saved t v" "buffer_inv (tn_rq t0) b0 (tn_rq t) v" "out_inv (tn_rq t0) (tn_out t0) t v"
    "cli_inv (tn_rq t0) (tn_cli t0) t" using assms(1) by (auto simp: tunnel_inv_def)
  have "tn_in t = v @ b" using v(1) assms(2) by (simp add: c2s_saved_def)
  then show ?thesis using assms(2,3)
    by (intro inv_save [OF v, of b _ res]) (auto simp: c2s_write_def c2s_next_def tn_Write_def split: option.split)
qed

lemma inv_c_read:
  assumes "tunnel_inv t0 b0 t" "tn_c2s t = C_read" "net_read rd" "c2s_read C E detect start rd t = Inr t'"
  shows "tunnel_inv t0 b0 t'"
proof (cases rd)
  case (Data b)
  then show ?thesis using assms(4) by (intro tunnel_inv_c2s [OF assms(1,2), of "C_write b" b]) (auto simp: c2s_read_def)
next
  case (RdErr e)
  then have "t' = t \<or> (\<exists>w. t' = t \<lparr>tn_w := w, tn_c2s := C_done e\<rparr>) \<or> t' = t \<lparr>tn_c2s := C_done e\<rparr>"
    using assms(4) by (auto simp: c2s_read_def split: if_splits sum.splits)
  moreover have "\<not> isErrRetry (Some e)" using assms(3) RdErr by (simp add: net_read_def)
  ultimately show ?thesis using assms(1)
    by (auto intro: tunnel_inv_c2s [OF assms(1,2), of "C_done e"])
qed

lemma state_le_RecvBody: "state r0 \<le> rsSent \<Longrightarrow> state r0 \<le> rsRecvBody" "\<not> rsRecvBody \<le> rsSent"
  by (cases "state r0"; simp add: less_eq_rqState_def)+

lemma inv_s_read:
  assumes "tunnel_inv t0 b0 t" "tn_s2c t = S_read" "net_read rd" "net_write res" "s2c_read C E rd res t = Inr t'"
  shows "tunnel_inv t0 b0 t'"
proof -
  have same: "tn_rq t' = tn_rq t" "tn_c2s t' = tn_c2s t" "tn_in t' = tn_in t" "tn_out t' = tn_out t" "tn_sv t' = tn_sv t"
    using assms(5) by (cases rd; auto simp: s2c_read_def split: if_splits sum.splits)+
  have "cli_inv (tn_rq t0) (tn_cli t0) t'"
    using assms by (cases rd; cases res)
      (auto simp: tunnel_inv_def cli_inv_def s2c_read_def net_read_def net_write_def maybeFake_def split: if_splits sum.splits)
  then show ?thesis using assms(1) same c2s_saved_cong [of t' t] out_inv_cong [of t' t] by (simp add: tunnel_inv_def)
qed

lemma updateVisit_state: "updateVisit C E sv w = (sv', w') \<Longrightarrow> sv_state sv' = sv_state sv"
  by (auto simp: updateVisit_def Let_def split: if_splits)

lemma inv_s_mark:
  assumes "tunnel_inv t0 b0 t" "tn_s2c t = S_wrote" "responseNotSent (tn_rq t0)"
  shows "tunnel_inv t0 b0 (s2c_mark C E t)"
proof -
  define t1 where "t1 = s2c_mark C E t"
  have s: "tn_rq t1 = setState rsRecvBody (tn_rq t)" "tn_s2c t1 = S_read" "sv_state (tn_sv t1) \<noteq> svConnected"
      "tn_c2s t1 = tn_c2s t" "tn_in t1 = tn_in t" "tn_out t1 = tn_out t"
    by (auto simp: t1_def s2c_mark_def Let_def dest!: updateVisit_state split: prod.splits)
  have "buffer_inv (tn_rq t0) b0 (tn_rq t1) v" if "buffer_inv (tn_rq t0) b0 (tn_rq t) v" for v
    using that assms(3) state_le_RecvBody s(1)
    by (auto simp: buffer_inv_def setState_def responseNotSent_def split: option.splits)
  moreover have "raw (tn_rq t1) = raw (tn_rq t)" using s(1) by (simp add: setState_def)
  moreover have "cli_inv (tn_rq t0) (tn_cli t0) t1" using s by (simp add: cli_inv_def)
  ultimately show ?thesis using assms(1) s c2s_saved_cong [of t1 t] out_inv_cong [of t1 t] unfolding t1_def [symmetric]
    by (auto simp: tunnel_inv_def)
qed

lemma tunnel_step_inv:
  assumes "tunnel_step C E detect start t t'" "tunnel_inv t0 b0 t" "responseNotSent (tn_rq t0)"
  shows "tunnel_inv t0 b0 t'"
  using assms
proof (cases rule: tunnel_step.cases)
  case (notify e)
  then show ?thesis using assms(2) tunnel_inv_cong [of t' t] by simp
qed (use assms(2,3) in \<open>blast intro: inv_retry inv_buffered inv_c_read inv_c_write inv_s_read inv_s_mark\<close>)+

lemma tunnel_run_inv:
  assumes "(tunnel_step C E detect start)\<^sup>*\<^sup>* t0 t" "tn_c2s t0 = C_retry" "tn_s2c t0 = S_read" "tn_in t0 = []"
    "raw (tn_rq t0) = Some b0" "\<not> partial (tn_rq t0)" "responseNotSent (tn_rq t0)"
  shows "tunnel_inv t0 b0 t"
  using assms(1)
proof induction
  case base
  show ?case using assms(2-6) by (auto simp: tunnel_inv_defs buffer_inv_def)
next
  case (step t t')
  then show ?case using tunnel_step_inv assms(7) by blast
qed

section \<open>Properties\<close>

text \<open>C4: Retrying a tunnel. In every interleaving of the two goroutines, with every outcome of their
  reads and writes: as long as the client's side runs, the server has got the buffered bytes of earlier
  attempts (on a retry) and then exactly the bytes read from the client, in order; and if the tunnel ends
  asking for a retry, no byte of the server has reached the client, the request may be retried, and
  either it is partial or its buffer holds all the client's bytes of this attempt after those of earlier ones, so that the
  next attempt begins by sending all of them.\<close>

theorem tunnel_retry_complete:
  assumes "(tunnel_step C E detect start)\<^sup>*\<^sup>* t0 t" "tn_c2s t0 = C_retry" "tn_s2c t0 = S_read" "tn_in t0 = []"
    "raw (tn_rq t0) = Some b0" "\<not> partial (tn_rq t0)" "responseNotSent (tn_rq t0)" "bodyStart (tn_rq t0) \<le> length b0"
  shows "(tn_c2s t = C_read \<longrightarrow>
      tn_out t = tn_out t0 @ (if isRetry (tn_rq t0) then rawBody (tn_rq t0) else []) @ tn_in t) \<and>
    (isErrRetry (tunnel_result t) \<longrightarrow>
      tn_cli t = tn_cli t0 \<and> responseNotSent (tn_rq t) \<and>
      (raw (tn_rq t) = None \<and> partial (tn_rq t) \<or>
       raw (tn_rq t) = Some (b0 @ tn_in t) \<and> rawBody (tn_rq t) = rawBody (tn_rq t0) @ tn_in t))"
proof (intro conjI impI)
  have inv: "tunnel_inv t0 b0 t" by (rule tunnel_run_inv [OF assms(1-7)])
  then obtain v where v: "c2s_saved t v" "buffer_inv (tn_rq t0) b0 (tn_rq t) v" "out_inv (tn_rq t0) (tn_out t0) t v"
    "cli_inv (tn_rq t0) (tn_cli t0) t" by (auto simp: tunnel_inv_def)
  show "tn_out t = tn_out t0 @ (if isRetry (tn_rq t0) then rawBody (tn_rq t0) else []) @ tn_in t" if "tn_c2s t = C_read"
    using v(1,3) that by (simp add: c2s_saved_def out_inv_def Let_def)
  assume r: "isErrRetry (tunnel_result t)"
  then obtain e1 e2 where d: "tn_c2s t = C_done e1" "tn_s2c t = S_done e2" by (auto simp: tunnel_result_def split: c2s.splits s2c.splits)
  have "\<not> isErrRetry (Some e1)" "tn_in t = v" using v(1,3) d(1) by (simp_all add: out_inv_def c2s_saved_def Let_def)
  with r d have "tn_cli t = tn_cli t0 \<and> state (tn_rq t) = state (tn_rq t0)"
    using v(4) by (auto simp: cli_inv_def tunnel_result_def)
  then have s: "responseNotSent (tn_rq t)" and c: "tn_cli t = tn_cli t0" using assms(7) by (simp_all add: responseNotSent_def)
  show "tn_cli t = tn_cli t0" "responseNotSent (tn_rq t)" by fact+
  show "raw (tn_rq t) = None \<and> partial (tn_rq t) \<or>
      raw (tn_rq t) = Some (b0 @ tn_in t) \<and> rawBody (tn_rq t) = rawBody (tn_rq t0) @ tn_in t"
    using v(2) s \<open>tn_in t = v\<close> assms(5,8)
    by (auto simp: buffer_inv_def rawBody_def raw_bytes_def split: option.splits)
qed

text \<open>A \<open>CONNECT\<close> that is retried over an HTTP or a cow parent sends the buffered bytes of the
  client twice: once with the request to the parent, which includes them, and once more at the
  beginning of \<open>copyClient2Server\<close>.\<close>

theorem connect_retry_sends_twice:
  fixes P :: "('cr, 'sr, 'sw, 'e) fwd_env"
  assumes "io_writer (p_out P) written" "isMux (f_sv s)" "\<not> tunneled (f_sv s)" "isRetry (f_rq s)"
    "raw (f_rq s) = Some (b @ body)" "bodyStart (f_rq s) = length b" "reqLnStart (f_rq s) \<le> length b"
    "headStart (f_rq s) \<le> length b" "doConnect_begin P s = Some (Ok (), s1)"
  shows "tn_out (c2s_retry None (tunnel_start buf (written (f_out s1 (f_conn s))) cli s1)) =
    written (f_out s (f_conn s)) @ request_bytes (f_sv s) ((f_rq s) \<lparr>raw := Some b\<rparr>) @ body @ body"
proof -
  let ?s = "on_rq (setState rsCreated) s"
  have "sendRequestHeader P ?s = Some (Ok (), s1)"
    using assms(2,3,9) by (simp add: doConnect_begin_def sendRequestHeader_def)
  from sendRequestHeader_ok [OF assms(1) this] obtain x where x: "s1 = set_out x ?s"
      "written x = written (f_out s (f_conn s)) @ request_bytes (f_sv s) (f_rq s)" by auto
  have "request_bytes (f_sv s) (f_rq s) = request_bytes (f_sv s) ((f_rq s) \<lparr>raw := Some b\<rparr>) @ body"
    using assms(5,7,8) by (intro request_bytes_append [of _ b]) simp_all
  moreover have "f_out s1 (f_conn s) = x" using x(1) set_out_simps(1) [of x ?s] by simp
  ultimately show ?thesis using x assms(4-6)
    by (simp add: c2s_retry_def c2s_next_def tunnel_start_def isRetry_def setState_def rawBody_def raw_bytes_def)
qed

text \<open>The detection of SSL errors has no effect: its two conditions on the server's state exclude each other.\<close>

lemma ssl_detection_no_effect: "c2s_read C E detect start rd t = c2s_read C E False start rd t"
  by (cases rd) (auto simp: c2s_read_def maybeFake_def maybeSSLErr_def)

text \<open>When writing the client's buffered bytes fails, they are in the request's buffer, but the read buffer is not
  released: the next attempt sends them from both.\<close>

lemma buffered_bytes_sent_twice:
  assumes "tn_buf t = Some b" "b \<noteq> []" "raw (tn_rq t) = Some h" "bodyStart (tn_rq t) = length h" "length h < 2 * httpBufSize"
    "responseNotSent (tn_rq t)" "t' = (c2s_buffered (Some (k, e)) t) \<lparr>tn_out := []\<rparr>" "isRetry (tn_rq t')"
  shows "tn_out (c2s_buffered None (c2s_retry None t')) = b @ b"
  using assms by (simp add: c2s_buffered_def c2s_retry_def c2s_next_def tn_Write_def save_raw_def raw_write_def rawBody_def
      raw_bytes_def Let_def)

text \<open>A run: the client sends five bytes, then the direct connection is reset.\<close>

definition ex_tun :: "attempt list tun" where
  "ex_tun = \<lparr>tn_w = ex_world ex_stat2, tn_rq = (ex_post 1) \<lparr>isConnect := True\<rparr>, tn_sv = ex_sv, tn_buf = None, tn_in = [],
     tn_out = [], tn_cli = [], tn_total = 0, tn_c2s = C_retry, tn_s2c = S_read, tn_notified = False\<rparr>"

definition ex_reset :: err where
  "ex_reset = OpError ''read'' ''connection reset by peer'' False False"

lemma ex_tunnel_run:
  obtains t where "(tunnel_step ex_cfg ex_xenv False 0)\<^sup>*\<^sup>* ex_tun t" "tunnel_result t = Some (RetryError ex_reset)"
    "tn_in t = ''hello''" "raw (tn_rq t) \<noteq> None"
proof -
  let ?step = "tunnel_step ex_cfg ex_xenv False 0"
  define t1 where "t1 = c2s_buffered None (c2s_retry None ex_tun)"
  define t2 where "t2 = c2s_write None ''hello'' (t1 \<lparr>tn_in := ''hello'', tn_c2s := C_write ''hello''\<rparr>)"
  have e: "isRetry (tn_rq ex_tun) = False" "tn_buf ex_tun = None" "tn_c2s ex_tun = C_retry" "tn_s2c ex_tun = S_read"
      "tn_sv ex_tun = ex_sv" "tn_in ex_tun = []" "tn_w ex_tun = ex_world ex_stat2" "URL (tn_rq ex_tun) = ex_url"
      "raw (tn_rq ex_tun) = Some ex_head" "responseNotSent (tn_rq ex_tun)"
    by (simp_all add: ex_tun_def isRetry_def ex_post_def zeroRequest_def responseNotSent_def less_eq_rqState_def)
  have t1: "t1 = ex_tun \<lparr>tn_c2s := C_read\<rparr>" using e by (simp add: t1_def c2s_buffered_def c2s_retry_def)
  have t2: "tn_c2s t2 = C_read" "tn_s2c t2 = S_read" "tn_in t2 = ''hello''" "tn_sv t2 = ex_sv" "tn_w t2 = ex_world ex_stat2"
      "tn_rq t2 = raw_write ''hello'' (tn_rq ex_tun)"
    using e by (simp_all add: t2_def c2s_write_def c2s_next_def tn_Write_def t1 save_raw_def httpBufSize_def)
  have g: "SiteStat_get ex_stat2 ''www.example.com'' = Some (newVisitCnt 0 3 0)"
    by (simp add: ex_stat2_def SiteStat_get_def)
  have bl: "maybeBlocked (c_HttpErrorCode ex_cfg) (parentEmpty (tn_w t2)) ex_reset"
    using t2(5) by (simp add: maybeBlocked_def ex_world_def parentEmpty_def Pool_empty_def ex_reset_def connreset_text_def Contains_def)
  obtain w where w: "w_TempBlocked ex_xenv (URL (tn_rq t2)) (tn_w t2) = Inr w"
    using g e(8) t2(5,6) by (simp add: w_TempBlocked_def TempBlocked_def ex_url_fields ex_world_def Let_def raw_write_def)
  define t3 where "t3 = t2 \<lparr>tn_w := w, tn_s2c := S_done (RetryError ex_reset)\<rparr>"
  have "?step ex_tun (c2s_retry None ex_tun)" using e by (intro tunnel_step.retry) (simp_all add: net_write_def)
  moreover have "?step (c2s_retry None ex_tun) t1"
    unfolding t1_def using e by (intro tunnel_step.buffered) (simp_all add: net_write_def c2s_retry_def)
  moreover have "?step t1 (t1 \<lparr>tn_in := ''hello'', tn_c2s := C_write ''hello''\<rparr>)"
    using e by (intro tunnel_step.c_read [where rd = "Data ''hello''"]) (simp_all add: t1 net_read_def c2s_read_def)
  moreover have "?step (t1 \<lparr>tn_in := ''hello'', tn_c2s := C_write ''hello''\<rparr>) t2"
    unfolding t2_def by (intro tunnel_step.c_write) (simp_all add: net_write_def)
  moreover have "?step t2 t3"
    using t2 bl w ex_sv_safe(2)
    by (intro tunnel_step.s_read [where rd = "RdErr ex_reset" and res = None])
      (simp_all add: t3_def net_read_def net_write_def s2c_read_def ex_reset_def ex_world_def)
  moreover have "?step t3 (t3 \<lparr>tn_c2s := C_done EOF\<rparr>)"
    using t2 by (intro tunnel_step.c_read [where rd = "RdErr EOF"]) (simp_all add: t3_def net_read_def c2s_read_def)
  ultimately have "?step\<^sup>*\<^sup>* ex_tun (t3 \<lparr>tn_c2s := C_done EOF\<rparr>)" by (meson converse_rtranclp_into_rtranclp rtranclp.rtrancl_refl)
  then show thesis using that [of "t3 \<lparr>tn_c2s := C_done EOF\<rparr>"] t2 e(9)
    by (simp add: t3_def tunnel_result_def raw_write_def)
qed

theorem tunnel_retry_complete_witness:
  "\<exists>t. (tunnel_step ex_cfg ex_xenv False 0)\<^sup>*\<^sup>* ex_tun t \<and> isErrRetry (tunnel_result t) \<and>
     tn_cli t = [] \<and> raw (tn_rq t) = Some (ex_head @ ''hello'')"
proof -
  obtain t where t: "(tunnel_step ex_cfg ex_xenv False 0)\<^sup>*\<^sup>* ex_tun t" "tunnel_result t = Some (RetryError ex_reset)"
    "tn_in t = ''hello''" "raw (tn_rq t) \<noteq> None" by (rule ex_tunnel_run)
  have e: "tn_c2s ex_tun = C_retry" "tn_s2c ex_tun = S_read" "tn_in ex_tun = []" "raw (tn_rq ex_tun) = Some ex_head"
      "\<not> partial (tn_rq ex_tun)" "responseNotSent (tn_rq ex_tun)" "bodyStart (tn_rq ex_tun) \<le> length ex_head"
      "tn_cli ex_tun = []"
    by (simp_all add: ex_tun_def ex_post_def zeroRequest_def responseNotSent_def less_eq_rqState_def)
  from tunnel_retry_complete [OF t(1) e(1-7)] t e(8) show ?thesis by auto
qed

text \<open>The parent proxy of a retried \<open>CONNECT\<close> gets the client's five bytes twice.\<close>

theorem connect_retry_sends_twice_witness:
  "\<exists>s s1. isMux (f_sv s) \<and> isRetry (f_rq s) \<and> doConnect_begin (ex_fwd_env buffer_write) s = Some (Ok (), s1) \<and>
     f_out s (f_conn s) = [] \<and>
     tn_out (c2s_retry None (tunnel_start None (f_out s1 (f_conn s)) [] s1)) = ex_head @ ''hellohello''"
proof -
  let ?P = "ex_fwd_env buffer_write"
  let ?r = "(ex_post 2) \<lparr>isConnect := True, raw := Some (ex_head @ ''hello''), headStart := 0\<rparr>"
  define s where "s = (ex_fwd [] [] ([] :: bytes) ?r)
    \<lparr>f_sv := newServerConn (httpConn 1 (httpParent ''p:80'' [] None)) ''p:80'' (SiteRef ''www.example.com'')\<rparr>"
  have s: "f_rq s = ?r" "isMux (f_sv s)" "\<not> tunneled (f_sv s)" "isRetry (f_rq s)" "f_out s (f_conn s) = []"
      "authHeader (sv_Conn (f_sv s)) = None"
    by (simp_all add: s_def ex_fwd_def newServerConn_def isMux_def isRetry_def authHeader_def)
  obtain s1 where s1: "doConnect_begin ?P s = Some (Ok (), s1)"
    using sendRequestHeader_returns [of ?P "\<lambda>w. w" "on_rq (setState rsCreated) s"] s(2,3) buffer.reliable_writer_axioms
    by (auto simp: doConnect_begin_def sendRequestHeader_def)
  have w: "io_writer (p_out ?P) (\<lambda>w. w)" using buffer.io_writer_axioms by simp
  have "request_bytes (f_sv s) ((f_rq s) \<lparr>raw := Some ex_head\<rparr>) = ex_head"
    using s by (simp add: request_bytes_def proxyRequestLine_def rawHeaderBody_def raw_bytes_def)
  then have "tn_out (c2s_retry None (tunnel_start None (f_out s1 (f_conn s)) [] s1)) = ex_head @ ''hellohello''"
    using connect_retry_sends_twice [OF w s(2-4), of ex_head "''hello''" s1 None "[]"] s s1
    by (simp add: ex_post_def zeroRequest_def)
  then show ?thesis using s s1 by blast
qed

end
