(* ===== verification/Listen.thy ===== *)
theory Listen
  imports Net_Addr Util
begin

text \<open>
  The listening proxies of proxy.go and socks.go: their addresses and configuration lines, the merging
  of an HTTP and a SOCKS5 proxy on the same port into one that serves both, the URL of the PAC file,
  and the addresses under which the proxy itself is meant. Accepting connections is the subject of \<open>Lifecycle\<close>.
\<close>

section \<open>Listening proxies\<close>

record httpProxy =
  hx_addr :: bytes
  hx_port :: bytes
  hx_addrInPAC :: bytes

datatype listen_proxy =
    HttpProxy httpProxy
  | CowProxy bytes bytes bytes
  | SocksProxy bytes
  | MixedProxy bytes httpProxy bytes

text \<open>\<open>newHttpProxy\<close> panics on an address without a port.\<close>

definition newHttpProxy :: "bytes \<Rightarrow> bytes \<Rightarrow> httpProxy may_panic" where
  "newHttpProxy addr addrInPAC =
     (case SplitHostPort addr of
        None \<Rightarrow> Inl ''proxy addr''
      | Some (host, port) \<Rightarrow> Inr \<lparr>hx_addr = addr, hx_port = port, hx_addrInPAC = addrInPAC\<rparr>)"

definition newMixedProxy :: "httpProxy \<Rightarrow> bytes \<Rightarrow> bytes \<Rightarrow> listen_proxy" where
  "newMixedProxy http socks addr = MixedProxy addr http socks"

definition http_genConfig :: "httpProxy \<Rightarrow> bytes" where
  "http_genConfig p =
     (if hx_addrInPAC p \<noteq> [] then ''listen = http://'' @ hx_addr p @ '' '' @ hx_addrInPAC p
      else ''listen = http://'' @ hx_addr p)"

fun genConfig :: "listen_proxy \<Rightarrow> bytes" where
  "genConfig (HttpProxy p) = http_genConfig p"
| "genConfig (CowProxy addr meth passwd) =
     ''listen = cow://'' @ (if meth = [] then ''table'' else meth) @ '':'' @ passwd @ ''@'' @ addr"
| "genConfig (SocksProxy addr) = ''listen = socks5://'' @ addr"
| "genConfig (MixedProxy addr http socks) = http_genConfig http"

fun Addr :: "listen_proxy \<Rightarrow> bytes" where
  "Addr (HttpProxy p) = hx_addr p"
| "Addr (CowProxy addr meth passwd) = addr"
| "Addr (SocksProxy addr) = addr"
| "Addr (MixedProxy addr http socks) = addr"

definition pacURLForProxy :: "bytes \<Rightarrow> bytes \<Rightarrow> bytes \<Rightarrow> bytes" where
  "pacURLForProxy addr port addrInPAC =
     (case SplitHostPort addr of
        None \<Rightarrow> []
      | Some (host, _) \<Rightarrow>
          (if host = [] \<or> host = ''0.0.0.0'' then ''http://<hostip>:'' @ port @ ''/pac''
           else if addrInPAC = [] then ''http://'' @ addr @ ''/pac''
           else ''http://'' @ addrInPAC @ ''/pac''))"

section \<open>Merging\<close>

definition normalizeListenHost :: "bytes \<Rightarrow> bytes" where
  "normalizeListenHost host =
     (if host = [] then ''0.0.0.0'' else if host = ''localhost'' then ''127.0.0.1'' else host)"

definition isWildcardListenHost :: "bytes \<Rightarrow> bool" where
  "isWildcardListenHost host \<longleftrightarrow> normalizeListenHost host = ''0.0.0.0''"

definition mixedListenAddr :: "bytes \<Rightarrow> bytes \<Rightarrow> bytes option" where
  "mixedListenAddr httpAddr socksAddr =
     (case SplitHostPort httpAddr of
        None \<Rightarrow> None
      | Some (httpHost0, httpPort) \<Rightarrow>
          (case SplitHostPort socksAddr of
             None \<Rightarrow> None
           | Some (socksHost0, socksPort) \<Rightarrow>
               (if httpPort \<noteq> socksPort then None
                else
                  (let httpHost = normalizeListenHost httpHost0; socksHost = normalizeListenHost socksHost0
                   in if httpHost = socksHost then Some (JoinHostPort httpHost httpPort)
                      else if isWildcardListenHost httpHost then Some (JoinHostPort httpHost httpPort)
                      else if isWildcardListenHost socksHost then Some (JoinHostPort socksHost httpPort)
                      else None))))"

text \<open>The first unused SOCKS5 (HTTP) proxy that can share the address, with its index.\<close>

fun matchSocksProxy :: "httpProxy \<Rightarrow> listen_proxy list \<Rightarrow> bool list \<Rightarrow> nat \<Rightarrow> (listen_proxy \<times> nat) option" where
  "matchSocksProxy http [] used i = None"
| "matchSocksProxy http (p # ps) used i =
     (if used ! i then matchSocksProxy http ps used (Suc i)
      else
        (case p of
           SocksProxy saddr \<Rightarrow>
             (case mixedListenAddr (hx_addr http) saddr of
                Some addr \<Rightarrow> Some (newMixedProxy http saddr addr, i)
              | None \<Rightarrow> matchSocksProxy http ps used (Suc i))
         | _ \<Rightarrow> matchSocksProxy http ps used (Suc i)))"

fun matchHTTPProxy :: "bytes \<Rightarrow> listen_proxy list \<Rightarrow> bool list \<Rightarrow> nat \<Rightarrow> (listen_proxy \<times> nat) option" where
  "matchHTTPProxy saddr [] used i = None"
| "matchHTTPProxy saddr (p # ps) used i =
     (if used ! i then matchHTTPProxy saddr ps used (Suc i)
      else
        (case p of
           HttpProxy http \<Rightarrow>
             (case mixedListenAddr (hx_addr http) saddr of
                Some addr \<Rightarrow> Some (newMixedProxy http saddr addr, i)
              | None \<Rightarrow> matchHTTPProxy saddr ps used (Suc i))
         | _ \<Rightarrow> matchHTTPProxy saddr ps used (Suc i)))"

text \<open>The loop over the proxies: \<open>all\<close> is the whole list, the argument its rest from index \<open>i\<close> on.\<close>

fun merge_loop ::
    "listen_proxy list \<Rightarrow> listen_proxy list \<Rightarrow> nat \<Rightarrow> bool list \<Rightarrow> listen_proxy list \<Rightarrow> listen_proxy list" where
  "merge_loop all [] i used merged = merged"
| "merge_loop all (p # ps) i used merged =
     (if used ! i then merge_loop all ps (Suc i) used merged
      else
        (case (case p of
                 HttpProxy http \<Rightarrow> matchSocksProxy http all used 0
               | SocksProxy saddr \<Rightarrow> matchHTTPProxy saddr all used 0
               | _ \<Rightarrow> None) of
           Some (mp, idx) \<Rightarrow> merge_loop all ps (Suc i) (used[idx := True]) (merged @ [mp])
         | None \<Rightarrow> merge_loop all ps (Suc i) used (merged @ [p])))"

definition mergeListenProxies :: "listen_proxy list \<Rightarrow> listen_proxy list" where
  "mergeListenProxies proxies = merge_loop proxies proxies 0 (replicate (length proxies) False) []"

section \<open>The proxy's own addresses\<close>

text \<open>\<open>hostAddr\<close> is what \<open>hostAddr()\<close> returns, the addresses of the machine.\<close>

fun selfAddrs :: "bytes list \<Rightarrow> listen_proxy list \<Rightarrow> bytes list may_panic" where
  "selfAddrs hostAddr [] = Inr []"
| "selfAddrs hostAddr (p # ps) =
     (let addr = Addr p in
      if addr = [] then Inl ''index out of range''
      else
        (case (if hd addr = CHR '':'' \<or> prefix ''0.0.0.0'' addr then Inr (hostAddr @ [''localhost''])
               else
                 (case SplitHostPort addr of
                    None \<Rightarrow> Inl (''listen addr invalid: '' @ addr)
                  | Some (host, _) \<Rightarrow>
                      Inr (host # (if host = ''127.0.0.1'' then [''localhost'']
                                   else if host = ''localhost'' then [''127.0.0.1''] else [])))) of
           Inl e \<Rightarrow> Inl e
         | Inr own \<Rightarrow> (case selfAddrs hostAddr ps of Inl e \<Rightarrow> Inl e | Inr rest \<Rightarrow> Inr (own @ rest))))"

definition initSelfListenAddr :: "bytes list \<Rightarrow> listen_proxy list \<Rightarrow> bytes list may_panic" where
  "initSelfListenAddr hostAddr ps =
     (case selfAddrs hostAddr ps of Inl e \<Rightarrow> Inl e | Inr as \<Rightarrow> Inr ([] # as))"

section \<open>Every listener is still served\<close>

text \<open>
  \<open>serves q p\<close>: the listener \<open>q\<close> does what \<open>p\<close> was configured for, because it is \<open>p\<close> or a
  mixed proxy with \<open>p\<close> as one of its parts.
\<close>

definition serves :: "listen_proxy \<Rightarrow> listen_proxy \<Rightarrow> bool" where
  "serves q p \<longleftrightarrow> q = p \<or>
     (case q of
        MixedProxy addr http saddr \<Rightarrow>
          mixedListenAddr (hx_addr http) saddr = Some addr \<and> (p = HttpProxy http \<or> p = SocksProxy saddr)
      | _ \<Rightarrow> False)"

lemma matchSocksProxy_Some:
  "matchSocksProxy http ps used i = Some (mp, idx) \<Longrightarrow>
   \<exists>x. i \<le> idx \<and> idx < i + length ps \<and> ps ! (idx - i) = SocksProxy x \<and> serves mp (HttpProxy http) \<and> serves mp (SocksProxy x)"
proof (induction ps arbitrary: i)
  case (Cons p ps)
  consider (here) x where "p = SocksProxy x" "serves mp (HttpProxy http)" "serves mp (SocksProxy x)" "idx = i"
    | (later) "matchSocksProxy http ps used (Suc i) = Some (mp, idx)"
    using Cons.prems
    by (auto simp: serves_def newMixedProxy_def split: if_splits listen_proxy.splits option.splits)
  then show ?case
  proof cases
    case later
    show ?thesis using Cons.IH [OF later] by (auto simp: nth_Cons' Suc_le_eq)
  qed simp
qed simp

lemma matchHTTPProxy_Some:
  "matchHTTPProxy saddr ps used i = Some (mp, idx) \<Longrightarrow>
   \<exists>x. i \<le> idx \<and> idx < i + length ps \<and> ps ! (idx - i) = HttpProxy x \<and> serves mp (SocksProxy saddr) \<and> serves mp (HttpProxy x)"
proof (induction ps arbitrary: i)
  case (Cons p ps)
  consider (here) x where "p = HttpProxy x" "serves mp (SocksProxy saddr)" "serves mp (HttpProxy x)" "idx = i"
    | (later) "matchHTTPProxy saddr ps used (Suc i) = Some (mp, idx)"
    using Cons.prems
    by (auto simp: serves_def newMixedProxy_def split: if_splits listen_proxy.splits option.splits)
  then show ?case
  proof cases
    case later
    show ?thesis using Cons.IH [OF later] by (auto simp: nth_Cons' Suc_le_eq)
  qed simp
qed simp

text \<open>What the loop keeps: the proxies before index \<open>i\<close> and those marked as used are served.\<close>

definition merge_inv :: "listen_proxy list \<Rightarrow> nat \<Rightarrow> bool list \<Rightarrow> listen_proxy list \<Rightarrow> bool" where
  "merge_inv all i used merged \<longleftrightarrow> length used = length all \<and>
     (\<forall>j < length all. j < i \<or> used ! j \<longrightarrow> (\<exists>q \<in> set merged. serves q (all ! j))) \<and>
     (\<forall>q \<in> set merged. \<exists>p \<in> set all. serves q p)"

lemma merge_inv_skip: "merge_inv all i used merged \<Longrightarrow> used ! i \<Longrightarrow> merge_inv all (Suc i) used merged"
  by (auto simp: merge_inv_def less_Suc_eq)

lemma merge_inv_keep:
  "merge_inv all i used merged \<Longrightarrow> i < length all \<Longrightarrow> merge_inv all (Suc i) used (merged @ [all ! i])"
  by (auto simp: merge_inv_def less_Suc_eq serves_def)

lemma merge_inv_merge:
  assumes "merge_inv all i used merged" "i < length all" "idx < length all" "serves mp (all ! i)" "serves mp (all ! idx)"
  shows "merge_inv all (Suc i) (used[idx := True]) (merged @ [mp])"
  using assms nth_mem [OF assms(2)] by (auto simp: merge_inv_def less_Suc_eq nth_list_update split: if_splits)

lemma merge_loop_inv:
  "all = pre @ ps \<Longrightarrow> merge_inv all (length pre) used merged \<Longrightarrow>
   \<exists>used'. merge_inv all (length all) used' (merge_loop all ps (length pre) used merged)"
proof (induction ps arbitrary: pre used merged)
  case Nil
  then show ?case by auto
next
  case (Cons p ps)
  have p: "all ! length pre = p" "length pre < length all" using Cons.prems(1) by simp_all
  define m where "m = (case p of HttpProxy http \<Rightarrow> matchSocksProxy http all used 0
    | SocksProxy saddr \<Rightarrow> matchHTTPProxy saddr all used 0 | _ \<Rightarrow> None)"
  have IH: "\<exists>used'. merge_inv all (length all) used' (merge_loop all ps (Suc (length pre)) u v)"
    if "merge_inv all (Suc (length pre)) u v" for u v
    using Cons.IH [of "pre @ [p]" u v] Cons.prems(1) that by simp
  show ?case
  proof (cases "used ! length pre")
    case True
    then show ?thesis using IH [OF merge_inv_skip [OF Cons.prems(2)]] by simp
  next
    case unused: False
    show ?thesis
    proof (cases m)
      case None
      then show ?thesis using IH [OF merge_inv_keep [OF Cons.prems(2) p(2)]] p(1) unused by (simp flip: m_def)
    next
      case (Some r)
      obtain mp idx where r: "r = (mp, idx)" by fastforce
      have "idx < length all \<and> serves mp p \<and> serves mp (all ! idx)"
        using Some r by (auto simp: m_def dest!: matchSocksProxy_Some matchHTTPProxy_Some split: listen_proxy.splits)
      then have "merge_inv all (Suc (length pre)) (used[idx := True]) (merged @ [mp])"
        using merge_inv_merge [OF Cons.prems(2) p(2)] p(1) by simp
      then show ?thesis using IH Some r unused by (simp flip: m_def)
    qed
  qed
qed

text \<open>A mixed address has the port of both, and a host that covers both hosts.\<close>

lemma mixedListenAddr_covers:
  assumes "mixedListenAddr ha sa = Some a"
  shows "\<exists>hh sh port host. SplitHostPort ha = Some (hh, port) \<and> SplitHostPort sa = Some (sh, port) \<and>
    a = JoinHostPort host port \<and>
    (isWildcardListenHost host \<or> host = normalizeListenHost hh \<and> host = normalizeListenHost sh)"
  using assms by (auto simp: mixedListenAddr_def Let_def split: option.splits if_splits) blast+


text \<open>
  A proxy that was merged is not marked as used itself: with one HTTP proxy on all hosts and two SOCKS5 proxies on
  different hosts of that port, two mixed proxies listen on the same address.
\<close>

definition ex_http :: httpProxy where
  "ex_http = \<lparr>hx_addr = ''0.0.0.0:7777'', hx_port = ''7777'', hx_addrInPAC = []\<rparr>"

lemma merge_same_address_twice:
  "map Addr (mergeListenProxies [HttpProxy ex_http, SocksProxy ''127.0.0.1:7777'', SocksProxy ''10.0.0.1:7777'']) =
     [''0.0.0.0:7777'', ''0.0.0.0:7777'']"
  by code_simp


end
