(* ===== verification/Config.thy ===== *)
theory Config
  imports Listen Parent_Pools Net_IO Auth
begin

text \<open>
  config.go: the options, the parsers of parent proxies and listening addresses, the dispatch of a
  configuration line on its key, the override by the command line, the final checks, and the
  rewriting of old configuration files.

  The state \<open>conf\<close> holds the global variables. A parser returns the new state; \<open>Fail\<close> is \<open>Fatal\<close>,
  which ends the program with a message, \<open>Panic\<close> a panic. The environment \<open>conf_env\<close> stands for
  \<open>time.ParseDuration\<close>, for the file system and the home directory, and for the construction of ciphers by the
  shadowsocks library. Reading the configuration file and the command line flags is left to the
  caller: a file is the list of its lines.
\<close>

section \<open>Options\<close>

record Config =
  cf_RcFile :: bytes
  cf_LogFile :: bytes
  cf_Capture :: bool
  cf_CaptureDir :: bytes
  cf_CaptureDomainFile :: bytes
  cf_Plugin :: bytes
  cf_PluginDBFile :: bytes
  cf_AlwaysProxy :: bool
  cf_LoadBalance :: LoadBalanceMode
  cf_TunnelAllowedPort :: "bytes list"
  cf_SshServer :: "bytes list"
  cf_UserPasswd :: bytes
  cf_UserPasswdFile :: bytes
  cf_AllowedClient :: bytes
  cf_AuthTimeout :: duration
  cf_DialTimeout :: duration
  cf_ReadTimeout :: duration
  cf_TunnelTimeout :: duration
  cf_Socks5UDPTimeout :: duration
  cf_Core :: int
  cf_DetectSSLErr :: bool
  cf_HttpErrorCode :: int
  cf_dir :: bytes
  cf_StatFile :: bytes
  cf_BlockedFile :: bytes
  cf_DirectFile :: bytes
  cf_EstimateTimeout :: bool
  cf_EstimateTarget :: bytes
  cf_saveReqLine :: bool

text \<open>
  The variables \<open>http\<close> and \<open>shadow\<close>, which pair options given on separate lines. A pointer to a parent is its
  index in the pool.
\<close>

record http_state =
  ht_parent :: nat
  ht_serverCnt :: int
  ht_passwdCnt :: int

record shadow_state =
  sh_parent :: "nat option"
  sh_passwd :: bytes
  sh_method :: bytes
  sh_serverCnt :: int
  sh_passwdCnt :: int
  sh_methodCnt :: int

text \<open>\<open>cs_parents\<close> is \<open>parentProxy\<close>, at first a backup pool, \<open>cs_hpool\<close> the members of \<open>parentHTTPPool\<close>.\<close>

record conf =
  cs_config :: Config
  cs_listen :: "listen_proxy list"
  cs_parents :: "ParentWithFail list"
  cs_hpool :: "nat list"
  cs_http :: http_state
  cs_shadow :: shadow_state
  cs_needUpgrade :: bool
  cs_cmdHasListenAddr :: bool

record conf_env =
  ce_ParseDuration :: "bytes \<Rightarrow> err + duration"
  ce_home :: bytes
  ce_Join :: "bytes \<Rightarrow> bytes \<Rightarrow> bytes"
  ce_isFileExists :: "bytes \<Rightarrow> err option"
  ce_NewCipher :: "bytes \<Rightarrow> bytes \<Rightarrow> err option"

definition Fatal :: "bytes \<Rightarrow> 'a outcome" where
  "Fatal msg = Fail (ErrorString msg)"

definition conf_then :: "'a outcome \<Rightarrow> ('a \<Rightarrow> 'b outcome) \<Rightarrow> 'b outcome" where
  "conf_then x f = (case x of Ok a \<Rightarrow> f a | Fail e \<Rightarrow> Fail e | Panic p \<Rightarrow> Panic p)"

definition on_config :: "(Config \<Rightarrow> Config) \<Rightarrow> conf \<Rightarrow> conf" where
  "on_config f s = s \<lparr>cs_config := f (cs_config s)\<rparr>"

definition expandTilde :: "conf_env \<Rightarrow> bytes \<Rightarrow> bytes" where
  "expandTilde E pth = (if 0 < length pth \<and> hd pth = CHR ''~'' then ce_Join E (ce_home E) (tl pth) else pth)"

section \<open>Values\<close>

definition parseBool :: "bytes \<Rightarrow> bytes \<Rightarrow> bool outcome" where
  "parseBool v msg =
     (if v = ''true'' then Ok True else if v = ''false'' then Ok False
      else Fatal (msg @ '' should be true or false''))"

definition parseInt :: "bytes \<Rightarrow> bytes \<Rightarrow> int outcome" where
  "parseInt val msg = (case Atoi val of Some i \<Rightarrow> Ok i | None \<Rightarrow> Fatal (msg @ '' should be an integer''))"

definition parseDuration :: "conf_env \<Rightarrow> bytes \<Rightarrow> bytes \<Rightarrow> duration outcome" where
  "parseDuration E val msg =
     (case ce_ParseDuration E val of Inr d \<Rightarrow> Ok d | Inl e \<Rightarrow> Fatal (msg @ '' '' @ err_Error e))"

definition checkServerAddr :: "bytes \<Rightarrow> bool" where
  "checkServerAddr addr \<longleftrightarrow> SplitHostPort addr \<noteq> None"

definition invalid_server :: "bytes \<Rightarrow> err" where
  "invalid_server addr = ErrorString (''invalid server address '' @ addr)"

definition normalizeServerAddr :: "bytes \<Rightarrow> err + bytes" where
  "normalizeServerAddr addr =
     (if checkServerAddr addr then Inr addr
      else
        (case LastIndexByte addr (CHR '':'') of
           None \<Rightarrow> Inl (invalid_server addr)
         | Some i \<Rightarrow>
             (if i = 0 \<or> i = length addr - 1 then Inl (invalid_server addr)
              else
                (let host = take i addr; port = drop (i + 1) addr
                 in case Atoi port of
                      None \<Rightarrow> Inl (invalid_server addr)
                    | Some n \<Rightarrow>
                        (if n < 1 \<or> 65535 < n then Inl (invalid_server addr)
                         else
                           (let ipHost = (case LastIndexByte host (CHR ''%'') of None \<Rightarrow> host | Some z \<Rightarrow> take z host)
                            in if ParseIP ipHost = None then Inl (invalid_server addr)
                               else Inr (JoinHostPort host port)))))))"

definition isUserPasswdValid :: "bytes \<Rightarrow> bool" where
  "isUserPasswdValid val =
     (let arr = SplitN val '':'' 2
      in if length arr \<noteq> 2 \<or> arr ! 0 = [] \<or> arr ! 1 = [] then False else True)"

section \<open>Parent proxies\<close>

definition add_parent :: "ParentProxy \<Rightarrow> conf \<Rightarrow> conf" where
  "add_parent p s = s \<lparr>cs_parents := Pool_add p (cs_parents s)\<rparr>"

definition parseSocksParent :: "bytes \<Rightarrow> err + (bytes \<times> bytes \<times> bytes)" where
  "parseSocksParent val0 =
     (let val = TrimPrefix (TrimPrefix val0 ''socks5://'') ''sock5://''
      in case LastIndexByte val (CHR ''@'') of
           None \<Rightarrow> (case normalizeServerAddr val of Inl e \<Rightarrow> Inl e | Inr server \<Rightarrow> Inr (server, [], []))
         | Some i \<Rightarrow>
             (let credentials = SplitN (take i val) '':'' 2
              in if length credentials \<noteq> 2 \<or> credentials ! 0 = [] \<or> credentials ! 1 = []
                 then Inl (ErrorString ''SOCKS5 authentication must be user:password@server:port'')
                 else if 255 < length (credentials ! 0) \<or> 255 < length (credentials ! 1)
                 then Inl (ErrorString ''SOCKS5 username and password must be at most 255 bytes'')
                 else
                   (case normalizeServerAddr (drop (i + 1) val) of
                      Inl e \<Rightarrow> Inl e
                    | Inr server \<Rightarrow> Inr (server, credentials ! 0, credentials ! 1))))"

definition ProxySocks5 :: "bytes \<Rightarrow> conf \<Rightarrow> conf outcome" where
  "ProxySocks5 val s =
     (case parseSocksParent val of
        Inl e \<Rightarrow> Fatal (''parent socks server '' @ err_Error e)
      | Inr (server, username, password) \<Rightarrow> Ok (add_parent (socksParent server username password) s))"

definition headerProxyAuthorization :: bytes where
  "headerProxyAuthorization = ''proxy-authorization''"

fun httpParent_initAuth :: "bytes \<Rightarrow> ParentProxy \<Rightarrow> ParentProxy" where
  "httpParent_initAuth userPasswd (httpParent server up ah) =
     (if userPasswd = [] then httpParent server up ah
      else httpParent server userPasswd
             (Some (headerProxyAuthorization @ '': Basic '' @ b64_encode userPasswd @ CRLF)))"
| "httpParent_initAuth userPasswd p = p"

text \<open>Adding an HTTP parent to both pools.\<close>

definition add_http_parent :: "ParentProxy \<Rightarrow> conf \<Rightarrow> conf" where
  "add_http_parent p s =
     add_parent p (s \<lparr>cs_hpool := cs_hpool s @ [length (cs_parents s)],
                      cs_config := (cs_config s) \<lparr>cf_saveReqLine := True\<rparr>\<rparr>)"

definition ProxyHttp :: "bytes \<Rightarrow> conf \<Rightarrow> conf outcome" where
  "ProxyHttp val s =
     (let arr = Split val ''@'' in
      if 2 < length arr then Fatal (''http parent proxy contains more than one @: '' @ val)
      else
        (let userPasswd = (if length arr = 1 then [] else arr ! 0);
             server = (if length arr = 1 then arr ! 0 else arr ! 1)
         in if \<not> checkServerAddr server then Fatal ''parent http server''
            else Ok (add_http_parent (httpParent_initAuth userPasswd (httpParent server [] None)) s)))"

definition parseMethodPasswdServer :: "bytes \<Rightarrow> err + (bytes \<times> bytes \<times> bytes)" where
  "parseMethodPasswdServer val =
     (case LastIndexByte val (CHR ''@'') of
        None \<Rightarrow> Inl (ErrorString ''requires both encrypt method and password'')
      | Some idx \<Rightarrow>
          (let methodPasswd = take idx val; server = drop (idx + 1) val
           in if \<not> checkServerAddr server then Inl (ErrorString ''missing port in address'')
              else
                (let arr = SplitN methodPasswd '':'' 2
                 in if length arr \<noteq> 2 then Inl (ErrorString ''method and password should be separated by :'')
                    else Inr (arr ! 0, arr ! 1, server))))"

definition ProxySs :: "conf_env \<Rightarrow> bytes \<Rightarrow> conf \<Rightarrow> conf outcome" where
  "ProxySs E val s =
     (case parseMethodPasswdServer val of
        Inl e \<Rightarrow> Fatal (''shadowsocks parent '' @ err_Error e)
      | Inr (meth, pw, server) \<Rightarrow>
          (case ce_NewCipher E meth pw of
             Some e \<Rightarrow> Fatal (''create shadowsocks cipher: '' @ err_Error e)
           | None \<Rightarrow> Ok (add_parent (shadowsocksParent server meth pw) s)))"

definition ProxyCow :: "conf_env \<Rightarrow> bytes \<Rightarrow> conf \<Rightarrow> conf outcome" where
  "ProxyCow E val s =
     (case parseMethodPasswdServer val of
        Inl e \<Rightarrow> Fatal (''cow parent '' @ err_Error e)
      | Inr (meth, pw, server) \<Rightarrow>
          (if \<not> checkServerAddr server then Fatal ''parent cow server''
           else
             (case ce_NewCipher E meth pw of
                Some e \<Rightarrow> Fatal (''create cow cipher: '' @ err_Error e)
              | None \<Rightarrow>
                  Ok (add_parent (cowParent server meth pw)
                        (on_config (\<lambda>c. c \<lparr>cf_saveReqLine := True\<rparr>) s)))))"

definition normalizeProxyProtocol :: "bytes \<Rightarrow> bytes" where
  "normalizeProxyProtocol protocol = (if protocol = ''sock5'' then ''socks5'' else protocol)"

text \<open>The name with its first letter in upper case, which selects the method; an empty name panics.\<close>

definition method_name :: "bytes \<Rightarrow> bytes outcome" where
  "method_name key =
     (if key = [] then Panic ''slice bounds out of range'' else Ok (upper_byte (hd key) # tl key))"

definition proxyParser :: "conf_env \<Rightarrow> bytes \<Rightarrow> (bytes \<Rightarrow> conf \<Rightarrow> conf outcome) option" where
  "proxyParser E name =
     map_of [(''Socks5'', ProxySocks5), (''Http'', ProxyHttp), (''Ss'', ProxySs E), (''Cow'', ProxyCow E)] name"

definition ParseProxy :: "conf_env \<Rightarrow> bytes \<Rightarrow> conf \<Rightarrow> conf outcome" where
  "ParseProxy E val s =
     (let arr = Split val ''://'' in
      if length arr \<noteq> 2 then Fatal (''proxy has no protocol specified: '' @ val)
      else
        conf_then (method_name (normalizeProxyProtocol (arr ! 0)))
          (\<lambda>name. case proxyParser E name of
             None \<Rightarrow> Fatal (''no such protocol '' @ arr ! 0)
           | Some p \<Rightarrow> p (arr ! 1) s))"

section \<open>Listening addresses\<close>

text \<open>\<open>strings.Fields\<close>: the maximal pieces without white space.\<close>

fun fields_scan :: "nat \<Rightarrow> bytes \<Rightarrow> bytes \<Rightarrow> bytes list" where
  "fields_scan 0 cur s = (if cur = [] then [] else [cur])"
| "fields_scan (Suc n) cur s =
     (if s = [] then (if cur = [] then [] else [cur])
      else
        (case find (\<lambda>e. prefix e s) space_encodings of
           Some e \<Rightarrow> (if cur = [] then [] else [cur]) @ fields_scan n [] (drop (length e) s)
         | None \<Rightarrow> fields_scan n (cur @ [hd s]) (tl s)))"

definition Fields :: "bytes \<Rightarrow> bytes list" where
  "Fields s = fields_scan (Suc (length s)) [] s"

definition addListenProxy :: "listen_proxy \<Rightarrow> conf \<Rightarrow> conf" where
  "addListenProxy p s = s \<lparr>cs_listen := cs_listen s @ [p]\<rparr>"

definition ListenHttp :: "bytes \<Rightarrow> conf \<Rightarrow> conf outcome" where
  "ListenHttp val s =
     (if cs_cmdHasListenAddr s then Ok s
      else
        (let arr = Fields val in
         if 2 < length arr then Fatal (''too many fields in listen = http:// '' @ val)
         else if arr = [] then Panic ''index out of range''
         else
           (let addr = arr ! 0; addrInPAC = (if length arr = 2 then arr ! 1 else [])
            in if \<not> checkServerAddr addr then Fatal ''listen http server''
               else (case newHttpProxy addr addrInPAC of
                       Inl p \<Rightarrow> Panic p | Inr h \<Rightarrow> Ok (addListenProxy (HttpProxy h) s)))))"

definition ListenCow :: "conf_env \<Rightarrow> bytes \<Rightarrow> conf \<Rightarrow> conf outcome" where
  "ListenCow E val s =
     (if cs_cmdHasListenAddr s then Ok s
      else
        (case parseMethodPasswdServer val of
           Inl e \<Rightarrow> Fatal (''listen cow '' @ err_Error e)
         | Inr (meth, pw, addr) \<Rightarrow>
             (case ce_NewCipher E meth pw of
                Some e \<Rightarrow> Fatal (''can't initialize cow proxy server '' @ err_Error e)
              | None \<Rightarrow> Ok (addListenProxy (CowProxy addr meth pw) s))))"

definition ListenSocks5 :: "bytes \<Rightarrow> conf \<Rightarrow> conf outcome" where
  "ListenSocks5 val s =
     (if cs_cmdHasListenAddr s then Ok s
      else if \<not> checkServerAddr val then Fatal ''listen socks5 server''
      else Ok (addListenProxy (SocksProxy val) s))"

definition listenParser :: "conf_env \<Rightarrow> bytes \<Rightarrow> (bytes \<Rightarrow> conf \<Rightarrow> conf outcome) option" where
  "listenParser E name =
     map_of [(''Http'', ListenHttp), (''Cow'', ListenCow E), (''Socks5'', ListenSocks5)] name"

definition ParseListen :: "conf_env \<Rightarrow> bytes \<Rightarrow> conf \<Rightarrow> conf outcome" where
  "ParseListen E val s =
     (if cs_cmdHasListenAddr s then Ok s
      else
        (let arr = Split val ''://'';
             old = (length arr = 1);
             protocol = (if old then ''http'' else normalizeProxyProtocol (arr ! 0));
             server = (if old then val else arr ! 1);
             s1 = (if old then s \<lparr>cs_needUpgrade := True\<rparr> else s)
         in conf_then (method_name protocol)
              (\<lambda>name. case listenParser E name of
                 None \<Rightarrow> Fatal (''no such listen protocol '' @ arr ! 0)
               | Some p \<Rightarrow> p server s1)))"

section \<open>Other options\<close>

definition set_bool :: "bytes \<Rightarrow> (bool \<Rightarrow> Config \<Rightarrow> Config) \<Rightarrow> bytes \<Rightarrow> conf \<Rightarrow> conf outcome" where
  "set_bool msg f val s = conf_then (parseBool val msg) (\<lambda>b. Ok (on_config (f b) s))"

definition set_int :: "bytes \<Rightarrow> (int \<Rightarrow> Config \<Rightarrow> Config) \<Rightarrow> bytes \<Rightarrow> conf \<Rightarrow> conf outcome" where
  "set_int msg f val s = conf_then (parseInt val msg) (\<lambda>i. Ok (on_config (f i) s))"

definition set_duration ::
    "conf_env \<Rightarrow> bytes \<Rightarrow> (duration \<Rightarrow> Config \<Rightarrow> Config) \<Rightarrow> bytes \<Rightarrow> conf \<Rightarrow> conf outcome" where
  "set_duration E msg f val s = conf_then (parseDuration E val msg) (\<lambda>d. Ok (on_config (f d) s))"

definition set_file ::
    "conf_env \<Rightarrow> bytes \<Rightarrow> (bytes \<Rightarrow> Config \<Rightarrow> Config) \<Rightarrow> bytes \<Rightarrow> conf \<Rightarrow> conf outcome" where
  "set_file E msg f val s =
     (let file = expandTilde E val
      in case ce_isFileExists E file of
           None \<Rightarrow> Ok (on_config (f file) s)
         | Some e \<Rightarrow> Fatal (msg @ '' '' @ err_Error e))"

fun pac_addrs :: "bytes list \<Rightarrow> nat \<Rightarrow> listen_proxy list \<Rightarrow> listen_proxy list outcome" where
  "pac_addrs [] i ps = Ok ps"
| "pac_addrs (x # xs) i ps =
     (if x = [] then pac_addrs xs (Suc i) ps
      else
        (let a = strings_TrimSpace x in
         case SplitHostPort a of
           None \<Rightarrow> Fatal ''proxy address in PAC''
         | Some (host, _) \<Rightarrow>
             (if host = ''0.0.0.0'' then Fatal ''can't use 0.0.0.0 as proxy address in PAC''
              else if \<not> i < length ps then Panic ''index out of range''
              else
                (case ps ! i of
                   HttpProxy h \<Rightarrow> pac_addrs xs (Suc i) (ps[i := HttpProxy (h \<lparr>hx_addrInPAC := a\<rparr>)])
                 | _ \<Rightarrow> Fatal ''can't specify address in PAC for non http proxy''))))"

definition ParseAddrInPAC :: "bytes \<Rightarrow> conf \<Rightarrow> conf outcome" where
  "ParseAddrInPAC val s =
     conf_then (pac_addrs (Split val '','') 0 (cs_listen s))
       (\<lambda>ps. Ok (s \<lparr>cs_needUpgrade := True, cs_listen := ps\<rparr>))"

fun tunnel_ports :: "bytes list \<Rightarrow> bytes list \<Rightarrow> bytes list outcome" where
  "tunnel_ports [] acc = Ok acc"
| "tunnel_ports (x # xs) acc =
     (let a = strings_TrimSpace x in
      if a \<noteq> ''*'' \<and> Atoi a = None then Fatal ''tunnel allowed ports''
      else tunnel_ports xs (acc @ [a]))"

definition ParseTunnelAllowedPort :: "bytes \<Rightarrow> conf \<Rightarrow> conf outcome" where
  "ParseTunnelAllowedPort val s =
     conf_then (tunnel_ports (Split val '','') (cf_TunnelAllowedPort (cs_config s)))
       (\<lambda>ports. Ok (on_config (\<lambda>c. c \<lparr>cf_TunnelAllowedPort := ports\<rparr>) s))"

definition ParseSocksParent :: "bytes \<Rightarrow> conf \<Rightarrow> conf outcome" where
  "ParseSocksParent val s = conf_then (ProxySocks5 val s) (\<lambda>s1. Ok (s1 \<lparr>cs_needUpgrade := True\<rparr>))"

definition ParseSshServer :: "bytes \<Rightarrow> conf \<Rightarrow> conf outcome" where
  "ParseSshServer val s =
     (let arr = Split val '':'' in
      if length arr = 2 \<or> length arr = 3 then
        (let val1 = (if length arr = 2 then val @ '':22'' else if arr ! 2 = [] then val @ ''22'' else val)
         in conf_then (ParseSocksParent (''127.0.0.1:'' @ arr ! 1) s)
              (\<lambda>s1. Ok (on_config (\<lambda>c. c \<lparr>cf_SshServer := cf_SshServer c @ [val1]\<rparr>) s1)))
      else Fatal ''sshServer should be in the form of: user@server:local_socks_port[:server_ssh_port]'')"

definition ParseHttpParent :: "bytes \<Rightarrow> conf \<Rightarrow> conf outcome" where
  "ParseHttpParent val s =
     (if \<not> checkServerAddr val then Fatal ''parent http server''
      else
        (let s1 = add_http_parent (httpParent val [] None) s; h = cs_http s
         in Ok (s1 \<lparr>cs_http := h \<lparr>ht_parent := length (cs_parents s), ht_serverCnt := ht_serverCnt h + 1\<rparr>,
                    cs_needUpgrade := True\<rparr>)))"

definition on_parent :: "nat \<Rightarrow> (ParentProxy \<Rightarrow> ParentProxy) \<Rightarrow> conf \<Rightarrow> conf" where
  "on_parent i f s =
     s \<lparr>cs_parents := (cs_parents s)[i := (cs_parents s ! i) \<lparr>pw_parent := f (pw_parent (cs_parents s ! i))\<rparr>]\<rparr>"

definition ParseHttpUserPasswd :: "bytes \<Rightarrow> conf \<Rightarrow> conf outcome" where
  "ParseHttpUserPasswd val s =
     (let h = cs_http s in
      if \<not> isUserPasswdValid val then Fatal ''httpUserPassword syntax wrong, should be in the form of user:passwd''
      else if ht_serverCnt h \<le> ht_passwdCnt h then Fatal ''must specify httpParent before corresponding httpUserPasswd''
      else Ok ((on_parent (ht_parent h) (httpParent_initAuth val) s) \<lparr>cs_http := h \<lparr>ht_passwdCnt := ht_passwdCnt h + 1\<rparr>\<rparr>))"

definition ParseLoadBalance :: "bytes \<Rightarrow> conf \<Rightarrow> conf outcome" where
  "ParseLoadBalance val s =
     (if val = ''backup'' then Ok (on_config (\<lambda>c. c \<lparr>cf_LoadBalance := loadBalanceBackup\<rparr>) s)
      else if val = ''hash'' then Ok (on_config (\<lambda>c. c \<lparr>cf_LoadBalance := loadBalanceHash\<rparr>) s)
      else if val = ''latency'' then Ok (on_config (\<lambda>c. c \<lparr>cf_LoadBalance := loadBalanceLatency\<rparr>) s)
      else Fatal (''invalid loadBalance mode: '' @ val))"

section \<open>Shadowsocks servers on several lines\<close>

fun initCipher :: "bytes \<Rightarrow> bytes \<Rightarrow> ParentProxy \<Rightarrow> ParentProxy" where
  "initCipher meth pw (shadowsocksParent server m p) = shadowsocksParent server meth pw"
| "initCipher meth pw p = p"

definition finish_shadow :: "conf_env \<Rightarrow> conf \<Rightarrow> conf outcome" where
  "finish_shadow E s =
     (let sh = cs_shadow s in
      case sh_parent sh of
        None \<Rightarrow> Ok s
      | Some i \<Rightarrow>
          (if sh_serverCnt sh \<noteq> sh_passwdCnt sh then Ok s
           else
             (let sh1 = (if sh_methodCnt sh < sh_serverCnt sh
                         then sh \<lparr>sh_method := [], sh_methodCnt := sh_serverCnt sh\<rparr> else sh)
              in case ce_NewCipher E (sh_method sh1) (sh_passwd sh1) of
                   Some e \<Rightarrow> Fatal (''create shadowsocks cipher: '' @ err_Error e)
                 | None \<Rightarrow> Ok ((on_parent i (initCipher (sh_method sh1) (sh_passwd sh1)) s) \<lparr>cs_shadow := sh1\<rparr>))))"

definition ParseShadowSocks :: "conf_env \<Rightarrow> bytes \<Rightarrow> conf \<Rightarrow> conf outcome" where
  "ParseShadowSocks E val s =
     (if 1 < sh_serverCnt (cs_shadow s) - sh_passwdCnt (cs_shadow s)
      then Fatal ''must specify shadowPasswd for every shadowSocks server''
      else
        conf_then (finish_shadow E s)
          (\<lambda>s1. let sh = cs_shadow s1 in
             if val = [] then Ok (s1 \<lparr>cs_shadow := sh \<lparr>sh_parent := None\<rparr>\<rparr>)
             else if \<not> checkServerAddr val then Fatal ''shadowsocks server''
             else Ok ((add_parent (shadowsocksParent val [] []) s1)
                        \<lparr>cs_shadow := sh \<lparr>sh_parent := Some (length (cs_parents s1)), sh_serverCnt := sh_serverCnt sh + 1\<rparr>,
                         cs_needUpgrade := True\<rparr>)))"

definition ParseShadowPasswd :: "bytes \<Rightarrow> conf \<Rightarrow> conf outcome" where
  "ParseShadowPasswd val s =
     (let sh = cs_shadow s in
      if sh_serverCnt sh \<le> sh_passwdCnt sh then Fatal ''must specify shadowSocks before corresponding shadowPasswd''
      else if sh_passwdCnt sh + 1 \<noteq> sh_serverCnt sh then Fatal ''must specify shadowPasswd for every shadowSocks''
      else Ok (s \<lparr>cs_shadow := sh \<lparr>sh_passwd := val, sh_passwdCnt := sh_passwdCnt sh + 1\<rparr>\<rparr>))"

definition ParseShadowMethod :: "bytes \<Rightarrow> conf \<Rightarrow> conf outcome" where
  "ParseShadowMethod val s =
     (let sh = cs_shadow s in
      if sh_serverCnt sh \<le> sh_methodCnt sh then Fatal ''must specify shadowSocks before corresponding shadowMethod''
      else Ok (s \<lparr>cs_shadow := sh \<lparr>sh_method := val, sh_methodCnt := sh_methodCnt sh + 1\<rparr>\<rparr>))"

definition checkShadowsocks :: "conf_env \<Rightarrow> conf \<Rightarrow> conf outcome" where
  "checkShadowsocks E s =
     (if sh_serverCnt (cs_shadow s) \<noteq> sh_passwdCnt (cs_shadow s)
      then Fatal ''number of shadowsocks server and password does not match''
      else ParseShadowSocks E [] s)"

section \<open>The configuration file\<close>

definition configParser :: "conf_env \<Rightarrow> bytes \<Rightarrow> (bytes \<Rightarrow> conf \<Rightarrow> conf outcome) option" where
  "configParser E name =
     map_of
       [(''Proxy'', ParseProxy E), (''Listen'', ParseListen E),
        (''LogFile'', \<lambda>v s. Ok (on_config (\<lambda>c. c \<lparr>cf_LogFile := expandTilde E v\<rparr>) s)),
        (''Capture'', set_bool ''capture'' (\<lambda>b c. c \<lparr>cf_Capture := b\<rparr>)),
        (''CaptureDir'', \<lambda>v s. Ok (on_config (\<lambda>c. c \<lparr>cf_CaptureDir := expandTilde E v\<rparr>) s)),
        (''CaptureDomainFile'', \<lambda>v s. Ok (on_config (\<lambda>c. c \<lparr>cf_CaptureDomainFile := expandTilde E v\<rparr>) s)),
        (''Plugin'', \<lambda>v s. Ok (on_config (\<lambda>c. c \<lparr>cf_Plugin := v\<rparr>) s)),
        (''PluginDBFile'', \<lambda>v s. Ok (on_config (\<lambda>c. c \<lparr>cf_PluginDBFile := expandTilde E v\<rparr>) s)),
        (''AddrInPAC'', ParseAddrInPAC), (''TunnelAllowedPort'', ParseTunnelAllowedPort),
        (''SocksParent'', ParseSocksParent), (''SshServer'', ParseSshServer),
        (''HttpParent'', ParseHttpParent), (''HttpUserPasswd'', ParseHttpUserPasswd),
        (''AlwaysProxy'', set_bool ''alwaysProxy'' (\<lambda>b c. c \<lparr>cf_AlwaysProxy := b\<rparr>)),
        (''LoadBalance'', ParseLoadBalance),
        (''StatFile'', \<lambda>v s. Ok (on_config (\<lambda>c. c \<lparr>cf_StatFile := expandTilde E v\<rparr>) s)),
        (''BlockedFile'', set_file E ''blocked file:'' (\<lambda>f c. c \<lparr>cf_BlockedFile := f\<rparr>)),
        (''DirectFile'', set_file E ''direct file:'' (\<lambda>f c. c \<lparr>cf_DirectFile := f\<rparr>)),
        (''ShadowSocks'', ParseShadowSocks E), (''ShadowPasswd'', ParseShadowPasswd),
        (''ShadowMethod'', ParseShadowMethod),
        (''UserPasswd'', \<lambda>v s. if isUserPasswdValid v then Ok (on_config (\<lambda>c. c \<lparr>cf_UserPasswd := v\<rparr>) s)
           else Fatal ''userPassword syntax wrong, should be in the form of user:passwd''),
        (''UserPasswdFile'', \<lambda>v s. case ce_isFileExists E v of
             None \<Rightarrow> Ok (on_config (\<lambda>c. c \<lparr>cf_UserPasswdFile := v\<rparr>) s)
           | Some e \<Rightarrow> Fatal (''userPasswdFile: '' @ err_Error e)),
        (''AllowedClient'', \<lambda>v s. Ok (on_config (\<lambda>c. c \<lparr>cf_AllowedClient := v\<rparr>) s)),
        (''AuthTimeout'', set_duration E ''authTimeout'' (\<lambda>d c. c \<lparr>cf_AuthTimeout := d\<rparr>)),
        (''Core'', set_int ''core'' (\<lambda>i c. c \<lparr>cf_Core := i\<rparr>)),
        (''HttpErrorCode'', set_int ''httpErrorCode'' (\<lambda>i c. c \<lparr>cf_HttpErrorCode := i\<rparr>)),
        (''ReadTimeout'', set_duration E ''readTimeout'' (\<lambda>d c. c \<lparr>cf_ReadTimeout := d\<rparr>)),
        (''TunnelTimeout'', set_duration E ''tunnelTimeout'' (\<lambda>d c. c \<lparr>cf_TunnelTimeout := d\<rparr>)),
        (''Socks5UDPTimeout'', set_duration E ''socks5UDPTimeout'' (\<lambda>d c. c \<lparr>cf_Socks5UDPTimeout := d\<rparr>)),
        (''DialTimeout'', set_duration E ''dialTimeout'' (\<lambda>d c. c \<lparr>cf_DialTimeout := d\<rparr>)),
        (''DetectSSLErr'', set_bool ''detectSSLErr'' (\<lambda>b c. c \<lparr>cf_DetectSSLErr := b\<rparr>)),
        (''EstimateTarget'', \<lambda>v s. Ok (on_config (\<lambda>c. c \<lparr>cf_EstimateTarget := v\<rparr>) s))] name"

text \<open>One line. Empty lines and lines that begin with \<open>#\<close> are skipped.\<close>

definition parse_line :: "conf_env \<Rightarrow> bytes \<Rightarrow> conf \<Rightarrow> conf outcome" where
  "parse_line E text s =
     (let line = strings_TrimSpace text in
      if line = [] \<or> hd line = CHR ''#'' then Ok s
      else
        (let v = SplitN line ''='' 2 in
         if length v \<noteq> 2 then Fatal ''config syntax error on line''
         else
           (let key = strings_TrimSpace (v ! 0); val = strings_TrimSpace (v ! 1)
            in conf_then (method_name key)
                 (\<lambda>name. case configParser E name of
                    None \<Rightarrow> Fatal (''no such option '' @ key)
                  | Some p \<Rightarrow>
                      (if val = [] \<and> key \<noteq> ''shadowMethod'' \<and> key \<noteq> ''logFile''
                       then Fatal (''empty '' @ key @ '', please comment or remove unused option'')
                       else p val s)))))"

fun parse_lines :: "conf_env \<Rightarrow> bytes list \<Rightarrow> conf \<Rightarrow> conf outcome" where
  "parse_lines E [] s = Ok s"
| "parse_lines E (l # ls) s = conf_then (parse_line E l s) (parse_lines E ls)"

text \<open>
  Options of the command line override those of the file: strings that are not empty, integers that are not zero. The
  unexported \<open>dir\<close> is always empty there.
\<close>

definition override_string :: "bytes \<Rightarrow> bytes \<Rightarrow> bytes" where
  "override_string new old = (if new \<noteq> [] then new else old)"

definition override_int :: "int \<Rightarrow> int \<Rightarrow> int" where
  "override_int new old = (if new \<noteq> 0 then new else old)"

definition overrideConfig :: "Config \<Rightarrow> Config \<Rightarrow> Config" where
  "overrideConfig new c = c
     \<lparr>cf_RcFile := override_string (cf_RcFile new) (cf_RcFile c),
      cf_LogFile := override_string (cf_LogFile new) (cf_LogFile c),
      cf_CaptureDir := override_string (cf_CaptureDir new) (cf_CaptureDir c),
      cf_CaptureDomainFile := override_string (cf_CaptureDomainFile new) (cf_CaptureDomainFile c),
      cf_Plugin := override_string (cf_Plugin new) (cf_Plugin c),
      cf_PluginDBFile := override_string (cf_PluginDBFile new) (cf_PluginDBFile c),
      cf_UserPasswd := override_string (cf_UserPasswd new) (cf_UserPasswd c),
      cf_UserPasswdFile := override_string (cf_UserPasswdFile new) (cf_UserPasswdFile c),
      cf_AllowedClient := override_string (cf_AllowedClient new) (cf_AllowedClient c),
      cf_Core := override_int (cf_Core new) (cf_Core c),
      cf_HttpErrorCode := override_int (cf_HttpErrorCode new) (cf_HttpErrorCode c),
      cf_StatFile := override_string (cf_StatFile new) (cf_StatFile c),
      cf_BlockedFile := override_string (cf_BlockedFile new) (cf_BlockedFile c),
      cf_DirectFile := override_string (cf_DirectFile new) (cf_DirectFile c),
      cf_EstimateTarget := override_string (cf_EstimateTarget new) (cf_EstimateTarget c),
      cf_EstimateTimeout := cf_EstimateTimeout new\<rparr>"

definition defaultListenAddr :: bytes where
  "defaultListenAddr = ''127.0.0.1:7777''"

definition checkConfig :: "conf_env \<Rightarrow> conf \<Rightarrow> conf outcome" where
  "checkConfig E s =
     conf_then (checkShadowsocks E s)
       (\<lambda>s1. if cs_listen s1 = [] then
               (case newHttpProxy defaultListenAddr [] of
                  Inl p \<Rightarrow> Panic p
                | Inr h \<Rightarrow> Ok (s1 \<lparr>cs_listen := mergeListenProxies [HttpProxy h]\<rparr>))
             else Ok (s1 \<lparr>cs_listen := mergeListenProxies (cs_listen s1)\<rparr>))"

text \<open>The upgraded file; \<open>newLine\<close> at the end of each line is left out.\<close>

fun upgrade_lines :: "bytes list \<Rightarrow> nat \<Rightarrow> nat \<Rightarrow> conf \<Rightarrow> bytes list outcome" where
  "upgrade_lines [] proxyId listenId s = Ok []"
| "upgrade_lines (text # ls) proxyId listenId s =
     (let line = strings_TrimSpace text in
      if line = [] \<or> hd line = CHR ''#'' then
        conf_then (upgrade_lines ls proxyId listenId s) (\<lambda>out. Ok (line # out))
      else
        (let key = strings_TrimSpace (Split line ''='' ! 0) in
         if key = ''listen'' then
           (if \<not> listenId < length (cs_listen s) then Panic ''index out of range''
            else conf_then (upgrade_lines ls proxyId (Suc listenId) s)
                   (\<lambda>out. Ok (genConfig (cs_listen s ! listenId) # (CHR ''#'' # line) # out)))
         else if key = ''httpParent'' \<or> key = ''shadowSocks'' \<or> key = ''socksParent'' then
           (if \<not> proxyId < length (cs_parents s) then Panic ''index out of range''
            else conf_then (upgrade_lines ls (Suc proxyId) listenId s)
                   (\<lambda>out. Ok (Parent_genConfig (pw_parent (cs_parents s ! proxyId)) # (CHR ''#'' # line) # out)))
         else if key = ''httpUserPasswd'' \<or> key = ''shadowPasswd'' \<or> key = ''shadowMethod'' \<or> key = ''addrInPAC'' then
           conf_then (upgrade_lines ls proxyId listenId s) (\<lambda>out. Ok ((CHR ''#'' # line) # out))
         else if key = ''proxy'' then
           conf_then (upgrade_lines ls (Suc proxyId) listenId s) (\<lambda>out. Ok (line # out))
         else conf_then (upgrade_lines ls proxyId listenId s) (\<lambda>out. Ok (line # out))))"

text \<open>\<open>parseConfig\<close> returns the state and, if the file is to be upgraded, the new lines.\<close>

definition parseConfig :: "conf_env \<Rightarrow> bytes list \<Rightarrow> Config \<Rightarrow> conf \<Rightarrow> (conf \<times> bytes list option) outcome" where
  "parseConfig E lines new s =
     conf_then (parse_lines E lines s)
       (\<lambda>s1. conf_then (checkConfig E (on_config (overrideConfig new) s1))
          (\<lambda>s2. if cs_needUpgrade s2 then conf_then (upgrade_lines lines 0 0 s2) (\<lambda>out. Ok (s2, Some out))
                else Ok (s2, None)))"

section \<open>The initial state\<close>

definition initConfig :: "conf_env \<Rightarrow> bytes \<Rightarrow> Config \<Rightarrow> Config" where
  "initConfig E dir c = c
     \<lparr>cf_dir := dir, cf_BlockedFile := ce_Join E dir ''blocked'', cf_DirectFile := ce_Join E dir ''direct'',
      cf_StatFile := ce_Join E dir ''stat'', cf_CaptureDir := ce_Join E dir ''capture'', cf_Plugin := [],
      cf_PluginDBFile := ce_Join E dir ''plugins.sqlite3'', cf_DetectSSLErr := False, cf_AlwaysProxy := False,
      cf_Capture := False, cf_CaptureDomainFile := [], cf_AuthTimeout := 2 * hour,
      cf_DialTimeout := defaultDialTimeout, cf_ReadTimeout := defaultReadTimeout,
      cf_TunnelTimeout := 2 * minute, cf_Socks5UDPTimeout := 5 * minute,
      cf_TunnelAllowedPort := [''*''], cf_EstimateTarget := ''example.com''\<rparr>"

definition zeroConfig :: Config where
  "zeroConfig = \<lparr>cf_RcFile = [], cf_LogFile = [], cf_Capture = False, cf_CaptureDir = [], cf_CaptureDomainFile = [],
     cf_Plugin = [], cf_PluginDBFile = [], cf_AlwaysProxy = False, cf_LoadBalance = loadBalanceBackup,
     cf_TunnelAllowedPort = [], cf_SshServer = [], cf_UserPasswd = [], cf_UserPasswdFile = [],
     cf_AllowedClient = [], cf_AuthTimeout = 0, cf_DialTimeout = 0, cf_ReadTimeout = 0, cf_TunnelTimeout = 0,
     cf_Socks5UDPTimeout = 0, cf_Core = 0, cf_DetectSSLErr = False, cf_HttpErrorCode = 0, cf_dir = [],
     cf_StatFile = [], cf_BlockedFile = [], cf_DirectFile = [], cf_EstimateTimeout = False,
     cf_EstimateTarget = [], cf_saveReqLine = False\<rparr>"

definition initial_conf :: conf where
  "initial_conf = \<lparr>cs_config = zeroConfig, cs_listen = [], cs_parents = [], cs_hpool = [],
     cs_http = \<lparr>ht_parent = 0, ht_serverCnt = 0, ht_passwdCnt = 0\<rparr>,
     cs_shadow = \<lparr>sh_parent = None, sh_passwd = [], sh_method = [], sh_serverCnt = 0, sh_passwdCnt = 0, sh_methodCnt = 0\<rparr>,
     cs_needUpgrade = False, cs_cmdHasListenAddr = False\<rparr>"

end
