(* ===== verification/Config_Correct.thy ===== *)
theory Config_Correct
  imports Config
begin

text \<open>
  What the configuration parsers do: lines written for a parent proxy parse back to it, and some configurations that
  make the program panic.
\<close>

section \<open>Configurations that end in a panic\<close>

definition ex_conf_env :: conf_env where
  "ex_conf_env = \<lparr>ce_ParseDuration = (\<lambda>v. Inr second), ce_home = ''/root'', ce_Join = (\<lambda>a b. a @ ''/'' @ b),
     ce_isFileExists = (\<lambda>f. None), ce_NewCipher = (\<lambda>m p. None)\<rparr>"

text \<open>
  \<open>upgradeConfig\<close> takes the listeners by their position in the file, after the proxies on one address were merged.
\<close>

lemma upgrade_after_merge_panics:
  "parseConfig ex_conf_env [''listen = 127.0.0.1:7777'', ''listen = socks5://127.0.0.1:7777''] zeroConfig initial_conf =
     Panic ''index out of range''"
  by code_simp

text \<open>The same happens with two listeners in the file and one on the command line, which replaces them.\<close>

lemma upgrade_with_command_line_panics:
  "parseConfig ex_conf_env [''socksParent = 127.0.0.1:1080'', ''listen = 127.0.0.1:7777'', ''listen = 10.0.0.1:7777''] zeroConfig
     (initial_conf \<lparr>cs_listen := [SocksProxy ''127.0.0.1:1081''], cs_cmdHasListenAddr := True\<rparr>) =
     Panic ''index out of range''"
  by code_simp

lemma empty_names_panic:
  "parse_line ex_conf_env ''= x'' initial_conf = Panic ''slice bounds out of range''"
  "parse_line ex_conf_env ''proxy = ://x'' initial_conf = Panic ''slice bounds out of range''"
  "parse_line ex_conf_env ''listen = http://'' initial_conf = Panic ''index out of range''"
  "parse_line ex_conf_env ''addrInPAC = a:1'' initial_conf = Panic ''index out of range''"
  by code_simp+

text \<open>The flag \<open>core\<close> of the command line is 2 unless given, so the option of the file is never used.\<close>

lemma core_option_ignored: "cf_Core new = 2 \<Longrightarrow> cf_Core (overrideConfig new c) = 2"
  by (simp add: overrideConfig_def override_int_def)

section \<open>Generated lines parse back\<close>

lemma SplitN_no_sep: "Index s sep = None \<Longrightarrow> SplitN s sep (Suc n) = [s]"
  by (cases n) simp_all

lemma Split_two:
  assumes "length (Split s sep) = 2" "sep \<noteq> []"
  shows "s = Split s sep ! 0 @ sep @ Split s sep ! 1 \<and> Index (Split s sep ! 1) sep = None"
proof -
  obtain m where m: "length s = Suc m"
    using assms(1) by (cases "length s") (simp_all add: Split_def)
  obtain i where i: "Index s sep = Some i" using assms(1) m by (cases "Index s sep") (simp_all add: Split_def)
  let ?t = "drop (i + length sep) s"
  have sp: "Split s sep = take i s # SplitN ?t sep (Suc m)" using i m by (simp add: Split_def)
  have "Index ?t sep = None"
  proof (rule ccontr)
    assume "Index ?t sep \<noteq> None"
    then obtain j where j: "Index ?t sep = Some j" by blast
    have "m \<noteq> 0"
    proof
      assume "m = 0"
      then have "length ?t = 0" using m assms(2) by (cases sep) auto
      then show False using j assms(2) by (simp split: if_splits)
    qed
    then obtain m' where "m = Suc m'" by (cases m) auto
    then have "length (Split s sep) = Suc (Suc (length (SplitN (drop (j + length sep) ?t) sep (Suc m'))))"
      using sp j by simp
    then show False using assms(1) SplitN_nonempty [of "Suc m'" "drop (j + length sep) ?t" sep] by simp
  qed
  then show ?thesis using Index_split [OF i] sp SplitN_no_sep [of ?t sep m] by simp
qed

lemma TrimSpace_space [simp]: "strings_TrimSpace (CHR '' '' # v) = strings_TrimSpace v"
  by (simp add: strings_TrimSpace_def space_encodings_def)

text \<open>Values that begin and end with a visible ASCII character.\<close>

definition visible :: "bytes \<Rightarrow> bool" where
  "visible v \<longleftrightarrow> v \<noteq> [] \<and> 32 < byte_val (hd v) \<and> byte_val (hd v) < 128 \<and> 32 < byte_val (last v) \<and> byte_val (last v) < 128"

lemma visible_TrimSpace: "visible v \<Longrightarrow> strings_TrimSpace v = v"
  by (intro TrimSpace_plain) (simp_all add: visible_def)

lemma parse_proxy_line:
  assumes "visible v"
  shows "parse_line E (''proxy = '' @ v) s = ParseProxy E v s"
proof -
  have "visible (''proxy = '' @ v)" using assms by (simp add: visible_def)
  then have t: "strings_TrimSpace (''proxy = '' @ v) = ''proxy = '' @ v" by (rule visible_TrimSpace)
  have "SplitN (''proxy = '' @ v) ''='' 2 = [''proxy '', CHR '' '' # v]" by (simp add: numeral_2_eq_2)
  moreover have "strings_TrimSpace ''proxy '' = ''proxy''" by code_simp
  moreover have "strings_TrimSpace (CHR '' '' # v) = v" using visible_TrimSpace [OF assms] by simp
  moreover have "method_name ''proxy'' = Ok ''Proxy''" by code_simp
  moreover have "configParser E ''Proxy'' = Some (ParseProxy E)" by (simp add: configParser_def)
  ultimately show ?thesis using assms t by (simp add: parse_line_def Let_def conf_then_def visible_def)
qed

text \<open>A value made of a known protocol and a text without another separator is given to that protocol's parser.\<close>

lemma method_names:
  "method_name ''http'' = Ok ''Http''" "method_name ''ss'' = Ok ''Ss''" "method_name ''cow'' = Ok ''Cow''"
  "method_name ''socks5'' = Ok ''Socks5''"
  by code_simp+

lemma ParseProxy_protocols:
  assumes "Index b ''://'' = None"
  shows "ParseProxy E (''http://'' @ b) s = ProxyHttp b s" "ParseProxy E (''ss://'' @ b) s = ProxySs E b s"
    "ParseProxy E (''cow://'' @ b) s = ProxyCow E b s" "ParseProxy E (''socks5://'' @ b) s = ProxySocks5 b s"
proof -
  have "Split (''http://'' @ b) ''://'' = [''http'', b]" "Split (''ss://'' @ b) ''://'' = [''ss'', b]"
      "Split (''cow://'' @ b) ''://'' = [''cow'', b]" "Split (''socks5://'' @ b) ''://'' = [''socks5'', b]"
    using assms by (simp_all add: Split_def SplitN_no_sep)
  then show "ParseProxy E (''http://'' @ b) s = ProxyHttp b s" "ParseProxy E (''ss://'' @ b) s = ProxySs E b s"
    "ParseProxy E (''cow://'' @ b) s = ProxyCow E b s" "ParseProxy E (''socks5://'' @ b) s = ProxySocks5 b s"
    using method_names by (simp_all add: ParseProxy_def Let_def conf_then_def normalizeProxyProtocol_def proxyParser_def)
qed

text \<open>Which parser a value went to.\<close>

lemma ParseProxy_cases:
  assumes "ParseProxy E val s = Ok s'"
  obtains b where "Index b ''://'' = None" "suffix b val" "b = Split val ''://'' ! 1"
    "ProxyHttp b s = Ok s' \<or> ProxySs E b s = Ok s' \<or> ProxyCow E b s = Ok s' \<or> ProxySocks5 b s = Ok s'"
proof -
  have l: "length (Split val ''://'') = 2"
    using assms by (auto simp: ParseProxy_def Let_def Fatal_def split: if_splits)
  have sp: "val = Split val ''://'' ! 0 @ ''://'' @ Split val ''://'' ! 1" "Index (Split val ''://'' ! 1) ''://'' = None"
    using Split_two [OF l] by blast+
  obtain name f where "proxyParser E name = Some f" "f (Split val ''://'' ! 1) s = Ok s'"
    using assms l by (auto simp: ParseProxy_def Let_def conf_then_def Fatal_def split: outcome.splits option.splits)
  then have "ProxyHttp (Split val ''://'' ! 1) s = Ok s' \<or> ProxySs E (Split val ''://'' ! 1) s = Ok s' \<or>
      ProxyCow E (Split val ''://'' ! 1) s = Ok s' \<or> ProxySocks5 (Split val ''://'' ! 1) s = Ok s'"
    by (auto simp: proxyParser_def split: if_splits)
  moreover have "suffix (Split val ''://'' ! 1) val" using sp(1) by (metis append.assoc suffixI)
  ultimately show thesis using sp(2) that by blast
qed

section \<open>The four kinds of parents\<close>

lemma SplitN_colon:
  assumes "length (SplitN s '':'' 2) = 2"
  shows "s = SplitN s '':'' 2 ! 0 @ CHR '':'' # SplitN s '':'' 2 ! 1 \<and> CHR '':'' \<notin> set (SplitN s '':'' 2 ! 0)"
proof -
  obtain i where i: "IndexByte s (CHR '':'') = Some i"
    using assms by (cases "IndexByte s (CHR '':'')") (simp_all add: numeral_2_eq_2 Index_single)
  then show ?thesis using IndexByte_split [OF i] IndexByte_Some [of s "CHR '':''" i]
    by (simp add: numeral_2_eq_2 Index_single)
qed

lemma parseMethodPasswdServer_text:
  assumes "parseMethodPasswdServer b = Inr (m, pw, server)"
  shows "b = m @ '':'' @ pw @ ''@'' @ server \<and> checkServerAddr server"
proof -
  obtain i where i: "LastIndexByte b (CHR ''@'') = Some i"
    using assms by (cases "LastIndexByte b (CHR ''@'')") (simp_all add: parseMethodPasswdServer_def)
  let ?a = "SplitN (take i b) '':'' 2"
  have a: "length ?a = 2" "m = ?a ! 0" "pw = ?a ! 1" "server = drop (i + 1) b" "checkServerAddr server"
    using assms i by (auto simp: parseMethodPasswdServer_def Let_def split: if_splits)
  have "b = take i b @ CHR ''@'' # server" "take i b = m @ CHR '':'' # pw"
    using LastIndexByte_split [OF i] SplitN_colon [OF a(1)] a(2-4) by simp_all
  then show ?thesis using a(5) by (metis append.assoc append_Cons append_Nil)
qed

lemma one_or_two: "xs \<noteq> [] \<Longrightarrow> length xs \<le> 2 \<Longrightarrow> (\<exists>x. xs = [x]) \<or> (\<exists>x y. xs = [x, y])"
  by (cases xs; cases "tl xs") auto

lemma ProxyHttp_text:
  assumes "ProxyHttp b s = Ok s'"
  obtains server up ah where "s' = add_http_parent (httpParent server up ah) s"
    "ProxyHttp (if up = [] then server else up @ ''@'' @ server) s = Ok s'" "suffix server b" "server \<noteq> []"
    "up \<noteq> [] \<longrightarrow> b = up @ ''@'' @ server"
proof -
  have sc: "Split b ''@'' = split_char (CHR ''@'') b" by (rule Split_char)
  have j: "b = Join (split_char (CHR ''@'') b) ''@''" by simp
  have ne: "server \<noteq> []" if "checkServerAddr server" for server
    using that by (auto simp: checkServerAddr_def SplitHostPort_def)
  have "length (split_char (CHR ''@'') b) \<le> 2"
    using assms by (auto simp: ProxyHttp_def Let_def sc Fatal_def split: if_splits)
  then consider (one) x where "split_char (CHR ''@'') b = [x]" | (two) x y where "split_char (CHR ''@'') b = [x, y]"
    using one_or_two [OF split_char_nonempty] by blast
  then show thesis
  proof cases
    case one
    then have b: "b = x" using j by simp
    have "checkServerAddr x" "s' = add_http_parent (httpParent x [] None) s"
      using assms one by (auto simp: ProxyHttp_def sc Fatal_def split: if_splits)
    then show thesis using that [of x "[]" None] assms ne b by simp
  next
    case two
    then have b: "b = x @ CHR ''@'' # y" using j by simp
    have no: "CHR ''@'' \<notin> set y" using split_char_parts [of y "CHR ''@''" b] two by simp
    have r: "checkServerAddr y" "s' = add_http_parent (httpParent_initAuth x (httpParent y [] None)) s"
      using assms two by (auto simp: ProxyHttp_def sc Fatal_def split: if_splits)
    have "suffix y b" using b by (simp add: suffix_def)
    moreover have "ProxyHttp y s = Ok s'" if "x = []" using that r no by (simp add: ProxyHttp_def Split_char)
    ultimately show thesis using that [of y x] assms ne [OF r(1)] r(2) b by (cases "x = []") auto
  qed
qed

lemma Index_append_sep: "Index (x @ sep @ y) sep \<noteq> None"
proof (induction x)
  case Nil
  have "prefix sep (sep @ y)" by simp
  then show ?case by (cases "sep @ y") auto
qed (auto split: option.splits)

definition server_text :: "bytes \<Rightarrow> bytes" where
  "server_text b = (case LastIndexByte b (CHR ''@'') of None \<Rightarrow> b | Some i \<Rightarrow> drop (i + 1) b)"

lemma ProxySocks5_text:
  assumes "ProxySocks5 b s = Ok s'" "Index b ''://'' = None" "checkServerAddr (server_text b)"
  obtains server u pw where "s' = add_parent (socksParent server u pw) s"
    "b = (if u = [] then server else u @ '':'' @ pw @ ''@'' @ server)" "server \<noteq> []"
proof -
  have tp: "TrimPrefix b ''socks5://'' = b" "TrimPrefix b ''sock5://'' = b"
    using assms(2) Index_append_sep [of "''socks5''" "''://''"] Index_append_sep [of "''sock5''" "''://''"]
    by (auto simp: TrimPrefix_def prefix_def)
  have n: "normalizeServerAddr (server_text b) = Inr (server_text b)" using assms(3) by (simp add: normalizeServerAddr_def)
  have ne: "server_text b \<noteq> []" using assms(3) by (auto simp: checkServerAddr_def SplitHostPort_def)
  obtain server u pw where p: "parseSocksParent b = Inr (server, u, pw)" "s' = add_parent (socksParent server u pw) s"
    using assms(1) by (auto simp: ProxySocks5_def Fatal_def split: sum.splits)
  show thesis
  proof (cases "LastIndexByte b (CHR ''@'')")
    case None
    then have "server = b" "u = []" using p(1) tp n by (auto simp: parseSocksParent_def server_text_def split: sum.splits)
    then show thesis using that [of b "[]" pw] p(2) ne None by (simp add: server_text_def)
  next
    case (Some i)
    let ?a = "SplitN (take i b) '':'' 2"
    have a: "length ?a = 2" "u = ?a ! 0" "pw = ?a ! 1" "server = drop (i + 1) b" "u \<noteq> []"
      using p(1) n Some unfolding parseSocksParent_def Let_def tp
      by (simp_all add: server_text_def split: if_splits)
    have "b = take i b @ CHR ''@'' # server" "take i b = u @ CHR '':'' # pw"
      using LastIndexByte_split [OF Some] SplitN_colon [OF a(1)] a(2-4) by simp_all
    then have "b = u @ '':'' @ pw @ ''@'' @ server" by (metis append.assoc append_Cons append_Nil)
    moreover have "server \<noteq> []" using a(4) ne Some by (simp add: server_text_def)
    ultimately show thesis using that [of server u pw] p(2) a(5) by simp
  qed
qed

text \<open>What \<open>genConfig\<close> writes for a parent, after \<open>proxy = \<close>.\<close>

lemma Parent_genConfig_visible:
  assumes "visible val" "suffix server val" "server \<noteq> []" "proto \<in> {''http://'', ''ss://'', ''cow://'', ''socks5://''}"
  shows "visible (proto @ x @ server)"
proof -
  have "last val = last server" using assms(2,3) by (auto simp: suffix_def)
  then show ?thesis using assms(1,3,4) by (auto simp: visible_def)
qed

definition named_method :: "ParentProxy \<Rightarrow> bool" where
  "named_method p = (case p of shadowsocksParent _ m _ \<Rightarrow> m \<noteq> [] | cowParent _ m _ \<Rightarrow> m \<noteq> [] | _ \<Rightarrow> True)"

lemma parses_back:
  assumes "visible val" "suffix server val" "server \<noteq> []" "proto \<in> {''http://'', ''ss://'', ''cow://'', ''socks5://''}"
    "Parent_genConfig p = ''proxy = '' @ proto @ x @ server" "ParseProxy E (proto @ x @ server) s = Ok s'"
  shows "parse_line E (Parent_genConfig p) s = Ok s'"
  using parse_proxy_line [OF Parent_genConfig_visible [OF assms(1-4)], of E x s] assms(5,6) by simp

lemma add_parent_pool [simp]:
  "cs_parents (add_parent p s) = Pool_add p (cs_parents s)" "cs_parents (add_http_parent p s) = Pool_add p (cs_parents s)"
  by (simp_all add: add_parent_def add_http_parent_def)

definition writes_back :: "conf_env \<Rightarrow> conf \<Rightarrow> conf \<Rightarrow> bool" where
  "writes_back E s s' \<longleftrightarrow> (\<exists>p. cs_parents s' = Pool_add p (cs_parents s) \<and>
     (named_method p \<longrightarrow> parse_line E (Parent_genConfig p) s = Ok s'))"

lemma suffix_no_sep: "suffix t b \<Longrightarrow> Index b sep = None \<Longrightarrow> Index t sep = None"
proof (rule ccontr)
  assume a: "suffix t b" "Index b sep = None" "Index t sep \<noteq> None"
  then obtain i where "Index t sep = Some i" by blast
  then obtain x y where "t = x @ sep @ y" by (rule Index_split [THEN that])
  then have "\<exists>x y. b = x @ sep @ y" using a(1) by (metis append.assoc suffix_def)
  then show False using a(2) Index_append_sep by metis
qed

lemma http_writes_back:
  assumes "visible val" "suffix b val" "Index b ''://'' = None" "ProxyHttp b s = Ok s'"
  shows "writes_back E s s'"
proof -
  obtain server up ah where h: "s' = add_http_parent (httpParent server up ah) s"
    "ProxyHttp (if up = [] then server else up @ ''@'' @ server) s = Ok s'" "suffix server b" "server \<noteq> []"
    "up \<noteq> [] \<longrightarrow> b = up @ ''@'' @ server" using ProxyHttp_text [OF assms(4)] .
  have "suffix server val" using h(3) assms(2) suffix_order.trans by blast
  moreover have "ParseProxy E (''http://'' @ (if up = [] then server else up @ ''@'' @ server)) s = Ok s'"
    using ParseProxy_protocols(1) suffix_no_sep [OF h(3) assms(3)] assms(3) h(2,5) by (cases "up = []") auto
  ultimately have "parse_line E (Parent_genConfig (httpParent server up ah)) s = Ok s'"
    using parses_back [OF assms(1) _ h(4), where proto = "''http://''" and p = "httpParent server up ah" and
        x = "if up = [] then [] else up @ ''@''"] by (cases "up = []") auto
  then show ?thesis using h(1) by (auto simp: writes_back_def)
qed

lemma ss_writes_back:
  assumes "visible val" "suffix b val" "Index b ''://'' = None" "ProxySs E b s = Ok s'"
  shows "writes_back E s s'"
proof -
  obtain m pw server where m: "parseMethodPasswdServer b = Inr (m, pw, server)"
      "s' = add_parent (shadowsocksParent server m pw) s"
    using assms(4) by (auto simp: ProxySs_def Fatal_def split: sum.splits option.splits)
  have t: "b = m @ '':'' @ pw @ ''@'' @ server" "server \<noteq> []"
    using parseMethodPasswdServer_text [OF m(1)] by (auto simp: checkServerAddr_def SplitHostPort_def)
  then have "suffix server val" using assms(2) by (auto simp: suffix_def)
  then have "parse_line E (Parent_genConfig (shadowsocksParent server m pw)) s = Ok s'" if "m \<noteq> []"
    using parses_back [OF assms(1) _ t(2), where proto = "''ss://''" and p = "shadowsocksParent server m pw" and
        x = "m @ '':'' @ pw @ ''@''"] that t(1) assms(4) ParseProxy_protocols(2) [OF assms(3)] by simp
  then show ?thesis using m(2) by (auto simp: named_method_def writes_back_def)
qed

lemma cow_writes_back:
  assumes "visible val" "suffix b val" "Index b ''://'' = None" "ProxyCow E b s = Ok s'"
  shows "writes_back E s s'"
proof -
  obtain m pw server where m: "parseMethodPasswdServer b = Inr (m, pw, server)"
      "cs_parents s' = Pool_add (cowParent server m pw) (cs_parents s)"
    using assms(4) by (auto simp: ProxyCow_def Fatal_def on_config_def split: sum.splits option.splits if_splits)
  have t: "b = m @ '':'' @ pw @ ''@'' @ server" "server \<noteq> []"
    using parseMethodPasswdServer_text [OF m(1)] by (auto simp: checkServerAddr_def SplitHostPort_def)
  then have "suffix server val" using assms(2) by (auto simp: suffix_def)
  then have "parse_line E (Parent_genConfig (cowParent server m pw)) s = Ok s'" if "m \<noteq> []"
    using parses_back [OF assms(1) _ t(2), where proto = "''cow://''" and p = "cowParent server m pw" and
        x = "m @ '':'' @ pw @ ''@''"] that t(1) assms(4) ParseProxy_protocols(3) [OF assms(3)] by simp
  then show ?thesis using m(2) by (auto simp: named_method_def writes_back_def)
qed

lemma socks_writes_back:
  assumes "visible val" "suffix b val" "Index b ''://'' = None" "ProxySocks5 b s = Ok s'" "checkServerAddr (server_text b)"
  shows "writes_back E s s'"
proof -
  obtain server u pw where k: "s' = add_parent (socksParent server u pw) s"
    "b = (if u = [] then server else u @ '':'' @ pw @ ''@'' @ server)" "server \<noteq> []"
    using ProxySocks5_text [OF assms(4,3,5)] .
  have "suffix server val" using assms(2) k(2) by (auto simp: suffix_def split: if_splits)
  then have "parse_line E (Parent_genConfig (socksParent server u pw)) s = Ok s'"
    using parses_back [OF assms(1) _ k(3), where proto = "''socks5://''" and p = "socksParent server u pw" and
        x = "if u = [] then [] else u @ '':'' @ pw @ ''@''"] k(2) assms(4) ParseProxy_protocols(4) [OF assms(3)]
    by (cases "u = []") simp_all
  then show ?thesis using k(1) by (auto simp: writes_back_def)
qed



end
