(* ===== verification/Pac.thy ===== *)
theory Pac
  imports Listen Site_Table Body
begin

text \<open>
  pac.go: the proxy auto-configuration file. \<open>genPAC\<close> writes a script with the sites that need no
  proxy; the functions of that script, which run in the browser, are modelled as well
  (\<open>js_hostIsIP\<close>, \<open>js_host2Domain\<close>, \<open>js_FindProxyForURL\<close>), with the string functions and the conversion
  to a number of JavaScript written out. The main statement joins them with the site table: once a host
  was found blocked, the script sends no host of that domain around the proxy.
\<close>

section \<open>The file\<close>

definition pac_line :: "nat \<Rightarrow> bytes \<Rightarrow> bytes" where
  "pac_line tabs t = replicate tabs TAB @ t @ [LF]"

text \<open>The template, with its three fields.\<close>

definition pac_script :: "bytes \<Rightarrow> bytes \<Rightarrow> bytes \<Rightarrow> bytes" where
  "pac_script proxyAddr directDomains topLevel = concat
     [
      pac_line 0 (''var direct = 'DIRECT';''),
      pac_line 0 (''var httpProxy = 'PROXY '' @ proxyAddr @ ''; DIRECT';''),
      pac_line 0 ([]),
      pac_line 0 (''var directList = [''),
      pac_line 0 ([CHR 0x22] @ [CHR 0x22] @ '',''),
      pac_line 0 ([CHR 0x22] @ directDomains @ [CHR 0x22]),
      pac_line 0 (''];''),
      pac_line 0 ([]),
      pac_line 0 (''var directAcc = {};''),
      pac_line 0 (''for (var i = 0; i < directList.length; i += 1) {''),
      pac_line 1 (''directAcc[directList[i]] = true;''),
      pac_line 0 (''}''),
      pac_line 0 ([]),
      pac_line 0 (''var topLevel = {''),
      pac_line 0 (topLevel),
      pac_line 0 (''};''),
      pac_line 0 ([]),
      pac_line 0 (''// hostIsIP determines whether a host address is an IP address and whether''),
      pac_line 0 (''// it is private. Currenly only handles IPv4 addresses.''),
      pac_line 0 (''function hostIsIP(host) {''),
      pac_line 1 (''var part = host.split('.');''),
      pac_line 1 (''if (part.length != 4) {''),
      pac_line 2 (''return [false, false];''),
      pac_line 1 (''}''),
      pac_line 1 (''var n;''),
      pac_line 1 (''for (var i = 3; i >= 0; i--) {''),
      pac_line 2 (''if (part[i].length === 0 || part[i].length > 3) {''),
      pac_line 3 (''return [false, false];''),
      pac_line 2 (''}''),
      pac_line 2 (''n = Number(part[i]);''),
      pac_line 2 (''if (isNaN(n) || n < 0 || n > 255) {''),
      pac_line 3 (''return [false, false];''),
      pac_line 2 (''}''),
      pac_line 1 (''}''),
      pac_line 1 (''if (part[0] == '127' || part[0] == '10' || (part[0] == '192' && part[1] == '168')) {''),
      pac_line 2 (''return [true, true];''),
      pac_line 1 (''}''),
      pac_line 1 (''if (part[0] == '172') {''),
      pac_line 2 (''n = Number(part[1]);''),
      pac_line 2 (''if (16 <= n && n <= 31) {''),
      pac_line 3 (''return [true, true];''),
      pac_line 2 (''}''),
      pac_line 1 (''}''),
      pac_line 1 (''return [true, false];''),
      pac_line 0 (''}''),
      pac_line 0 ([]),
      pac_line 0 (''function host2Domain(host) {''),
      pac_line 1 (''var arr, isIP, isPrivate;''),
      pac_line 1 (''arr = hostIsIP(host);''),
      pac_line 1 (''isIP = arr[0];''),
      pac_line 1 (''isPrivate = arr[1];''),
      pac_line 1 (''if (isPrivate) {''),
      pac_line 2 (''return '' @ [CHR 0x22] @ [CHR 0x22] @ '';''),
      pac_line 1 (''}''),
      pac_line 1 (''if (isIP) {''),
      pac_line 2 (''return host;''),
      pac_line 1 (''}''),
      pac_line 0 ([]),
      pac_line 1 (''var lastDot = host.lastIndexOf('.');''),
      pac_line 1 (''if (lastDot === -1) {''),
      pac_line 2 (''return '' @ [CHR 0x22] @ [CHR 0x22] @ ''; // simple host name has no domain''),
      pac_line 1 (''}''),
      pac_line 1 (''// Find the second last dot''),
      pac_line 1 (''dot2ndLast = host.lastIndexOf('' @ [CHR 0x22] @ ''.'' @ [CHR 0x22] @ '', lastDot-1);''),
      pac_line 1 (''if (dot2ndLast === -1)''),
      pac_line 2 (''return host;''),
      pac_line 0 ([]),
      pac_line 1 (''var part = host.substring(dot2ndLast+1, lastDot);''),
      pac_line 1 (''if (topLevel[part]) {''),
      pac_line 2 (''var dot3rdLast = host.lastIndexOf('' @ [CHR 0x22] @ ''.'' @ [CHR 0x22] @ '', dot2ndLast-1);''),
      pac_line 2 (''if (dot3rdLast === -1) {''),
      pac_line 3 (''return host;''),
      pac_line 2 (''}''),
      pac_line 2 (''return host.substring(dot3rdLast+1);''),
      pac_line 1 (''}''),
      pac_line 1 (''return host.substring(dot2ndLast+1);''),
      pac_line 0 (''}''),
      pac_line 0 ([]),
      pac_line 0 (''function FindProxyForURL(url, host) {''),
      pac_line 1 (''if (url.substring(0,4) == '' @ [CHR 0x22] @ ''ftp:'' @ [CHR 0x22] @ '')''),
      pac_line 2 (''return direct;''),
      pac_line 1 (''if (host.substring(0,7) == '' @ [CHR 0x22] @ ''::ffff:'' @ [CHR 0x22] @ '')''),
      pac_line 2 (''return direct;''),
      pac_line 1 (''if (host.indexOf('' @ [CHR 0x22] @ ''.local'' @ [CHR 0x22] @ '', host.length - 6) !== -1) {''),
      pac_line 2 (''return direct;''),
      pac_line 1 (''}''),
      pac_line 1 (''var domain = host2Domain(host);''),
      pac_line 1 (''if (host.length == domain.length) {''),
      pac_line 2 (''return directAcc[host] ? direct : httpProxy;''),
      pac_line 1 (''}''),
      pac_line 1 (''return (directAcc[host] || directAcc[domain]) ? direct : httpProxy;''),
      pac_line 0 (''}'')]"

text \<open>\<open>pac.topLevelDomain\<close>, for the order \<open>ks\<close> in which the map is walked; the last comma is cut off.\<close>

definition pac_topLevelDomain :: "bytes list \<Rightarrow> bytes" where
  "pac_topLevelDomain ks =
     (let buf = concat (map (\<lambda>k. [TAB, CHR 0x22] @ k @ [CHR 0x22] @ '': true,'' @ [LF]) ks)
      in take (length buf - 2) buf)"

definition pacHeader :: bytes where
  "pacHeader = ''HTTP/1.1 200 OK'' @ CRLF @ ''Server: cow-proxy'' @ CRLF @
     ''Content-Type: application/x-ns-proxy-autoconfig'' @ CRLF @ ''Connection: close'' @ CRLF @ CRLF"

text \<open>The separator of the sites in the array: a quote, a comma, a new line and a quote.\<close>

definition direct_sep :: bytes where
  "direct_sep = [CHR 0x22, CHR '','', LF, CHR 0x22]"

definition updateDirectList :: "SiteStat \<Rightarrow> bytes" where
  "updateDirectList ss = Join (GetDirectList ss) direct_sep"

text \<open>\<open>dl\<close> is the value of \<open>getDirectList()\<close>.\<close>

definition genPAC :: "listen_proxy \<Rightarrow> bytes \<Rightarrow> bytes list \<Rightarrow> bytes \<Rightarrow> bytes may_panic" where
  "genPAC proxy localAddr ks dl =
     (case proxy of
        HttpProxy hproxy \<Rightarrow>
          (let finish = (\<lambda>proxyAddr.
             Inr (if dl = []
                  then pacHeader @ ''function FindProxyForURL(url, host) { return 'PROXY '' @ proxyAddr @
                         ''; DIRECT'; };''
                  else pacHeader @ pac_script proxyAddr dl (pac_topLevelDomain ks)))
           in if hx_addrInPAC hproxy \<noteq> [] then finish (hx_addrInPAC hproxy)
              else
                (case SplitHostPort localAddr of
                   None \<Rightarrow> Inl ''split host port on local address error''
                 | Some (host, port) \<Rightarrow> finish (JoinHostPort host (hx_port hproxy))))
      | _ \<Rightarrow> Inl ''sendPAC should only be called for http proxy'')"

definition sendPAC ::
    "'w writer \<Rightarrow> listen_proxy \<Rightarrow> bytes \<Rightarrow> bytes list \<Rightarrow> bytes \<Rightarrow> 'w \<Rightarrow> (err option \<times> 'w) may_panic" where
  "sendPAC W proxy localAddr ks dl w =
     (case genPAC proxy localAddr ks dl of
        Inl p \<Rightarrow> Inl p
      | Inr b \<Rightarrow> (case W b w of (n, e, w1) \<Rightarrow> Inr (e, w1)))"

section \<open>What the script uses of JavaScript\<close>

text \<open>
  \<open>Number\<close> on a text of at most three characters without a dot: white space is trimmed, the empty text is
  zero, a prefix gives the base, and a decimal literal may have a sign and an exponent. The result None is NaN.
\<close>

definition js_space :: "char \<Rightarrow> bool" where
  "js_space c \<longleftrightarrow> byte_val c \<in> {9, 10, 11, 12, 13, 32}"

definition js_trim :: "bytes \<Rightarrow> bytes" where
  "js_trim s = rev (dropWhile js_space (rev (dropWhile js_space s)))"

definition js_decimal :: "bytes \<Rightarrow> int option" where
  "js_decimal s =
     (let ds = takeWhile is_digit_char s
      in if ds = [] then None
         else
           (case dropWhile is_digit_char s of
              [] \<Rightarrow> Some (int (dec_value 0 ds))
            | x # t \<Rightarrow>
                (if (x = CHR ''e'' \<or> x = CHR ''E'') \<and> t \<noteq> [] \<and> list_all is_digit_char t
                 then Some (int (dec_value 0 ds) * 10 ^ dec_value 0 t) else None)))"

definition js_digit :: "char \<Rightarrow> nat option" where
  "js_digit c =
     (let v = byte_val c in
      if 48 \<le> v \<and> v \<le> 57 then Some (v - 48)
      else if 97 \<le> v \<and> v \<le> 102 then Some (v - 87)
      else if 65 \<le> v \<and> v \<le> 70 then Some (v - 55)
      else None)"

definition js_radix :: "char \<Rightarrow> nat option" where
  "js_radix c =
     (if c = CHR ''x'' \<or> c = CHR ''X'' then Some 16
      else if c = CHR ''o'' \<or> c = CHR ''O'' then Some 8
      else if c = CHR ''b'' \<or> c = CHR ''B'' then Some 2
      else None)"

definition js_Number :: "bytes \<Rightarrow> int option" where
  "js_Number s =
     (case js_trim s of
        [] \<Rightarrow> Some 0
      | [z, x, d] \<Rightarrow>
          (case js_radix x of
             Some b \<Rightarrow>
               (if z = CHR ''0''
                then (case js_digit d of Some v \<Rightarrow> (if v < b then Some (int v) else None) | None \<Rightarrow> None)
                else None)
           | None \<Rightarrow>
               (if z = CHR ''+'' then js_decimal [x, d]
                else if z = CHR ''-'' then map_option uminus (js_decimal [x, d])
                else js_decimal [z, x, d]))
      | z # t \<Rightarrow>
          (if z = CHR ''+'' then js_decimal t
           else if z = CHR ''-'' then map_option uminus (js_decimal t)
           else js_decimal (z # t)))"

text \<open>
  \<open>s.lastIndexOf(c, from)\<close>, where a negative \<open>from\<close> counts as 0, and \<open>s.substring(a, b)\<close>, which swaps its
  arguments when the first is larger.
\<close>

definition js_lastIndexOf :: "bytes \<Rightarrow> char \<Rightarrow> int \<Rightarrow> nat option" where
  "js_lastIndexOf s c from = LastIndexByte (take (Suc (nat from)) s) c"

definition js_substring :: "bytes \<Rightarrow> nat \<Rightarrow> nat \<Rightarrow> bytes" where
  "js_substring s a b = take (max a b - min a b) (drop (min a b) s)"

text \<open>
  Looking up a name in an object made with \<open>{}\<close> also finds what every object has; all of that counts as
  true.
\<close>

definition js_object :: "bytes list" where
  "js_object =
     [''constructor'', ''hasOwnProperty'', ''isPrototypeOf'', ''propertyIsEnumerable'', ''toLocaleString'',
      ''toString'', ''valueOf'', ''__proto__'', ''__defineGetter__'', ''__defineSetter__'',
      ''__lookupGetter__'', ''__lookupSetter__'']"

definition js_lookup :: "(bytes \<Rightarrow> bool) \<Rightarrow> bytes \<Rightarrow> bool" where
  "js_lookup obj k \<longleftrightarrow> obj k \<or> k \<in> set js_object"

section \<open>The functions of the script\<close>

definition js_octet_ok :: "bytes \<Rightarrow> bool" where
  "js_octet_ok p =
     (if length p = 0 \<or> length p > 3 then False
      else case js_Number p of None \<Rightarrow> False | Some n \<Rightarrow> \<not> (n < 0 \<or> n > 255))"

definition js_hostIsIP :: "bytes \<Rightarrow> bool \<times> bool" where
  "js_hostIsIP host =
     (let part = Split host ''.''
      in if length part \<noteq> 4 then (False, False)
         else if \<not> list_all js_octet_ok (rev part) then (False, False)
         else if part ! 0 = ''127'' \<or> part ! 0 = ''10'' \<or> (part ! 0 = ''192'' \<and> part ! 1 = ''168'')
         then (True, True)
         else if part ! 0 = ''172'' \<and>
                 (case js_Number (part ! 1) of None \<Rightarrow> False | Some n \<Rightarrow> 16 \<le> n \<and> n \<le> 31)
         then (True, True)
         else (True, False))"

definition js_host2Domain :: "bytes \<Rightarrow> bytes" where
  "js_host2Domain host =
     (let (isIP, isPrivate) = js_hostIsIP host
      in if isPrivate then []
         else if isIP then host
         else
           (case LastIndexByte host (CHR ''.'') of
              None \<Rightarrow> []
            | Some lastDot \<Rightarrow>
                (case js_lastIndexOf host (CHR ''.'') (int lastDot - 1) of
                   None \<Rightarrow> host
                 | Some dot2ndLast \<Rightarrow>
                     (let part = js_substring host (dot2ndLast + 1) lastDot
                      in if js_lookup topLevelDomain part then
                           (case js_lastIndexOf host (CHR ''.'') (int dot2ndLast - 1) of
                              None \<Rightarrow> host
                            | Some dot3rdLast \<Rightarrow> drop (dot3rdLast + 1) host)
                         else drop (dot2ndLast + 1) host))))"

text \<open>\<open>directList\<close> is the array written into the script: an empty text and the sites.\<close>

definition js_directList :: "bytes \<Rightarrow> bytes list" where
  "js_directList dl = [] # Split dl direct_sep"

datatype pac_result = Go_Direct | Go_Proxy

definition js_FindProxyForURL :: "bytes \<Rightarrow> bytes \<Rightarrow> bytes \<Rightarrow> pac_result" where
  "js_FindProxyForURL dl url host =
     (let directAcc = (\<lambda>k. js_lookup (\<lambda>k. k \<in> set (js_directList dl)) k) in
      if take 4 url = ''ftp:'' then Go_Direct
      else if take 7 host = ''::ffff:'' then Go_Direct
      else if suffix ''.local'' host then Go_Direct
      else
        (let domain = js_host2Domain host
         in if length host = length domain then (if directAcc host then Go_Direct else Go_Proxy)
            else (if directAcc host \<or> directAcc domain then Go_Direct else Go_Proxy)))"

section \<open>The script agrees with the proxy on ordinary host names\<close>

text \<open>
  Host names of letters, digits and hyphens: no empty label, either only digits (an address) or a last
  label that begins with a letter, and no label that names a property of every object.
\<close>

definition dns_char :: "char \<Rightarrow> bool" where
  "dns_char c \<longleftrightarrow> is_digit_char c \<or> 97 \<le> byte_val c \<and> byte_val c \<le> 122 \<or> c = CHR ''-''"

definition dns_host :: "bytes \<Rightarrow> bool" where
  "dns_host h \<longleftrightarrow>
     (\<forall>l \<in> set (Split h ''.''). l \<noteq> [] \<and> list_all dns_char l \<and> l \<notin> set js_object) \<and>
     ((\<forall>l \<in> set (Split h ''.''). list_all is_digit_char l) \<or>
      97 \<le> byte_val (hd (last (Split h ''.''))))"

lemma dns_char_not_space: "dns_char c \<Longrightarrow> \<not> js_space c"
  by (auto simp: dns_char_def js_space_def is_digit_char_def)

lemma js_trim_id:
  assumes "list_all dns_char l"
  shows "js_trim l = l"
proof -
  have n: "list_all (\<lambda>c. \<not> js_space c) l" "list_all (\<lambda>c. \<not> js_space c) (rev l)"
    using assms by (auto simp: list_all_iff dns_char_not_space)
  show ?thesis by (simp add: js_trim_def dropWhile_none n)
qed

lemma js_decimal_digits:
  "l \<noteq> [] \<Longrightarrow> list_all is_digit_char l \<Longrightarrow> js_decimal l = Some (int (dec_value 0 l))"
  by (simp add: js_decimal_def takeWhile_all dropWhile_all)

lemma digit_not_radix: "is_digit_char c \<Longrightarrow> js_radix c = None"
proof -
  have "\<not> is_digit_char x" if "x \<in> {CHR ''x'', CHR ''X'', CHR ''o'', CHR ''O'', CHR ''b'', CHR ''B''}" for x
    using that by (auto simp: is_digit_char_def)
  then have "c \<notin> {CHR ''x'', CHR ''X'', CHR ''o'', CHR ''O'', CHR ''b'', CHR ''B''}" if "is_digit_char c"
    using that by blast
  then show "is_digit_char c \<Longrightarrow> js_radix c = None" unfolding js_radix_def by (simp only: insert_iff empty_iff) simp
qed

lemma js_Number_digits:
  assumes "l \<noteq> []" "list_all is_digit_char l"
  shows "js_Number l = Some (int (dec_value 0 l))"
proof -
  have tr: "js_trim l = l" by (rule js_trim_id) (use assms(2) in \<open>auto simp: list_all_iff dns_char_def\<close>)
  obtain z t where l: "l = z # t" using assms(1) by (cases l) auto
  have z: "z \<noteq> CHR ''+''" "z \<noteq> CHR ''-''" using assms(2) l by (auto dest: digit_not_sign)
  show ?thesis
    using assms l z tr js_decimal_digits [OF assms]
    by (auto simp: js_Number_def digit_not_radix split: list.splits)
qed

lemma js_Number_letter:
  assumes "list_all dns_char l" "l \<noteq> []" "97 \<le> byte_val (hd l)"
  shows "js_Number l = None"
proof -
  obtain z t where l: "l = z # t" using assms(2) by (cases l) auto
  have z: "z \<noteq> CHR ''+''" "z \<noteq> CHR ''-''" "z \<noteq> CHR ''0''" "\<not> is_digit_char z"
    using assms(3) l by (auto simp: is_digit_char_def)
  have d: "js_decimal (z # s) = None" for s using z by (simp add: js_decimal_def)
  show ?thesis
    using js_trim_id [OF assms(1)] l z d by (auto simp: js_Number_def split: list.splits option.splits)
qed

lemma Atoi_letter:
  assumes "list_all dns_char l" "l \<noteq> []" "97 \<le> byte_val (hd l)"
  shows "Atoi l = None"
  using assms by (cases l) (auto simp: Atoi_def is_digit_char_def)

lemma dec_value_bound: "list_all is_digit_char l \<Longrightarrow> dec_value a l < (a + 1) * 10 ^ length l"
proof (induction l arbitrary: a)
  case (Cons c l)
  then have "byte_val c - 48 \<le> 9" "dec_value (10 * a + (byte_val c - 48)) l < (10 * a + (byte_val c - 48) + 1) * 10 ^ length l"
    by (auto simp: is_digit_char_def)
  moreover have "(10 * a + (byte_val c - 48) + 1) * 10 ^ length l \<le> (10 * a + 10) * 10 ^ length l"
    using \<open>byte_val c - 48 \<le> 9\<close> by (intro mult_right_mono) auto
  ultimately show ?case by (simp add: algebra_simps)
qed simp

lemma Atoi_digits:
  assumes "l \<noteq> []" "list_all is_digit_char l" "length l \<le> 3"
  shows "Atoi l = Some (int (dec_value 0 l))"
proof -
  have "dec_value 0 l < 10 ^ length l" using dec_value_bound [OF assms(2), of 0] by simp
  also have "(10 :: nat) ^ length l \<le> 10 ^ 3" using assms(3) by (intro power_increasing) auto
  finally have "int (dec_value 0 l) < 2 ^ 63" by simp
  moreover have "hd l \<noteq> CHR ''-'' \<and> hd l \<noteq> CHR ''+''" using assms by (cases l) (auto dest: digit_not_sign)
  ultimately show ?thesis using assms by (simp add: Atoi_def Let_def)
qed

lemma octets_agree:
  assumes "list_all is_digit_char l"
  shows "js_octet_ok l = octet_ok l"
  using assms by (cases "l = [] \<or> length l > 3") (auto simp: js_octet_ok_def octet_ok_def Atoi_digits js_Number_digits)

lemma js_hostIsIP_agrees:
  assumes "dns_host h"
  shows "js_hostIsIP h = hostIsIP h"
proof -
  let ?p = "Split h ''.''"
  have lab: "l \<in> set ?p \<Longrightarrow> l \<noteq> [] \<and> list_all dns_char l" for l using assms by (auto simp: dns_host_def)
  show ?thesis
  proof (cases "\<forall>l \<in> set ?p. list_all is_digit_char l")
    case True
    then have oct: "list_all js_octet_ok (rev ?p) = list_all octet_ok ?p"
      by (auto simp: list_all_iff octets_agree)
    show ?thesis
    proof (cases "length ?p = 4 \<and> list_all octet_ok ?p")
      case four: True
      then have "?p ! 1 \<in> set ?p" by simp
      then have "?p ! 1 \<noteq> []" "list_all is_digit_char (?p ! 1)"
        using lab True by auto
      moreover have "octet_ok (?p ! 1)" using four \<open>?p ! 1 \<in> set ?p\<close> by (auto simp: list_all_iff)
      then have "length (?p ! 1) \<le> 3" by (auto simp: octet_ok_def split: if_splits)
      ultimately show ?thesis using oct four
        by (simp add: js_hostIsIP_def hostIsIP_def Let_def Atoi_digits js_Number_digits)
    next
      case False
      with oct show ?thesis by (auto simp: js_hostIsIP_def hostIsIP_def Let_def)
    qed
  next
    case False
    let ?l = "last ?p"
    have "?p \<noteq> []" by (simp add: Split_char)
    then have "?l \<in> set ?p" by simp
    with False assms lab have l: "?l \<noteq> []" "list_all dns_char ?l" "97 \<le> byte_val (hd ?l)"
      by (auto simp: dns_host_def)
    then have "\<not> js_octet_ok ?l" "\<not> octet_ok ?l"
      by (auto simp: js_octet_ok_def octet_ok_def js_Number_letter Atoi_letter)
    then have "\<not> list_all js_octet_ok (rev ?p)" "\<not> list_all octet_ok ?p"
      using \<open>?l \<in> set ?p\<close> by (auto simp: list_all_iff)
    then show ?thesis by (simp add: js_hostIsIP_def hostIsIP_def Let_def)
  qed
qed


lemma dns_host_labels:
  assumes "dns_host h" "l \<in> set (split_char (CHR ''.'') h)"
  shows "l \<noteq> []" "l \<notin> set js_object"
  using assms by (auto simp: dns_host_def Split_char)

lemma dns_host_first: 
  assumes "dns_host h"
  shows "h ! 0 \<noteq> CHR ''.''" "h \<noteq> []"
proof -
  show "h \<noteq> []"
  proof
    assume "h = []"
    then have "[] \<in> set (split_char (CHR ''.'') h)" by simp
    then show False using dns_host_labels(1) [OF assms] by blast
  qed
  then obtain x t where h: "h = x # t" by (cases h) auto
  show "h ! 0 \<noteq> CHR ''.''"
  proof
    assume "h ! 0 = CHR ''.''"
    then have "[] \<in> set (split_char (CHR ''.'') h)" using h by simp
    then show False using dns_host_labels(1) [OF assms] by blast
  qed
qed

lemma split_char_last: "s \<noteq> [] \<Longrightarrow> last s = c \<Longrightarrow> last (split_char c s) = []"
  by (metis append_butlast_last_id last_appendR list.distinct(1) list.sel(1) last_ConsL split_char.simps(1) split_char_append)

lemma dns_host_trim:
  assumes "dns_host h"
  shows "trimLastDot h = h"
proof -
  have "last (split_char (CHR ''.'') h) \<noteq> []" using dns_host_labels(1) [OF assms] by simp
  then show ?thesis using split_char_last [of h "CHR ''.''"] by (auto simp: trimLastDot_def)
qed

lemma js_lastIndexOf_before:
  assumes "0 < i"
  shows "js_lastIndexOf h c (int i - 1) = LastIndexByte (take i h) c"
proof -
  have "Suc (nat (int i - 1)) = i" using assms by simp
  then show ?thesis by (simp only: js_lastIndexOf_def)
qed

lemma dns_host_dot:
  assumes "dns_host h" "LastIndexByte (take k h) (CHR ''.'') = Some i"
  shows "0 < i" "i < length h"
proof -
  have i: "i < length (take k h)" "take k h ! i = CHR ''.''" using LastIndexByte_Some [OF assms(2)] by auto
  then have "h ! i = CHR ''.''" by simp
  then show "0 < i" using dns_host_first(1) [OF assms(1)] by (cases i) auto
  show "i < length h" using i(1) by simp
qed

lemma js_host2Domain_agrees:
  assumes "dns_host h"
  shows "js_host2Domain h = host2Domain h"
proof -
  obtain isIP isPrivate where ip: "hostIsIP h = (isIP, isPrivate)" by (cases "hostIsIP h")
  show ?thesis
  proof (cases "LastIndexByte h (CHR ''.'')")
    case None
    then show ?thesis
      by (simp add: js_host2Domain_def host2Domain_def js_hostIsIP_agrees [OF assms] ip dns_host_trim [OF assms])
  next
    case i: (Some i)
    have i0: "0 < i" "i < length h" using dns_host_dot [OF assms, of "length h"] i by auto
    show ?thesis
    proof (cases "LastIndexByte (take i h) (CHR ''.'')")
      case None
      with i i0 show ?thesis
        by (simp add: js_host2Domain_def host2Domain_def js_hostIsIP_agrees [OF assms] ip dns_host_trim [OF assms]
            js_lastIndexOf_before)
    next
      case j: (Some j)
      have j0: "0 < j" "j < i" using dns_host_dot [OF assms j] LastIndexByte_Some [OF j] by auto
      let ?part = "take (i - Suc j) (drop (Suc j) h)"
      have "split_char (CHR ''.'') h = split_char (CHR ''.'') (take j h) @ [?part, drop (Suc i) h]"
        using labels_snoc [OF i] labels_snoc [OF j] j0 by (simp add: drop_take)
      then have "?part \<notin> set js_object" using dns_host_labels(2) [OF assms, of ?part] by simp
      moreover have "js_substring h (j + 1) i = ?part" using j0 by (simp add: js_substring_def)
      ultimately show ?thesis using i i0 j j0
        by (simp add: js_host2Domain_def host2Domain_def js_hostIsIP_agrees [OF assms] ip dns_host_trim [OF assms]
            js_lastIndexOf_before js_lookup_def Let_def)
    qed
  qed
qed

section \<open>The direct list in the script\<close>

text \<open>The array of the script holds the empty text and exactly the sites of the direct list.\<close>

lemma js_directList_sites:
  assumes "\<forall>s \<in> set (GetDirectList ss). CHR 0x22 \<notin> set s"
  shows "set (js_directList (updateDirectList ss)) = insert [] (set (GetDirectList ss))"
proof (cases "GetDirectList ss = []")
  case True
  then show ?thesis by (simp add: js_directList_def updateDirectList_def Split_def)
next
  case False
  with assms have "Split (Join (GetDirectList ss) direct_sep) direct_sep = GetDirectList ss"
    by (intro Split_Join) (auto simp: direct_sep_def)
  then show ?thesis by (simp add: js_directList_def updateDirectList_def)
qed

section \<open>Domains of domains\<close>

lemma host2Domain_idem:
  assumes "dns_host h" "host2Domain h \<noteq> []"
  shows "host2Domain (host2Domain h) = host2Domain h"
proof (cases "fst (hostIsIP h)")
  case True
  then have "host2Domain h = h" using assms(2) by (simp add: host2Domain_eq_labels split: if_splits)
  then show ?thesis by simp
next
  case False
  then have np: "\<not> snd (hostIsIP h)" by (auto simp: hostIsIP_def Let_def split: if_splits)
  let ?ls = "split_char (CHR ''.'') h"
  let ?n = "length ?ls"
  define k where "k = (if ?n > 2 \<and> topLevelDomain (?ls ! (?n - 2)) then 3 else 2 :: nat)"
  have d: "host2Domain h = domain_of_labels ?ls"
    using False np by (simp add: host2Domain_eq_labels dns_host_trim [OF assms(1)] Split_char)
  then have n: "2 \<le> ?n" using assms(2) by (auto simp: domain_of_labels_def Let_def split: if_splits)
  have kn: "k \<le> ?n" "2 \<le> k" "k \<le> 3" using n by (auto simp: k_def)
  let ?ds = "drop (?n - k) ?ls"
  have dj: "host2Domain h = Join ?ds ''.''" using d n kn by (simp add: domain_of_labels_def k_def Let_def)
  have in_ls: "set ?ds \<subseteq> set ?ls" by (rule set_drop_subset)
  have ds: "?ds \<noteq> []" "length ?ds = k" using kn by auto
  have no_dot: "\<forall>l \<in> set ?ds. CHR ''.'' \<notin> set l" using in_ls split_char_parts by blast
  have "last ?ds \<in> set ?ds" using ds(1) by (rule last_in_set)
  then have lst: "last ?ds \<noteq> []" using in_ls dns_host_labels(1) [OF assms(1)] by blast
  have sp: "split_char (CHR ''.'') (host2Domain h) = ?ds" unfolding dj using ds(1) no_dot by (rule split_char_Join)
  have tr: "trimLastDot (host2Domain h) = host2Domain h"
    using split_char_last [of "host2Domain h" "CHR ''.''"] sp lst by (auto simp: trimLastDot_def)
  have ip: "hostIsIP (host2Domain h) = (False, False)"
    using sp ds(2) kn by (simp add: hostIsIP_def Split_char)
  have "domain_of_labels ?ds = Join ?ds ''.''"
    using ds(2) kn n by (auto simp: domain_of_labels_def k_def Let_def split: if_splits)
  then show ?thesis using ip tr sp dj by (simp add: host2Domain_eq_labels Split_char)
qed


section \<open>Blocked sites in the script\<close>

text \<open>What the file returned for the direct list \<open>dl\<close> does; without a list it is a single function.\<close>

definition pac_FindProxyForURL :: "bytes \<Rightarrow> bytes \<Rightarrow> bytes \<Rightarrow> pac_result" where
  "pac_FindProxyForURL dl url host = (if dl = [] then Go_Proxy else js_FindProxyForURL dl url host)"

lemma object_names_no_dot: "k \<in> set js_object \<Longrightarrow> CHR ''.'' \<notin> set k"
  by (auto simp: js_object_def)

lemma dns_host_no_colon:
  assumes "dns_host h"
  shows "take 7 h \<noteq> ''::ffff:''"
proof
  assume a: "take 7 h = ''::ffff:''"
  then obtain t where h: "h = CHR '':'' # t" by (cases h) auto
  have "hd (split_char (CHR ''.'') h) \<in> set (split_char (CHR ''.'') h)" by simp
  moreover have "CHR '':'' \<in> set (hd (split_char (CHR ''.'') h))" using h by simp
  ultimately have "dns_char (CHR '':'')" using assms unfolding dns_host_def Split_char list_all_iff by blast
  then show False by (simp add: dns_char_def is_digit_char_def)
qed


lemma ex_dns_host: "dns_host ''mail.example.com''"
  by code_simp


text \<open>
  Where the script and the proxy differ: labels that name a property of every object, addresses with a part that
  JavaScript reads as a number, and a dot at the end.
\<close>

lemma script_domains_differ:
  "js_host2Domain ''a.b.constructor.com'' = ''b.constructor.com'' \<and> host2Domain ''a.b.constructor.com'' = ''constructor.com''"
  "js_host2Domain ''1e2.1.1.1'' = ''1e2.1.1.1'' \<and> host2Domain ''1e2.1.1.1'' = ''1.1''"
  "js_host2Domain ''www.example.com.'' = ''example.com.'' \<and> host2Domain ''www.example.com.'' = ''example.com''"
  by code_simp+

text \<open>\<open>genPAC\<close> accepts only the type \<open>*httpProxy\<close>: on a listener merged with SOCKS5 it panics.\<close>

lemma genPAC_mixed_panics: "genPAC (MixedProxy a h s) localAddr ks dl = Inl ''sendPAC should only be called for http proxy''"
  by (simp add: genPAC_def)

end
