(* ===== verification/Serve.thy ===== *)
theory Serve
  imports Forward Auth Pac
begin

text \<open>
  proxy.go, a whole HTTP client: \<open>isSelfRequest\<close>, \<open>serveSelfURL\<close> and the loop of \<open>serve\<close>, which reads a request,
  answers what is meant for the proxy itself, authenticates the client, and hands the request to the attempts
  modelled in \<open>Forward\<close>.

  The loop starts with a check that the client's read buffer is there; it is released only by a tunnel, after which
  \<open>serve\<close> returns. Traffic capture is off; only its certificate can be fetched.
\<close>

section \<open>State\<close>

text \<open>
  \<open>k_authed\<close> is the local variable \<open>authed\<close>. \<open>q_self\<close> holds the keys of \<open>selfListenAddr\<close>, \<open>q_direct\<close> gives the direct
  list that another goroutine keeps up to date, \<open>q_tops\<close> an order of the map \<open>topLevelDomain\<close>. \<open>q_captureCA\<close> is
  \<open>None\<close> if \<open>config.Capture\<close> is off, and the certificate otherwise.
\<close>

record ('cr, 'sr, 'sw, 'e) cli =
  k_f :: "('cr, 'sr, 'sw, 'e) fwd"
  k_auth :: auth_state
  k_authed :: bool

record ('cr, 'sr, 'sw, 'e) cli_env =
  q_P :: "('cr, 'sr, 'sw, 'e) fwd_env"
  q_proxy :: listen_proxy
  q_self :: "bytes list"
  q_saveReqLine :: bool
  q_addr :: cli_addr
  q_tops :: "bytes list"
  q_direct :: "'e \<Rightarrow> bytes"
  q_captureCA :: "bytes option"

definition k_env :: "('cr, 'sr, 'sw, 'e) cli \<Rightarrow> 'e" where
  "k_env s = w_env (f_w (k_f s))"

definition set_env :: "'e \<Rightarrow> ('cr, 'sr, 'sw, 'e) cli \<Rightarrow> ('cr, 'sr, 'sw, 'e) cli" where
  "set_env e s = s \<lparr>k_f := (k_f s) \<lparr>f_w := (f_w (k_f s)) \<lparr>w_env := e\<rparr>\<rparr>\<rparr>"

definition page :: "('cr, 'sr, 'sw, 'e) cli_env \<Rightarrow> bytes \<Rightarrow> ('cr, 'sr, 'sw, 'e) cli \<Rightarrow> ('cr, 'sr, 'sw, 'e) cli" where
  "page Q codeReason s = set_env (xe_page (p_E (q_P Q)) codeReason (k_env s)) s"

section \<open>Requests for the proxy itself\<close>

definition pac_path :: "bytes \<Rightarrow> bool" where
  "pac_path p \<longleftrightarrow> p = ''/pac'' \<or> prefix ''/pac?'' p"

text \<open>\<open>isSelfRequest\<close> also completes the URL from the \<open>Host\<close> header.\<close>

definition isSelfRequest :: "bytes list \<Rightarrow> Request \<Rightarrow> bool \<times> Request" where
  "isSelfRequest self r =
     (if url_HostPort (URL r) \<noteq> [] then (False, r)
      else if pac_path (url_Path (URL r)) then (True, r)
      else
        (let r1 = r \<lparr>URL := ParseHostPort (URL r) (Host (header r))\<rparr>
         in (url_Host (URL r1) \<in> set self, r1)))"

definition captureCAURLPath :: bytes where
  "captureCAURLPath = ''/cow-ca.crt''"

definition sendCaptureCA :: "'w writer \<Rightarrow> bytes \<Rightarrow> 'w \<Rightarrow> err option \<times> 'w" where
  "sendCaptureCA W certPEM w =
     (if certPEM = [] then (Some (ErrorString ''capture CA is not available''), w)
      else
        (case W (''HTTP/1.1 200 OK'' @ CRLF @ ''Content-Type: application/x-x509-ca-cert'' @ CRLF @
                 ''Content-Disposition: attachment; filename='' @ [CHR 0x22] @ ''cow-ca.crt'' @ [CHR 0x22] @ CRLF @
                 ''Content-Length: '' @ Itoa (int (length certPEM)) @ CRLF @ ''Connection: close'' @ CRLF @ CRLF) w of
           (n, Some e, w1) \<Rightarrow> (Some e, w1)
         | (n, None, w1) \<Rightarrow> (case W certPEM w1 of (n2, e2, w2) \<Rightarrow> (e2, w2))))"

definition page_not_found :: "('cr, 'sr, 'sw, 'e) cli_env \<Rightarrow> 'e \<Rightarrow> (err \<times> 'e) may_panic" where
  "page_not_found Q e = Inr (ErrPageSent, xe_page (p_E (q_P Q)) ''404 not found'' e)"

text \<open>\<open>serveSelfURL\<close> always returns an error, which ends the connection.\<close>

definition serveSelfURL :: "('cr, 'sr, 'sw, 'e) cli_env \<Rightarrow> Request \<Rightarrow> 'e \<Rightarrow> (err \<times> 'e) may_panic" where
  "serveSelfURL Q r e =
     (let http = (case q_proxy Q of HttpProxy _ \<Rightarrow> True | MixedProxy _ _ _ \<Rightarrow> True | _ \<Rightarrow> False) in
      if \<not> http \<or> Method r \<noteq> ''GET'' then page_not_found Q e
      else if pac_path (url_Path (URL r)) then
        (case sendPAC (p_cw (q_P Q)) (q_proxy Q) (localAddr (q_addr Q)) (q_tops Q) (q_direct Q e) e of
           Inl p \<Rightarrow> Inl p
         | Inr (er, e1) \<Rightarrow> Inr (ErrPageSent, e1))
      else
        (case q_captureCA Q of
           Some cert \<Rightarrow>
             (if url_Path (URL r) = captureCAURLPath then
                (case sendCaptureCA (p_cw (q_P Q)) cert e of
                   (Some er, e1) \<Rightarrow> Inr (er, e1)
                 | (None, e1) \<Rightarrow> Inr (ErrPageSent, e1))
              else page_not_found Q e)
         | None \<Rightarrow> page_not_found Q e))"

section \<open>One request\<close>

definition statusForbidden :: bytes where
  "statusForbidden = ''403 Forbidden''"

definition statusExpectFailed :: bytes where
  "statusExpectFailed = ''417 Expectation Failed''"

definition statusRequestTimeout :: bytes where
  "statusRequestTimeout = ''408 Request Timeout''"

definition bad_request ::
    "('cr, 'sr, 'sw, 'e) cli_env \<Rightarrow> err \<Rightarrow> (('cr, 'sr, 'sw, 'e) cli, next_step) io" where
  "bad_request Q e s =
     Some (Ok CloseClient,
       if e = EOF \<or> isErrConnReset e then s
       else if e \<noteq> ErrClientTimeout then page Q ''404 Bad request'' s
       else page Q statusRequestTimeout s)"

text \<open>The authentication of a request, if it is required and was not done on this connection.\<close>

definition check_auth ::
    "('cr, 'sr, 'sw, 'e) cli_env \<Rightarrow> (('cr, 'sr, 'sw, 'e) cli, bool) io" where
  "check_auth Q s =
     (if auth_required (k_auth s) \<and> \<not> k_authed s then
        (case Authenticate (p_uni (q_P Q)) \<lparr>co_write = p_cw (q_P Q), co_page = xe_page (p_E (q_P Q))\<rparr>
                (w_now (p_E (q_P Q)) (f_w (k_f s))) (q_addr Q) (f_rq (k_f s)) (k_auth s) (k_env s) of
           Inl p \<Rightarrow> Some (Panic p, s)
         | Inr (None, a, e) \<Rightarrow> Some (Ok True, set_env e (s \<lparr>k_auth := a, k_authed := True\<rparr>))
         | Inr (Some x, a, e) \<Rightarrow> Some (Ok False, set_env e (s \<lparr>k_auth := a\<rparr>)))
      else Some (Ok True, s))"

definition on_fwd :: "(('cr, 'sr, 'sw, 'e) fwd, 'a) io \<Rightarrow> (('cr, 'sr, 'sw, 'e) cli, 'a) io" where
  "on_fwd m s = map_option (\<lambda>(res, f). (res, s \<lparr>k_f := f\<rparr>)) (m (k_f s))"

text \<open>What follows the authentication: the port of a tunnel, the \<open>Expect\<close> header, and the attempts.\<close>

definition forward_request ::
    "('cr, 'sr, 'sw, 'e) cli_env \<Rightarrow> (('cr, 'sr, 'sw, 'e) cli, next_step) io" where
  "forward_request Q s =
     (let r = f_rq (k_f s) in
      if isConnect r \<and> \<not> portAllowed (p_C (q_P Q)) (url_Port (URL r))
      then Some (Ok CloseClient, page Q statusForbidden s)
      else if ExpectContinue (header r) then Some (Ok CloseClient, page Q statusExpectFailed s)
      else on_fwd (serve_retry (q_P Q)) s)"

definition serve_request ::
    "('cr, 'sr, 'sw, 'e) cli_env \<Rightarrow> (('cr, 'sr, 'sw, 'e) cli, next_step) io" where
  "serve_request Q s =
     (case parseRequest (p_uni (q_P Q)) (q_saveReqLine Q) (p_cli (q_P Q)) (f_rq (k_f s)) (f_cli (k_f s)) of
        None \<Rightarrow> None
      | Some (Some e, rq, c) \<Rightarrow> bad_request Q e (s \<lparr>k_f := (k_f s) \<lparr>f_rq := rq, f_cli := c\<rparr>\<rparr>)
      | Some (None, rq, c) \<Rightarrow>
          (case isSelfRequest (q_self Q) rq of
             (self, rq1) \<Rightarrow>
               (let s1 = s \<lparr>k_f := (k_f s) \<lparr>f_rq := rq1, f_cli := c\<rparr>\<rparr>
                in if self then
                     (case serveSelfURL Q rq1 (k_env s1) of
                        Inl p \<Rightarrow> Some (Panic p, s1)
                      | Inr (er, e) \<Rightarrow> Some (Ok CloseClient, set_env e s1))
                   else
                     io_bind (check_auth Q)
                       (\<lambda>ok. if ok then forward_request Q else io_ret CloseClient) s1)))"

section \<open>The loop\<close>

partial_function (option) serve_loop ::
    "('cr, 'sr, 'sw, 'e) cli_env \<Rightarrow> ('cr, 'sr, 'sw, 'e) cli \<Rightarrow> (next_step outcome \<times> ('cr, 'sr, 'sw, 'e) cli) option" where
  "serve_loop Q s =
     Option.bind (serve_request Q s) (\<lambda>(res, s1). if res = Ok NextRequest then serve_loop Q s1 else Some (res, s1))"

text \<open>A client of a cow listener has shown the password of the listener by encrypting with it.\<close>

definition serve ::
    "('cr, 'sr, 'sw, 'e) cli_env \<Rightarrow> ('cr, 'sr, 'sw, 'e) cli \<Rightarrow> (next_step outcome \<times> ('cr, 'sr, 'sw, 'e) cli) option" where
  "serve Q s =
     serve_loop Q (s \<lparr>k_authed := (case q_proxy Q of CowProxy _ _ _ \<Rightarrow> True | _ \<Rightarrow> False)\<rparr>)"

text \<open>The requests of a connection one after the other, also for connections that never end.\<close>

inductive serve_steps ::
    "('cr, 'sr, 'sw, 'e) cli_env \<Rightarrow> ('cr, 'sr, 'sw, 'e) cli \<Rightarrow> next_step outcome \<Rightarrow> ('cr, 'sr, 'sw, 'e) cli \<Rightarrow> bool"
    for Q s0 where
  first: "serve_steps Q s0 (Ok NextRequest) s0"
| more: "serve_steps Q s0 (Ok NextRequest) s \<Longrightarrow> serve_request Q s = Some (res, s1) \<Longrightarrow> serve_steps Q s0 res s1"

section \<open>Authentication comes first\<close>

text \<open>Nothing of what the proxy shares with other clients, and no server, has seen this connection.\<close>

definition untouched :: "('cr, 'sr, 'sw, 'e) cli \<Rightarrow> ('cr, 'sr, 'sw, 'e) cli \<Rightarrow> bool" where
  "untouched s s1 \<longleftrightarrow>
     f_out (k_f s1) = f_out (k_f s) \<and> f_srv (k_f s1) = f_srv (k_f s) \<and>
     w_site (f_w (k_f s1)) = w_site (f_w (k_f s)) \<and> w_pool (f_w (k_f s1)) = w_pool (f_w (k_f s)) \<and>
     w_parent (f_w (k_f s1)) = w_parent (f_w (k_f s)) \<and> w_times (f_w (k_f s1)) = w_times (f_w (k_f s))"

lemma untouched_simps [simp]:
  "untouched s s"
  "untouched s (set_env e s1) = untouched s s1"
  "untouched s (page Q code s1) = untouched s s1"
  "untouched s (s1 \<lparr>k_auth := a\<rparr>) = untouched s s1"
  "untouched s (s \<lparr>k_f := (k_f s) \<lparr>f_rq := rq, f_cli := c\<rparr>\<rparr>)"
  by (simp_all add: untouched_def set_env_def page_def)

lemma k_authed_simps [simp]:
  "k_authed (set_env e s) = k_authed s" "k_authed (page Q c s) = k_authed s"
  by (simp_all add: set_env_def page_def)

lemma on_fwd_authed: "on_fwd m s = Some (res, s1) \<Longrightarrow> k_authed s1 = k_authed s \<and> k_auth s1 = k_auth s"
  by (auto simp: on_fwd_def)

lemma forward_request_authed:
  "forward_request Q s = Some (res, s1) \<Longrightarrow> k_authed s1 = k_authed s"
  by (auto simp: forward_request_def Let_def dest: on_fwd_authed split: if_splits)

lemma serve_request_authed:
  assumes "serve_request Q s = Some (res, s1)" "k_authed s"
  shows "k_authed s1"
proof -
  have fr: "k_authed s2" if "io_bind (check_auth Q) (\<lambda>ok. if ok then forward_request Q else io_ret CloseClient) s1 = Some (r, s2)"
      "k_authed s1" for s1 s2 r
    using that forward_request_authed [of Q s1 r s2] by (auto simp: check_auth_def)
  show ?thesis
    using assms fr
    by (auto simp: serve_request_def bad_request_def Let_def split: option.splits prod.splits sum.splits if_splits)
qed

lemma isSelfRequest_same:
  "isSelfRequest self r = (b, r1) \<Longrightarrow> header r1 = header r \<and> Method r1 = Method r \<and> isConnect r1 = isConnect r"
  by (auto simp: isSelfRequest_def Let_def split: if_splits)

text \<open>The request at the front of a client's stream.\<close>

definition next_request :: "('cr, 'sr, 'sw, 'e) cli_env \<Rightarrow> ('cr, 'sr, 'sw, 'e) cli \<Rightarrow> Request option" where
  "next_request Q s =
     (case parseRequest (p_uni (q_P Q)) (q_saveReqLine Q) (p_cli (q_P Q)) (f_rq (k_f s)) (f_cli (k_f s)) of
        Some (None, rq, c) \<Rightarrow> Some rq | _ \<Rightarrow> None)"

definition may_enter :: "('cr, 'sr, 'sw, 'e) cli_env \<Rightarrow> ('cr, 'sr, 'sw, 'e) cli \<Rightarrow> bytes \<Rightarrow> TimeoutSet \<Rightarrow> Request \<Rightarrow> bool" where
  "may_enter Q s ip ts rq \<longleftrightarrow>
     (let now = w_now (p_E (q_P Q)) (f_w (k_f s))
      in fst (ts_has now ip ts) \<or> authIP ip (k_auth s) = Inr True \<or>
         shown_proof (p_uni (q_P Q)) now (k_auth s) (q_addr Q) rq)"

lemma shown_proof_cong:
  "header r1 = header r \<Longrightarrow> Method r1 = Method r \<Longrightarrow> shown_proof uni now a cl r1 = shown_proof uni now a cl r"
  by (simp add: shown_proof_def)

lemma check_auth_cases:
  assumes "check_auth Q s = Some (res, s1)" "\<not> k_authed s" "auth_required (k_auth s)"
    and "auth_ok (k_auth s)" "authed (k_auth s) = Some ts" "0 \<le> ts_timeout ts"
    and "SplitHostPort (remoteAddr (q_addr Q)) = Some (ip, port)" "ParseIP ip \<noteq> None"
  shows "res = Ok True \<and> k_authed s1 \<and> may_enter Q s ip ts (f_rq (k_f s)) \<or>
    res = Ok False \<and> \<not> k_authed s1 \<and> untouched s s1 \<and> \<not> may_enter Q s ip ts (f_rq (k_f s))"
proof -
  obtain e a' w' where a: "Authenticate (p_uni (q_P Q)) \<lparr>co_write = p_cw (q_P Q), co_page = xe_page (p_E (q_P Q))\<rparr>
      (w_now (p_E (q_P Q)) (f_w (k_f s))) (q_addr Q) (f_rq (k_f s)) (k_auth s) (k_env s) = Inr (e, a', w')"
    "e = None \<longleftrightarrow> may_enter Q s ip ts (f_rq (k_f s))"
    using Authenticate_iff [OF assms(4,5,7,8,6)] unfolding may_enter_def Let_def by metis
  show ?thesis using assms(1-3) a by (cases e) (auto simp: check_auth_def)
qed

lemma first_request:
  assumes "serve_request Q s = Some (res, s1)" "\<not> k_authed s" "auth_required (k_auth s)"
    and "auth_ok (k_auth s)" "authed (k_auth s) = Some ts" "0 \<le> ts_timeout ts"
    and "SplitHostPort (remoteAddr (q_addr Q)) = Some (ip, port)" "ParseIP ip \<noteq> None"
  shows "if k_authed s1 then \<exists>rq. next_request Q s = Some rq \<and> may_enter Q s ip ts rq
    else untouched s s1 \<and> res \<noteq> Ok NextRequest"
proof (cases "next_request Q s")
  case None
  then show ?thesis using assms(1,2)
    by (auto simp: serve_request_def next_request_def bad_request_def split: option.splits prod.splits if_splits)
next
  case (Some rq)
  then obtain c where p: "parseRequest (p_uni (q_P Q)) (q_saveReqLine Q) (p_cli (q_P Q)) (f_rq (k_f s)) (f_cli (k_f s))
      = Some (None, rq, c)" by (auto simp: next_request_def split: option.splits)
  obtain self rq1 where self: "isSelfRequest (q_self Q) rq = (self, rq1)" by fastforce
  define t where "t = s \<lparr>k_f := (k_f s) \<lparr>f_rq := rq1, f_cli := c\<rparr>\<rparr>"
  have t: "untouched s t" "k_authed t = k_authed s" "k_auth t = k_auth s" "f_rq (k_f t) = rq1"
      "f_w (k_f t) = f_w (k_f s)" by (simp_all add: t_def)
  have same: "may_enter Q t ip ts rq1 = may_enter Q s ip ts rq"
    using isSelfRequest_same [OF self] shown_proof_cong [of rq1 rq] by (simp add: may_enter_def t Let_def)
  show ?thesis
  proof (cases self)
    case True
    then show ?thesis using assms(1,2) p self t(1,2)
      by (auto simp: serve_request_def Let_def simp flip: t_def split: sum.splits)
  next
    case False
    then have b: "io_bind (check_auth Q) (\<lambda>ok. if ok then forward_request Q else io_ret CloseClient) t = Some (res, s1)"
      using assms(1) p self by (simp add: serve_request_def Let_def t_def)
    then obtain o1 t1 where c: "check_auth Q t = Some (o1, t1)" by (cases "check_auth Q t") (auto simp: io_bind_def)
    consider "o1 = Ok True" "k_authed t1" "may_enter Q s ip ts rq" | "o1 = Ok False" "\<not> k_authed t1" "untouched t t1"
      using check_auth_cases [OF c] assms(2-) t same by metis
    then show ?thesis
    proof cases
      case 1
      then show ?thesis using b c Some forward_request_authed by auto
    next
      case 2
      then show ?thesis using b c t by (auto simp: io_ret_def untouched_def)
    qed
  qed
qed

lemma authentication_steps:
  assumes "serve_steps Q s0 res s" "\<not> k_authed s0" "auth_required (k_auth s0)"
    and "auth_ok (k_auth s0)" "authed (k_auth s0) = Some ts" "0 \<le> ts_timeout ts"
    and "SplitHostPort (remoteAddr (q_addr Q)) = Some (ip, port)" "ParseIP ip \<noteq> None"
  shows "if k_authed s then \<exists>rq. next_request Q s0 = Some rq \<and> may_enter Q s0 ip ts rq
    else untouched s0 s \<and> (res = Ok NextRequest \<longrightarrow> s = s0)"
  using assms(1)
proof (induction rule: serve_steps.induct)
  case first
  then show ?case using assms(2) by simp
next
  case (more s res s1)
  show ?case
  proof (cases "k_authed s")
    case True
    then show ?thesis using more serve_request_authed by auto
  next
    case False
    then have "s = s0" using more.IH by simp
    then show ?thesis using first_request [OF more.hyps(2) False] assms(2-) by auto
  qed
qed


text \<open>
  C2: where authentication is required, it comes before everything else. As long as the client of an HTTP listener was
  not let in, no byte went to a server, no server connection was taken or made and nothing was learnt about a site. The
  client is let in only by its first request, if its address is remembered or allowed or that request shows the
  password of a user; otherwise no further request is served on the connection.
\<close>

theorem authentication_first:
  assumes "serve_steps Q s0 res s" "\<not> k_authed s0" "auth_required (k_auth s0)"
    and "auth_ok (k_auth s0)" "authed (k_auth s0) = Some ts" "0 \<le> ts_timeout ts"
    and "SplitHostPort (remoteAddr (q_addr Q)) = Some (ip, port)" "ParseIP ip \<noteq> None"
  shows "if k_authed s then \<exists>rq. next_request Q s0 = Some rq \<and> may_enter Q s0 ip ts rq
    else untouched s0 s \<and> (res = Ok NextRequest \<longrightarrow> s = s0)"
  by (rule authentication_steps [OF assms])

section \<open>Examples\<close>

definition ex_cli_env :: "listen_proxy \<Rightarrow> (mem_state, mem_state, bytes, bytes) cli_env" where
  "ex_cli_env p = \<lparr>q_P = ex_fwd_env buffer_write, q_proxy = p, q_self = [[], ''127.0.0.1'', ''localhost''],
     q_saveReqLine = False, q_addr = ex_cl, q_tops = [''com''], q_direct = (\<lambda>e. []), q_captureCA = None\<rparr>"

definition ex_cli :: "bytes list \<Rightarrow> (mem_state, mem_state, bytes, bytes) cli" where
  "ex_cli cli = \<lparr>k_f = ex_fwd cli [] [] zeroRequest, k_auth = ex_auth, k_authed = False\<rparr>"

definition ex_listener :: listen_proxy where
  "ex_listener = HttpProxy \<lparr>hx_addr = ''127.0.0.1:7777'', hx_port = ''7777'', hx_addrInPAC = []\<rparr>"

lemma ex_parsed: "\<exists>q r'. parseRequest (\<lambda>s. s) False (mem_reader httpBufSize) zeroRequest (mem_open [ex_request] EOF) = Some (None, q, r') \<and>
    header q = ex_parsed_header \<and> URL q = ex_request_url"
proof -
  have "mem_str (mem_open [ex_request] EOF) = ex_request_line @ LF # header_lines ex_headers @ CRLF @ ''body''"
    by (simp add: mem_open_def mem_str_def ex_request_def)
  then show ?thesis
    using parseRequest_parses [OF mem.bufio_reader_axioms _ _ ex_request_facts(1-5), of
        "mem_open [ex_request] EOF" "''body''" "\<lambda>s. s" False ex_parsed_header ex_forwarded zeroRequest]
      ex_request_facts(6) by (auto simp: httpBufSize_def)
qed


lemma ex_cli_simps [simp]:
  "q_P (ex_cli_env p) = ex_fwd_env buffer_write" "q_addr (ex_cli_env p) = ex_cl" "q_saveReqLine (ex_cli_env p) = False"
  "p_uni (ex_fwd_env W) = (\<lambda>x. x)" "k_f (ex_cli cli) = ex_fwd cli [] [] zeroRequest" "k_auth (ex_cli cli) = ex_auth"
  "\<not> k_authed (ex_cli cli)"
  by (simp_all add: ex_cli_env_def ex_cli_def ex_fwd_env_def)

lemma ex_auth_facts:
  "auth_ok ex_auth" "authed ex_auth = Some (NewTimeoutSet hour)" "0 \<le> ts_timeout (NewTimeoutSet hour)"
  "auth_required ex_auth" "authIP ''10.0.0.7'' ex_auth \<noteq> Inr True" "\<not> fst (ts_has t k (NewTimeoutSet hour))"
  using initAuth_ok [OF ex_initAuth]
  by (simp_all add: auth_ok_def auth_zero_def authIP_def ex_auth_def ts_has_def NewTimeoutSet_def hour_def minute_def
      second_def split: option.split)

lemma ex_refused:
  assumes "next_request (ex_cli_env p) s = Some rq" "ProxyAuthorization (header rq) = []" "k_auth s = ex_auth"
  shows "\<not> may_enter (ex_cli_env p) s ''10.0.0.7'' (NewTimeoutSet hour) rq"
  using assms(2,3) ex_auth_facts by (simp add: may_enter_def shown_proof_def SplitN_Nil Let_def)

lemma ex_next: "\<exists>q. next_request (ex_cli_env p) (ex_cli [ex_request]) = Some q \<and> ProxyAuthorization (header q) = [] \<and> URL q = ex_request_url"
  using ex_parsed by (auto simp: next_request_def ex_parsed_header_def zeroHeader_def)

lemma ex_only_request:
  assumes "serve_steps (ex_cli_env p) (ex_cli [ex_request]) res s"
  shows "\<not> k_authed s \<and> untouched (ex_cli [ex_request]) s \<and> (res = Ok NextRequest \<longrightarrow> s = ex_cli [ex_request])"
proof -
  obtain q where q: "next_request (ex_cli_env p) (ex_cli [ex_request]) = Some q" "ProxyAuthorization (header q) = []"
    using ex_next by blast
  show ?thesis
    using authentication_steps [OF assms, of "NewTimeoutSet hour" "''10.0.0.7''" "''5000''"] ex_auth_facts ex_client
      ex_refused [OF q] q(1) by (auto split: if_splits)
qed

lemma ex_not_admitted:
  "\<exists>q r' t1. parseRequest (\<lambda>s. s) False (mem_reader httpBufSize) zeroRequest (mem_open [ex_request] EOF) = Some (None, q, r') \<and>
     isSelfRequest (q_self (ex_cli_env p)) q = (False, q) \<and> URL q = ex_request_url \<and>
     check_auth (ex_cli_env p) ((ex_cli [ex_request]) \<lparr>k_f := (k_f (ex_cli [ex_request])) \<lparr>f_rq := q, f_cli := r'\<rparr>\<rparr>) = Some (Ok False, t1)"
proof -
  let ?Q = "ex_cli_env p" and ?s = "ex_cli [ex_request]"
  obtain q r' where pr: "parseRequest (\<lambda>s. s) False (mem_reader httpBufSize) zeroRequest (mem_open [ex_request] EOF) = Some (None, q, r')"
      "header q = ex_parsed_header" "URL q = ex_request_url" using ex_parsed by blast
  have n: "next_request ?Q ?s = Some q" using pr by (simp add: next_request_def)
  have self: "isSelfRequest (q_self ?Q) q = (False, q)" using pr(3) by (simp add: isSelfRequest_def ex_request_url_def)
  define t where "t = ?s \<lparr>k_f := (k_f ?s) \<lparr>f_rq := q, f_cli := r'\<rparr>\<rparr>"
  have "ProxyAuthorization (header q) = []" using pr(2) by (simp add: ex_parsed_header_def zeroHeader_def)
  then have no: "\<not> may_enter ?Q ?s ''10.0.0.7'' (NewTimeoutSet hour) q" using ex_refused [OF n] by simp
  have t: "\<not> k_authed t" "k_auth t = ex_auth" "f_rq (k_f t) = q" "f_w (k_f t) = f_w (k_f ?s)" by (simp_all add: t_def)
  have "\<not> may_enter ?Q t ''10.0.0.7'' (NewTimeoutSet hour) q" using no by (simp add: may_enter_def t)
  moreover obtain o1 t1 where c: "check_auth ?Q t = Some (o1, t1)"
    by (cases "check_auth ?Q t") (auto simp: check_auth_def split: if_splits sum.splits prod.splits option.splits)
  ultimately have "o1 = Ok False"
    using check_auth_cases [OF c, of "NewTimeoutSet hour" "''10.0.0.7''" "''5000''"] t ex_auth_facts ex_client by auto
  then show ?thesis using pr self c unfolding t_def by blast
qed

lemma ex_served: "\<exists>s. serve_request (ex_cli_env p) (ex_cli [ex_request]) = Some (Ok CloseClient, s)"
  using ex_not_admitted [of p] by (auto simp: serve_request_def io_bind_def io_ret_def)

theorem authentication_first_witness:
  "\<exists>s. serve_steps (ex_cli_env ex_listener) (ex_cli [ex_request]) (Ok CloseClient) s \<and>
     \<not> k_authed s \<and> untouched (ex_cli [ex_request]) s"
proof -
  obtain s where "serve_request (ex_cli_env ex_listener) (ex_cli [ex_request]) = Some (Ok CloseClient, s)" using ex_served by blast
  then have st: "serve_steps (ex_cli_env ex_listener) (ex_cli [ex_request]) (Ok CloseClient) s"
    by (rule serve_steps.more [OF serve_steps.first])
  obtain q where q: "next_request (ex_cli_env ex_listener) (ex_cli [ex_request]) = Some q" "ProxyAuthorization (header q) = []"
    using ex_next by blast
  have "\<not> k_authed s \<and> untouched (ex_cli [ex_request]) s"
    using authentication_first [OF st, of "NewTimeoutSet hour" "''10.0.0.7''" "''5000''"] ex_auth_facts ex_client
      ex_refused [OF q] q(1) by (auto split: if_splits)
  with st show ?thesis by blast
qed

end
