(* ===== verification/Serve_Safe.thy ===== *)
theory Serve_Safe
  imports Serve
begin

text \<open>
  An HTTP client cannot make the proxy panic. The locale \<open>io_invariant\<close> has the rules for steps that keep an invariant
  and do not panic; it is interpreted for a request that is being sent and for one that is being answered, and the
  lemmas follow the code from a single write up to the loop of \<open>serve\<close>.
\<close>

section \<open>Serving never panics\<close>

text \<open>
  Steps of a client's goroutine that keep an invariant of its state and do not panic.
\<close>

locale io_invariant =
  fixes I :: "'s \<Rightarrow> bool"
begin

definition safe :: "('s, 'a) io \<Rightarrow> bool" where
  "safe m \<longleftrightarrow> (\<forall>s res s1. I s \<longrightarrow> m s = Some (res, s1) \<longrightarrow> I s1 \<and> (\<forall>p. res \<noteq> Panic p))"

lemma safeI: "(\<And>s res s1. I s \<Longrightarrow> m s = Some (res, s1) \<Longrightarrow> I s1 \<and> (\<forall>p. res \<noteq> Panic p)) \<Longrightarrow> safe m"
  by (auto simp: safe_def)

lemma safeD: "safe m \<Longrightarrow> I s \<Longrightarrow> m s = Some (res, s1) \<Longrightarrow> I s1 \<and> (\<forall>p. res \<noteq> Panic p)"
  by (auto simp: safe_def)

lemma safe_ret [simp, intro]: "safe (io_ret a)"
  by (auto simp: safe_def io_ret_def)

lemma safe_bind [intro]:
  assumes "safe m" "\<And>a. safe (f a)"
  shows "safe (io_bind m f)"
proof (rule safeI)
  fix s res s2
  assume a: "I s" "io_bind m f s = Some (res, s2)"
  then obtain r1 s1 where m: "m s = Some (r1, s1)" by (cases "m s") (auto simp: io_bind_def)
  note i = safeD [OF assms(1) a(1) m]
  show "I s2 \<and> (\<forall>p. res \<noteq> Panic p)"
  proof (cases r1)
    case (Ok x)
    then have "f x s1 = Some (res, s2)" using a(2) m by (simp add: io_bind_def)
    then show ?thesis using safeD [OF assms(2), of s1] i by blast
  qed (use a(2) m i in \<open>auto simp: io_bind_def\<close>)
qed

lemma safe_bind_from:
  assumes "safe m" "\<And>a. safe (f a)" "I s" "io_bind m f s = Some (res, s1)"
  shows "I s1 \<and> (\<forall>p. res \<noteq> Panic p)"
  using safe_bind [OF assms(1,2)] assms(3,4) by (rule safeD)

lemma safe_cond [intro]: "(b \<Longrightarrow> safe m) \<Longrightarrow> (\<not> b \<Longrightarrow> safe n) \<Longrightarrow> safe (if b then m else n)"
  by simp

end

text \<open>The invariant of a request on its way: the world is consistent, and so are request and connection.\<close>

definition rq_ok :: "Request \<Rightarrow> bool" where
  "rq_ok r \<longleftrightarrow> (responseNotSent r \<longrightarrow> raw r \<noteq> None \<or> partial r)"

definition fwd_ok ::
    "(bytes \<Rightarrow> bytes) \<Rightarrow> ('cr, 'sr, 'sw, 'e) fwd_env \<Rightarrow> URL \<Rightarrow> ('cr, 'sr, 'sw, 'e) fwd \<Rightarrow> bool" where
  "fwd_ok hostOf P url s \<longleftrightarrow>
     world_ok (p_C P) hostOf (f_w s) \<and> URL (f_rq s) = url \<and> rq_ok (f_rq s) \<and>
     sv_safe (p_C P) (w_site (f_w s)) url (f_sv s) \<and> (isDirect (f_sv s) \<longrightarrow> sv_hostPort (f_sv s) = url_HostPort url)"

lemma fwd_ok_simps [simp]:
  "fwd_ok h P url (set_out x s) = fwd_ok h P url s"
  "fwd_ok h P url (set_srv y s) = fwd_ok h P url s"
  "fwd_ok h P url (s \<lparr>f_cli := c\<rparr>) = fwd_ok h P url s"
  "fwd_ok h P url (s \<lparr>f_rp := rp\<rparr>) = fwd_ok h P url s"
  by (simp_all add: fwd_ok_def set_out_def set_srv_def)

lemma rq_ok_setState [simp]:
  "rq_ok r \<Longrightarrow> raw r \<noteq> None \<or> partial r \<Longrightarrow> rq_ok (setState st r)"
  by (simp add: rq_ok_def setState_def)

lemma world_mono:
  assumes "fwd_ok h P url s" "ss_mono (p_C P) (w_site (f_w s)) (w_site w)" "w_pool w = w_pool (f_w s)"
  shows "fwd_ok h P url (s \<lparr>f_w := w\<rparr>)"
  using assms pool_sites_mono [OF assms(2)] sv_safe_mono [OF assms(2)] by (auto simp: fwd_ok_def world_ok_def)

lemma w_TempBlocked_mono:
  assumes "w_TempBlocked E url w = Inr w'"
  shows "ss_mono C (w_site w) (w_site w') \<and> w_pool w' = w_pool w"
proof -
  from assms obtain ss where t: "TempBlocked (w_now E w) url (w_site w) = Inr ss" "w' = w \<lparr>w_site := ss\<rparr>"
    by (auto simp: w_TempBlocked_def split: sum.splits)
  have "ss_mono C (w_site w) ss" by (rule ss_step_mono [OF step_temp [OF t(1)]])
  then show ?thesis by (simp add: t(2))
qed

lemma ss_mono_refl [simp]: "ss_mono C ss ss"
  by (simp add: ss_mono_def)

lemma sendErrorPage_same [simp]: "w_site (sendErrorPage E c w) = w_site w" "w_pool (sendErrorPage E c w) = w_pool w"
  by (simp_all add: sendErrorPage_def)

lemma handlers_mono:
  "handleServerReadError C E r sv x w = Inr (e, w') \<Longrightarrow> ss_mono C' (w_site w) (w_site w') \<and> w_pool w' = w_pool w"
  "handleServerWriteError C E r sv x w = Inr (e, w') \<Longrightarrow> ss_mono C' (w_site w) (w_site w') \<and> w_pool w' = w_pool w"
  "shouldRetry C E r sv y w = Inr (b, r', w') \<Longrightarrow> ss_mono C' (w_site w) (w_site w') \<and> w_pool w' = w_pool w"
  by (auto simp: handleServerReadError_def handleServerWriteError_def shouldRetry_def handleBlockedRequest_def
      dest: w_TempBlocked_mono split: if_splits sum.splits)

lemma handlers_no_panic:
  assumes "sv_safe C (w_site w) (URL r) sv"
  shows "handleServerReadError C E r sv x w \<noteq> Inl p" "handleServerWriteError C E r sv x w \<noteq> Inl p"
    and "rq_ok r \<Longrightarrow> shouldRetry C E r sv y w \<noteq> Inl p"
proof -
  have t: "\<exists>w'. w_TempBlocked E (URL r) w = Inr w'" if "maybeFake C (w_site w) sv"
    using sv_safe_TempBlocked [OF assms _ that, where E = E] by blast
  show "handleServerReadError C E r sv x w \<noteq> Inl p" "handleServerWriteError C E r sv x w \<noteq> Inl p"
    using t by (auto simp: handleServerReadError_def handleServerWriteError_def handleBlockedRequest_def)
  show "shouldRetry C E r sv y w \<noteq> Inl p" if "rq_ok r"
    using t that by (auto simp: shouldRetry_def rq_ok_def)
qed


section \<open>Sending and receiving\<close>

lemma updateVisit_mono:
  assumes "updateVisit C E sv w = (sv', w')"
  shows "ss_mono C (w_site w) (w_site w') \<and> w_pool w' = w_pool w \<and> isDirect sv' = isDirect sv \<and>
    siteInfo sv' = siteInfo sv \<and> sv_hostPort sv' = sv_hostPort sv"
proof (cases "visited sv")
  case True
  then show ?thesis using assms by (simp add: updateVisit_def)
next
  case False
  have m: "ss_mono C (w_site w) (vc_put (siteInfo sv) vc' (w_site w))"
    if "AlwaysDirect (vc_of C (w_site w) (siteInfo sv)) \<Longrightarrow> AlwaysDirect vc'" for vc'
    using that by (auto simp: ss_mono_def vc_put_def vc_of_def deref_def split: vref.splits option.splits)
  have "AlwaysDirect (DirectVisit b t vc)" "AlwaysDirect (BlockedVisit b t vc)" if "AlwaysDirect vc" for b t vc
    using that by (auto simp: visit_defs AlwaysDirect_def userSpecified_def)
  then show ?thesis using False assms m
    by (auto simp: updateVisit_def Let_def isDirect_def split: if_splits)
qed

definition fwd_sending ::
    "(bytes \<Rightarrow> bytes) \<Rightarrow> ('cr, 'sr, 'sw, 'e) fwd_env \<Rightarrow> URL \<Rightarrow> ('cr, 'sr, 'sw, 'e) fwd \<Rightarrow> bool" where
  "fwd_sending hostOf P url s \<longleftrightarrow> fwd_ok hostOf P url s \<and> responseNotSent (f_rq s)"

interpretation sending: io_invariant "fwd_sending hostOf P url" for hostOf P url .

interpretation answering: io_invariant "fwd_ok hostOf P url" for hostOf P url .

lemma errors_safe:
  assumes "fwd_ok h P url s"
  shows "write_error P e s = Some (res, s1) \<Longrightarrow> fwd_ok h P url s1 \<and> f_rq s1 = f_rq s \<and> (\<forall>p. res \<noteq> Panic p)"
    and "read_error P e s = Some (res, s1) \<Longrightarrow> fwd_ok h P url s1 \<and> f_rq s1 = f_rq s \<and> (\<forall>p. res \<noteq> Panic p)"
proof -
  have sv: "sv_safe (p_C P) (w_site (f_w s)) (URL (f_rq s)) (f_sv s)" using assms by (auto simp: fwd_ok_def)
  note np = handlers_no_panic(1,2) [OF sv, of "p_E P" e]
  show "write_error P e s = Some (res, s1) \<Longrightarrow> fwd_ok h P url s1 \<and> f_rq s1 = f_rq s \<and> (\<forall>p. res \<noteq> Panic p)"
    using np(2) world_mono [OF assms] handlers_mono(2)
    by (cases "handleServerWriteError (p_C P) (p_E P) (f_rq s) (f_sv s) e (f_w s)") (fastforce simp: write_error_def)+
  show "read_error P e s = Some (res, s1) \<Longrightarrow> fwd_ok h P url s1 \<and> f_rq s1 = f_rq s \<and> (\<forall>p. res \<noteq> Panic p)"
    using np(1) world_mono [OF assms] handlers_mono(1)
    by (cases "handleServerReadError (p_C P) (p_E P) (f_rq s) (f_sv s) e (f_w s)") (fastforce simp: read_error_def)+
qed

lemma write_error_safe: "sending.safe h P url (write_error P e)"
  using errors_safe(1) by (fastforce intro!: sending.safeI simp: fwd_sending_def)

lemma sv_Write_safe: "sending.safe h P url (sv_Write P b)"
proof (rule sending.safeI)
  fix s res s1
  assume a: "fwd_sending h P url s" "sv_Write P b s = Some (res, s1)"
  then have so: "fwd_sending h P url (set_out x s)" for x by (simp add: fwd_sending_def)
  show "fwd_sending h P url s1 \<and> (\<forall>p. res \<noteq> Panic p)"
    using a(2) so sending.safeD [OF write_error_safe so]
    by (auto simp: sv_Write_def split: prod.splits option.splits)
qed

lemma sendHTTPProxyRequestHeader_safe: "sending.safe h P url (sendHTTPProxyRequestHeader P)"
proof (rule sending.safeI)
  fix s res s1
  assume a: "fwd_sending h P url s" "sendHTTPProxyRequestHeader P s = Some (res, s1)"
  have "sending.safe h P url (case authHeader (f_conn s) of None \<Rightarrow> io_ret () | Some ah \<Rightarrow> sv_Write P ah)"
    by (simp add: sv_Write_safe split: option.split)
  then show "fwd_sending h P url s1 \<and> (\<forall>p. res \<noteq> Panic p)"
    by (intro sending.safe_bind_from [OF sv_Write_safe _ a(1) a(2) [unfolded sendHTTPProxyRequestHeader_def]]
        sending.safe_bind sv_Write_safe)
qed

lemma sendRequestHeader_safe: "sending.safe h P url (sendRequestHeader P)"
proof (rule sending.safeI)
  fix s res s1
  assume a: "fwd_sending h P url s" "sendRequestHeader P s = Some (res, s1)"
  show "fwd_sending h P url s1 \<and> (\<forall>p. res \<noteq> Panic p)"
    using a(2) sending.safeD [OF sendHTTPProxyRequestHeader_safe a(1)] sending.safeD [OF sv_Write_safe a(1)]
    by (auto simp: sendRequestHeader_def split: if_splits)
qed

text \<open>What goes through \<open>serverWriter\<close> keeps the request in order.\<close>

definition rq_sending :: "URL \<Rightarrow> Request \<times> 'sw \<Rightarrow> bool" where
  "rq_sending url = (\<lambda>(r, w). rq_ok r \<and> URL r = url \<and> responseNotSent r)"

lemma save_raw_ok: "rq_ok r \<Longrightarrow> responseNotSent r \<Longrightarrow> rq_ok (save_raw p r) \<and> URL (save_raw p r) = URL r \<and> responseNotSent (save_raw p r)"
  by (auto simp: save_raw_def rq_ok_def responseNotSent_def raw_write_def Request_releaseBuf_def split: option.splits)

lemma serverWriter_rule: "writer_rule (serverWriter_Write W) (rq_sending url) (rq_sending url)"
  by unfold_locales (auto simp: rq_sending_def serverWriter_Write_def save_raw_ok split: prod.splits)

lemma sendRequestBody_safe: "sending.safe h P url (sendRequestBody P)"
proof (rule sending.safeI)
  fix s res s1
  assume a: "fwd_sending h P url s" "sendRequestBody P s = Some (res, s1)"
  show "fwd_sending h P url s1 \<and> (\<forall>p. res \<noteq> Panic p)"
  proof (cases "\<not> hasBody (f_rq s) \<or> isRetry (f_rq s)")
    case True
    then show ?thesis using a by (auto simp: sendRequestBody_def)
  next
    case False
    then obtain e c r1 x where sb: "sendBody (p_cli P) (serverWriter_Write (p_out P)) (ContLen (header (f_rq s)))
        (Chunking (header (f_rq s))) (f_cli s) (f_rq s, f_out s (f_conn s)) = Some (e, c, (r1, x))"
      using a(2) by (auto simp: sendRequestBody_def Let_def split: option.splits)
    have "rq_sending url (f_rq s, f_out s (f_conn s))" using a(1) by (simp add: rq_sending_def fwd_sending_def fwd_ok_def)
    then have "rq_sending url (r1, x)"
      using writer_rule.sendBody_after [OF serverWriter_rule sb, of url]
      by (simp add: writer_rule.after_def [OF serverWriter_rule] split: if_splits)
    then have s1: "fwd_sending h P url (set_out x (s \<lparr>f_cli := c, f_rq := r1\<rparr>))"
      using a(1) by (simp add: rq_sending_def fwd_sending_def fwd_ok_def set_out_def)
    show ?thesis using a(2) False sb s1 sending.safeD [OF write_error_safe s1]
      by (cases e) (auto simp: sendRequestBody_def Let_def split: if_splits)
  qed
qed


text \<open>The response.\<close>

lemma response_safe:
  assumes "answering.safe h P url (p_tunnel P)" "fwd_ok h P url s" "\<not> responseNotSent (f_rq s)"
    and "forward_response P s = Some (res, s1)"
  shows "fwd_ok h P url s1 \<and> (\<forall>p. res \<noteq> Panic p)"
proof -
  have env: "fwd_ok h P url (t \<lparr>f_w := (f_w t) \<lparr>w_env := e\<rparr>\<rparr>)" if "fwd_ok h P url t" for t e
    using world_mono [OF that] by simp
  have cw: "answering.safe h P url (client_Write P b)" for b
    using env by (fastforce intro!: answering.safeI simp: client_Write_def split: prod.splits option.splits)
  have body: "answering.safe h P url (send_response_body P)"
  proof (rule answering.safeI)
    fix s res s1
    assume a: "fwd_ok h P url s" "send_response_body P s = Some (res, s1)"
    then obtain e x en where sb: "sendBody (p_srv P) (p_cw P) (ContLen (rp_header (f_rp s))) (Chunking (rp_header (f_rp s)))
        (f_srv s (f_conn s)) (w_env (f_w s)) = Some (e, x, en)"
      by (auto simp: send_response_body_def Let_def split: option.splits)
    have ok: "fwd_ok h P url (set_srv x (s \<lparr>f_w := (f_w s) \<lparr>w_env := en\<rparr>\<rparr>))" using env [OF a(1)] by simp
    show "fwd_ok h P url s1 \<and> (\<forall>p. res \<noteq> Panic p)"
      using a(2) sb ok errors_safe(2) [OF ok] by (cases e) (auto simp: send_response_body_def Let_def split: if_splits)
  qed
  have dn: "answering.safe h P url (response_done P)"
    by (rule answering.safeI)
      (auto simp: response_done_def Let_def fwd_ok_def rq_ok_def on_rq_def setState_def responseNotSent_def
        less_eq_rqState_def sv_safe_def isDirect_def split: if_splits)
  have rest: "answering.safe h P url (if Status (f_rp s) = 101 \<and> isWebSocket (p_fold P) (f_rq s) then p_tunnel P
            else io_bind (if Response_hasBody (f_rp s) (Method (f_rq s)) then send_response_body P
                          else io_ret ()) (\<lambda>_. response_done P))"
    by (intro answering.safe_cond answering.safe_bind assms(1) body dn answering.safe_ret)
  show ?thesis by (rule answering.safe_bind_from [OF cw rest assms(2) assms(4) [unfolded forward_response_def]])
qed

lemma readResponse_safe:
  assumes "answering.safe h P url (p_tunnel P)"
  shows "answering.safe h P url (readResponse P)"
proof (rule answering.safeI)
  fix s res s1
  assume a: "fwd_ok h P url s" "readResponse P s = Some (res, s1)"
  then obtain e rp x where p: "parseResponse (p_uni P) (c_HttpErrorCode (p_C P)) (p_srv P) (f_rq s) (f_rp s)
      (f_srv s (f_conn s)) = Some (e, rp, x)" by (auto simp: readResponse_def split: option.splits)
  let ?s = "set_srv x (s \<lparr>f_rp := rp\<rparr>)"
  let ?t = "on_rq (\<lambda>r. Request_releaseBuf (setState rsRecvBody r))
      (set_srv x (s \<lparr>f_rp := rp, f_sv := (f_sv s) \<lparr>sv_state := svSendRecvResponse\<rparr>\<rparr>))"
  have ok: "fwd_ok h P url ?s" using a(1) by simp
  have t: "fwd_ok h P url ?t" "\<not> responseNotSent (f_rq ?t)"
    using a(1) by (simp_all add: fwd_ok_def on_rq_def rq_ok_def responseNotSent_def setState_def Request_releaseBuf_def
        less_eq_rqState_def set_srv_def sv_safe_def isDirect_def)
  show "fwd_ok h P url s1 \<and> (\<forall>p. res \<noteq> Panic p)"
    using a(2) p errors_safe(2) [OF ok] response_safe [OF assms t]
    by (cases e) (fastforce simp: readResponse_def)+
qed

lemma updateVisit_safe: "answering.safe h P url (f_updateVisit P)"
proof (rule answering.safeI)
  fix s res s1
  assume a: "fwd_ok h P url s" "f_updateVisit P s = Some (res, s1)"
  obtain sv w where u: "updateVisit (p_C P) (p_E P) (f_sv s) (f_w s) = (sv, w)" by fastforce
  note m = updateVisit_mono [OF u]
  then have "fwd_ok h P url (s \<lparr>f_w := w\<rparr>)" using world_mono [OF a(1)] by blast
  then have "fwd_ok h P url (s \<lparr>f_sv := sv, f_w := w\<rparr>)" using m by (auto simp: fwd_ok_def sv_safe_def)
  then show "fwd_ok h P url s1 \<and> (\<forall>p. res \<noteq> Panic p)" using a(2) u by (auto simp: f_updateVisit_def)
qed

text \<open>A whole attempt, from a request that is buffered or partial.\<close>

definition buffered :: "Request \<Rightarrow> bool" where
  "buffered r \<longleftrightarrow> raw r \<noteq> None \<or> partial r"

lemma doRequest_safe:
  assumes "answering.safe h P url (p_tunnel P)" "fwd_ok h P url s" "buffered (f_rq s)" "doRequest P s = Some (res, s1)"
  shows "fwd_ok h P url s1 \<and> (\<forall>p. res \<noteq> Panic p)"
proof -
  have c: "fwd_sending h P url (on_rq (setState rsCreated) s)"
    using assms(2,3) by (simp add: fwd_sending_def fwd_ok_def on_rq_def rq_ok_def buffered_def responseNotSent_def
        setState_def less_eq_rqState_def)
  have snd: "fwd_sending h P url s2 \<and> (\<forall>p. r \<noteq> Panic p)" if "send_request P s = Some (r, s2)" for r s2
    using that sending.safe_bind_from [OF sendRequestHeader_safe sendRequestBody_safe c] by (auto simp: send_request_def)
  obtain r2 s2 where s2: "send_request P s = Some (r2, s2)"
    using assms(4) by (cases "send_request P s") (auto simp: doRequest_def io_bind_def)
  show ?thesis
  proof (cases r2)
    case (Ok u)
    have "fwd_ok h P url (on_rq (setState rsSent) s2)"
      using snd [OF s2] by (auto simp: fwd_sending_def fwd_ok_def on_rq_def rq_ok_def setState_def)
    moreover have "io_bind (readResponse P) (\<lambda>_. f_updateVisit P) (on_rq (setState rsSent) s2) = Some (res, s1)"
      using assms(4) s2 Ok by (simp add: doRequest_def io_bind_def)
    ultimately show ?thesis by (rule answering.safe_bind_from [OF readResponse_safe [OF assms(1)] updateVisit_safe])
  qed (use assms(4) snd [OF s2] s2 in \<open>auto simp: doRequest_def io_bind_def fwd_sending_def\<close>)
qed


lemma getServerConn_hostPort:
  assumes "cp_ok (w_pool w)" "getServerConn C E r w = Inr ((Some sv, er), w')" "isDirect sv"
  shows "sv_hostPort sv = url_HostPort (URL r)"
proof -
  obtain si ss where gv: "GetVisitCnt (parentEmpty w) (w_now E w) (URL r) (w_site w) = (si, ss)" by fastforce
  define w1 where "w1 = w \<lparr>w_site := ss\<rparr>"
  obtain svo cp where pg: "Pool_Get (c_AlwaysProxy C) (w_now E w1) (url_HostPort (URL r)) (AsDirect (vc_of C ss si)) (w_pool w1) = (svo, cp)"
    by fastforce
  have created: "sv_hostPort sv = url_HostPort (URL r)" if "createServerConn C E (URL r) si v = Inr ((Some sv, er), w')" for v
    using that by (auto simp: createServerConn_def newServerConn_def split: sum.splits option.splits prod.splits)
  show ?thesis
  proof (cases "isConnect r \<or> svo = None")
    case True
    then show ?thesis using assms(2) gv pg created by (auto simp: getServerConn_def Let_def simp flip: w1_def split: if_splits)
  next
    case False
    then obtain sv0 where "svo = Some sv0" "sv = sv0 \<lparr>sv_state := svConnected\<rparr>"
      using assms(2) gv pg [unfolded w1_def] by (auto simp: getServerConn_def Let_def)
    moreover have "cp_ok (w_pool w1)" using assms(1) by (simp add: w1_def)
    ultimately show ?thesis using Pool_Get_ok [OF _ pg] assms(3) by (auto simp: isDirect_def isMux_def split: net_conn.splits)
  qed
qed

lemma Pool_Put_pooled:
  assumes "cp_ok cp" "sv0 \<in># pooled (Pool_Put sv cp)"
  shows "sv0 = sv \<or> sv0 \<in># pooled cp"
proof -
  have "\<exists>c. cp_closed (Pool_Put sv cp) = cp_closed cp @ c"
    by (auto simp: Pool_Put_def Let_def split: prod.splits option.splits)
  then obtain c where "cp_closed (Pool_Put sv cp) = cp_closed cp @ c" by blast
  then have "pooled (Pool_Put sv cp) + mset c = pooled cp + {#sv#}"
    using Pool_Put_ok [OF assms(1), of sv] by (simp add: held_def)
  then have "sv0 \<in># pooled cp + {#sv#}" using assms(2) by (metis union_iff)
  then show ?thesis by auto
qed

lemma world_ok_Put:
  assumes "fwd_ok h P url s" "url_Host url = h (url_HostPort url)"
  shows "world_ok (p_C P) h ((f_w s) \<lparr>w_pool := Pool_Put (f_sv s) (w_pool (f_w s))\<rparr>)"
proof -
  have ok: "cp_ok (w_pool (f_w s))" "pool_sites_ok (p_C P) h (w_site (f_w s)) (w_pool (f_w s))"
    using assms(1) by (auto simp: fwd_ok_def world_ok_def)
  have "pool_sites_ok (p_C P) h (w_site (f_w s)) (Pool_Put (f_sv s) (w_pool (f_w s)))"
    unfolding pool_sites_ok_def
  proof (intro ballI impI)
    fix sv0
    assume "sv0 \<in># pooled (Pool_Put (f_sv s) (w_pool (f_w s)))" "isDirect sv0"
    then consider "sv0 = f_sv s" "isDirect (f_sv s)" | "sv0 \<in># pooled (w_pool (f_w s))" "isDirect sv0"
      using Pool_Put_pooled [OF ok(1)] by blast
    then show "SiteStat_get (w_site (f_w s)) (h (sv_hostPort sv0)) \<noteq> None \<or> AlwaysDirect (vc_of (p_C P) (w_site (f_w s)) (siteInfo sv0))"
    proof cases
      case 1
      then show ?thesis using assms by (auto simp: fwd_ok_def sv_safe_def)
    next
      case 2
      then show ?thesis using ok(2) unfolding pool_sites_ok_def by blast
    qed
  qed
  then show ?thesis using Pool_Put_ok [OF ok(1)] by (simp add: world_ok_def)
qed

text \<open>Before an attempt: the world is consistent and the request can be sent.\<close>

definition try_ok :: "(bytes \<Rightarrow> bytes) \<Rightarrow> ('cr, 'sr, 'sw, 'e) fwd_env \<Rightarrow> URL \<Rightarrow> ('cr, 'sr, 'sw, 'e) fwd \<Rightarrow> bool" where
  "try_ok h P url s \<longleftrightarrow> world_ok (p_C P) h (f_w s) \<and> URL (f_rq s) = url \<and> buffered (f_rq s)"

text \<open>What the tunnels, whose goroutines are modelled in another theory, have to keep.\<close>

definition tunnels_ok :: "(bytes \<Rightarrow> bytes) \<Rightarrow> ('cr, 'sr, 'sw, 'e) fwd_env \<Rightarrow> bool" where
  "tunnels_ok h P \<longleftrightarrow>
     (\<forall>url. answering.safe h P url (p_tunnel P) \<and>
        (\<forall>s res s1. fwd_ok h P url s \<longrightarrow> buffered (f_rq s) \<longrightarrow> p_connect P s = Some (res, s1) \<longrightarrow>
           fwd_ok h P url s1 \<and> (\<forall>p. res \<noteq> Panic p)))"

lemma tunnels_ok_tunnel: "tunnels_ok h P \<Longrightarrow> answering.safe h P url (p_tunnel P)"
  by (simp add: tunnels_ok_def)

lemma request_failed_safe:
  assumes "fwd_ok h P url s" "request_failed P er s = Some (res, s1)"
  shows "world_ok (p_C P) h (f_w s1) \<and> (\<forall>p. res \<noteq> Panic p) \<and> (res = Ok TryAgain \<longrightarrow> try_ok h P url s1)"
proof -
  have sv: "sv_safe (p_C P) (w_site (f_w s)) (URL (f_rq s)) (f_sv s)" "rq_ok (f_rq s)" using assms(1) by (auto simp: fwd_ok_def)
  obtain again r w where r: "shouldRetry (p_C P) (p_E P) (f_rq s) (f_sv s) (Some er) (f_w s) = Inr (again, r, w)"
    using handlers_no_panic(3) [OF sv]
    by (cases "shouldRetry (p_C P) (p_E P) (f_rq s) (f_sv s) (Some er) (f_w s)") auto
  have "world_ok (p_C P) h w"
    using world_mono [OF assms(1)] handlers_mono(3) [OF r] by (auto simp: fwd_ok_def)
  moreover have "again \<Longrightarrow> URL r = url \<and> buffered r"
    using r assms(1) by (auto simp: shouldRetry_def buffered_def fwd_ok_def split: if_splits sum.splits)
  ultimately show ?thesis using assms(2) r by (auto simp: request_failed_def try_ok_def split: if_splits)
qed

lemma try_request_safe:
  assumes "env_conns not_direct (xe_parent (p_E P))" "tunnels_ok h P" "url_Host url = h (url_HostPort url)"
    and "try_ok h P url s" "try_request P s = Some (res, s1)"
  shows "world_ok (p_C P) h (f_w s1) \<and> (\<forall>p. res \<noteq> Panic p) \<and> (res = Ok TryAgain \<longrightarrow> try_ok h P url s1)"
proof -
  define s0 where "s0 = on_rq tryOnce s"
  have s0: "f_w s0 = f_w s" "URL (f_rq s0) = url" "buffered (f_rq s0)"
    using assms(4) by (simp_all add: s0_def on_rq_def try_ok_def buffered_def tryOnce_def)
  obtain svo er w where g: "getServerConn (p_C P) (p_E P) (f_rq s0) (f_w s0) = Inr ((svo, er), w)"
      "world_ok (p_C P) h w" "case svo of None \<Rightarrow> er \<noteq> None
        | Some sv \<Rightarrow> er = None \<and> sv_state sv = svConnected \<and> sv_safe (p_C P) (w_site w) (URL (f_rq s0)) sv"
    using getServerConn_ok [OF _ assms(1), of "p_C P" h "f_w s0" "f_rq s0"] assms(3,4) s0 by (auto simp: try_ok_def)
  show ?thesis
  proof (cases svo)
    case None
    then show ?thesis using assms(5) g
      by (auto simp: try_request_def no_server_def Let_def simp flip: s0_def split: if_splits option.splits)
  next
    case (Some sv)
    let ?s = "s0 \<lparr>f_w := w, f_sv := sv\<rparr>"
    have "cp_ok (w_pool (f_w s0))" using assms(4) s0 by (simp add: try_ok_def world_ok_def)
    then have ok: "fwd_ok h P url ?s" "buffered (f_rq ?s)"
      using g Some s0 getServerConn_hostPort [of "f_w s0" "p_C P" "p_E P" "f_rq s0" sv er w]
      by (auto simp: fwd_ok_def rq_ok_def buffered_def)
    obtain r2 s2 where m: "(if isConnect (f_rq s0) then p_connect P else doRequest P) ?s = Some (r2, s2)"
      using assms(5) g(1) Some
      by (cases "(if isConnect (f_rq s0) then p_connect P else doRequest P) ?s") (auto simp: try_request_def Let_def simp flip: s0_def)
    have s2: "fwd_ok h P url s2 \<and> (\<forall>p. r2 \<noteq> Panic p)"
      using m assms(2) ok doRequest_safe [OF _ ok] unfolding tunnels_ok_def by (auto split: if_splits)
    have cl: "fwd_ok h P url (close_server P s2)" using s2 by (simp add: close_server_def)
    have put: "world_ok (p_C P) h (f_w s2)" "world_ok (p_C P) h ((f_w s2) \<lparr>w_pool := Pool_Put (f_sv s2) (w_pool (f_w s2))\<rparr>)"
      using s2 world_ok_Put [of h P url s2] assms(3) by (auto simp: fwd_ok_def)
    have st: "try_request P s = (case r2 of Panic p \<Rightarrow> Some (Panic p, s2)
        | Ok _ \<Rightarrow> (if isConnect (f_rq s0) then Some (Ok CloseClient, s2) else request_done P s2)
        | Fail er \<Rightarrow> request_failed P er (if isConnect (f_rq s0) then s2 else close_server P s2))"
      using g(1) Some m by (cases r2) (simp_all add: try_request_def Let_def flip: s0_def)
    show ?thesis
    proof (cases r2)
      case (Ok u)
      then show ?thesis using assms(5) st put
        by (auto simp: request_done_def close_server_def set_srv_def Let_def split: if_splits)
    next
      case (Fail x)
      then show ?thesis using assms(5) st request_failed_safe [of h P url _ x] s2 cl by (auto split: if_splits)
    next
      case (Panic p)
      then show ?thesis using s2 by blast
    qed
  qed
qed


lemma serve_retry_safe:
  assumes "env_conns not_direct (xe_parent (p_E P))" "tunnels_ok h P" "url_Host url = h (url_HostPort url)"
    and "try_ok h P url s" "serve_retry P s = Some (res, s1)"
  shows "world_ok (p_C P) h (f_w s1) \<and> (\<forall>p. res \<noteq> Panic p)"
proof -
  have "fst (P, s) = P \<and> try_ok h P url (snd (P, s)) \<longrightarrow> (case (res, s1) of (res, s1) \<Rightarrow> world_ok (p_C P) h (f_w s1) \<and> (\<forall>p. res \<noteq> Panic p))"
  proof (rule serve_retry.raw_induct [OF _ assms(5), where
        Pa = "\<lambda>x y. fst x = P \<and> try_ok h P url (snd x) \<longrightarrow> (case y of (res, s1) \<Rightarrow> world_ok (p_C P) h (f_w s1) \<and> (\<forall>p. res \<noteq> Panic p))"], goal_cases)
    case (1 f P' s y)
    show ?case
    proof (simp only: fst_conv snd_conv, intro impI, elim conjE)
      assume a: "P' = P" "try_ok h P url s"
      then obtain r2 s2 where t: "try_request P s = Some (r2, s2)"
          "(if r2 = Ok TryAgain then f P s2 else Some (r2, s2)) = Some y"
        using 1(2) by (auto simp: Option.bind_eq_Some_conv)
      note s2 = try_request_safe [OF assms(1-3) a(2) t(1)]
      show "case y of (res, s1) \<Rightarrow> world_ok (p_C P) h (f_w s1) \<and> (\<forall>p. res \<noteq> Panic p)"
        using t(2) s2 1(1) [of P s2 y] by (auto split: if_splits)
    qed
  qed
  with assms(4) show ?thesis by simp
qed

lemma world_ok_env [simp]: "world_ok C h (w \<lparr>w_env := e\<rparr>) = world_ok C h w"
  by (simp add: world_ok_def)

lemma world_ok_set_env [simp]:
  "world_ok C h (f_w (k_f (set_env e s))) = world_ok C h (f_w (k_f s))"
  "world_ok C h (f_w (k_f (page Q code s))) = world_ok C h (f_w (k_f s))"
  by (simp_all add: set_env_def page_def)

lemma parseRequest_raw: "parseRequest uni save R rq r = Some (None, q, r') \<Longrightarrow> raw q \<noteq> None"
  by (auto simp: parseRequest_def Let_def raw_write_def split: prod.splits option.splits if_splits sum.splits)

lemma serveSelfURL_no_panic:
  assumes "SplitHostPort (localAddr (q_addr Q)) \<noteq> None" "\<forall>a h k. q_proxy Q \<noteq> MixedProxy a h k"
  shows "serveSelfURL Q r e \<noteq> Inl p"
  using assms
  by (auto simp: serveSelfURL_def page_not_found_def sendPAC_def genPAC_def Let_def split: listen_proxy.splits option.splits prod.splits)

lemma ts_timeout_same [simp]:
  "ts_timeout (ts_add t k ts) = ts_timeout ts" "ts_timeout (snd (ts_has t k ts)) = ts_timeout ts"
  by (auto simp: ts_add_def ts_has_def ts_del_def split: option.splits)

lemma Authenticate_timeout:
  assumes "Authenticate uni out now cl r a w = Inr (e, a', w')" "auth_ok a" "authed a = Some ts"
  shows "\<exists>ts'. authed a' = Some ts' \<and> ts_timeout ts' = ts_timeout ts"
proof -
  define ip where "ip = (case SplitHostPort (remoteAddr cl) of None \<Rightarrow> [] | Some (h, p) \<Rightarrow> h)"
  obtain b ts1 where h: "ts_has now ip ts = (b, ts1)" by fastforce
  then have t1: "ts_timeout ts1 = ts_timeout ts" using ts_timeout_same(2) [of now ip ts] by simp
  define a1 where "a1 = a \<lparr>authed := Some ts1\<rparr>"
  obtain e2 a2 w2 where u: "authUserPasswd uni out now cl r a1 w = (e2, a2, w2)" by (metis prod_cases3)
  have "auth_ok a1" using assms(2) by (simp add: a1_def)
  then have a2: "authed a2 = Some ts1" using authUserPasswd_iff [OF _ u] by (simp add: a1_def)
  have "ts_has_opt now ip a = Inr (b, a1)" using assms(3) h by (simp add: ts_has_opt_def a1_def)
  then show ?thesis
    using assms(1) u a2 t1
    by (auto simp: Authenticate_def auth_remember_def a1_def simp flip: ip_def split: bool.splits sum.splits option.splits)
qed

text \<open>The invariant of a client, and what the statement needs of its surroundings.\<close>

definition cli_ok :: "(bytes \<Rightarrow> bytes) \<Rightarrow> ('cr, 'sr, 'sw, 'e) cli_env \<Rightarrow> ('cr, 'sr, 'sw, 'e) cli \<Rightarrow> bool" where
  "cli_ok hostOf Q s \<longleftrightarrow>
     world_ok (p_C (q_P Q)) hostOf (f_w (k_f s)) \<and> auth_ok (k_auth s) \<and>
     (auth_required (k_auth s) \<longrightarrow> (\<exists>ts. authed (k_auth s) = Some ts \<and> 0 \<le> ts_timeout ts))"

definition listener_ok :: "(bytes \<Rightarrow> bytes) \<Rightarrow> ('cr, 'sr, 'sw, 'e) cli_env \<Rightarrow> bool" where
  "listener_ok hostOf Q \<longleftrightarrow>
     (\<exists>ip port. SplitHostPort (remoteAddr (q_addr Q)) = Some (ip, port) \<and> ParseIP ip \<noteq> None) \<and>
     SplitHostPort (localAddr (q_addr Q)) \<noteq> None \<and> (\<forall>a h k. q_proxy Q \<noteq> MixedProxy a h k) \<and>
     env_conns not_direct (xe_parent (p_E (q_P Q))) \<and> tunnels_ok hostOf (q_P Q)"

definition host_agrees :: "(bytes \<Rightarrow> bytes) \<Rightarrow> ('cr, 'sr, 'sw, 'e) cli_env \<Rightarrow> ('cr, 'sr, 'sw, 'e) cli \<Rightarrow> bool" where
  "host_agrees hostOf Q s \<longleftrightarrow>
     (case next_request Q s of
        None \<Rightarrow> True
      | Some rq \<Rightarrow> (let url = URL (snd (isSelfRequest (q_self Q) rq)) in url_Host url = hostOf (url_HostPort url)))"

lemma cli_ok_simps [simp]:
  "cli_ok h Q (set_env e s) = cli_ok h Q s"
  "cli_ok h Q (page Q' code s) = cli_ok h Q s"
  by (simp_all add: cli_ok_def set_env_def page_def)

lemma cli_ok_rq [simp]: "cli_ok h Q (s \<lparr>k_f := (k_f s) \<lparr>f_rq := rq, f_cli := c\<rparr>\<rparr>) = cli_ok h Q s"
  by (simp add: cli_ok_def)

lemma check_auth_no_panic:
  assumes "check_auth Q s = Some (res, s1)" "cli_ok h Q s" "listener_ok h Q"
  shows "\<exists>ok. res = Ok ok \<and> f_rq (k_f s1) = f_rq (k_f s) \<and> cli_ok h Q s1"
proof (cases "auth_required (k_auth s) \<and> \<not> k_authed s")
  case True
  obtain ip port ts where l: "SplitHostPort (remoteAddr (q_addr Q)) = Some (ip, port)" "ParseIP ip \<noteq> None"
      "auth_ok (k_auth s)" "authed (k_auth s) = Some ts" "0 \<le> ts_timeout ts"
    using assms(2,3) True by (auto simp: listener_ok_def cli_ok_def)
  obtain e a' w' where a: "Authenticate (p_uni (q_P Q)) \<lparr>co_write = p_cw (q_P Q), co_page = xe_page (p_E (q_P Q))\<rparr>
      (w_now (p_E (q_P Q)) (f_w (k_f s))) (q_addr Q) (f_rq (k_f s)) (k_auth s) (k_env s) = Inr (e, a', w')" "auth_ok a'"
    using Authenticate_iff [OF l(3,4,1,2,5)] by metis
  have "\<exists>ts'. authed a' = Some ts' \<and> 0 \<le> ts_timeout ts'" using Authenticate_timeout [OF a(1) l(3,4)] l(5) by auto
  then have ok: "cli_ok h Q (s \<lparr>k_auth := a', k_authed := b\<rparr>)" "cli_ok h Q (s \<lparr>k_auth := a'\<rparr>)" for b
    using assms(2) a(2) by (auto simp: cli_ok_def)
  show ?thesis using assms(1) True a(1) ok by (cases e) (auto simp: check_auth_def set_env_def cli_ok_def)
next
  case False
  then show ?thesis using assms by (auto simp: check_auth_def)
qed

lemma serve_request_safe:
  assumes "serve_request Q s = Some (res, s1)" "cli_ok hostOf Q s" "listener_ok hostOf Q" "host_agrees hostOf Q s"
  shows "(\<forall>p. res \<noteq> Panic p) \<and> cli_ok hostOf Q s1"
proof (cases "next_request Q s")
  case None
  then show ?thesis using assms(1,2)
    by (auto simp: serve_request_def next_request_def bad_request_def split: option.splits prod.splits if_splits)
next
  case (Some rq)
  then obtain c where p: "parseRequest (p_uni (q_P Q)) (q_saveReqLine Q) (p_cli (q_P Q)) (f_rq (k_f s)) (f_cli (k_f s))
      = Some (None, rq, c)" by (auto simp: next_request_def split: option.splits)
  obtain self rq1 where self: "isSelfRequest (q_self Q) rq = (self, rq1)" by fastforce
  define t where "t = s \<lparr>k_f := (k_f s) \<lparr>f_rq := rq1, f_cli := c\<rparr>\<rparr>"
  have t: "cli_ok hostOf Q t" "f_rq (k_f t) = rq1" using assms(2) by (simp_all add: t_def)
  have url: "url_Host (URL rq1) = hostOf (url_HostPort (URL rq1))" using assms(4) Some self by (simp add: host_agrees_def Let_def)
  note l = assms(3) [unfolded listener_ok_def]
  show ?thesis
  proof (cases self)
    case True
    then show ?thesis using assms(1) p self t(1) serveSelfURL_no_panic [of Q] l
      by (auto simp: serve_request_def Let_def simp flip: t_def split: sum.splits)
  next
    case False
    then have b: "io_bind (check_auth Q) (\<lambda>ok. if ok then forward_request Q else io_ret CloseClient) t = Some (res, s1)"
      using assms(1) p self by (simp add: serve_request_def Let_def t_def)
    then obtain o1 t1 where ca: "check_auth Q t = Some (o1, t1)" by (cases "check_auth Q t") (auto simp: io_bind_def)
    then obtain ok where ok: "o1 = Ok ok" "f_rq (k_f t1) = rq1" "cli_ok hostOf Q t1"
      using check_auth_no_panic [OF ca t(1) assms(3)] t by auto
    have "raw rq1 \<noteq> None" using parseRequest_raw [OF p] self by (auto simp: isSelfRequest_def Let_def split: if_splits)
    then have pre: "try_ok hostOf (q_P Q) (URL rq1) (k_f t1)" using ok by (simp add: try_ok_def buffered_def cli_ok_def)
    show ?thesis
    proof (cases ok)
      case True
      then have "forward_request Q t1 = Some (res, s1)" using b ca ok by (simp add: io_bind_def)
      moreover have "cli_ok hostOf Q (t1 \<lparr>k_f := f\<rparr>)" if "world_ok (p_C (q_P Q)) hostOf (f_w f)" for f
        using ok(3) that by (simp add: cli_ok_def)
      ultimately show ?thesis using ok serve_retry_safe [OF _ _ url pre] l
        by (auto simp: forward_request_def on_fwd_def Let_def split: if_splits)
    next
      case False
      then show ?thesis using b ca ok by (auto simp: io_bind_def io_ret_def)
    qed
  qed
qed

text \<open>
  No HTTP client makes the proxy panic, and none leaves the shared state inconsistent. In a world in which every
  pooled direct connection belongs to a known or always direct host, on a listener for HTTP alone, a client with an IP
  address can send any sequence of requests and the servers can answer anything: no request ends in a panic, and the
  world stays consistent. Each request has to name a host that belongs to its host and port, connections of parents must
  not be direct ones, and tunnels must keep the world consistent.
\<close>

theorem serve_never_panics:
  assumes "serve_steps Q s0 res s" "cli_ok hostOf Q s0" "listener_ok hostOf Q"
    and "\<forall>s. serve_steps Q s0 (Ok NextRequest) s \<longrightarrow> host_agrees hostOf Q s"
  shows "(\<forall>p. res \<noteq> Panic p) \<and> cli_ok hostOf Q s"
  using assms(1)
proof (induction rule: serve_steps.induct)
  case (more s res s1)
  then show ?case using serve_request_safe [OF more.hyps(2) _ assms(3)] assms(4) by blast
qed (use assms(2) in simp)

text \<open>
  A PAC request crashes a listener that serves HTTP and SOCKS5: \<open>serveSelfURL\<close> sends the file for both kinds of
  listeners, \<open>genPAC\<close> insists on the first kind. No authentication is needed for this request.
\<close>

theorem pac_request_crashes_mixed:
  assumes "next_request Q s = Some rq" "q_proxy Q = MixedProxy a h k"
    and "Method rq = ''GET''" "url_HostPort (URL rq) = []" "pac_path (url_Path (URL rq))"
  shows "\<exists>s1. serve_request Q s = Some (Panic ''sendPAC should only be called for http proxy'', s1)"
proof -
  obtain c where "parseRequest (p_uni (q_P Q)) (q_saveReqLine Q) (p_cli (q_P Q)) (f_rq (k_f s)) (f_cli (k_f s))
      = Some (None, rq, c)" using assms(1) by (auto simp: next_request_def split: option.splits)
  moreover have "isSelfRequest (q_self Q) rq = (True, rq)" using assms(4,5) by (simp add: isSelfRequest_def)
  moreover have "serveSelfURL Q rq e = Inl ''sendPAC should only be called for http proxy''" for e
    using assms by (simp add: serveSelfURL_def sendPAC_def genPAC_mixed_panics Let_def)
  ultimately show ?thesis by (simp add: serve_request_def Let_def)
qed


lemma ex_cli_ok: "cli_ok (takeWhile (\<lambda>c. c \<noteq> CHR '':'')) (ex_cli_env p) (ex_cli cli)"
  using ex_auth_facts
  by (simp add: cli_ok_def ex_fwd_def world_ok_def cp_ok_def pool_sites_ok_def pooled_def emptyPool_def)

lemma ex_tunnels_ok: "tunnels_ok h (ex_fwd_env W)"
  by (auto simp: tunnels_ok_def ex_fwd_env_def io_ret_def)

lemma ex_listener_ok: "listener_ok (takeWhile (\<lambda>c. c \<noteq> CHR '':'')) (ex_cli_env ex_listener)"
  using ex_client ex_tunnels_ok [of "takeWhile (\<lambda>c. c \<noteq> CHR '':'')" buffer_write]
  by (auto simp: listener_ok_def ex_listener_def ex_cli_env_def ex_fwd_env_def ex_bytes_env_def
      env_conns_def ex_cl_def SplitHostPort_def)

theorem serve_never_panics_witness:
  "\<exists>s. serve_steps (ex_cli_env ex_listener) (ex_cli [ex_request]) (Ok CloseClient) s \<and>
     cli_ok (takeWhile (\<lambda>c. c \<noteq> CHR '':'')) (ex_cli_env ex_listener) s"
proof -
  obtain s where "serve_request (ex_cli_env ex_listener) (ex_cli [ex_request]) = Some (Ok CloseClient, s)" using ex_served by blast
  then have st: "serve_steps (ex_cli_env ex_listener) (ex_cli [ex_request]) (Ok CloseClient) s"
    by (rule serve_steps.more [OF serve_steps.first])
  have "host_agrees (takeWhile (\<lambda>c. c \<noteq> CHR '':'')) (ex_cli_env ex_listener) (ex_cli [ex_request])"
    using ex_next [of ex_listener] by (auto simp: host_agrees_def isSelfRequest_def ex_request_url_def)
  then have "\<forall>s. serve_steps (ex_cli_env ex_listener) (ex_cli [ex_request]) (Ok NextRequest) s \<longrightarrow>
      host_agrees (takeWhile (\<lambda>c. c \<noteq> CHR '':'')) (ex_cli_env ex_listener) s"
    using ex_only_request by blast
  then show ?thesis using serve_never_panics [OF st ex_cli_ok ex_listener_ok] st by blast
qed


definition ex_pac_request :: bytes where
  "ex_pac_request = ''GET /pac HTTP/1.1'' @ CRLF @ ''Host: proxy'' @ CRLF @ CRLF"

lemma ex_pac_facts:
  "LF \<notin> set (''GET /pac HTTP/1.1'' @ [CR])" "length (''GET /pac HTTP/1.1'' @ [CR]) < httpBufSize"
  "FieldsN ((''GET /pac HTTP/1.1'' @ [CR]) @ [LF]) 3 = [''GET'', ''/pac'', ''HTTP/1.1'']"
  "ParseRequestURIBytes ''/pac'' = Inr (empty_URL \<lparr>url_Path := ''/pac''\<rparr>)"
  "list_all (header_text httpBufSize) [''Host: proxy'']"
  by code_simp+

lemma ex_pac_next:
  "\<exists>rq. next_request (ex_cli_env p) (ex_cli [ex_pac_request]) = Some rq \<and> Method rq = ''GET'' \<and>
     URL rq = empty_URL \<lparr>url_Path := ''/pac''\<rparr>"
proof -
  let ?f = "header_fold (\<lambda>s. s) [''Host: proxy'']
      (zeroHeader \<lparr>Host := url_HostPort (empty_URL \<lparr>url_Path := ''/pac''\<rparr>), ContLen := -1\<rparr>)
      (server_request_line (ASCIIToUpperInplace ''GET'') (empty_URL \<lparr>url_Path := ''/pac''\<rparr>))"
  have "fst ?f = None" by code_simp
  then obtain h b where f: "?f = (None, h, b)" by (metis prod.collapse)
  have "mem_str (mem_open [ex_pac_request] EOF) = (''GET /pac HTTP/1.1'' @ [CR]) @ LF # header_lines [''Host: proxy''] @ CRLF @ []"
    by code_simp
  moreover have "ASCIIToUpperInplace ''GET'' = ''GET''" by code_simp
  ultimately show ?thesis
    using parseRequest_parses [OF mem.bufio_reader_axioms _ _ ex_pac_facts, of "mem_open [ex_pac_request] EOF" "[]" "\<lambda>s. s"
        False h b zeroRequest] f
    by (auto simp: httpBufSize_def next_request_def)
qed


theorem pac_request_crashes_mixed_witness:
  "\<exists>s1. serve_request (ex_cli_env (MixedProxy ''127.0.0.1:7777'' \<lparr>hx_addr = ''127.0.0.1:7777'', hx_port = ''7777'', hx_addrInPAC = []\<rparr>
       ''127.0.0.1:7777'')) (ex_cli [ex_pac_request]) = Some (Panic ''sendPAC should only be called for http proxy'', s1)"
proof -
  let ?Q = "ex_cli_env (MixedProxy ''127.0.0.1:7777'' \<lparr>hx_addr = ''127.0.0.1:7777'', hx_port = ''7777'', hx_addrInPAC = []\<rparr>
       ''127.0.0.1:7777'')"
  obtain rq where rq: "next_request ?Q (ex_cli [ex_pac_request]) = Some rq" "Method rq = ''GET''"
      "URL rq = empty_URL \<lparr>url_Path := ''/pac''\<rparr>" using ex_pac_next by blast
  show ?thesis
    by (rule pac_request_crashes_mixed [OF rq(1)])
      (use rq in \<open>auto simp: ex_cli_env_def empty_URL_def pac_path_def\<close>)
qed

text \<open>
  Two requests can agree on host and port, the key of the pool, and still name different hosts.
\<close>

lemma host_of_port_not_unique:
  "map_sum id (\<lambda>u. (url_Host u, url_HostPort u)) (ParseRequestURIBytes ''http://[10.0.0.1]]/'') = Inr (''[10.0.0.1]'', ''[10.0.0.1]:80'')"
  "(\<lambda>u. (url_Host u, url_HostPort u)) (ParseHostPort empty_URL ''[10.0.0.1]:80'') = (''10.0.0.1'', ''[10.0.0.1]:80'')"
  by code_simp+

end
