(* ===== verification/Socks_Serve.thy ===== *)
theory Socks_Serve
  imports Serve_Safe Socks_Correct
begin

text \<open>
  socks.go, a whole SOCKS5 client: \<open>serveSocks\<close> with the connection over a parent (\<open>establishParentConnect\<close>) and the
  start of a UDP association, and \<open>serveMixed\<close>, which tells SOCKS5 and HTTP clients apart. The protocol steps of
  \<open>Socks\<close> run on the client of \<open>Serve\<close>: they read what \<open>serve\<close> would read, and write to the same client.
\<close>

section \<open>State\<close>

text \<open>
  \<open>y_local\<close> is the local address of the client's connection, \<open>y_svLocal\<close> of a server connection. \<open>y_listen\<close> and
  \<open>y_listen_out\<close> are the two calls of \<open>net.ListenUDP\<close>, \<open>y_udp\<close> a complete run of the goroutines of an association,
  whose packets are modelled in \<open>Socks\<close>.
\<close>

record ('cr, 'sr, 'sw, 'e) socks_env =
  y_Q :: "('cr, 'sr, 'sw, 'e) cli_env"
  y_local :: "netaddr option"
  y_svLocal :: "net_conn \<Rightarrow> netaddr option"
  y_listen :: "bytes \<times> sockaddr \<Rightarrow> 'e \<Rightarrow> (err + sockaddr option) \<times> 'e"
  y_listen_out :: "'e \<Rightarrow> err option \<times> 'e"
  y_udp :: "sockaddr option \<Rightarrow> (('cr, 'sr, 'sw, 'e) cli, unit) io"

definition as_sclient :: "('cr, 'sr, 'sw, 'e) cli \<Rightarrow> ('cr, 'e) sclient" where
  "as_sclient s = \<lparr>io_rd = f_cli (k_f s), io_wr = k_env s, sc_auth = k_auth s\<rparr>"

definition of_sclient :: "('cr, 'sr, 'sw, 'e) cli \<Rightarrow> ('cr, 'e) sclient \<Rightarrow> ('cr, 'sr, 'sw, 'e) cli" where
  "of_sclient s c =
     set_env (io_wr c) (s \<lparr>k_f := (k_f s) \<lparr>f_cli := io_rd c\<rparr>, k_auth := sc_auth c\<rparr>)"

definition on_socks :: "(('cr, 'e) sclient, 'a) io \<Rightarrow> (('cr, 'sr, 'sw, 'e) cli, 'a) io" where
  "on_socks m s = map_option (\<lambda>(res, c). (res, of_sclient s c)) (m (as_sclient s))"

definition reply :: "('cr, 'sr, 'sw, 'e) socks_env \<Rightarrow> char \<Rightarrow> netaddr option \<Rightarrow> (('cr, 'sr, 'sw, 'e) cli, unit) io" where
  "reply Y code addr = on_socks (writeSocks5Reply (p_cw (q_P (y_Q Y))) code addr)"

text \<open>A reply whose own error is ignored, before the error \<open>e\<close> is returned.\<close>

definition reply_error :: "('cr, 'sr, 'sw, 'e) socks_env \<Rightarrow> err \<Rightarrow> (('cr, 'sr, 'sw, 'e) cli, 'a) io" where
  "reply_error Y e s =
     map_option (\<lambda>(_, s1). (Fail e, s1))
       (reply Y (socksReplyFromError (p_uni (q_P (y_Q Y))) (Some e)) None s)"

section \<open>Connecting\<close>

definition createSocksServerConn ::
    "cfg \<Rightarrow> 'e xenv \<Rightarrow> URL \<Rightarrow> vref \<Rightarrow> 'e world \<Rightarrow> ((serverConn option \<times> err option) \<times> 'e world) may_panic" where
  "createSocksServerConn C E url si w =
     (case connectServer C E url si False w of
        Inl p \<Rightarrow> Inl p
      | Inr ((c, Some x), w1) \<Rightarrow> Inr ((None, Some x), w1)
      | Inr ((None, None), w1) \<Rightarrow> Inl ''nil connection''
      | Inr ((Some c, None), w1) \<Rightarrow> Inr ((Some (newServerConn c (url_HostPort url) si), None), w1))"

definition buildParentSocksConnectRequest :: "Request \<Rightarrow> bytes option \<Rightarrow> bytes" where
  "buildParentSocksConnectRequest r ah =
     ''CONNECT '' @ url_HostPort (URL r) @ '' HTTP/1.1'' @ CRLF @ ''Host: '' @ url_HostPort (URL r) @ CRLF @
     (case ah of None \<Rightarrow> [] | Some h \<Rightarrow> h) @ fullHeaderConnectionKeepAlive @ CRLF"

text \<open>Over an HTTP or cow parent the tunnel is asked for with CONNECT.\<close>

definition establishParentConnect ::
    "('cr, 'sr, 'sw, 'e) fwd_env \<Rightarrow> (('cr, 'sr, 'sw, 'e) fwd, unit) io" where
  "establishParentConnect P s =
     (if \<not> isMux (f_sv s) then Some (Ok (), s)
      else
        (case p_out P (buildParentSocksConnectRequest (f_rq s) (authHeader (f_conn s))) (f_out s (f_conn s)) of
           (n, Some e, x) \<Rightarrow> Some (Fail e, set_out x s)
         | (n, None, x) \<Rightarrow>
             (let s1 = set_out x s in
              case parseResponse (p_uni P) (c_HttpErrorCode (p_C P)) (p_srv P) (f_rq s1) zeroResponse
                     (f_srv s1 (f_conn s1)) of
                None \<Rightarrow> None
              | Some (Some e, rp, y) \<Rightarrow> Some (Fail e, set_srv y s1)
              | Some (None, rp, y) \<Rightarrow>
                  (if Status rp \<noteq> 200
                   then Some (Fail (newSocksRequestError socks5StatusGeneralError
                          (''parent proxy connect failed: '' @ Itoa (Status rp) @ '' '' @ Reason rp)), set_srv y s1)
                   else Some (Ok (), set_srv y s1)))))"

definition doSocksConnect ::
    "('cr, 'sr, 'sw, 'e) socks_env \<Rightarrow> (('cr, 'sr, 'sw, 'e) cli, unit) io" where
  "doSocksConnect Y s =
     (let P = q_P (y_Q Y); s1 = s \<lparr>k_f := on_rq (setState rsCreated) (k_f s)\<rparr> in
      case on_fwd (establishParentConnect P) s1 of
        None \<Rightarrow> None
      | Some (Panic p, s2) \<Rightarrow> Some (Panic p, s2)
      | Some (Fail e, s2) \<Rightarrow> reply_error Y e s2
      | Some (Ok _, s2) \<Rightarrow>
          io_bind (reply Y socks5StatusSucceeded (y_svLocal Y (f_conn (k_f s2)))) (\<lambda>_. on_fwd (p_tunnel P)) s2)"

section \<open>UDP associations\<close>

definition serveSocksUDPAssociate ::
    "('cr, 'sr, 'sw, 'e) socks_env \<Rightarrow> (('cr, 'sr, 'sw, 'e) cli, unit) io" where
  "serveSocksUDPAssociate Y s =
     (case y_listen Y (udp_relay_listen (y_local Y)) (k_env s) of
        (Inl er, e) \<Rightarrow> reply_error Y er (set_env e s)
      | (Inr udpLocal, e) \<Rightarrow>
          (case y_listen_out Y e of
             (Some er, e1) \<Rightarrow> reply_error Y er (set_env e1 s)
           | (None, e1) \<Rightarrow>
               io_bind (reply Y socks5StatusSucceeded (socks5UDPReplyAddr (y_local Y) udpLocal))
                 (\<lambda>_. y_udp Y udpLocal) (set_env e1 s)))"

section \<open>The client\<close>

definition connect_target :: "('cr, 'sr, 'sw, 'e) socks_env \<Rightarrow> (('cr, 'sr, 'sw, 'e) cli, unit) io" where
  "connect_target Y s =
     (let P = q_P (y_Q Y); f = k_f s; w = f_w f in
      case GetVisitCnt (parentEmpty w) (w_now (p_E P) w) (URL (f_rq f)) (w_site w) of
        (si, ss) \<Rightarrow>
          (case createSocksServerConn (p_C P) (p_E P) (URL (f_rq f)) si (w \<lparr>w_site := ss\<rparr>) of
             Inl p \<Rightarrow> Some (Panic p, s)
           | Inr ((sv, Some e), w1) \<Rightarrow> reply_error Y e (s \<lparr>k_f := f \<lparr>f_w := w1\<rparr>\<rparr>)
           | Inr ((None, None), w1) \<Rightarrow> Some (Panic ''nil server connection'', s \<lparr>k_f := f \<lparr>f_w := w1\<rparr>\<rparr>)
           | Inr ((Some sv, None), w1) \<Rightarrow> doSocksConnect Y (s \<lparr>k_f := f \<lparr>f_w := w1, f_sv := sv\<rparr>\<rparr>)))"

definition read_command ::
    "('cr, 'sr, 'sw, 'e) socks_env \<Rightarrow> (('cr, 'sr, 'sw, 'e) cli, socks5ParsedRequest \<times> Request) io" where
  "read_command Y s =
     (case on_socks (parseSocks5Request (p_cli (q_P (y_Q Y))) zeroRequest) s of
        Some (Fail e, s1) \<Rightarrow> reply_error Y e s1
      | x \<Rightarrow> x)"

definition serve_command ::
    "('cr, 'sr, 'sw, 'e) socks_env \<Rightarrow> socks5ParsedRequest \<times> Request \<Rightarrow> (('cr, 'sr, 'sw, 'e) cli, unit) io" where
  "serve_command Y = (\<lambda>(req, r) s.
     if sq_cmd req = socks5CmdUDPAssociate then serveSocksUDPAssociate Y s
     else connect_target Y (s \<lparr>k_f := (k_f s) \<lparr>f_rq := r\<rparr>\<rparr>))"

definition serveSocks ::
    "('cr, 'sr, 'sw, 'e) socks_env \<Rightarrow> (('cr, 'sr, 'sw, 'e) cli, unit) io" where
  "serveSocks Y s =
     (let P = q_P (y_Q Y) in
      io_bind (on_socks (negotiateSocks5 (p_cli P) (p_cw P) (w_now (p_E P) (f_w (k_f s))) (q_addr (y_Q Y))))
        (\<lambda>_. io_bind (read_command Y) (serve_command Y)) s)"

text \<open>\<open>serveMixed\<close> looks at the first byte without taking it.\<close>

datatype 's mixed_end = Closed 's | Socks "unit outcome" 's | Http "next_step outcome" 's

definition serveMixed ::
    "('cr, 'sr, 'sw, 'e) socks_env \<Rightarrow> ('cr, 'sr, 'sw, 'e) cli \<Rightarrow> ('cr, 'sr, 'sw, 'e) cli mixed_end option" where
  "serveMixed Y s =
     (case Peek (p_cli (q_P (y_Q Y))) 1 (f_cli (k_f s)) of
        (b, e, c) \<Rightarrow>
          (let s1 = s \<lparr>k_f := (k_f s) \<lparr>f_cli := c\<rparr>\<rparr> in
           if e \<noteq> None then Some (Closed s1)
           else if b ! 0 = socks5Version then map_option (\<lambda>(res, t). Socks res t) (serveSocks Y s1)
           else map_option (\<lambda>(res, t). Http res t) (serve (y_Q Y) s1)))"

section \<open>Steps that do not panic\<close>

interpretation no_panic: io_invariant "\<lambda>_. True" .

lemma io_read_no_panic: "no_panic.safe (io_read R n)"
  by (rule no_panic.safeI) (auto simp: io_read_def split: option.splits prod.splits)

lemma io_fail_no_panic: "no_panic.safe (io_fail e)"
  by (rule no_panic.safeI) (auto simp: io_fail_def)

lemma readSocks5Target_no_panic: "no_panic.safe (readSocks5Target R atyp)"
  unfolding readSocks5Target_def
  by (intro no_panic.safe_bind no_panic.safe_cond io_read_no_panic io_fail_no_panic no_panic.safe_ret
      | (simp only: Let_def split: prod.split option.split sum.split; intro allI impI conjI))+

lemma parseSocks5Request_no_panic: "no_panic.safe (parseSocks5Request R r)"
  unfolding parseSocks5Request_def
  by (intro no_panic.safe_bind no_panic.safe_cond io_read_no_panic io_fail_no_panic no_panic.safe_ret readSocks5Target_no_panic
      | (simp only: Let_def split: prod.split; intro allI impI))+

lemma reply_cases:
  assumes "reply Y code addr s = Some (res, s1)"
  shows "(\<exists>e. s1 = set_env e s) \<and> (\<forall>p. res \<noteq> Panic p)"
  using assms by (auto simp: reply_def on_socks_def writeSocks5Reply_def io_write_def as_sclient_def of_sclient_def
      set_env_def split: prod.splits option.splits)

lemma reply_error_cases:
  assumes "reply_error Y e s = Some (res, s1)"
  shows "(\<exists>x. s1 = set_env x s) \<and> (\<forall>p. res \<noteq> Panic p)"
  using assms reply_cases [of Y _ None s] by (auto simp: reply_error_def)


section \<open>A SOCKS5 client is safe\<close>

text \<open>What a client keeps while it is served.\<close>

definition socks_ok :: "(bytes \<Rightarrow> bytes) \<Rightarrow> ('cr, 'sr, 'sw, 'e) socks_env \<Rightarrow> ('cr, 'sr, 'sw, 'e) cli \<Rightarrow> bool" where
  "socks_ok hostOf Y s \<longleftrightarrow> world_ok (p_C (q_P (y_Q Y))) hostOf (f_w (k_f s))"

interpretation socks: io_invariant "socks_ok hostOf Y" for hostOf Y .

lemma socks_ok_simps [simp]:
  "socks_ok h Y (set_env e s) = socks_ok h Y s"
  "socks_ok h Y (of_sclient s c) = socks_ok h Y s"
  "socks_ok h Y (s \<lparr>k_f := (k_f s) \<lparr>f_rq := rq\<rparr>\<rparr>) = socks_ok h Y s"
  by (simp_all add: socks_ok_def set_env_def of_sclient_def)

lemma on_socks_safe: "no_panic.safe m \<Longrightarrow> socks.safe h Y (on_socks m)"
  by (rule socks.safeI) (auto simp: on_socks_def dest: no_panic.safeD)

lemma reply_safe: "socks.safe h Y (reply Y code addr)"
  using reply_cases by (fastforce intro!: socks.safeI)

lemma reply_error_safe: "socks.safe h Y (reply_error Y e)"
  using reply_error_cases by (fastforce intro!: socks.safeI)

text \<open>What the run of an association and the tunnel have to keep.\<close>

definition socks_env_ok :: "(bytes \<Rightarrow> bytes) \<Rightarrow> ('cr, 'sr, 'sw, 'e) socks_env \<Rightarrow> bool" where
  "socks_env_ok hostOf Y \<longleftrightarrow>
     env_conns not_direct (xe_parent (p_E (q_P (y_Q Y)))) \<and> tunnels_ok hostOf (q_P (y_Q Y)) \<and>
     (\<forall>u. socks.safe hostOf Y (y_udp Y u))"

lemma serveSocksUDPAssociate_safe:
  assumes "socks_env_ok h Y"
  shows "socks.safe h Y (serveSocksUDPAssociate Y)"
proof (rule socks.safeI)
  fix s res s1
  assume a: "socks_ok h Y s" "serveSocksUDPAssociate Y s = Some (res, s1)"
  have e: "socks_ok h Y (set_env x s)" for x using a(1) by simp
  have u: "socks.safe h Y (y_udp Y v)" for v using assms by (simp add: socks_env_ok_def)
  obtain r1 x1 where l: "y_listen Y (udp_relay_listen (y_local Y)) (k_env s) = (r1, x1)" by fastforce
  obtain r2 x2 where o: "y_listen_out Y x1 = (r2, x2)" by fastforce
  show "socks_ok h Y s1 \<and> (\<forall>p. res \<noteq> Panic p)"
  proof (cases r1)
    case (Inl x)
    then have "reply_error Y x (set_env x1 s) = Some (res, s1)" using a(2) l by (simp add: serveSocksUDPAssociate_def)
    then show ?thesis by (rule socks.safeD [OF reply_error_safe e])
  next
    case (Inr v)
    show ?thesis
    proof (cases r2)
      case None
      then have b: "io_bind (reply Y socks5StatusSucceeded (socks5UDPReplyAddr (y_local Y) v)) (\<lambda>_. y_udp Y v) (set_env x2 s) = Some (res, s1)"
        using a(2) l o Inr by (simp add: serveSocksUDPAssociate_def)
      show ?thesis by (rule socks.safe_bind_from [OF reply_safe u e b])
    next
      case (Some x)
      then have "reply_error Y x (set_env x2 s) = Some (res, s1)" using a(2) l o Inr by (simp add: serveSocksUDPAssociate_def)
      then show ?thesis by (rule socks.safeD [OF reply_error_safe e])
    qed
  qed
qed

lemma createSocksServerConn_safe:
  assumes "world_ok C hostOf w" "env_conns not_direct (xe_parent E)" "ref_safe C (w_site w) url si"
    "parentEmpty w \<longrightarrow> AlwaysDirect (vc_of C (w_site w) si)"
  shows "\<exists>svo er w'. createSocksServerConn C E url si w = Inr ((svo, er), w') \<and> world_ok C hostOf w' \<and>
    (case svo of
       None \<Rightarrow> er \<noteq> None
     | Some sv \<Rightarrow> er = None \<and> sv_hostPort sv = url_HostPort url \<and> sv_safe C (w_site w') url sv)"
proof -
  obtain c er w' where c: "connectServer C E url si False w = Inr ((c, er), w')" "world_ok C hostOf w'"
      "case c of None \<Rightarrow> er \<noteq> None
        | Some k \<Rightarrow> er = None \<and> sv_safe C (w_site w') url (newServerConn k (url_HostPort url) si)"
    using connectServer_safe [OF assms, of False] by blast
  show ?thesis
    using c by (cases c) (auto simp: createSocksServerConn_def newServerConn_def)
qed

lemma establish_safe:
  assumes "establishParentConnect P s = Some (res, s1)" "fwd_ok h P url s"
  shows "fwd_ok h P url s1 \<and> (\<forall>p. res \<noteq> Panic p)"
  using assms by (auto simp: establishParentConnect_def Let_def split: if_splits prod.splits option.splits)

lemma doSocksConnect_safe:
  assumes "socks_env_ok h Y" "fwd_ok h (q_P (y_Q Y)) url (k_f s)" "raw (f_rq (k_f s)) \<noteq> None" "doSocksConnect Y s = Some (res, s1)"
  shows "socks_ok h Y s1 \<and> (\<forall>p. res \<noteq> Panic p)"
proof -
  let ?P = "q_P (y_Q Y)" and ?s = "s \<lparr>k_f := on_rq (setState rsCreated) (k_f s)\<rparr>"
  have ok1: "fwd_ok h ?P url (k_f ?s)"
    using assms(2,3) by (simp add: fwd_ok_def on_rq_def rq_ok_def setState_def)
  obtain r2 s2 where e: "on_fwd (establishParentConnect ?P) ?s = Some (r2, s2)"
    using assms(4) by (cases "on_fwd (establishParentConnect ?P) ?s") (auto simp: doSocksConnect_def Let_def)
  then have s2: "fwd_ok h ?P url (k_f s2)" "\<forall>p. r2 \<noteq> Panic p"
    using establish_safe [OF _ ok1] by (auto simp: on_fwd_def)
  have w2: "socks_ok h Y s2" using s2 by (simp add: fwd_ok_def socks_ok_def)
  have env: "fwd_ok h ?P url (k_f (set_env x s2))" for x
    using s2(1) world_mono [OF s2(1)] by (simp add: set_env_def)
  show ?thesis
  proof (cases r2)
    case (Ok u)
    then have b: "io_bind (reply Y socks5StatusSucceeded (y_svLocal Y (f_conn (k_f s2)))) (\<lambda>_. on_fwd (p_tunnel ?P)) s2 = Some (res, s1)"
      using assms(4) e by (simp add: doSocksConnect_def Let_def)
    obtain r3 s3 where r: "reply Y socks5StatusSucceeded (y_svLocal Y (f_conn (k_f s2))) s2 = Some (r3, s3)"
      using b by (cases "reply Y socks5StatusSucceeded (y_svLocal Y (f_conn (k_f s2))) s2") (auto simp: io_bind_def)
    obtain x where s3: "s3 = set_env x s2" "\<forall>p. r3 \<noteq> Panic p" using reply_cases [OF r] by auto
    have tun: "socks_ok h Y s4 \<and> (\<forall>p. r4 \<noteq> Panic p)" if "on_fwd (p_tunnel ?P) s3 = Some (r4, s4)" for r4 s4
      using that assms(1) answering.safeD [OF tunnels_ok_tunnel env] s3
      by (auto simp: socks_env_ok_def on_fwd_def socks_ok_def fwd_ok_def)
    show ?thesis using b r s3 tun w2 by (cases r3) (auto simp: io_bind_def)
  next
    case (Fail x)
    then have "reply_error Y x s2 = Some (res, s1)" using assms(4) e by (simp add: doSocksConnect_def Let_def)
    then show ?thesis by (rule socks.safeD [OF reply_error_safe w2])
  qed (use s2 in blast)
qed

lemma connect_target_safe:
  assumes "socks_env_ok h Y" "socks_ok h Y s" "raw (f_rq (k_f s)) \<noteq> None" "connect_target Y s = Some (res, s1)"
  shows "socks_ok h Y s1 \<and> (\<forall>p. res \<noteq> Panic p)"
proof -
  let ?P = "q_P (y_Q Y)" and ?w = "f_w (k_f s)" and ?url = "URL (f_rq (k_f s))"
  obtain si ss where gv: "GetVisitCnt (parentEmpty ?w) (w_now (p_E ?P) ?w) ?url (w_site ?w) = (si, ss)" by fastforce
  define w1 where "w1 = ?w \<lparr>w_site := ss\<rparr>"
  have "ss_step (w_site ?w) ss" using step_get [of "w_site ?w" "parentEmpty ?w" "w_now (p_E ?P) ?w" ?url] gv by simp
  then have ok1: "world_ok (p_C ?P) h w1"
    using assms(2) pool_sites_mono [OF ss_step_mono] by (auto simp: world_ok_def w1_def socks_ok_def)
  have rs: "ref_safe (p_C ?P) (w_site w1) ?url si" "parentEmpty w1 \<longrightarrow> AlwaysDirect (vc_of (p_C ?P) (w_site w1) si)"
    using GetVisitCnt_ref_safe [OF gv] by (auto simp: w1_def parentEmpty_def)
  obtain svo er w2 where c: "createSocksServerConn (p_C ?P) (p_E ?P) ?url si w1 = Inr ((svo, er), w2)" "world_ok (p_C ?P) h w2"
      "case svo of None \<Rightarrow> er \<noteq> None
        | Some sv \<Rightarrow> er = None \<and> sv_hostPort sv = url_HostPort ?url \<and> sv_safe (p_C ?P) (w_site w2) ?url sv"
    using createSocksServerConn_safe [OF ok1 _ rs] assms(1) unfolding socks_env_ok_def by blast
  show ?thesis
  proof (cases svo)
    case None
    then obtain x where x: "er = Some x" using c(3) by auto
    then have "reply_error Y x (s \<lparr>k_f := (k_f s) \<lparr>f_w := w2\<rparr>\<rparr>) = Some (res, s1)"
      using assms(4) gv c(1) None by (simp add: connect_target_def Let_def flip: w1_def)
    moreover have "socks_ok h Y (s \<lparr>k_f := (k_f s) \<lparr>f_w := w2\<rparr>\<rparr>)" using c(2) by (simp add: socks_ok_def)
    ultimately show ?thesis using socks.safeD [OF reply_error_safe] by blast
  next
    case (Some sv)
    let ?s = "s \<lparr>k_f := (k_f s) \<lparr>f_w := w2, f_sv := sv\<rparr>\<rparr>"
    have "doSocksConnect Y ?s = Some (res, s1)" using assms(4) gv c(1,3) Some by (simp add: connect_target_def Let_def flip: w1_def)
    moreover have "fwd_ok h ?P ?url (k_f ?s)" using c Some assms(3) by (auto simp: fwd_ok_def rq_ok_def)
    ultimately show ?thesis using doSocksConnect_safe [OF assms(1), of ?url ?s] assms(3) by simp
  qed
qed


section \<open>Only admitted clients reach anything\<close>

lemma parsed_request_raw:
  "parseSocks5Request R r s = Some (Ok (req, r1), s1) \<Longrightarrow> sq_cmd req \<noteq> socks5CmdUDPAssociate \<Longrightarrow> raw r1 \<noteq> None"
  by (auto simp: parseSocks5Request_def io_bind_eq_Ok io_fail_def io_ret_def socks_connect_request_def Request_reset_def Let_def
      split: if_splits)

lemma untouched_of_sclient [simp]: "untouched s (of_sclient t c) = untouched s t"
  by (simp add: untouched_def of_sclient_def set_env_def)

definition socks_entered ::
    "('cr, 'sr, 'sw, 'e) socks_env \<Rightarrow> ('cr \<Rightarrow> bytes) \<Rightarrow> ('cr, 'sr, 'sw, 'e) cli \<Rightarrow> bool" where
  "socks_entered Y str s \<longleftrightarrow>
     (let cl = q_addr (y_Q Y); now = w_now (p_E (q_P (y_Q Y))) (f_w (k_f s))
      in \<exists>methods said answer rest.
           socks_admitted (noauth_ok now cl (k_auth s)) (k_auth s) cl methods said answer \<and>
           str (f_cli (k_f s)) = CHR 0x05 # char_of (length methods) # methods @ said @ rest)"

lemma read_command_cases:
  assumes "read_command Y s = Some (res, s1)"
  shows "(\<forall>p. res \<noteq> Panic p) \<and> untouched s s1 \<and> socks_ok h Y s1 = socks_ok h Y s \<and>
    (\<forall>req r. res = Ok (req, r) \<longrightarrow> sq_cmd req \<noteq> socks5CmdUDPAssociate \<longrightarrow> raw r \<noteq> None)"
proof -
  obtain r2 c where p: "parseSocks5Request (p_cli (q_P (y_Q Y))) zeroRequest (as_sclient s) = Some (r2, c)"
    using assms by (auto simp: read_command_def on_socks_def split: option.splits)
  have np: "\<forall>p. r2 \<noteq> Panic p" using no_panic.safeD [OF parseSocks5Request_no_panic _ p] by simp
  have os: "on_socks (parseSocks5Request (p_cli (q_P (y_Q Y))) zeroRequest) s = Some (r2, of_sclient s c)"
    using p by (simp add: on_socks_def)
  show ?thesis
  proof (cases r2)
    case (Fail e)
    then have "reply_error Y e (of_sclient s c) = Some (res, s1)" using assms os by (simp add: read_command_def)
    moreover from this have "\<forall>x. res \<noteq> Ok x" by (auto simp: reply_error_def)
    ultimately show ?thesis using reply_error_cases [of Y e "of_sclient s c" res s1] by auto
  next
    case (Ok x)
    then have "res = Ok x" "s1 = of_sclient s c" using assms os by (simp_all add: read_command_def)
    then show ?thesis using p Ok parsed_request_raw by fastforce
  qed (use np in blast)
qed

text \<open>
  A SOCKS5 client reaches nothing before it is admitted. Whatever it sends, it is served without a panic and the
  shared state stays consistent; and unless it offered to go without a password and may, or sent the password of a
  configured user, no byte goes to a server, no connection is made or taken and nothing is learnt about a site.
\<close>

theorem socks_client_admitted:
  assumes "reliable_body_io (p_cli (q_P (y_Q Y))) B str fin (p_cw (q_P (y_Q Y))) written"
    and "remoteIP (q_addr (y_Q Y)) = [] \<or> ParseIP (remoteIP (q_addr (y_Q Y))) \<noteq> None"
    and "socks_env_ok hostOf Y" "socks_ok hostOf Y s" "serveSocks Y s = Some (res, s1)"
  shows "(\<forall>p. res \<noteq> Panic p) \<and> socks_ok hostOf Y s1 \<and> (socks_entered Y str s \<or> untouched s s1)"
proof -
  let ?P = "q_P (y_Q Y)" and ?cl = "q_addr (y_Q Y)"
  let ?now = "w_now (p_E ?P) (f_w (k_f s))"
  obtain x c where n: "negotiateSocks5 (p_cli ?P) (p_cw ?P) ?now ?cl (as_sclient s) = Some (x, c)" "\<forall>p. x \<noteq> Panic p"
    and ok: "x = Ok () \<Longrightarrow> \<exists>methods said answer.
       socks_admitted (noauth_ok ?now ?cl (sc_auth (as_sclient s))) (sc_auth (as_sclient s)) ?cl methods said answer \<and>
       str (io_rd (as_sclient s)) = CHR 0x05 # char_of (length methods) # methods @ said @ str (io_rd c)"
    using reliable_body_io.negotiateSocks5_spec [OF assms(1,2), of ?now "as_sclient s"] by blast
  have os: "on_socks (negotiateSocks5 (p_cli ?P) (p_cw ?P) ?now ?cl) s = Some (x, of_sclient s c)"
    using n(1) by (simp add: on_socks_def)
  show ?thesis
  proof (cases x)
    case (Fail e)
    then show ?thesis using assms(4,5) os by (auto simp: serveSocks_def io_bind_def)
  next
    case (Ok u)
    then have b: "io_bind (read_command Y) (serve_command Y) (of_sclient s c) = Some (res, s1)"
      using assms(5) os by (simp add: serveSocks_def io_bind_def [of "on_socks _"])
    obtain r2 s2 where rc: "read_command Y (of_sclient s c) = Some (r2, s2)"
      using b by (cases "read_command Y (of_sclient s c)") (auto simp: io_bind_def)
    note cc = read_command_cases [OF rc, of hostOf]
    have "socks_entered Y str s"
      using ok Ok unfolding socks_entered_def Let_def as_sclient_def by fastforce
    moreover have "(\<forall>p. res \<noteq> Panic p) \<and> socks_ok hostOf Y s1"
    proof (cases r2)
      case o2: (Ok y)
      obtain req r where y: "y = (req, r)" by fastforce
      have sc: "serve_command Y y s2 = Some (res, s1)" using b rc o2 by (simp add: io_bind_def)
      have s2: "socks_ok hostOf Y s2" using cc assms(4) by simp
      show ?thesis
      proof (cases "sq_cmd req = socks5CmdUDPAssociate")
        case True
        then show ?thesis using sc y socks.safeD [OF serveSocksUDPAssociate_safe [OF assms(3)] s2] by (simp add: serve_command_def)
      next
        case False
        then have "raw r \<noteq> None" using cc o2 y by blast
        then show ?thesis
          using sc y False connect_target_safe [OF assms(3), of "s2 \<lparr>k_f := (k_f s2) \<lparr>f_rq := r\<rparr>\<rparr>" res s1] s2
          by (simp add: serve_command_def)
      qed
    qed (use b rc cc assms(4) in \<open>auto simp: io_bind_def\<close>)
    ultimately show ?thesis by blast
  qed (use n in blast)
qed


text \<open>Over a parent that speaks HTTP, the tunnel is used only after the parent confirmed it with the status 200.\<close>

lemma parent_tunnel_confirmed:
  assumes "establishParentConnect P s = Some (Ok (), s1)" "isMux (f_sv s)"
  shows "\<exists>n x rp y. p_out P (buildParentSocksConnectRequest (f_rq s) (authHeader (f_conn s))) (f_out s (f_conn s)) = (n, None, x) \<and>
    parseResponse (p_uni P) (c_HttpErrorCode (p_C P)) (p_srv P) (f_rq s) zeroResponse (f_srv s (f_conn s)) = Some (None, rp, y) \<and>
    Status rp = 200 \<and> s1 = set_srv y (set_out x s)"
  using assms
  by (auto simp: establishParentConnect_def Let_def set_out_def f_conn_def split: prod.splits option.splits if_splits)

definition ex_socks_env :: "(mem_state, mem_state, bytes, bytes) socks_env" where
  "ex_socks_env = \<lparr>y_Q = ex_cli_env (SocksProxy ''127.0.0.1:1080''), y_local = None, y_svLocal = (\<lambda>_. None),
     y_listen = (\<lambda>a e. (Inl EOF, e)), y_listen_out = (\<lambda>e. (None, e)), y_udp = (\<lambda>u. io_ret ())\<rparr>"

lemma ex_socks_env_ok:
  "socks_env_ok h ex_socks_env" "socks_ok h ex_socks_env (ex_cli cli)"
  using ex_tunnels_ok [of h buffer_write]
  by (auto simp: socks_env_ok_def ex_socks_env_def ex_cli_env_def ex_fwd_env_def ex_bytes_env_def env_conns_def
      socks_ok_def ex_fwd_def world_ok_def cp_ok_def pool_sites_ok_def pooled_def emptyPool_def)

text \<open>A client that may not go without a password offers nothing else.\<close>

lemma ex_socks_refused:
  assumes Y: "p_cli (q_P (y_Q Y)) = mem_reader httpBufSize" "p_cw (q_P (y_Q Y)) = buffer_write" "q_addr (y_Q Y) = ex_cl"
  shows "\<exists>e c. serveSocks Y (ex_cli [[CHR 0x05, CHR 0x01, CHR 0x00]]) = Some (Fail e, of_sclient (ex_cli [[CHR 0x05, CHR 0x01, CHR 0x00]]) c)"
    and "\<not> socks_entered Y mem_str (ex_cli [[CHR 0x05, CHR 0x01, CHR 0x00]])"
proof -
  let ?s = "ex_cli [[CHR 0x05, CHR 0x01, CHR 0x00]]"
  have ip: "remoteIP (q_addr (y_Q Y)) = [] \<or> ParseIP (remoteIP (q_addr (y_Q Y))) \<noteq> None"
    using ex_client by (simp add: Y ex_remoteIP)
  have rel: "reliable_body_io (p_cli (q_P (y_Q Y))) httpBufSize mem_str mr_err (p_cw (q_P (y_Q Y))) (\<lambda>w. w)"
    using mem_buffer.reliable_body_io_axioms by (simp add: Y)
  have no: "\<not> noauth_ok t ex_cl ex_auth" for t
    by (simp add: noauth_ok_def ex_remoteIP ex_auth_def NewTimeoutSet_def ts_has_def authIP_def split: option.split)
  show ne: "\<not> socks_entered Y mem_str ?s"
    using no by (auto simp: socks_entered_def Y socks_admitted_def Cons_eq_append_conv Let_def)
  let ?now = "w_now (p_E (q_P (y_Q Y))) (f_w (k_f ?s))"
  obtain x c where n: "negotiateSocks5 (p_cli (q_P (y_Q Y))) (p_cw (q_P (y_Q Y))) ?now (q_addr (y_Q Y)) (as_sclient ?s) = Some (x, c)"
      "\<forall>p. x \<noteq> Panic p"
    and ok: "x = Ok () \<Longrightarrow> \<exists>methods said answer. socks_admitted (noauth_ok ?now (q_addr (y_Q Y)) (sc_auth (as_sclient ?s)))
       (sc_auth (as_sclient ?s)) (q_addr (y_Q Y)) methods said answer \<and>
       mem_str (io_rd (as_sclient ?s)) = CHR 0x05 # char_of (length methods) # methods @ said @ mem_str (io_rd c)"
    using reliable_body_io.negotiateSocks5_spec [OF rel ip, of ?now "as_sclient ?s"] by blast
  have "x \<noteq> Ok ()" using ok ne by (fastforce simp: socks_entered_def as_sclient_def Let_def)
  then obtain e where "x = Fail e" using n(2) by (cases x) auto
  then have "serveSocks Y ?s = Some (Fail e, of_sclient ?s c)"
    using n(1) by (simp add: serveSocks_def on_socks_def io_bind_def)
  then show "\<exists>e c. serveSocks Y ?s = Some (Fail e, of_sclient ?s c)" by blast
qed

theorem socks_client_admitted_witness:
  "\<exists>res s1. serveSocks ex_socks_env (ex_cli [[CHR 0x05, CHR 0x01, CHR 0x00]]) = Some (res, s1) \<and>
     untouched (ex_cli [[CHR 0x05, CHR 0x01, CHR 0x00]]) s1"
proof -
  let ?s = "ex_cli [[CHR 0x05, CHR 0x01, CHR 0x00]]" and ?Y = ex_socks_env
  have q: "p_cli (q_P (y_Q ?Y)) = mem_reader httpBufSize" "p_cw (q_P (y_Q ?Y)) = buffer_write" "q_addr (y_Q ?Y) = ex_cl"
    by (simp_all add: ex_socks_env_def ex_fwd_env_def ex_cli_env_def)
  note r = ex_socks_refused [OF q]
  have ip: "remoteIP (q_addr (y_Q ?Y)) = [] \<or> ParseIP (remoteIP (q_addr (y_Q ?Y))) \<noteq> None"
    using ex_client by (simp add: q ex_remoteIP)
  have rel: "reliable_body_io (p_cli (q_P (y_Q ?Y))) httpBufSize mem_str mr_err (p_cw (q_P (y_Q ?Y))) (\<lambda>w. w)"
    using mem_buffer.reliable_body_io_axioms by (simp add: q)
  show ?thesis
    using socks_client_admitted [OF rel ip ex_socks_env_ok(1) ex_socks_env_ok(2)] r by blast
qed

end
