(* ===== verification/Plugin.thy ===== *)
theory Plugin
  imports Forward
begin

text \<open>
  plugin.go: recording of exchanges in a database. Requests of the proxy begin an exchange, copy bodies into it and hand
  it to a single worker over a channel; a channel of slots bounds what is pending. Operations are \<open>io\<close> steps on the state
  of the writer: \<open>None\<close> is an operation that blocks, and sending on or closing a closed channel is a panic. Under the locks
  of the code each operation is one step, and \<open>plugin_step\<close> lets the goroutines take them in any order.

  Pointers to exchanges are indices into \<open>hw_exchanges\<close>. The decoders of the standard library, the decoding of the
  application's protocol (\<open>masterrummy.Decode\<close>) and the database are arguments.
\<close>

section \<open>Bodies\<close>

definition pluginBodyLimit :: nat where
  "pluginBodyLimit = 2 ^ 20"

definition pluginPendingLimit :: nat where
  "pluginPendingLimit = 64"

record pluginBody =
  pb_data :: bytes
  pb_tooLarge :: bool

definition pluginBody_Write :: "pluginBody writer" where
  "pluginBody_Write p b =
     (int (length p), None,
      if \<not> pb_tooLarge b then
        (if length (pb_data b) + length p > pluginBodyLimit then \<lparr>pb_data = [], pb_tooLarge = True\<rparr>
         else b \<lparr>pb_data := pb_data b @ p\<rparr>)
      else b)"

text \<open>
  A reader, for reading to its end: the bytes it gives and the error at its end, if it is not the regular one.
\<close>

type_synonym reading = "bytes \<times> err option"

definition readPluginBody :: "reading \<Rightarrow> err + bytes" where
  "readPluginBody rd =
     (let data = take (pluginBodyLimit + 1) (fst rd)
      in if length data > pluginBodyLimit then Inl (ErrorString ''plugin body too large'')
         else (case snd rd of Some e \<Rightarrow> Inl e | None \<Rightarrow> Inr data))"

text \<open>The decoders; \<open>gzip.NewReader\<close> and \<open>zlib.NewReader\<close> may fail at once. \<open>d_uni\<close> is
  \<open>strings.ToLower\<close> outside ASCII.\<close>

record decoders =
  d_chunked :: "bytes \<Rightarrow> reading"
  d_gzip :: "bytes \<Rightarrow> err + reading"
  d_zlib :: "bytes \<Rightarrow> err + reading"
  d_flate :: "bytes \<Rightarrow> reading"
  d_uni :: "bytes \<Rightarrow> bytes"

definition open_decoder :: "decoders \<Rightarrow> bytes \<Rightarrow> bytes \<Rightarrow> (err + reading) option" where
  "open_decoder D enc body =
     (if enc = [] \<or> enc = ''identity'' then None
      else if enc = ''gzip'' \<or> enc = ''x-gzip'' then Some (d_gzip D body)
      else if enc = ''deflate'' then Some (case d_zlib D body of Inl e \<Rightarrow> Inr (d_flate D body) | Inr rd \<Rightarrow> Inr rd)
      else Some (Inl (ErrorString ''unsupported plugin content encoding'')))"

fun decode_all :: "decoders \<Rightarrow> bytes list \<Rightarrow> bytes \<Rightarrow> err + bytes" where
  "decode_all D [] body = Inr body"
| "decode_all D (enc # encs) body =
     (case open_decoder D (strings_TrimSpace enc) body of
        None \<Rightarrow> decode_all D encs body
      | Some (Inl e) \<Rightarrow> Inl e
      | Some (Inr rd) \<Rightarrow> (case readPluginBody rd of Inl e \<Rightarrow> Inl e | Inr b \<Rightarrow> decode_all D encs b))"

definition pluginEntityBody :: "decoders \<Rightarrow> bytes \<Rightarrow> Header \<Rightarrow> err + bytes" where
  "pluginEntityBody D data h =
     (case readPluginBody (if Chunking h then d_chunked D data else (data, None)) of
        Inl e \<Rightarrow> Inl e
      | Inr body \<Rightarrow> decode_all D (rev (Split (strings_ToLower (d_uni D) (ContentEncoding h)) '','')) body)"

section \<open>Exchanges and the writer\<close>

record pluginExchange =
  ex_released :: bool
  ex_domain :: bytes
  ex_method :: bytes
  ex_target :: bytes
  ex_requestedAt :: time
  ex_status :: int
  ex_requestHeaders :: bytes
  ex_responseHeaders :: bytes
  ex_requestMeta :: Header
  ex_responseMeta :: Header
  ex_requestBody :: pluginBody
  ex_responseBody :: pluginBody

text \<open>A row of the table; the parsed parts are what \<open>masterrummy.Decode\<close> returned.\<close>

record 'd row =
  row_domain :: bytes
  row_method :: bytes
  row_url :: bytes
  row_time :: time
  row_status :: int
  row_requestHeaders :: bytes
  row_requestBody :: bytes
  row_responseHeaders :: bytes
  row_responseBody :: bytes
  row_decoded :: 'd

record 'd httpPluginWriter =
  hw_exchanges :: "pluginExchange list"
  hw_jobs :: "nat list"
  hw_jobsClosed :: bool
  hw_slots :: nat
  hw_closed :: bool
  hw_busy :: "nat option"
  hw_done :: bool
  hw_written :: "64 word"
  hw_skipped :: "64 word"
  hw_dropped :: "64 word"
  hw_failed :: "64 word"
  hw_rows :: "'d row list"

definition newHTTPPluginWriter :: "'d httpPluginWriter" where
  "newHTTPPluginWriter =
     \<lparr>hw_exchanges = [], hw_jobs = [], hw_jobsClosed = False, hw_slots = 0, hw_closed = False, hw_busy = None, hw_done = False,
      hw_written = 0, hw_skipped = 0, hw_dropped = 0, hw_failed = 0, hw_rows = []\<rparr>"

text \<open>
  Opening the writer: the operations of the system it tries in turn, each with its error for the database file, if any.
\<close>

record plugin_os =
  os_MkdirAll :: "bytes \<Rightarrow> err option"
  os_OpenFile :: "bytes \<Rightarrow> err option"
  os_Close :: "bytes \<Rightarrow> err option"
  sql_Open :: "bytes \<Rightarrow> err option"
  db_Exec :: "bytes \<Rightarrow> err option"

fun first_error :: "err option list \<Rightarrow> err option" where
  "first_error [] = None"
| "first_error (Some e # es) = Some e"
| "first_error (None # es) = first_error es"

definition open_plugin :: "plugin_os \<Rightarrow> bytes \<Rightarrow> err + 'd httpPluginWriter" where
  "open_plugin os file =
     (if file = [] then Inl (ErrorString ''pluginDBFile is empty'')
      else
        (case first_error [os_MkdirAll os file, os_OpenFile os file, os_Close os file, sql_Open os file, db_Exec os file] of
           Some e \<Rightarrow> Inl e
         | None \<Rightarrow> Inr newHTTPPluginWriter))"

text \<open>\<open>initHTTPPlugin\<close>; the result \<open>None\<close> leaves \<open>httpPlugin\<close> nil.\<close>

definition initHTTPPlugin :: "plugin_os \<Rightarrow> bytes \<Rightarrow> bytes \<Rightarrow> err + 'd httpPluginWriter option" where
  "initHTTPPlugin os plugin file =
     (if plugin = [] then Inr None
      else if plugin \<noteq> ''masterrummy'' then Inl (ErrorString (''unknown plugin '' @ plugin))
      else (case open_plugin os file of Inl e \<Rightarrow> Inl e | Inr p \<Rightarrow> Inr (Some p)))"

definition drop1 :: "'d httpPluginWriter \<Rightarrow> 'd httpPluginWriter" where
  "drop1 p = p \<lparr>hw_dropped := hw_dropped p + 1\<rparr>"

text \<open>\<open>begin\<close> on a writer that is not nil; the result \<open>None\<close> is nil.\<close>

definition begin_exchange :: "time \<Rightarrow> Request \<Rightarrow> 'd httpPluginWriter \<Rightarrow> nat option \<times> 'd httpPluginWriter" where
  "begin_exchange startedAt r p =
     (if isConnect r \<or> Upgrade (header r) \<noteq> [] \<or> SplitN (url_Path (URL r)) ''?'' 2 ! 0 \<noteq> ''/i.php'' then (None, p)
      else if hw_closed p then (None, p)
      else if length (rawRequest r) > pluginBodyLimit then (None, drop1 p)
      else if \<not> hw_slots p < pluginPendingLimit then (None, drop1 p)
      else
        (Some (length (hw_exchanges p)),
         p \<lparr>hw_slots := hw_slots p + 1,
            hw_exchanges := hw_exchanges p @
              [\<lparr>ex_released = False, ex_domain = url_Host (URL r), ex_method = Method r, ex_target = url_Path (URL r),
                ex_requestedAt = startedAt, ex_status = 0, ex_requestHeaders = rawRequest r, ex_responseHeaders = [],
                ex_requestMeta = header r, ex_responseMeta = zeroHeader,
                ex_requestBody = \<lparr>pb_data = [], pb_tooLarge = False\<rparr>,
                ex_responseBody = \<lparr>pb_data = [], pb_tooLarge = False\<rparr>\<rparr>]\<rparr>))"

definition on_exchange ::
    "nat \<Rightarrow> (pluginExchange \<Rightarrow> pluginExchange) \<Rightarrow> 'd httpPluginWriter \<Rightarrow> 'd httpPluginWriter" where
  "on_exchange i f p = p \<lparr>hw_exchanges := (hw_exchanges p)[i := f (hw_exchanges p ! i)]\<rparr>"

text \<open>\<open>discard\<close> receives from the channel of slots, and blocks if there is none.\<close>

definition discard :: "nat \<Rightarrow> ('d httpPluginWriter, unit) io" where
  "discard i p =
     (if ex_released (hw_exchanges p ! i) then Some (Ok (), p)
      else
        (let p1 = on_exchange i (\<lambda>e. e \<lparr>ex_released := True\<rparr>) p
         in if hw_slots p1 = 0 then None else Some (Ok (), p1 \<lparr>hw_slots := hw_slots p1 - 1\<rparr>)))"

definition submit :: "nat \<Rightarrow> ('d httpPluginWriter, unit) io" where
  "submit i p =
     (let e = hw_exchanges p ! i in
      if ex_released e then Some (Ok (), p)
      else if hw_closed p \<or> pb_tooLarge (ex_requestBody e) \<or> pb_tooLarge (ex_responseBody e) then discard i (drop1 p)
      else if hw_jobsClosed p then Some (Panic ''send on closed channel'', p)
      else if length (hw_jobs p) < pluginPendingLimit then Some (Ok (), p \<lparr>hw_jobs := hw_jobs p @ [i]\<rparr>)
      else discard i (drop1 p))"

text \<open>The part of \<open>close\<close> under the lock; it then waits until the worker is done.\<close>

definition close_jobs :: "('d httpPluginWriter, unit) io" where
  "close_jobs p =
     (if hw_closed p then Some (Ok (), p)
      else
        (let p1 = p \<lparr>hw_closed := True\<rparr>
         in if hw_jobsClosed p1 then Some (Panic ''close of closed channel'', p1)
            else Some (Ok (), p1 \<lparr>hw_jobsClosed := True\<rparr>)))"

definition exchange_row :: "pluginExchange \<Rightarrow> 'd \<Rightarrow> 'd row" where
  "exchange_row e d =
     \<lparr>row_domain = ex_domain e, row_method = ex_method e, row_url = ex_target e, row_time = ex_requestedAt e,
      row_status = ex_status e, row_requestHeaders = ex_requestHeaders e, row_requestBody = pb_data (ex_requestBody e),
      row_responseHeaders = ex_responseHeaders e, row_responseBody = pb_data (ex_responseBody e), row_decoded = d\<rparr>"

text \<open>\<open>store\<close>; \<open>decode\<close> is \<open>masterrummy.Decode\<close>, and \<open>dberr\<close> the error of the database, if any.\<close>

definition store ::
    "decoders \<Rightarrow> (bytes \<Rightarrow> bytes \<Rightarrow> bytes \<Rightarrow> err + 'd) \<Rightarrow> err option \<Rightarrow> pluginExchange \<Rightarrow> 'd httpPluginWriter \<Rightarrow> 'd httpPluginWriter"
    where
  "store D decode dberr e p =
     (case pluginEntityBody D (pb_data (ex_requestBody e)) (ex_requestMeta e) of
        Inl _ \<Rightarrow> p \<lparr>hw_skipped := hw_skipped p + 1\<rparr>
      | Inr request \<Rightarrow>
          (case pluginEntityBody D (pb_data (ex_responseBody e)) (ex_responseMeta e) of
             Inl _ \<Rightarrow> p \<lparr>hw_skipped := hw_skipped p + 1\<rparr>
           | Inr response \<Rightarrow>
               (case decode (ex_target e) request response of
                  Inl _ \<Rightarrow> p \<lparr>hw_skipped := hw_skipped p + 1\<rparr>
                | Inr d \<Rightarrow>
                    (case dberr of
                       Some _ \<Rightarrow> p \<lparr>hw_failed := hw_failed p + 1\<rparr>
                     | None \<Rightarrow> p \<lparr>hw_rows := hw_rows p @ [exchange_row e d], hw_written := hw_written p + 1\<rparr>))))"

text \<open>
  The worker's loop, a step at a time: it receives a job, which it holds in \<open>hw_busy\<close>, or stores the one it holds and
  releases it. It blocks while there is no job and the channel is open, and ends once the channel is closed and drained.
\<close>

definition run ::
    "decoders \<Rightarrow> (bytes \<Rightarrow> bytes \<Rightarrow> bytes \<Rightarrow> err + 'd) \<Rightarrow> err option \<Rightarrow> ('d httpPluginWriter, unit) io" where
  "run D decode dberr p =
     (case hw_busy p of
        Some i \<Rightarrow> discard i (store D decode dberr (hw_exchanges p ! i) (p \<lparr>hw_busy := None\<rparr>))
      | None \<Rightarrow>
          (case hw_jobs p of
             i # js \<Rightarrow> Some (Ok (), p \<lparr>hw_jobs := js, hw_busy := Some i\<rparr>)
           | [] \<Rightarrow>
               (if \<not> hw_jobsClosed p then None
                else if hw_done p then Some (Panic ''close of closed channel'', p)
                else Some (Ok (), p \<lparr>hw_done := True\<rparr>))))"

text \<open>The head of a response, in \<open>readResponse\<close>: too large a head drops the exchange.\<close>

definition record_response :: "nat \<Rightarrow> Request \<Rightarrow> Response \<Rightarrow> ('d httpPluginWriter, bool) io" where
  "record_response i r rp p =
     (if length (rawResponse rp) > pluginBodyLimit
      then io_bind (discard i) (\<lambda>_. io_ret False) (drop1 p)
      else
        (let h = rp_header rp in
         Some (Ok True, on_exchange i (\<lambda>e. e \<lparr>ex_status := Status rp, ex_responseHeaders := rawResponse rp,
           ex_responseMeta := h \<lparr>Chunking := Chunking h \<or> ContLen h < 0 \<and> Response_hasBody rp (Method r)\<rparr>\<rparr>) p)))"

section \<open>The goroutines\<close>

text \<open>
  \<open>own\<close> holds the exchanges that requests of the proxy still have a pointer to. \<open>submit\<close> gives the exchange to the worker:
  the pointer is cleared before. After \<open>discard\<close> a request may keep its pointer.
\<close>

inductive plugin_step ::
    "decoders \<Rightarrow> (bytes \<Rightarrow> bytes \<Rightarrow> bytes \<Rightarrow> err + 'd) \<Rightarrow> nat set \<times> 'd httpPluginWriter \<Rightarrow> nat set \<times> 'd httpPluginWriter \<Rightarrow> bool"
    for D decode where
  begun: "begin_exchange t r p = (Some i, p1) \<Longrightarrow> plugin_step D decode (own, p) (insert i own, p1)"
| not_begun: "begin_exchange t r p = (None, p1) \<Longrightarrow> plugin_step D decode (own, p) (own, p1)"
| request_body: "i \<in> own \<Longrightarrow> plugin_step D decode (own, p)
    (own, on_exchange i (\<lambda>e. e \<lparr>ex_requestBody := snd (snd (pluginBody_Write b (ex_requestBody e)))\<rparr>) p)"
| response_body: "i \<in> own \<Longrightarrow> plugin_step D decode (own, p)
    (own, on_exchange i (\<lambda>e. e \<lparr>ex_responseBody := snd (snd (pluginBody_Write b (ex_responseBody e)))\<rparr>) p)"
| response_head: "i \<in> own \<Longrightarrow> record_response i r rp p = Some (Ok goes_on, p1) \<Longrightarrow>
    plugin_step D decode (own, p) (if goes_on then own else own - {i}, p1)"
| submitted: "i \<in> own \<Longrightarrow> submit i p = Some (Ok (), p1) \<Longrightarrow> plugin_step D decode (own, p) (own - {i}, p1)"
| discarded: "i \<in> own \<Longrightarrow> discard i p = Some (Ok (), p1) \<Longrightarrow> gone \<subseteq> {i} \<Longrightarrow> plugin_step D decode (own, p) (own - gone, p1)"
| closing: "close_jobs p = Some (Ok (), p1) \<Longrightarrow> plugin_step D decode (own, p) (own, p1)"
| working: "\<not> hw_done p \<Longrightarrow> run D decode dberr p = Some (Ok (), p1) \<Longrightarrow> plugin_step D decode (own, p) (own, p1)"

definition plugin_reachable ::
    "decoders \<Rightarrow> (bytes \<Rightarrow> bytes \<Rightarrow> bytes \<Rightarrow> err + 'd) \<Rightarrow> nat set \<Rightarrow> 'd httpPluginWriter \<Rightarrow> bool" where
  "plugin_reachable D decode own p \<longleftrightarrow> (plugin_step D decode)\<^sup>*\<^sup>* ({}, newHTTPPluginWriter) (own, p)"

section \<open>Bodies stay below the limit\<close>

lemma readPluginBody_bound: "readPluginBody rd = Inr b \<Longrightarrow> length b \<le> pluginBodyLimit"
  unfolding readPluginBody_def Let_def by (cases "snd rd") (simp_all only: not_less option.case sum.inject sum.distinct split: if_splits)

lemma decode_all_bound: "length body \<le> pluginBodyLimit \<Longrightarrow> decode_all D encs body = Inr b \<Longrightarrow> length b \<le> pluginBodyLimit"
proof (induction encs arbitrary: body)
  case (Cons enc encs)
  obtain o1 where o1: "open_decoder D (strings_TrimSpace enc) body = o1"
    by blast
  show ?case
    using Cons.prems(2) Cons.IH [OF Cons.prems(1)] Cons.IH [OF readPluginBody_bound]
    unfolding decode_all.simps o1 by (fastforce split: option.splits sum.splits)
qed simp

lemma pluginEntityBody_bound: "pluginEntityBody D data h = Inr b \<Longrightarrow> length b \<le> pluginBodyLimit"
  unfolding pluginEntityBody_def by (auto split: sum.splits dest: readPluginBody_bound decode_all_bound)

text \<open>However a body arrives in pieces, it is kept whole or, when it is too large, not at all.\<close>

definition plugin_writes :: "bytes list \<Rightarrow> pluginBody" where
  "plugin_writes cs = fold (\<lambda>c b. snd (snd (pluginBody_Write c b))) cs \<lparr>pb_data = [], pb_tooLarge = False\<rparr>"

lemma plugin_writes_snoc: "plugin_writes (cs @ [c]) = snd (snd (pluginBody_Write c (plugin_writes cs)))"
  by (simp add: plugin_writes_def)

lemma plugin_writes_eq:
  "plugin_writes cs =
     (if length (concat cs) \<le> pluginBodyLimit then \<lparr>pb_data = concat cs, pb_tooLarge = False\<rparr>
      else \<lparr>pb_data = [], pb_tooLarge = True\<rparr>)"
proof (induction cs rule: rev_induct)
  case Nil
  then show ?case by (simp add: plugin_writes_def)
next
  case (snoc c cs)
  then show ?case by (simp add: plugin_writes_snoc pluginBody_Write_def)
qed

section \<open>The invariant\<close>

definition pending :: "'d httpPluginWriter \<Rightarrow> nat set" where
  "pending p = {i. i < length (hw_exchanges p) \<and> \<not> ex_released (hw_exchanges p ! i)}"

definition work :: "'d httpPluginWriter \<Rightarrow> nat list" where
  "work p = (case hw_busy p of None \<Rightarrow> [] | Some i \<Rightarrow> [i]) @ hw_jobs p"

definition plugin_inv :: "nat set \<Rightarrow> 'd httpPluginWriter \<Rightarrow> bool" where
  "plugin_inv own p \<longleftrightarrow>
     own \<subseteq> {..<length (hw_exchanges p)} \<and> distinct (work p) \<and> set (work p) \<inter> own = {} \<and> set (work p) \<subseteq> pending p \<and>
     pending p \<subseteq> own \<union> set (work p) \<and> hw_slots p = card (pending p) \<and> hw_slots p \<le> pluginPendingLimit \<and>
     hw_closed p = hw_jobsClosed p \<and> (hw_done p \<longrightarrow> hw_closed p \<and> work p = []) \<and>
     hw_written p = of_nat (length (hw_rows p)) \<and> length (hw_rows p) + hw_slots p \<le> length (hw_exchanges p)"

lemma finite_pending [simp]: "finite (pending p)"
  by (simp add: pending_def)

lemma length_on_exchange [simp]: "length (hw_exchanges (on_exchange i f p)) = length (hw_exchanges p)"
  by (simp add: on_exchange_def)

lemma on_exchange_simps [simp]:
  "hw_jobs (on_exchange i f p) = hw_jobs p" "hw_jobsClosed (on_exchange i f p) = hw_jobsClosed p"
  "hw_slots (on_exchange i f p) = hw_slots p" "hw_closed (on_exchange i f p) = hw_closed p"
  "hw_busy (on_exchange i f p) = hw_busy p" "hw_done (on_exchange i f p) = hw_done p"
  "hw_written (on_exchange i f p) = hw_written p" "hw_rows (on_exchange i f p) = hw_rows p"
  "work (on_exchange i f p) = work p"
  by (simp_all add: on_exchange_def work_def)

lemma pending_on_exchange:
  assumes "\<And>e. ex_released (f e) = ex_released e"
  shows "pending (on_exchange i f p) = pending p"
proof -
  have "ex_released ((hw_exchanges p)[i := f (hw_exchanges p ! i)] ! j) = ex_released (hw_exchanges p ! j)"
    if "j < length (hw_exchanges p)" for j
    using that by (cases "i = j") (simp_all add: assms)
  then show ?thesis
    by (auto simp: pending_def on_exchange_def)
qed

lemma plugin_inv_on_exchange:
  assumes "\<And>e. ex_released (f e) = ex_released e"
  shows "plugin_inv own (on_exchange i f p) = plugin_inv own p"
  by (simp only: plugin_inv_def on_exchange_simps length_on_exchange pending_on_exchange [OF assms])

lemma pending_released:
  "i < length (hw_exchanges p) \<Longrightarrow> pending (on_exchange i (\<lambda>e. e \<lparr>ex_released := True\<rparr>) p) = pending p - {i}"
  by (auto simp: pending_def on_exchange_def nth_list_update)

text \<open>Fields that an operation leaves alone.\<close>

definition same_work :: "'d httpPluginWriter \<Rightarrow> 'd httpPluginWriter \<Rightarrow> bool" where
  "same_work p q \<longleftrightarrow>
     hw_exchanges q = hw_exchanges p \<and> hw_jobs q = hw_jobs p \<and> hw_busy q = hw_busy p \<and> hw_jobsClosed q = hw_jobsClosed p \<and>
     hw_slots q = hw_slots p \<and> hw_closed q = hw_closed p \<and> hw_done q = hw_done p"

lemma same_work_pending: "same_work p q \<Longrightarrow> pending q = pending p" "same_work p q \<Longrightarrow> work q = work p"
  by (simp_all add: same_work_def pending_def work_def)

lemma drop1_same [simp]: "same_work p (drop1 p)" "hw_written (drop1 p) = hw_written p" "hw_rows (drop1 p) = hw_rows p"
  by (simp_all add: same_work_def drop1_def)

lemma plugin_inv_same:
  assumes "same_work p q" "hw_written q = hw_written p" "hw_rows q = hw_rows p" "plugin_inv own p"
  shows "plugin_inv own q"
  using assms(4) same_work_pending [OF assms(1)] assms(1-3) unfolding plugin_inv_def same_work_def by metis

lemma plugin_inv_shrink:
  "plugin_inv own p \<Longrightarrow> own' \<subseteq> own \<Longrightarrow> pending p \<subseteq> own' \<union> set (work p) \<Longrightarrow> plugin_inv own' p"
  unfolding plugin_inv_def by blast

definition released :: "nat \<Rightarrow> 'd httpPluginWriter \<Rightarrow> 'd httpPluginWriter" where
  "released i p = on_exchange i (\<lambda>e. e \<lparr>ex_released := True\<rparr>) p \<lparr>hw_slots := hw_slots p - 1\<rparr>"

lemma pending_slots [simp]: "pending (p \<lparr>hw_slots := n\<rparr>) = pending p" "work (p \<lparr>hw_slots := n\<rparr>) = work p"
  by (simp_all add: pending_def work_def)

lemma pending_less: "i \<in> pending p \<Longrightarrow> i < length (hw_exchanges p)"
  by (simp add: pending_def)

lemma released_simps [simp]:
  "length (hw_exchanges (released i p)) = length (hw_exchanges p)" "work (released i p) = work p"
  "hw_jobsClosed (released i p) = hw_jobsClosed p" "hw_closed (released i p) = hw_closed p"
  "hw_done (released i p) = hw_done p" "hw_slots (released i p) = hw_slots p - 1"
  "hw_written (released i p) = hw_written p" "hw_rows (released i p) = hw_rows p"
  "i \<in> pending p \<Longrightarrow> pending (released i p) = pending p - {i}"
  by (simp_all add: released_def pending_released pending_less)

lemma discard_pending:
  assumes "i \<in> pending p" "hw_slots p = card (pending p)"
  shows "discard i p = Some (Ok (), released i p)"
proof -
  have "hw_slots p \<noteq> 0" using assms by auto
  then show ?thesis
    using assms(1) by (simp add: discard_def released_def Let_def pending_def)
qed

lemma discard_other: "i < length (hw_exchanges p) \<Longrightarrow> i \<notin> pending p \<Longrightarrow> discard i p = Some (Ok (), p)"
  by (simp add: discard_def pending_def)

lemma plugin_inv_released:
  assumes inv: "plugin_inv own p" and i: "i \<in> own" "i \<in> pending p"
  shows "plugin_inv own (released i p)"
proof -
  have "i \<notin> set (work p)" using inv i(1) unfolding plugin_inv_def by blast
  moreover have "card (pending p - {i}) = hw_slots p - 1" using inv i(2) unfolding plugin_inv_def by simp
  ultimately show ?thesis
    using inv i(2) unfolding plugin_inv_def released_simps(1-8) released_simps(9) [OF i(2)]
    by (intro conjI) (auto)
qed

lemma discard_inv:
  assumes inv: "plugin_inv own p" and i: "i \<in> own" and gone: "gone \<subseteq> {i}"
  shows "\<exists>p1. discard i p = Some (Ok (), p1) \<and> plugin_inv (own - gone) p1"
proof (cases "i \<in> pending p")
  case True
  then have "plugin_inv (own - gone) (released i p)"
    using plugin_inv_released [OF inv i True] gone inv
    by (elim plugin_inv_shrink) (auto simp: plugin_inv_def)
  then show ?thesis
    using discard_pending [OF True] inv unfolding plugin_inv_def by blast
next
  case False
  then have "plugin_inv (own - gone) p"
    using inv gone by (intro plugin_inv_shrink [OF inv]) (auto simp: plugin_inv_def)
  moreover have "i < length (hw_exchanges p)" using inv i unfolding plugin_inv_def by blast
  ultimately show ?thesis using discard_other False by blast
qed

text \<open>The slots bound the channel of jobs: an exchange that has a slot always finds room there.\<close>

lemma room_for_job:
  assumes inv: "plugin_inv own p" and i: "i \<in> own" "i \<in> pending p"
  shows "length (work p) < pluginPendingLimit"
proof -
  have "insert i (set (work p)) \<subseteq> pending p" "i \<notin> set (work p)" "distinct (work p)"
    using inv i unfolding plugin_inv_def by blast+
  then have "Suc (length (work p)) \<le> card (pending p)"
    using card_mono [of "pending p" "insert i (set (work p))"] by (simp add: distinct_card)
  then show ?thesis using inv unfolding plugin_inv_def by linarith
qed

definition enqueued :: "nat \<Rightarrow> 'd httpPluginWriter \<Rightarrow> 'd httpPluginWriter" where
  "enqueued i p = p \<lparr>hw_jobs := hw_jobs p @ [i]\<rparr>"

lemma enqueued_simps [simp]:
  "hw_exchanges (enqueued i p) = hw_exchanges p" "hw_jobsClosed (enqueued i p) = hw_jobsClosed p"
  "hw_closed (enqueued i p) = hw_closed p" "hw_done (enqueued i p) = hw_done p" "hw_slots (enqueued i p) = hw_slots p"
  "hw_written (enqueued i p) = hw_written p" "hw_rows (enqueued i p) = hw_rows p" "hw_busy (enqueued i p) = hw_busy p"
  "work (enqueued i p) = work p @ [i]" "pending (enqueued i p) = pending p"
  by (simp_all add: enqueued_def work_def pending_def)

lemma plugin_inv_enqueued:
  assumes inv: "plugin_inv own p" and i: "i \<in> own" "i \<in> pending p" and open_jobs: "\<not> hw_closed p"
  shows "plugin_inv (own - {i}) (enqueued i p)"
  using inv i open_jobs unfolding plugin_inv_def enqueued_simps by (intro conjI) auto

definition in_limits :: "pluginExchange \<Rightarrow> bool" where
  "in_limits e \<longleftrightarrow> \<not> pb_tooLarge (ex_requestBody e) \<and> \<not> pb_tooLarge (ex_responseBody e)"

lemma submit_takes:
  assumes inv: "plugin_inv own p" and i: "i \<in> own" "i \<in> pending p" and ok: "\<not> hw_closed p" "in_limits (hw_exchanges p ! i)"
  shows "submit i p = Some (Ok (), enqueued i p)"
proof -
  have "length (hw_jobs p) < pluginPendingLimit"
    using room_for_job [OF inv i] by (simp add: work_def)
  moreover have "\<not> hw_jobsClosed p" "\<not> ex_released (hw_exchanges p ! i)"
    using inv i(2) ok(1) by (simp_all add: plugin_inv_def pending_def)
  ultimately show ?thesis
    using ok by (simp add: submit_def Let_def in_limits_def enqueued_def)
qed

lemma submit_inv:
  assumes inv: "plugin_inv own p" and i: "i \<in> own"
  shows "\<exists>p1. submit i p = Some (Ok (), p1) \<and> plugin_inv (own - {i}) p1"
proof -
  have len: "i < length (hw_exchanges p)" using inv i unfolding plugin_inv_def by blast
  consider "i \<notin> pending p" | "i \<in> pending p" "\<not> hw_closed p" "in_limits (hw_exchanges p ! i)"
    | "i \<in> pending p" "hw_closed p \<or> \<not> in_limits (hw_exchanges p ! i)" by blast
  then show ?thesis
  proof cases
    case 1
    then have "submit i p = Some (Ok (), p)" using len by (simp add: submit_def pending_def)
    moreover have "plugin_inv (own - {i}) p"
      using inv 1 by (intro plugin_inv_shrink [OF inv]) (auto simp: plugin_inv_def)
    ultimately show ?thesis by blast
  next
    case 2
    then show ?thesis using submit_takes [OF inv i] plugin_inv_enqueued [OF inv i] by blast
  next
    case 3
    then have "submit i p = discard i (drop1 p)"
      by (auto simp: submit_def Let_def in_limits_def pending_def)
    then show ?thesis
      using discard_inv [OF plugin_inv_same [OF drop1_same inv] i, of "{i}"] by simp
  qed
qed

definition started :: "pluginExchange \<Rightarrow> 'd httpPluginWriter \<Rightarrow> 'd httpPluginWriter" where
  "started e p = p \<lparr>hw_slots := hw_slots p + 1, hw_exchanges := hw_exchanges p @ [e]\<rparr>"

lemma begin_exchange_cases:
  "begin_exchange t r p = (None, p) \<or> begin_exchange t r p = (None, drop1 p) \<or>
   (\<exists>e. begin_exchange t r p = (Some (length (hw_exchanges p)), started e p) \<and> \<not> ex_released e \<and>
      hw_slots p < pluginPendingLimit \<and> \<not> hw_closed p)"
  unfolding begin_exchange_def started_def by (simp split del: if_split split: if_split) auto

lemma plugin_inv_started:
  assumes inv: "plugin_inv own p" and e: "\<not> ex_released e" and room: "hw_slots p < pluginPendingLimit" "\<not> hw_closed p"
  shows "plugin_inv (insert (length (hw_exchanges p)) own) (started e p)"
proof -
  let ?n = "length (hw_exchanges p)"
  have pend: "pending (started e p) = insert ?n (pending p)" "?n \<notin> pending p"
    using e by (auto simp: pending_def started_def nth_append less_Suc_eq)
  have fields: "work (started e p) = work p" "length (hw_exchanges (started e p)) = Suc ?n" "hw_slots (started e p) = Suc (hw_slots p)"
    "hw_closed (started e p) = hw_closed p" "hw_jobsClosed (started e p) = hw_jobsClosed p" "hw_done (started e p) = hw_done p"
    "hw_written (started e p) = hw_written p" "hw_rows (started e p) = hw_rows p"
    by (simp_all add: started_def work_def)
  have "set (work p) \<subseteq> pending p" "own \<subseteq> {..<?n}" using inv by (simp_all add: plugin_inv_def)
  then show ?thesis
    using inv room pend(2) unfolding plugin_inv_def fields pend(1) by (intro conjI) auto
qed

lemma record_response_inv:
  assumes inv: "plugin_inv own p" and i: "i \<in> own"
  shows "\<exists>b p1. record_response i r rp p = Some (Ok b, p1) \<and> plugin_inv (if b then own else own - {i}) p1"
proof (cases "length (rawResponse rp) > pluginBodyLimit")
  case True
  then show ?thesis
    using discard_inv [OF plugin_inv_same [OF drop1_same inv] i, of "{i}"]
    by (auto simp: record_response_def io_bind_def io_ret_def)
next
  case False
  then show ?thesis
    using inv by (auto simp: record_response_def Let_def plugin_inv_on_exchange)
qed

lemma store_effect:
  "\<exists>q. store D decode dberr e p = q \<and> same_work p q \<and>
     (hw_rows q = hw_rows p \<and> hw_written q = hw_written p \<or>
      (\<exists>d. hw_rows q = hw_rows p @ [exchange_row e d] \<and> hw_written q = hw_written p + 1))"
  by (auto simp: store_def same_work_def split: sum.split option.split)

definition idle :: "'d httpPluginWriter \<Rightarrow> 'd httpPluginWriter" where
  "idle p = p \<lparr>hw_busy := None\<rparr>"

lemma run_busy_inv:
  assumes inv: "plugin_inv own p" and busy: "hw_busy p = Some i"
  shows "\<exists>q. run D decode dberr p = Some (Ok (), released i q) \<and> same_work (idle p) q \<and> plugin_inv own (released i q)"
proof -
  define q where "q = store D decode dberr (hw_exchanges p ! i) (idle p)"
  have eff: "same_work (idle p) q" "hw_rows q = hw_rows p \<and> hw_written q = hw_written p \<or>
      (\<exists>d. hw_rows q = hw_rows p @ [exchange_row (hw_exchanges p ! i) d] \<and> hw_written q = hw_written p + 1)"
    using store_effect [of D decode dberr "hw_exchanges p ! i" "idle p"] unfolding q_def by (auto simp: idle_def)
  have pend: "pending q = pending p" "work p = i # work q"
    using same_work_pending [OF eff(1)] busy by (simp_all add: pending_def work_def idle_def)
  have fields: "hw_exchanges q = hw_exchanges p" "hw_slots q = hw_slots p" "hw_closed q = hw_closed p"
    "hw_jobsClosed q = hw_jobsClosed p" "hw_done q = hw_done p"
    using eff(1) by (simp_all add: same_work_def idle_def)
  have i: "i \<in> pending q" using inv by (simp add: plugin_inv_def pend)
  have "card (pending p - {i}) = hw_slots p - 1" "0 < hw_slots p"
    using inv i unfolding plugin_inv_def pend(1) by (auto simp: card_gt_0_iff)
  then have "plugin_inv own (released i q)"
    using inv eff(2) unfolding plugin_inv_def released_simps(1-8) released_simps(9) [OF i] pend fields
    by (intro conjI) (auto)
  moreover have "run D decode dberr p = Some (Ok (), released i q)"
    using discard_pending [OF i] inv busy fields pend(1) by (simp add: run_def q_def idle_def plugin_inv_def)
  ultimately show ?thesis using eff(1) by blast
qed

lemma run_take_inv:
  assumes inv: "plugin_inv own p" and free: "hw_busy p = None" "hw_jobs p = i # js"
  shows "run D decode dberr p = Some (Ok (), p \<lparr>hw_jobs := js, hw_busy := Some i\<rparr>) \<and>
    plugin_inv own (p \<lparr>hw_jobs := js, hw_busy := Some i\<rparr>)"
proof -
  have "work (p \<lparr>hw_jobs := js, hw_busy := Some i\<rparr>) = work p" "pending (p \<lparr>hw_jobs := js, hw_busy := Some i\<rparr>) = pending p"
    using free by (simp_all add: work_def pending_def)
  then show ?thesis using inv free by (auto simp: run_def plugin_inv_def)
qed

lemma run_end_inv:
  assumes inv: "plugin_inv own p" and free: "work p = []" and closed: "hw_closed p" "\<not> hw_done p"
  shows "run D decode dberr p = Some (Ok (), p \<lparr>hw_done := True\<rparr>) \<and> plugin_inv own (p \<lparr>hw_done := True\<rparr>)"
proof -
  have "work (p \<lparr>hw_done := True\<rparr>) = work p" "pending (p \<lparr>hw_done := True\<rparr>) = pending p"
    by (simp_all add: work_def pending_def)
  moreover have "hw_busy p = None" "hw_jobs p = []" using free by (auto simp: work_def split: option.splits)
  ultimately show ?thesis using inv free closed by (simp add: run_def plugin_inv_def)
qed

lemma run_cases:
  assumes inv: "plugin_inv own p" and "\<not> hw_done p"
  shows "work p = [] \<and> \<not> hw_closed p \<and> run D decode dberr p = None \<or>
    (\<exists>p1. run D decode dberr p = Some (Ok (), p1) \<and> plugin_inv own p1)"
proof (cases "hw_busy p")
  case (Some i)
  then show ?thesis using run_busy_inv [OF inv] by blast
next
  case None
  show ?thesis
  proof (cases "hw_jobs p")
    case (Cons i js)
    then show ?thesis using run_take_inv [OF inv None] by blast
  next
    case Nil
    then have "work p = []" using None by (simp add: work_def)
    then show ?thesis
      using run_end_inv [OF inv] assms(2) inv None Nil by (cases "hw_closed p") (auto simp: run_def plugin_inv_def)
  qed
qed

lemma close_jobs_inv:
  assumes inv: "plugin_inv own p"
  shows "\<exists>p1. close_jobs p = Some (Ok (), p1) \<and> plugin_inv own p1 \<and> hw_closed p1"
proof -
  let ?q = "p \<lparr>hw_closed := True, hw_jobsClosed := True\<rparr>"
  have "work ?q = work p" "pending ?q = pending p" by (simp_all add: work_def pending_def)
  then have "plugin_inv own ?q" using inv by (simp add: plugin_inv_def)
  then show ?thesis using inv by (cases "hw_closed p") (auto simp: close_jobs_def plugin_inv_def)
qed

lemma plugin_step_inv:
  assumes "plugin_step D decode s s'" "plugin_inv (fst s) (snd s)"
  shows "plugin_inv (fst s') (snd s')"
  using assms
proof (induction rule: plugin_step.induct)
  case (begun t r p i p1 own)
  then show ?case using begin_exchange_cases [of t r p] plugin_inv_started [of own p] by auto
next
  case (not_begun t r p p1 own)
  then show ?case using begin_exchange_cases [of t r p] plugin_inv_same [OF drop1_same, of own p] by auto
next
  case (response_head i own r rp p goes_on p1)
  then show ?case using record_response_inv [of own p i r rp] by fastforce
next
  case (submitted i own p p1)
  then show ?case using submit_inv [of own p i] by auto
next
  case (discarded i own p p1 gone)
  then show ?case using discard_inv [of own p i gone] by auto
next
  case (closing p p1 own)
  then show ?case using close_jobs_inv [of own p] by auto
next
  case (working p dberr p1 own)
  then show ?case using run_cases [of own p D decode dberr] by auto
qed (simp_all add: plugin_inv_on_exchange)

lemma plugin_inv_new: "plugin_inv {} newHTTPPluginWriter"
  by (simp add: plugin_inv_def newHTTPPluginWriter_def pending_def work_def)

lemma plugin_reachable_inv: "plugin_reachable D decode own p \<Longrightarrow> plugin_inv own p"
proof -
  have "(plugin_step D decode)\<^sup>*\<^sup>* s s' \<Longrightarrow> plugin_inv (fst s) (snd s) \<Longrightarrow> plugin_inv (fst s') (snd s')" for s s'
    by (induction rule: rtranclp_induct) (auto dest: plugin_step_inv)
  from this [of "({}, newHTTPPluginWriter)" "(own, p)"] show "plugin_reachable D decode own p \<Longrightarrow> plugin_inv own p"
    by (simp add: plugin_reachable_def plugin_inv_new)
qed

section \<open>Draining\<close>

text \<open>The worker left to itself, a database outcome for each of its steps; it stops when it is done.\<close>

fun worker ::
    "decoders \<Rightarrow> (bytes \<Rightarrow> bytes \<Rightarrow> bytes \<Rightarrow> err + 'd) \<Rightarrow> err option list \<Rightarrow> ('d httpPluginWriter, unit) io" where
  "worker D decode [] p = Some (Ok (), p)"
| "worker D decode (dberr # dbs) p =
     (if hw_done p then Some (Ok (), p) else io_bind (run D decode dberr) (\<lambda>_. worker D decode dbs) p)"

lemma worker_steps: "worker D decode dbs p = Some (Ok (), q) \<Longrightarrow> (plugin_step D decode)\<^sup>*\<^sup>* (own, p) (own, q)"
proof (induction dbs arbitrary: p)
  case (Cons dberr dbs)
  show ?case
  proof (cases "hw_done p")
    case False
    then obtain p1 where p1: "run D decode dberr p = Some (Ok (), p1)" "worker D decode dbs p1 = Some (Ok (), q)"
      using Cons.prems by (auto simp: io_bind_def split: option.splits outcome.splits)
    show ?thesis
      using plugin_step.working [OF False p1(1)] Cons.IH [OF p1(2)] by (rule converse_rtranclp_into_rtranclp)
  qed (use Cons.prems in simp)
qed simp

text \<open>Steps the worker needs until it is done.\<close>

definition todo :: "'d httpPluginWriter \<Rightarrow> nat" where
  "todo p = (if hw_done p then 0 else 1 + 2 * length (hw_jobs p) + (if hw_busy p = None then 0 else 1))"

lemma run_progress:
  assumes inv: "plugin_inv own p" and closed: "hw_closed p" "\<not> hw_done p"
  shows "\<exists>q. run D decode dberr p = Some (Ok (), q) \<and> plugin_inv own q \<and> hw_closed q \<and> todo q < todo p \<and>
    pending q - set (work q) = pending p - set (work p)"
proof (cases "hw_busy p")
  case (Some i)
  obtain q where q: "run D decode dberr p = Some (Ok (), released i q)" "same_work (idle p) q" "plugin_inv own (released i q)"
    using run_busy_inv [OF inv Some] by blast
  have w: "work p = i # work q" "pending q = pending p" "hw_jobs q = hw_jobs p" "hw_busy q = None" "hw_closed q = hw_closed p"
      "hw_done q = hw_done p"
    using q(2) same_work_pending [OF q(2)] Some by (simp_all add: work_def pending_def idle_def same_work_def)
  have "i \<in> pending q" using inv w by (simp add: plugin_inv_def)
  then have "pending (released i q) - set (work (released i q)) = pending p - set (work p)" using w by auto
  moreover have "todo (released i q) = todo q"
    by (simp add: released_def todo_def)
  ultimately show ?thesis
    using q(1,3) closed Some w by (intro exI [of _ "released i q"]) (simp add: todo_def)
next
  case None
  show ?thesis
  proof (cases "hw_jobs p")
    case (Cons i js)
    then show ?thesis
      using run_take_inv [OF inv None Cons] closed None
      by (intro exI [of _ "p \<lparr>hw_jobs := js, hw_busy := Some i\<rparr>"]) (auto simp: work_def pending_def todo_def)
  next
    case Nil
    then have "work p = []" using None by (simp add: work_def)
    then show ?thesis
      using run_end_inv [OF inv _ closed] closed
      by (intro exI [of _ "p \<lparr>hw_done := True\<rparr>"]) (auto simp: work_def pending_def todo_def)
  qed
qed

lemma worker_drains:
  assumes "plugin_inv own p" "hw_closed p" "todo p \<le> length dbs"
  shows "\<exists>q. worker D decode dbs p = Some (Ok (), q) \<and> hw_done q \<and> plugin_inv own q \<and> pending q = pending p - set (work p)"
  using assms
proof (induction dbs arbitrary: p)
  case Nil
  then show ?case by (auto simp: plugin_inv_def todo_def split: if_splits)
next
  case (Cons dberr dbs)
  show ?case
  proof (cases "hw_done p")
    case True
    then have "work p = []" using Cons.prems(1) by (simp add: plugin_inv_def)
    then show ?thesis using True Cons.prems(1) by auto
  next
    case False
    obtain p1 where p1: "run D decode dberr p = Some (Ok (), p1)" "plugin_inv own p1" "hw_closed p1" "todo p1 < todo p"
        "pending p1 - set (work p1) = pending p - set (work p)"
      using run_progress [OF Cons.prems(1,2) False] by blast
    then show ?thesis using Cons.IH [OF p1(2,3)] Cons.prems(3) False by (simp add: io_bind_def)
  qed
qed

section \<open>Properties\<close>

text \<open>
  C24: Whatever the requests, \<open>close\<close> and the worker do and in whatever order, no operation of plugin.go blocks or panics: at
  most 64 exchanges are pending, each with a slot of its own, so that releasing one never waits for a slot and submitting one
  always finds room in the channel of jobs; nothing is sent on the closed channel and it is closed once. Only the worker
  waits, and only when there is no work and the plugin is open. The rows counted are the rows stored, no more than one for
  an exchange.
\<close>
theorem plugin_never_stuck:
  assumes "plugin_reachable D decode own p"
  shows "hw_slots p = card (pending p) \<and> hw_slots p \<le> pluginPendingLimit \<and>
    (\<forall>i \<in> own. \<exists>p1. discard i p = Some (Ok (), p1)) \<and>
    (\<forall>i \<in> own. \<exists>p1. submit i p = Some (Ok (), p1) \<and>
       (i \<in> pending p \<longrightarrow> \<not> hw_closed p \<longrightarrow> in_limits (hw_exchanges p ! i) \<longrightarrow> hw_jobs p1 = hw_jobs p @ [i])) \<and>
    (\<forall>i \<in> own. \<exists>b p1. record_response i r rp p = Some (Ok b, p1)) \<and>
    (\<exists>p1. close_jobs p = Some (Ok (), p1)) \<and>
    (\<not> hw_done p \<longrightarrow> work p = [] \<and> \<not> hw_closed p \<and> run D decode dberr p = None \<or>
       (\<exists>p1. run D decode dberr p = Some (Ok (), p1))) \<and>
    hw_written p = of_nat (length (hw_rows p)) \<and> length (hw_rows p) + hw_slots p \<le> length (hw_exchanges p)"
proof -
  have inv: "plugin_inv own p" using assms by (rule plugin_reachable_inv)
  have jobs: "\<exists>p1. submit i p = Some (Ok (), p1) \<and>
       (i \<in> pending p \<longrightarrow> \<not> hw_closed p \<longrightarrow> in_limits (hw_exchanges p ! i) \<longrightarrow> hw_jobs p1 = hw_jobs p @ [i])" if "i \<in> own" for i
    using submit_inv [OF inv that] submit_takes [OF inv that] by (auto simp: enqueued_def)
  have counts: "hw_slots p = card (pending p)" "hw_slots p \<le> pluginPendingLimit"
    "hw_written p = of_nat (length (hw_rows p))" "length (hw_rows p) + hw_slots p \<le> length (hw_exchanges p)"
    using inv by (simp_all add: plugin_inv_def)
  show ?thesis
    using counts jobs discard_inv [OF inv, of _ "{}"] record_response_inv [OF inv, of _ r rp] close_jobs_inv [OF inv]
      run_cases [OF inv, of D decode dberr]
    by (intro conjI ballI impI) blast+
qed

text \<open>
  Once the plugin is closed the worker ends: after at most two steps for each exchange that was submitted and one more it is
  done, whatever the database answers, having handled them all; only exchanges that requests still hold are left.
\<close>
theorem plugin_drains:
  assumes "plugin_reachable D decode own p" "hw_closed p" "2 * length (hw_jobs p) + 2 \<le> length dbs"
  shows "\<exists>q. worker D decode dbs p = Some (Ok (), q) \<and> hw_done q \<and> plugin_reachable D decode own q \<and>
    pending q = pending p - set (work p) \<and> pending q \<subseteq> own"
proof -
  have inv: "plugin_inv own p" using assms(1) by (rule plugin_reachable_inv)
  have todo: "todo p \<le> length dbs" using assms(3) by (simp add: todo_def)
  obtain q where q: "worker D decode dbs p = Some (Ok (), q)" "hw_done q" "plugin_inv own q" "pending q = pending p - set (work p)"
    using worker_drains [OF inv assms(2) todo, of D decode] by blast
  have "plugin_reachable D decode own q"
    using worker_steps [OF q(1)] assms(1) unfolding plugin_reachable_def by (rule rtranclp_trans [rotated])
  then show ?thesis using q inv by (auto simp: plugin_inv_def)
qed

definition ex_plugin_rq :: Request where
  "ex_plugin_rq = zeroRequest \<lparr>Method := ''POST'', URL := empty_URL \<lparr>url_Host := ''a.b'', url_Path := ''/i.php?x''\<rparr>\<rparr>"

definition ex_decoders :: decoders where
  "ex_decoders = \<lparr>d_chunked = (\<lambda>b. (b, None)), d_gzip = (\<lambda>b. Inl EOF), d_zlib = (\<lambda>b. Inl EOF), d_flate = (\<lambda>b. (b, None)),
     d_uni = id\<rparr>"

definition ex_decode :: "bytes \<Rightarrow> bytes \<Rightarrow> bytes \<Rightarrow> err + unit" where
  "ex_decode target request response = Inr ()"

definition ex_exchange :: pluginExchange where
  "ex_exchange = \<lparr>ex_released = False, ex_domain = ''a.b'', ex_method = ''POST'', ex_target = ''/i.php?x'', ex_requestedAt = 0,
     ex_status = 0, ex_requestHeaders = [], ex_responseHeaders = [], ex_requestMeta = zeroHeader, ex_responseMeta = zeroHeader,
     ex_requestBody = \<lparr>pb_data = [], pb_tooLarge = False\<rparr>, ex_responseBody = \<lparr>pb_data = [], pb_tooLarge = False\<rparr>\<rparr>"

definition ex_begun :: "unit httpPluginWriter" where
  "ex_begun = started ex_exchange newHTTPPluginWriter"

definition ex_closed :: "unit httpPluginWriter" where
  "ex_closed = enqueued 0 ex_begun \<lparr>hw_closed := True, hw_jobsClosed := True\<rparr>"

lemma ex_begin: "begin_exchange 0 ex_plugin_rq newHTTPPluginWriter = (Some 0, ex_begun)"
proof -
  have "SplitN ''/i.php?x'' ''?'' 2 ! 0 = ''/i.php''" by code_simp
  then show ?thesis
    by (simp add: ex_begun_def ex_exchange_def started_def begin_exchange_def ex_plugin_rq_def newHTTPPluginWriter_def
        zeroRequest_def zeroHeader_def rawRequest_def raw_bytes_def pluginPendingLimit_def)
qed

lemma ex_begun_reachable: "plugin_reachable ex_decoders ex_decode {0} ex_begun"
  unfolding plugin_reachable_def by (rule r_into_rtranclp) (rule plugin_step.begun [OF ex_begin, of ex_decoders ex_decode "{}"])

lemma ex_begun_fields [simp]:
  "hw_jobs ex_begun = []" "hw_busy ex_begun = None" "hw_closed ex_begun = False" "hw_jobsClosed ex_begun = False"
  "in_limits (hw_exchanges ex_begun ! 0)" "pending ex_begun = {0}"
  by (auto simp: ex_begun_def ex_exchange_def started_def newHTTPPluginWriter_def in_limits_def pending_def)

lemma ex_closed_reachable: "plugin_reachable ex_decoders ex_decode {} ex_closed"
proof -
  have "submit 0 ex_begun = Some (Ok (), enqueued 0 ex_begun)"
    using plugin_reachable_inv [OF ex_begun_reachable] by (rule submit_takes) simp_all
  then have "plugin_step ex_decoders ex_decode ({0}, ex_begun) ({}, enqueued 0 ex_begun)"
    using plugin_step.submitted [of 0 "{0}"] by fastforce
  moreover have "plugin_step ex_decoders ex_decode ({}, enqueued 0 ex_begun) ({}, ex_closed)"
    by (rule plugin_step.closing) (simp add: close_jobs_def ex_closed_def)
  ultimately show ?thesis
    using ex_begun_reachable unfolding plugin_reachable_def by (meson rtranclp.rtrancl_into_rtrancl)
qed

theorem plugin_never_stuck_witness:
  "\<exists>p1. submit 0 ex_begun = Some (Ok (), p1) \<and> hw_jobs p1 = [0]"
  using plugin_never_stuck [OF ex_begun_reachable] by simp

theorem plugin_drains_witness:
  "\<exists>q. worker ex_decoders ex_decode [None, Some EOF, None, None] ex_closed = Some (Ok (), q) \<and> hw_done q \<and> pending q = {}"
proof -
  have "hw_closed ex_closed" "2 * length (hw_jobs ex_closed) + 2 \<le> length [None, Some EOF, None, None]"
    by (simp_all add: ex_closed_def enqueued_def)
  from plugin_drains [OF ex_closed_reachable this] show ?thesis by auto
qed

end
