(* ===== verification/Capture.thy ===== *)
theory Capture
  imports Auth
begin

text \<open>
  capture.go: which hosts are captured, where the log of a request goes and what is written to it, and the certificates made
  for captured hosts. Files, clocks and cryptography are arguments: the lines of the domain file, the outcome of creating a
  directory or a file, \<open>unicode.IsLetter\<close> and \<open>unicode.IsDigit\<close> beyond ASCII, \<open>mime.ParseMediaType\<close>,
  \<open>http.DetectContentType\<close>, and the making of keys and certificates. The content of an open log file is the bytes
  written to it; the code ignores errors of these writes.
\<close>

section \<open>Captured domains\<close>

definition normalizeCaptureDomain :: "(bytes \<Rightarrow> bytes) \<Rightarrow> bytes \<Rightarrow> bytes" where
  "normalizeCaptureDomain uni domain =
     (let d0 = strings_ToLower uni (strings_TrimSpace domain);
          d1 = TrimPrefix d0 ''*.'';
          d2 = TrimPrefix d1 ''.''
      in TrimSuffix d2 ''.'')"

definition byte_order_mark :: bytes where
  "byte_order_mark = [CHR 0xEF, CHR 0xBB, CHR 0xBF]"

definition invalid_domain :: "bytes \<Rightarrow> bool" where
  "invalid_domain d \<longleftrightarrow> d = [] \<or> CHR '' '' \<in> set d \<or> CHR ''/'' \<in> set d \<or> CHR 0x5C \<in> set d"

primrec capture_lines :: "(bytes \<Rightarrow> bytes) \<Rightarrow> bytes list \<Rightarrow> bytes list \<Rightarrow> err + bytes list" where
  "capture_lines uni [] domains = Inr domains"
| "capture_lines uni (line # ls) domains =
     (let domain = strings_TrimSpace (TrimPrefix line byte_order_mark) in
      if domain = [] \<or> prefix ''#'' domain then capture_lines uni ls domains
      else
        (let d = normalizeCaptureDomain uni domain in
         if invalid_domain d then Inl (ErrorString (''invalid capture domain '' @ line))
         else capture_lines uni ls (List.insert d domains)))"

text \<open>The outcome of opening the file: an error, or its lines and the error the scanner ended with.\<close>

definition loadCaptureDomainFile ::
    "(bytes \<Rightarrow> bytes) \<Rightarrow> (bytes \<Rightarrow> err + (bytes list \<times> err option)) \<Rightarrow> bytes \<Rightarrow> err + bytes list" where
  "loadCaptureDomainFile uni open_file file =
     (if file = [] then Inl (ErrorString ''captureDomainFile is required when capture is enabled'')
      else
        (case open_file file of
           Inl e \<Rightarrow> Inl (Wrapped ''open captureDomainFile: '' e)
         | Inr (ls, serr) \<Rightarrow>
             (case capture_lines uni ls [] of
                Inl e \<Rightarrow> Inl e
              | Inr domains \<Rightarrow>
                  (case serr of Some e \<Rightarrow> Inl (Wrapped ''read captureDomainFile: '' e) | None \<Rightarrow> Inr domains))))"

function allowed_loop :: "bytes list \<Rightarrow> bytes \<Rightarrow> bool" where
  "allowed_loop domains host =
     (case IndexByte host (CHR ''.'') of
        None \<Rightarrow> False
      | Some i \<Rightarrow>
          (let host1 = drop (i + 1) host in
           if ParseIP host1 \<noteq> None then False
           else if host1 \<in> set domains then True
           else allowed_loop domains host1))"
  by pat_completeness auto
termination
  by (relation "measure (\<lambda>(domains, host). length host)") (auto simp: IndexByte_Some)

declare allowed_loop.simps [simp del]

definition captureDomainAllowed :: "(bytes \<Rightarrow> bytes) \<Rightarrow> bytes list \<Rightarrow> bytes \<Rightarrow> bool" where
  "captureDomainAllowed uni domains host0 =
     (let host = normalizeCaptureDomain uni host0 in
      if ''*'' \<in> set domains \<or> host \<in> set domains then True
      else if ParseIP host \<noteq> None then False
      else allowed_loop domains host)"

section \<open>Names of log files\<close>

text \<open>
  The first rune of a string and its width, as ranging over a string gives them: an invalid encoding is U+FFFD of width 1.
\<close>

definition cont_byte :: "bytes \<Rightarrow> nat \<Rightarrow> bool" where
  "cont_byte s i \<longleftrightarrow> i < length s \<and> 0x80 \<le> byte_val (s ! i) \<and> byte_val (s ! i) \<le> 0xBF"

definition decode_rune :: "bytes \<Rightarrow> nat \<times> nat" where
  "decode_rune s =
     (let b = (\<lambda>i. byte_val (s ! i)) in
      if b 0 < 0x80 then (b 0, 1)
      else if 0xC2 \<le> b 0 \<and> b 0 \<le> 0xDF \<and> cont_byte s 1 then (b 0 mod 32 * 64 + b 1 mod 64, 2)
      else if 0xE0 \<le> b 0 \<and> b 0 \<le> 0xEF \<and> cont_byte s 1 \<and> cont_byte s 2 \<and>
          (b 0 = 0xE0 \<longrightarrow> 0xA0 \<le> b 1) \<and> (b 0 = 0xED \<longrightarrow> b 1 \<le> 0x9F)
        then (b 0 mod 16 * 4096 + b 1 mod 64 * 64 + b 2 mod 64, 3)
      else if 0xF0 \<le> b 0 \<and> b 0 \<le> 0xF4 \<and> cont_byte s 1 \<and> cont_byte s 2 \<and> cont_byte s 3 \<and>
          (b 0 = 0xF0 \<longrightarrow> 0x90 \<le> b 1) \<and> (b 0 = 0xF4 \<longrightarrow> b 1 \<le> 0x8F)
        then (b 0 mod 8 * 262144 + b 1 mod 64 * 4096 + b 2 mod 64 * 64 + b 3 mod 64, 4)
      else (0xFFFD, 1))"

lemma decode_rune_width: "0 < snd (decode_rune s)"
  by (simp add: decode_rune_def Let_def)

definition write_rune :: "bytes \<Rightarrow> bytes" where
  "write_rune s =
     (if snd (decode_rune s) = 1 \<and> \<not> byte_val (s ! 0) < 0x80 then [CHR 0xEF, CHR 0xBF, CHR 0xBD]
      else take (snd (decode_rune s)) s)"

text \<open>\<open>letter\<close> is \<open>unicode.IsLetter\<close> or \<open>unicode.IsDigit\<close> beyond ASCII.\<close>

definition name_rune :: "(nat \<Rightarrow> bool) \<Rightarrow> nat \<Rightarrow> bool" where
  "name_rune letter r \<longleftrightarrow>
     (if r < 0x80 then 0x41 \<le> r \<and> r \<le> 0x5A \<or> 0x61 \<le> r \<and> r \<le> 0x7A \<or> 0x30 \<le> r \<and> r \<le> 0x39 \<or> r \<in> {0x2E, 0x5F, 0x2D}
      else letter r)"

function clean_runes :: "(nat \<Rightarrow> bool) \<Rightarrow> bytes \<Rightarrow> bytes \<Rightarrow> bytes" where
  "clean_runes letter s b =
     (if s = [] then b
      else
        (let b1 = b @ (if name_rune letter (fst (decode_rune s)) then write_rune s else ''_'')
         in if 100 \<le> length b1 then b1 else clean_runes letter (drop (snd (decode_rune s)) s) b1))"
  by pat_completeness auto
termination
  by (relation "measure (\<lambda>(letter, s, b). length s)") (auto simp: decode_rune_width)

declare clean_runes.simps [simp del]

definition cleanCaptureName :: "(nat \<Rightarrow> bool) \<Rightarrow> bytes \<Rightarrow> bytes" where
  "cleanCaptureName letter s =
     (let b = clean_runes letter s [] in if b = [] then ''traffic'' else b)"

text \<open>\<open>path.Base\<close>.\<close>

definition path_Base :: "bytes \<Rightarrow> bytes" where
  "path_Base p =
     (if p = [] then ''.''
      else
        (let q = rev (dropWhile (\<lambda>c. c = CHR ''/'') (rev p))
         in if q = [] then ''/'' else last (split_char (CHR ''/'') q)))"

text \<open>\<open>filepath.Join\<close> on an absolute path, given by its components.\<close>

definition clean_step :: "bytes \<Rightarrow> bytes list \<Rightarrow> bytes list" where
  "clean_step c p = (if c = [] \<or> c = ''.'' then p else if c = ''..'' then butlast p else p @ [c])"

definition path_Join :: "bytes list \<Rightarrow> bytes list \<Rightarrow> bytes list" where
  "path_Join p elems = fold clean_step (concat (map (split_char (CHR ''/'')) elems)) p"

definition captureLogsDir :: bytes where
  "captureLogsDir = ''logs''"

text \<open>Directory and name of the log file; \<open>day\<close> and \<open>clock\<close> are the time in the two formats used.\<close>

definition capture_dir :: "(nat \<Rightarrow> bool) \<Rightarrow> bytes list \<Rightarrow> bytes \<Rightarrow> bytes \<Rightarrow> bytes list" where
  "capture_dir letter dir day host = path_Join dir [captureLogsDir, day, cleanCaptureName letter host]"

definition capture_base :: "bytes \<Rightarrow> bytes" where
  "capture_base p =
     (let base = path_Base (SplitN p ''?'' 2 ! 0)
      in if base = ''.'' \<or> base = ''/'' \<or> base = [] then ''root'' else base)"

definition capture_file :: "(nat \<Rightarrow> bool) \<Rightarrow> bytes list \<Rightarrow> bytes \<Rightarrow> bytes \<Rightarrow> URL \<Rightarrow> bytes list" where
  "capture_file letter dir day clock url =
     path_Join (capture_dir letter dir day (url_Host url))
       [cleanCaptureName letter (capture_base (url_Path url)) @ ''_'' @ clock @ ''.log'']"

section \<open>Writing the log\<close>

record trafficCapture =
  tc_path :: "bytes list"
  tc_file :: "bytes option"

definition section_text :: "bytes \<Rightarrow> bytes \<Rightarrow> bytes \<Rightarrow> bytes" where
  "section_text now label p =
     [LF] @ ''===== '' @ now @ '' '' @ label @ '' ====='' @ [LF] @ p @ (if p \<noteq> [] \<and> last p \<noteq> LF then [LF] else [])"

definition file_append :: "bytes \<Rightarrow> trafficCapture \<Rightarrow> trafficCapture" where
  "file_append p c = c \<lparr>tc_file := map_option (\<lambda>f. f @ p) (tc_file c)\<rparr>"

definition writeSection :: "bytes \<Rightarrow> bytes \<Rightarrow> bytes \<Rightarrow> trafficCapture \<Rightarrow> trafficCapture" where
  "writeSection now label p c = file_append (section_text now label p) c"

definition close_capture :: "trafficCapture \<Rightarrow> trafficCapture" where
  "close_capture c = c \<lparr>tc_file := None\<rparr>"

definition captureChunkWriter :: "bytes \<Rightarrow> bytes \<Rightarrow> trafficCapture writer" where
  "captureChunkWriter now label p c = (int (length p), None, writeSection now label p c)"

definition captureRawWriter :: "trafficCapture writer" where
  "captureRawWriter p c = (int (length p), None, file_append p c)"

record capture_env =
  cv_uni :: "bytes \<Rightarrow> bytes"
  cv_letter :: "nat \<Rightarrow> bool"
  cv_mime :: "bytes \<Rightarrow> bytes option"
  cv_detect :: "bytes \<Rightarrow> bytes"

definition textTypes :: "bytes list" where
  "textTypes =
     [''application/json'', ''application/xml'', ''application/javascript'', ''application/x-javascript'',
      ''application/ecmascript'', ''application/x-www-form-urlencoded'', ''application/graphql'', ''application/yaml'',
      ''application/x-yaml'', ''application/toml'', ''application/sql'']"

text \<open>Whether a body is binary, and whether that is known from its header.\<close>

definition captureBodyEncoding :: "capture_env \<Rightarrow> Header \<Rightarrow> bool \<times> bool" where
  "captureBodyEncoding V h =
     (let encoding = strings_ToLower (cv_uni V) (strings_TrimSpace (ContentEncoding h)) in
      if encoding \<noteq> [] \<and> encoding \<noteq> ''identity'' then (True, True)
      else if strings_TrimSpace (ContentType h) = [] then (False, False)
      else
        (let ct = (case cv_mime V (ContentType h) of
             Some t \<Rightarrow> t
           | None \<Rightarrow> strings_ToLower (cv_uni V) (strings_TrimSpace (SplitN (ContentType h) '';'' 2 ! 0)))
         in (\<not> (prefix ''text/'' ct \<or> suffix ''+json'' ct \<or> suffix ''+xml'' ct \<or> ct \<in> set textTypes), True)))"

text \<open>\<open>bw_encoder\<close> holds the bytes a base64 encoder keeps until it has three of them.\<close>

record captureBodyWriter =
  bw_label :: bytes
  bw_binary :: bool
  bw_known :: bool
  bw_started :: bool
  bw_closed :: bool
  bw_encoder :: "bytes option"

definition bodyWriter :: "capture_env \<Rightarrow> bytes \<Rightarrow> Header \<Rightarrow> captureBodyWriter" where
  "bodyWriter V label h =
     (case captureBodyEncoding V h of (binary, known) \<Rightarrow>
        \<lparr>bw_label = label, bw_binary = binary, bw_known = known, bw_started = False, bw_closed = False, bw_encoder = None\<rparr>)"

text \<open>\<open>Write\<close> of a base64 encoder: the bytes it passes on and the bytes it keeps.\<close>

definition encoder_Write :: "bytes \<Rightarrow> bytes \<Rightarrow> bytes \<times> bytes" where
  "encoder_Write p buf =
     (let b = buf @ p; n = length b div 3 * 3 in (b64_encode (take n b), drop n b))"

definition encoding_text :: "bool \<Rightarrow> bytes" where
  "encoding_text binary = ''encoding: '' @ (if binary then ''base64'' else ''text'') @ [LF, LF]"

definition start_body :: "capture_env \<Rightarrow> bytes \<Rightarrow> bytes \<Rightarrow> captureBodyWriter \<times> trafficCapture \<Rightarrow> captureBodyWriter \<times> trafficCapture"
    where
  "start_body V now p s =
     (case s of (w, c) \<Rightarrow>
        if bw_started w then (w, c)
        else
          (let binary = (if bw_known w then bw_binary w
                         else fst (captureBodyEncoding V (zeroHeader \<lparr>ContentType := cv_detect V p\<rparr>)));
               w1 = w \<lparr>bw_binary := binary, bw_encoder := if binary then Some [] else bw_encoder w, bw_started := True\<rparr>
           in (w1, writeSection now (bw_label w)
                 (encoding_text binary) c)))"

definition captureBody_Write :: "capture_env \<Rightarrow> bytes \<Rightarrow> (captureBodyWriter \<times> trafficCapture) writer" where
  "captureBody_Write V now p s =
     (case start_body V now p s of (w, c) \<Rightarrow>
        if bw_binary w then
          (case encoder_Write p (case bw_encoder w of Some b \<Rightarrow> b | None \<Rightarrow> []) of (out, rest) \<Rightarrow>
             (int (length p), None, (w \<lparr>bw_encoder := Some rest\<rparr>, file_append out c)))
        else (case captureRawWriter p c of (n, e, c1) \<Rightarrow> (n, e, (w, c1))))"

definition captureBody_Close :: "captureBodyWriter \<times> trafficCapture \<Rightarrow> captureBodyWriter \<times> trafficCapture" where
  "captureBody_Close s =
     (case s of (w, c) \<Rightarrow>
        if bw_closed w then (w, c)
        else
          (let c1 = (case bw_encoder w of Some b \<Rightarrow> file_append (b64_encode b) c | None \<Rightarrow> c)
           in (w \<lparr>bw_closed := True\<rparr>, if bw_started w then file_append [LF] c1 else c1)))"

text \<open>
  The outcomes of the system when a capture starts, and the times it reads.
\<close>

record capture_os =
  co_mkdir :: "bytes list \<Rightarrow> err option"
  co_open :: "bytes list \<Rightarrow> err option"
  co_day :: bytes
  co_clock :: bytes
  co_time :: bytes

definition startTrafficCapture ::
    "capture_env \<Rightarrow> capture_os \<Rightarrow> bool \<Rightarrow> bytes list \<Rightarrow> bytes list \<Rightarrow> Request \<Rightarrow> bytes \<Rightarrow> trafficCapture option" where
  "startTrafficCapture V os on domains dir r protocol =
     (if \<not> on \<or> \<not> captureDomainAllowed (cv_uni V) domains (url_Host (URL r)) then None
      else if co_mkdir os (capture_dir (cv_letter V) dir (co_day os) (url_Host (URL r))) \<noteq> None then None
      else
        (let file = capture_file (cv_letter V) dir (co_day os) (co_clock os) (URL r) in
         if co_open os file \<noteq> None then None
         else
           (let c = \<lparr>tc_path = file, tc_file = Some []\<rparr>;
                metadata = ''time: '' @ co_time os @ [LF] @ ''protocol: '' @ protocol @ [LF] @ ''target: '' @ URL_String (URL r) @ [LF]
            in Some (writeSection (co_time os) ''client -> server request'' (rawRequest r)
                 (writeSection (co_time os) ''metadata'' metadata c)))))"

section \<open>Which hosts are captured\<close>

text \<open>A host below a domain.\<close>

definition below :: "bytes \<Rightarrow> bytes \<Rightarrow> bool" where
  "below host d \<longleftrightarrow> (\<exists>s. host = s @ CHR ''.'' # d)"

definition captured :: "bytes list \<Rightarrow> bytes \<Rightarrow> bool" where
  "captured domains host \<longleftrightarrow>
     ''*'' \<in> set domains \<or> host \<in> set domains \<or>
     ParseIP host = None \<and>
       (\<exists>d \<in> set domains. below host d \<and> (\<forall>t. below host t \<and> (t = d \<or> below t d) \<longrightarrow> ParseIP t = None))"

lemma below_first:
  assumes "IndexByte host (CHR ''.'') = Some i"
  shows "below host d \<longleftrightarrow> d = drop (i + 1) host \<or> below (drop (i + 1) host) d"
proof
  have split: "host = take i host @ CHR ''.'' # drop (i + 1) host" "CHR ''.'' \<notin> set (take i host)"
    using IndexByte_split [OF assms] assms by (auto simp: IndexByte_Some)
  { assume "below host d"
    then obtain s where s: "take i host @ CHR ''.'' # drop (i + 1) host = s @ CHR ''.'' # d"
      using split(1) unfolding below_def by auto
    then obtain u where "take i host = s @ u \<and> u @ CHR ''.'' # drop (i + 1) host = CHR ''.'' # d \<or>
        take i host @ u = s \<and> CHR ''.'' # drop (i + 1) host = u @ CHR ''.'' # d"
      by (auto simp: append_eq_append_conv2)
    then show "d = drop (i + 1) host \<or> below (drop (i + 1) host) d"
      using split(2) unfolding below_def by (cases u) auto }
  { assume "d = drop (i + 1) host \<or> below (drop (i + 1) host) d"
    then show "below host d"
      using split(1) unfolding below_def by (metis append.assoc append_Cons) }
qed

lemma allowed_loop_iff:
  "allowed_loop domains host \<longleftrightarrow>
     (\<exists>d \<in> set domains. below host d \<and> (\<forall>t. below host t \<and> (t = d \<or> below t d) \<longrightarrow> ParseIP t = None))"
proof (induction domains host rule: allowed_loop.induct)
  case (1 domains host)
  show ?case
  proof (cases "IndexByte host (CHR ''.'')")
    case None
    then have "\<not> below host d" for d by (auto simp: below_def)
    then show ?thesis using None by (simp add: allowed_loop.simps)
  next
    case (Some i)
    let ?h = "drop (i + 1) host"
    have "\<not> below d d" "\<not> (below d ?h \<and> below ?h d)" for d unfolding below_def by (auto dest: arg_cong [where f = length])
    then show ?thesis
      using "1.IH" [OF Some refl] below_first [OF Some] Some
      by (subst allowed_loop.simps) (auto simp: Let_def)
  qed
qed

text \<open>
  C27: A host is captured just when all hosts are, when it is listed itself, or when it is below a listed domain and neither
  it nor a name between it and that domain reads as an IP address. Hosts and lines of the file are normalised alike, so
  case, a leading \<open>*.\<close> or dot, and a final dot do not matter.
\<close>
theorem captureDomainAllowed_iff:
  "captureDomainAllowed uni domains host \<longleftrightarrow> captured domains (normalizeCaptureDomain uni host)"
  by (auto simp: captureDomainAllowed_def captured_def Let_def allowed_loop_iff)

section \<open>Where the log goes\<close>

definition name_char :: "char \<Rightarrow> bool" where
  "name_char c \<longleftrightarrow> 0x80 \<le> byte_val c \<or> name_rune (\<lambda>_. True) (byte_val c)"

lemma name_char_safe: "name_char c \<Longrightarrow> c \<noteq> CHR ''/'' \<and> c \<noteq> CHR 0x00 \<and> c \<noteq> CHR 0x5C"
  by (auto simp: name_char_def name_rune_def)

lemma decode_rune_widths:
  "0x80 \<le> byte_val (s ! 0) \<Longrightarrow>
     snd (decode_rune s) = 1 \<or> snd (decode_rune s) = 2 \<and> cont_byte s 1 \<or>
     snd (decode_rune s) = 3 \<and> cont_byte s 1 \<and> cont_byte s 2 \<or>
     snd (decode_rune s) = 4 \<and> cont_byte s 1 \<and> cont_byte s 2 \<and> cont_byte s 3"
  by (simp add: decode_rune_def Let_def)

lemma decode_rune_bytes:
  assumes "s \<noteq> []" "0x80 \<le> byte_val (s ! 0)" "i < snd (decode_rune s)"
  shows "i < length s \<and> 0x80 \<le> byte_val (s ! i)"
proof -
  have "i = 0 \<or> cont_byte s i"
    using decode_rune_widths [OF assms(2)] assms(3) by (elim disjE) (auto simp: less_Suc_eq numeral_eq_Suc)
  then show ?thesis using assms(1,2) by (auto simp: cont_byte_def)
qed

lemma write_rune_name:
  assumes "s \<noteq> []" "name_rune letter (fst (decode_rune s))"
  shows "list_all name_char (write_rune s) \<and> write_rune s \<noteq> [] \<and> length (write_rune s) \<le> 4"
proof (cases "byte_val (s ! 0) < 0x80")
  case True
  then have "decode_rune s = (byte_val (s ! 0), 1)" by (simp add: decode_rune_def)
  then show ?thesis using assms True by (cases s) (auto simp: write_rune_def name_char_def name_rune_def)
next
  case False
  have "list_all name_char (take (snd (decode_rune s)) s)"
    using decode_rune_bytes [OF assms(1)] False by (auto simp: list_all_length name_char_def)
  moreover have "snd (decode_rune s) \<le> 4" "0 < snd (decode_rune s)"
    by (simp_all add: decode_rune_def Let_def)
  ultimately show ?thesis using assms(1) False by (auto simp: write_rune_def name_char_def)
qed

lemma clean_runes_name:
  "list_all name_char b \<Longrightarrow> length b < 100 \<Longrightarrow>
     list_all name_char (clean_runes letter s b) \<and> length (clean_runes letter s b) \<le> 103 \<and>
     (s \<noteq> [] \<or> b \<noteq> [] \<longrightarrow> clean_runes letter s b \<noteq> [])"
proof (induction letter s b rule: clean_runes.induct)
  case (1 letter s b)
  show ?case
  proof (cases "s = []")
    case True
    then show ?thesis using "1.prems" by (simp add: clean_runes.simps)
  next
    case False
    let ?w = "if name_rune letter (fst (decode_rune s)) then write_rune s else ''_''"
    have w: "list_all name_char ?w" "?w \<noteq> []" "length ?w \<le> 4"
      using write_rune_name [OF False] by (auto simp: name_char_def name_rune_def)
    show ?thesis
    proof (cases "100 \<le> length (b @ ?w)")
      case True
      then have "clean_runes letter s b = b @ ?w" using False by (subst clean_runes.simps) (simp only: Let_def if_True if_False)
      moreover have "length (b @ ?w) \<le> 103" using "1.prems"(2) w(3) by (simp only: length_append)
      ultimately show ?thesis using w "1.prems"(1) by (simp only: list_all_append) simp
    next
      case more: False
      then have "clean_runes letter s b = clean_runes letter (drop (snd (decode_rune s)) s) (b @ ?w)"
        using False by (subst clean_runes.simps) (simp only: Let_def if_False)
      moreover have "list_all name_char (b @ ?w)" "length (b @ ?w) < 100" "b @ ?w \<noteq> []"
        using w "1.prems"(1) more by (simp_all only: list_all_append) simp_all
      ultimately show ?thesis using "1.IH" [OF False refl more] by (simp only: simp_thms)
    qed
  qed
qed

lemma cleanCaptureName_name:
  "list_all name_char (cleanCaptureName letter s) \<and> cleanCaptureName letter s \<noteq> [] \<and>
   length (cleanCaptureName letter s) \<le> 103"
  using clean_runes_name [of "[]" letter s] by (auto simp: cleanCaptureName_def Let_def name_char_def name_rune_def)

lemma cleanCaptureName_component [simp]: "CHR ''/'' \<notin> set (cleanCaptureName letter s)"
  using cleanCaptureName_name [of letter s] name_char_safe by (auto simp: list_all_iff)

lemma path_Join_plain:
  assumes "CHR ''/'' \<notin> set c"
  shows "path_Join p (c # elems) = path_Join (clean_step c p) elems"
  using assms by (simp add: path_Join_def)

text \<open>
  C28: Whatever host and path a client asks for, the log of the exchange is a file in the directory logs below the capture
  directory or at most two levels down there, and its name and that of its directory are single components of a path.
\<close>
theorem capture_file_inside:
  assumes "CHR ''/'' \<notin> set day" "day \<notin> {[], ''.'', ''..''}" "CHR ''/'' \<notin> set clock"
  shows "\<exists>sub name. capture_file letter dir day clock url = dir @ [captureLogsDir] @ sub @ [name] \<and>
    (sub = [] \<or> sub = [day] \<or> sub = [day, cleanCaptureName letter (url_Host url)]) \<and>
    suffix ''.log'' name \<and> CHR ''/'' \<notin> set name \<and> CHR ''/'' \<notin> set (cleanCaptureName letter (url_Host url)) \<and>
    cleanCaptureName letter (url_Host url) \<noteq> []"
proof -
  let ?h = "cleanCaptureName letter (url_Host url)"
  let ?name = "cleanCaptureName letter (capture_base (url_Path url)) @ ''_'' @ clock @ ''.log''"
  have logs: "CHR ''/'' \<notin> set captureLogsDir" "clean_step captureLogsDir dir = dir @ [captureLogsDir]"
    by (simp_all add: captureLogsDir_def clean_step_def)
  have "capture_dir letter dir day (url_Host url) = clean_step ?h (clean_step day (dir @ [captureLogsDir]))"
    using assms(1) logs by (simp only: capture_dir_def path_Join_plain cleanCaptureName_component) (simp add: path_Join_def)
  then obtain sub where sub: "capture_dir letter dir day (url_Host url) = dir @ [captureLogsDir] @ sub"
    "sub = [] \<or> sub = [day] \<or> sub = [day, ?h]"
    using assms(2) by (auto simp: clean_step_def butlast_append split: if_splits)
  have name: "CHR ''/'' \<notin> set ?name" "clean_step ?name p = p @ [?name]" for p
  proof -
    have "3 < length ?name" by simp
    then have "?name \<noteq> [] \<and> ?name \<noteq> ''.'' \<and> ?name \<noteq> ''..''" by fastforce
    then show "clean_step ?name p = p @ [?name]" by (simp only: clean_step_def simp_thms if_False)
  qed (use assms(3) in simp)
  have "capture_file letter dir day clock url = dir @ [captureLogsDir] @ sub @ [?name]"
    unfolding capture_file_def sub(1) path_Join_plain [OF name(1)] name(2) by (simp add: path_Join_def)
  moreover have "suffix ''.log'' ?name" by (auto simp: suffix_def intro: exI [of _ "cleanCaptureName letter (capture_base (url_Path url)) @ ''_'' @ clock"])
  ultimately show ?thesis using sub(2) name(1) cleanCaptureName_name by (metis cleanCaptureName_component)
qed

section \<open>The log holds the body\<close>

lemma b64_encode_append: "3 dvd length xs \<Longrightarrow> b64_encode (xs @ ys) = b64_encode xs @ b64_encode ys"
proof (induction xs rule: b64_encode.induct)
  case (4 a b c rest)
  have "length (a # b # c # rest) = length rest + 3" by simp
  then have "3 dvd length rest" using "4.prems" by (simp only: dvd_add_triv_right_iff)
  with 4 show ?case by simp
qed (auto dest: dvd_imp_le)

lemma encoder_Write_done:
  assumes "encoder_Write p rest = (out, rest1)" "3 dvd length done"
  shows "\<exists>d. b64_encode done @ out = b64_encode d \<and> 3 dvd length d \<and> done @ rest @ p = d @ rest1"
proof -
  let ?b = "rest @ p" let ?n = "length ?b div 3 * 3"
  have out: "out = b64_encode (take ?n ?b)" "rest1 = drop ?n ?b" using assms(1) by (simp_all add: encoder_Write_def Let_def)
  have "?n \<le> length ?b" by simp
  then have "length (take ?n ?b) = ?n" by (simp only: length_take min_absorb2)
  then have "3 dvd length (take ?n ?b)" by (simp only: dvd_triv_right)
  then have "3 dvd length (done @ take ?n ?b)" using assms(2) by (simp only: length_append dvd_add)
  moreover have "b64_encode done @ out = b64_encode (done @ take ?n ?b)" using b64_encode_append [OF assms(2)] out(1) by simp
  moreover have "done @ rest @ p = (done @ take ?n ?b) @ rest1" unfolding out(2) by (simp only: append.assoc append_take_drop_id)
  ultimately show ?thesis by blast
qed

text \<open>What the writer has logged of \<open>body\<close> since it started behind \<open>f\<close>.\<close>

definition logged :: "bytes \<Rightarrow> bytes \<Rightarrow> captureBodyWriter \<times> trafficCapture \<Rightarrow> bool" where
  "logged f body s \<longleftrightarrow>
     (case s of (w, c) \<Rightarrow>
        bw_started w \<and> \<not> bw_closed w \<and>
        (if bw_binary w then
           \<exists>d rest. bw_encoder w = Some rest \<and> body = d @ rest \<and> 3 dvd length d \<and> tc_file c = Some (f @ b64_encode d)
         else bw_encoder w = None \<and> tc_file c = Some (f @ body)))"

lemma captureBody_Write_logged:
  assumes "logged f body s"
  shows "\<exists>s1. captureBody_Write V now p s = (int (length p), None, s1) \<and> logged f (body @ p) s1 \<and>
    bw_binary (fst s1) = bw_binary (fst s)"
proof -
  obtain w c where s: "s = (w, c)" by fastforce
  have st: "start_body V now p s = (w, c)" using assms by (simp add: s logged_def start_body_def)
  show ?thesis
  proof (cases "bw_binary w")
    case True
    then obtain d rest where d: "bw_encoder w = Some rest" "body = d @ rest" "3 dvd length d" "tc_file c = Some (f @ b64_encode d)"
      using assms by (auto simp: logged_def s)
    obtain out rest1 where enc: "encoder_Write p rest = (out, rest1)" by fastforce
    then obtain d1 where "b64_encode d @ out = b64_encode d1" "3 dvd length d1" "d @ rest @ p = d1 @ rest1"
      using encoder_Write_done d(3) by blast
    moreover have "captureBody_Write V now p s = (int (length p), None, (w \<lparr>bw_encoder := Some rest1\<rparr>, file_append out c))"
      using True d(1) enc by (simp add: captureBody_Write_def st)
    ultimately show ?thesis
      using assms True d by (auto simp: logged_def s file_append_def)
  next
    case False
    then have "captureBody_Write V now p s = (int (length p), None, (w, file_append p c))"
      by (simp add: captureBody_Write_def st captureRawWriter_def)
    then show ?thesis using assms False by (auto simp: logged_def s file_append_def)
  qed
qed

lemma captureBody_Close_logged:
  assumes "logged f body s"
  shows "tc_file (snd (captureBody_Close s)) = Some (f @ (if bw_binary (fst s) then b64_encode body else body) @ [LF])"
  using assms
  by (auto simp: logged_def captureBody_Close_def Let_def file_append_def b64_encode_append split: prod.splits if_splits)

fun body_writes :: "capture_env \<Rightarrow> (bytes \<times> bytes) list \<Rightarrow> captureBodyWriter \<times> trafficCapture \<Rightarrow> captureBodyWriter \<times> trafficCapture"
    where
  "body_writes V [] s = s"
| "body_writes V ((now, p) # ps) s = body_writes V ps (snd (snd (captureBody_Write V now p s)))"

lemma body_writes_logged:
  "logged f body s \<Longrightarrow>
     logged f (body @ concat (map snd ps)) (body_writes V ps s) \<and> bw_binary (fst (body_writes V ps s)) = bw_binary (fst s)"
proof (induction ps arbitrary: body s)
  case (Cons a ps)
  obtain now p where a: "a = (now, p)" by fastforce
  obtain s1 where s1: "captureBody_Write V now p s = (int (length p), None, s1)" "logged f (body @ p) s1"
      "bw_binary (fst s1) = bw_binary (fst s)"
    using captureBody_Write_logged [OF Cons.prems] by blast
  show ?case using Cons.IH [OF s1(2)] s1 by (simp add: a)
qed simp

lemma start_body_logged:
  assumes "tc_file c = Some f" "\<not> bw_started w" "\<not> bw_closed w" "bw_encoder w = None"
  shows "\<exists>binary. logged (f @ section_text now (bw_label w) (encoding_text binary)) []
      (start_body V now p (w, c)) \<and> bw_binary (fst (start_body V now p (w, c))) = binary \<and> (bw_known w \<longrightarrow> binary = bw_binary w)"
  using assms by (auto simp: start_body_def logged_def Let_def writeSection_def file_append_def)

lemma start_body_idem: "start_body V now p (start_body V now' p' s) = start_body V now' p' s"
  by (cases s) (simp add: start_body_def Let_def)

text \<open>
  The log of a body holds it completely, in whatever pieces it was forwarded: after a heading that names the encoding it
  is the body itself, or base64 that decodes to the body when its header or its first bytes say that it is binary. A write to
  the log never fails and never reports fewer bytes than it was given.
\<close>
theorem captured_body_recoverable:
  assumes "tc_file c = Some f" "ps \<noteq> []"
  shows "\<exists>binary data. tc_file (snd (captureBody_Close (body_writes V ps (bodyWriter V label h, c)))) =
      Some (f @ section_text (fst (hd ps)) label (encoding_text binary) @ data @ [LF]) \<and>
    (if binary then b64_decode data = Some (concat (map snd ps)) else data = concat (map snd ps)) \<and>
    (snd (captureBodyEncoding V h) \<longrightarrow> binary = fst (captureBodyEncoding V h)) \<and>
    (\<forall>now p s. fst (captureBody_Write V now p s) = int (length p) \<and> fst (snd (captureBody_Write V now p s)) = None)"
proof -
  obtain now p qs where ps: "ps = (now, p) # qs" using assms(2) by (metis list.exhaust prod.exhaust)
  let ?w = "bodyWriter V label h"
  have w: "bw_label ?w = label" "\<not> bw_started ?w" "\<not> bw_closed ?w" "bw_encoder ?w = None"
    "bw_known ?w = snd (captureBodyEncoding V h)" "bw_binary ?w = fst (captureBodyEncoding V h)"
    by (simp_all add: bodyWriter_def split: prod.split)
  obtain binary where b: "logged (f @ section_text now label (encoding_text binary)) []
      (start_body V now p (?w, c))" "bw_binary (fst (start_body V now p (?w, c))) = binary"
      "bw_known ?w \<longrightarrow> binary = bw_binary ?w"
    using start_body_logged [OF assms(1) w(2-4)] unfolding w(1) by blast
  have "captureBody_Write V now p (?w, c) = captureBody_Write V now p (start_body V now p (?w, c))"
    unfolding captureBody_Write_def start_body_idem by (rule refl)
  then have "body_writes V ps (?w, c) = body_writes V ps (start_body V now p (?w, c))" by (simp add: ps)
  then have "tc_file (snd (captureBody_Close (body_writes V ps (?w, c)))) =
      Some (f @ section_text now label (encoding_text binary) @
        (if binary then b64_encode (concat (map snd ps)) else concat (map snd ps)) @ [LF])"
    using captureBody_Close_logged [OF body_writes_logged [OF b(1), of ps V, THEN conjunct1, unfolded append_Nil]]
      body_writes_logged [OF b(1), of ps V, THEN conjunct2] b(2) by (simp split del: if_split)
  moreover have "fst (captureBody_Write V now p s) = int (length p) \<and> fst (snd (captureBody_Write V now p s)) = None" for now p s
    by (auto simp: captureBody_Write_def captureRawWriter_def split: prod.split)
  ultimately show ?thesis
    using b(3) unfolding w(5,6) ps
    by (intro exI [of _ binary]
        exI [of _ "if binary then b64_encode (concat (map snd ((now, p) # qs))) else concat (map snd ((now, p) # qs))"])
      (auto simp: b64_decode_encode)
qed

definition ex_capture_env :: capture_env where
  "ex_capture_env = \<lparr>cv_uni = id, cv_letter = (\<lambda>_. False), cv_mime = (\<lambda>_. None), cv_detect = (\<lambda>_. ''image/png'')\<rparr>"

theorem captured_body_recoverable_witness:
  "\<exists>data. tc_file (snd (captureBody_Close (body_writes ex_capture_env [(''t0'', ''ab''), (''t1'', ''cde'')]
      (bodyWriter ex_capture_env ''body'' (zeroHeader \<lparr>ContentEncoding := ''gzip''\<rparr>), \<lparr>tc_path = [], tc_file = Some []\<rparr>)))) =
    Some (section_text ''t0'' ''body'' (encoding_text True) @ data @ [LF]) \<and> b64_decode data = Some ''abcde''"
proof -
  let ?h = "zeroHeader \<lparr>ContentEncoding := ''gzip''\<rparr>"
  have enc: "captureBodyEncoding ex_capture_env ?h = (True, True)"
  proof -
    have "strings_ToLower id (strings_TrimSpace ''gzip'') = ''gzip''" by code_simp
    then show ?thesis by (simp add: captureBodyEncoding_def ex_capture_env_def)
  qed
  from captured_body_recoverable [of "\<lparr>tc_path = [], tc_file = Some []\<rparr>" "[]" "[(''t0'', ''ab''), (''t1'', ''cde'')]"
      ex_capture_env "''body''" ?h]
  show ?thesis by (auto simp: enc)
qed

theorem capture_file_inside_witness:
  "\<exists>sub name. capture_file (\<lambda>_. False) [''srv''] ''20240101'' ''120000.0'' (empty_URL \<lparr>url_Host := ''..'', url_Path := ''/../x''\<rparr>) =
    [''srv'', captureLogsDir] @ sub @ [name] \<and> CHR ''/'' \<notin> set name"
  using capture_file_inside [of "''20240101''" "''120000.0''" "\<lambda>_. False" "[''srv'']"
      "empty_URL \<lparr>url_Host := ''..'', url_Path := ''/../x''\<rparr>"] by auto

section \<open>Certificates\<close>

text \<open>
  The template of a certificate for a host, and the state of the authority. A certificate is the template it was made from,
  with a key. \<open>ca_env\<close> has the clock and the outcomes of making the key and of signing.
\<close>

record leaf_template =
  lt_host :: bytes
  lt_notBefore :: time
  lt_notAfter :: time
  lt_ips :: "bytes list"
  lt_dns :: "bytes list"

record captureCA =
  ca_notAfter :: "time option"
  ca_key :: bool
  ca_leaf :: "(bytes \<times> leaf_template) list"

record ca_env =
  ce_now :: time
  ce_month :: "time \<Rightarrow> time"
  ce_GenerateKey :: "err option"
  ce_CreateCertificate :: "leaf_template \<Rightarrow> err option"

definition captureCertificate :: "ca_env \<Rightarrow> bytes \<Rightarrow> captureCA \<Rightarrow> (err + leaf_template) \<times> captureCA" where
  "captureCertificate E host ca =
     (case map_of (ca_leaf ca) host of
        Some cert \<Rightarrow> (Inr cert, ca)
      | None \<Rightarrow>
          (case ca_notAfter ca of
             None \<Rightarrow> (Inl (ErrorString ''capture CA is not initialized''), ca)
           | Some caEnd \<Rightarrow>
               (if \<not> ca_key ca then (Inl (ErrorString ''capture CA is not initialized''), ca)
                else
                  (case ce_GenerateKey E of
                     Some e \<Rightarrow> (Inl e, ca)
                   | None \<Rightarrow>
                       (let month = ce_month E (ce_now E);
                            notAfter = (if caEnd < month then caEnd else month);
                            tpl = \<lparr>lt_host = host, lt_notBefore = ce_now E - 3600 * 1000000000, lt_notAfter = notAfter,
                              lt_ips = (case ParseIP host of Some ip \<Rightarrow> [ip] | None \<Rightarrow> []),
                              lt_dns = (case ParseIP host of Some ip \<Rightarrow> [] | None \<Rightarrow> [host])\<rparr>
                        in (case ce_CreateCertificate E tpl of
                              Some e \<Rightarrow> (Inl e, ca)
                            | None \<Rightarrow> (Inr tpl, ca \<lparr>ca_leaf := (host, tpl) # ca_leaf ca\<rparr>)))))))"

definition ca_ok :: "captureCA \<Rightarrow> bool" where
  "ca_ok ca \<longleftrightarrow> (\<forall>(host, t) \<in> set (ca_leaf ca). lt_host t = host \<and> (\<exists>caEnd. ca_notAfter ca = Some caEnd \<and> lt_notAfter t \<le> caEnd))"

text \<open>
  A certificate is for the host it is asked for and ends no later than that of the authority; once there is one for a host,
  it is used again, whatever happens to the clock or to the making of keys.
\<close>

lemma captureCertificate_ok:
  assumes "captureCertificate E host ca = (Inr cert, ca1)" "ca_ok ca"
  shows "ca_ok ca1" "lt_host cert = host" "\<exists>caEnd. ca_notAfter ca = Some caEnd \<and> lt_notAfter cert \<le> caEnd"
    and "captureCertificate E' host ca1 = (Inr cert, ca1)"
proof -
  have "ca_ok ca1 \<and> lt_host cert = host \<and> (\<exists>caEnd. ca_notAfter ca = Some caEnd \<and> lt_notAfter cert \<le> caEnd) \<and>
      map_of (ca_leaf ca1) host = Some cert"
  proof (cases "map_of (ca_leaf ca) host")
    case None
    then obtain caEnd where "ca_notAfter ca = Some caEnd" "lt_host cert = host" "lt_notAfter cert \<le> caEnd"
      "ca1 = ca \<lparr>ca_leaf := (host, cert) # ca_leaf ca\<rparr>"
      using assms(1) by (auto simp: captureCertificate_def Let_def split: option.splits if_splits)
    then show ?thesis using assms(2) by (auto simp: ca_ok_def)
  next
    case (Some c)
    then have "cert = c" "ca1 = ca" using assms(1) by (simp_all add: captureCertificate_def)
    then show ?thesis using Some assms(2) by (fastforce simp: ca_ok_def dest: map_of_SomeD)
  qed
  then show "ca_ok ca1" "lt_host cert = host" "\<exists>caEnd. ca_notAfter ca = Some caEnd \<and> lt_notAfter cert \<le> caEnd"
    "captureCertificate E' host ca1 = (Inr cert, ca1)"
    by (simp_all add: captureCertificate_def)
qed

section \<open>Starting up\<close>

text \<open>
  The system as \<open>initCapture\<close> sees it. The result has the domains, the directory, the end of the authority's certificate and
  its text; beside it the files that were written, with their contents.
\<close>

datatype file_read = NotExist | ReadError err | Content bytes

record capture_init =
  ci_open :: "bytes \<Rightarrow> err + (bytes list \<times> err option)"
  ci_Abs :: "bytes \<Rightarrow> err + bytes list"
  ci_MkdirAll :: "bytes list \<Rightarrow> err option"
  ci_ReadFile :: "bytes list \<Rightarrow> file_read"
  ci_generateCaptureCA :: "err + (bytes \<times> bytes)"
  ci_WriteFile :: "bytes list \<Rightarrow> err option"
  ci_X509KeyPair :: "bytes \<Rightarrow> bytes \<Rightarrow> err + bool"
  ci_ParseCertificate :: "bytes \<Rightarrow> err + (bool \<times> time)"

type_synonym written_files = "(bytes list \<times> bytes) list"

definition captureCACertName :: bytes where
  "captureCACertName = ''cow-ca.crt''"

definition captureCAKeyName :: bytes where
  "captureCAKeyName = ''cow-ca.key''"

definition load_ca :: "capture_init \<Rightarrow> bytes list \<Rightarrow> (err + (bytes \<times> bytes)) \<times> written_files" where
  "load_ca I dir =
     (let certPath = path_Join dir [captureCACertName]; keyPath = path_Join dir [captureCAKeyName];
          certRead = ci_ReadFile I certPath; keyRead = ci_ReadFile I keyPath
      in case (certRead, keyRead) of
           (NotExist, NotExist) \<Rightarrow>
             (case ci_generateCaptureCA I of
                Inl e \<Rightarrow> (Inl e, [])
              | Inr (certPEM, keyPEM) \<Rightarrow>
                  (case ci_WriteFile I certPath of
                     Some e \<Rightarrow> (Inl e, [])
                   | None \<Rightarrow>
                       (case ci_WriteFile I keyPath of
                          Some e \<Rightarrow> (Inl e, [(certPath, certPEM)])
                        | None \<Rightarrow> (Inr (certPEM, keyPEM), [(certPath, certPEM), (keyPath, keyPEM)]))))
         | (Content certPEM, Content keyPEM) \<Rightarrow> (Inr (certPEM, keyPEM), [])
         | _ \<Rightarrow> (Inl (ErrorString ''both files must exist, or neither''), []))"

definition check_ca :: "capture_init \<Rightarrow> bytes \<Rightarrow> bytes \<Rightarrow> err + time" where
  "check_ca I certPEM keyPEM =
     (case ci_X509KeyPair I certPEM keyPEM of
        Inl e \<Rightarrow> Inl (Wrapped ''load capture CA: '' e)
      | Inr signer \<Rightarrow>
          (case ci_ParseCertificate I certPEM of
             Inl e \<Rightarrow> Inl (Wrapped ''parse capture CA: '' e)
           | Inr (isCA, notAfter) \<Rightarrow>
               (if \<not> signer \<or> \<not> isCA then Inl (ErrorString ''capture CA is not a signing certificate'') else Inr notAfter)))"

definition initCapture ::
    "(bytes \<Rightarrow> bytes) \<Rightarrow> capture_init \<Rightarrow> bool \<Rightarrow> bytes \<Rightarrow> bytes \<Rightarrow>
     (err + (bytes list \<times> bytes list \<times> bytes \<times> captureCA) option) \<times> written_files" where
  "initCapture uni I on captureDir domainFile =
     (if \<not> on then (Inr None, [])
      else
        (case loadCaptureDomainFile uni (ci_open I) domainFile of
           Inl e \<Rightarrow> (Inl e, [])
         | Inr domains \<Rightarrow>
             (if captureDir = [] then (Inl (ErrorString ''captureDir is empty''), [])
              else
                (case ci_Abs I captureDir of
                   Inl e \<Rightarrow> (Inl e, [])
                 | Inr dir \<Rightarrow>
                     (case ci_MkdirAll I dir of
                        Some e \<Rightarrow> (Inl e, [])
                      | None \<Rightarrow>
                          (case ci_MkdirAll I (path_Join dir [captureLogsDir]) of
                             Some e \<Rightarrow> (Inl e, [])
                           | None \<Rightarrow>
                               (case load_ca I dir of
                                  (Inl e, wr) \<Rightarrow> (Inl e, wr)
                                | (Inr (certPEM, keyPEM), wr) \<Rightarrow>
                                    (case check_ca I certPEM keyPEM of
                                       Inl e \<Rightarrow> (Inl e, wr)
                                     | Inr notAfter \<Rightarrow>
                                         (Inr (Some (domains, dir, certPEM,
                                            \<lparr>ca_notAfter = Some notAfter, ca_key = True, ca_leaf = []\<rparr>)), wr)))))))))"

text \<open>An authority that is there is never overwritten, not even half of one.\<close>

lemma load_ca_keeps:
  assumes "load_ca I dir = (res, wr)" "wr \<noteq> []"
  shows "ci_ReadFile I (path_Join dir [captureCACertName]) = NotExist" "ci_ReadFile I (path_Join dir [captureCAKeyName]) = NotExist"
  using assms by (auto simp: load_ca_def Let_def split: file_read.splits)

end
