(* ===== verification/Recording.thy ===== *)
theory Recording
  imports Capture Plugin
begin

text \<open>
  Bodies that are recorded on their way, in \<open>sendRequestBody\<close> and \<open>readResponse\<close> of proxy.go: they go through
  \<open>io.MultiWriter\<close> to the connection, to the log of a captured exchange and to the plugin. The bodies of Body and of
  Forward are sent to the connection alone; here is why that is right also while an exchange is recorded.
\<close>

definition MultiWriter :: "'w writer \<Rightarrow> 'v writer \<Rightarrow> ('w \<times> 'v) writer" where
  "MultiWriter W V p s =
     (case s of (w, v) \<Rightarrow>
        (case W p w of (n, e, w1) \<Rightarrow>
           if e \<noteq> None then (n, e, (w1, v))
           else if n \<noteq> int (length p) then (n, Some ShortWrite, (w1, v))
           else
             (case V p v of (n2, e2, v1) \<Rightarrow>
                if e2 \<noteq> None then (n2, e2, (w1, v1))
                else if n2 \<noteq> int (length p) then (n2, Some ShortWrite, (w1, v1))
                else (int (length p), None, (w1, v1)))))"

section \<open>Refinement of writers\<close>

text \<open>
  A writer with more state than another one, but which answers every call the same way: sending a body through the first is
  sending it through the second, with the same outcome, from and to corresponding states.
\<close>

locale writer_refines =
  fixes W' :: "'x writer" and W :: "'w writer" and a :: "'x \<Rightarrow> 'w"
  assumes Write_refines: "W' b x = (n, e, x') \<Longrightarrow> W b (a x) = (n, e, a x')"
begin

definition lift :: "(err option \<times> 'r \<times> 'x) \<Rightarrow> (err option \<times> 'r \<times> 'w)" where
  "lift y = (fst y, fst (snd y), a (snd (snd y)))"

lemma Write_abs: "W b (a x) = (case W' b x of (n, e, x') \<Rightarrow> (n, e, a x'))"
  using Write_refines by (auto split: prod.split)

lemma copyN_abs: "copyN R W' n s r x = Some y \<Longrightarrow> copyN R W n s r (a x) = Some (lift y)"
proof -
  assume call: "copyN R W' n s r x = Some y"
  have "W' = W' \<longrightarrow> copyN R W n s r (a x) = Some (lift y)"
  proof (rule copyN.raw_induct [OF _ call, where
        P = "\<lambda>R U n s r x y. U = W' \<longrightarrow> copyN R W n s r (a x) = Some (lift y)"], intro impI)
    fix rec R U n s r x y
    assume IH: "\<And>R U n s r x y. rec R U n s r x = Some y \<Longrightarrow> U = W' \<longrightarrow> copyN R W n s r (a x) = Some (lift y)"
      and step: "(if \<not> 0 < n then Some (None, r, x)
        else case ReadN R (if s < n then s else n) r of
           (b, er, r1) \<Rightarrow>
             case if b = [] then (0, None, x) else U b x of
             (nw, ew, w1) \<Rightarrow>
               if ew \<noteq> None then Some (ew, r1, w1)
               else if b \<noteq> [] \<and> nw \<noteq> int (length b) then Some (Some ShortWrite, r1, w1)
                    else if er = Some EOF then Some (None, r1, w1)
                         else if er \<noteq> None then Some (er, r1, w1)
                              else rec R U (go_int (n - int (length b))) s r1 w1) = Some y"
      and U: "U = W'"
    obtain b er r1 where rd: "ReadN R (if s < n then s else n) r = (b, er, r1)" by (metis prod_cases3)
    obtain nw ew x1 where wr: "(if b = [] then (0, None, x) else W' b x) = (nw, ew, x1)" by (metis prod_cases3)
    have wr': "(if b = [] then (0, None, a x) else W b (a x)) = (nw, ew, a x1)"
      using wr Write_refines by (auto split: if_splits)
    show "copyN R W n s r (a x) = Some (lift y)"
      using step IH [of R W' "go_int (n - int (length b))" s r1 x1 y] unfolding U copyN.simps [of R W n s r "a x"] rd wr wr' prod.case
      by (auto simp: lift_def split: if_splits)
  qed
  then show ?thesis by simp
qed

lemma copyN_conc: "copyN R W n s r w = Some y \<Longrightarrow> a x = w \<Longrightarrow> \<exists>y'. copyN R W' n s r x = Some y' \<and> lift y' = y"
proof -
  assume call: "copyN R W n s r w = Some y" and x: "a x = w"
  have "W = W \<longrightarrow> (\<forall>x. a x = w \<longrightarrow> (\<exists>y'. copyN R W' n s r x = Some y' \<and> lift y' = y))"
  proof (rule copyN.raw_induct [OF _ call, where
        P = "\<lambda>R U n s r w y. U = W \<longrightarrow> (\<forall>x. a x = w \<longrightarrow> (\<exists>y'. copyN R W' n s r x = Some y' \<and> lift y' = y))"], intro impI allI)
    fix rec R U n s r w y x
    assume IH: "\<And>R U n s r w y. rec R U n s r w = Some y \<Longrightarrow>
        U = W \<longrightarrow> (\<forall>x. a x = w \<longrightarrow> (\<exists>y'. copyN R W' n s r x = Some y' \<and> lift y' = y))"
      and step: "(if \<not> 0 < n then Some (None, r, w)
        else case ReadN R (if s < n then s else n) r of
           (b, er, r1) \<Rightarrow>
             case if b = [] then (0, None, w) else U b w of
             (nw, ew, w1) \<Rightarrow>
               if ew \<noteq> None then Some (ew, r1, w1)
               else if b \<noteq> [] \<and> nw \<noteq> int (length b) then Some (Some ShortWrite, r1, w1)
                    else if er = Some EOF then Some (None, r1, w1)
                         else if er \<noteq> None then Some (er, r1, w1)
                              else rec R U (go_int (n - int (length b))) s r1 w1) = Some y"
      and U: "U = W" and x: "a x = w"
    obtain b er r1 where rd: "ReadN R (if s < n then s else n) r = (b, er, r1)" by (metis prod_cases3)
    obtain nw ew x1 where wr: "(if b = [] then (0, None, x) else W' b x) = (nw, ew, x1)" by (metis prod_cases3)
    have wr': "(if b = [] then (0, None, a x) else W b (a x)) = (nw, ew, a x1)"
      using wr Write_refines by (auto split: if_splits)
    show "\<exists>y'. copyN R W' n s r x = Some y' \<and> lift y' = y"
      using step IH [of R W "go_int (n - int (length b))" s r1 "a x1" y]
      unfolding U x [symmetric] copyN.simps [of R W' n s r x] rd wr wr' prod.case
      by (auto simp: lift_def split: if_splits)
  qed
  then show ?thesis using x by simp
qed

lemma copyN_refines: "copyN R W n s r (a x) = map_option lift (copyN R W' n s r x)"
proof (cases "copyN R W' n s r x")
  case None
  then show ?thesis using copyN_conc [of R n s r "a x" _ x] by (cases "copyN R W n s r (a x)") auto
next
  case (Some y)
  then show ?thesis using copyN_abs by simp
qed

lemma sendBodyChunked_abs: "sendBodyChunked R W' s r x = Some y \<Longrightarrow> sendBodyChunked R W s r (a x) = Some (lift y)"
proof -
  assume call: "sendBodyChunked R W' s r x = Some y"
  have "W' = W' \<longrightarrow> sendBodyChunked R W s r (a x) = Some (lift y)"
  proof (rule sendBodyChunked.raw_induct [OF _ call, where
        P = "\<lambda>R U s r x y. U = W' \<longrightarrow> sendBodyChunked R W s r (a x) = Some (lift y)"], intro impI)
    fix rec R U rdSize r x y
    assume IH: "\<And>R U rdSize r x y. rec R U rdSize r x = Some y \<Longrightarrow>
        U = W' \<longrightarrow> sendBodyChunked R W rdSize r (a x) = Some (lift y)"
      and step: "(case PeekSlice R LF r of (s, e, r1) \<Rightarrow>
        if e \<noteq> None then Some (e, r1, x)
        else case chunk_size s of Inl er \<Rightarrow> Some (Some er, r1, x)
          | Inr sz \<Rightarrow>
              if sz = 0 then
                case skipCRLF R (snd (Skip R (int (length s)) r1)) of
                  None \<Rightarrow> None
                | Some (e2, r2) \<Rightarrow>
                    if e2 \<noteq> None then Some (e2, r2, x)
                    else case U chunkEnd x of (nw, ew, w1) \<Rightarrow> Some (ew, r2, w1)
              else Option.bind (copyN R U (go_int (int (length s) + sz + 2)) rdSize r1 x)
                (\<lambda>(e3, r3, w3). if e3 \<noteq> None then Some (e3, r3, w3) else rec R U rdSize r3 w3)) = Some y"
      and U: "U = W'"
    obtain s e r1 where pk: "PeekSlice R LF r = (s, e, r1)" by (metis prod_cases3)
    obtain nw ew x1 where wr: "W' chunkEnd x = (nw, ew, x1)" by (metis prod_cases3)
    note wr' = Write_refines [OF wr]
    show "sendBodyChunked R W rdSize r (a x) = Some (lift y)"
    proof (cases "e = None \<and> (\<exists>sz. chunk_size s = Inr sz \<and> sz \<noteq> 0)")
      case True
      then obtain sz where sz: "e = None" "chunk_size s = Inr sz" "sz \<noteq> 0" by blast
      then obtain e3 r3 x3 where cp: "copyN R W' (go_int (int (length s) + sz + 2)) rdSize r1 x = Some (e3, r3, x3)"
          "(if e3 \<noteq> None then Some (e3, r3, x3) else rec R W' rdSize r3 x3) = Some y"
        using step unfolding U by (auto simp: pk bind_eq_Some_conv)
      then show ?thesis
        using sz IH [of R W' rdSize r3 x3 y]
        by (subst sendBodyChunked.simps) (auto simp: pk copyN_refines lift_def split: if_splits)
    next
      case False
      then show ?thesis
        using step unfolding U sendBodyChunked.simps [of R W rdSize r "a x"] pk wr wr' prod.case
        by (auto simp: lift_def split: if_splits sum.splits option.splits)
    qed
  qed
  then show ?thesis by simp
qed

lemma sendBodyChunked_conc:
  "sendBodyChunked R W s r w = Some y \<Longrightarrow> a x = w \<Longrightarrow> \<exists>y'. sendBodyChunked R W' s r x = Some y' \<and> lift y' = y"
proof -
  assume call: "sendBodyChunked R W s r w = Some y" and x: "a x = w"
  have "W = W \<longrightarrow> (\<forall>x. a x = w \<longrightarrow> (\<exists>y'. sendBodyChunked R W' s r x = Some y' \<and> lift y' = y))"
  proof (rule sendBodyChunked.raw_induct [OF _ call, where
        P = "\<lambda>R U s r w y. U = W \<longrightarrow> (\<forall>x. a x = w \<longrightarrow> (\<exists>y'. sendBodyChunked R W' s r x = Some y' \<and> lift y' = y))"],
        intro impI allI)
    fix rec R U rdSize r w y x
    assume IH: "\<And>R U rdSize r w y. rec R U rdSize r w = Some y \<Longrightarrow>
        U = W \<longrightarrow> (\<forall>x. a x = w \<longrightarrow> (\<exists>y'. sendBodyChunked R W' rdSize r x = Some y' \<and> lift y' = y))"
      and step: "(case PeekSlice R LF r of (s, e, r1) \<Rightarrow>
        if e \<noteq> None then Some (e, r1, w)
        else case chunk_size s of Inl er \<Rightarrow> Some (Some er, r1, w)
          | Inr sz \<Rightarrow>
              if sz = 0 then
                case skipCRLF R (snd (Skip R (int (length s)) r1)) of
                  None \<Rightarrow> None
                | Some (e2, r2) \<Rightarrow>
                    if e2 \<noteq> None then Some (e2, r2, w)
                    else case U chunkEnd w of (nw, ew, w1) \<Rightarrow> Some (ew, r2, w1)
              else Option.bind (copyN R U (go_int (int (length s) + sz + 2)) rdSize r1 w)
                (\<lambda>(e3, r3, w3). if e3 \<noteq> None then Some (e3, r3, w3) else rec R U rdSize r3 w3)) = Some y"
      and U: "U = W" and x: "a x = w"
    obtain s e r1 where pk: "PeekSlice R LF r = (s, e, r1)" by (metis prod_cases3)
    obtain nw ew x1 where wr: "W' chunkEnd x = (nw, ew, x1)" by (metis prod_cases3)
    note wr' = Write_refines [OF wr]
    show "\<exists>y'. sendBodyChunked R W' rdSize r x = Some y' \<and> lift y' = y"
    proof (cases "e = None \<and> (\<exists>sz. chunk_size s = Inr sz \<and> sz \<noteq> 0)")
      case True
      then obtain sz where sz: "e = None" "chunk_size s = Inr sz" "sz \<noteq> 0" by blast
      then obtain e3 r3 x3 where cp: "copyN R W' (go_int (int (length s) + sz + 2)) rdSize r1 x = Some (e3, r3, x3)"
          "(if e3 \<noteq> None then Some (e3, r3, a x3) else rec R W rdSize r3 (a x3)) = Some y"
        using step unfolding U by (auto simp: pk x [symmetric] bind_eq_Some_conv copyN_refines lift_def)
      then show ?thesis
        using sz IH [of R W rdSize r3 "a x3" y]
        by (subst sendBodyChunked.simps) (auto simp: pk lift_def split: if_splits)
    next
      case False
      then show ?thesis
        using step unfolding U x [symmetric] sendBodyChunked.simps [of R W' rdSize r x] pk wr wr' prod.case
        by (auto simp: lift_def split: if_splits sum.splits option.splits)
    qed
  qed
  then show ?thesis using x by simp
qed

text \<open>One round of \<open>sendBodySplitIntoChunk\<close>: three writes, up to the first that fails.\<close>

definition split_round :: "'s writer \<Rightarrow> bytes \<Rightarrow> 's \<Rightarrow> err option \<times> 's" where
  "split_round U b w =
     (case U (nat_digits 16 (length b) @ CRLF) w of (n1, e1, w1) \<Rightarrow>
        if e1 \<noteq> None then (e1, w1)
        else (case U b w1 of (n2, e2, w2) \<Rightarrow>
          if e2 \<noteq> None then (e2, w2)
          else (case U CRLF w2 of (n3, e3, w3) \<Rightarrow> (e3, w3))))"

lemma split_round_refines: "split_round W' b x = (e, x1) \<Longrightarrow> split_round W b (a x) = (e, a x1)"
  by (auto simp: split_round_def Write_abs split: prod.splits if_splits)

lemma split_step:
  "(case ReadNext R r of (b, e, r1) \<Rightarrow>
      if e = Some EOF then (case U chunkEnd w of (nw, ew, w1) \<Rightarrow> Some (ew, r1, w1))
      else if e \<noteq> None then Some (e, r1, w)
      else case U (nat_digits 16 (length b) @ CRLF) w of (n1, e1, w1) \<Rightarrow>
        if e1 \<noteq> None then Some (e1, r1, w1)
        else case U b w1 of (n2, e2, w2) \<Rightarrow>
          if e2 \<noteq> None then Some (e2, r1, w2)
          else case U CRLF w2 of (n3, e3, w3) \<Rightarrow> if e3 \<noteq> None then Some (e3, r1, w3) else rec R U r1 w3) =
   (case ReadNext R r of (b, e, r1) \<Rightarrow>
      if e = Some EOF then (case U chunkEnd w of (nw, ew, w1) \<Rightarrow> Some (ew, r1, w1))
      else if e \<noteq> None then Some (e, r1, w)
      else case split_round U b w of (e3, w3) \<Rightarrow> if e3 \<noteq> None then Some (e3, r1, w3) else rec R U r1 w3)"
  by (simp add: split_round_def split: prod.split)

lemmas split_simps = sendBodySplitIntoChunk.simps [unfolded split_step [where rec = sendBodySplitIntoChunk]]

lemma sendBodySplitIntoChunk_abs:
  "sendBodySplitIntoChunk R W' r x = Some y \<Longrightarrow> sendBodySplitIntoChunk R W r (a x) = Some (lift y)"
proof -
  assume call: "sendBodySplitIntoChunk R W' r x = Some y"
  have "W' = W' \<longrightarrow> sendBodySplitIntoChunk R W r (a x) = Some (lift y)"
  proof (rule sendBodySplitIntoChunk.raw_induct [OF _ call, where
        P = "\<lambda>R U r x y. U = W' \<longrightarrow> sendBodySplitIntoChunk R W r (a x) = Some (lift y)"], intro impI)
    fix rec R U r x y
    assume IH: "\<And>R U r x y. rec R U r x = Some y \<Longrightarrow> U = W' \<longrightarrow> sendBodySplitIntoChunk R W r (a x) = Some (lift y)"
      and step: "(case ReadNext R r of (b, e, r1) \<Rightarrow>
        if e = Some EOF then (case U chunkEnd x of (nw, ew, w1) \<Rightarrow> Some (ew, r1, w1))
        else if e \<noteq> None then Some (e, r1, x)
        else case U (nat_digits 16 (length b) @ CRLF) x of (n1, e1, w1) \<Rightarrow>
          if e1 \<noteq> None then Some (e1, r1, w1)
          else case U b w1 of (n2, e2, w2) \<Rightarrow>
            if e2 \<noteq> None then Some (e2, r1, w2)
            else case U CRLF w2 of (n3, e3, w3) \<Rightarrow> if e3 \<noteq> None then Some (e3, r1, w3) else rec R U r1 w3) = Some y"
      and U: "U = W'"
    obtain b e r1 where rd: "ReadNext R r = (b, e, r1)" by (metis prod_cases3)
    obtain nw ew x1 where wr: "W' chunkEnd x = (nw, ew, x1)" by (metis prod_cases3)
    obtain e3 x3 where rs: "split_round W' b x = (e3, x3)" by fastforce
    show "sendBodySplitIntoChunk R W r (a x) = Some (lift y)"
      using step [unfolded split_step [where rec = rec]] IH [of R W' r1 x3 y]
      unfolding U split_simps [of R W r "a x"] rd wr rs prod.case
        Write_refines [OF wr] split_round_refines [OF rs]
      by (auto simp: lift_def split: if_splits)
  qed
  then show ?thesis by simp
qed

lemma sendBodySplitIntoChunk_conc:
  "sendBodySplitIntoChunk R W r w = Some y \<Longrightarrow> a x = w \<Longrightarrow> \<exists>y'. sendBodySplitIntoChunk R W' r x = Some y' \<and> lift y' = y"
proof -
  assume call: "sendBodySplitIntoChunk R W r w = Some y" and x: "a x = w"
  have "W = W \<longrightarrow> (\<forall>x. a x = w \<longrightarrow> (\<exists>y'. sendBodySplitIntoChunk R W' r x = Some y' \<and> lift y' = y))"
  proof (rule sendBodySplitIntoChunk.raw_induct [OF _ call, where
        P = "\<lambda>R U r w y. U = W \<longrightarrow> (\<forall>x. a x = w \<longrightarrow> (\<exists>y'. sendBodySplitIntoChunk R W' r x = Some y' \<and> lift y' = y))"],
        intro impI allI)
    fix rec R U r w y x
    assume IH: "\<And>R U r w y. rec R U r w = Some y \<Longrightarrow>
        U = W \<longrightarrow> (\<forall>x. a x = w \<longrightarrow> (\<exists>y'. sendBodySplitIntoChunk R W' r x = Some y' \<and> lift y' = y))"
      and step: "(case ReadNext R r of (b, e, r1) \<Rightarrow>
        if e = Some EOF then (case U chunkEnd w of (nw, ew, w1) \<Rightarrow> Some (ew, r1, w1))
        else if e \<noteq> None then Some (e, r1, w)
        else case U (nat_digits 16 (length b) @ CRLF) w of (n1, e1, w1) \<Rightarrow>
          if e1 \<noteq> None then Some (e1, r1, w1)
          else case U b w1 of (n2, e2, w2) \<Rightarrow>
            if e2 \<noteq> None then Some (e2, r1, w2)
            else case U CRLF w2 of (n3, e3, w3) \<Rightarrow> if e3 \<noteq> None then Some (e3, r1, w3) else rec R U r1 w3) = Some y"
      and U: "U = W" and x: "a x = w"
    obtain b e r1 where rd: "ReadNext R r = (b, e, r1)" by (metis prod_cases3)
    obtain nw ew x1 where wr: "W' chunkEnd x = (nw, ew, x1)" by (metis prod_cases3)
    obtain e3 x3 where rs: "split_round W' b x = (e3, x3)" by fastforce
    show "\<exists>y'. sendBodySplitIntoChunk R W' r x = Some y' \<and> lift y' = y"
      using step [unfolded split_step [where rec = rec]] IH [of R W r1 "a x3" y]
      unfolding U x [symmetric] split_simps [of R W' r x] rd wr rs prod.case
        Write_refines [OF wr] split_round_refines [OF rs]
      by (auto simp: lift_def split: if_splits)
  qed
  then show ?thesis using x by simp
qed

lemma refines_of_abs_conc:
  assumes "\<And>y. g x = Some y \<Longrightarrow> f (a x) = Some (lift y)" "\<And>y. f (a x) = Some y \<Longrightarrow> \<exists>y'. g x = Some y'"
  shows "f (a x) = map_option lift (g x)"
proof (cases "g x")
  case None
  then show ?thesis using assms(2) by (cases "f (a x)") auto
next
  case (Some y)
  then show ?thesis using assms(1) by simp
qed

lemma sendBody_refines: "sendBody R W contLen ch r (a x) = map_option lift (sendBody R W' contLen ch r x)"
proof -
  have "sendBodyChunked R W s r (a x) = map_option lift (sendBodyChunked R W' s r x)" for s
    by (rule refines_of_abs_conc) (erule sendBodyChunked_abs, drule sendBodyChunked_conc [OF _ refl], blast)
  moreover have "sendBodySplitIntoChunk R W r (a x) = map_option lift (sendBodySplitIntoChunk R W' r x)"
    by (rule refines_of_abs_conc) (erule sendBodySplitIntoChunk_abs, drule sendBodySplitIntoChunk_conc [OF _ refl], blast)
  ultimately show ?thesis
    by (simp add: sendBody_def sendBodyWithContLen_def copyN_refines lift_def)
qed

end

section \<open>Recording writers\<close>

text \<open>A writer that never fails and always takes all it is given.\<close>

definition silent :: "'v writer \<Rightarrow> bool" where
  "silent V \<longleftrightarrow> (\<forall>p v. fst (V p v) = int (length p) \<and> fst (snd (V p v)) = None)"

lemma silent_capture [simp]: "silent (captureBody_Write V now)"
  by (auto simp: silent_def captureBody_Write_def captureRawWriter_def split: prod.split)

lemma silent_chunk [simp]: "silent (captureChunkWriter now label)"
  by (simp add: silent_def captureChunkWriter_def)

lemma silent_plugin [simp]: "silent pluginBody_Write"
  by (simp add: silent_def pluginBody_Write_def)

lemma MultiWriter_silent:
  assumes "silent V" "io_writer W written"
  shows "MultiWriter W V p (w, v) =
    (case W p w of (n, e, w1) \<Rightarrow> (n, e, (w1, if e = None then snd (snd (V p v)) else v)))"
proof -
  obtain n e w1 where W: "W p w = (n, e, w1)" by (metis prod_cases3)
  obtain n2 e2 v1 where V: "V p v = (n2, e2, v1)" by (metis prod_cases3)
  have "n2 = int (length p)" "e2 = None" using assms(1) V unfolding silent_def by (metis fst_conv snd_conv)+
  moreover have "e = None \<Longrightarrow> n = int (length p)" using io_writer.Write_ok [OF assms(2)] W by blast
  ultimately show ?thesis by (simp add: MultiWriter_def W V)
qed

lemma MultiWriter_io_writer:
  assumes "silent V" "io_writer W written"
  shows "io_writer (MultiWriter W V) (written \<circ> fst)"
  using io_writer.Write_ok [OF assms(2)] io_writer.Write_prefix [OF assms(2)] MultiWriter_silent [OF assms]
  by unfold_locales (auto split: prod.splits)

lemma MultiWriter_refines:
  assumes "silent V" "io_writer W written"
  shows "writer_refines (MultiWriter W V) W fst"
  using MultiWriter_silent [OF assms] by unfold_locales (auto split: prod.splits)

interpretation capturing: writer_refines "MultiWriter (limited_write lim e) (captureBody_Write V now)" "limited_write lim e" fst
  for lim e V now
  by (rule MultiWriter_refines [OF silent_capture limited.io_writer_axioms])

interpretation plugging: writer_refines "MultiWriter (limited_write lim e) pluginBody_Write" "limited_write lim e" fst for lim e
  by (rule MultiWriter_refines [OF silent_plugin limited.io_writer_axioms])

text \<open>
  C15: Recording does not change what is forwarded. Sending a body through the connection, the log and the plugin is, for the
  connection and for the reader, sending it through the connection alone: the same bytes go out, the same are read, the same
  error or none is reported, and one returns just when the other does.
\<close>
theorem recording_transparent:
  assumes "io_writer W written"
  shows "map_option (\<lambda>(e, r', ((w', c'), b')). (e, r', w'))
      (sendBody R (MultiWriter (MultiWriter W (captureBody_Write V now)) pluginBody_Write) contLen ch r ((w, c), b)) =
    sendBody R W contLen ch r w"
proof -
  let ?C = "MultiWriter W (captureBody_Write V now)"
  have C: "io_writer ?C (written \<circ> fst)" by (rule MultiWriter_io_writer [OF silent_capture assms])
  have 1: "writer_refines ?C W fst" and 2: "writer_refines (MultiWriter ?C pluginBody_Write) ?C fst"
    by (rule MultiWriter_refines [OF silent_capture assms]) (rule MultiWriter_refines [OF silent_plugin C])
  have "sendBody R W contLen ch r w = map_option (writer_refines.lift fst) (sendBody R ?C contLen ch r (w, c))"
    using writer_refines.sendBody_refines [OF 1, of R contLen ch r "(w, c)"] by simp
  also have "sendBody R ?C contLen ch r (w, c) =
      map_option (writer_refines.lift fst) (sendBody R (MultiWriter ?C pluginBody_Write) contLen ch r ((w, c), b))"
    using writer_refines.sendBody_refines [OF 2, of R contLen ch r "((w, c), b)"] by simp
  finally have "sendBody R W contLen ch r w = map_option (\<lambda>x. (fst x, fst (snd x), fst (fst (snd (snd x)))))
      (sendBody R (MultiWriter ?C pluginBody_Write) contLen ch r ((w, c), b))"
    by (simp add: option.map_comp comp_def writer_refines.lift_def [OF 1] writer_refines.lift_def [OF 2])
  then show ?thesis by (simp add: case_prod_beta')
qed

section \<open>What is recorded\<close>

text \<open>The state of a recording while the bytes \<open>x\<close> have gone out; \<open>s0\<close> is a body writer that has not started.\<close>

definition log_of :: "captureBodyWriter \<times> trafficCapture \<Rightarrow> bytes \<Rightarrow> bytes \<Rightarrow> bytes \<Rightarrow> captureBodyWriter \<times> trafficCapture \<Rightarrow> bool" where
  "log_of s0 f now x s \<longleftrightarrow>
     x = [] \<and> s = s0 \<or> logged (f @ section_text now (bw_label (fst s0)) (encoding_text (bw_binary (fst s)))) x s"

definition plugin_body :: "bytes \<Rightarrow> pluginBody" where
  "plugin_body x = (if length x \<le> pluginBodyLimit then \<lparr>pb_data = x, pb_tooLarge = False\<rparr> else \<lparr>pb_data = [], pb_tooLarge = True\<rparr>)"

lemma plugin_body_Write: "snd (snd (pluginBody_Write p (plugin_body x))) = plugin_body (x @ p)"
  by (simp add: pluginBody_Write_def plugin_body_def)

lemma log_of_Write:
  assumes "log_of s0 f now x s"
    and s0: "tc_file (snd s0) = Some f" "\<not> bw_started (fst s0)" "\<not> bw_closed (fst s0)" "bw_encoder (fst s0) = None"
  shows "log_of s0 f now (x @ p) (snd (snd (captureBody_Write V now p s)))"
proof -
  obtain t where t: "logged (f @ section_text now (bw_label (fst s0)) (encoding_text (bw_binary (fst t)))) x t"
    "captureBody_Write V now p s = captureBody_Write V now p t"
  proof (cases "x = [] \<and> s = s0")
    case True
    obtain w c where wc: "s0 = (w, c)" by fastforce
    have "captureBody_Write V now p s = captureBody_Write V now p (start_body V now p s)"
      unfolding captureBody_Write_def start_body_idem by (rule refl)
    moreover have "logged (f @ section_text now (bw_label (fst s0)) (encoding_text (bw_binary (fst (start_body V now p s0))))) []
        (start_body V now p s0)"
      using start_body_logged [of c f w now V p] s0 wc by auto
    ultimately show thesis using that [of "start_body V now p s0"] True by simp
  next
    case False
    then show thesis using that [of s] assms(1) by (auto simp: log_of_def)
  qed
  from captureBody_Write_logged [OF t(1), of V now p] show ?thesis
    using t(2) by (auto simp: log_of_def)
qed

text \<open>
  What is recorded is what was sent. When a body went out without an error, the log, once closed, holds exactly the bytes
  written to the connection, as text or in base64, and the plugin has exactly these bytes or knows that they are too many.
\<close>
theorem recorded_body_is_sent:
  assumes "io_writer W written" "tc_file c = Some f"
    and sent: "sendBody R (MultiWriter (MultiWriter W (captureBody_Write V now)) pluginBody_Write) contLen ch r
      ((w, (bodyWriter V label h, c)), plugin_body []) = Some (None, r', ((w', s'), b'))"
  shows "\<exists>x. written w' = written w @ x \<and> b' = plugin_body x \<and>
    (x = [] \<or>
     tc_file (snd (captureBody_Close s')) = Some (f @ section_text now label (encoding_text (bw_binary (fst s'))) @
       (if bw_binary (fst s') then b64_encode x else x) @ [LF]))"
proof -
  let ?C = "MultiWriter W (captureBody_Write V now)" and ?s0 = "(bodyWriter V label h, c)"
  let ?I = "\<lambda>((u, s), b). \<exists>x. written u = written w @ x \<and> log_of ?s0 f now x s \<and> b = plugin_body x"
  have C: "io_writer ?C (written \<circ> fst)" by (rule MultiWriter_io_writer [OF silent_capture assms(1)])
  have s0: "tc_file (snd ?s0) = Some f" "\<not> bw_started (fst ?s0)" "\<not> bw_closed (fst ?s0)" "bw_encoder (fst ?s0) = None"
      "bw_label (fst ?s0) = label"
    using assms(2) by (simp_all add: bodyWriter_def split: prod.split)
  have rule: "writer_rule (MultiWriter ?C pluginBody_Write) ?I (\<lambda>_. True)"
  proof
    fix p n y y'
    assume I: "?I y" and wr: "MultiWriter ?C pluginBody_Write p y = (n, None, y')"
    obtain u s b where y: "y = ((u, s), b)" by (metis prod.exhaust)
    obtain x where x: "written u = written w @ x" "log_of ?s0 f now x s" "b = plugin_body x" using I y by auto
    obtain u1 where u1: "W p u = (n, None, u1)" "y' = ((u1, snd (snd (captureBody_Write V now p s))), snd (snd (pluginBody_Write p b)))"
      using wr unfolding y MultiWriter_silent [OF silent_plugin C] MultiWriter_silent [OF silent_capture assms(1)]
      by (auto split: prod.splits)
    show "?I y'"
      using x u1 io_writer.Write_ok [OF assms(1) u1(1)] log_of_Write [OF x(2) s0(1-4)] plugin_body_Write
      by (auto intro!: exI [of _ "x @ p"])
  qed simp
  have "?I ((w, ?s0), plugin_body [])" by (auto simp: log_of_def)
  then have "?I ((w', s'), b')"
    using writer_rule.sendBody_after [OF rule sent] writer_rule.after_def [OF rule] by simp
  then obtain x where x: "written w' = written w @ x" "log_of ?s0 f now x s'" "b' = plugin_body x" by auto
  then show ?thesis
    using captureBody_Close_logged [of _ x s'] s0(5) by (intro exI [of _ x]) (auto simp: log_of_def)
qed

definition ex_log :: trafficCapture where
  "ex_log = \<lparr>tc_path = [], tc_file = Some []\<rparr>"

theorem recording_transparent_witness:
  "map_option (\<lambda>(e, r', ((w', c'), b')). (e, r', w'))
     (sendBody (mem_reader httpBufSize)
        (MultiWriter (MultiWriter (limited_write 3 EOF) (captureBody_Write ex_capture_env ''t'')) pluginBody_Write) 5 False
        (mem_open [''hello''] EOF) (([], (bodyWriter ex_capture_env ''body'' zeroHeader, ex_log)), plugin_body [])) =
   sendBody (mem_reader httpBufSize) (limited_write 3 EOF) 5 False (mem_open [''hello''] EOF) []"
  by (rule recording_transparent [OF limited.io_writer_axioms])

text \<open>A body of two bytes, recorded without an error.\<close>

lemma ex_recorded:
  defines "U \<equiv> MultiWriter (MultiWriter buffer_write (captureBody_Write ex_capture_env ''t'')) pluginBody_Write"
  shows "\<exists>r' w' s' b'. sendBody (mem_reader httpBufSize) U 2 False (mem_open [''ab''] EOF)
     (([], (bodyWriter ex_capture_env ''body'' zeroHeader, ex_log)), plugin_body []) = Some (None, r', ((w', s'), b')) \<and> w' = ''ab''"
proof -
  let ?C = "MultiWriter buffer_write (captureBody_Write ex_capture_env ''t'')"
  have C: "io_writer ?C ((\<lambda>w. w) \<circ> fst)" by (rule MultiWriter_io_writer [OF silent_capture buffer.io_writer_axioms])
  have U: "io_writer U (((\<lambda>w. w) \<circ> fst) \<circ> fst)" unfolding U_def by (rule MultiWriter_io_writer [OF silent_plugin C])
  have ok: "fst (snd (U p x)) = None" for p x
    unfolding U_def by (cases x; cases "fst x")
      (simp add: MultiWriter_silent [OF silent_plugin C] MultiWriter_silent [OF silent_capture buffer.io_writer_axioms] buffer_write_def)
  have io: "body_io (mem_reader httpBufSize) httpBufSize mem_str mr_err U (((\<lambda>w. w) \<circ> fst) \<circ> fst)"
    using mem.bufio_reader_axioms U by (rule body_io.intro)
  let ?x = "(([], (bodyWriter ex_capture_env ''body'' zeroHeader, ex_log)), plugin_body [])"
  obtain e r' y where y: "copyN (mem_reader httpBufSize) U 2 (int httpBufSize) (mem_open [''ab''] EOF) ?x = Some (e, r', y)"
      "body_io.copyN_post mem_str mr_err U (((\<lambda>w. w) \<circ> fst) \<circ> fst) 2 (mem_open [''ab''] EOF) ?x e r' y"
    using body_io.copyN_returns [OF io, of "int httpBufSize" 2 "mem_open [''ab''] EOF" ?x] by (auto simp: httpBufSize_def)
  then have "e = None" "fst (fst y) = ''ab''"
    using ok unfolding body_io.copyN_post_def [OF io] by (auto simp: mem_str_def mem_open_def numeral_2_eq_2)
  then show ?thesis using y(1) by (cases y) (auto simp: sendBody_def sendBodyWithContLen_def)
qed

theorem recorded_body_is_sent_witness:
  "\<exists>r' w' s' b'. sendBody (mem_reader httpBufSize)
      (MultiWriter (MultiWriter buffer_write (captureBody_Write ex_capture_env ''t'')) pluginBody_Write) 2 False
      (mem_open [''ab''] EOF) (([], (bodyWriter ex_capture_env ''body'' zeroHeader, ex_log)), plugin_body []) =
      Some (None, r', ((w', s'), b')) \<and>
    tc_file (snd (captureBody_Close s')) = Some (section_text ''t'' ''body'' (encoding_text (bw_binary (fst s'))) @
     (if bw_binary (fst s') then b64_encode ''ab'' else ''ab'') @ [LF])"
proof -
  obtain r' w' s' b' where s': "sendBody (mem_reader httpBufSize)
      (MultiWriter (MultiWriter buffer_write (captureBody_Write ex_capture_env ''t'')) pluginBody_Write) 2 False
      (mem_open [''ab''] EOF) (([], (bodyWriter ex_capture_env ''body'' zeroHeader, ex_log)), plugin_body []) =
      Some (None, r', ((w', s'), b'))" "w' = ''ab''"
    using ex_recorded by blast
  have "tc_file ex_log = Some []" by (simp add: ex_log_def)
  from recorded_body_is_sent [OF buffer.io_writer_axioms this s'(1)] s'(2)
  have "tc_file (snd (captureBody_Close s')) = Some (section_text ''t'' ''body'' (encoding_text (bw_binary (fst s'))) @
     (if bw_binary (fst s') then b64_encode ''ab'' else ''ab'') @ [LF])" by auto
  with s'(1) show ?thesis by blast
qed

end
