(* ===== verification/Tls_Hello.thy ===== *)
theory Tls_Hello
  imports Socks_Correct
begin

text \<open>
  capture.go: recognising HTTP inside a tunnel from the first bytes of the client, a TLS hello or a request line. Every
  index and slice of \<open>clientHelloHasHTTPALPN\<close> is checked as Go checks it: out of range is a panic.
\<close>

section \<open>The hello of TLS\<close>

definition mp_bind :: "'a may_panic \<Rightarrow> ('a \<Rightarrow> 'b may_panic) \<Rightarrow> 'b may_panic" where
  "mp_bind m f = (case m of Inl p \<Rightarrow> Inl p | Inr x \<Rightarrow> f x)"

lemma mp_bind_Inr [simp]: "mp_bind (Inr x) f = f x"
  by (simp add: mp_bind_def)

definition byte_at :: "bytes \<Rightarrow> nat \<Rightarrow> nat may_panic" where
  "byte_at p i = (if i < length p then Inr (byte_val (p ! i)) else Inl ''index out of range'')"

definition uint16_at :: "bytes \<Rightarrow> nat \<Rightarrow> nat may_panic" where
  "uint16_at p a = mp_bind (slice_of p a (a + 2)) (\<lambda>b. Inr (unat (be_Uint16 b)))"

lemma byte_at_ok [simp]: "i < length p \<Longrightarrow> byte_at p i = Inr (byte_val (p ! i))"
  by (simp add: byte_at_def)

lemma uint16_at_ok: "a + 2 \<le> length p \<Longrightarrow> uint16_at p a = Inr (unat (be_Uint16 (take 2 (drop a p))))"
  by (simp add: uint16_at_def)

text \<open>
  The loop over the protocols of an extension; \<open>Some b\<close> is a return of \<open>b\<close>, \<open>None\<close> the regular end of the loop.
\<close>

function alpn_protocols :: "bytes \<Rightarrow> bool option may_panic" where
  "alpn_protocols protocols =
     (if protocols = [] then Inr None
      else
        (case byte_at protocols 0 of
           Inl p \<Rightarrow> Inl p
         | Inr n \<Rightarrow>
             (if n + 1 > length protocols then Inr (Some False)
              else
                (case slice_of protocols 1 (n + 1) of
                   Inl p \<Rightarrow> Inl p
                 | Inr protocol \<Rightarrow>
                     (if protocol = ''h2'' \<or> protocol = ''http/1.1'' then Inr (Some True)
                      else
                        (case slice_of protocols (n + 1) (length protocols) of
                           Inl p \<Rightarrow> Inl p
                         | Inr rest \<Rightarrow> alpn_protocols rest))))))"
  by pat_completeness auto
termination
  by (relation "measure length") (auto simp: slice_of_def split: if_splits)

declare alpn_protocols.simps [simp del]

function extensions_loop :: "bytes \<Rightarrow> nat \<Rightarrow> nat \<Rightarrow> bool may_panic" where
  "extensions_loop hello pos extensionsEnd =
     (if pos + 4 \<le> extensionsEnd then
        (case (uint16_at hello pos, uint16_at hello (pos + 2)) of
           (Inr typeID, Inr sz) \<Rightarrow>
             (let pos1 = pos + 4 in
              if pos1 + sz > extensionsEnd then Inr False
              else if typeID = 16 \<and> sz \<ge> 2 then
                (case slice_of hello (pos1 + 2) (pos1 + sz) of
                   Inl p \<Rightarrow> Inl p
                 | Inr protocols \<Rightarrow>
                     (case alpn_protocols protocols of
                        Inl p \<Rightarrow> Inl p
                      | Inr (Some b) \<Rightarrow> Inr b
                      | Inr None \<Rightarrow> extensions_loop hello (pos1 + sz) extensionsEnd))
              else extensions_loop hello (pos1 + sz) extensionsEnd)
         | (Inl p, _) \<Rightarrow> Inl p
         | (_, Inl p) \<Rightarrow> Inl p)
      else Inr False)"
  by pat_completeness auto
termination
  by (relation "measure (\<lambda>(hello, pos, e). e - pos)") auto

declare extensions_loop.simps [simp del]

definition clientHelloHasHTTPALPN :: "bytes \<Rightarrow> bool may_panic" where
  "clientHelloHasHTTPALPN hello =
     (if length hello < 39 then Inr False
      else
        mp_bind (byte_at hello 0) (\<lambda>b0. if b0 \<noteq> 1 then Inr False else
        mp_bind (byte_at hello 1) (\<lambda>b1. mp_bind (byte_at hello 2) (\<lambda>b2. mp_bind (byte_at hello 3) (\<lambda>b3.
        (let handshakeLen = b1 * 2 ^ 16 + b2 * 2 ^ 8 + b3 in
         if handshakeLen + 4 > length hello then Inr False
         else if 38 + 1 > length hello then Inr False else
         mp_bind (byte_at hello 38) (\<lambda>n. let pos = 38 + 1 + n in
         if pos + 2 > length hello then Inr False else
         mp_bind (uint16_at hello pos) (\<lambda>n. let pos = pos + 2 + n in
         if pos + 1 > length hello then Inr False else
         mp_bind (byte_at hello pos) (\<lambda>n. let pos = pos + 1 + n in
         if pos + 2 > length hello then Inr False else
         mp_bind (uint16_at hello pos) (\<lambda>n. let extensionsEnd = pos + 2 + n in
         if extensionsEnd > length hello then Inr False else extensions_loop hello (pos + 2) extensionsEnd))))))))))"

section \<open>No index is out of range\<close>

lemma alpn_protocols_total: "alpn_protocols protocols \<noteq> Inl m"
proof (induction protocols rule: alpn_protocols.induct)
  case (1 protocols)
  show ?case
  proof (cases "protocols = [] \<or> byte_val (protocols ! 0) + 1 > length protocols")
    case True
    then show ?thesis by (subst alpn_protocols.simps) auto
  next
    case False
    let ?n = "byte_val (protocols ! 0)"
    have "slice_of protocols (?n + 1) (length protocols) = Inr (drop (?n + 1) protocols)"
      "slice_of protocols 1 (?n + 1) = Inr (take ?n (drop 1 protocols))" "byte_at protocols 0 = Inr ?n"
      using False by (simp_all add: slice_of_def)
    then show ?thesis
      using "1.IH" [of ?n "take ?n (drop 1 protocols)" "drop (?n + 1) protocols"] False
      by (subst alpn_protocols.simps) auto
  qed
qed

lemma extensions_loop_total: "e \<le> length hello \<Longrightarrow> extensions_loop hello pos e \<noteq> Inl m"
proof (induction "e - pos" arbitrary: pos rule: less_induct)
  case less
  show ?case
  proof (cases "pos + 4 \<le> e")
    case True
    then obtain t n where tn: "uint16_at hello pos = Inr t" "uint16_at hello (pos + 2) = Inr n"
      using less.prems by (simp add: uint16_at_ok)
    have "extensions_loop hello (pos + 4 + n) e \<noteq> Inl m"
      using less True by simp
    then show ?thesis
      using less.prems True tn alpn_protocols_total
      by (subst extensions_loop.simps) (auto simp: Let_def split: option.split sum.split)
  qed (subst extensions_loop.simps, simp)
qed

lemma byte_at_39:
  assumes "\<not> length p < 39"
  shows "byte_at p 0 = Inr (byte_val (p ! 0))" "byte_at p 1 = Inr (byte_val (p ! 1))" "byte_at p 2 = Inr (byte_val (p ! 2))"
    "byte_at p 3 = Inr (byte_val (p ! 3))" "byte_at p 38 = Inr (byte_val (p ! 38))"
  using assms by (auto simp: byte_at_def)

lemma clientHello_no_panic: "clientHelloHasHTTPALPN hello \<noteq> Inl m"
  by (simp add: clientHelloHasHTTPALPN_def byte_at_39 uint16_at_ok Let_def extensions_loop_total)

text \<open>
  Whatever bytes a client sends as its hello, the search for the protocols in it ends with an answer: it never indexes
  or slices the record out of range.
\<close>
theorem clientHello_total: "\<exists>b. clientHelloHasHTTPALPN hello = Inr b"
  using clientHello_no_panic by (metis sum.exhaust)

section \<open>What a hello offers\<close>

text \<open>A hello as RFC 8446 and RFC 7301 lay it out.\<close>

datatype hello_ext = ALPN "bytes list" | Extension "16 word" bytes

record client_hello =
  ch_version :: bytes
  ch_random :: bytes
  ch_session :: bytes
  ch_ciphers :: bytes
  ch_compressions :: bytes
  ch_extensions :: "hello_ext list"

definition len8 :: "bytes \<Rightarrow> bytes" where
  "len8 b = char_of (length b) # b"

definition len16 :: "bytes \<Rightarrow> bytes" where
  "len16 b = be_PutUint16 (of_nat (length b)) @ b"

definition len24 :: "bytes \<Rightarrow> bytes" where
  "len24 b = [char_of (length b div 65536), char_of (length b div 256 mod 256), char_of (length b mod 256)] @ b"

definition name_list :: "bytes list \<Rightarrow> bytes" where
  "name_list ps = concat (map len8 ps)"

fun ext_type :: "hello_ext \<Rightarrow> 16 word" where
  "ext_type (ALPN ps) = 16"
| "ext_type (Extension t d) = t"

fun ext_data :: "hello_ext \<Rightarrow> bytes" where
  "ext_data (ALPN ps) = len16 (name_list ps)"
| "ext_data (Extension t d) = d"

definition ext_bytes :: "hello_ext \<Rightarrow> bytes" where
  "ext_bytes x = be_PutUint16 (ext_type x) @ len16 (ext_data x)"

definition hello_bytes :: "client_hello \<Rightarrow> bytes" where
  "hello_bytes h = CHR 0x01 # len24 (ch_version h @ ch_random h @ len8 (ch_session h) @ len16 (ch_ciphers h) @
     len8 (ch_compressions h) @ len16 (concat (map ext_bytes (ch_extensions h))))"

fun ext_ok :: "hello_ext \<Rightarrow> bool" where
  "ext_ok (ALPN ps) \<longleftrightarrow> (\<forall>p \<in> set ps. length p < 256) \<and> length (name_list ps) + 2 < 2 ^ 16"
| "ext_ok (Extension t d) \<longleftrightarrow> t \<noteq> 16 \<and> length d < 2 ^ 16"

definition hello_ok :: "client_hello \<Rightarrow> bool" where
  "hello_ok h \<longleftrightarrow> length (ch_version h) = 2 \<and> length (ch_random h) = 32 \<and> length (ch_session h) < 256 \<and>
     length (ch_ciphers h) < 2 ^ 16 \<and> length (ch_compressions h) < 256 \<and>
     list_all ext_ok (ch_extensions h) \<and> length (concat (map ext_bytes (ch_extensions h))) < 2 ^ 16"

fun offers_http :: "hello_ext \<Rightarrow> bool" where
  "offers_http (ALPN ps) \<longleftrightarrow> ''h2'' \<in> set ps \<or> ''http/1.1'' \<in> set ps"
| "offers_http (Extension t d) \<longleftrightarrow> False"

lemma byte_val_char_of [simp]: "n < 256 \<Longrightarrow> byte_val (char_of n) = n"
  by (simp add: of_char_of)

lemma unat_length16 [simp]: "length b < 2 ^ 16 \<Longrightarrow> unat (word_of_nat (length b) :: 16 word) = length b"
  by (simp add: unsigned_of_nat take_bit_eq_mod)

lemma uint16_at_put: "uint16_at (pre @ be_PutUint16 v @ post) (length pre) = Inr (unat v)"
  by (simp add: uint16_at_ok length_be_Put)

lemma alpn_protocols_names:
  "\<forall>p \<in> set ps. length p < 256 \<Longrightarrow>
     alpn_protocols (name_list ps) = Inr (if ''h2'' \<in> set ps \<or> ''http/1.1'' \<in> set ps then Some True else None)"
proof (induction ps)
  case Nil
  then show ?case by (simp add: name_list_def alpn_protocols.simps)
next
  case (Cons p ps)
  have nl: "name_list (p # ps) = char_of (length p) # p @ name_list ps" by (simp add: name_list_def len8_def)
  have "slice_of (name_list (p # ps)) 1 (length p + 1) = Inr p"
    "slice_of (name_list (p # ps)) (length p + 1) (length (name_list (p # ps))) = Inr (name_list ps)"
    "byte_at (name_list (p # ps)) 0 = Inr (length p)"
    using Cons.prems by (simp_all add: slice_of_def byte_at_def nl del: of_char_of)
  then show ?case
    using Cons by (subst alpn_protocols.simps) (auto simp: nl)
qed

lemma length_ext_data: "ext_ok x \<Longrightarrow> length (ext_data x) < 2 ^ 16"
  by (cases x) (simp_all add: len16_def)

lemma ext_bytes_form:
  assumes "hello = pre @ ext_bytes x @ post" "ext_ok x"
  shows "uint16_at hello (length pre) = Inr (unat (ext_type x))"
    and "uint16_at hello (length pre + 2) = Inr (length (ext_data x))"
    and "drop (length pre + 4) hello = ext_data x @ post"
    and "length hello = length pre + 4 + length (ext_data x) + length post"
proof -
  have h: "hello = pre @ be_PutUint16 (ext_type x) @ be_PutUint16 (of_nat (length (ext_data x))) @ ext_data x @ post"
    using assms(1) by (simp add: ext_bytes_def len16_def)
  show "uint16_at hello (length pre) = Inr (unat (ext_type x))"
    unfolding h by (rule uint16_at_put)
  show "uint16_at hello (length pre + 2) = Inr (length (ext_data x))"
    using uint16_at_put [of "pre @ be_PutUint16 (ext_type x)" "of_nat (length (ext_data x))" "ext_data x @ post"]
      length_ext_data [OF assms(2)] by (simp add: h)
  show "drop (length pre + 4) hello = ext_data x @ post" "length hello = length pre + 4 + length (ext_data x) + length post"
    by (simp_all add: h)
qed

lemma extensions_loop_finds:
  "list_all ext_ok xs \<Longrightarrow>
     extensions_loop (pre @ concat (map ext_bytes xs)) (length pre) (length (pre @ concat (map ext_bytes xs))) =
     Inr (list_ex offers_http xs)"
proof (induction xs arbitrary: pre)
  case Nil
  then show ?case by (simp add: extensions_loop.simps)
next
  case (Cons x xs)
  let ?rest = "concat (map ext_bytes xs)"
  let ?hello = "pre @ ext_bytes x @ ?rest"
  have x: "ext_ok x" using Cons.prems by simp
  note form = ext_bytes_form [OF refl x, of pre ?rest]
  have len: "length (ext_bytes x) = 4 + length (ext_data x)" by (simp add: ext_bytes_def len16_def)
  have loop: "extensions_loop ?hello (length pre + 4 + length (ext_data x)) (length ?hello) = Inr (list_ex offers_http xs)"
    using Cons.IH [of "pre @ ext_bytes x"] Cons.prems by (simp add: len add.assoc)
  have ends: "\<not> length ?hello < length pre + 4 + length (ext_data x)" "length pre + 4 \<le> length ?hello"
    by (simp_all add: len)
  show ?case
  proof (cases x)
    case (ALPN ps)
    have sl: "slice_of ?hello (length pre + 4 + 2) (length pre + 4 + length (ext_data x)) = Inr (name_list ps)"
      using ALPN by (simp add: slice_of_def ext_bytes_def len16_def be_PutUint16_def)
    have names: "alpn_protocols (name_list ps) = Inr (if offers_http x then Some True else None)"
      using alpn_protocols_names [of ps] x ALPN by simp
    have "unat (ext_type x) = 16" "2 \<le> length (ext_data x)" using ALPN by (simp_all add: len16_def)
    then show ?thesis
      using form(1,2) loop ends sl names
      by (simp only: list.map concat.simps list_ex_iff, subst extensions_loop.simps) (simp add: Let_def)
  next
    case (Extension t d)
    then have "unat (ext_type x) \<noteq> 16"
      using x by (auto dest!: arg_cong [where f = "word_of_nat :: nat \<Rightarrow> 16 word"])
    then show ?thesis
      using form(1,2) loop ends Extension
      by (simp only: list.map concat.simps list_ex_iff, subst extensions_loop.simps) (simp add: Let_def)
  qed
qed

lemma len24_value:
  assumes "length b < 2 ^ 24"
  obtains x y z where "len24 b = [x, y, z] @ b" "byte_val x * 2 ^ 16 + byte_val y * 2 ^ 8 + byte_val z = length b"
proof
  have "length b div 65536 < 256" using assms by simp
  moreover have "length b div 65536 * 65536 + length b div 256 mod 256 * 256 + length b mod 256 = length b"
  proof -
    have "length b div 65536 = length b div 256 div 256" by (simp flip: div_mult2_eq)
    then show ?thesis
      using div_mult_mod_eq [of "length b" 256] div_mult_mod_eq [of "length b div 256" 256] by linarith
  qed
  ultimately show "byte_val (char_of (length b div 65536)) * 2 ^ 16 + byte_val (char_of (length b div 256 mod 256)) * 2 ^ 8 +
      byte_val (char_of (length b mod 256)) = length b"
    by simp
qed (simp add: len24_def)

text \<open>
  For a well-formed hello the answer is right: true just when one of its ALPN extensions names h2 or http/1.1.
\<close>
theorem clientHello_finds_http:
  assumes ok: "hello_ok h"
  shows "clientHelloHasHTTPALPN (hello_bytes h) = Inr (list_ex offers_http (ch_extensions h))"
proof -
  define exts where "exts = concat (map ext_bytes (ch_extensions h))"
  define body where "body = ch_version h @ ch_random h @ len8 (ch_session h) @ len16 (ch_ciphers h) @
     len8 (ch_compressions h) @ len16 exts"
  note oks = ok [unfolded hello_ok_def, folded exts_def]
  have "length body < 2 ^ 24" using oks by (simp add: body_def len8_def len16_def)
  then obtain x y z where xyz: "len24 body = [x, y, z] @ body"
    "byte_val x * 2 ^ 16 + byte_val y * 2 ^ 8 + byte_val z = length body" by (rule len24_value)
  define p1 where "p1 = [CHR 0x01, x, y, z] @ ch_version h @ ch_random h"
  define p2 where "p2 = p1 @ len8 (ch_session h)"
  define p3 where "p3 = p2 @ len16 (ch_ciphers h)"
  define p4 where "p4 = p3 @ len8 (ch_compressions h)"
  define hello where "hello = p4 @ len16 exts"
  have hello: "hello_bytes h = hello" "hello = [CHR 0x01, x, y, z] @ body"
    using xyz(1) by (simp_all add: hello_def p4_def p3_def p2_def p1_def hello_bytes_def body_def exts_def)
  have lens: "length p1 = 38" "length p2 = 39 + length (ch_session h)" "length p3 = length p2 + 2 + length (ch_ciphers h)"
    "length p4 = length p3 + 1 + length (ch_compressions h)" "length hello = length p4 + 2 + length exts"
    using oks by (simp_all add: p1_def p2_def p3_def p4_def hello_def len8_def len16_def)
  have bytes: "byte_val (hello ! 38) = length (ch_session h)" "byte_val (hello ! length p3) = length (ch_compressions h)"
    using lens(1) oks by (simp_all add: hello_def p4_def p3_def p2_def len8_def nth_append del: of_char_of)
  have shorts: "uint16_at hello (length p2) = Inr (length (ch_ciphers h))" "uint16_at hello (length p4) = Inr (length exts)"
    using uint16_at_put [of p2 "of_nat (length (ch_ciphers h))" "ch_ciphers h @ len8 (ch_compressions h) @ len16 exts"]
      uint16_at_put [of p4 "of_nat (length exts)" exts] oks
    by (simp_all add: hello_def p4_def p3_def len16_def)
  have loop: "extensions_loop hello (length p4 + 2) (length hello) = Inr (list_ex offers_http (ch_extensions h))"
    using extensions_loop_finds [of "ch_extensions h" "p4 @ be_PutUint16 (of_nat (length exts))"] oks
    by (simp add: hello_def exts_def len16_def)
  have head: "byte_val (hello ! 0) = 1" "hello ! Suc 0 = x" "hello ! 2 = y" "hello ! 3 = z" "length hello = 4 + length body"
    by (simp_all add: hello(2))
  have "\<not> length hello < 39" using lens by simp
  note at39 = byte_at_39 [OF this]
  show ?thesis
    unfolding hello(1) clientHelloHasHTTPALPN_def
    using lens shorts loop bytes xyz(2)
    by (simp add: at39 head Let_def add.assoc)
qed

section \<open>Looking at the first bytes of a client\<close>

definition captureMethods :: "bytes list" where
  "captureMethods = [''GET'', ''HEAD'', ''POST'', ''PUT'', ''PATCH'', ''DELETE'', ''OPTIONS'', ''TRACE'', ''CONNECT'']"

definition isCaptureHTTPMethod :: "bytes \<Rightarrow> bool" where
  "isCaptureHTTPMethod m \<longleftrightarrow> m \<in> set captureMethods"

definition captureLooksLikeHTTP :: "'r Reader \<Rightarrow> char \<Rightarrow> 'r \<Rightarrow> (bool \<times> 'r) may_panic" where
  "captureLooksLikeHTTP R first r =
     (if first \<notin> set ''GPHDOTC'' then Inr (False, r)
      else
        (case Peek R 4 r of
           (_, Some _, r1) \<Rightarrow> Inr (False, r1)
         | (pre, None, r1) \<Rightarrow>
             (if pre = ''GET '' \<or> pre = ''PUT '' then Inr (True, r1)
              else if pre \<notin> set [''POST'', ''PATC'', ''HEAD'', ''DELE'', ''OPTI'', ''TRAC'', ''CONN''] then Inr (False, r1)
              else
                (case PeekSlice R (CHR '' '') r1 of
                   (_, Some _, r2) \<Rightarrow> Inr (False, r2)
                 | (m, None, r2) \<Rightarrow>
                     (if m = [] then Inl ''slice bounds out of range''
                      else Inr (isCaptureHTTPMethod (take (length m - 1) m), r2))))))"

definition captureTLSLooksHTTP :: "'r Reader \<Rightarrow> bytes \<Rightarrow> 'r \<Rightarrow> (bool \<times> 'r) may_panic" where
  "captureTLSLooksHTTP R port r =
     (case Peek R 5 r of
        (_, Some _, r1) \<Rightarrow> Inr (False, r1)
      | (hdr, None, r1) \<Rightarrow>
          mp_bind (byte_at hdr 0) (\<lambda>b0. if b0 \<noteq> 0x16 then Inr (False, r1) else
          mp_bind (mp_bind (slice_of hdr 3 5) (\<lambda>b. Inr (unat (be_Uint16 b)))) (\<lambda>n.
            (case Peek R (5 + int n) r1 of
               (_, Some _, r2) \<Rightarrow> Inr (port = ''443'' \<or> port = ''8443'', r2)
             | (record, None, r2) \<Rightarrow>
                 mp_bind (slice_of record 5 (length record)) (\<lambda>hello.
                 mp_bind (clientHelloHasHTTPALPN hello) (\<lambda>b. Inr (b \<or> port = ''443'' \<or> port = ''8443'', r2)))))))"

text \<open>What the two need of a reader, beyond the laws so far: looking ahead past the buffered bytes.\<close>

locale peeking_reader = bufio_reader +
  assumes Peek_full:
      "Peek R (int k) r = (s, None, r') \<Longrightarrow> s = take k (str r) \<and> k \<le> length (str r) \<and> str r' = str r \<and> fin r' = fin r"
    and Peek_short:
      "Peek R (int k) r = (s, Some x, r') \<Longrightarrow> (B < k \<or> length (str r) < k) \<and> str r' = str r \<and> fin r' = fin r"
begin

lemma captureTLSLooksHTTP_keeps:
  "\<exists>b r'. captureTLSLooksHTTP R port r = Inr (b, r') \<and> str r' = str r \<and> fin r' = fin r"
proof -
  obtain hdr e r1 where hdr: "Peek R (int 5) r = (hdr, e, r1)" by (metis prod_cases3)
  show ?thesis
  proof (cases e)
    case (Some x)
    then show ?thesis using hdr Peek_short [of 5 r hdr x r1] by (auto simp: captureTLSLooksHTTP_def)
  next
    case None
    then have r1: "hdr = take 5 (str r)" "5 \<le> length (str r)" "str r1 = str r" "fin r1 = fin r"
      using hdr Peek_full [of 5 r hdr r1] by blast+
    define n where "n = unat (be_Uint16 (take 2 (drop 3 hdr)))"
    have "length hdr = 5" using r1 by simp
    then have at: "byte_at hdr 0 = Inr (byte_val (hdr ! 0))" "slice_of hdr 3 5 = Inr (take 2 (drop 3 hdr))"
      by (auto simp: byte_at_def slice_of_def)
    obtain rec e2 r2 where rec: "Peek R (int (5 + n)) r1 = (rec, e2, r2)" by (metis prod_cases3)
    obtain b where b: "clientHelloHasHTTPALPN (drop 5 rec) = Inr b" using clientHello_no_panic by (metis sum.exhaust)
    have "str r2 = str r1 \<and> fin r2 = fin r1 \<and> (e2 = None \<longrightarrow> length rec = 5 + n)"
      using rec Peek_full [of "5 + n" r1 rec r2] Peek_short [of "5 + n" r1 rec _ r2] by (cases e2) auto
    then show ?thesis
      using hdr None at rec b r1 by (cases e2) (auto simp: captureTLSLooksHTTP_def n_def slice_of_def)
  qed
qed

lemma first_word:
  assumes ps: "PeekSlice R (CHR '' '') r = (s, e, r')" and ms: "\<forall>m \<in> set ms. CHR '' '' \<notin> set m \<and> length m < B"
  shows "(e = None \<and> s \<noteq> [] \<and> take (length s - 1) s \<in> set ms) = (\<exists>m \<in> set ms. prefix (m @ '' '') (str r))"
    and "e = None \<longrightarrow> s \<noteq> []" and "str r' = str r" and "fin r' = fin r"
proof -
  have keep: "prefix s (str r)" "str r' = str r" "fin r' = fin r" using PeekSlice_keeps [OF ps] by auto
  have line: "\<exists>t. s = t @ '' ''" if "e = None" using PeekSlice_line ps that by blast
  have word: "s = m @ '' '' \<and> e = None" if m: "m \<in> set ms" "prefix (m @ '' '') (str r)" for m
  proof -
    obtain u where u: "str r = m @ CHR '' '' # u" using m(2) by (auto elim: prefixE)
    obtain r2 where "PeekSlice R (CHR '' '') r = (m @ '' '', None, r2)"
      using PeekSlice_full_line [OF u] ms m(1) by blast
    then show ?thesis using ps by simp
  qed
  show "(e = None \<and> s \<noteq> [] \<and> take (length s - 1) s \<in> set ms) = (\<exists>m \<in> set ms. prefix (m @ '' '') (str r))"
  proof
    assume "e = None \<and> s \<noteq> [] \<and> take (length s - 1) s \<in> set ms"
    then show "\<exists>m \<in> set ms. prefix (m @ '' '') (str r)" using line keep(1) by fastforce
  qed (use word in fastforce)
  show "e = None \<longrightarrow> s \<noteq> []" "str r' = str r" "fin r' = fin r" using line keep by auto
qed

lemma captureLooksLikeHTTP_iff:
  assumes B: "8 \<le> B" and r: "str r = first # rest"
  shows "\<exists>r'. captureLooksLikeHTTP R first r = Inr (\<exists>m \<in> set captureMethods. prefix (m @ '' '') (str r), r') \<and>
    str r' = str r \<and> fin r' = fin r"
proof -
  let ?firsts = "[''POST'', ''PATC'', ''HEAD'', ''DELE'', ''OPTI'', ''TRAC'', ''CONN'', ''GET '', ''PUT '']"
  have ms: "m \<noteq> [] \<and> hd m \<in> set ''GPHDOTC'' \<and> take 4 (m @ '' '') \<in> set ?firsts \<and> CHR '' '' \<notin> set m \<and> 3 \<le> length m \<and> length m < 8"
    if "m \<in> set captureMethods" for m
    using that unfolding captureMethods_def by (elim set_ConsD [THEN disjE]) simp_all
  let ?http = "\<exists>m \<in> set captureMethods. prefix (m @ '' '') (str r)"
  have first: "first \<in> set ''GPHDOTC''" if ?http
    using that ms r by (auto simp: prefix_def) (metis append_Cons list.collapse list.inject)
  have four: "4 \<le> length (str r)" "take 4 (str r) \<in> set ?firsts" if http: ?http
  proof -
    obtain m u where m: "m \<in> set captureMethods" "str r = (m @ '' '') @ u" using http by (auto elim: prefixE)
    then have "4 \<le> length (m @ '' '')" using ms by fastforce
    then have "take 4 (str r) = take 4 (m @ '' '')" unfolding m(2) take_append by simp
    moreover have "4 \<le> length (str r)" using \<open>4 \<le> length (m @ '' '')\<close> m(2) by simp
    ultimately
    show "4 \<le> length (str r)" "take 4 (str r) \<in> set ?firsts" using ms [OF m(1)] by simp_all
  qed
  obtain pre e r1 where pk: "Peek R (int 4) r = (pre, e, r1)" by (metis prod_cases3)
  consider "first \<notin> set ''GPHDOTC''" | x where "first \<in> set ''GPHDOTC''" "e = Some x" | "first \<in> set ''GPHDOTC''" "e = None" by blast
  then show ?thesis
  proof cases
    case 1
    then show ?thesis using first by (auto simp: captureLooksLikeHTTP_def)
  next
    case 2
    then have "length (str r) < 4 \<and> str r1 = str r \<and> fin r1 = fin r" using Peek_short [of 4 r pre x r1] pk B by auto
    then show ?thesis using 2 four(1) pk by (auto simp: captureLooksLikeHTTP_def)
  next
    case 3
    then have r1: "pre = take 4 (str r)" "str r1 = str r" "fin r1 = fin r" using Peek_full [of 4 r pre r1] pk by blast+
    obtain m e2 r2 where ps: "PeekSlice R (CHR '' '') r1 = (m, e2, r2)" by (metis prod_cases3)
    have short: "\<forall>m \<in> set captureMethods. CHR '' '' \<notin> set m \<and> length m < B" using ms B by fastforce
    have word: "(e2 = None \<and> m \<noteq> [] \<and> isCaptureHTTPMethod (take (length m - 1) m)) = ?http" "e2 = None \<longrightarrow> m \<noteq> []"
      "str r2 = str r" "fin r2 = fin r"
      using first_word [OF ps short] unfolding isCaptureHTTPMethod_def r1(2,3) by blast+
    consider "pre = ''GET ''" | "pre = ''PUT ''" | "pre \<notin> set ?firsts" | "pre \<noteq> ''GET ''" "pre \<noteq> ''PUT ''" "pre \<in> set ?firsts" by blast
    then show ?thesis
    proof cases
      case pre: 1
      have "''GET'' \<in> set captureMethods" "prefix (''GET'' @ '' '') (str r)"
        using take_is_prefix [of 4 "str r"] pre r1(1) by (simp_all add: captureMethods_def)
      then have ?http by blast
      then show ?thesis using 3 pk pre r1 by (simp add: captureLooksLikeHTTP_def)
    next
      case pre: 2
      have "''PUT'' \<in> set captureMethods" "prefix (''PUT'' @ '' '') (str r)"
        using take_is_prefix [of 4 "str r"] pre r1(1) by (simp_all add: captureMethods_def)
      then have ?http by blast
      then show ?thesis using 3 pk pre r1 by (simp add: captureLooksLikeHTTP_def)
    next
      case pre: 3
      then have "\<not> ?http" using four(2) r1(1) by blast
      then show ?thesis using 3 pk pre r1 by (simp add: captureLooksLikeHTTP_def)
    next
      case pre: 4
      then have "pre \<in> set [''POST'', ''PATC'', ''HEAD'', ''DELE'', ''OPTI'', ''TRAC'', ''CONN'']" by simp
      then show ?thesis
        using 3 pk pre(1,2) word ps unfolding captureLooksLikeHTTP_def by (cases e2) (simp_all del: set_simps)
    qed
  qed
qed

end

interpretation mem_peek: peeking_reader "mem_reader httpBufSize" httpBufSize mem_str mr_err
proof
  fix k :: nat and r s r' x
  define r1 where "r1 = mr_fill (\<lambda>b. k \<le> length b) httpBufSize r"
  have st: "k \<le> length (mr_buf r1) \<or> httpBufSize \<le> length (mr_buf r1) \<or> mem_str r = mr_buf r1"
    using mr_fill_stop [of "\<lambda>b. k \<le> length b" httpBufSize r] by (simp add: r1_def)
  have keep: "mem_str r1 = mem_str r" "mr_err r1 = mr_err r" by (simp_all add: r1_def)
  have pk: "Peek (mem_reader httpBufSize) (int k) r =
      (take k (mr_buf r1), if length (mr_buf r1) < k then Some (mr_err r1) else None, r1)"
    by (simp add: mem_reader_def Let_def r1_def)
  have pre: "prefix (mr_buf r1) (mem_str r)" using mem_str_buf [of r1] keep by simp
  show "s = take k (mem_str r) \<and> k \<le> length (mem_str r) \<and> mem_str r' = mem_str r \<and> mr_err r' = mr_err r"
    if "Peek (mem_reader httpBufSize) (int k) r = (s, None, r')"
    using that pk keep pre by (auto simp: prefix_def split: if_splits)
  show "(httpBufSize < k \<or> length (mem_str r) < k) \<and> mem_str r' = mem_str r \<and> mr_err r' = mr_err r"
    if "Peek (mem_reader httpBufSize) (int k) r = (s, Some x, r')"
    using that pk keep st by (auto split: if_splits)
qed

definition ex_hello :: client_hello where
  "ex_hello = \<lparr>ch_version = [CHR 0x03, CHR 0x03], ch_random = replicate 32 (CHR 0x07), ch_session = [],
     ch_ciphers = [CHR 0x13, CHR 0x01], ch_compressions = [CHR 0x00],
     ch_extensions = [Extension 0 ''a.b'', ALPN [''spdy/3'', ''http/1.1'']]\<rparr>"

theorem clientHello_finds_http_witness: "clientHelloHasHTTPALPN (hello_bytes ex_hello) = Inr True"
proof -
  have "hello_ok ex_hello"
    by (simp add: hello_ok_def ex_hello_def name_list_def len8_def ext_bytes_def len16_def)
  from clientHello_finds_http [OF this] show ?thesis by (simp add: ex_hello_def)
qed

end
