(* ===== verification/Capture_Serve.thy ===== *)
theory Capture_Serve
  imports Socks_Serve Recording Tls_Hello Tunnel
begin

text \<open>
  capture.go, a captured tunnel: \<open>doCaptureConnect\<close> and \<open>doCaptureSocks\<close> look at the first bytes of the client and either
  let the tunnel run as any other, or take it apart: \<open>captureTLS\<close> ends the encryption on both sides, and
  \<open>serveCapturedHTTP\<close> serves the requests inside one after the other on the one connection to the server.

  The handshakes of crypto/tls are arguments. The log of a request does not take part in the exchange: the bodies go
  through the writers of \<open>Recording\<close>, for which sending is as without a log.
\<close>

section \<open>Requests inside a tunnel\<close>

text \<open>\<open>captured_url\<close>: the target of the tunnel, with the path of the request.\<close>

definition captured_url :: "URL \<Rightarrow> Request \<Rightarrow> URL" where
  "captured_url target r =
     empty_URL \<lparr>url_HostPort := url_HostPort target, url_Host := url_Host target, url_Port := url_Port target,
       url_Domain := url_Domain target, url_Path := url_Path (URL r)\<rparr>"

definition capture_protocol :: "(bytes \<Rightarrow> bool) \<Rightarrow> bool \<Rightarrow> Request \<Rightarrow> bytes" where
  "capture_protocol fold_eq secure r =
     (if isWebSocket fold_eq r then (if secure then ''wss'' else ''ws'') else if secure then ''https'' else ''http'')"

text \<open>One round of the loop of \<open>serveCapturedHTTP\<close>; the result says whether there is another one.\<close>

definition captured_request ::
    "('cr, 'sr, 'sw, 'e) fwd_env \<Rightarrow> bool \<Rightarrow> URL \<Rightarrow> (('cr, 'sr, 'sw, 'e) fwd, bool) io" where
  "captured_request P saveReqLine target s =
     (case parseRequest (p_uni P) saveReqLine (p_cli P) zeroRequest (f_cli s) of
        None \<Rightarrow> None
      | Some (Some e, rq, c) \<Rightarrow>
          Some (if e = EOF \<or> isErrConnReset e \<or> e = ErrClientTimeout then Ok False else Fail e,
            s \<lparr>f_rq := Request_releaseBuf rq, f_cli := c\<rparr>)
      | Some (None, rq, c) \<Rightarrow>
          (let rq1 = rq \<lparr>URL := captured_url target rq\<rparr> in
           io_bind (doRequest P)
             (\<lambda>_ s2. Some (Ok (\<not> (Status (f_rp s2) = 101 \<and> isWebSocket (p_fold P) rq1) \<and>
                 ConnectionKeepAlive (header rq1) \<and> ConnectionKeepAlive (rp_header (f_rp s2))),
               on_rq Request_releaseBuf s2))
             (s \<lparr>f_rq := rq1, f_rp := zeroResponse, f_cli := c\<rparr>)))"

partial_function (option) captured_loop ::
    "('cr, 'sr, 'sw, 'e) fwd_env \<Rightarrow> bool \<Rightarrow> URL \<Rightarrow> ('cr, 'sr, 'sw, 'e) fwd \<Rightarrow> (bool outcome \<times> ('cr, 'sr, 'sw, 'e) fwd) option"
    where
  "captured_loop F saveReqLine target s =
     Option.bind (captured_request F saveReqLine target s)
       (\<lambda>(res, s1). if res = Ok True then captured_loop F saveReqLine target s1 else Some (res, s1))"

text \<open>The requests inside are variables of the loop: the request for the tunnel is as before when it ends.\<close>

definition serveCapturedHTTP ::
    "('cr, 'sr, 'sw, 'e) fwd_env \<Rightarrow> bool \<Rightarrow> URL \<Rightarrow> (('cr, 'sr, 'sw, 'e) fwd, unit) io" where
  "serveCapturedHTTP P saveReqLine target s =
     map_option (\<lambda>(res, s1). (case res of Ok _ \<Rightarrow> Ok () | Fail e \<Rightarrow> Fail e | Panic p \<Rightarrow> Panic p,
         s1 \<lparr>f_rq := f_rq s, f_rp := f_rp s\<rparr>))
       (captured_loop P saveReqLine target s)"

section \<open>Ending the encryption\<close>

text \<open>
  \<open>t_server\<close> is the handshake with the server, and the new connection if it succeeds; \<open>t_client\<close> the one with the client,
  after which the client is read through it; \<open>t_cert\<close> the outcome of \<open>captureCertificate\<close>.
\<close>

record ('cr, 'sr, 'sw, 'e) tls_env =
  t_server :: "bytes \<Rightarrow> ('cr, 'sr, 'sw, 'e) fwd \<Rightarrow> (err + nat) \<times> ('cr, 'sr, 'sw, 'e) fwd"
  t_client :: "('cr, 'sr, 'sw, 'e) fwd \<Rightarrow> err option \<times> ('cr, 'sr, 'sw, 'e) fwd"
  t_cert :: "bytes \<Rightarrow> err option"
  t_saveReqLine :: bool

definition no_retry :: "(('s, unit) io) \<Rightarrow> ('s, unit) io" where
  "no_retry m s =
     map_option (\<lambda>(res, s1). (case res of
         Fail e \<Rightarrow> (if isErrRetry (Some e) then Fail (Wrapped ''captured TLS connection cannot retry: '' e) else Fail e)
       | x \<Rightarrow> x, s1)) (m s)"

definition client_TLS ::
    "('cr, 'sr, 'sw, 'e) fwd_env \<Rightarrow> ('cr, 'sr, 'sw, 'e) tls_env \<Rightarrow> URL \<Rightarrow> (('cr, 'sr, 'sw, 'e) fwd, unit) io" where
  "client_TLS P T target s =
     (case t_cert T (url_Host target) of
        Some e \<Rightarrow> Some (Fail e, s)
      | None \<Rightarrow>
          (case t_client T s of
             (Some e, s1) \<Rightarrow> Some (Fail (Wrapped ''client TLS handshake: '' e), s1)
           | (None, s1) \<Rightarrow> no_retry (serveCapturedHTTP P (t_saveReqLine T) target) s1))"

definition captureTLS ::
    "('cr, 'sr, 'sw, 'e) fwd_env \<Rightarrow> ('cr, 'sr, 'sw, 'e) tls_env \<Rightarrow> URL \<Rightarrow> (('cr, 'sr, 'sw, 'e) fwd, unit) io" where
  "captureTLS P T target s =
     (case t_server T (url_Host target) (set_srv (p_release P (f_srv s (f_conn s))) s) of
        (Inl e, s1) \<Rightarrow>
          (if maybeFake (p_C P) (w_site (f_w s1)) (f_sv s1) \<and> maybeBlocked (c_HttpErrorCode (p_C P)) (parentEmpty (f_w s1)) e then
             (case w_TempBlocked (p_E P) target (f_w s1) of
                Inl p \<Rightarrow> Some (Panic p, s1)
              | Inr w \<Rightarrow> Some (Fail (RetryError e), s1 \<lparr>f_w := w\<rparr>))
           else Some (Fail (Wrapped ''server TLS handshake: '' e), s1))
      | (Inr conn, s1) \<Rightarrow>
          io_bind (f_updateVisit P)
            (\<lambda>_ s2. client_TLS P T target (s2 \<lparr>f_sv := (f_sv s2) \<lparr>sv_Conn := plainConn conn\<rparr>\<rparr>)) s1)"

section \<open>Taking a tunnel apart\<close>

definition peek_first :: "('cr, 'sr, 'sw, 'e) fwd_env \<Rightarrow> (('cr, 'sr, 'sw, 'e) fwd, char) io" where
  "peek_first P s =
     (case Peek (p_cli P) 1 (f_cli s) of
        (_, Some e, c) \<Rightarrow> Some (Fail e, s \<lparr>f_cli := c\<rparr>)
      | (b, None, c) \<Rightarrow>
          (if b = [] then Some (Panic ''index out of range'', s \<lparr>f_cli := c\<rparr>) else Some (Ok (b ! 0), s \<lparr>f_cli := c\<rparr>)))"

definition look :: "('cr \<Rightarrow> (bool \<times> 'cr) may_panic) \<Rightarrow> (('cr, 'sr, 'sw, 'e) fwd, bool) io" where
  "look f s =
     (case f (f_cli s) of Inl p \<Rightarrow> Some (Panic p, s) | Inr (b, c) \<Rightarrow> Some (Ok b, s \<lparr>f_cli := c\<rparr>))"

definition tls_inside ::
    "('cr, 'sr, 'sw, 'e) fwd_env \<Rightarrow> char \<Rightarrow> URL \<Rightarrow> (('cr, 'sr, 'sw, 'e) fwd, bool) io" where
  "tls_inside P first url =
     (if first = CHR 0x16 then look (captureTLSLooksHTTP (p_cli P) (url_Port url)) else io_ret False)"

definition doCaptureConnect ::
    "('cr, 'sr, 'sw, 'e) fwd_env \<Rightarrow> ('cr, 'sr, 'sw, 'e) tls_env \<Rightarrow> (('cr, 'sr, 'sw, 'e) fwd, unit) io" where
  "doCaptureConnect P T s0 =
     io_bind (establishParentConnect P) (\<lambda>_.
     io_bind (if isRetry (f_rq s0) then io_ret () else client_Write P connEstablished) (\<lambda>_.
     io_bind (peek_first P) (\<lambda>first.
     io_bind (tls_inside P first (URL (f_rq s0))) (\<lambda>isHTTP.
     if \<not> isHTTP then p_tunnel P else captureTLS P T (URL (f_rq s0)))))) s0"

definition doCaptureSocks ::
    "('cr, 'sr, 'sw, 'e) fwd_env \<Rightarrow> ('cr, 'sr, 'sw, 'e) tls_env \<Rightarrow> (('cr, 'sr, 'sw, 'e) fwd, unit) io" where
  "doCaptureSocks P T s0 =
     (case peek_first P s0 of
        None \<Rightarrow> None
      | Some (Panic p, s) \<Rightarrow> Some (Panic p, s)
      | Some (Fail e, s) \<Rightarrow> p_tunnel P s
      | Some (Ok first, s) \<Rightarrow>
          io_bind (tls_inside P first (URL (f_rq s0))) (\<lambda>isTLS.
          if isTLS then captureTLS P T (URL (f_rq s0))
          else io_bind (if first = CHR 0x16 then io_ret False else look (captureLooksLikeHTTP (p_cli P) first)) (\<lambda>isHTTP.
            if \<not> isHTTP then p_tunnel P
            else (\<lambda>s1. io_bind (f_updateVisit P) (\<lambda>_. serveCapturedHTTP P (t_saveReqLine T) (URL (f_rq s0)))
              (s1 \<lparr>f_sv := (f_sv s1) \<lparr>tunneled := True\<rparr>\<rparr>)))) s)"

section \<open>A captured tunnel is safe\<close>

text \<open>What the loop keeps: the world is consistent, and the connection is right for the target.\<close>

definition captured_ok :: "(bytes \<Rightarrow> bytes) \<Rightarrow> ('cr, 'sr, 'sw, 'e) fwd_env \<Rightarrow> URL \<Rightarrow> ('cr, 'sr, 'sw, 'e) fwd \<Rightarrow> bool" where
  "captured_ok h P target s \<longleftrightarrow>
     world_ok (p_C P) h (f_w s) \<and> sv_safe (p_C P) (w_site (f_w s)) target (f_sv s) \<and>
     (isDirect (f_sv s) \<longrightarrow> sv_hostPort (f_sv s) = url_HostPort target)"

interpretation captured: io_invariant "captured_ok h P target" for h P target .

lemma captured_ok_fwd:
  "fwd_ok h P url s \<longleftrightarrow> captured_ok h P url s \<and> URL (f_rq s) = url \<and> rq_ok (f_rq s)"
  by (auto simp: fwd_ok_def captured_ok_def)

lemma captured_ok_url [simp]: "captured_ok h P (captured_url target r) s = captured_ok h P target s"
  by (simp add: captured_ok_def captured_url_def sv_safe_def)

lemma captured_ok_simps [simp]:
  "captured_ok h P url (s \<lparr>f_rq := r\<rparr>) = captured_ok h P url s" "captured_ok h P url (s \<lparr>f_rp := rp\<rparr>) = captured_ok h P url s"
  "captured_ok h P url (s \<lparr>f_cli := c\<rparr>) = captured_ok h P url s" "captured_ok h P url (on_rq g s) = captured_ok h P url s"
  by (simp_all add: captured_ok_def on_rq_def)

lemma captured_request_safe:
  assumes "\<And>url. answering.safe h P url (p_tunnel P)"
  shows "captured.safe h P target (captured_request P save target)"
proof (rule captured.safeI)
  fix s res s1
  assume ok: "captured_ok h P target s" and run: "captured_request P save target s = Some (res, s1)"
  obtain e rq c where p: "parseRequest (p_uni P) save (p_cli P) zeroRequest (f_cli s) = Some (e, rq, c)"
    using run by (auto simp: captured_request_def split: option.splits)
  show "captured_ok h P target s1 \<and> (\<forall>p. res \<noteq> Panic p)"
  proof (cases e)
    case (Some x)
    then show ?thesis using run p ok by (auto simp: captured_request_def split: if_splits)
  next
    case None
    let ?rq = "rq \<lparr>URL := captured_url target rq\<rparr>" and ?url = "captured_url target rq"
    let ?s = "s \<lparr>f_rq := ?rq, f_rp := zeroResponse, f_cli := c\<rparr>"
    have raw: "raw rq \<noteq> None" by (rule parseRequest_raw [OF p [unfolded None]])
    then have start: "fwd_ok h P ?url ?s" "buffered (f_rq ?s)"
      using ok by (simp_all add: captured_ok_fwd rq_ok_def buffered_def)
    obtain r2 s2 where d: "doRequest P ?s = Some (r2, s2)"
      using run p None by (cases "doRequest P ?s") (auto simp: captured_request_def Let_def io_bind_def)
    have "captured_ok h P target s2 \<and> (\<forall>p. r2 \<noteq> Panic p)"
      using doRequest_safe [OF assms start d] by (simp add: captured_ok_fwd)
    then show ?thesis using run p None d by (cases r2) (auto simp: captured_request_def Let_def io_bind_def)
  qed
qed

lemma captured_loop_safe:
  assumes "\<And>url. answering.safe h P url (p_tunnel P)"
  shows "captured.safe h P target (captured_loop P save target)"
proof (rule captured.safeI)
  fix s res s1
  assume ok: "captured_ok h P target s" and run: "captured_loop P save target s = Some (res, s1)"
  have "P = P \<and> captured_ok h P target s \<longrightarrow> captured_ok h P target (snd (res, s1)) \<and> (\<forall>p. fst (res, s1) \<noteq> Panic p)"
  proof (rule captured_loop.raw_induct [OF _ run, where
        P = "\<lambda>F save t s y. F = P \<and> captured_ok h P t s \<longrightarrow> captured_ok h P t (snd y) \<and> (\<forall>p. fst y \<noteq> Panic p)"], intro impI, elim conjE)
    fix rec F save t s y
    assume IH: "\<And>F save t s y. rec F save t s = Some y \<Longrightarrow>
        F = P \<and> captured_ok h P t s \<longrightarrow> captured_ok h P t (snd y) \<and> (\<forall>p. fst y \<noteq> Panic p)"
      and step: "Option.bind (captured_request F save t s)
        (\<lambda>(res, s1). if res = Ok True then rec F save t s1 else Some (res, s1)) = Some y"
      and F: "F = P" "captured_ok h P t s"
    obtain r2 s2 where r2: "captured_request P save t s = Some (r2, s2)" "(if r2 = Ok True then rec P save t s2 else Some (r2, s2)) = Some y"
      using step F(1) by (auto simp: bind_eq_Some_conv)
    have "captured_ok h P t s2 \<and> (\<forall>p. r2 \<noteq> Panic p)"
      using captured_request_safe [OF assms] F(2) r2(1) by (rule captured.safeD)
    then show "captured_ok h P t (snd y) \<and> (\<forall>p. fst y \<noteq> Panic p)"
      using r2(2) IH [of P save t s2 y] by (auto split: if_splits)
  qed
  then show "captured_ok h P target s1 \<and> (\<forall>p. res \<noteq> Panic p)" using ok by simp
qed

lemma serveCapturedHTTP_safe:
  assumes "\<And>url. answering.safe h P url (p_tunnel P)"
  shows "answering.safe h P url (serveCapturedHTTP P save url)"
proof (rule answering.safeI)
  fix s res s1
  assume ok: "fwd_ok h P url s" and run: "serveCapturedHTTP P save url s = Some (res, s1)"
  obtain r2 s2 where l: "captured_loop P save url s = Some (r2, s2)" "s1 = s2 \<lparr>f_rq := f_rq s, f_rp := f_rp s\<rparr>"
      "res = (case r2 of Ok _ \<Rightarrow> Ok () | Fail e \<Rightarrow> Fail e | Panic p \<Rightarrow> Panic p)"
    using run by (auto simp: serveCapturedHTTP_def)
  have "captured_ok h P url s2 \<and> (\<forall>p. r2 \<noteq> Panic p)"
    using captured.safeD [OF captured_loop_safe [OF assms] _ l(1)] ok by (simp add: captured_ok_fwd)
  then show "fwd_ok h P url s1 \<and> (\<forall>p. res \<noteq> Panic p)"
    using ok l by (cases r2) (auto simp: captured_ok_fwd)
qed

text \<open>A handshake changes streams and the environment only.\<close>

definition handshake :: "('cr, 'sr, 'sw, 'e) fwd \<Rightarrow> ('cr, 'sr, 'sw, 'e) fwd \<Rightarrow> bool" where
  "handshake s s1 \<longleftrightarrow>
     f_rq s1 = f_rq s \<and> f_rp s1 = f_rp s \<and> f_sv s1 = f_sv s \<and> f_w s1 = (f_w s) \<lparr>w_env := w_env (f_w s1)\<rparr>"

definition tls_ok :: "('cr, 'sr, 'sw, 'e) tls_env \<Rightarrow> bool" where
  "tls_ok T \<longleftrightarrow> (\<forall>host s. handshake s (snd (t_server T host s))) \<and> (\<forall>s. handshake s (snd (t_client T s)))"

lemma handshake_ok: "handshake s s1 \<Longrightarrow> fwd_ok h P url s \<Longrightarrow> fwd_ok h P url s1"
proof -
  assume a: "handshake s s1" "fwd_ok h P url s"
  then obtain e where "f_w s1 = (f_w s) \<lparr>w_env := e\<rparr>" unfolding handshake_def by blast
  then show "fwd_ok h P url s1" using a by (simp add: handshake_def fwd_ok_def)
qed

lemma safe_fail [simp]: "answering.safe h P url (\<lambda>s. Some (Fail e, s))"
  by (rule answering.safeI) auto

lemma no_retry_safe: "answering.safe h P url m \<Longrightarrow> answering.safe h P url (no_retry m)"
proof (rule answering.safeI)
  fix s res s1
  assume m: "answering.safe h P url m" and a: "fwd_ok h P url s" "no_retry m s = Some (res, s1)"
  obtain r2 where r2: "m s = Some (r2, s1)" "res = (case r2 of
         Fail e \<Rightarrow> (if isErrRetry (Some e) then Fail (Wrapped ''captured TLS connection cannot retry: '' e) else Fail e) | x \<Rightarrow> x)"
    using a(2) by (auto simp: no_retry_def)
  note i = answering.safeD [OF m a(1) r2(1)]
  show "fwd_ok h P url s1 \<and> (\<forall>p. res \<noteq> Panic p)" using i r2(2) by (cases r2) auto
qed

lemma client_TLS_safe:
  assumes "\<And>url. answering.safe h P url (p_tunnel P)" "tls_ok T"
  shows "answering.safe h P url (client_TLS P T url)"
proof (rule answering.safeI)
  fix s res s1
  assume ok: "fwd_ok h P url s" and run: "client_TLS P T url s = Some (res, s1)"
  obtain r2 s2 where hs: "t_client T s = (r2, s2)" by fastforce
  have "handshake s s2" using assms(2) hs unfolding tls_ok_def by (metis snd_conv)
  then have s2: "fwd_ok h P url s2" using ok by (rule handshake_ok)
  note inner = answering.safeD [OF no_retry_safe [OF serveCapturedHTTP_safe [OF assms(1)]] s2]
  show "fwd_ok h P url s1 \<and> (\<forall>p. res \<noteq> Panic p)"
  proof (cases "t_cert T (url_Host url) = None \<and> r2 = None")
    case True
    then have "no_retry (serveCapturedHTTP P (t_saveReqLine T) url) s2 = Some (res, s1)" using run hs by (simp add: client_TLS_def)
    then show ?thesis by (rule inner)
  next
    case False
    then show ?thesis using run hs ok s2 by (auto simp: client_TLS_def split: option.splits)
  qed
qed

lemma captureTLS_safe:
  assumes "\<And>url. answering.safe h P url (p_tunnel P)" "tls_ok T"
  shows "answering.safe h P url (captureTLS P T url)"
proof (rule answering.safeI)
  fix s res s1
  assume ok: "fwd_ok h P url s" and run: "captureTLS P T url s = Some (res, s1)"
  let ?s = "set_srv (p_release P (f_srv s (f_conn s))) s"
  obtain r2 s2 where hs: "t_server T (url_Host url) ?s = (r2, s2)" by fastforce
  have "handshake ?s s2" using assms(2) hs unfolding tls_ok_def by (metis snd_conv)
  then have s2: "fwd_ok h P url s2" using ok by (intro handshake_ok [of ?s s2]) simp_all
  show "fwd_ok h P url s1 \<and> (\<forall>p. res \<noteq> Panic p)"
  proof (cases r2)
    case (Inl e)
    show ?thesis
    proof (cases "maybeFake (p_C P) (w_site (f_w s2)) (f_sv s2) \<and> maybeBlocked (c_HttpErrorCode (p_C P)) (parentEmpty (f_w s2)) e")
      case True
      obtain w where w: "w_TempBlocked (p_E P) url (f_w s2) = Inr w"
        using sv_safe_TempBlocked [of "p_C P" "w_site (f_w s2)" url "f_sv s2" "f_w s2" "p_E P"] s2 True by (auto simp: fwd_ok_def)
      then show ?thesis
        using world_mono [OF s2] w_TempBlocked_mono [OF w, of "p_C P"] run hs Inl True by (auto simp: captureTLS_def)
    qed (use run hs Inl s2 in \<open>auto simp: captureTLS_def\<close>)
  next
    case (Inr conn)
    have "answering.safe h P url (\<lambda>s2. client_TLS P T url (s2 \<lparr>f_sv := (f_sv s2) \<lparr>sv_Conn := plainConn conn\<rparr>\<rparr>))"
    proof (rule answering.safeI)
      fix t res t1
      assume "fwd_ok h P url t" and r: "client_TLS P T url (t \<lparr>f_sv := (f_sv t) \<lparr>sv_Conn := plainConn conn\<rparr>\<rparr>) = Some (res, t1)"
      then have "fwd_ok h P url (t \<lparr>f_sv := (f_sv t) \<lparr>sv_Conn := plainConn conn\<rparr>\<rparr>)"
        by (simp add: fwd_ok_def sv_safe_def isDirect_def)
      then show "fwd_ok h P url t1 \<and> (\<forall>p. res \<noteq> Panic p)" using r by (rule answering.safeD [OF client_TLS_safe [OF assms]])
    qed
    moreover have "io_bind (f_updateVisit P) (\<lambda>_ s2. client_TLS P T url (s2 \<lparr>f_sv := (f_sv s2) \<lparr>sv_Conn := plainConn conn\<rparr>\<rparr>)) s2 =
        Some (res, s1)"
      using run hs Inr by (simp add: captureTLS_def)
    ultimately show ?thesis using s2 by (intro answering.safe_bind_from [OF updateVisit_safe])
  qed
qed

lemma peek_first_safe:
  assumes "peeking_reader (p_cli P) B str fin"
  shows "answering.safe h P url (peek_first P)"
proof (rule answering.safeI)
  fix s res s1
  assume ok: "fwd_ok h P url s" and run: "peek_first P s = Some (res, s1)"
  obtain b e c where pk: "Peek (p_cli P) (int 1) (f_cli s) = (b, e, c)" by (metis prod_cases3)
  have "e = None \<Longrightarrow> b \<noteq> []" using peeking_reader.Peek_full [OF assms, of 1 "f_cli s" b c] pk by auto
  then show "fwd_ok h P url s1 \<and> (\<forall>p. res \<noteq> Panic p)" using run ok pk by (cases e) (auto simp: peek_first_def)
qed

lemma look_safe: "(\<And>c p. f c \<noteq> Inl p) \<Longrightarrow> answering.safe h P url (look f)"
  by (rule answering.safeI) (auto simp: look_def split: sum.splits)

lemma tls_inside_safe:
  assumes "peeking_reader (p_cli P) B str fin"
  shows "answering.safe h P url (tls_inside P first u)"
proof -
  have "captureTLSLooksHTTP (p_cli P) (url_Port u) c \<noteq> Inl p" for c p
    using peeking_reader.captureTLSLooksHTTP_keeps [OF assms, of "url_Port u" c] by auto
  then show ?thesis unfolding tls_inside_def by (intro answering.safe_cond look_safe answering.safe_ret)
qed

lemma http_inside_safe:
  assumes "peeking_reader (p_cli P) B str fin"
  shows "answering.safe h P url (look (captureLooksLikeHTTP (p_cli P) first))"
proof (rule look_safe)
  fix c p
  have "PeekSlice (p_cli P) d r \<noteq> ([], None, r')" for d r r'
    using bufio_reader.PeekSlice_line [OF peeking_reader.axioms(1) [OF assms]] by fastforce
  then show "captureLooksLikeHTTP (p_cli P) first c \<noteq> Inl p"
    by (auto simp: captureLooksLikeHTTP_def split: prod.splits option.splits)
qed

lemma client_Write_safe: "answering.safe h P url (client_Write P b)"
proof (rule answering.safeI)
  fix s res s1
  assume ok: "fwd_ok h P url s" and run: "client_Write P b s = Some (res, s1)"
  have "fwd_ok h P url (s \<lparr>f_w := (f_w s) \<lparr>w_env := e\<rparr>\<rparr>)" for e using ok by (simp add: fwd_ok_def)
  then show "fwd_ok h P url s1 \<and> (\<forall>p. res \<noteq> Panic p)"
    using run by (auto simp: client_Write_def split: prod.splits option.splits)
qed

lemma establish_answering: "answering.safe h P url (establishParentConnect P)"
  by (rule answering.safeI) (rule establish_safe)

lemma doCaptureConnect_safe:
  assumes "\<And>url. answering.safe h P url (p_tunnel P)" "tls_ok T" "peeking_reader (p_cli P) B str fin"
  shows "answering.safe h P url (doCaptureConnect P T)"
proof (rule answering.safeI)
  fix s res s1
  assume ok: "fwd_ok h P url s" and run: "doCaptureConnect P T s = Some (res, s1)"
  have url: "URL (f_rq s) = url" using ok by (simp add: fwd_ok_def)
  show "fwd_ok h P url s1 \<and> (\<forall>p. res \<noteq> Panic p)"
    using run [unfolded doCaptureConnect_def url] ok
    by (intro answering.safe_bind_from [OF establish_answering])
      (auto intro!: answering.safe_bind answering.safe_cond client_Write_safe peek_first_safe [OF assms(3)]
        tls_inside_safe [OF assms(3)] assms(1) captureTLS_safe [OF assms(1,2)])
qed

lemma doCaptureSocks_safe:
  assumes "\<And>url. answering.safe h P url (p_tunnel P)" "tls_ok T" "peeking_reader (p_cli P) B str fin"
  shows "answering.safe h P url (doCaptureSocks P T)"
proof (rule answering.safeI)
  fix s res s1
  assume ok: "fwd_ok h P url s" and run: "doCaptureSocks P T s = Some (res, s1)"
  have url: "URL (f_rq s) = url" using ok by (simp add: fwd_ok_def)
  obtain r2 s2 where pk: "peek_first P s = Some (r2, s2)" using run by (auto simp: doCaptureSocks_def split: option.splits)
  have s2: "fwd_ok h P url s2" "\<forall>p. r2 \<noteq> Panic p" using answering.safeD [OF peek_first_safe [OF assms(3)] ok pk] by auto
  have plain: "answering.safe h P url (\<lambda>t. io_bind (f_updateVisit P) (\<lambda>_. serveCapturedHTTP P save url)
      (t \<lparr>f_sv := (f_sv t) \<lparr>tunneled := True\<rparr>\<rparr>))" for save
  proof (rule answering.safeI)
    fix t res t1
    assume "fwd_ok h P url t" and r: "io_bind (f_updateVisit P) (\<lambda>_. serveCapturedHTTP P save url)
      (t \<lparr>f_sv := (f_sv t) \<lparr>tunneled := True\<rparr>\<rparr>) = Some (res, t1)"
    then have "fwd_ok h P url (t \<lparr>f_sv := (f_sv t) \<lparr>tunneled := True\<rparr>\<rparr>)" by (simp add: fwd_ok_def sv_safe_def isDirect_def)
    then show "fwd_ok h P url t1 \<and> (\<forall>p. res \<noteq> Panic p)"
      using r by (rule answering.safe_bind_from [OF updateVisit_safe serveCapturedHTTP_safe [OF assms(1)]])
  qed
  show "fwd_ok h P url s1 \<and> (\<forall>p. res \<noteq> Panic p)"
  proof (cases r2)
    case (Ok first)
    note run' = run [unfolded doCaptureSocks_def pk option.case prod.case Ok outcome.case url]
    show ?thesis
      by (rule answering.safe_bind_from [OF tls_inside_safe [OF assms(3)] _ s2(1) run'])
        (intro answering.safe_cond answering.safe_bind answering.safe_ret captureTLS_safe [OF assms(1,2)]
          http_inside_safe [OF assms(3)] assms(1) plain)
  next
    case (Fail e)
    then have "p_tunnel P s2 = Some (res, s1)" using run pk by (simp add: doCaptureSocks_def)
    then show ?thesis by (rule answering.safeD [OF assms(1) s2(1)])
  qed (use s2(2) in blast)
qed

text \<open>The handler of a captured request can take the place of the handler of a request in the world of \<open>Serve\<close>.\<close>

lemma tunnels_ok_capturing:
  assumes "tunnels_ok h P" "tls_ok T" "peeking_reader (p_cli P) B str fin"
  shows "answering.safe h P url (doCaptureConnect P T) \<and> answering.safe h P url (doCaptureSocks P T)"
  using assms doCaptureConnect_safe doCaptureSocks_safe tunnels_ok_tunnel by blast


definition ex_tls :: "(mem_state, mem_state, bytes, bytes) tls_env" where
  "ex_tls = \<lparr>t_server = (\<lambda>host s. (Inl EOF, s)), t_client = (\<lambda>s. (None, s)), t_cert = (\<lambda>host. None), t_saveReqLine = False\<rparr>"

lemma ex_tls_ok: "tls_ok ex_tls"
  by (auto simp: tls_ok_def ex_tls_def handshake_def)

lemma ex_fwd_ok: "fwd_ok (\<lambda>_. []) (ex_fwd_env buffer_write) ex_url (ex_fwd cli [] [] (ex_post 1))"
  by (simp add: fwd_ok_def ex_fwd_def ex_post_def rq_ok_def world_ok_def cp_ok_def pool_sites_ok_def pooled_def emptyPool_def
      sv_safe_def isDirect_def newServerConn_def ex_url_def)

lemma ex_first_byte:
  "Peek (mem_reader httpBufSize) 1 (mem_open [''#ssh''] EOF) = (''#'', None, mr_fill (\<lambda>b. 1 \<le> length b) httpBufSize (mem_open [''#ssh''] EOF))"
  by code_simp


end
