(* ===== verification/Tunnel_Serve.thy ===== *)
theory Tunnel_Serve
  imports Capture_Serve
begin

text \<open>
  The tunnels of \<open>Tunnel\<close> in the world of \<open>Serve\<close>: a whole run of \<open>doConnect\<close> (proxy.go) and of \<open>tunnel\<close> (socks.go), for
  every order in which the two goroutines proceed and every outcome of their reads and writes. With it the parameters
  \<open>p_tunnel\<close> and \<open>p_connect\<close> of a client are the program's own, captured tunnels included, and what \<open>Serve_Safe\<close>
  and \<open>Socks_Serve\<close> ask of tunnels is proved.
\<close>

section \<open>Schedules\<close>

text \<open>One block of a goroutine, with the outcome of its reads and writes.\<close>

datatype tunnel_action =
    RetryWrite write_result
  | BufferedWrite write_result
  | ClientRead read_result
  | ClientWrite write_result
  | ServerRead read_result write_result
  | ServerMark
  | Notify

text \<open>\<open>None\<close>: the goroutine is not at this block, or the outcome is not one of a connection.\<close>

fun tunnel_act :: "cfg \<Rightarrow> 'e xenv \<Rightarrow> bool \<Rightarrow> time \<Rightarrow> tunnel_action \<Rightarrow> 'e tun \<Rightarrow> 'e tun may_panic option" where
  "tunnel_act C E detect start (RetryWrite res) t =
     (if tn_c2s t = C_retry \<and> net_write res then Some (Inr (c2s_retry res t)) else None)"
| "tunnel_act C E detect start (BufferedWrite res) t =
     (if tn_c2s t = C_buffered \<and> net_write res then Some (Inr (c2s_buffered res t)) else None)"
| "tunnel_act C E detect start (ClientRead rd) t =
     (if tn_c2s t = C_read \<and> net_read rd then Some (c2s_read C E detect start rd t) else None)"
| "tunnel_act C E detect start (ClientWrite res) t =
     (case tn_c2s t of C_write b \<Rightarrow> (if net_write res then Some (Inr (c2s_write res b t)) else None) | _ \<Rightarrow> None)"
| "tunnel_act C E detect start (ServerRead rd res) t =
     (if tn_s2c t = S_read \<and> net_read rd \<and> net_write res then Some (s2c_read C E rd res t) else None)"
| "tunnel_act C E detect start ServerMark t =
     (if tn_s2c t = S_wrote then Some (Inr (s2c_mark C E t)) else None)"
| "tunnel_act C E detect start Notify t =
     (case tn_s2c t of S_done e \<Rightarrow> (if isErrRetry (Some e) then Some (Inr (t \<lparr>tn_notified := True\<rparr>)) else None) | _ \<Rightarrow> None)"

primrec tunnel_exec :: "cfg \<Rightarrow> 'e xenv \<Rightarrow> bool \<Rightarrow> time \<Rightarrow> tunnel_action list \<Rightarrow> 'e tun \<Rightarrow> 'e tun may_panic option" where
  "tunnel_exec C E detect start [] t = Some (Inr t)"
| "tunnel_exec C E detect start (a # acts) t =
     (case tunnel_act C E detect start a t of
        None \<Rightarrow> None
      | Some (Inl p) \<Rightarrow> Some (Inl p)
      | Some (Inr t1) \<Rightarrow> tunnel_exec C E detect start acts t1)"

text \<open>The blocks that can happen are the steps of \<open>Tunnel\<close>.\<close>

lemma tunnel_act_step: "tunnel_step C E detect start t t' \<longleftrightarrow> (\<exists>a. tunnel_act C E detect start a t = Some (Inr t'))"
proof
  assume "tunnel_step C E detect start t t'"
  then show "\<exists>a. tunnel_act C E detect start a t = Some (Inr t')"
  proof (cases rule: tunnel_step.cases)
    case (retry res)
    then show ?thesis by (intro exI [of _ "RetryWrite res"]) simp
  next
    case (buffered res)
    then show ?thesis by (intro exI [of _ "BufferedWrite res"]) simp
  next
    case (c_read rd)
    then show ?thesis by (intro exI [of _ "ClientRead rd"]) simp
  next
    case (c_write b res)
    then show ?thesis by (intro exI [of _ "ClientWrite res"]) simp
  next
    case (s_read rd res)
    then show ?thesis by (intro exI [of _ "ServerRead rd res"]) simp
  next
    case s_mark
    then show ?thesis by (intro exI [of _ ServerMark]) simp
  next
    case (notify e)
    then show ?thesis by (intro exI [of _ Notify]) simp
  qed
next
  assume "\<exists>a. tunnel_act C E detect start a t = Some (Inr t')"
  then obtain a where "tunnel_act C E detect start a t = Some (Inr t')" ..
  then show "tunnel_step C E detect start t t'"
    by (cases a) (auto intro: tunnel_step.intros split: if_splits c2s.splits s2c.splits)
qed

lemma tunnel_exec_steps:
  "(tunnel_step C E detect start)\<^sup>*\<^sup>* t t' \<longleftrightarrow> (\<exists>acts. tunnel_exec C E detect start acts t = Some (Inr t'))"
proof
  assume "(tunnel_step C E detect start)\<^sup>*\<^sup>* t t'"
  then show "\<exists>acts. tunnel_exec C E detect start acts t = Some (Inr t')"
  proof (induction rule: converse_rtranclp_induct)
    case base
    show ?case by (rule exI [of _ "[]"]) simp
  next
    case (step x y)
    then obtain acts a where "tunnel_exec C E detect start acts y = Some (Inr t')" "tunnel_act C E detect start a x = Some (Inr y)"
      using tunnel_act_step by blast
    then show ?case by (intro exI [of _ "a # acts"]) simp
  qed
next
  assume "\<exists>acts. tunnel_exec C E detect start acts t = Some (Inr t')"
  then obtain acts where "tunnel_exec C E detect start acts t = Some (Inr t')" ..
  then show "(tunnel_step C E detect start)\<^sup>*\<^sup>* t t'"
  proof (induction acts arbitrary: t)
    case (Cons a acts)
    then obtain y where "tunnel_act C E detect start a t = Some (Inr y)" "tunnel_exec C E detect start acts y = Some (Inr t')"
      by (auto split: option.splits sum.splits)
    then show ?case using Cons.IH tunnel_act_step by (metis converse_rtranclp_into_rtranclp)
  qed simp
qed

section \<open>Whole tunnels\<close>

text \<open>
  What the run of a tunnel depends on: the schedule, the bytes in the client's read buffer, and the streams afterwards.
  A schedule that stops before both goroutines are done is a tunnel that does not return.
\<close>

record ('cr, 'sr, 'sw, 'e) tunnel_env =
  te_detect :: bool
  te_run :: "('cr, 'sr, 'sw, 'e) fwd \<Rightarrow> tunnel_action list"
  te_start :: "('cr, 'sr, 'sw, 'e) fwd \<Rightarrow> time"
  te_buffered :: "('cr, 'sr, 'sw, 'e) fwd \<Rightarrow> bytes option"
  te_streams :: "('cr, 'sr, 'sw, 'e) fwd \<Rightarrow> ('cr, 'sr, 'sw, 'e) fwd"

definition tunnel_end :: "'e tun \<Rightarrow> ('cr, 'sr, 'sw, 'e) fwd \<Rightarrow> ('cr, 'sr, 'sw, 'e) fwd \<Rightarrow> ('cr, 'sr, 'sw, 'e) fwd" where
  "tunnel_end t s1 s =
     s \<lparr>f_w := tn_w t, f_rq := tn_rq t, f_sv := tn_sv t, f_cli := f_cli s1, f_srv := f_srv s1, f_out := f_out s1\<rparr>"

definition tunnel ::
    "('cr, 'sr, 'sw, 'e) fwd_env \<Rightarrow> ('cr, 'sr, 'sw, 'e) tunnel_env \<Rightarrow> (('cr, 'sr, 'sw, 'e) fwd, unit) io" where
  "tunnel P V s =
     (case tunnel_exec (p_C P) (p_E P) (te_detect V) (te_start V s) (te_run V s) (tunnel_start (te_buffered V s) [] [] s) of
        None \<Rightarrow> None
      | Some (Inl p) \<Rightarrow> Some (Panic p, s)
      | Some (Inr t) \<Rightarrow> map_option (\<lambda>e. (Fail e, tunnel_end t (te_streams V s) s)) (tunnel_result t))"

text \<open>\<open>config.Capture\<close> and the captured domains decide which tunnels are taken apart.\<close>

record capturing_cfg =
  cc_Capture :: bool
  cc_domains :: "bytes list"

definition capturing_host :: "('cr, 'sr, 'sw, 'e) fwd_env \<Rightarrow> capturing_cfg \<Rightarrow> ('cr, 'sr, 'sw, 'e) fwd \<Rightarrow> bool" where
  "capturing_host P K s \<longleftrightarrow> cc_Capture K \<and> captureDomainAllowed (p_uni P) (cc_domains K) (url_Host (URL (f_rq s)))"

definition doConnect ::
    "('cr, 'sr, 'sw, 'e) fwd_env \<Rightarrow> capturing_cfg \<Rightarrow> ('cr, 'sr, 'sw, 'e) tls_env \<Rightarrow> ('cr, 'sr, 'sw, 'e) tunnel_env \<Rightarrow>
     (('cr, 'sr, 'sw, 'e) fwd, unit) io" where
  "doConnect P K T V s =
     (let s0 = on_rq (setState rsCreated) s in
      if capturing_host P K s0 then doCaptureConnect P T s0
      else io_bind (doConnect_begin P) (\<lambda>_. tunnel P V) s)"

definition socks_tunnel ::
    "('cr, 'sr, 'sw, 'e) fwd_env \<Rightarrow> capturing_cfg \<Rightarrow> ('cr, 'sr, 'sw, 'e) tls_env \<Rightarrow> ('cr, 'sr, 'sw, 'e) tunnel_env \<Rightarrow>
     (('cr, 'sr, 'sw, 'e) fwd, unit) io" where
  "socks_tunnel P K T V s = (if capturing_host P K s then doCaptureSocks P T s else tunnel P V s)"

text \<open>The program: requests inside captured tunnels may become tunnels of their own (WebSocket), CONNECT requests may not.\<close>

definition with_tunnel ::
    "('cr, 'sr, 'sw, 'e) tunnel_env \<Rightarrow> ('cr, 'sr, 'sw, 'e) fwd_env \<Rightarrow> ('cr, 'sr, 'sw, 'e) fwd_env" where
  "with_tunnel V P = P \<lparr>p_tunnel := tunnel P V\<rparr>"

definition http_program ::
    "capturing_cfg \<Rightarrow> ('cr, 'sr, 'sw, 'e) tls_env \<Rightarrow> ('cr, 'sr, 'sw, 'e) tunnel_env \<Rightarrow>
     ('cr, 'sr, 'sw, 'e) fwd_env \<Rightarrow> ('cr, 'sr, 'sw, 'e) fwd_env" where
  "http_program K T V P = (with_tunnel V P) \<lparr>p_connect := doConnect (with_tunnel V P) K T V\<rparr>"

definition socks_program ::
    "capturing_cfg \<Rightarrow> ('cr, 'sr, 'sw, 'e) tls_env \<Rightarrow> ('cr, 'sr, 'sw, 'e) tunnel_env \<Rightarrow>
     ('cr, 'sr, 'sw, 'e) fwd_env \<Rightarrow> ('cr, 'sr, 'sw, 'e) fwd_env" where
  "socks_program K T V P =
     (http_program K T V P) \<lparr>p_tunnel := socks_tunnel (with_tunnel V P) K T V\<rparr>"

section \<open>Tunnels are safe\<close>

definition tun_ok :: "(bytes \<Rightarrow> bytes) \<Rightarrow> cfg \<Rightarrow> URL \<Rightarrow> 'e tun \<Rightarrow> bool" where
  "tun_ok h C url t \<longleftrightarrow>
     world_ok C h (tn_w t) \<and> URL (tn_rq t) = url \<and> rq_ok (tn_rq t) \<and> sv_safe C (w_site (tn_w t)) url (tn_sv t) \<and>
     (isDirect (tn_sv t) \<longrightarrow> sv_hostPort (tn_sv t) = url_HostPort url)"

lemma tun_ok_fwd:
  "tun_ok h (p_C P) url (tunnel_start b out cli s) = fwd_ok h P url s"
  "fwd_ok h P url (tunnel_end t s1 s) = tun_ok h (p_C P) url t"
  by (simp_all add: tun_ok_def fwd_ok_def tunnel_start_def tunnel_end_def)

lemma tun_ok_frame:
  assumes "tn_w t' = tn_w t" "tn_sv t' = tn_sv t" "tn_rq t' = tn_rq t \<or> (\<exists>b. tn_rq t' = save_raw b (tn_rq t))" "tun_ok h C url t"
  shows "tun_ok h C url t'"
proof -
  have "rq_ok (save_raw b r) \<and> URL (save_raw b r) = URL r" if "rq_ok r" for b r
  proof (cases "responseNotSent r")
    case True
    then show ?thesis using save_raw_ok [OF that] by blast
  next
    case False
    then have "\<not> responseNotSent (save_raw b r)" "URL (save_raw b r) = URL r"
      by (auto simp: save_raw_def raw_write_def Request_releaseBuf_def responseNotSent_def split: option.splits)
    then show ?thesis by (simp add: rq_ok_def)
  qed
  then show ?thesis using assms by (auto simp: tun_ok_def)
qed

lemma tun_ok_world:
  assumes "tun_ok h C url t" "ss_mono C (w_site (tn_w t)) (w_site w)" "w_pool w = w_pool (tn_w t)"
    "tn_w t' = w" "tn_rq t' = tn_rq t" "isDirect (tn_sv t') = isDirect (tn_sv t)" "siteInfo (tn_sv t') = siteInfo (tn_sv t)"
    "sv_hostPort (tn_sv t') = sv_hostPort (tn_sv t)"
  shows "tun_ok h C url t'"
proof -
  have "sv_safe C (w_site w) url (tn_sv t)" using sv_safe_mono [OF assms(2)] assms(1) by (simp add: tun_ok_def)
  then have "sv_safe C (w_site w) url (tn_sv t')" using assms(6,7) by (simp add: sv_safe_def)
  then show ?thesis using assms pool_sites_mono [OF assms(2)] by (auto simp: tun_ok_def world_ok_def)
qed

lemma tun_TempBlocked:
  assumes "tun_ok h C url t" "maybeFake C (w_site (tn_w t)) (tn_sv t)"
  obtains w where "w_TempBlocked E (URL (tn_rq t)) (tn_w t) = Inr w" "ss_mono C (w_site (tn_w t)) (w_site w)" "w_pool w = w_pool (tn_w t)"
proof -
  have "sv_safe C (w_site (tn_w t)) (URL (tn_rq t)) (tn_sv t)" using assms(1) by (simp add: tun_ok_def)
  then obtain w where "w_TempBlocked E (URL (tn_rq t)) (tn_w t) = Inr w" by (rule sv_safe_TempBlocked [OF _ _ assms(2)]) auto
  then show ?thesis using that w_TempBlocked_mono by blast
qed

lemma c2s_read_ok:
  assumes "tun_ok h C url t"
  shows "\<exists>t'. c2s_read C E detect start rd t = Inr t' \<and> tun_ok h C url t'"
proof (cases rd)
  case (Data b)
  then show ?thesis using tun_ok_frame [OF _ _ _ assms] by (simp add: c2s_read_def)
next
  case (RdErr e)
  show ?thesis
  proof (cases "detect \<and> maybeFake C (w_site (tn_w t)) (tn_sv t) \<and> (isErrConnReset e \<or> e = EOF) \<and>
      maybeSSLErr (w_now E (tn_w t)) start (tn_sv t)")
    case True
    obtain w where w: "w_TempBlocked E (URL (tn_rq t)) (tn_w t) = Inr w" "ss_mono C (w_site (tn_w t)) (w_site w)" "w_pool w = w_pool (tn_w t)"
      using tun_TempBlocked [OF assms] True by blast
    then show ?thesis using RdErr True tun_ok_world [OF assms w(2,3)] by (simp add: c2s_read_def)
  next
    case False
    then show ?thesis using RdErr assms tun_ok_frame [OF _ _ _ assms] by (auto simp: c2s_read_def)
  qed
qed

lemma s2c_read_ok:
  assumes "tun_ok h C url t"
  shows "\<exists>t'. s2c_read C E rd res t = Inr t' \<and> tun_ok h C url t'"
proof (cases rd)
  case (Data b)
  then show ?thesis using tun_ok_frame [OF _ _ _ assms] by (simp add: s2c_read_def)
next
  case (RdErr e)
  show ?thesis
  proof (cases "maybeFake C (w_site (tn_w t)) (tn_sv t) \<and> maybeBlocked (c_HttpErrorCode C) (parentEmpty (tn_w t)) e")
    case True
    obtain w where w: "w_TempBlocked E (URL (tn_rq t)) (tn_w t) = Inr w" "ss_mono C (w_site (tn_w t)) (w_site w)" "w_pool w = w_pool (tn_w t)"
      using tun_TempBlocked [OF assms] True by blast
    then show ?thesis using RdErr True tun_ok_world [OF assms w(2,3)] by (simp add: s2c_read_def)
  next
    case False
    then show ?thesis using RdErr tun_ok_frame [OF _ _ _ assms] by (auto simp: s2c_read_def)
  qed
qed

lemma s2c_mark_ok:
  assumes "tun_ok h C url t"
  shows "tun_ok h C url (s2c_mark C E t)"
proof -
  let ?sv = "(tn_sv t) \<lparr>sv_state := svSendRecvResponse\<rparr>"
  obtain sv w where u: "(if directThreshold < tn_total t then updateVisit C E ?sv (tn_w t) else (?sv, tn_w t)) = (sv, w)" by fastforce
  have "ss_mono C (w_site (tn_w t)) (w_site w) \<and> w_pool w = w_pool (tn_w t) \<and> isDirect sv = isDirect (tn_sv t) \<and>
      siteInfo sv = siteInfo (tn_sv t) \<and> sv_hostPort sv = sv_hostPort (tn_sv t)"
    using u updateVisit_mono [of C E ?sv "tn_w t" sv w] by (auto simp: isDirect_def split: if_splits)
  then have "tun_ok h C url (t \<lparr>tn_sv := sv, tn_w := w\<rparr>)" using tun_ok_world [OF assms, of w] by simp
  then show ?thesis using u by (simp add: s2c_mark_def Let_def tun_ok_def rq_ok_def responseNotSent_def setState_def less_eq_rqState_def)
qed

lemma tunnel_act_ok:
  assumes "tunnel_act C E detect start a t = Some r" "tun_ok h C url t"
  shows "\<exists>t'. r = Inr t' \<and> tun_ok h C url t'"
proof (cases a)
  case (RetryWrite res)
  then show ?thesis using assms(1) tun_ok_frame [OF _ _ _ assms(2)]
    by (auto simp: c2s_retry_def c2s_next_def split: if_splits)
next
  case (BufferedWrite res)
  have "tn_w (c2s_buffered res t) = tn_w t" "tn_sv (c2s_buffered res t) = tn_sv t"
      "tn_rq (c2s_buffered res t) = tn_rq t \<or> (\<exists>b. tn_rq (c2s_buffered res t) = save_raw b (tn_rq t))"
    by (auto simp: c2s_buffered_def c2s_next_def tn_Write_def Let_def split: option.splits)
  then show ?thesis using assms(1) BufferedWrite tun_ok_frame [OF _ _ _ assms(2)] by (auto split: if_splits)
next
  case (ClientRead rd)
  then show ?thesis using assms(1) c2s_read_ok [OF assms(2)] by (auto split: if_splits)
next
  case (ClientWrite res)
  have "tn_w (c2s_write res b t) = tn_w t" "tn_sv (c2s_write res b t) = tn_sv t"
      "tn_rq (c2s_write res b t) = tn_rq t \<or> (\<exists>b'. tn_rq (c2s_write res b t) = save_raw b' (tn_rq t))" for b
    by (auto simp: c2s_write_def c2s_next_def tn_Write_def)
  then show ?thesis using assms(1) ClientWrite tun_ok_frame [OF _ _ _ assms(2)] by (auto split: if_splits c2s.splits)
next
  case (ServerRead rd res)
  then show ?thesis using assms(1) s2c_read_ok [OF assms(2)] by (auto split: if_splits)
next
  case ServerMark
  then show ?thesis using assms(1) s2c_mark_ok [OF assms(2)] by (auto split: if_splits)
next
  case Notify
  then show ?thesis using assms(1) tun_ok_frame [OF _ _ _ assms(2)] by (auto split: if_splits s2c.splits)
qed

lemma tunnel_exec_ok:
  assumes "tunnel_exec C E detect start acts t = Some r" "tun_ok h C url t"
  shows "\<exists>t'. r = Inr t' \<and> tun_ok h C url t'"
  using assms
proof (induction acts arbitrary: t)
  case (Cons a acts)
  then obtain r1 where r1: "tunnel_act C E detect start a t = Some r1" by (auto split: option.splits)
  then obtain t1 where "r1 = Inr t1" "tun_ok h C url t1" using tunnel_act_ok Cons.prems(2) by blast
  then show ?case using Cons r1 by auto
qed auto

lemma tunnel_safe: "p_C P' = p_C P \<Longrightarrow> answering.safe h P url (tunnel P' V)"
proof (rule answering.safeI)
  fix s res s1
  assume C: "p_C P' = p_C P" and a: "fwd_ok h P url s" "tunnel P' V s = Some (res, s1)"
  have start: "tun_ok h (p_C P) url (tunnel_start (te_buffered V s) [] [] s)" using a(1) by (simp add: tun_ok_fwd)
  obtain r where r: "tunnel_exec (p_C P) (p_E P') (te_detect V) (te_start V s) (te_run V s) (tunnel_start (te_buffered V s) [] [] s) = Some r"
    using a(2) by (auto simp: tunnel_def C split: option.splits)
  obtain t where "r = Inr t" "tun_ok h (p_C P) url t" using tunnel_exec_ok [OF r start] by blast
  then show "fwd_ok h P url s1 \<and> (\<forall>p. res \<noteq> Panic p)"
    using a(2) r tun_ok_fwd(2) [of h P url t] by (auto simp: tunnel_def C)
qed

text \<open>What is safe for an environment is safe for one with the same configuration, whatever its tunnels.\<close>

lemma answering_cong:
  assumes "p_C P' = p_C P"
  shows "answering.safe h P url m \<longleftrightarrow> answering.safe h P' url m"
proof -
  have "fwd_ok h P url = fwd_ok h P' url" using assms by (simp add: fwd_ok_def fun_eq_iff)
  then show ?thesis by (simp only: answering.safe_def)
qed

lemma doConnect_begin_safe:
  assumes "fwd_ok h P url s" "buffered (f_rq s)" "doConnect_begin P s = Some (res, s1)"
  shows "fwd_ok h P url s1 \<and> (\<forall>p. res \<noteq> Panic p)"
proof -
  let ?s = "on_rq (setState rsCreated) s"
  have ok: "fwd_sending h P url ?s"
    using assms(1,2) by (simp add: fwd_sending_def fwd_ok_def on_rq_def rq_ok_def setState_def buffered_def responseNotSent_def less_eq_rqState_def)
  then have ok': "fwd_ok h P url ?s" by (simp add: fwd_sending_def)
  show ?thesis
    using assms(3) sending.safeD [OF sendHTTPProxyRequestHeader_safe ok] answering.safeD [OF client_Write_safe ok'] ok'
    by (auto simp: doConnect_begin_def Let_def fwd_sending_def split: if_splits)
qed

lemma doConnect_safe:
  assumes "answering.safe h P url (tunnel P V)" "\<And>url. answering.safe h P url (p_tunnel P)" "tls_ok T"
    "peeking_reader (p_cli P) B str fin"
    and "fwd_ok h P url s" "buffered (f_rq s)" "doConnect P K T V s = Some (res, s1)"
  shows "fwd_ok h P url s1 \<and> (\<forall>p. res \<noteq> Panic p)"
proof (cases "capturing_host P K (on_rq (setState rsCreated) s)")
  case True
  have "fwd_ok h P url (on_rq (setState rsCreated) s)"
    using assms(5,6) by (simp add: fwd_ok_def on_rq_def rq_ok_def setState_def buffered_def)
  then show ?thesis
    using assms(7) True answering.safeD [OF doCaptureConnect_safe [OF assms(2-4)]] by (simp add: doConnect_def)
next
  case False
  then have run: "io_bind (doConnect_begin P) (\<lambda>_. tunnel P V) s = Some (res, s1)" using assms(7) by (simp add: doConnect_def)
  then obtain r2 s2 where b: "doConnect_begin P s = Some (r2, s2)" by (cases "doConnect_begin P s") (auto simp: io_bind_def)
  note i = doConnect_begin_safe [OF assms(5,6) b]
  show ?thesis
  proof (cases r2)
    case (Ok u)
    then have "tunnel P V s2 = Some (res, s1)" using run b by (simp add: io_bind_def)
    then show ?thesis using answering.safeD [OF assms(1)] i by blast
  qed (use run b i in \<open>auto simp: io_bind_def\<close>)
qed

lemma socks_tunnel_safe:
  assumes "answering.safe h P url (tunnel P V)" "\<And>url. answering.safe h P url (p_tunnel P)" "tls_ok T"
    "peeking_reader (p_cli P) B str fin"
  shows "answering.safe h P url (socks_tunnel P K T V)"
proof (rule answering.safeI)
  fix s res s1
  assume a: "fwd_ok h P url s" "socks_tunnel P K T V s = Some (res, s1)"
  show "fwd_ok h P url s1 \<and> (\<forall>p. res \<noteq> Panic p)"
  proof (cases "capturing_host P K s")
    case True
    then have "doCaptureSocks P T s = Some (res, s1)" using a(2) by (simp add: socks_tunnel_def)
    then show ?thesis by (rule answering.safeD [OF doCaptureSocks_safe [OF assms(2-4)] a(1)])
  next
    case False
    then have "tunnel P V s = Some (res, s1)" using a(2) by (simp add: socks_tunnel_def)
    then show ?thesis by (rule answering.safeD [OF assms(1) a(1)])
  qed
qed

lemma program_tunnels_ok:
  assumes "tls_ok T" "peeking_reader (p_cli P) B str fin"
  shows "tunnels_ok h (http_program K T V P)" "tunnels_ok h (socks_program K T V P)"
proof -
  let ?P = "with_tunnel V P" and ?H = "http_program K T V P" and ?S = "socks_program K T V P"
  have C: "p_C ?H = p_C ?P" "p_C ?S = p_C ?P" "p_C ?P = p_C P" by (simp_all add: http_program_def socks_program_def with_tunnel_def)
  have cli: "peeking_reader (p_cli ?P) B str fin" using assms(2) by (simp add: with_tunnel_def)
  have t: "answering.safe h ?P url (tunnel ?P V)" and pt: "answering.safe h ?P url (p_tunnel ?P)" for url
    using tunnel_safe [of _ ?P] by (auto simp: with_tunnel_def)
  have con: "fwd_ok h ?P url s1 \<and> (\<forall>p. res \<noteq> Panic p)"
    if "fwd_ok h ?P url s" "buffered (f_rq s)" "doConnect ?P K T V s = Some (res, s1)" for url s res s1
    by (rule doConnect_safe [OF t pt assms(1) cli that])
  have ok: "fwd_ok h ?H url s = fwd_ok h ?P url s" "fwd_ok h ?S url s = fwd_ok h ?P url s" for url s
    using C by (simp_all add: fwd_ok_def)
  have f: "p_tunnel ?H = p_tunnel ?P" "p_connect ?H = doConnect ?P K T V" "p_connect ?S = doConnect ?P K T V"
      "p_tunnel ?S = socks_tunnel ?P K T V"
    by (simp_all add: http_program_def socks_program_def with_tunnel_def)
  show "tunnels_ok h ?H"
    unfolding tunnels_ok_def f ok using con pt answering_cong [OF C(1)] by blast
  show "tunnels_ok h ?S"
    unfolding tunnels_ok_def f ok
    using con socks_tunnel_safe [OF t pt assms(1) cli] answering_cong [OF C(2)] by blast
qed


section \<open>The whole proxy\<close>

text \<open>The client has an IP address, and the listener serves HTTP alone.\<close>

definition http_listener :: "('cr, 'sr, 'sw, 'e) cli_env \<Rightarrow> bool" where
  "http_listener Q \<longleftrightarrow>
     (\<exists>ip port. SplitHostPort (remoteAddr (q_addr Q)) = Some (ip, port) \<and> ParseIP ip \<noteq> None) \<and>
     SplitHostPort (localAddr (q_addr Q)) \<noteq> None \<and> (\<forall>a h k. q_proxy Q \<noteq> MixedProxy a h k)"

text \<open>
  No HTTP client makes the proxy panic, and none leaves the shared state inconsistent: not by its requests, not by
  CONNECT tunnels in whatever order their two goroutines proceed, not by WebSockets and not by tunnels that are captured. In a
  world in which every pooled direct connection belongs to a known or always direct host, a client can send any sequence of
  requests and servers, parents and handshakes can answer anything; no request ends in a panic, and the world stays
  consistent. Each request has to name a host that belongs to its host and port, and connections of parents must not be
  direct ones. The reader of the client has the laws of a buffered reader.
\<close>

theorem proxy_never_panics:
  assumes Q: "q_P Q = http_program K T V P" "http_listener Q" "env_conns not_direct (xe_parent (p_E P))"
    and env: "tls_ok T" "peeking_reader (p_cli P) B str fin"
    and run: "serve_steps Q s0 res s" "cli_ok hostOf Q s0" "\<forall>s. serve_steps Q s0 (Ok NextRequest) s \<longrightarrow> host_agrees hostOf Q s"
  shows "(\<forall>p. res \<noteq> Panic p) \<and> cli_ok hostOf Q s"
proof -
  have "p_E (q_P Q) = p_E P" by (simp add: Q(1) http_program_def with_tunnel_def)
  then have "listener_ok hostOf Q"
    using Q program_tunnels_ok(1) [OF env, of hostOf K V] by (auto simp: listener_ok_def http_listener_def)
  then show ?thesis using serve_never_panics [OF run(1,2) _ run(3)] by blast
qed



section \<open>An example\<close>

definition ex_tunnel :: "(mem_state, mem_state, bytes, bytes) tunnel_env" where
  "ex_tunnel = \<lparr>te_detect = False,
     te_run = (\<lambda>s. [RetryWrite None, ServerRead (Data ''hello'') None, ServerMark, BufferedWrite None,
       ServerRead (RdErr EOF) None, ClientRead (RdErr EOF)]),
     te_start = (\<lambda>s. 0), te_buffered = (\<lambda>s. Some ''hi''), te_streams = (\<lambda>s. s)\<rparr>"

definition ex_capturing :: capturing_cfg where
  "ex_capturing = \<lparr>cc_Capture = True, cc_domains = [''example.org'']\<rparr>"

lemma ex_program_simps [simp]:
  "p_C (http_program K T V P) = p_C P" "p_E (http_program K T V P) = p_E P" "p_cli (http_program K T V P) = p_cli P"
  "p_cw (http_program K T V P) = p_cw P" "p_uni (http_program K T V P) = p_uni P"
  "p_C (socks_program K T V P) = p_C P" "p_E (socks_program K T V P) = p_E P" "p_cli (socks_program K T V P) = p_cli P"
  "p_cw (socks_program K T V P) = p_cw P"
  by (simp_all add: http_program_def socks_program_def with_tunnel_def)

text \<open>The tunnel of the example runs to its end.\<close>

lemma ex_tunnel_ends:
  "\<exists>s1. tunnel (ex_fwd_env buffer_write) ex_tunnel (ex_fwd [] [] [] (ex_post 1)) = Some (Fail EOF, s1) \<and> state (f_rq s1) = rsRecvBody"
  by (simp add: tunnel_def ex_tunnel_def ex_fwd_env_def tunnel_start_def tunnel_end_def tunnel_result_def isRetry_def ex_post_def
      zeroRequest_def c2s_retry_def c2s_buffered_def c2s_read_def s2c_read_def s2c_mark_def c2s_next_def tn_Write_def net_read_def
      net_write_def directThreshold_def go_int_def save_raw_def setState_def maybeFake_def ex_fwd_def newServerConn_def
      raw_write_def Request_releaseBuf_def Let_def)

theorem proxy_never_panics_witness:
  "\<exists>s. serve_steps ((ex_cli_env ex_listener) \<lparr>q_P := http_program ex_capturing ex_tls ex_tunnel (ex_fwd_env buffer_write)\<rparr>)
       (ex_cli [ex_request]) (Ok CloseClient) s \<and>
     cli_ok (takeWhile (\<lambda>c. c \<noteq> CHR '':''))
       ((ex_cli_env ex_listener) \<lparr>q_P := http_program ex_capturing ex_tls ex_tunnel (ex_fwd_env buffer_write)\<rparr>) s"
proof -
  let ?P = "ex_fwd_env buffer_write" and ?h = "takeWhile (\<lambda>c. c \<noteq> CHR '':'')" and ?s = "ex_cli [ex_request]"
  let ?Q = "(ex_cli_env ex_listener) \<lparr>q_P := http_program ex_capturing ex_tls ex_tunnel ?P\<rparr>"
  obtain q r' t1 where pr: "parseRequest (\<lambda>s. s) False (mem_reader httpBufSize) zeroRequest (mem_open [ex_request] EOF) = Some (None, q, r')"
      "isSelfRequest (q_self ?Q) q = (False, q)" "URL q = ex_request_url"
      "check_auth (ex_cli_env ex_listener) (?s \<lparr>k_f := (k_f ?s) \<lparr>f_rq := q, f_cli := r'\<rparr>\<rparr>) = Some (Ok False, t1)"
    using ex_not_admitted [of ex_listener] by auto
  have ca: "check_auth ?Q t = check_auth (ex_cli_env ex_listener) t" for t
    by (simp add: check_auth_def ex_cli_env_def)
  have sr: "serve_request ?Q ?s = Some (Ok CloseClient, t1)"
    using pr ca by (simp add: serve_request_def io_bind_def io_ret_def)
  then have st: "serve_steps ?Q ?s (Ok CloseClient) t1" by (rule serve_steps.more [OF serve_steps.first])
  have only: "res = Ok NextRequest \<longrightarrow> s = ?s" if "serve_steps ?Q ?s res s" for res s
    using that sr by (induction rule: serve_steps.induct) auto
  have "host_agrees ?h ?Q ?s"
    using pr by (simp add: host_agrees_def next_request_def ex_request_url_def)
  then have "\<forall>s. serve_steps ?Q ?s (Ok NextRequest) s \<longrightarrow> host_agrees ?h ?Q s" using only by blast
  moreover have "http_listener ?Q" "env_conns not_direct (xe_parent (p_E ?P))"
    using ex_listener_ok by (simp_all add: listener_ok_def http_listener_def)
  moreover have "cli_ok ?h ?Q ?s" using ex_cli_ok [of ex_listener] by (simp add: cli_ok_def)
  moreover have "peeking_reader (p_cli ?P) httpBufSize mem_str mr_err" using mem_peek.peeking_reader_axioms by simp
  moreover have "q_P ?Q = http_program ex_capturing ex_tls ex_tunnel ?P" by simp
  ultimately show ?thesis using proxy_never_panics [OF _ _ _ ex_tls_ok _ st, of ex_capturing ex_tunnel ?P] st by blast
qed


end
