(* ===== verification/Lifecycle.thy ===== *)
theory Lifecycle
  imports Conn_Pool Listen
begin

text \<open>
  The life of the process, from main.go, main_unix.go and the methods \<open>Serve\<close> of the listening proxies: every listener
  accepts clients in a loop of its own, another goroutine of each waits for the end, the signal handler announces it, and
  main waits for the listeners. Blocks of code between two blocking calls, and between two reads of the variable \<open>exit\<close> that
  loop and goroutine share without a lock, are single steps.
\<close>

section \<open>Listeners\<close>

datatype handler = serveHTTP | serveSOCKS | serveMIXED

datatype accepted = Accepted nat | AcceptError err

text \<open>Where the loop of \<open>Serve\<close> is: before \<open>net.Listen\<close>, in \<open>Accept\<close>, before the first and before the second look at \<open>exit\<close>.\<close>

datatype serve_pc = Starting | Accepting | CheckError accepted | CheckExit accepted | Returned | Crashed bytes

datatype quitter = NoQuitter | AwaitQuit | CloseListener | QuitterDone

record listening =
  l_proxy :: listen_proxy
  l_pc :: serve_pc
  l_exit :: bool
  l_closed :: bool
  l_quitter :: quitter

definition newListening :: "listen_proxy \<Rightarrow> listening" where
  "newListening p = \<lparr>l_proxy = p, l_pc = Starting, l_exit = False, l_closed = False, l_quitter = NoQuitter\<rparr>"

fun handler_of :: "listen_proxy \<Rightarrow> handler" where
  "handler_of (HttpProxy p) = serveHTTP"
| "handler_of (CowProxy addr m passwd) = serveHTTP"
| "handler_of (SocksProxy addr) = serveSOCKS"
| "handler_of (MixedProxy addr http socks) = serveMIXED"

text \<open>The start of \<open>Serve\<close>, up to the loop; \<open>r\<close> is the error of \<open>net.Listen\<close>. Only a cow listener returns quietly.\<close>

definition http_Serve :: "err option \<Rightarrow> httpProxy \<Rightarrow> listening \<Rightarrow> listening" where
  "http_Serve r p l =
     (if r \<noteq> None then l \<lparr>l_pc := Crashed ''listen http failed''\<rparr>
      else if SplitHostPort (hx_addr p) = None then l \<lparr>l_quitter := AwaitQuit, l_pc := Crashed ''split port''\<rparr>
      else l \<lparr>l_quitter := AwaitQuit, l_pc := Accepting\<rparr>)"

definition cow_Serve :: "err option \<Rightarrow> listening \<Rightarrow> listening" where
  "cow_Serve r l =
     (if r \<noteq> None then l \<lparr>l_pc := Returned\<rparr> else l \<lparr>l_quitter := AwaitQuit, l_pc := Accepting\<rparr>)"

definition socks_Serve :: "err option \<Rightarrow> listening \<Rightarrow> listening" where
  "socks_Serve r l =
     (if r \<noteq> None then l \<lparr>l_pc := Crashed ''listen socks5 failed''\<rparr>
      else l \<lparr>l_quitter := AwaitQuit, l_pc := Accepting\<rparr>)"

definition mixed_Serve :: "err option \<Rightarrow> listening \<Rightarrow> listening" where
  "mixed_Serve r l =
     (if r \<noteq> None then l \<lparr>l_pc := Crashed ''listen mixed http+socks5 failed''\<rparr>
      else l \<lparr>l_quitter := AwaitQuit, l_pc := Accepting\<rparr>)"

definition Serve_start :: "err option \<Rightarrow> listening \<Rightarrow> listening" where
  "Serve_start r l =
     (case l_proxy l of
        HttpProxy p \<Rightarrow> http_Serve r p l
      | CowProxy _ _ _ \<Rightarrow> cow_Serve r l
      | SocksProxy _ \<Rightarrow> socks_Serve r l
      | MixedProxy _ _ _ \<Rightarrow> mixed_Serve r l)"

lemmas Serve_defs = Serve_start_def http_Serve_def cow_Serve_def socks_Serve_def mixed_Serve_def

text \<open>The first look at \<open>exit\<close>; \<open>hosts\<close> is the order in which \<open>CloseAll\<close> visits the map of idle connections.\<close>

definition check_error :: "bytes list \<Rightarrow> time \<Rightarrow> accepted \<Rightarrow> listening \<Rightarrow> ConnPool \<Rightarrow> listening \<times> ConnPool" where
  "check_error hosts now a l cp =
     (case a of
        AcceptError e \<Rightarrow>
          (if \<not> l_exit l then
             (l \<lparr>l_pc := Accepting\<rparr>, if isErrTooManyOpenFd e then CloseAll hosts now cp else cp)
           else (l \<lparr>l_pc := CheckExit a\<rparr>, cp))
      | Accepted c \<Rightarrow> (l \<lparr>l_pc := CheckExit a\<rparr>, cp))"

text \<open>The second look, and the start of the goroutine for a client; it would crash on the connection of a failed \<open>Accept\<close>.\<close>

definition check_exit :: "accepted \<Rightarrow> listening \<Rightarrow> listening \<times> (handler \<times> nat) option" where
  "check_exit a l =
     (if l_exit l then (l \<lparr>l_pc := Returned\<rparr>, None)
      else
        (case a of
           Accepted c \<Rightarrow> (l \<lparr>l_pc := Accepting\<rparr>, Some (handler_of (l_proxy l), c))
         | AcceptError e \<Rightarrow> (l \<lparr>l_pc := Crashed ''nil pointer dereference''\<rparr>, None)))"

text \<open>The goroutine that ends a listener: it sets \<open>exit\<close>, then closes the listener.\<close>

definition quitter_step :: "bool \<Rightarrow> listening \<Rightarrow> listening option" where
  "quitter_step quit l =
     (case l_quitter l of
        AwaitQuit \<Rightarrow> (if quit then Some (l \<lparr>l_quitter := CloseListener, l_exit := True\<rparr>) else None)
      | CloseListener \<Rightarrow> Some (l \<lparr>l_quitter := QuitterDone, l_closed := True\<rparr>)
      | _ \<Rightarrow> None)"

section \<open>The process\<close>

record process =
  pr_listeners :: "listening list"
  pr_quit :: bool
  pr_pool :: ConnPool
  pr_clients :: "(nat \<times> handler \<times> nat) list"
  pr_wg :: int
  pr_stored :: nat
  pr_relaunch :: bool
  pr_ended :: bool

definition start_process :: "listen_proxy list \<Rightarrow> ConnPool \<Rightarrow> process" where
  "start_process ps cp =
     \<lparr>pr_listeners = map newListening ps, pr_quit = False, pr_pool = cp, pr_clients = [], pr_wg = int (length ps),
      pr_stored = 0, pr_relaunch = False, pr_ended = False\<rparr>"

definition set_listener :: "nat \<Rightarrow> listening \<Rightarrow> process \<Rightarrow> process" where
  "set_listener i l s =
     s \<lparr>pr_listeners := (pr_listeners s)[i := l],
        pr_wg := (if l_pc l = Returned then pr_wg s - 1 else pr_wg s)\<rparr>"

text \<open>\<open>sigHandler\<close>: the first signal stores the site statistics and closes the channel \<open>quit\<close>.\<close>

definition sigHandler :: "bool \<Rightarrow> process \<Rightarrow> process" where
  "sigHandler sigusr1 s =
     s \<lparr>pr_stored := pr_stored s + 1, pr_relaunch := (pr_relaunch s \<or> sigusr1), pr_quit := True\<rparr>"

text \<open>Steps of the listeners and of main. After a crash nothing runs any more.\<close>

definition crashed :: "process \<Rightarrow> bool" where
  "crashed s \<longleftrightarrow> (\<exists>l \<in> set (pr_listeners s). \<exists>m. l_pc l = Crashed m)"

inductive work_step :: "process \<Rightarrow> process \<Rightarrow> bool" where
  start: "\<not> crashed s \<Longrightarrow> i < length (pr_listeners s) \<Longrightarrow> l_pc (pr_listeners s ! i) = Starting \<Longrightarrow>
    work_step s (set_listener i (Serve_start r (pr_listeners s ! i)) s)"
| closed: "\<not> crashed s \<Longrightarrow> i < length (pr_listeners s) \<Longrightarrow> l_pc (pr_listeners s ! i) = Accepting \<Longrightarrow>
    l_closed (pr_listeners s ! i) \<Longrightarrow>
    work_step s (set_listener i ((pr_listeners s ! i) \<lparr>l_pc := CheckError (AcceptError e)\<rparr>) s)"
| error: "\<not> crashed s \<Longrightarrow> i < length (pr_listeners s) \<Longrightarrow> l_pc (pr_listeners s ! i) = CheckError a \<Longrightarrow>
    check_error hosts now a (pr_listeners s ! i) (pr_pool s) = (l, cp) \<Longrightarrow>
    work_step s (set_listener i l (s \<lparr>pr_pool := cp\<rparr>))"
| exit: "\<not> crashed s \<Longrightarrow> i < length (pr_listeners s) \<Longrightarrow> l_pc (pr_listeners s ! i) = CheckExit a \<Longrightarrow>
    check_exit a (pr_listeners s ! i) = (l, new) \<Longrightarrow>
    work_step s (set_listener i l (s \<lparr>pr_clients := pr_clients s @ (case new of None \<Rightarrow> [] | Some c \<Rightarrow> [(i, c)])\<rparr>))"
| quitter: "\<not> crashed s \<Longrightarrow> i < length (pr_listeners s) \<Longrightarrow> quitter_step (pr_quit s) (pr_listeners s ! i) = Some l \<Longrightarrow>
    work_step s (s \<lparr>pr_listeners := (pr_listeners s)[i := l]\<rparr>)"
| main: "\<not> crashed s \<Longrightarrow> pr_wg s = 0 \<Longrightarrow> \<not> pr_ended s \<Longrightarrow> work_step s (s \<lparr>pr_ended := True\<rparr>)"

text \<open>\<open>Accept\<close> on a listener that is not closed waits for a client or for an error; on a closed one it fails, see above.\<close>

inductive arrival :: "process \<Rightarrow> (nat \<times> nat) list \<Rightarrow> process \<Rightarrow> bool" where
  arrival: "\<not> crashed s \<Longrightarrow> i < length (pr_listeners s) \<Longrightarrow> l_pc (pr_listeners s ! i) = Accepting \<Longrightarrow>
    \<not> l_closed (pr_listeners s ! i) \<Longrightarrow>
    arrival s (case a of Accepted c \<Rightarrow> [(i, c)] | _ \<Rightarrow> []) (set_listener i ((pr_listeners s ! i) \<lparr>l_pc := CheckError a\<rparr>) s)"

text \<open>A run, with the connections accepted in it: in between come signals, and the clients use the pool.\<close>

inductive proc_run :: "listen_proxy list \<Rightarrow> (nat \<times> nat) list \<Rightarrow> process \<Rightarrow> bool" for ps where
  run_start: "cp_ok cp \<Longrightarrow> proc_run ps [] (start_process ps cp)"
| run_work: "proc_run ps acc s \<Longrightarrow> work_step s s' \<Longrightarrow> proc_run ps acc s'"
| run_arrival: "proc_run ps acc s \<Longrightarrow> arrival s new s' \<Longrightarrow> proc_run ps (acc @ new) s'"
| run_signal: "proc_run ps acc s \<Longrightarrow> \<not> pr_quit s \<Longrightarrow> proc_run ps acc (sigHandler usr1 s)"
| run_pool: "proc_run ps acc s \<Longrightarrow> pool_step (pr_pool s) cp i out \<Longrightarrow> proc_run ps acc (s \<lparr>pr_pool := cp\<rparr>)"

section \<open>Invariant\<close>

definition of_listener :: "nat \<Rightarrow> (nat \<times> 'a) list \<Rightarrow> 'a list" where
  "of_listener i xs = map snd (filter (\<lambda>x. fst x = i) xs)"

lemma of_listener_simps [simp]:
  "of_listener i [] = []" "of_listener i (xs @ ys) = of_listener i xs @ of_listener i ys"
  "of_listener i [(j, x)] = (if i = j then [x] else [])"
  by (auto simp: of_listener_def)

text \<open>The connection a listener has accepted and not handed on yet.\<close>

fun in_flight :: "serve_pc \<Rightarrow> nat list" where
  "in_flight (CheckError (Accepted c)) = [c]"
| "in_flight (CheckExit (Accepted c)) = [c]"
| "in_flight _ = []"

definition listener_inv :: "bool \<Rightarrow> listen_proxy \<Rightarrow> nat list \<Rightarrow> (handler \<times> nat) list \<Rightarrow> listening \<Rightarrow> bool" where
  "listener_inv quit p acc cl l \<longleftrightarrow>
     l_proxy l = p \<and> (\<forall>c \<in> set cl. fst c = handler_of p) \<and>
     (if l_pc l = Returned then \<exists>c. acc = map snd cl @ c \<and> length c \<le> 1 else acc = map snd cl @ in_flight (l_pc l)) \<and>
     (l_exit l \<longrightarrow> quit) \<and> (l_exit l \<longleftrightarrow> l_quitter l = CloseListener \<or> l_quitter l = QuitterDone) \<and>
     (l_closed l \<longleftrightarrow> l_quitter l = QuitterDone) \<and>
     (l_pc l = Starting \<longrightarrow> l_quitter l = NoQuitter) \<and>
     (l_quitter l = NoQuitter \<longrightarrow> (\<exists>m. l_pc l \<in> {Starting, Returned, Crashed m})) \<and>
     l_pc l \<noteq> Crashed ''nil pointer dereference'' \<and>
     (\<forall>e. l_pc l = CheckExit (AcceptError e) \<longrightarrow> l_exit l) \<and>
     (l_pc l = Returned \<longrightarrow> l_exit l \<or> (\<exists>addr m pw. p = CowProxy addr m pw))"

definition proc_inv :: "listen_proxy list \<Rightarrow> (nat \<times> nat) list \<Rightarrow> process \<Rightarrow> bool" where
  "proc_inv ps acc s \<longleftrightarrow>
     length (pr_listeners s) = length ps \<and>
     (\<forall>i < length ps. listener_inv (pr_quit s) (ps ! i) (of_listener i acc) (of_listener i (pr_clients s)) (pr_listeners s ! i)) \<and>
     (\<forall>i. length ps \<le> i \<longrightarrow> of_listener i acc = [] \<and> of_listener i (pr_clients s) = []) \<and>
     pr_wg s = int (length (filter (\<lambda>l. l_pc l \<noteq> Returned) (pr_listeners s))) \<and>
     pr_stored s = (if pr_quit s then 1 else 0) \<and> (pr_relaunch s \<longrightarrow> pr_quit s) \<and>
     (pr_ended s \<longrightarrow> pr_wg s = 0) \<and> cp_ok (pr_pool s)"


lemma length_filter_update:
  "i < length xs \<Longrightarrow> int (length (filter P (xs[i := x]))) =
     int (length (filter P xs)) - (if P (xs ! i) then 1 else 0) + (if P x then 1 else 0)"
proof (induction xs arbitrary: i)
  case (Cons y ys)
  show ?case
  proof (cases i)
    case (Suc k)
    then show ?thesis using Cons.IH [of k] Cons.prems by auto
  qed auto
qed simp

lemma of_listener_other: "(\<forall>x \<in> set xs. fst x = i) \<Longrightarrow> j \<noteq> i \<Longrightarrow> of_listener j xs = []"
  by (auto simp: of_listener_def filter_empty_conv)

lemma wg_positive:
  assumes "proc_inv ps acc s" "i < length ps" "l_pc (pr_listeners s ! i) \<noteq> Returned"
  shows "0 < pr_wg s" "\<not> pr_ended s"
proof -
  have "pr_listeners s ! i \<in> set (filter (\<lambda>l. l_pc l \<noteq> Returned) (pr_listeners s))" using assms by (simp add: proc_inv_def)
  then show "0 < pr_wg s" using assms(1) by (auto simp: proc_inv_def simp del: filter_set set_filter intro: length_pos_if_in_set)
  then show "\<not> pr_ended s" using assms(1) by (auto simp: proc_inv_def)
qed

lemma set_listener_inv:
  assumes "proc_inv ps acc s" "i < length ps" "l_pc (pr_listeners s ! i) \<noteq> Returned" "cp_ok cp"
    and own: "\<forall>x \<in> set new. fst x = i" "\<forall>x \<in> set newc. fst x = i"
    and l: "listener_inv (pr_quit s) (ps ! i) (of_listener i (acc @ new)) (of_listener i (pr_clients s @ newc)) l"
  shows "proc_inv ps (acc @ new) (set_listener i l (s \<lparr>pr_pool := cp, pr_clients := pr_clients s @ newc\<rparr>))"
proof -
  have len: "length (pr_listeners s) = length ps" using assms(1) by (simp add: proc_inv_def)
  have "listener_inv (pr_quit s) (ps ! j) (of_listener j (acc @ new)) (of_listener j (pr_clients s @ newc)) ((pr_listeners s)[i := l] ! j)"
    if "j < length ps" for j
    using assms(1) that l len of_listener_other [OF own(1)] of_listener_other [OF own(2)]
    by (cases "j = i") (auto simp: proc_inv_def)
  moreover have "of_listener j (acc @ new) = [] \<and> of_listener j (pr_clients s @ newc) = []" if "length ps \<le> j" for j
    using assms(1,2) that of_listener_other [OF own(1)] of_listener_other [OF own(2)] by (auto simp: proc_inv_def)
  moreover note wg_positive [OF assms(1-3)]
  moreover have "int (length (filter (\<lambda>l. l_pc l \<noteq> Returned) ((pr_listeners s)[i := l]))) =
      (if l_pc l = Returned then pr_wg s - 1 else pr_wg s)"
    using assms(1-3) len by (simp add: length_filter_update proc_inv_def)
  ultimately show ?thesis using assms(1,4) len unfolding proc_inv_def set_listener_def by simp
qed

lemma CloseAll_ok: "cp_ok cp \<Longrightarrow> cp_ok (CloseAll hosts now cp)"
proof -
  assume ok: "cp_ok cp"
  have fold: "cp_ok (fold (\<lambda>(h, i) cp. snd (closeServerConn i h now True cp)) L cp) \<and>
      length (cp_chans (fold (\<lambda>(h, i) cp. snd (closeServerConn i h now True cp)) L cp)) = length (cp_chans cp)"
    if "cp_ok cp" "\<forall>(h, i) \<in> set L. i < length (cp_chans cp)" for L cp
    using that
  proof (induction L arbitrary: cp)
    case (Cons x L)
    obtain h i where x: "x = (h, i)" by fastforce
    obtain d cp1 where c: "closeServerConn i h now True cp = (d, cp1)" by fastforce
    have "cp_ok cp1" "length (cp_chans cp1) = length (cp_chans cp)"
      using closeServerConn_ok [OF Cons.prems(1) _ c] Cons.prems(2) x by auto
    then show ?case using Cons.IH [of cp1] Cons.prems(2) x c by auto
  qed simp
  let ?L = "map (\<lambda>h. (h, the (idleConn cp h))) (filter (\<lambda>h. idleConn cp h \<noteq> None) hosts)"
  have "\<forall>(h, i) \<in> set ?L. i < length (cp_chans cp)" using ok by (auto simp: cp_ok_def)
  then have ok1: "cp_ok (fold (\<lambda>(h, i) cp. snd (closeServerConn i h now True cp)) ?L cp)" using fold [OF ok] by blast
  obtain d cp2 where "closeMuxConn now True (fold (\<lambda>(h, i) cp. snd (closeServerConn i h now True cp)) ?L cp) = (d, cp2)"
    by fastforce
  then show ?thesis using closeMuxConn_ok [OF ok1] by (simp add: CloseAll_def Let_def)
qed

lemma listener_step_inv:
  assumes "listener_inv quit p acc cl l"
  shows "l_pc l = Starting \<Longrightarrow> listener_inv quit p acc cl (Serve_start r l)"
    and "l_pc l = Accepting \<Longrightarrow> listener_inv quit p (acc @ (case a of Accepted c \<Rightarrow> [c] | _ \<Rightarrow> [])) cl (l \<lparr>l_pc := CheckError a\<rparr>)"
    and "l_pc l = CheckError a \<Longrightarrow> listener_inv quit p acc cl (fst (check_error hosts now a l cp))"
    and "l_pc l = CheckExit a \<Longrightarrow>
      listener_inv quit p acc (cl @ (case snd (check_exit a l) of None \<Rightarrow> [] | Some c \<Rightarrow> [c])) (fst (check_exit a l))"
    and "quitter_step quit l = Some l' \<Longrightarrow> listener_inv quit p acc cl l'"
proof -
  show "listener_inv quit p acc cl (Serve_start r l)" if "l_pc l = Starting"
    using assms that unfolding listener_inv_def Serve_defs
    by (auto split: listen_proxy.splits)
  show "listener_inv quit p (acc @ (case a of Accepted c \<Rightarrow> [c] | _ \<Rightarrow> [])) cl (l \<lparr>l_pc := CheckError a\<rparr>)" if "l_pc l = Accepting"
    using assms that unfolding listener_inv_def by (cases a) auto
  show "listener_inv quit p acc cl (fst (check_error hosts now a l cp))" if "l_pc l = CheckError a"
    using assms that unfolding listener_inv_def check_error_def by (cases a) auto
  show "listener_inv quit p acc (cl @ (case snd (check_exit a l) of None \<Rightarrow> [] | Some c \<Rightarrow> [c])) (fst (check_exit a l))"
    if "l_pc l = CheckExit a"
    using assms that unfolding listener_inv_def check_exit_def by (cases a) auto
  show "listener_inv quit p acc cl l'" if "quitter_step quit l = Some l'"
    using assms that unfolding listener_inv_def quitter_step_def by (auto split: quitter.splits if_splits)
qed


lemma work_step_inv:
  assumes inv: "proc_inv ps acc s" and step: "work_step s s'"
  shows "proc_inv ps acc s'"
proof -
  have len: "length (pr_listeners s) = length ps" and cp: "cp_ok (pr_pool s)" using inv by (simp_all add: proc_inv_def)
  have l: "listener_inv (pr_quit s) (ps ! i) (of_listener i acc) (of_listener i (pr_clients s)) (pr_listeners s ! i)"
    if "i < length ps" for i using inv that by (simp add: proc_inv_def)
  show ?thesis
    using step
  proof (cases rule: work_step.cases)
    case (start i r)
    then show ?thesis
      using set_listener_inv [OF inv _ _ cp, of i "[]" "[]"] l [of i] listener_step_inv(1) len by simp
  next
    case (closed i e)
    then show ?thesis
      using set_listener_inv [OF inv _ _ cp, of i "[]" "[]"] listener_step_inv(2) [OF l, of i "AcceptError e"] len by simp
  next
    case (error i a hosts now li cp1)
    have "cp_ok cp1" using error(5) cp CloseAll_ok by (auto simp: check_error_def split: accepted.splits if_splits)
    then show ?thesis
      using error set_listener_inv [OF inv, of i cp1 "[]" "[]" li] listener_step_inv(3) [OF l, of i a hosts now "pr_pool s"] len by simp
  next
    case (exit i a li new)
    then show ?thesis
      using set_listener_inv [OF inv, of i "pr_pool s" "[]" "case new of None \<Rightarrow> [] | Some c \<Rightarrow> [(i, c)]" li]
        listener_step_inv(4) [OF l, of i a] len cp
      by (cases new) simp_all
  next
    case (quitter i li)
    have pc: "l_pc li = l_pc (pr_listeners s ! i)" using quitter(4) by (auto simp: quitter_step_def split: quitter.splits if_splits)
    have "length (filter (\<lambda>l. l_pc l \<noteq> Returned) ((pr_listeners s)[i := li])) = length (filter (\<lambda>l. l_pc l \<noteq> Returned) (pr_listeners s))"
      using length_filter_update [OF quitter(3), of "\<lambda>l. l_pc l \<noteq> Returned" li] pc by simp
    moreover have "listener_inv (pr_quit s) (ps ! j) (of_listener j acc) (of_listener j (pr_clients s)) ((pr_listeners s)[i := li] ! j)"
      if "j < length ps" for j
      using l [OF that] listener_step_inv(5) [OF l quitter(4)] len quitter(3) by (cases "j = i") auto
    ultimately show ?thesis using inv quitter(1) by (auto simp: proc_inv_def)
  next
    case main
    then show ?thesis using inv by (simp add: proc_inv_def)
  qed
qed

lemma arrival_inv:
  assumes inv: "proc_inv ps acc s" and step: "arrival s new s'"
  shows "proc_inv ps (acc @ new) s'"
  using step
proof (cases rule: arrival.cases)
  case (arrival i a)
  have len: "length (pr_listeners s) = length ps" and cp: "cp_ok (pr_pool s)" using inv by (simp_all add: proc_inv_def)
  have "listener_inv (pr_quit s) (ps ! i) (of_listener i acc) (of_listener i (pr_clients s)) (pr_listeners s ! i)"
    using inv arrival(4) len by (simp add: proc_inv_def)
  then show ?thesis
    using arrival set_listener_inv [OF inv _ _ cp, of i new "[]"] listener_step_inv(2) [of _ _ _ _ "pr_listeners s ! i" a] len
    by (cases a) simp_all
qed

lemma proc_run_inv: "proc_run ps acc s \<Longrightarrow> proc_inv ps acc s"
proof (induction rule: proc_run.induct)
  case (run_start cp)
  then show ?case
    by (simp add: proc_inv_def start_process_def listener_inv_def newListening_def filter_True)
next
  case (run_work acc s s')
  then show ?case by (blast intro: work_step_inv)
next
  case (run_arrival acc s new s')
  then show ?case by (blast intro: arrival_inv)
next
  case (run_signal acc s usr1)
  then show ?case by (auto simp: proc_inv_def sigHandler_def listener_inv_def)
next
  case (run_pool acc s cp i out)
  then show ?case using pool_step_ok [of "pr_pool s" cp i out] by (auto simp: proc_inv_def)
qed


section \<open>Clients\<close>

text \<open>
  C26: Every listener hands its clients on. In every run, the connections for which a goroutine was started are the ones the
  listener accepted, each once and in their order, with the handler of that kind of listener. At most one is missing, the
  one on its way, or one that arrived together with the end; and no goroutine is started for a failed \<open>Accept\<close>, although
  \<open>exit\<close> may change between the two looks at it. A failed \<open>Accept\<close> ends a listener only after a signal.
\<close>

theorem accepted_clients_served:
  assumes "proc_run ps acc s" "i < length ps"
  shows "(\<exists>c. of_listener i acc = map snd (of_listener i (pr_clients s)) @ c \<and> length c \<le> 1 \<and>
      (l_pc (pr_listeners s ! i) = Accepting \<longrightarrow> c = [])) \<and>
    (\<forall>c \<in> set (of_listener i (pr_clients s)). fst c = handler_of (ps ! i)) \<and>
    l_pc (pr_listeners s ! i) \<noteq> Crashed ''nil pointer dereference'' \<and>
    (l_pc (pr_listeners s ! i) = Returned \<longrightarrow> pr_quit s \<or> (\<exists>addr m pw. ps ! i = CowProxy addr m pw))"
proof -
  let ?l = "pr_listeners s ! i"
  have inv: "listener_inv (pr_quit s) (ps ! i) (of_listener i acc) (of_listener i (pr_clients s)) ?l"
    using proc_run_inv [OF assms(1)] assms(2) by (simp add: proc_inv_def)
  have "length (in_flight pc) \<le> 1" for pc by (cases pc rule: in_flight.cases) auto
  then have "\<exists>c. of_listener i acc = map snd (of_listener i (pr_clients s)) @ c \<and> length c \<le> 1 \<and> (l_pc ?l = Accepting \<longrightarrow> c = [])"
    using inv unfolding listener_inv_def by (cases "l_pc ?l = Returned") fastforce+
  then show ?thesis using inv unfolding listener_inv_def by blast
qed

section \<open>The end\<close>

inductive life_run :: "process \<Rightarrow> nat \<Rightarrow> process \<Rightarrow> bool" for s where
  life_refl: "life_run s 0 s"
| life_work: "life_run s n t \<Longrightarrow> work_step t t' \<Longrightarrow> life_run s (Suc n) t'"
| life_arrival: "life_run s n t \<Longrightarrow> arrival t new t' \<Longrightarrow> life_run s (Suc n) t'"
| life_pool: "life_run s n t \<Longrightarrow> pool_step (pr_pool t) cp i out \<Longrightarrow> life_run s n (t \<lparr>pr_pool := cp\<rparr>)"

fun pc_work :: "serve_pc \<Rightarrow> nat" where
  "pc_work Accepting = 3"
| "pc_work (CheckError a) = 2"
| "pc_work (CheckExit a) = 1"
| "pc_work _ = 0"

fun quitter_work :: "quitter \<Rightarrow> nat" where
  "quitter_work AwaitQuit = 2"
| "quitter_work CloseListener = 1"
| "quitter_work _ = 0"

definition listener_work :: "listening \<Rightarrow> nat" where
  "listener_work l = pc_work (l_pc l) + quitter_work (l_quitter l)"

definition shutdown_work :: "process \<Rightarrow> nat" where
  "shutdown_work s = sum_list (map listener_work (pr_listeners s)) + (if pr_ended s then 0 else 1)"

text \<open>Every goroutine that waits for the end has set \<open>exit\<close>.\<close>

definition shutting_down :: "process \<Rightarrow> bool" where
  "shutting_down s \<longleftrightarrow> \<not> crashed s \<and> (\<forall>l \<in> set (pr_listeners s). l_exit l \<or> l_pc l = Returned)"

lemma sum_list_update_less:
  fixes f :: "'a \<Rightarrow> nat"
  shows "i < length xs \<Longrightarrow> f x < f (xs ! i) \<Longrightarrow> sum_list (map f (xs[i := x])) < sum_list (map f xs)"
proof (induction xs arbitrary: i)
  case (Cons y ys)
  then show ?case by (cases i) auto
qed simp

lemma set_update_all: "\<forall>y \<in> set xs. P y \<Longrightarrow> P x \<Longrightarrow> \<forall>y \<in> set (xs[i := x]). P y"
  using set_update_subset_insert by fastforce

lemma listener_shutdown:
  assumes "i < length (pr_listeners s)" "shutting_down s" "l_exit l \<or> l_pc l = Returned" "\<forall>m. l_pc l \<noteq> Crashed m"
    "listener_work l < listener_work (pr_listeners s ! i)" "pr_listeners s' = (pr_listeners s)[i := l]" "pr_ended s' = pr_ended s"
  shows "shutting_down s' \<and> shutdown_work s' < shutdown_work s"
proof -
  have "sum_list (map listener_work (pr_listeners s')) < sum_list (map listener_work (pr_listeners s))"
    unfolding assms(6) using assms(1,5) by (rule sum_list_update_less)
  then have "shutdown_work s' < shutdown_work s" by (simp add: shutdown_work_def assms(7))
  moreover have "\<forall>l \<in> set (pr_listeners s'). (l_exit l \<or> l_pc l = Returned) \<and> (\<forall>m. l_pc l \<noteq> Crashed m)"
    unfolding assms(6) by (rule set_update_all) (use assms(2-4) in \<open>auto simp: shutting_down_def crashed_def\<close>)
  ultimately show ?thesis unfolding shutting_down_def crashed_def by blast
qed

lemma listener_at:
  assumes "proc_inv ps acc s" "shutting_down s" "i < length (pr_listeners s)" "l_pc (pr_listeners s ! i) \<noteq> Returned"
  shows "l_exit (pr_listeners s ! i)" "l_pc (pr_listeners s ! i) \<noteq> Starting" "\<forall>m. l_pc (pr_listeners s ! i) \<noteq> Crashed m"
    "l_quitter (pr_listeners s ! i) = CloseListener \<or> l_closed (pr_listeners s ! i)"
proof -
  have m: "pr_listeners s ! i \<in> set (pr_listeners s)" using assms(3) by simp
  then show e: "l_exit (pr_listeners s ! i)" and "\<forall>m. l_pc (pr_listeners s ! i) \<noteq> Crashed m"
    using assms(2,4) by (auto simp: shutting_down_def crashed_def)
  have "listener_inv (pr_quit s) (ps ! i) (of_listener i acc) (of_listener i (pr_clients s)) (pr_listeners s ! i)"
    using assms(1,3) by (simp add: proc_inv_def)
  then show "l_pc (pr_listeners s ! i) \<noteq> Starting" "l_quitter (pr_listeners s ! i) = CloseListener \<or> l_closed (pr_listeners s ! i)"
    using e by (auto simp: listener_inv_def)
qed

lemma work_step_shutdown:
  assumes inv: "proc_inv ps acc s" and down: "shutting_down s" and step: "work_step s s'"
  shows "shutting_down s' \<and> shutdown_work s' < shutdown_work s"
  using step
proof (cases rule: work_step.cases)
  case (start i r)
  then show ?thesis using listener_at(2) [OF inv down, of i] by simp
next
  case (closed i e)
  then show ?thesis
    using listener_at(1) [OF inv down, of i]
    by (intro listener_shutdown [OF closed(3) down]) (auto simp: listener_work_def set_listener_def)
next
  case (error i a hosts now l cp)
  have "l_exit (pr_listeners s ! i)" using listener_at(1) [OF inv down, of i] error by simp
  then have "l = (pr_listeners s ! i) \<lparr>l_pc := CheckExit a\<rparr>" "l_exit l"
    using error(5) by (auto simp: check_error_def split: accepted.splits)
  then show ?thesis
    using error by (intro listener_shutdown [OF error(3) down, of l]) (auto simp: listener_work_def set_listener_def)
next
  case (exit i a l new)
  have "l_exit (pr_listeners s ! i)" using listener_at(1) [OF inv down, of i] exit by simp
  then have "l = (pr_listeners s ! i) \<lparr>l_pc := Returned\<rparr>" using exit(5) by (auto simp: check_exit_def)
  then show ?thesis
    using exit by (intro listener_shutdown [OF exit(3) down, of l]) (auto simp: listener_work_def set_listener_def)
next
  case (quitter i l)
  have "(l_exit l \<or> l_pc l = Returned) \<and> (\<forall>m. l_pc l \<noteq> Crashed m)" "listener_work l < listener_work (pr_listeners s ! i)"
    using quitter(4) down nth_mem [OF quitter(3)]
    by (auto simp: quitter_step_def listener_work_def shutting_down_def crashed_def split: quitter.splits if_splits)
  then show ?thesis using quitter by (intro listener_shutdown [OF quitter(3) down, of l]) auto
next
  case main
  then show ?thesis using down by (simp add: shutting_down_def crashed_def shutdown_work_def)
qed

lemma arrival_shutdown:
  assumes inv: "proc_inv ps acc s" and down: "shutting_down s" and step: "arrival s new s'"
  shows "shutting_down s' \<and> shutdown_work s' < shutdown_work s"
  using step
proof (cases rule: arrival.cases)
  case (arrival i a)
  then show ?thesis
    using listener_at(1) [OF inv down, of i]
    by (intro listener_shutdown [OF arrival(4) down]) (auto simp: listener_work_def set_listener_def)
qed

lemma life_run_shutdown:
  assumes "life_run s n t" "proc_inv ps acc s" "shutting_down s"
  shows "\<exists>acc. proc_inv ps acc t \<and> shutting_down t \<and> n + shutdown_work t \<le> shutdown_work s"
  using assms
proof (induction rule: life_run.induct)
  case (life_work n t t')
  then obtain acc where a: "proc_inv ps acc t" "shutting_down t" "n + shutdown_work t \<le> shutdown_work s" by blast
  show ?case using work_step_inv [OF a(1) life_work.hyps(2)] work_step_shutdown [OF a(1,2) life_work.hyps(2)] a(3) by force
next
  case (life_arrival n t new t')
  then obtain acc where a: "proc_inv ps acc t" "shutting_down t" "n + shutdown_work t \<le> shutdown_work s" by blast
  show ?case using arrival_inv [OF a(1) life_arrival.hyps(2)] arrival_shutdown [OF a(1,2) life_arrival.hyps(2)] a(3) by force
next
  case (life_pool n t cp i out)
  then obtain acc where a: "proc_inv ps acc t" "shutting_down t" "n + shutdown_work t \<le> shutdown_work s" by blast
  have "proc_inv ps acc (t \<lparr>pr_pool := cp\<rparr>)" using a(1) pool_step_ok [OF life_pool.hyps(2)] by (auto simp: proc_inv_def)
  then show ?case using a(2,3) by (auto simp: shutting_down_def crashed_def shutdown_work_def)
qed auto

lemma work_goes_on:
  assumes inv: "proc_inv ps acc s" and down: "shutting_down s" and "\<not> pr_ended s"
  shows "\<exists>t. work_step s t"
proof (cases "\<forall>l \<in> set (pr_listeners s). l_pc l = Returned")
  case True
  then have "filter (\<lambda>l. l_pc l \<noteq> Returned) (pr_listeners s) = []" by (simp add: filter_empty_conv)
  then have "pr_wg s = 0" using inv by (simp add: proc_inv_def)
  then show ?thesis using main [of s] down assms(3) by (auto simp: shutting_down_def)
next
  case False
  then obtain i where i: "i < length (pr_listeners s)" "l_pc (pr_listeners s ! i) \<noteq> Returned" by (auto simp: in_set_conv_nth)
  note at = listener_at [OF inv down i]
  have nc: "\<not> crashed s" using down by (simp add: shutting_down_def)
  show ?thesis
  proof (cases "l_pc (pr_listeners s ! i)")
    case Accepting
    show ?thesis
    proof (cases "l_closed (pr_listeners s ! i)")
      case True
      then show ?thesis using closed [OF nc i(1) Accepting] by blast
    next
      case False
      then have "quitter_step (pr_quit s) (pr_listeners s ! i) =
          Some ((pr_listeners s ! i) \<lparr>l_quitter := QuitterDone, l_closed := True\<rparr>)"
        using at(4) by (simp add: quitter_step_def)
      then show ?thesis using quitter [OF nc i(1)] by blast
    qed
  next
    case (CheckError a)
    then show ?thesis using error [OF nc i(1) CheckError] by (metis surj_pair)
  next
    case (CheckExit a)
    then show ?thesis using exit [OF nc i(1) CheckExit] by (metis surj_pair)
  qed (use at i(2) in auto)
qed


section \<open>An example\<close>

definition ex_listener_socks :: listen_proxy where
  "ex_listener_socks = SocksProxy ''127.0.0.1:1080''"

definition ex_process :: "serve_pc \<Rightarrow> process" where
  "ex_process pc = (start_process [ex_listener_socks] emptyPool)
     \<lparr>pr_listeners := [(newListening ex_listener_socks) \<lparr>l_pc := pc, l_quitter := AwaitQuit\<rparr>]\<rparr>"

lemma ex_process_simps [simp]:
  "pr_listeners (ex_process pc) = [(newListening ex_listener_socks) \<lparr>l_pc := pc, l_quitter := AwaitQuit\<rparr>]"
  "pr_pool (ex_process pc) = emptyPool" "pr_clients (ex_process pc) = []" "pr_quit (ex_process pc) = False"
  by (simp_all add: ex_process_def start_process_def)

lemma ex_running: "proc_run [ex_listener_socks] [] (ex_process Accepting)"
proof -
  have "proc_run [ex_listener_socks] [] (start_process [ex_listener_socks] emptyPool)"
    using pool_run_ok [OF pool_run.run_start] by (intro proc_run.run_start) simp
  moreover have "work_step (start_process [ex_listener_socks] emptyPool) (ex_process Accepting)"
    using start [of "start_process [ex_listener_socks] emptyPool" 0 None]
    by (simp add: start_process_def ex_process_def crashed_def newListening_def set_listener_def Serve_defs ex_listener_socks_def)
  ultimately show ?thesis by (rule run_work)
qed

lemma ex_arrived: "proc_run [ex_listener_socks] [(0, 7)] (ex_process (CheckError (Accepted 7)))"
proof -
  have "arrival (ex_process Accepting) [(0, 7)] (ex_process (CheckError (Accepted 7)))"
    using arrival.arrival [of "ex_process Accepting" 0 "Accepted 7"]
    by (simp add: ex_process_def start_process_def crashed_def newListening_def set_listener_def)
  from run_arrival [OF ex_running this] show ?thesis by simp
qed

lemma ex_client_started: "\<exists>s. proc_run [ex_listener_socks] [(0, 7)] s \<and> pr_clients s = [(0, serveSOCKS, 7)] \<and> l_pc (pr_listeners s ! 0) = Accepting"
proof -
  have "work_step (ex_process (CheckError (Accepted 7))) (ex_process (CheckExit (Accepted 7)))"
    using error [of "ex_process (CheckError (Accepted 7))" 0 "Accepted 7" "[]" 0]
    by (simp add: ex_process_def start_process_def crashed_def newListening_def set_listener_def check_error_def)
  from run_work [OF ex_arrived this] have r: "proc_run [ex_listener_socks] [(0, 7)] (ex_process (CheckExit (Accepted 7)))" .
  show ?thesis
    using run_work [OF r exit [of "ex_process (CheckExit (Accepted 7))" 0 "Accepted 7"]]
    by (fastforce simp: crashed_def newListening_def set_listener_def check_exit_def ex_listener_socks_def)
qed

theorem accepted_clients_served_witness:
  "\<exists>s. proc_run [ex_listener_socks] [(0, 7)] s \<and> of_listener 0 [(0, 7)] = map snd (of_listener 0 (pr_clients s)) \<and>
     (\<forall>c \<in> set (of_listener 0 (pr_clients s)). fst c = serveSOCKS)"
proof -
  obtain s where s: "proc_run [ex_listener_socks] [(0, 7)] s" "l_pc (pr_listeners s ! 0) = Accepting"
    using ex_client_started by blast
  from accepted_clients_served [OF s(1), of 0] s show ?thesis by (auto simp: ex_listener_socks_def)
qed


end
