(* ===== verification/Parent_Connect.thy ===== *)
theory Parent_Connect
  imports Proxy Socks
begin

text \<open>
  How each kind of parent is connected to (parent_proxy.go), and the environment in which the pools of \<open>Parent_Pools\<close> run
  when their parents are these: a HTTP parent is reached through the pool of HTTP parents, which is part of the
  environment's state.
\<close>

text \<open>
  The network: \<open>d_dial\<close> is \<open>net.Dial\<close>, \<open>d_ss\<close> is \<open>ss.Dial\<close> with the target and the server, \<open>d_socks\<close> the outcome of the
  handshake \<open>socksParent_connect\<close> of \<open>Socks\<close> on a connection, \<open>d_probes\<close> a round of probes of all HTTP parents in the order
  in which they complete.
\<close>

record 'x dialing =
  d_dial :: "bytes \<Rightarrow> 'x \<Rightarrow> (err + nat) \<times> 'x"
  d_ss :: "bytes \<Rightarrow> bytes \<Rightarrow> 'x \<Rightarrow> (err + nat) \<times> 'x"
  d_socks :: "bytes \<Rightarrow> bytes \<Rightarrow> URL \<Rightarrow> nat \<Rightarrow> 'x \<Rightarrow> err option \<times> 'x"
  d_probes :: "httpParentPool \<Rightarrow> 'x \<Rightarrow> (nat \<times> (err + duration)) list \<times> 'x"
  d_intn :: "int \<Rightarrow> 'x \<Rightarrow> int \<times> 'x"
  d_bad :: "'x \<Rightarrow> bool"

definition connectHTTPParentDirect :: "'x dialing \<Rightarrow> ParentProxy \<Rightarrow> URL \<Rightarrow> 'x \<Rightarrow> (err + net_conn) \<times> 'x" where
  "connectHTTPParentDirect D hp url x =
     (case d_dial D (getServer hp) x of
        (Inl e, x1) \<Rightarrow> (Inl e, x1)
      | (Inr c, x1) \<Rightarrow> (Inr (httpConn c hp), x1))"

definition shadowsocksParent_connect :: "'x dialing \<Rightarrow> ParentProxy \<Rightarrow> URL \<Rightarrow> 'x \<Rightarrow> (err + net_conn) \<times> 'x" where
  "shadowsocksParent_connect D sp url x =
     (case d_ss D (url_HostPort url) (getServer sp) x of
        (Inl e, x1) \<Rightarrow> (Inl e, x1)
      | (Inr c, x1) \<Rightarrow> (Inr (shadowsocksConn c sp), x1))"

definition cowParent_connect :: "'x dialing \<Rightarrow> ParentProxy \<Rightarrow> URL \<Rightarrow> 'x \<Rightarrow> (err + net_conn) \<times> 'x" where
  "cowParent_connect D cp url x =
     (case d_dial D (getServer cp) x of
        (Inl e, x1) \<Rightarrow> (Inl e, x1)
      | (Inr c, x1) \<Rightarrow> (Inr (cowConn c cp), x1))"

definition socks_dial_connect :: "'x dialing \<Rightarrow> ParentProxy \<Rightarrow> bytes \<Rightarrow> bytes \<Rightarrow> URL \<Rightarrow> 'x \<Rightarrow> (err + net_conn) \<times> 'x" where
  "socks_dial_connect D sp username password url x =
     (case d_dial D (getServer sp) x of
        (Inl e, x1) \<Rightarrow> (Inl e, x1)
      | (Inr c, x1) \<Rightarrow>
          (case d_socks D username password url c x1 of
             (Some e, x2) \<Rightarrow> (Inl e, x2)
           | (None, x2) \<Rightarrow> (Inr (socksConn c sp), x2)))"

text \<open>The method \<open>connect\<close> of the interface \<open>ParentProxy\<close>.\<close>

fun Parent_connect :: "'x dialing \<Rightarrow> ParentProxy \<Rightarrow> URL \<Rightarrow> 'x \<Rightarrow> (err + net_conn) \<times> 'x" where
  "Parent_connect D (httpParent server up ah) url x = connectHTTPParentDirect D (httpParent server up ah) url x"
| "Parent_connect D (shadowsocksParent server m pw) url x = shadowsocksParent_connect D (shadowsocksParent server m pw) url x"
| "Parent_connect D (cowParent server m pw) url x = cowParent_connect D (cowParent server m pw) url x"
| "Parent_connect D (socksParent server u pw) url x = socks_dial_connect D (socksParent server u pw) u pw url x"

definition pool_result :: "conn_result \<Rightarrow> err + net_conn" where
  "pool_result r = (case r of (Some c, _) \<Rightarrow> Inr c | (None, Some e) \<Rightarrow> Inl e | (None, None) \<Rightarrow> Inl (ErrorString []))"

definition parents_env :: "'x dialing \<Rightarrow> (httpParentPool \<times> 'x) penv" where
  "parents_env D =
     \<lparr>env_connect = (\<lambda>p url (pp, x). case Parent_connect D p url x of (r, x1) \<Rightarrow> (r, pp, x1)),
      env_hpool = (\<lambda>url (pp, x). case hp_connect (connectHTTPParentDirect D) (d_probes D) url pp x of
        (r, pp1, x1) \<Rightarrow> (pool_result r, pp1, x1)),
      env_intn = (\<lambda>n (pp, x). case d_intn D n x of (k, x1) \<Rightarrow> (k, pp, x1)),
      env_bad = (\<lambda>(pp, x). d_bad D x)\<rparr>"

section \<open>Which connections parents give\<close>

text \<open>A connection is of the kind of its parent, and names it.\<close>

fun conn_of_parent :: "ParentProxy \<Rightarrow> net_conn \<Rightarrow> bool" where
  "conn_of_parent (httpParent s u a) c \<longleftrightarrow> (\<exists>n. c = httpConn n (httpParent s u a))"
| "conn_of_parent (shadowsocksParent s m p) c \<longleftrightarrow> (\<exists>n. c = shadowsocksConn n (shadowsocksParent s m p))"
| "conn_of_parent (cowParent s m p) c \<longleftrightarrow> (\<exists>n. c = cowConn n (cowParent s m p))"
| "conn_of_parent (socksParent s u p) c \<longleftrightarrow> (\<exists>n. c = socksConn n (socksParent s u p))"

lemma Parent_connect_kind: "Parent_connect D p url x = (Inr c, x1) \<Longrightarrow> conn_of_parent p c"
  by (cases p) (auto simp: connectHTTPParentDirect_def shadowsocksParent_connect_def cowParent_connect_def socks_dial_connect_def
      split: prod.splits sum.splits option.splits)

text \<open>The HTTP pool gives a connection or an error, and a connection that \<open>dial\<close> gave.\<close>

lemma hp_dial_loop_result:
  assumes "hp_dial_loop dial url is pp er e = ((c, er'), pp1, e1)" "is \<noteq> [] \<or> er \<noteq> None"
  shows "(c = None \<longleftrightarrow> er' \<noteq> None) \<and> (\<forall>x. c = Some x \<longrightarrow> (\<exists>p e e'. dial p url e = (Inr x, e')))"
  using assms
proof (induction dial url "is" pp er e rule: hp_dial_loop.induct)
  case (2 dial url i "is" pp er e)
  then show ?case by (fastforce split: prod.splits sum.splits)
qed auto

lemma hp_connect_result:
  assumes "hp_connect dial probes url pp e = ((c, er), pp1, e1)"
  shows "(c = None \<longleftrightarrow> er \<noteq> None) \<and> (\<forall>x. c = Some x \<longrightarrow> (\<exists>p e e'. dial p url e = (Inr x, e')))"
proof -
  obtain pp2 e2 where p: "(if hp_available pp = [] then (case probes pp e of (res, e1) \<Rightarrow> (updateAvailable res pp, e1)) else (pp, e)) = (pp2, e2)"
    by fastforce
  show ?thesis
  proof (cases "hp_size pp = 0 \<or> hp_available pp2 = []")
    case True
    then show ?thesis using assms [unfolded hp_connect_def p Let_def prod.case] by (auto split: if_splits)
  next
    case False
    then have "hp_dial_loop dial url (hp_available pp2) pp2 None e2 = ((c, er), pp1, e1)" using assms p by (simp add: hp_connect_def)
    then show ?thesis using False by (intro hp_dial_loop_result) auto
  qed
qed

text \<open>So the environment of the program's own parents is one that \<open>Serve_Safe\<close> and \<open>Proxy\<close> ask for.\<close>

lemma parents_not_direct: "env_conns not_direct (parents_env D)"
proof -
  have k: "not_direct c" if "conn_of_parent p c" for p c using that by (cases p) (auto simp: not_direct_def)
  have "not_direct c" if "env_connect (parents_env D) p url e = (Inr c, e')" for p url e c e'
    using that by (auto simp: parents_env_def split: prod.splits intro: k [OF Parent_connect_kind])
  moreover have "not_direct c" if "env_hpool (parents_env D) url e = (Inr c, e')" for url e c e'
  proof -
    obtain pp x where e: "e = (pp, x)" by fastforce
    obtain co er pp1 x1 where h: "hp_connect (connectHTTPParentDirect D) (d_probes D) url pp x = ((co, er), pp1, x1)" by (metis surj_pair)
    have "co = Some c" using that e h by (auto simp: parents_env_def pool_result_def split: option.splits)
    then obtain p y y' where "connectHTTPParentDirect D p url y = (Inr c, y')" using hp_connect_result [OF h] by blast
    then show ?thesis by (auto simp: connectHTTPParentDirect_def not_direct_def split: prod.splits sum.splits)
  qed
  ultimately show ?thesis unfolding env_conns_def by blast
qed

end
