(* ===== verification/Error_Page.thy ===== *)
theory Error_Page
  imports Http_Parse
begin

text \<open>
  error.go: the pages with which the proxy answers itself. The templates are text templates, which insert their
  arguments as they are.
\<close>

definition version :: bytes where
  "version = ''1.0.7''"

definition headRawTmpl :: "bytes \<Rightarrow> int \<Rightarrow> bytes" where
  "headRawTmpl codeReason len =
     ''HTTP/1.1 '' @ codeReason @ CRLF @ ''Connection: keep-alive'' @ CRLF @ ''Cache-Control: no-cache'' @ CRLF @
     ''Pragma: no-cache'' @ CRLF @ ''Content-Type: text/html'' @ CRLF @ ''Content-Length: '' @ Itoa len @ CRLF"

text \<open>\<open>hostName\<close> is the name of the machine, \<open>now\<close> the time as text.\<close>

definition errPageRawTmpl :: "bytes \<Rightarrow> bytes \<Rightarrow> bytes \<Rightarrow> bytes \<Rightarrow> bytes" where
  "errPageRawTmpl hostName h1 msg now =
     ''<!DOCTYPE html>'' @ [LF] @ ''<html>'' @ [LF] @ [TAB] @ ''<head> <title>COW Proxy</title> </head>'' @ [LF] @
     [TAB] @ ''<body>'' @ [LF] @ [TAB, TAB] @ ''<h1>'' @ h1 @ ''</h1>'' @ [LF] @ [TAB, TAB] @ msg @ [LF] @
     [TAB, TAB] @ ''<hr />'' @ [LF] @ [TAB, TAB] @ ''Generated by <i>COW '' @ version @ ''</i> <br />'' @ [LF] @
     [TAB, TAB] @ ''Host <i>'' @ hostName @ ''</i> <br />'' @ [LF] @ [TAB, TAB] @ now @ [LF] @
     [TAB] @ ''</body>'' @ [LF] @ ''</html>'' @ [LF]"

definition genErrorPage :: "bytes \<Rightarrow> bytes \<Rightarrow> bytes \<Rightarrow> bytes \<Rightarrow> bytes" where
  "genErrorPage hostName now h1 msg = errPageRawTmpl hostName h1 msg now"

text \<open>The head and the page go out in one \<open>Write\<close>, whose error is ignored.\<close>

definition page_bytes :: "bytes \<Rightarrow> bytes \<Rightarrow> bytes \<Rightarrow> bytes \<Rightarrow> bytes \<Rightarrow> bytes" where
  "page_bytes hostName now codeReason h1 msg =
     (let page = genErrorPage hostName now h1 msg in headRawTmpl codeReason (int (length page)) @ CRLF @ page)"

definition sendPageGeneric :: "'w writer \<Rightarrow> bytes \<Rightarrow> bytes \<Rightarrow> bytes \<Rightarrow> bytes \<Rightarrow> bytes \<Rightarrow> 'w \<Rightarrow> 'w" where
  "sendPageGeneric W hostName now codeReason h1 msg w =
     (case W (page_bytes hostName now codeReason h1 msg) w of (n, e, w1) \<Rightarrow> w1)"

definition send_error_page :: "'w writer \<Rightarrow> bytes \<Rightarrow> bytes \<Rightarrow> bytes \<Rightarrow> bytes \<Rightarrow> bytes \<Rightarrow> 'w \<Rightarrow> 'w" where
  "send_error_page W hostName now codeReason h1 msg w = sendPageGeneric W hostName now codeReason (''[Error] '' @ h1) msg w"

text \<open>The status texts with which the program calls it, from auth.go, http.go and proxy.go.\<close>

definition error_codes :: "bytes list" where
  "error_codes = [''400 Bad Request'', ''403 Forbidden'', ''417 Expectation Failed'', ''408 Request Timeout'', ''404 not found'',
     ''502 partial request'', ''502 retry failed'', ''404 Bad request'', ''502 read error'', ''504 Connection failed'']"

text \<open>The message quotes the request; \<open>conn\<close> describes the server connection, if there is one.\<close>

definition Request_String :: "Request \<Rightarrow> bytes" where
  "Request_String r = Method r @ '' '' @ url_HostPort (URL r) @ url_Path (URL r)"

definition genErrMsg :: "Request \<Rightarrow> bytes option \<Rightarrow> bytes \<Rightarrow> bytes" where
  "genErrMsg r conn what =
     ''<p>HTTP Request <strong>'' @ Request_String r @ ''</strong></p> <p>'' @ what @ ''</p>'' @
     (case conn of None \<Rightarrow> [] | Some c \<Rightarrow> '' <p>Using '' @ c @ ''.</p>'')"

section \<open>Error pages are well formed\<close>

definition error_headers :: "nat \<Rightarrow> bytes list" where
  "error_headers n = [''Connection: keep-alive'', ''Cache-Control: no-cache'', ''Pragma: no-cache'', ''Content-Type: text/html'',
     ''Content-Length: '' @ nat_digits 10 n]"

definition status_of :: "bytes \<Rightarrow> int" where
  "status_of codeReason = (case ParseIntFromBytes (take 3 codeReason) 10 of Inr n \<Rightarrow> n | Inl e \<Rightarrow> 0)"

lemma page_bytes_form:
  "page_bytes hostName now codeReason h1 msg =
     (''HTTP/1.1 '' @ codeReason @ [CR]) @ LF # header_lines (error_headers (length (genErrorPage hostName now h1 msg))) @
     CRLF @ genErrorPage hostName now h1 msg"
  by (simp add: page_bytes_def headRawTmpl_def error_headers_def header_lines_def Itoa_def CRLF_def CR_def LF_def Let_def)

lemma first_headers:
  "fst (header_fold uni [''Connection: keep-alive'', ''Cache-Control: no-cache'', ''Pragma: no-cache'', ''Content-Type: text/html'']
     (zeroHeader \<lparr>ContLen := -1\<rparr>) buf) = None"
  "fst (snd (header_fold uni [''Connection: keep-alive'', ''Cache-Control: no-cache'', ''Pragma: no-cache'', ''Content-Type: text/html'']
     (zeroHeader \<lparr>ContLen := -1\<rparr>) buf)) = zeroHeader \<lparr>ContLen := -1, ConnectionKeepAlive := True, ContentType := ''text/html''\<rparr>"
  by code_simp+

lemma digits_no_space: "\<not> IsSpace (hd (nat_digits 10 n))" "\<not> IsSpace (last (nat_digits 10 n))" "LF \<notin> set (nat_digits 10 n)"
proof -
  have d: "is_digit_char c" if "c \<in> set (nat_digits 10 n)" for c using nat_digits_are_digits that by (simp add: list_all_iff)
  have "\<not> IsSpace c" if "is_digit_char c" for c using that by (auto simp: IsSpace_def is_digit_char_def)
  then show "\<not> IsSpace (hd (nat_digits 10 n))" "\<not> IsSpace (last (nat_digits 10 n))" using d by simp_all
  show "LF \<notin> set (nat_digits 10 n)" using d [of LF] by (auto simp: is_digit_char_def LF_def)
qed

lemma length_header:
  assumes "n < 2 ^ 63"
  shows "\<exists>b. parseHeader_line uni h buf ((''Content-Length: '' @ nat_digits 10 n) @ CRLF) = (None, h \<lparr>ContLen := int n\<rparr>, b)"
proof -
  let ?l = "(''Content-Length: '' @ nat_digits 10 n) @ CRLF"
  have i: "IndexByte ?l (CHR '':'') = Some 14"
    using IndexByte_append [of "CHR '':''" "''Content-Length''" "CHR '' '' # nat_digits 10 n @ CRLF"] by simp
  have sp: "IsSpace (CHR '' '')" by (simp add: IsSpace_def)
  have "TrimSpace (CHR '' '' # nat_digits 10 n @ CRLF) = nat_digits 10 n"
    using digits_no_space(1,2) [of n] TrimSpace_line [of "nat_digits 10 n"] sp by (simp add: TrimSpace_rev del: rev_append)
  moreover have "ASCIIToLower ''Content-Length'' = ''content-length''" by code_simp
  ultimately have "splitHeader ?l = Inr (''content-length'', nat_digits 10 n)"
    using i by (simp add: splitHeader_def)
  moreover have "headerParser uni ''content-length'' = Some parseContentLength" by (simp add: headerParser_def)
  moreover have "parseContentLength h (nat_digits 10 n) = (None, h \<lparr>ContLen := int n\<rparr>, nat_digits 10 n)"
    using ParseInt_nat_digits [OF _ assms, of 10] by (simp add: parseContentLength_def)
  ultimately show ?thesis by (simp add: parseHeader_line_def)
qed


lemma header_fold_append:
  "header_fold uni ts h buf = (None, h1, buf1) \<Longrightarrow> header_fold uni (ts @ us) h buf = header_fold uni us h1 buf1"
  by (induction uni ts h buf rule: header_fold.induct) (auto split: prod.splits if_splits)

text \<open>The status lines, one by one.\<close>

lemma error_code_facts:
  assumes "codeReason \<in> set error_codes"
  shows "LF \<notin> set (''HTTP/1.1 '' @ codeReason @ [CR])" "length (''HTTP/1.1 '' @ codeReason @ [CR]) < 48"
    "\<exists>reason. FieldsN ((''HTTP/1.1 '' @ codeReason @ [CR]) @ [LF]) 3 = [''HTTP/1.1'', take 3 codeReason, reason]"
    "ParseIntFromBytes (take 3 codeReason) 10 = Inr (status_of codeReason)" "status_of codeReason \<noteq> 100"
proof -
  have "list_all (\<lambda>c. LF \<notin> set (''HTTP/1.1 '' @ c @ [CR])) error_codes"
    "list_all (\<lambda>c. length (''HTTP/1.1 '' @ c @ [CR]) < 48) error_codes"
    "list_all (\<lambda>c. take 2 (FieldsN ((''HTTP/1.1 '' @ c @ [CR]) @ [LF]) 3) = [''HTTP/1.1'', take 3 c] \<and>
       length (FieldsN ((''HTTP/1.1 '' @ c @ [CR]) @ [LF]) 3) = 3) error_codes"
    "list_all (\<lambda>c. ParseIntFromBytes (take 3 c) 10 = Inr (status_of c) \<and> status_of c \<noteq> 100) error_codes"
    by code_simp+
  note facts = this [unfolded list_all_iff, rule_format, OF assms]
  then show "LF \<notin> set (''HTTP/1.1 '' @ codeReason @ [CR])" "length (''HTTP/1.1 '' @ codeReason @ [CR]) < 48"
      "ParseIntFromBytes (take 3 codeReason) 10 = Inr (status_of codeReason)" "status_of codeReason \<noteq> 100"
    by simp_all
  show "\<exists>reason. FieldsN ((''HTTP/1.1 '' @ codeReason @ [CR]) @ [LF]) 3 = [''HTTP/1.1'', take 3 codeReason, reason]"
    using facts(3) by (auto simp: length_Suc_conv eval_nat_numeral)
qed




text \<open>
  The page quotes the request without escaping it: a path that is markup becomes markup of the page, which a browser takes
  for a page of the server's host.
\<close>

lemma sublist_later: "sublist xs ys \<Longrightarrow> sublist xs (zs @ ys)"
  by (simp add: sublist_append)

lemma error_page_quotes_markup:
  "\<exists>u. ParseRequestURIBytes ''http://example.com/<script>alert(1)</script>'' = Inr u \<and>
     Contains (genErrorPage hostName now h1 (genErrMsg (zeroRequest \<lparr>Method := ''GET'', URL := u\<rparr>) conn what)) ''<script>alert(1)</script>''"
proof -
  have p: "ParseRequestURIBytes ''http://example.com/<script>alert(1)</script>'' =
      Inr (the (case ParseRequestURIBytes ''http://example.com/<script>alert(1)</script>'' of Inr u \<Rightarrow> Some u))"
    and path: "url_Path (the (case ParseRequestURIBytes ''http://example.com/<script>alert(1)</script>'' of Inr u \<Rightarrow> Some u)) =
      ''/<script>alert(1)</script>''"
    by code_simp+
  let ?u = "the (case ParseRequestURIBytes ''http://example.com/<script>alert(1)</script>'' of Inr u \<Rightarrow> Some u)"
  let ?m = "genErrMsg (zeroRequest \<lparr>Method := ''GET'', URL := ?u\<rparr>) conn what"
  have "sublist (url_Path ?u) (Request_String (zeroRequest \<lparr>Method := ''GET'', URL := ?u\<rparr>))"
    unfolding Request_String_def by (intro sublist_later) simp
  moreover have "sublist (Request_String (zeroRequest \<lparr>Method := ''GET'', URL := ?u\<rparr>)) ?m"
    unfolding genErrMsg_def by (rule sublist_appendI)
  moreover have "sublist ?m (genErrorPage hostName now h1 ?m)"
    unfolding genErrorPage_def errPageRawTmpl_def by (rule sublist_append_rightI sublist_later)+
  moreover have "sublist ''<script>alert(1)</script>'' (url_Path ?u)"
    unfolding path by (simp only: sublist_Cons_right sublist_order.order_refl simp_thms)
  ultimately have "Contains (genErrorPage hostName now h1 ?m) ''<script>alert(1)</script>''"
    unfolding Contains_sublist by (meson sublist_order.order_trans)
  then show ?thesis using p by blast
qed

end
