(* ===== verification/Aes.thy ===== *)
theory Aes
  imports Http
begin

unbundle bit_operations_syntax

text \<open>
  The block cipher AES with a key of 32 bytes, as \<open>crypto/aes\<close> computes it for the plugin of \<open>plugins/masterrummy\<close>. A
  block is its 16 bytes, column by column. Decryption is shown to undo encryption.
\<close>

section \<open>The tables\<close>

definition sbox0 :: "8 word list" where
  "sbox0 =
     [0x63, 0x7c, 0x77, 0x7b, 0xf2, 0x6b, 0x6f, 0xc5, 0x30, 0x01, 0x67, 0x2b, 0xfe, 0xd7, 0xab, 0x76,
      0xca, 0x82, 0xc9, 0x7d, 0xfa, 0x59, 0x47, 0xf0, 0xad, 0xd4, 0xa2, 0xaf, 0x9c, 0xa4, 0x72, 0xc0,
      0xb7, 0xfd, 0x93, 0x26, 0x36, 0x3f, 0xf7, 0xcc, 0x34, 0xa5, 0xe5, 0xf1, 0x71, 0xd8, 0x31, 0x15,
      0x04, 0xc7, 0x23, 0xc3, 0x18, 0x96, 0x05, 0x9a, 0x07, 0x12, 0x80, 0xe2, 0xeb, 0x27, 0xb2, 0x75,
      0x09, 0x83, 0x2c, 0x1a, 0x1b, 0x6e, 0x5a, 0xa0, 0x52, 0x3b, 0xd6, 0xb3, 0x29, 0xe3, 0x2f, 0x84,
      0x53, 0xd1, 0x00, 0xed, 0x20, 0xfc, 0xb1, 0x5b, 0x6a, 0xcb, 0xbe, 0x39, 0x4a, 0x4c, 0x58, 0xcf,
      0xd0, 0xef, 0xaa, 0xfb, 0x43, 0x4d, 0x33, 0x85, 0x45, 0xf9, 0x02, 0x7f, 0x50, 0x3c, 0x9f, 0xa8,
      0x51, 0xa3, 0x40, 0x8f, 0x92, 0x9d, 0x38, 0xf5, 0xbc, 0xb6, 0xda, 0x21, 0x10, 0xff, 0xf3, 0xd2,
      0xcd, 0x0c, 0x13, 0xec, 0x5f, 0x97, 0x44, 0x17, 0xc4, 0xa7, 0x7e, 0x3d, 0x64, 0x5d, 0x19, 0x73,
      0x60, 0x81, 0x4f, 0xdc, 0x22, 0x2a, 0x90, 0x88, 0x46, 0xee, 0xb8, 0x14, 0xde, 0x5e, 0x0b, 0xdb,
      0xe0, 0x32, 0x3a, 0x0a, 0x49, 0x06, 0x24, 0x5c, 0xc2, 0xd3, 0xac, 0x62, 0x91, 0x95, 0xe4, 0x79,
      0xe7, 0xc8, 0x37, 0x6d, 0x8d, 0xd5, 0x4e, 0xa9, 0x6c, 0x56, 0xf4, 0xea, 0x65, 0x7a, 0xae, 0x08,
      0xba, 0x78, 0x25, 0x2e, 0x1c, 0xa6, 0xb4, 0xc6, 0xe8, 0xdd, 0x74, 0x1f, 0x4b, 0xbd, 0x8b, 0x8a,
      0x70, 0x3e, 0xb5, 0x66, 0x48, 0x03, 0xf6, 0x0e, 0x61, 0x35, 0x57, 0xb9, 0x86, 0xc1, 0x1d, 0x9e,
      0xe1, 0xf8, 0x98, 0x11, 0x69, 0xd9, 0x8e, 0x94, 0x9b, 0x1e, 0x87, 0xe9, 0xce, 0x55, 0x28, 0xdf,
      0x8c, 0xa1, 0x89, 0x0d, 0xbf, 0xe6, 0x42, 0x68, 0x41, 0x99, 0x2d, 0x0f, 0xb0, 0x54, 0xbb, 0x16]"

definition sbox1 :: "8 word list" where
  "sbox1 =
     [0x52, 0x09, 0x6a, 0xd5, 0x30, 0x36, 0xa5, 0x38, 0xbf, 0x40, 0xa3, 0x9e, 0x81, 0xf3, 0xd7, 0xfb,
      0x7c, 0xe3, 0x39, 0x82, 0x9b, 0x2f, 0xff, 0x87, 0x34, 0x8e, 0x43, 0x44, 0xc4, 0xde, 0xe9, 0xcb,
      0x54, 0x7b, 0x94, 0x32, 0xa6, 0xc2, 0x23, 0x3d, 0xee, 0x4c, 0x95, 0x0b, 0x42, 0xfa, 0xc3, 0x4e,
      0x08, 0x2e, 0xa1, 0x66, 0x28, 0xd9, 0x24, 0xb2, 0x76, 0x5b, 0xa2, 0x49, 0x6d, 0x8b, 0xd1, 0x25,
      0x72, 0xf8, 0xf6, 0x64, 0x86, 0x68, 0x98, 0x16, 0xd4, 0xa4, 0x5c, 0xcc, 0x5d, 0x65, 0xb6, 0x92,
      0x6c, 0x70, 0x48, 0x50, 0xfd, 0xed, 0xb9, 0xda, 0x5e, 0x15, 0x46, 0x57, 0xa7, 0x8d, 0x9d, 0x84,
      0x90, 0xd8, 0xab, 0x00, 0x8c, 0xbc, 0xd3, 0x0a, 0xf7, 0xe4, 0x58, 0x05, 0xb8, 0xb3, 0x45, 0x06,
      0xd0, 0x2c, 0x1e, 0x8f, 0xca, 0x3f, 0x0f, 0x02, 0xc1, 0xaf, 0xbd, 0x03, 0x01, 0x13, 0x8a, 0x6b,
      0x3a, 0x91, 0x11, 0x41, 0x4f, 0x67, 0xdc, 0xea, 0x97, 0xf2, 0xcf, 0xce, 0xf0, 0xb4, 0xe6, 0x73,
      0x96, 0xac, 0x74, 0x22, 0xe7, 0xad, 0x35, 0x85, 0xe2, 0xf9, 0x37, 0xe8, 0x1c, 0x75, 0xdf, 0x6e,
      0x47, 0xf1, 0x1a, 0x71, 0x1d, 0x29, 0xc5, 0x89, 0x6f, 0xb7, 0x62, 0x0e, 0xaa, 0x18, 0xbe, 0x1b,
      0xfc, 0x56, 0x3e, 0x4b, 0xc6, 0xd2, 0x79, 0x20, 0x9a, 0xdb, 0xc0, 0xfe, 0x78, 0xcd, 0x5a, 0xf4,
      0x1f, 0xdd, 0xa8, 0x33, 0x88, 0x07, 0xc7, 0x31, 0xb1, 0x12, 0x10, 0x59, 0x27, 0x80, 0xec, 0x5f,
      0x60, 0x51, 0x7f, 0xa9, 0x19, 0xb5, 0x4a, 0x0d, 0x2d, 0xe5, 0x7a, 0x9f, 0x93, 0xc9, 0x9c, 0xef,
      0xa0, 0xe0, 0x3b, 0x4d, 0xae, 0x2a, 0xf5, 0xb0, 0xc8, 0xeb, 0xbb, 0x3c, 0x83, 0x53, 0x99, 0x61,
      0x17, 0x2b, 0x04, 0x7e, 0xba, 0x77, 0xd6, 0x26, 0xe1, 0x69, 0x14, 0x63, 0x55, 0x21, 0x0c, 0x7d]"

section \<open>The transformations of a round\<close>

definition SubBytes :: "8 word list \<Rightarrow> 8 word list" where
  "SubBytes s = map (\<lambda>x. sbox0 ! unat x) s"

definition InvSubBytes :: "8 word list \<Rightarrow> 8 word list" where
  "InvSubBytes s = map (\<lambda>x. sbox1 ! unat x) s"

definition ShiftRows :: "8 word list \<Rightarrow> 8 word list" where
  "ShiftRows s = map ((!) s) [0, 5, 10, 15, 4, 9, 14, 3, 8, 13, 2, 7, 12, 1, 6, 11]"

definition InvShiftRows :: "8 word list \<Rightarrow> 8 word list" where
  "InvShiftRows s = map ((!) s) [0, 13, 10, 7, 4, 1, 14, 11, 8, 5, 2, 15, 12, 9, 6, 3]"

definition xtime :: "8 word \<Rightarrow> 8 word" where
  "xtime a = push_bit 1 a XOR (if bit a 7 then 0x1b else 0)"

fun MixColumns :: "8 word list \<Rightarrow> 8 word list" where
  "MixColumns (a # b # c # d # rest) =
     (let mul3 = (\<lambda>x. xtime x XOR x)
      in [xtime a XOR mul3 b XOR c XOR d, a XOR xtime b XOR mul3 c XOR d,
          a XOR b XOR xtime c XOR mul3 d, mul3 a XOR b XOR c XOR xtime d]) @ MixColumns rest"
| "MixColumns _ = []"

fun InvMixColumns :: "8 word list \<Rightarrow> 8 word list" where
  "InvMixColumns (a # b # c # d # rest) =
     (let x2 = xtime; x4 = (\<lambda>x. xtime (xtime x)); x8 = (\<lambda>x. xtime (xtime (xtime x)));
          mul9 = (\<lambda>x. x8 x XOR x); mulb = (\<lambda>x. x8 x XOR x2 x XOR x);
          muld = (\<lambda>x. x8 x XOR x4 x XOR x); mule = (\<lambda>x. x8 x XOR x4 x XOR x2 x)
      in [mule a XOR mulb b XOR muld c XOR mul9 d, mul9 a XOR mule b XOR mulb c XOR muld d,
          muld a XOR mul9 b XOR mule c XOR mulb d, mulb a XOR muld b XOR mul9 c XOR mule d]) @ InvMixColumns rest"
| "InvMixColumns _ = []"

definition AddRoundKey :: "8 word list \<Rightarrow> 8 word list \<Rightarrow> 8 word list" where
  "AddRoundKey k s = map2 (XOR) s k"

section \<open>The key schedule\<close>

definition next_word :: "8 word list list \<Rightarrow> 8 word list" where
  "next_word ws =
     (let i = length ws; t = ws ! (i - 1);
          t1 = (if i mod 8 = 0
                then (case SubBytes (rotate1 t) of [] \<Rightarrow> [] | x # xs \<Rightarrow> (x XOR push_bit (i div 8 - 1) 1) # xs)
                else if i mod 8 = 4 then SubBytes t else t)
      in AddRoundKey t1 (ws ! (i - 8)))"

definition expandKey :: "8 word list \<Rightarrow> 8 word list list" where
  "expandKey key =
     ((\<lambda>ws. ws @ [next_word ws]) ^^ 52) (map (\<lambda>i. take 4 (drop (4 * i) key)) [0..<8])"

definition round_keys :: "8 word list \<Rightarrow> 8 word list list" where
  "round_keys key = map (\<lambda>i. concat (take 4 (drop (4 * i) (expandKey key)))) [0..<15]"

section \<open>Blocks\<close>

fun enc_rounds :: "8 word list list \<Rightarrow> 8 word list \<Rightarrow> 8 word list" where
  "enc_rounds [] s = s"
| "enc_rounds [k] s = AddRoundKey k (ShiftRows (SubBytes s))"
| "enc_rounds (k # ks) s = enc_rounds ks (AddRoundKey k (MixColumns (ShiftRows (SubBytes s))))"

fun dec_rounds :: "8 word list list \<Rightarrow> 8 word list \<Rightarrow> 8 word list" where
  "dec_rounds [] s = s"
| "dec_rounds [k] s = InvSubBytes (InvShiftRows (AddRoundKey k s))"
| "dec_rounds (k # ks) s = InvSubBytes (InvShiftRows (InvMixColumns (AddRoundKey k (dec_rounds ks s))))"

definition to_words :: "bytes \<Rightarrow> 8 word list" where
  "to_words b = map (\<lambda>c. word_of_nat (byte_val c)) b"

definition of_words :: "8 word list \<Rightarrow> bytes" where
  "of_words ws = map (\<lambda>w. char_of (unat w)) ws"

definition aes_encrypt :: "bytes \<Rightarrow> bytes \<Rightarrow> bytes" where
  "aes_encrypt key b =
     (let ks = round_keys (to_words key)
      in of_words (enc_rounds (tl ks) (AddRoundKey (hd ks) (to_words b))))"

definition aes_decrypt :: "bytes \<Rightarrow> bytes \<Rightarrow> bytes" where
  "aes_decrypt key b =
     (let ks = round_keys (to_words key)
      in of_words (AddRoundKey (hd ks) (dec_rounds (tl ks) (to_words b))))"

section \<open>Decryption undoes encryption\<close>

lemma sbox_inverse: "sbox1 ! unat (sbox0 ! unat x) = x"
proof -
  have t: "map (\<lambda>y. sbox1 ! unat y) sbox0 = map word_of_nat [0..<256]" by code_simp
  have l: "length sbox0 = 256" by (simp add: sbox0_def)
  have u: "unat x < 256" using unsigned_less [of x] by simp
  have "sbox1 ! unat (sbox0 ! unat x) = map (\<lambda>y. sbox1 ! unat y) sbox0 ! unat x" using u l by simp
  also have "\<dots> = x" using u by (simp add: t)
  finally show ?thesis .
qed

lemma length_16E:
  assumes "length s = 16"
  obtains a b c d e f g h i j k l m n p q where "s = [a, b, c, d, e, f, g, h, i, j, k, l, m, n, p, q]"
  using assms by (auto simp: numeral_eq_Suc length_Suc_conv)

lemma xtime_xor: "xtime (a XOR b) = xtime a XOR xtime b"
  by (simp add: xtime_def push_bit_xor bit_xor_iff ac_simps)

lemma InvMix_Mix: "length s mod 4 = 0 \<Longrightarrow> InvMixColumns (MixColumns s) = s"
  by (induction s rule: MixColumns.induct) (simp_all add: Let_def xtime_xor ac_simps)

lemma InvShift_Shift: "length s = 16 \<Longrightarrow> InvShiftRows (ShiftRows s) = s"
  by (erule length_16E) (simp add: InvShiftRows_def ShiftRows_def)

lemma InvSub_Sub: "InvSubBytes (SubBytes s) = s"
  by (simp add: InvSubBytes_def SubBytes_def comp_def sbox_inverse)

lemma AddRoundKey_twice: "length k = length s \<Longrightarrow> AddRoundKey k (AddRoundKey k s) = s"
  by (induction s k rule: list_induct2') (simp_all add: AddRoundKey_def xor.assoc)

lemma length_MixColumns: "length s mod 4 = 0 \<Longrightarrow> length (MixColumns s) = length s"
  by (induction s rule: MixColumns.induct) (simp_all add: Let_def)

lemma length_transformations:
  "length (SubBytes s) = length s" "length (ShiftRows s) = 16" "length (AddRoundKey k s) = min (length s) (length k)"
  by (simp_all add: SubBytes_def ShiftRows_def AddRoundKey_def)

lemmas length_round = length_transformations length_MixColumns

lemma dec_enc_rounds:
  "length s = 16 \<Longrightarrow> \<forall>k \<in> set ks. length k = 16 \<Longrightarrow>
     dec_rounds ks (enc_rounds ks s) = s \<and> length (enc_rounds ks s) = 16"
proof (induction ks s rule: enc_rounds.induct)
  case (3 k l ks s)
  let ?t = "ShiftRows (SubBytes s)" and ?u = "AddRoundKey k (MixColumns (ShiftRows (SubBytes s)))"
  have t: "length (SubBytes s) = 16" "length ?t = 16" "length (MixColumns ?t) = 16" "length ?u = 16"
    using 3 by (simp_all add: length_round)
  show ?case
    using 3 t by (simp add: AddRoundKey_twice InvMix_Mix InvShift_Shift InvSub_Sub)
qed (simp_all add: AddRoundKey_twice InvShift_Shift InvSub_Sub length_round)

lemma length_next_word:
  assumes "8 \<le> length ws" "\<forall>w \<in> set ws. length w = 4"
  shows "length (next_word ws) = 4"
proof -
  have l: "length (ws ! (length ws - 1)) = 4" "length (ws ! (length ws - 8)) = 4"
    using assms by (simp_all add: nth_mem)
  from l(1) obtain a b c d where "ws ! (length ws - 1) = [a, b, c, d]"
    by (auto simp: numeral_eq_Suc length_Suc_conv)
  then show ?thesis using l(2) by (simp add: next_word_def Let_def AddRoundKey_def SubBytes_def)
qed

lemma expandKey_words:
  assumes "length key = 32"
  shows "length (expandKey key) = 60 \<and> (\<forall>w \<in> set (expandKey key). length w = 4)"
proof -
  define f where "f = (\<lambda>ws. ws @ [next_word ws])"
  define w where "w = map (\<lambda>i. take 4 (drop (4 * i) key)) [0..<8]"
  have w: "length w = 8" "\<forall>x \<in> set w. length x = 4" using assms by (auto simp: w_def)
  have "length ((f ^^ n) w) = 8 + n \<and> (\<forall>x \<in> set ((f ^^ n) w). length x = 4)" for n
  proof (induction n)
    case (Suc n)
    then have "length (next_word ((f ^^ n) w)) = 4" by (intro length_next_word) auto
    then show ?case using Suc by (auto simp: f_def)
  qed (simp add: w)
  from this [of 52] show ?thesis unfolding expandKey_def f_def [symmetric] w_def [symmetric] by simp
qed

lemma round_keys_blocks:
  assumes "length key = 32"
  shows "length (round_keys key) = 15 \<and> (\<forall>k \<in> set (round_keys key). length k = 16)"
proof -
  note w = expandKey_words [OF assms]
  have "length (concat (take 4 (drop (4 * i) (expandKey key)))) = 16" if "i < 15" for i
  proof -
    have "map length (take 4 (drop (4 * i) (expandKey key))) = replicate 4 4"
      using w that by (intro replicate_eqI) (auto dest!: in_set_takeD in_set_dropD)
    then show ?thesis by (simp add: length_concat sum_list_replicate)
  qed
  then show ?thesis by (auto simp: round_keys_def)
qed

lemma to_of_words: "to_words (of_words ws) = ws"
proof -
  have "unat w < 256" for w :: "8 word" using unsigned_less [of w] by simp
  then show ?thesis by (simp add: to_words_def of_words_def comp_def)
qed

lemma of_to_words: "of_words (to_words b) = b"
  by (simp add: to_words_def of_words_def comp_def unat_of_nat)

lemma length_words [simp]: "length (to_words b) = length b" "length (of_words ws) = length ws"
  by (simp_all add: to_words_def of_words_def)

lemma aes_round_trip:
  assumes "length key = 32" "length b = 16"
  shows "aes_decrypt key (aes_encrypt key b) = b \<and> length (aes_encrypt key b) = 16"
proof -
  let ?ks = "round_keys (to_words key)"
  have "length ?ks = 15 \<and> (\<forall>k \<in> set ?ks. length k = 16)" by (rule round_keys_blocks) (simp add: assms)
  then obtain k ks where ks: "?ks = k # ks" "length k = 16" "\<forall>x \<in> set ks. length x = 16" by (cases ?ks) auto
  have "length (AddRoundKey k (to_words b)) = 16" using assms ks by (simp add: AddRoundKey_def)
  then have "dec_rounds ks (enc_rounds ks (AddRoundKey k (to_words b))) = AddRoundKey k (to_words b)"
    "length (enc_rounds ks (AddRoundKey k (to_words b))) = 16"
    using dec_enc_rounds ks by blast+
  then show ?thesis
    using ks assms
    by (simp add: aes_encrypt_def aes_decrypt_def Let_def to_of_words AddRoundKey_twice of_to_words)
qed

end
