(* ===== verification/Masterrummy.thy ===== *)
theory Masterrummy
  imports Capture Plugin Aes
begin

unbundle bit_operations_syntax

text \<open>
  plugins/masterrummy: the decoder of the exchanges the HTTP plugin stores. Base64, cipher block chaining, the padding,
  UTF-8, percent-encoding and query strings are defined in full; the AES block cipher, the parsing of a request URI and
  the functions of encoding/json are arguments.
\<close>

section \<open>Decryption\<close>

definition xor_byte :: "char \<Rightarrow> char \<Rightarrow> char" where
  "xor_byte a b = char_of (byte_val a XOR byte_val b)"

text \<open>\<open>CryptBlocks\<close> of a CBC decrypter; \<open>dec\<close> decrypts one block, \<open>prev\<close> is the initialization vector.\<close>

function cbc_decrypt :: "(bytes \<Rightarrow> bytes) \<Rightarrow> bytes \<Rightarrow> bytes \<Rightarrow> bytes" where
  "cbc_decrypt dec prev data =
     (if data = [] then []
      else map2 xor_byte (dec (take 16 data)) prev @ cbc_decrypt dec (take 16 data) (drop 16 data))"
  by pat_completeness auto
termination
  by (relation "measure (\<lambda>(dec, prev, data). length data)") auto

declare cbc_decrypt.simps [simp del]

definition aesIV :: bytes where
  "aesIV = ''1102736404060702''"

definition aesKey :: bytes where
  "aesKey = ''5059b898a9420817732621e597de65a7''"

definition PackageName :: bytes where
  "PackageName = ''com.x69l.r916z.a572''"

text \<open>\<open>utf8.Valid\<close>.\<close>

function utf8_Valid :: "bytes \<Rightarrow> bool" where
  "utf8_Valid s =
     (if s = [] then True
      else if snd (decode_rune s) = 1 \<and> \<not> byte_val (s ! 0) < 0x80 then False
      else utf8_Valid (drop (snd (decode_rune s)) s))"
  by pat_completeness auto
termination
  by (relation "measure length") (auto simp: decode_rune_width)

declare utf8_Valid.simps [simp del]

definition decrypt :: "bytes \<Rightarrow> err + bytes" where
  "decrypt encoded =
     (case b64_decode encoded of
        None \<Rightarrow> Inl (ErrorString ''invalid AES ciphertext'')
      | Some data \<Rightarrow>
          (if data = [] \<or> length data mod 16 \<noteq> 0 then Inl (ErrorString ''invalid AES ciphertext'')
           else
             (let data1 = cbc_decrypt (aes_decrypt aesKey) aesIV data;
                  n = byte_val (data1 ! (length data1 - 1))
              in if n < 1 \<or> 16 < n \<or> drop (length data1 - n) data1 \<noteq> replicate n (char_of n)
                 then Inl (ErrorString ''invalid AES padding'')
                 else
                   (let data2 = take (length data1 - n) data1 in
                    if \<not> utf8_Valid data2 then Inl (ErrorString ''invalid decrypted UTF-8'') else Inr data2))))"

section \<open>Query strings\<close>

text \<open>\<open>url.PathUnescape\<close>, and \<open>url.QueryUnescape\<close>, which also turns a plus sign into a space.\<close>

fun unescape :: "bool \<Rightarrow> bytes \<Rightarrow> bytes option" where
  "unescape query [] = Some []"
| "unescape query (c # s) =
     (if c = CHR ''%'' then
        (case s of
           a # b # rest \<Rightarrow>
             (if is_hex_char a \<and> is_hex_char b then map_option (Cons (char_of (16 * hex_digit a + hex_digit b))) (unescape query rest)
              else None)
         | _ \<Rightarrow> None)
      else if query \<and> c = CHR ''+'' then map_option (Cons (CHR '' '')) (unescape query s)
      else map_option (Cons c) (unescape query s))"

text \<open>\<open>url.ParseQuery\<close>: the pairs in their order; \<open>None\<close> if it reports an error.\<close>

definition query_pair :: "bytes \<Rightarrow> (bytes \<times> bytes) option" where
  "query_pair s =
     (let (k, v) = (case IndexByte s (CHR ''='') of None \<Rightarrow> (s, []) | Some i \<Rightarrow> (take i s, drop (i + 1) s))
      in if CHR '';'' \<in> set s then None
         else (case (unescape True k, unescape True v) of (Some k1, Some v1) \<Rightarrow> Some (k1, v1) | _ \<Rightarrow> None))"

fun query_pairs :: "bytes list \<Rightarrow> (bytes \<times> bytes) list option" where
  "query_pairs [] = Some []"
| "query_pairs (s # ss) =
     (if s = [] then query_pairs ss
      else
        (case (query_pair s, query_pairs ss) of (Some p, Some ps) \<Rightarrow> Some (p # ps) | _ \<Rightarrow> None))"

definition ParseQuery :: "bytes \<Rightarrow> (bytes \<times> bytes) list option" where
  "ParseQuery s = query_pairs (split_char (CHR ''&'') s)"

definition field_values :: "(bytes \<times> bytes) list \<Rightarrow> bytes \<Rightarrow> bytes list" where
  "field_values fs k = map snd (filter (\<lambda>p. fst p = k) fs)"

definition field_Get :: "(bytes \<times> bytes) list \<Rightarrow> bytes \<Rightarrow> bytes" where
  "field_Get fs k = (case field_values fs k of [] \<Rightarrow> [] | v # _ \<Rightarrow> v)"

section \<open>Exchanges\<close>

text \<open>
  \<open>j_object\<close>, \<open>j_string\<close> and \<open>j_number\<close> are \<open>json.Unmarshal\<close> into a map, a string and a number: \<open>None\<close> is an error, and
  \<open>Some None\<close> of \<open>j_object\<close> the nil map that \<open>null\<close> gives. \<open>u_parse\<close> gives path and query of a request URI.
\<close>

record rummy_env =
  u_parse :: "bytes \<Rightarrow> (bytes \<times> bytes) option"
  j_object :: "bytes \<Rightarrow> (bytes \<rightharpoonup> bytes) option option"
  j_string :: "bytes \<Rightarrow> bytes option"
  j_number :: "bytes \<Rightarrow> bytes option"
  j_quote :: "bytes \<Rightarrow> bytes"
  j_marshal :: "(bytes \<rightharpoonup> bytes) \<Rightarrow> bytes"
  j_compact :: "bytes \<Rightarrow> bytes"

record Decoded =
  dc_Action :: bytes
  dc_UID :: bytes
  dc_RequestPlaintext :: bytes
  dc_ResponsePlaintext :: bytes
  dc_RequestJSON :: bytes
  dc_ResponseJSON :: bytes

text \<open>A missing key is an empty message.\<close>

definition scalar :: "rummy_env \<Rightarrow> bytes option \<Rightarrow> bytes" where
  "scalar J msg =
     (let m = (case msg of None \<Rightarrow> [] | Some x \<Rightarrow> x) in
      case j_string J m of
        Some s \<Rightarrow> s
      | None \<Rightarrow> (if m \<noteq> [] \<and> m \<noteq> ''null'' then (case j_number J m of Some n \<Rightarrow> n | None \<Rightarrow> []) else []))"

text \<open>The encrypted request: the query, or the body if there is none.\<close>

definition decode_request :: "rummy_env \<Rightarrow> bytes \<Rightarrow> bytes \<Rightarrow> err + bytes" where
  "decode_request J target requestBody =
     (case u_parse J target of
        None \<Rightarrow> Inl (ErrorString ''not a masterrummy endpoint'')
      | Some (path, query) \<Rightarrow>
          (if path \<noteq> ''/i.php'' then Inl (ErrorString ''not a masterrummy endpoint'')
           else
             (case unescape False (if query = [] then strings_TrimSpace requestBody else query) of
                None \<Rightarrow> Inl (ErrorString ''invalid request encoding'')
              | Some encrypted \<Rightarrow> decrypt encrypted)))"

definition request_fields :: "rummy_env \<Rightarrow> bytes \<Rightarrow> err + (bytes \<times> bytes) list" where
  "request_fields J request =
     (case ParseQuery request of
        None \<Rightarrow> Inl (ErrorString ''invalid decrypted request'')
      | Some fs \<Rightarrow>
          (if field_Get fs ''action'' = [] \<or> length (field_values fs ''action'') \<noteq> 1 \<or>
              length (field_values fs ''param'') \<noteq> 1
           then Inl (ErrorString ''invalid decrypted request'')
           else
             (case j_object J (field_Get fs ''param'') of
                Some (Some params) \<Rightarrow>
                  (if scalar J (params ''channel_id'') \<noteq> ''2000572'' then Inl (ErrorString ''request is not from a572'')
                   else if list_ex (\<lambda>p. length (field_values fs (fst p)) \<noteq> 1) fs then Inl (ErrorString ''duplicate request field'')
                   else Inr fs)
              | _ \<Rightarrow> Inl (ErrorString ''request is not from a572''))))"

definition requestJSON :: "rummy_env \<Rightarrow> (bytes \<times> bytes) list \<Rightarrow> bytes \<rightharpoonup> bytes" where
  "requestJSON J fs =
     (map_of (map (\<lambda>(k, v). (k, j_quote J v)) fs)) (''param'' \<mapsto> field_Get fs ''param'')"

definition decode_response :: "rummy_env \<Rightarrow> bytes \<Rightarrow> err + bytes" where
  "decode_response J body =
     (let b = strings_TrimSpace body in
      if \<not> prefix ''aes#'' b then Inl (ErrorString ''response is not encrypted'') else decrypt (drop 4 b))"

definition response_uid :: "rummy_env \<Rightarrow> (bytes \<rightharpoonup> bytes) \<Rightarrow> bytes" where
  "response_uid J obj =
     (let uid = scalar J (obj ''uid'') in
      if uid \<noteq> [] then uid
      else
        (case j_object J (case obj ''data'' of None \<Rightarrow> [] | Some x \<Rightarrow> x) of
           None \<Rightarrow> []
         | Some data \<Rightarrow> scalar J (case data of None \<Rightarrow> None | Some d \<Rightarrow> d ''uid'')))"

definition Decode :: "rummy_env \<Rightarrow> bytes \<Rightarrow> bytes \<Rightarrow> bytes \<Rightarrow> err + Decoded" where
  "Decode J target requestBody responseBody =
     (case decode_request J target requestBody of
        Inl e \<Rightarrow> Inl e
      | Inr request \<Rightarrow>
     (case request_fields J request of
        Inl e \<Rightarrow> Inl e
      | Inr fs \<Rightarrow>
     (case decode_response J responseBody of
        Inl e \<Rightarrow> Inl e
      | Inr response \<Rightarrow>
     (case j_object J response of
        Some (Some obj) \<Rightarrow>
          (let action = field_Get fs ''action'' in
           if (case obj ''action'' of None \<Rightarrow> False | Some m \<Rightarrow> scalar J (Some m) \<noteq> action)
           then Inl (ErrorString ''response action does not match request'')
           else
             Inr \<lparr>dc_Action = action, dc_UID = response_uid J obj, dc_RequestPlaintext = request, dc_ResponsePlaintext = response,
                  dc_RequestJSON = j_marshal J (requestJSON J fs), dc_ResponseJSON = j_compact J response\<rparr>)
      | _ \<Rightarrow> Inl (ErrorString ''decrypted response is not a JSON object'')))))"


section \<open>Decryption inverts encryption\<close>

text \<open>The other side of the protocol: padding, cipher block chaining with \<open>enc\<close>, base64.\<close>

definition pad16 :: "bytes \<Rightarrow> bytes" where
  "pad16 msg = (let n = 16 - length msg mod 16 in msg @ replicate n (char_of n))"

function cbc_encrypt :: "(bytes \<Rightarrow> bytes) \<Rightarrow> bytes \<Rightarrow> bytes \<Rightarrow> bytes" where
  "cbc_encrypt enc prev data =
     (if data = [] then []
      else
        (let c = enc (map2 xor_byte (take 16 data) prev) in c @ cbc_encrypt enc c (drop 16 data)))"
  by pat_completeness auto
termination
  by (relation "measure (\<lambda>(enc, prev, data). length data)") auto

declare cbc_encrypt.simps [simp del]

definition encrypt :: "bytes \<Rightarrow> bytes" where
  "encrypt msg = b64_encode (cbc_encrypt (aes_encrypt aesKey) aesIV (pad16 msg))"

lemma xor_byte_twice: "xor_byte (xor_byte a b) b = a"
proof -
  have "byte_val (xor_byte a b) = byte_val a XOR byte_val b"
  proof -
    have "take_bit 8 (byte_val a XOR byte_val b) = byte_val a XOR byte_val b"
      by (simp add: take_bit_xor take_bit_nat_eq_self)
    then show ?thesis by (simp add: xor_byte_def take_bit_eq_mod)
  qed
  then show ?thesis by (simp add: xor_byte_def xor.assoc)
qed

lemma xor_twice: "length p = length b \<Longrightarrow> map2 xor_byte (map2 xor_byte b p) p = b"
  by (induction b p rule: list_induct2') (simp_all add: xor_byte_twice)

text \<open>A block cipher with a key: \<open>dec\<close> undoes \<open>enc\<close> on blocks of 16 bytes.\<close>

locale block_cipher =
  fixes enc dec :: "bytes \<Rightarrow> bytes"
  assumes enc_length: "length b = 16 \<Longrightarrow> length (enc b) = 16"
    and dec_enc: "length b = 16 \<Longrightarrow> dec (enc b) = b"
begin

lemma cbc_round: "length prev = 16 \<Longrightarrow> 16 dvd length data \<Longrightarrow>
    cbc_decrypt dec prev (cbc_encrypt enc prev data) = data \<and> length (cbc_encrypt enc prev data) = length data"
proof (induction data arbitrary: prev rule: measure_induct_rule [of length])
  case (less data)
  show ?case
  proof (cases "data = []")
    case True
    then show ?thesis by (simp add: cbc_encrypt.simps cbc_decrypt.simps)
  next
    case False
    then have len: "16 \<le> length data" "16 dvd length (drop 16 data)"
      using less.prems(2) by (auto simp: dvd_imp_le)
    let ?x = "map2 xor_byte (take 16 data) prev"
    have x: "length ?x = 16" using len less.prems by simp
    note c = enc_length [OF x]
    have e: "cbc_encrypt enc prev data = enc ?x @ cbc_encrypt enc (enc ?x) (drop 16 data)"
      using False by (subst cbc_encrypt.simps) (simp add: Let_def)
    have "cbc_decrypt dec prev (cbc_encrypt enc prev data) =
        map2 xor_byte (dec (enc ?x)) prev @ cbc_decrypt dec (enc ?x) (cbc_encrypt enc (enc ?x) (drop 16 data))"
      unfolding e using c by (subst cbc_decrypt.simps) auto
    also have "map2 xor_byte (dec (enc ?x)) prev = take 16 data"
      using dec_enc [OF x] xor_twice [of prev "take 16 data"] len less.prems by simp
    finally show ?thesis
      using less.IH [of "drop 16 data" "enc ?x"] len c False by (simp add: e)
  qed
qed

end

lemma pad16_length: "16 dvd length (pad16 msg)" "pad16 msg \<noteq> []"
proof -
  let ?n = "length msg mod 16"
  have "length (pad16 msg) = length msg + (16 - ?n)" by (simp add: pad16_def Let_def)
  also have "\<dots> = (length msg div 16 + 1) * 16"
    by presburger
  finally show "16 dvd length (pad16 msg)" by simp
  show "pad16 msg \<noteq> []" by (auto simp: pad16_def Let_def)
qed

interpretation aes: block_cipher "aes_encrypt aesKey" "aes_decrypt aesKey"
  by unfold_locales (simp_all add: aes_round_trip aesKey_def)

text \<open>
  The plugin reads what the application encrypts: for every text in UTF-8, \<open>decrypt\<close> undoes padding, AES in CBC
  mode with the built-in key and vector, and base64.
\<close>

lemma decrypt_encrypt:
  assumes "utf8_Valid msg"
  shows "decrypt (encrypt msg) = Inr msg"
proof -
  let ?d = "pad16 msg"
  let ?e = "cbc_encrypt (aes_encrypt aesKey) aesIV ?d"
  define n where "n = 16 - length msg mod 16"
  have n: "1 \<le> n" "n \<le> 16" by (simp_all add: n_def Suc_leI)
  have r: "cbc_decrypt (aes_decrypt aesKey) aesIV ?e = ?d" "length ?e = length ?d"
    using aes.cbc_round [OF _ pad16_length(1), of aesIV msg] by (simp_all add: aesIV_def)
  have d: "?d = msg @ replicate n (char_of n)" by (simp add: pad16_def Let_def n_def)
  have "?d ! (length ?d - 1) = last ?d" using pad16_length(2) by (simp add: last_conv_nth)
  also have "last ?d = char_of n" using n(1) by (simp add: d)
  finally have l: "?d ! (length ?d - 1) = char_of n" .
  have b: "byte_val (char_of n) = n" using n(2) by simp
  have "b64_decode (encrypt msg) = Some ?e" by (simp add: encrypt_def)
  moreover have "?e \<noteq> []" "length ?e mod 16 = 0" using r(2) pad16_length by auto
  moreover have "drop (length ?d - n) ?d = replicate n (char_of n)" "take (length ?d - n) ?d = msg" by (simp_all add: d)
  ultimately show ?thesis
    using assms r(1) l b n by (simp add: decrypt_def Let_def)
qed

section \<open>A whole exchange\<close>

lemma b64_encode_graphic: "c \<in> set (b64_encode s) \<Longrightarrow> 37 < byte_val c \<and> byte_val c < 128"
proof -
  have digit: "37 < byte_val (b64_char n) \<and> byte_val (b64_char n) < 128" if "n < 64" for n
    using that by (auto simp: b64_char_def of_char_of)
  show "c \<in> set (b64_encode s) \<Longrightarrow> ?thesis"
    by (induction s rule: b64_encode.induct) (use b64_bounds digit in \<open>auto\<close>)
qed

lemma encrypt_graphic: "c \<in> set (encrypt msg) \<Longrightarrow> 37 < byte_val c \<and> byte_val c < 128"
  unfolding encrypt_def by (rule b64_encode_graphic)

lemma encrypt_nonempty: "utf8_Valid msg \<Longrightarrow> encrypt msg \<noteq> []"
proof
  assume "utf8_Valid msg" "encrypt msg = []"
  then have "decrypt [] = Inr msg" using decrypt_encrypt by metis
  then show False by (simp add: decrypt_def b64_decode_def)
qed

lemma unescape_plain: "CHR ''%'' \<notin> set s \<Longrightarrow> unescape False s = Some s"
  by (induction s) auto

lemma unescape_encrypt: "unescape False (encrypt msg) = Some (encrypt msg)"
  using encrypt_graphic [of "CHR ''%''"] by (intro unescape_plain) auto

lemma decode_response_encrypt:
  assumes "utf8_Valid response"
  shows "decode_response J (''aes#'' @ encrypt response) = Inr response"
proof -
  let ?b = "''aes#'' @ encrypt response"
  have "last ?b \<in> set (encrypt response)" using encrypt_nonempty [OF assms] by simp
  note l = encrypt_graphic [OF this]
  have "strings_TrimSpace ?b = ?b"
    by (rule TrimSpace_plain) (use l in simp_all)
  then show ?thesis using decrypt_encrypt [OF assms] by (simp add: decode_response_def)
qed

text \<open>
  C36: an exchange of the application is decoded. If the request travels encrypted in the query, the decrypted request has
  the fields the protocol asks for, and the response is \<open>aes#\<close> and an encrypted JSON object that names no other action,
  then \<open>Decode\<close> succeeds and records the two texts that were encrypted, the action of the request and the user of the
  response.
\<close>

theorem exchange_decoded:
  assumes "u_parse J target = Some (''/i.php'', encrypt request)"
    and "utf8_Valid request" "utf8_Valid response"
    and "request_fields J request = Inr fs"
    and "j_object J response = Some (Some obj)"
    and "\<forall>m. obj ''action'' = Some m \<longrightarrow> scalar J (Some m) = field_Get fs ''action''"
  shows "Decode J target requestBody (''aes#'' @ encrypt response) =
    Inr \<lparr>dc_Action = field_Get fs ''action'', dc_UID = response_uid J obj,
         dc_RequestPlaintext = request, dc_ResponsePlaintext = response,
         dc_RequestJSON = j_marshal J (requestJSON J fs), dc_ResponseJSON = j_compact J response\<rparr>"
proof -
  have "decode_request J target requestBody = Inr request"
    using assms(1) decrypt_encrypt [OF assms(2)] encrypt_nonempty [OF assms(2)]
    by (simp add: decode_request_def unescape_encrypt)
  moreover have "\<not> (case obj ''action'' of None \<Rightarrow> False | Some m \<Rightarrow> scalar J (Some m) \<noteq> field_Get fs ''action'')"
    using assms(6) by (auto split: option.split)
  ultimately show ?thesis
    using assms(4,5) decode_response_encrypt [OF assms(3)] by (simp add: Decode_def Let_def)
qed

text \<open>An environment with two JSON objects.\<close>

definition ex_rummy_env :: rummy_env where
  "ex_rummy_env =
     \<lparr>u_parse = (\<lambda>_. Some (''/i.php'', encrypt ''action=login&param=P'')),
      j_object = (\<lambda>s. if s = ''P'' then Some (Some [''channel_id'' \<mapsto> ''2000572''])
                      else if s = ''R'' then Some (Some [''action'' \<mapsto> ''login'', ''uid'' \<mapsto> ''7'']) else None),
      j_string = Some, j_number = Some, j_quote = id, j_marshal = (\<lambda>_. []), j_compact = id\<rparr>"

lemma ex_query: "ParseQuery ''action=login&param=P'' = Some [(''action'', ''login''), (''param'', ''P'')]"
proof -
  have e: "''action=login&param=P'' = ''action=login'' @ CHR ''&'' # ''param=P''" by simp
  have "split_char (CHR ''&'') ''action=login'' = [''action=login'']" "split_char (CHR ''&'') ''param=P'' = [''param=P'']"
    by (simp_all add: split_char_no_sep del: split_char.simps)
  then have "ParseQuery ''action=login&param=P'' = query_pairs [''action=login'', ''param=P'']"
    unfolding ParseQuery_def e split_char_append by (simp only: append_Cons append_Nil)
  moreover have "query_pair ''action=login'' = Some (''action'', ''login'')" "query_pair ''param=P'' = Some (''param'', ''P'')"
    by code_simp+
  ultimately show ?thesis by simp
qed

lemma utf8_Valid_ascii: "list_all (\<lambda>c. byte_val c < 0x80) s \<Longrightarrow> utf8_Valid s"
proof (induction s)
  case (Cons c s)
  then have "decode_rune (c # s) = (byte_val c, 1)" by (simp add: decode_rune_def Let_def)
  then show ?case using Cons by (subst utf8_Valid.simps) simp
qed (simp add: utf8_Valid.simps)

theorem exchange_decoded_witness:
  "\<exists>d. Decode ex_rummy_env [] [] (''aes#'' @ encrypt ''R'') = Inr d \<and> dc_Action d = ''login'' \<and> dc_UID d = ''7'' \<and>
       dc_RequestPlaintext d = ''action=login&param=P''"
proof -
  let ?fs = "[(''action'', ''login''), (''param'', ''P'')]" and ?obj = "[''action'' \<mapsto> ''login'', ''uid'' \<mapsto> ''7'']"
  have f: "request_fields ex_rummy_env ''action=login&param=P'' = Inr ?fs"
    by (simp add: request_fields_def ex_query field_Get_def field_values_def ex_rummy_env_def scalar_def Let_def)
  have u: "utf8_Valid ''action=login&param=P''" "utf8_Valid ''R''" by (simp_all add: utf8_Valid_ascii)
  have "Decode ex_rummy_env [] [] (''aes#'' @ encrypt ''R'') =
    Inr \<lparr>dc_Action = field_Get ?fs ''action'', dc_UID = response_uid ex_rummy_env ?obj,
         dc_RequestPlaintext = ''action=login&param=P'', dc_ResponsePlaintext = ''R'',
         dc_RequestJSON = j_marshal ex_rummy_env (requestJSON ex_rummy_env ?fs), dc_ResponseJSON = j_compact ex_rummy_env ''R''\<rparr>"
    by (rule exchange_decoded [OF _ u f])
      (simp_all add: ex_rummy_env_def scalar_def field_Get_def field_values_def Let_def)
  then show ?thesis
    by (simp add: field_Get_def field_values_def response_uid_def scalar_def ex_rummy_env_def Let_def)
qed

end
