(* ===== verification/Watchdog.thy ===== *)
theory Watchdog
  imports Tunnel
begin

text \<open>
  proxy.go, the goroutine of the tunnel watchdog: it wakes up at the ticks of a \<open>time.Ticker\<close>, closes the connections of a
  tunnel without recent activity, and ends with the tunnel. The state has a clock; a tick is handled when it is due.
\<close>

section \<open>The goroutine\<close>

text \<open>\<open>wd_done\<close> is the channel that \<open>stop\<close> closes, \<open>wd_closed\<close> the time at which the connections were closed,
  with the last activity that \<open>watch\<close> read then.\<close>

record watchdog =
  wd_tw :: tunnelWatchdog
  wd_now :: time
  wd_next :: time
  wd_done :: bool
  wd_watching :: bool
  wd_closed :: "(time \<times> time) option"

definition start_watch :: "tunnelWatchdog \<Rightarrow> time \<Rightarrow> watchdog" where
  "start_watch tw now =
     \<lparr>wd_tw = tw, wd_now = now, wd_next = now + watch_interval tw, wd_done = False, wd_watching = True, wd_closed = None\<rparr>"

definition stop :: "watchdog \<Rightarrow> watchdog" where
  "stop s = (if wd_done s then s else s \<lparr>wd_done := True\<rparr>)"

text \<open>The two cases of the \<open>select\<close> in \<open>watch\<close>.\<close>

definition watch_stopped :: "watchdog \<Rightarrow> watchdog" where
  "watch_stopped s = s \<lparr>wd_watching := False\<rparr>"

definition watch_ticker :: "watchdog \<Rightarrow> watchdog" where
  "watch_ticker s =
     (if watch_tick (wd_now s) (wd_tw s) then s \<lparr>wd_watching := False, wd_closed := Some (wd_now s, tw_last (wd_tw s))\<rparr>
      else s \<lparr>wd_next := wd_next s + watch_interval (wd_tw s)\<rparr>)"

inductive watch_step :: "watchdog \<Rightarrow> watchdog \<Rightarrow> bool" where
  passing: "0 \<le> d \<Longrightarrow> (wd_watching s \<Longrightarrow> wd_now s + d \<le> wd_next s) \<Longrightarrow> watch_step s (s \<lparr>wd_now := wd_now s + d\<rparr>)"
| touching: "touch (wd_now s) (Some (wd_tw s)) = Some tw \<Longrightarrow> watch_step s (s \<lparr>wd_tw := tw\<rparr>)"
| stopping: "watch_step s (stop s)"
| stopped: "wd_watching s \<Longrightarrow> wd_done s \<Longrightarrow> watch_step s (watch_stopped s)"
| ticking: "wd_watching s \<Longrightarrow> wd_now s = wd_next s \<Longrightarrow> watch_step s (watch_ticker s)"

definition watch_reachable :: "duration \<Rightarrow> time \<Rightarrow> watchdog \<Rightarrow> bool" where
  "watch_reachable timeout now s \<longleftrightarrow>
     (\<exists>tw. newTunnelWatchdog timeout now = Some tw \<and> watch_step\<^sup>*\<^sup>* (start_watch tw now) s)"

section \<open>When a tunnel is closed\<close>

definition watch_inv :: "duration \<Rightarrow> watchdog \<Rightarrow> bool" where
  "watch_inv timeout s \<longleftrightarrow>
     tw_timeout (wd_tw s) = timeout \<and> tw_last (wd_tw s) \<le> wd_now s \<and>
     (wd_watching s \<longrightarrow> wd_closed s = None \<and> wd_now s \<le> wd_next s \<and>
        wd_next s < tw_last (wd_tw s) + timeout + watch_interval (wd_tw s)) \<and>
     (\<not> wd_watching s \<longrightarrow> wd_done s \<or> wd_closed s \<noteq> None) \<and>
     (\<forall>c l. wd_closed s = Some (c, l) \<longrightarrow> l + timeout \<le> c \<and> c < l + timeout + watch_interval (wd_tw s))"

lemma watch_interval_pos [simp]: "0 < watch_interval tw"
  by (simp add: watch_interval_def Let_def)

lemma watch_tick_iff: "tw_timeout tw \<le> 2 ^ 63 - 1 \<Longrightarrow> - (2 ^ 63) < tw_timeout tw \<Longrightarrow> watch_tick now tw \<longleftrightarrow> tw_last tw + tw_timeout tw \<le> now"
  by (auto simp: watch_tick_def time_Sub_def max_def min_def)

lemma watch_interval_last [simp]: "watch_interval (tw \<lparr>tw_last := t\<rparr>) = watch_interval tw"
  by (simp add: watch_interval_def)

lemma watch_step_inv:
  assumes inv: "watch_inv timeout s" and t: "0 < timeout" "timeout \<le> 2 ^ 63 - 1" and step: "watch_step s s'"
  shows "watch_inv timeout s'"
  using step
proof cases
  case (passing d)
  then show ?thesis using inv by (auto simp: watch_inv_def)
next
  case (touching tw)
  then have "tw = wd_tw s \<lparr>tw_last := wd_now s\<rparr>" by (simp add: touch_def)
  then show ?thesis using touching inv by (auto simp: watch_inv_def)
next
  case stopping
  then show ?thesis using inv by (auto simp: watch_inv_def stop_def)
next
  case stopped
  then show ?thesis using inv by (auto simp: watch_inv_def watch_stopped_def)
next
  case ticking
  have "watch_tick (wd_now s) (wd_tw s) \<longleftrightarrow> tw_last (wd_tw s) + timeout \<le> wd_now s"
    using inv t watch_tick_iff [of "wd_tw s"] by (simp add: watch_inv_def)
  then show ?thesis using ticking inv watch_interval_pos [of "wd_tw s"]
    by (auto simp: watch_inv_def watch_ticker_def simp del: watch_interval_pos)
qed

lemma watch_reachable_inv:
  assumes "watch_reachable timeout now s" "timeout \<le> 2 ^ 63 - 1"
  shows "watch_inv timeout s"
proof -
  obtain tw where tw: "newTunnelWatchdog timeout now = Some tw" and run: "watch_step\<^sup>*\<^sup>* (start_watch tw now) s"
    using assms(1) by (auto simp: watch_reachable_def)
  have t: "0 < timeout" "tw = \<lparr>tw_timeout = timeout, tw_last = now\<rparr>"
    using tw by (auto simp: newTunnelWatchdog_def split: if_splits)
  have "watch_inv timeout (start_watch tw now)"
    using t watch_interval_pos [of tw] by (auto simp: watch_inv_def start_watch_def simp del: watch_interval_pos)
  with run show ?thesis by induction (use watch_step_inv t(1) assms(2) in blast)+
qed

text \<open>
  C38: the watchdog closes exactly the idle tunnels, and in time. Whatever copying goroutines and the end of the tunnel do, the
  connections are closed only when nothing went through the tunnel for the whole timeout, and then before half of it
  more, or ten milliseconds, have passed; a tunnel that was not stopped is never idle for longer. Stopping the watchdog twice,
  which both ends of a tunnel may do, has no further effect.
\<close>

theorem watchdog_closes_idle:
  assumes "watch_reachable timeout now s" "timeout \<le> 2 ^ 63 - 1"
  shows "(\<forall>c l. wd_closed s = Some (c, l) \<longrightarrow> timeout \<le> c - l \<and> c - l < timeout + max (timeout div 2) 10000000) \<and>
    (wd_closed s = None \<and> \<not> wd_done s \<longrightarrow> wd_now s - tw_last (wd_tw s) < timeout + max (timeout div 2) 10000000) \<and>
    stop (stop s) = stop s"
proof -
  have inv: "watch_inv timeout s" by (rule watch_reachable_inv [OF assms])
  have i: "watch_interval (wd_tw s) = max (timeout div 2) 10000000"
    using inv by (auto simp: watch_interval_def watch_inv_def Let_def max_def)
  then show ?thesis using inv unfolding watch_inv_def i by (auto simp: stop_def)
qed

text \<open>A tunnel with a timeout of one second and no activity.\<close>

theorem watchdog_closes_idle_witness:
  "\<exists>s. watch_reachable 1000000000 0 s \<and> wd_closed s = Some (1000000000, 0) \<and> stop (stop s) = stop s \<and>
     1000000000 \<le> (1000000000 :: int) - 0"
proof -
  define tw where "tw = \<lparr>tw_timeout = 1000000000, tw_last = 0\<rparr>"
  have n: "newTunnelWatchdog 1000000000 0 = Some tw" by (simp add: newTunnelWatchdog_def tw_def)
  have i: "watch_interval tw = 500000000" by (simp add: watch_interval_def tw_def)
  let ?s0 = "start_watch tw 0"
  let ?s1 = "?s0 \<lparr>wd_now := 500000000\<rparr>"
  let ?s2 = "?s1 \<lparr>wd_next := 1000000000\<rparr>"
  let ?s3 = "?s2 \<lparr>wd_now := 1000000000\<rparr>"
  let ?s4 = "?s3 \<lparr>wd_watching := False, wd_closed := Some (1000000000, 0)\<rparr>"
  have "watch_step ?s0 ?s1" using passing [of 500000000 ?s0] by (simp add: start_watch_def i)
  moreover have "watch_step ?s1 ?s2"
    using ticking [of ?s1] by (simp add: start_watch_def i [unfolded tw_def] watch_ticker_def watch_tick_def time_Sub_def tw_def)
  moreover have "watch_step ?s2 ?s3" using passing [of 500000000 ?s2] by (simp add: start_watch_def)
  moreover have "watch_step ?s3 ?s4"
    using ticking [of ?s3] by (simp add: start_watch_def watch_ticker_def watch_tick_def time_Sub_def tw_def)
  ultimately have "watch_step\<^sup>*\<^sup>* ?s0 ?s4" by (meson converse_rtranclp_into_rtranclp rtranclp.rtrancl_refl)
  then have r: "watch_reachable 1000000000 0 ?s4" using n by (auto simp: watch_reachable_def)
  moreover have c: "wd_closed ?s4 = Some (1000000000, 0)" by simp
  ultimately show ?thesis using watchdog_closes_idle [OF r] by (intro exI [of _ ?s4]) (simp only: c, auto)
qed

end
