(* ===== verification/Socks_Udp.thy ===== *)
theory Socks_Udp
  imports Socks_Correct
begin

text \<open>
  socks.go, the goroutines of a UDP association: one waits for the end of the TCP connection of the client, one relays
  the datagrams of the servers, and the caller of \<open>serveSocksUDPAssociate\<close> relays the datagrams of the client. Whoever ends
  first closes the three sockets through a \<open>sync.Once\<close>. What is done between two blocking calls is one step; only the
  caller writes the address of the client, so its test and update of that address are one step too.
\<close>

section \<open>State\<close>

datatype goroutine = Watcher | Remote | Relay

datatype once = Fresh | Running goroutine nat | Finished

datatype watch_pc = WatchRead | WatchClosing | WatchDone

datatype remote_pc = RemoteRead | RemoteWrite bytes sockaddr | RemoteTouch | RemoteClosing | RemoteDone

datatype relay_pc = RelayRead | RelayWrite sockaddr bytes | RelayTouch | RelayClosing "err option" | RelayWait "err option" |
  RelayReturned "err option" | RelayPanic bytes

text \<open>\<open>u_tcp\<close>, \<open>u_relay\<close> and \<open>u_out\<close> tell whether the socket is closed; \<open>u_trace\<close> records what was done with each datagram.\<close>

record assoc =
  u_once :: once
  u_done :: bool
  u_tcp :: bool
  u_relay :: bool
  u_out :: bool
  u_workers :: int
  u_client :: "sockaddr option"
  u_watch_pc :: watch_pc
  u_remote_pc :: remote_pc
  u_relay_pc :: relay_pc
  u_trace :: "udp_event list"

text \<open>The start: \<open>r\<close> is the error of the reply to the client, \<open>t\<close> the one of the first \<open>touch\<close>.\<close>

definition start_assoc :: "err option \<Rightarrow> err option \<Rightarrow> assoc" where
  "start_assoc r t =
     (let failed = (case r of Some e \<Rightarrow> Some e | None \<Rightarrow> t);
          s = \<lparr>u_once = Fresh, u_done = False, u_tcp = False, u_relay = False, u_out = False, u_workers = 0, u_client = None,
               u_watch_pc = WatchDone, u_remote_pc = RemoteDone, u_relay_pc = RelayRead, u_trace = []\<rparr>
      in if failed \<noteq> None then s \<lparr>u_relay_pc := RelayClosing failed\<rparr>
         else s \<lparr>u_workers := 2, u_watch_pc := WatchRead, u_remote_pc := RemoteRead\<rparr>)"

section \<open>The blocks of the goroutines\<close>

text \<open>\<open>closeAll\<close> on behalf of \<open>g\<close>; \<open>None\<close> while another goroutine is at it, and after the end.\<close>

definition closeAll :: "goroutine \<Rightarrow> assoc \<Rightarrow> assoc option" where
  "closeAll g s =
     (case u_once s of
        Fresh \<Rightarrow> Some (s \<lparr>u_once := Running g 0\<rparr>)
      | Running h k \<Rightarrow>
          (if h \<noteq> g then None
           else if k = 0 then Some (s \<lparr>u_once := Running g 1, u_done := True\<rparr>)
           else if k = 1 then Some (s \<lparr>u_once := Running g 2, u_tcp := True\<rparr>)
           else if k = 2 then Some (s \<lparr>u_once := Running g 3, u_relay := True\<rparr>)
           else Some (s \<lparr>u_once := Finished, u_out := True\<rparr>))
      | Finished \<Rightarrow> None)"

definition watch_read :: "err option \<Rightarrow> assoc \<Rightarrow> assoc" where
  "watch_read r s = (if r \<noteq> None then s \<lparr>u_watch_pc := WatchClosing\<rparr> else s)"

definition remote_read :: "(sockaddr \<Rightarrow> bytes) \<Rightarrow> err + (sockaddr \<times> bytes) \<Rightarrow> assoc \<Rightarrow> assoc" where
  "remote_read addr_String r s =
     (case r of
        Inl e \<Rightarrow>
          (if u_done s then s \<lparr>u_remote_pc := RemoteDone, u_workers := u_workers s - 1\<rparr>
           else s \<lparr>u_remote_pc := RemoteClosing\<rparr>)
      | Inr (remote, data) \<Rightarrow>
          (let act = remote_packet addr_String remote data (u_client s);
               s1 = s \<lparr>u_trace := u_trace s @ [FromRemote remote data act]\<rparr>
           in case act of SendClient packet addr \<Rightarrow> s1 \<lparr>u_remote_pc := RemoteWrite packet addr\<rparr> | _ \<Rightarrow> s1))"

definition remote_write :: "err option \<Rightarrow> assoc \<Rightarrow> assoc" where
  "remote_write r s =
     (if r = None then s \<lparr>u_remote_pc := RemoteTouch\<rparr>
      else if u_done s then s \<lparr>u_remote_pc := RemoteDone, u_workers := u_workers s - 1\<rparr>
      else s \<lparr>u_remote_pc := RemoteRead\<rparr>)"

definition remote_touch :: "err option \<Rightarrow> assoc \<Rightarrow> assoc" where
  "remote_touch r s = s \<lparr>u_remote_pc := (if r = None then RemoteRead else RemoteClosing)\<rparr>"

definition relay_read ::
    "bytes \<Rightarrow> (bytes \<Rightarrow> sockaddr option) \<Rightarrow> err + (sockaddr \<times> bytes) \<Rightarrow> assoc \<Rightarrow> assoc" where
  "relay_read clientIP resolve r s =
     (case r of
        Inl e \<Rightarrow> s \<lparr>u_relay_pc := RelayClosing (if u_done s \<or> isErrTimeout e then None else Some e)\<rparr>
      | Inr (src, packet) \<Rightarrow>
          (case relay_packet clientIP resolve src packet (u_client s) of
             Inl p \<Rightarrow> s \<lparr>u_relay_pc := RelayPanic p\<rparr>
           | Inr (act, ca) \<Rightarrow>
               (let s1 = s \<lparr>u_client := ca, u_trace := u_trace s @ [FromClient src packet act]\<rparr>
                in case act of SendOut remote payload \<Rightarrow> s1 \<lparr>u_relay_pc := RelayWrite remote payload\<rparr> | _ \<Rightarrow> s1)))"

definition relay_write :: "err option \<Rightarrow> assoc \<Rightarrow> assoc" where
  "relay_write r s = s \<lparr>u_relay_pc := (if r = None then RelayTouch else RelayRead)\<rparr>"

definition relay_touch :: "err option \<Rightarrow> assoc \<Rightarrow> assoc" where
  "relay_touch r s =
     s \<lparr>u_relay_pc := (case r of None \<Rightarrow> RelayRead | Some e \<Rightarrow> RelayClosing (if u_done s then None else Some e))\<rparr>"

section \<open>Steps\<close>

text \<open>
  The steps that need nothing from the network: on a closed socket a call fails at once, and writing a datagram or setting a
  deadline does not wait.
\<close>

inductive own_step :: "(sockaddr \<Rightarrow> bytes) \<Rightarrow> bytes \<Rightarrow> (bytes \<Rightarrow> sockaddr option) \<Rightarrow> assoc \<Rightarrow> assoc \<Rightarrow> bool"
  for addr_String clientIP resolve where
  watch_closed: "u_watch_pc s = WatchRead \<Longrightarrow> u_tcp s \<Longrightarrow> own_step addr_String clientIP resolve s (watch_read (Some e) s)"
| watch_close: "u_watch_pc s = WatchClosing \<Longrightarrow> closeAll Watcher s = Some s' \<Longrightarrow> own_step addr_String clientIP resolve s s'"
| watch_done: "u_watch_pc s = WatchClosing \<Longrightarrow> u_once s = Finished \<Longrightarrow>
    own_step addr_String clientIP resolve s (s \<lparr>u_watch_pc := WatchDone, u_workers := u_workers s - 1\<rparr>)"
| remote_closed: "u_remote_pc s = RemoteRead \<Longrightarrow> u_out s \<Longrightarrow>
    own_step addr_String clientIP resolve s (remote_read addr_String (Inl e) s)"
| remote_write: "u_remote_pc s = RemoteWrite packet addr \<Longrightarrow> (u_relay s \<Longrightarrow> r \<noteq> None) \<Longrightarrow>
    own_step addr_String clientIP resolve s (remote_write r s)"
| remote_touch: "u_remote_pc s = RemoteTouch \<Longrightarrow> (u_relay s \<Longrightarrow> r \<noteq> None) \<Longrightarrow>
    own_step addr_String clientIP resolve s (remote_touch r s)"
| remote_close: "u_remote_pc s = RemoteClosing \<Longrightarrow> closeAll Remote s = Some s' \<Longrightarrow> own_step addr_String clientIP resolve s s'"
| remote_done: "u_remote_pc s = RemoteClosing \<Longrightarrow> u_once s = Finished \<Longrightarrow>
    own_step addr_String clientIP resolve s (s \<lparr>u_remote_pc := RemoteDone, u_workers := u_workers s - 1\<rparr>)"
| relay_closed: "u_relay_pc s = RelayRead \<Longrightarrow> u_relay s \<Longrightarrow>
    own_step addr_String clientIP resolve s (relay_read clientIP resolve (Inl e) s)"
| relay_write: "u_relay_pc s = RelayWrite remote payload \<Longrightarrow> (u_out s \<Longrightarrow> r \<noteq> None) \<Longrightarrow>
    own_step addr_String clientIP resolve s (relay_write r s)"
| relay_touch: "u_relay_pc s = RelayTouch \<Longrightarrow> (u_relay s \<Longrightarrow> r \<noteq> None) \<Longrightarrow>
    own_step addr_String clientIP resolve s (relay_touch r s)"
| relay_close: "u_relay_pc s = RelayClosing r \<Longrightarrow> closeAll Relay s = Some s' \<Longrightarrow> own_step addr_String clientIP resolve s s'"
| relay_wait: "u_relay_pc s = RelayClosing r \<Longrightarrow> u_once s = Finished \<Longrightarrow>
    own_step addr_String clientIP resolve s (s \<lparr>u_relay_pc := RelayWait r\<rparr>)"
| relay_return: "u_relay_pc s = RelayWait r \<Longrightarrow> u_workers s = 0 \<Longrightarrow>
    own_step addr_String clientIP resolve s (s \<lparr>u_relay_pc := RelayReturned r\<rparr>)"

text \<open>A socket that is open delivers something, or an error: the idle timeout, the end of the client's connection.\<close>

inductive net_step :: "(sockaddr \<Rightarrow> bytes) \<Rightarrow> bytes \<Rightarrow> (bytes \<Rightarrow> sockaddr option) \<Rightarrow> assoc \<Rightarrow> assoc \<Rightarrow> bool"
  for addr_String clientIP resolve where
  net_watch: "u_watch_pc s = WatchRead \<Longrightarrow> \<not> u_tcp s \<Longrightarrow> net_step addr_String clientIP resolve s (watch_read r s)"
| net_remote: "u_remote_pc s = RemoteRead \<Longrightarrow> \<not> u_out s \<Longrightarrow>
    net_step addr_String clientIP resolve s (remote_read addr_String d s)"
| net_relay: "u_relay_pc s = RelayRead \<Longrightarrow> \<not> u_relay s \<Longrightarrow>
    net_step addr_String clientIP resolve s (relay_read clientIP resolve d s)"

text \<open>Runs with their numbers of steps of the two kinds, and the reachable states.\<close>

inductive udp_run ::
    "(sockaddr \<Rightarrow> bytes) \<Rightarrow> bytes \<Rightarrow> (bytes \<Rightarrow> sockaddr option) \<Rightarrow> assoc \<Rightarrow> nat \<Rightarrow> nat \<Rightarrow> assoc \<Rightarrow> bool"
  for addr_String clientIP resolve s where
  udp_refl: "udp_run addr_String clientIP resolve s 0 0 s"
| udp_own: "udp_run addr_String clientIP resolve s n k t \<Longrightarrow> own_step addr_String clientIP resolve t t' \<Longrightarrow>
    udp_run addr_String clientIP resolve s (Suc n) k t'"
| udp_net: "udp_run addr_String clientIP resolve s n k t \<Longrightarrow> net_step addr_String clientIP resolve t t' \<Longrightarrow>
    udp_run addr_String clientIP resolve s n (Suc k) t'"

definition udp_reachable :: "(sockaddr \<Rightarrow> bytes) \<Rightarrow> bytes \<Rightarrow> (bytes \<Rightarrow> sockaddr option) \<Rightarrow> assoc \<Rightarrow> bool" where
  "udp_reachable addr_String clientIP resolve s \<longleftrightarrow>
     (\<exists>r t n k. udp_run addr_String clientIP resolve (start_assoc r t) n k s)"

inductive_cases own_stepE: "own_step addr_String clientIP resolve s s'"
inductive_cases net_stepE: "net_step addr_String clientIP resolve s s'"

section \<open>Invariant\<close>

text \<open>Who is in \<open>closeAll\<close>.\<close>

fun in_closeAll :: "goroutine \<Rightarrow> assoc \<Rightarrow> bool" where
  "in_closeAll Watcher s = (u_watch_pc s = WatchClosing)"
| "in_closeAll Remote s = (u_remote_pc s = RemoteClosing)"
| "in_closeAll Relay s = (\<exists>r. u_relay_pc s = RelayClosing r)"

definition closed_upto :: "once \<Rightarrow> assoc \<Rightarrow> bool" where
  "closed_upto c s \<longleftrightarrow>
     (case c of
        Fresh \<Rightarrow> \<not> u_done s \<and> \<not> u_tcp s \<and> \<not> u_relay s \<and> \<not> u_out s
      | Running g k \<Rightarrow> k \<le> 3 \<and> in_closeAll g s \<and> u_done s = (1 \<le> k) \<and> u_tcp s = (2 \<le> k) \<and> u_relay s = (3 \<le> k) \<and> \<not> u_out s
      | Finished \<Rightarrow> u_done s \<and> u_tcp s \<and> u_relay s \<and> u_out s)"

definition assoc_inv :: "(sockaddr \<Rightarrow> bytes) \<Rightarrow> bytes \<Rightarrow> (bytes \<Rightarrow> sockaddr option) \<Rightarrow> assoc \<Rightarrow> bool" where
  "assoc_inv addr_String clientIP resolve s \<longleftrightarrow>
     closed_upto (u_once s) s \<and>
     u_workers s = (if u_watch_pc s = WatchDone then 0 else 1) + (if u_remote_pc s = RemoteDone then 0 else 1) \<and>
     ((\<exists>r. u_relay_pc s = RelayWait r \<or> u_relay_pc s = RelayReturned r) \<longrightarrow> u_once s = Finished) \<and>
     (\<forall>r. u_relay_pc s = RelayReturned r \<longrightarrow> u_watch_pc s = WatchDone \<and> u_remote_pc s = RemoteDone) \<and>
     (\<forall>p. u_relay_pc s \<noteq> RelayPanic p) \<and>
     assoc_run clientIP resolve addr_String (u_client s) (u_trace s)"

lemma start_inv: "assoc_inv addr_String clientIP resolve (start_assoc r t)"
  by (auto simp: assoc_inv_def start_assoc_def closed_upto_def Let_def intro: assoc_start)

lemma closeAll_fields:
  assumes "closeAll g s = Some s'"
  shows "u_watch_pc s' = u_watch_pc s" "u_remote_pc s' = u_remote_pc s" "u_relay_pc s' = u_relay_pc s"
    "u_workers s' = u_workers s" "u_client s' = u_client s" "u_trace s' = u_trace s" "u_once s \<noteq> Finished"
  using assms by (auto simp: closeAll_def split: once.splits if_splits)

lemma closeAll_inv:
  assumes inv: "assoc_inv a c v s" and close: "closeAll g s = Some s'" and g: "in_closeAll g s"
  shows "assoc_inv a c v s'"
proof -
  note f = closeAll_fields [OF close]
  have g': "in_closeAll g s'" using g f by (cases g) simp_all
  have up: "closed_upto (u_once s) s" using inv by (simp add: assoc_inv_def)
  have "closed_upto (u_once s') s'"
  proof (cases "u_once s")
    case Fresh
    then have "s' = s \<lparr>u_once := Running g 0\<rparr>" using close by (simp add: closeAll_def)
    then show ?thesis using up g' Fresh by (simp add: closed_upto_def)
  next
    case (Running h k)
    then have "h = g" using close by (simp add: closeAll_def split: if_splits)
    moreover have "k = 0 \<or> k = 1 \<or> k = 2 \<or> k = 3" using up Running by (auto simp: closed_upto_def)
    ultimately show ?thesis using close g' up Running
      by (elim disjE) (auto simp: closeAll_def closed_upto_def)
  qed (use f in simp)
  then show ?thesis using inv f by (simp add: assoc_inv_def)
qed

text \<open>\<open>closed_upto\<close> depends on the sockets and on who is in \<open>closeAll\<close> only.\<close>

lemma closed_upto_same [simp]:
  "closed_upto c (s \<lparr>u_workers := n\<rparr>) = closed_upto c s" "closed_upto c (s \<lparr>u_client := ca\<rparr>) = closed_upto c s"
  "closed_upto c (s \<lparr>u_trace := tr\<rparr>) = closed_upto c s"
proof -
  have "in_closeAll g (s \<lparr>u_workers := n\<rparr>) = in_closeAll g s" "in_closeAll g (s \<lparr>u_client := ca\<rparr>) = in_closeAll g s"
    "in_closeAll g (s \<lparr>u_trace := tr\<rparr>) = in_closeAll g s" for g by (cases g, simp_all)+
  then show "closed_upto c (s \<lparr>u_workers := n\<rparr>) = closed_upto c s" "closed_upto c (s \<lparr>u_client := ca\<rparr>) = closed_upto c s"
    "closed_upto c (s \<lparr>u_trace := tr\<rparr>) = closed_upto c s"
    by (simp_all add: closed_upto_def split: once.split)
qed

lemma closed_upto_pc [simp]:
  "u_watch_pc s \<noteq> WatchClosing \<Longrightarrow> closed_upto c s \<Longrightarrow> closed_upto c (s \<lparr>u_watch_pc := w\<rparr>)"
  "u_remote_pc s \<noteq> RemoteClosing \<Longrightarrow> closed_upto c s \<Longrightarrow> closed_upto c (s \<lparr>u_remote_pc := m\<rparr>)"
  "\<forall>r. u_relay_pc s \<noteq> RelayClosing r \<Longrightarrow> closed_upto c s \<Longrightarrow> closed_upto c (s \<lparr>u_relay_pc := l\<rparr>)"
proof -
  have g: "in_closeAll g s \<Longrightarrow> u_watch_pc s \<noteq> WatchClosing \<Longrightarrow> in_closeAll g (s \<lparr>u_watch_pc := w\<rparr>)"
    "in_closeAll g s \<Longrightarrow> u_remote_pc s \<noteq> RemoteClosing \<Longrightarrow> in_closeAll g (s \<lparr>u_remote_pc := m\<rparr>)"
    "in_closeAll g s \<Longrightarrow> \<forall>r. u_relay_pc s \<noteq> RelayClosing r \<Longrightarrow> in_closeAll g (s \<lparr>u_relay_pc := l\<rparr>)" for g
    by (cases g, simp_all)+
  show "u_watch_pc s \<noteq> WatchClosing \<Longrightarrow> closed_upto c s \<Longrightarrow> closed_upto c (s \<lparr>u_watch_pc := w\<rparr>)"
    "u_remote_pc s \<noteq> RemoteClosing \<Longrightarrow> closed_upto c s \<Longrightarrow> closed_upto c (s \<lparr>u_remote_pc := m\<rparr>)"
    "\<forall>r. u_relay_pc s \<noteq> RelayClosing r \<Longrightarrow> closed_upto c s \<Longrightarrow> closed_upto c (s \<lparr>u_relay_pc := l\<rparr>)"
    using g by (cases c; simp add: closed_upto_def)+
qed

lemma relay_packet_total: "\<exists>act ca'. relay_packet clientIP resolve src packet ca = Inr (act, ca')"
proof -
  obtain r where "parseSocks5UDPDatagram packet = Inr r" using parseSocks5UDPDatagram_total [of packet] by blast
  then show ?thesis by (cases r) (auto simp: relay_packet_def Let_def split: option.split)
qed

lemma watch_read_inv:
  "assoc_inv a c v s \<Longrightarrow> u_watch_pc s = WatchRead \<Longrightarrow> assoc_inv a c v (watch_read r s)"
  by (auto simp: assoc_inv_def watch_read_def)

lemma remote_read_inv:
  assumes inv: "assoc_inv a c v s" and pc: "u_remote_pc s = RemoteRead"
  shows "assoc_inv a c v (remote_read a d s)"
proof (cases d)
  case (Inl e)
  then show ?thesis using assms by (auto simp: assoc_inv_def remote_read_def)
next
  case (Inr x)
  obtain remote data where x: "x = (remote, data)" by fastforce
  let ?act = "remote_packet a remote data (u_client s)"
  have "assoc_run c v a (u_client s) (u_trace s @ [FromRemote remote data ?act])"
    using inv assoc_remote by (simp add: assoc_inv_def)
  then show ?thesis
    using assms Inr x by (cases ?act) (auto simp: assoc_inv_def remote_read_def)
qed

lemma relay_read_inv:
  assumes inv: "assoc_inv a c v s" and pc: "u_relay_pc s = RelayRead"
  shows "assoc_inv a c v (relay_read c v d s)"
proof (cases d)
  case (Inl e)
  then show ?thesis using assms by (auto simp: assoc_inv_def relay_read_def)
next
  case (Inr x)
  obtain src packet where x: "x = (src, packet)" by fastforce
  obtain act ca where p: "relay_packet c v src packet (u_client s) = Inr (act, ca)" using relay_packet_total by blast
  have "assoc_run c v a ca (u_trace s @ [FromClient src packet act])"
    using inv assoc_relay [OF _ p] by (simp add: assoc_inv_def)
  then show ?thesis
    using assms Inr x p by (cases act) (auto simp: assoc_inv_def relay_read_def)
qed

lemma own_step_inv:
  assumes inv: "assoc_inv a c v s" and step: "own_step a c v s s'"
  shows "assoc_inv a c v s'"
  using step
proof cases
  case (watch_closed e)
  then show ?thesis using watch_read_inv [OF inv] by simp
next
  case watch_close
  then show ?thesis using closeAll_inv [OF inv] by simp
next
  case watch_done
  then show ?thesis using inv by (auto simp: assoc_inv_def closed_upto_def)
next
  case (remote_closed e)
  then show ?thesis using remote_read_inv [OF inv] by simp
next
  case (remote_write packet addr r)
  show ?thesis unfolding remote_write(1) using inv remote_write(2)
    by (auto simp: assoc_inv_def remote_write_def)
next
  case (remote_touch r)
  show ?thesis unfolding remote_touch(1) using inv remote_touch(2)
    by (auto simp: assoc_inv_def remote_touch_def)
next
  case remote_close
  then show ?thesis using closeAll_inv [OF inv] by simp
next
  case remote_done
  then show ?thesis using inv by (auto simp: assoc_inv_def closed_upto_def)
next
  case (relay_closed e)
  then show ?thesis using relay_read_inv [OF inv] by simp
next
  case (relay_write remote payload r)
  show ?thesis unfolding relay_write(1) using inv relay_write(2)
    by (auto simp: assoc_inv_def relay_write_def)
next
  case (relay_touch r)
  show ?thesis unfolding relay_touch(1) using inv relay_touch(2)
    by (auto simp: assoc_inv_def relay_touch_def split: option.splits)
next
  case (relay_close r)
  then show ?thesis using closeAll_inv [OF inv] by simp
next
  case (relay_wait r)
  then show ?thesis using inv by (auto simp: assoc_inv_def closed_upto_def)
next
  case (relay_return r)
  then show ?thesis using inv by (auto simp: assoc_inv_def closed_upto_def split: if_splits)
qed

lemma net_step_inv:
  assumes inv: "assoc_inv a c v s" and step: "net_step a c v s s'"
  shows "assoc_inv a c v s'"
  using step
proof cases
  case (net_watch r)
  then show ?thesis using watch_read_inv [OF inv] by simp
next
  case (net_remote d)
  then show ?thesis using remote_read_inv [OF inv] by simp
next
  case (net_relay d)
  then show ?thesis using relay_read_inv [OF inv] by simp
qed

lemma udp_run_inv: "udp_run a c v s n k t \<Longrightarrow> assoc_inv a c v s \<Longrightarrow> assoc_inv a c v t"
  by (induction rule: udp_run.induct) (blast intro: own_step_inv net_step_inv)+

lemma udp_reachable_inv: "udp_reachable a c v s \<Longrightarrow> assoc_inv a c v s"
  unfolding udp_reachable_def using udp_run_inv start_inv by blast

section \<open>Isolation\<close>

text \<open>
  C18: UDP associations are isolated, however the goroutines interleave. Every run of the three goroutines handles its
  datagrams as some sequential run would: all datagrams that are forwarded came from one address, with the IP of
  the client that opened the association, all answers go to exactly that address, and no goroutine panics. When
  \<open>serveSocksUDPAssociate\<close> returns, both goroutines have ended and the three sockets are closed.
\<close>

theorem udp_goroutines_isolated:
  assumes "udp_reachable addr_String clientIP resolve s"
  shows "assoc_run clientIP resolve addr_String (u_client s) (u_trace s) \<and>
    (\<forall>ev \<in> set (u_trace s). event_ok (u_client s) ev) \<and>
    (\<forall>a. u_client s = Some a \<and> clientIP \<noteq> [] \<longrightarrow> (\<exists>peer. ParseIP clientIP = Some peer \<and> IP_Equal (sa_IP a) peer)) \<and>
    (\<forall>p. u_relay_pc s \<noteq> RelayPanic p) \<and>
    (\<forall>r. u_relay_pc s = RelayReturned r \<longrightarrow>
       u_watch_pc s = WatchDone \<and> u_remote_pc s = RemoteDone \<and> u_tcp s \<and> u_relay s \<and> u_out s)"
proof -
  have inv: "assoc_inv addr_String clientIP resolve s" by (rule udp_reachable_inv [OF assms])
  then have run: "assoc_run clientIP resolve addr_String (u_client s) (u_trace s)" by (simp add: assoc_inv_def)
  note ok = assoc_run_ok [OF run]
  have "\<exists>peer. ParseIP clientIP = Some peer \<and> IP_Equal (sa_IP a) peer" if "u_client s = Some a \<and> clientIP \<noteq> []" for a
    using ok that by (auto simp: sameSocks5UDPClient_def split: option.splits)
  moreover have "u_watch_pc s = WatchDone \<and> u_remote_pc s = RemoteDone \<and> u_tcp s \<and> u_relay s \<and> u_out s"
    if "u_relay_pc s = RelayReturned r" for r
    using inv that by (auto simp: assoc_inv_def closed_upto_def)
  ultimately show ?thesis using run ok inv by (auto simp: assoc_inv_def)
qed

section \<open>The end of an association\<close>

text \<open>How many steps a goroutine can still make without the network, once the end was announced.\<close>

fun once_work :: "once \<Rightarrow> nat" where
  "once_work Fresh = 5"
| "once_work (Running g k) = 4 - k"
| "once_work Finished = 0"

fun watch_work :: "watch_pc \<Rightarrow> nat" where
  "watch_work WatchRead = 2"
| "watch_work WatchClosing = 1"
| "watch_work WatchDone = 0"

fun remote_work :: "remote_pc \<Rightarrow> nat" where
  "remote_work (RemoteWrite packet addr) = 4"
| "remote_work RemoteTouch = 3"
| "remote_work RemoteRead = 2"
| "remote_work RemoteClosing = 1"
| "remote_work RemoteDone = 0"

fun relay_work :: "relay_pc \<Rightarrow> nat" where
  "relay_work (RelayWrite remote payload) = 5"
| "relay_work RelayTouch = 4"
| "relay_work RelayRead = 3"
| "relay_work (RelayClosing r) = 2"
| "relay_work (RelayWait r) = 1"
| "relay_work _ = 0"

definition assoc_work :: "assoc \<Rightarrow> nat" where
  "assoc_work s = once_work (u_once s) + watch_work (u_watch_pc s) + remote_work (u_remote_pc s) + relay_work (u_relay_pc s)"

lemma closeAll_work:
  assumes "assoc_inv a c v s" "closeAll g s = Some s'"
  shows "Suc (assoc_work s') \<le> assoc_work s"
proof -
  have "Suc (once_work (u_once s')) \<le> once_work (u_once s)"
    using assms by (auto simp: closeAll_def assoc_inv_def closed_upto_def split: once.splits if_splits)
  then show ?thesis using closeAll_fields [OF assms(2)] by (simp add: assoc_work_def)
qed

lemma own_step_work:
  assumes inv: "assoc_inv a c v s" and step: "own_step a c v s s'"
  shows "Suc (assoc_work s') \<le> assoc_work s"
  using step
proof cases
  case watch_close
  then show ?thesis using closeAll_work [OF inv] by blast
next
  case remote_close
  then show ?thesis using closeAll_work [OF inv] by blast
next
  case (relay_close r)
  then show ?thesis using closeAll_work [OF inv] by blast
qed (auto simp: assoc_work_def watch_read_def remote_read_def remote_write_def remote_touch_def relay_read_def relay_write_def
    relay_touch_def split: option.split)

lemma net_step_work:
  assumes "net_step a c v s s'"
  shows "assoc_work s' \<le> assoc_work s + 2"
  using assms
proof cases
  case (net_relay d)
  then show ?thesis
    by (auto simp: assoc_work_def relay_read_def Let_def split: sum.split prod.split udp_action.split)
qed (auto simp: assoc_work_def watch_read_def remote_read_def Let_def split: sum.split prod.split udp_action.split)

lemma udp_run_work:
  "udp_run a c v s n k t \<Longrightarrow> assoc_inv a c v s \<Longrightarrow> n + assoc_work t \<le> assoc_work s + 2 * k"
proof (induction rule: udp_run.induct)
  case (udp_own n k t t')
  then show ?case using own_step_work [of a c v t t'] udp_run_inv [OF udp_own.hyps(1)] by simp
next
  case (udp_net n k t t')
  then show ?case using net_step_work [of a c v t t'] by simp
qed simp

lemma done_stays: "own_step a c v s s' \<or> net_step a c v s s' \<Longrightarrow> u_done s \<Longrightarrow> u_done s'"
  by (elim disjE own_stepE net_stepE)
    (auto simp: closeAll_def watch_read_def remote_read_def remote_write_def remote_touch_def relay_read_def relay_write_def
      relay_touch_def Let_def split: once.splits if_splits sum.split prod.split udp_action.split)

lemma udp_run_done: "udp_run a c v s n k t \<Longrightarrow> u_done s \<Longrightarrow> u_done t"
  by (induction rule: udp_run.induct) (blast intro: done_stays)+

lemma closeAll_goes_on: "assoc_inv a c v s \<Longrightarrow> u_once s = Running g k \<Longrightarrow> \<exists>s'. closeAll g s = Some s'"
  by (simp add: closeAll_def)

text \<open>After the announcement some goroutine can always go on, until all have ended.\<close>

lemma own_step_exists:
  assumes inv: "assoc_inv a c v s" and "u_done s" "\<forall>r. u_relay_pc s \<noteq> RelayReturned r"
  shows "\<exists>s'. own_step a c v s s'"
proof (cases "u_once s")
  case Fresh
  then show ?thesis using inv assms(2) by (simp add: assoc_inv_def closed_upto_def)
next
  case (Running g k)
  have g: "in_closeAll g s" using inv Running by (simp add: assoc_inv_def closed_upto_def)
  obtain s' where "closeAll g s = Some s'" using closeAll_goes_on [OF inv Running] by blast
  then show ?thesis using g by (cases g) (auto intro: own_step.intros)
next
  case Finished
  then have cl: "u_tcp s" "u_relay s" "u_out s" using inv by (simp_all add: assoc_inv_def closed_upto_def)
  consider "u_watch_pc s \<noteq> WatchDone" | "u_remote_pc s \<noteq> RemoteDone" | "u_watch_pc s = WatchDone" "u_remote_pc s = RemoteDone" by blast
  then show ?thesis
  proof cases
    case 1
    then show ?thesis using Finished cl by (cases "u_watch_pc s") (auto intro: own_step.intros)
  next
    case 2
    then show ?thesis
      using Finished cl by (cases "u_remote_pc s") (blast intro: own_step.intros dest: option.discI)+
  next
    case 3
    then have w: "u_workers s = 0" using inv by (simp add: assoc_inv_def)
    have "u_relay_pc s \<noteq> RelayPanic p" for p using inv by (simp add: assoc_inv_def)
    then show ?thesis
      using Finished cl w assms(3) by (cases "u_relay_pc s") (blast intro: own_step.intros dest: option.discI)+
  qed
qed

fun reports :: "relay_pc \<Rightarrow> bool" where
  "reports (RelayClosing (Some e)) = True"
| "reports (RelayWait (Some e)) = True"
| "reports (RelayReturned (Some e)) = True"
| "reports _ = False"

lemma reports_step: "own_step a c v s s' \<or> net_step a c v s s' \<Longrightarrow> u_done s \<Longrightarrow> \<not> reports (u_relay_pc s) \<Longrightarrow> \<not> reports (u_relay_pc s')"
proof (elim disjE own_stepE net_stepE)
  fix r assume "s' = s\<lparr>u_relay_pc := RelayWait r\<rparr>" "\<not> reports (u_relay_pc s)" "u_relay_pc s = RelayClosing r"
  then show "\<not> reports (u_relay_pc s')" by (cases r) simp_all
next
  fix r assume "s' = s\<lparr>u_relay_pc := RelayReturned r\<rparr>" "\<not> reports (u_relay_pc s)" "u_relay_pc s = RelayWait r"
  then show "\<not> reports (u_relay_pc s')" by (cases r) simp_all
qed (auto simp: watch_read_def remote_read_def remote_write_def remote_touch_def relay_read_def relay_write_def relay_touch_def Let_def
    dest: closeAll_fields(3) split: sum.split prod.split udp_action.split option.split)

lemma udp_run_reports: "udp_run a c v s n k t \<Longrightarrow> u_done s \<Longrightarrow> \<not> reports (u_relay_pc s) \<Longrightarrow> \<not> reports (u_relay_pc t)"
  by (induction rule: udp_run.induct) (use reports_step udp_run_done in blast)+

lemma done_work: "assoc_inv a c v s \<Longrightarrow> u_done s \<Longrightarrow> assoc_work s \<le> 14"
proof -
  assume "assoc_inv a c v s" "u_done s"
  then have "once_work (u_once s) \<le> 3" by (auto simp: assoc_inv_def closed_upto_def split: once.splits)
  moreover have "watch_work (u_watch_pc s) \<le> 2" by (cases "u_watch_pc s") simp_all
  moreover have "remote_work (u_remote_pc s) \<le> 4" by (cases "u_remote_pc s") simp_all
  moreover have "relay_work (u_relay_pc s) \<le> 5" by (cases "u_relay_pc s") simp_all
  ultimately show ?thesis by (simp add: assoc_work_def)
qed

text \<open>
  C37: A UDP association ends. Once its end was announced, because the client closed its connection, the association
  was idle for too long or a socket failed, every run makes at most fourteen steps and two more for each datagram that
  still arrives before the sockets are closed; until the caller has returned some goroutine can go on without waiting for the network, so
  the goroutines never block each other in \<open>closeAll\<close> or \<open>Wait\<close>. When the caller has returned both goroutines are gone,
  and the errors of the sockets that were closed are not reported.
\<close>

theorem udp_association_ends:
  assumes "udp_reachable addr_String clientIP resolve s" "u_done s"
    and "udp_run addr_String clientIP resolve s n k t"
  shows "n \<le> 14 + 2 * k \<and>
    ((\<exists>r. u_relay_pc t = RelayReturned r \<and> u_watch_pc t = WatchDone \<and> u_remote_pc t = RemoteDone) \<or>
     (\<exists>t'. own_step addr_String clientIP resolve t t')) \<and>
    (\<not> reports (u_relay_pc s) \<longrightarrow> (\<forall>e. u_relay_pc t \<noteq> RelayReturned (Some e)))"
proof (intro conjI impI)
  note inv = udp_reachable_inv [OF assms(1)]
  show "n \<le> 14 + 2 * k" using udp_run_work [OF assms(3) inv] done_work [OF inv assms(2)] by simp
  have inv': "assoc_inv addr_String clientIP resolve t" by (rule udp_run_inv [OF assms(3) inv])
  show "(\<exists>r. u_relay_pc t = RelayReturned r \<and> u_watch_pc t = WatchDone \<and> u_remote_pc t = RemoteDone) \<or>
     (\<exists>t'. own_step addr_String clientIP resolve t t')"
    using own_step_exists [OF inv' udp_run_done [OF assms(3,2)]] inv' by (auto simp: assoc_inv_def)
  show "\<forall>e. u_relay_pc t \<noteq> RelayReturned (Some e)" if "\<not> reports (u_relay_pc s)"
    using udp_run_reports [OF assms(3,2) that] by auto
qed

section \<open>Witnesses\<close>

text \<open>The client opens an association, sends one packet that is dropped, and closes its connection.\<close>

definition ex_assoc :: "assoc" where
  "ex_assoc = relay_read ''10.0.0.7'' (\<lambda>t. None) (Inr (ex_peer, ''bad'')) (start_assoc None None)"

definition ex_closing :: assoc where
  "ex_closing = ex_assoc \<lparr>u_watch_pc := WatchClosing, u_once := Running Watcher 1, u_done := True\<rparr>"

lemma ex_assoc_fields:
  "u_once ex_assoc = Fresh" "\<not> u_tcp ex_assoc" "u_watch_pc ex_assoc = WatchRead" "u_relay_pc ex_assoc = RelayRead"
  "u_trace ex_assoc = [FromClient ex_peer ''bad'' Drop]"
  by (simp_all add: ex_assoc_def relay_read_def start_assoc_def Let_def relay_packet_def parseSocks5UDPDatagram_def)

lemma ex_assoc_run: "udp_run (\<lambda>a. []) ''10.0.0.7'' (\<lambda>t. None) (start_assoc None None) 0 1 ex_assoc"
  unfolding ex_assoc_def One_nat_def
  by (rule udp_net [OF udp_refl net_relay]) (simp_all add: start_assoc_def Let_def)

lemma ex_closing_run: "udp_run (\<lambda>a. []) ''10.0.0.7'' (\<lambda>t. None) (start_assoc None None) 2 2 ex_closing"
proof -
  let ?w = "watch_read (Some EOF) ex_assoc"
  let ?r = "?w \<lparr>u_once := Running Watcher 0\<rparr>"
  note run = udp_net [OF ex_assoc_run net_watch [OF ex_assoc_fields(3,2), of _ _ _ "Some EOF"]]
  note run = udp_own [OF run watch_close [of ?w ?r]]
  have "closeAll Watcher ?w = Some ?r" "closeAll Watcher ?r = Some ex_closing"
    by (simp_all add: closeAll_def watch_read_def ex_closing_def ex_assoc_fields)
  then show ?thesis
    using udp_own [OF run watch_close [of ?r ex_closing]] by (simp add: watch_read_def numeral_2_eq_2)
qed

theorem udp_goroutines_isolated_witness:
  "\<exists>s. udp_reachable (\<lambda>a. []) ''10.0.0.7'' (\<lambda>t. None) s \<and> u_trace s = [FromClient ex_peer ''bad'' Drop] \<and>
     event_ok (u_client s) (FromClient ex_peer ''bad'' Drop)"
proof -
  have "udp_reachable (\<lambda>a. []) ''10.0.0.7'' (\<lambda>t. None) ex_assoc"
    unfolding udp_reachable_def using ex_assoc_run by blast
  from this udp_goroutines_isolated [OF this] ex_assoc_fields(5) show ?thesis by (intro exI [of _ ex_assoc]) simp
qed

theorem udp_association_ends_witness:
  "udp_reachable (\<lambda>a. []) ''10.0.0.7'' (\<lambda>t. None) ex_closing \<and> u_done ex_closing \<and>
   (\<exists>t'. own_step (\<lambda>a. []) ''10.0.0.7'' (\<lambda>t. None) ex_closing t')"
proof -
  have r: "udp_reachable (\<lambda>a. []) ''10.0.0.7'' (\<lambda>t. None) ex_closing"
    unfolding udp_reachable_def using ex_closing_run by blast
  have "u_done ex_closing" "u_relay_pc ex_closing = RelayRead" by (simp_all add: ex_closing_def ex_assoc_fields)
  then show ?thesis using r udp_association_ends [OF r _ udp_refl] by auto
qed

end
