(* ===== verification/Site_Store.thy ===== *)
theory Site_Store
  imports Site_Table
begin

text \<open>
  sitestat.go, the file of the site statistics: \<open>store\<close> writes a temporary file and renames it, keeping the old file as a
  backup, and \<open>initSiteStat\<close> falls back to the backup. A file system maps paths to contents. \<open>store\<close> yields all
  states of the file system on its way, so that the effect of a crash at any moment can be stated. Encoding and decoding as JSON
  are arguments, apart from the dates, whose layout is given by \<open>time.Format\<close> and \<open>time.Parse\<close>.
\<close>

section \<open>Dates\<close>

definition dateLayout :: bytes where
  "dateLayout = ''2006-01-02''"

definition Date_MarshalJSON :: "(bytes \<Rightarrow> time \<Rightarrow> bytes) \<Rightarrow> time \<Rightarrow> bytes" where
  "Date_MarshalJSON format d = [CHR 0x22] @ format dateLayout d @ [CHR 0x22]"

text \<open>An error of \<open>time.Parse\<close> comes with the zero time, which is stored as well.\<close>

definition Date_UnmarshalJSON :: "(bytes \<Rightarrow> bytes \<Rightarrow> time \<times> err option) \<Rightarrow> bytes \<Rightarrow> time \<Rightarrow> time \<times> err option" where
  "Date_UnmarshalJSON parse input d =
     (if length input \<noteq> length dateLayout + 2 then (d, Some (ErrorString (''unmarshaling date: invalid input '' @ input)))
      else parse dateLayout (take (length dateLayout) (drop 1 input)))"

section \<open>The file\<close>

type_synonym fs = "bytes \<rightharpoonup> bytes"

definition Rename :: "bytes \<Rightarrow> bytes \<Rightarrow> err option \<Rightarrow> fs \<Rightarrow> err option \<times> fs" where
  "Rename a b e f =
     (case (e, f a) of
        (None, Some c) \<Rightarrow> (None, f (a := None, b \<mapsto> c))
      | (None, None) \<Rightarrow> (Some (ErrorString ''no such file or directory''), f)
      | (Some x, _) \<Rightarrow> (Some x, f))"

text \<open>
  What the system answers: \<open>so_temp\<close> the name of the temporary file, \<open>so_write\<close> how much of it is written and the error,
  the others the errors of \<open>os.Remove\<close> and \<open>os.Rename\<close>.
\<close>

record store_io =
  so_temp :: "err + bytes"
  so_write :: "nat \<times> err option"
  so_remove :: "err option"
  so_backup :: "err option"
  so_rename :: "err option"

text \<open>The states a crash may leave while \<open>b\<close> is written to \<open>tmp\<close>.\<close>

definition write_states :: "bytes \<Rightarrow> bytes \<Rightarrow> nat \<Rightarrow> fs \<Rightarrow> fs list" where
  "write_states tmp b n f = map (\<lambda>i. f (tmp \<mapsto> take i b)) [0..<Suc n]"

text \<open>\<open>store\<close>: the table in memory, the error, and the states of the file system, the last one at the end.\<close>

definition SiteStat_store ::
    "(SiteStat \<Rightarrow> bytes) \<Rightarrow> store_io \<Rightarrow> time \<Rightarrow> bytes \<Rightarrow> SiteStat \<Rightarrow> fs \<Rightarrow> SiteStat \<times> err option \<times> fs list" where
  "SiteStat_store encode K now statPath ss f =
     (let (ss1, savedSS) = store_select now ss; b = encode savedSS in
      case so_temp K of
        Inl e \<Rightarrow> (ss1, Some e, [f])
      | Inr tmp \<Rightarrow>
          (case so_write K of
             (n, Some e) \<Rightarrow> (ss1, Some e, f # write_states tmp b (min n (length b)) f)
           | (n, None) \<Rightarrow>
               (let f1 = f (tmp \<mapsto> b);
                    f2 = (if so_remove K = None then f1 (statPath @ ''.bak'' := None) else f1);
                    f3 = snd (Rename statPath (statPath @ ''.bak'') (so_backup K) f2);
                    (e, f4) = Rename tmp statPath (so_rename K) f3
                in (ss1, e, f # write_states tmp b (length b) f @ [f2, f3, f4]))))"

text \<open>Reading of the file in \<open>load\<close>.\<close>

definition read_stat :: "(bytes \<Rightarrow> SiteStat \<Rightarrow> SiteStat \<times> err option) \<Rightarrow> fs \<Rightarrow> bytes \<Rightarrow> SiteStat \<Rightarrow> SiteStat \<times> err option" where
  "read_stat decode f file ss =
     (case f file of None \<Rightarrow> (ss, Some (ErrorString ''no such file or directory'')) | Some b \<Rightarrow> decode b ss)"

section \<open>Crashes\<close>

definition recoverable :: "bytes \<Rightarrow> bytes \<Rightarrow> fs \<Rightarrow> bool" where
  "recoverable statPath b f \<longleftrightarrow> f statPath = Some b \<or> f statPath = None \<and> f (statPath @ ''.bak'') = Some b"

lemma bak_path [simp]: "statPath @ ''.bak'' \<noteq> statPath" "statPath \<noteq> statPath @ ''.bak''"
  by simp_all

lemma write_states_recoverable:
  "tmp \<noteq> statPath \<Longrightarrow> f statPath = Some b0 \<Longrightarrow> g \<in> set (write_states tmp b n f) \<Longrightarrow> recoverable statPath b0 g"
  by (auto simp: write_states_def recoverable_def)

lemma store_recoverable:
  assumes "f statPath = Some b0" "SiteStat_store encode K now statPath ss f = (ss1, e, states)"
    and "\<forall>tmp. so_temp K = Inr tmp \<longrightarrow> tmp \<noteq> statPath \<and> tmp \<noteq> statPath @ ''.bak''"
    and "g \<in> set states"
  shows "recoverable statPath b0 g \<or> recoverable statPath (encode (snd (store_select now ss))) g"
proof -
  obtain sa sv where sel: "store_select now ss = (sa, sv)" by fastforce
  note d = assms(2) [unfolded SiteStat_store_def sel, simplified]
  have f0: "recoverable statPath b0 f" using assms(1) by (simp add: recoverable_def)
  show ?thesis
  proof (cases "so_temp K")
    case (Inl x)
    then show ?thesis using d assms(4) f0 by auto
  next
    case (Inr tmp)
    then have t: "tmp \<noteq> statPath" "tmp \<noteq> statPath @ ''.bak''" using assms(3) by auto
    obtain n w where w: "so_write K = (n, w)" by fastforce
    show ?thesis
    proof (cases w)
      case (Some x)
      then show ?thesis using d Inr w assms(4) f0 write_states_recoverable [of tmp statPath f b0] t assms(1) by (auto simp: Let_def)
    next
      case None
      define f2 where "f2 = (if so_remove K = None then (f (tmp \<mapsto> encode sv)) (statPath @ ''.bak'' := None) else f (tmp \<mapsto> encode sv))"
      define f3 where "f3 = snd (Rename statPath (statPath @ ''.bak'') (so_backup K) f2)"
      define f4 where "f4 = snd (Rename tmp statPath (so_rename K) f3)"
      have s: "states = f # write_states tmp (encode sv) (length (encode sv)) f @ [f2, f3, f4]"
        using d Inr w None by (auto simp: f2_def f3_def f4_def Let_def split: prod.splits)
      have 2: "f2 statPath = Some b0" "f2 tmp = Some (encode sv)" using t assms(1) by (auto simp: f2_def)
      then have 3: "recoverable statPath b0 f3" "f3 tmp = Some (encode sv)"
        using t by (auto simp: f3_def Rename_def recoverable_def split: option.split)
      then have 4: "recoverable statPath b0 f4 \<or> f4 statPath = Some (encode sv)"
        by (auto simp: f4_def Rename_def split: option.split)
      from 2 have 2: "recoverable statPath b0 f2" by (simp add: recoverable_def)
      from 4 have 4: "recoverable statPath b0 f4 \<or> recoverable statPath (encode sv) f4" by (auto simp: recoverable_def)
      consider "g = f" | "g \<in> set (write_states tmp (encode sv) (length (encode sv)) f)" | "g = f2" | "g = f3" | "g = f4"
        using assms(4) s by auto
      then show ?thesis
        using f0 2 3(1) 4 sel write_states_recoverable [of tmp statPath f b0] t(1) assms(1) by cases auto
    qed
  qed
qed

lemma initSiteStat_recoverable:
  assumes "recoverable statPath b f" "decode b newSiteStat = (s, None)" "statPath \<noteq> []"
  shows "initSiteStat (read_stat decode f) scan df bf now statPath = load_deferred scan df bf now s"
  using assms by (auto simp: recoverable_def initSiteStat_def SiteStat_load_def read_stat_def Let_def)


text \<open>The end of a successful \<open>store\<close>.\<close>

lemma store_success:
  assumes "SiteStat_store encode K now statPath ss f = (ss1, None, states)"
    and "\<forall>tmp. so_temp K = Inr tmp \<longrightarrow> tmp \<noteq> statPath \<and> tmp \<noteq> statPath @ ''.bak''"
  shows "last states statPath = Some (encode (snd (store_select now ss)))"
proof -
  obtain sa sv where sel: "store_select now ss = (sa, sv)" by fastforce
  show ?thesis
    using assms by (auto simp: SiteStat_store_def sel Rename_def Let_def split: sum.splits prod.splits option.splits if_splits)
qed

text \<open>
  The file has to be there: after a crash between the two renames only the backup is left, and the next \<open>store\<close> removes
  it before the new file is in place. A second crash then loses all statistics.
\<close>

lemma second_crash_loses:
  assumes "f statPath = None" "so_temp K = Inr tmp" "so_write K = (n, None)" "so_remove K = None"
    and "tmp \<noteq> statPath" "tmp \<noteq> statPath @ ''.bak''"
    and "SiteStat_store encode K now statPath ss f = (ss1, e, states)"
  shows "\<exists>g \<in> set states. g statPath = None \<and> g (statPath @ ''.bak'') = None"
proof -
  let ?b = "encode (snd (store_select now ss))"
  let ?g = "(f (tmp \<mapsto> ?b)) (statPath @ ''.bak'' := None)"
  have "?g \<in> set states"
    using assms by (auto simp: SiteStat_store_def Let_def split: prod.splits)
  then show ?thesis using assms(1,5,6) by (intro bexI [of _ ?g]) auto
qed

section \<open>A stored table\<close>

text \<open>
  What \<open>store\<close> writes: unless the statistics are old, exactly the sites that are worth keeping.
\<close>

lemma stored_sites:
  assumes "ss_distinct ss" "time_Sub now (Update ss) \<le> siteStaleThreshold" "Update ss \<noteq> zeroTime"
  shows "SiteStat_get (snd (store_select now ss)) s =
    (case SiteStat_get ss s of None \<Rightarrow> None | Some vc \<Rightarrow> if shouldNotSave now vc then None else Some vc)"
proof -
  have "map_of (filter (\<lambda>(site, vc). \<not> shouldNotSave now vc) al) s =
      (case map_of al s of None \<Rightarrow> None | Some vc \<Rightarrow> if shouldNotSave now vc then None else Some vc)"
    if "distinct (map fst al)" for al
    using that by (induction al) (force split: option.splits dest: map_of_SomeD)+
  then show ?thesis
    using assms by (auto simp: store_select_def SiteStat_get_def Let_def ss_distinct_def)
qed

definition ex_store_io :: store_io where
  "ex_store_io = \<lparr>so_temp = Inr ''stat1'', so_write = (3, None), so_remove = None, so_backup = None, so_rename = Some EOF\<rparr>"


end
