(* ===== verification/Startup.thy ===== *)
theory Startup
  imports Config_Correct Lifecycle Capture Plugin Auth Site_Store Parent_Pools Pac Error_Page
begin

text \<open>
  main.go up to the point where the listeners run, with the command line of config.go: flags, version, sample
  configurations, the configuration file, and the initialisation of every component, in the order of \<open>main\<close>.
\<close>

section \<open>The command line\<close>

text \<open>The flags as \<open>flag.Parse\<close> leaves them, and their defaults.\<close>

record cmd_flags =
  fl_rc :: bytes
  fl_listen :: bytes
  fl_core :: int
  fl_logFile :: bytes
  fl_version :: bool
  fl_estimate :: bool
  fl_sample :: bool
  fl_systemd :: bool

definition default_flags :: cmd_flags where
  "default_flags = \<lparr>fl_rc = [], fl_listen = [], fl_core = 2, fl_logFile = [], fl_version = False, fl_estimate = True,
     fl_sample = False, fl_systemd = False\<rparr>"

definition getDefaultRcFile :: "conf_env \<Rightarrow> bytes" where
  "getDefaultRcFile E = ce_Join E (ce_Join E (ce_home E) ''.cow'') ''rc''"

text \<open>\<open>dir\<close> is \<open>path.Dir\<close>. The result is the configuration of the command line and the state of the parsers.\<close>

definition parseCmdLineConfig :: "conf_env \<Rightarrow> (bytes \<Rightarrow> bytes) \<Rightarrow> cmd_flags \<Rightarrow> conf \<Rightarrow> (Config \<times> conf) outcome" where
  "parseCmdLineConfig E dir fl s =
     (let c = zeroConfig \<lparr>cf_RcFile := fl_rc fl, cf_Core := fl_core fl, cf_LogFile := fl_logFile fl,
                          cf_EstimateTimeout := fl_estimate fl\<rparr>
      in if fl_version fl \<or> fl_sample fl \<or> fl_systemd fl then Ok (c, s)
         else
           (let rc = (if fl_rc fl = [] then getDefaultRcFile E else expandTilde E (fl_rc fl));
                c1 = c \<lparr>cf_RcFile := rc\<rparr>
            in case ce_isFileExists E rc of
                 Some e \<Rightarrow> Fatal (''fail to get config file: '' @ err_Error e)
               | None \<Rightarrow>
                   (let s1 = on_config (initConfig E (dir rc)) s
                    in if fl_listen fl = [] then Ok (c1, s1)
                       else conf_then (ParseListen E (fl_listen fl) s1) (\<lambda>s2. Ok (c1, s2 \<lparr>cs_cmdHasListenAddr := True\<rparr>)))))"

definition ReplaceAll :: "bytes \<Rightarrow> bytes \<Rightarrow> bytes \<Rightarrow> bytes" where
  "ReplaceAll s old new = Join (Split s old) new"

definition printSystemdConfig :: "bytes \<Rightarrow> bytes \<Rightarrow> bytes \<Rightarrow> bytes" where
  "printSystemdConfig gopath home sampleSystemd = ReplaceAll (ReplaceAll sampleSystemd ''$GOPATH'' gopath) ''$HOME'' home"

definition printVersion :: bytes where
  "printVersion = ''cow version '' @ version"

section \<open>Files and addresses\<close>

text \<open>What is left of a file after \<open>IgnoreUTF8BOM\<close>. Of a file with fewer than three bytes nothing is.\<close>

definition IgnoreUTF8BOM :: "bytes \<Rightarrow> err option \<times> bytes" where
  "IgnoreUTF8BOM f =
     (let bom = take 3 f in
      if bom = [] then (Some EOF, [])
      else if length bom \<noteq> 3 then (None, [])
      else if bom = byte_order_mark then (None, drop 3 f)
      else (None, f))"

definition hostAddr :: "err + bytes list \<Rightarrow> bytes list outcome" where
  "hostAddr allAddr =
     (case allAddr of
        Inl e \<Rightarrow> Fatal (''error getting host address '' @ err_Error e)
      | Inr ads \<Rightarrow> Ok (map (\<lambda>a. case Index a ''/'' of None \<Rightarrow> a | Some i \<Rightarrow> take i a) ads))"

section \<open>Main\<close>

text \<open>
  \<open>m_rc\<close> reads the configuration file, \<open>m_lines\<close> is the scanner of the package \<open>bufio\<close> of cyfdecyf; the rest is what the
  other components need.
\<close>

record main_env =
  m_conf :: conf_env
  m_dir :: "bytes \<Rightarrow> bytes"
  m_rc :: "bytes \<Rightarrow> err + bytes"
  m_lines :: "bytes \<Rightarrow> bytes list"
  m_addrs :: "err + bytes list"
  m_uni :: "bytes \<Rightarrow> bytes"
  m_capture :: capture_init
  m_plugin :: plugin_os
  m_passwd :: "bytes \<Rightarrow> err + bytes list"
  m_stat :: "bytes \<Rightarrow> SiteStat \<Rightarrow> SiteStat \<times> err option"
  m_sites :: "bytes \<Rightarrow> err + (bytes list \<times> err option)"
  m_now :: time
  m_sample :: bytes
  m_systemd :: bytes
  m_gopath :: bytes

record 'd started =
  st_conf :: conf
  st_upgraded :: "bytes list option"
  st_self :: "bytes list"
  st_capture :: "(bytes list \<times> bytes list \<times> bytes \<times> captureCA) option"
  st_plugin :: "'d httpPluginWriter option"
  st_auth :: auth_state
  st_site :: SiteStat
  st_directList :: bytes
  st_parents :: parent_pool
  st_mode :: LoadBalanceMode
  st_probing :: bool
  st_process :: process

datatype 'd main_result = Printed bytes | Started "'d started"

definition or_fatal :: "bytes \<Rightarrow> err + 'a \<Rightarrow> 'a outcome" where
  "or_fatal msg x = (case x of Inl e \<Rightarrow> Fatal (msg @ err_Error e) | Inr a \<Rightarrow> Ok a)"

definition or_panic :: "'a may_panic \<Rightarrow> 'a outcome" where
  "or_panic x = (case x of Inl p \<Rightarrow> Panic p | Inr a \<Rightarrow> Ok a)"

definition auth_config_of :: "Config \<Rightarrow> auth_config" where
  "auth_config_of c = \<lparr>UserPasswd = cf_UserPasswd c, UserPasswdFile = cf_UserPasswdFile c, AllowedClient = cf_AllowedClient c,
     AuthTimeout = cf_AuthTimeout c\<rparr>"

text \<open>The initialisations, after the configuration was parsed.\<close>

definition main_init :: "main_env \<Rightarrow> conf \<Rightarrow> bytes list option \<Rightarrow> 'd started outcome" where
  "main_init M s up =
     (let c = cs_config s in
      conf_then (if list_ex (\<lambda>p. prefix '':'' (Addr p) \<or> prefix ''0.0.0.0'' (Addr p)) (cs_listen s) then hostAddr (m_addrs M) else Ok [])
        (\<lambda>addrs.
      conf_then (or_panic (initSelfListenAddr addrs (cs_listen s))) (\<lambda>self.
      conf_then (or_fatal ''initialize traffic capture: ''
        (fst (initCapture (m_uni M) (m_capture M) (cf_Capture c) (cf_CaptureDir c) (cf_CaptureDomainFile c)))) (\<lambda>capture.
      conf_then (or_fatal ''initialize HTTP plugin: '' (initHTTPPlugin (m_plugin M) (cf_Plugin c) (cf_PluginDBFile c))) (\<lambda>plugin.
      conf_then (or_panic (initAuth (m_passwd M) (auth_config_of c) auth_zero)) (\<lambda>auth.
      let site = initSiteStat (m_stat M) (m_sites M) (cf_DirectFile c) (cf_BlockedFile c) (m_now M) (cf_StatFile c) in
      conf_then (or_panic (initParentPool (cf_LoadBalance c) (length (cs_hpool s)) (backupParentPool (cs_parents s)))) (\<lambda>(parents, mode, probing).
      Ok \<lparr>st_conf = s, st_upgraded = up, st_self = self, st_capture = capture, st_plugin = plugin, st_auth = auth,
          st_site = site, st_directList = updateDirectList site, st_parents = parents, st_mode = mode, st_probing = probing,
          st_process = start_process (cs_listen s) emptyPool\<rparr>)))))))"

definition main :: "main_env \<Rightarrow> cmd_flags \<Rightarrow> 'd main_result outcome" where
  "main M fl =
     conf_then (parseCmdLineConfig (m_conf M) (m_dir M) fl initial_conf) (\<lambda>(cmd, s).
       if fl_version fl then Ok (Printed printVersion)
       else if fl_sample fl then Ok (Printed (m_sample M))
       else if fl_systemd fl then Ok (Printed (printSystemdConfig (m_gopath M) (ce_home (m_conf M)) (m_systemd M)))
       else
         conf_then (or_fatal ''Error opening config file: '' (m_rc M (expandTilde (m_conf M) (cf_RcFile cmd)))) (\<lambda>rc.
         conf_then (parseConfig (m_conf M) (m_lines M (snd (IgnoreUTF8BOM rc))) cmd s) (\<lambda>(s1, up).
         conf_then (main_init M s1 up) (\<lambda>st. Ok (Started st)))))"

section \<open>Listeners of the command line\<close>

lemma conf_then_Ok [simp]: "conf_then x f = Ok y \<longleftrightarrow> (\<exists>a. x = Ok a \<and> f a = Ok y)"
  by (cases x) (auto simp: conf_then_def)

lemma Fatal_Ok [simp]: "Fatal msg \<noteq> Ok y"
  by (simp add: Fatal_def)

text \<open>An option keeps the addresses that are listened on, if they came from the command line.\<close>

definition same_listeners :: "conf \<Rightarrow> conf \<Rightarrow> bool" where
  "same_listeners s s' \<longleftrightarrow> cs_cmdHasListenAddr s' = cs_cmdHasListenAddr s \<and> map Addr (cs_listen s') = map Addr (cs_listen s)"

definition keeps_listeners :: "(bytes \<Rightarrow> conf \<Rightarrow> conf outcome) \<Rightarrow> bool" where
  "keeps_listeners p \<longleftrightarrow> (\<forall>v s s'. cs_cmdHasListenAddr s \<longrightarrow> p v s = Ok s' \<longrightarrow> same_listeners s s')"

lemma same_listeners_simps [simp]:
  "same_listeners s s" "same_listeners s (on_config f s') = same_listeners s s'" "same_listeners s (add_parent p s') = same_listeners s s'"
  "same_listeners s (add_http_parent p s') = same_listeners s s'" "same_listeners s (on_parent i g s') = same_listeners s s'"
  "same_listeners s (s' \<lparr>cs_http := h\<rparr>) = same_listeners s s'" "same_listeners s (s' \<lparr>cs_shadow := d\<rparr>) = same_listeners s s'"
  "same_listeners s (s' \<lparr>cs_needUpgrade := b\<rparr>) = same_listeners s s'"
  by (simp_all add: same_listeners_def on_config_def add_parent_def add_http_parent_def on_parent_def)

lemma same_listeners_trans: "same_listeners a b \<Longrightarrow> same_listeners b c \<Longrightarrow> same_listeners a c"
  by (simp add: same_listeners_def)

lemma pac_addrs_Addr: "pac_addrs xs i ps = Ok ps' \<Longrightarrow> map Addr ps' = map Addr ps"
proof (induction xs i ps rule: pac_addrs.induct)
  case (2 x xs i ps)
  show ?case
  proof (cases "x = []")
    case True
    then show ?thesis using 2 by simp
  next
    case False
    then obtain host port h where *: "SplitHostPort (strings_TrimSpace x) = Some (host, port)" "host \<noteq> ''0.0.0.0''" "i < length ps"
        "ps ! i = HttpProxy h" "pac_addrs xs (Suc i) (ps[i := HttpProxy (h \<lparr>hx_addrInPAC := strings_TrimSpace x\<rparr>)]) = Ok ps'"
      using 2(3) by (auto simp: Let_def split: option.splits prod.splits if_splits listen_proxy.splits)
    have "map Addr (ps[i := HttpProxy (h \<lparr>hx_addrInPAC := strings_TrimSpace x\<rparr>)]) = map Addr ps"
      using *(3,4) by (simp add: map_update list_update_same_conv)
    then show ?thesis using 2(2) [OF False refl *(1) refl *(2)] * by simp
  qed
qed simp

lemma keeps_parents:
  "ProxySocks5 v s = Ok s' \<Longrightarrow> same_listeners s s'" "ProxyHttp v s = Ok s' \<Longrightarrow> same_listeners s s'"
  "ProxySs E v s = Ok s' \<Longrightarrow> same_listeners s s'" "ProxyCow E v s = Ok s' \<Longrightarrow> same_listeners s s'"
  by (auto simp: ProxySocks5_def ProxyHttp_def ProxySs_def ProxyCow_def Let_def split: sum.splits prod.splits if_splits option.splits)

lemma finish_shadow_same: "finish_shadow E s = Ok s' \<Longrightarrow> same_listeners s s'"
  by (auto simp: finish_shadow_def Let_def split: option.splits if_splits)

lemma ParseShadowSocks_same: "ParseShadowSocks E v s = Ok s' \<Longrightarrow> same_listeners s s'"
  by (auto simp: ParseShadowSocks_def Let_def split: if_splits dest: finish_shadow_same)

lemma keeps_options:
  "keeps_listeners (ParseProxy E)" "keeps_listeners (ParseListen E)" "keeps_listeners ParseAddrInPAC"
  "keeps_listeners ParseTunnelAllowedPort" "keeps_listeners ParseSocksParent" "keeps_listeners ParseSshServer"
  "keeps_listeners ParseHttpParent" "keeps_listeners ParseHttpUserPasswd" "keeps_listeners ParseLoadBalance"
  "keeps_listeners (ParseShadowSocks E)" "keeps_listeners ParseShadowPasswd" "keeps_listeners ParseShadowMethod"
proof -
  have "same_listeners s s'" if "proxyParser E name = Some p" "p v s = Ok s'" for name p v s s'
    using map_of_SomeD [OF that(1) [unfolded proxyParser_def]] that(2) by (auto dest: keeps_parents)
  then show "keeps_listeners (ParseProxy E)"
    by (auto simp: keeps_listeners_def ParseProxy_def Let_def split: if_splits option.splits)
  show "keeps_listeners (ParseListen E)"
    by (auto simp: keeps_listeners_def ParseListen_def)
  show "keeps_listeners ParseAddrInPAC"
    using pac_addrs_Addr by (fastforce simp: keeps_listeners_def ParseAddrInPAC_def same_listeners_def)
  show "keeps_listeners ParseTunnelAllowedPort" "keeps_listeners ParseHttpParent" "keeps_listeners ParseHttpUserPasswd"
    "keeps_listeners ParseLoadBalance" "keeps_listeners ParseShadowPasswd" "keeps_listeners ParseShadowMethod"
    by (auto simp: keeps_listeners_def ParseTunnelAllowedPort_def ParseHttpParent_def ParseHttpUserPasswd_def ParseLoadBalance_def
        ParseShadowPasswd_def ParseShadowMethod_def Let_def split: if_splits)
  show "keeps_listeners ParseSocksParent" "keeps_listeners ParseSshServer"
    by (auto simp: keeps_listeners_def ParseSocksParent_def ParseSshServer_def Let_def split: if_splits dest: keeps_parents)
  show "keeps_listeners (ParseShadowSocks E)"
    by (auto simp: keeps_listeners_def dest: ParseShadowSocks_same)
qed

lemma keeps_values:
  "keeps_listeners (\<lambda>v s. Ok (on_config (f v) s))" "keeps_listeners (set_bool msg g)" "keeps_listeners (set_int msg h)"
  "keeps_listeners (set_duration E msg h)" "keeps_listeners (set_file E msg k)"
  "keeps_listeners (\<lambda>v s. if P v then Ok (on_config (f v) s) else Fatal m)"
  "keeps_listeners (\<lambda>v s. case ex v of None \<Rightarrow> Ok (on_config (f v) s) | Some e \<Rightarrow> Fatal (m2 e))"
  by (auto simp: keeps_listeners_def set_bool_def set_int_def set_duration_def set_file_def Let_def split: if_splits option.splits)

lemma configParser_keeps:
  assumes "configParser E name = Some p"
  shows "keeps_listeners p"
  using map_of_SomeD [OF assms [unfolded configParser_def]]
  by (simp only: list.set insert_iff empty_iff prod.inject simp_thms)
    (elim disjE conjE; hypsubst; rule keeps_options keeps_values)

lemma parse_line_keeps:
  assumes "parse_line E l s = Ok s'" "cs_cmdHasListenAddr s"
  shows "same_listeners s s'"
  using assms configParser_keeps
  by (fastforce simp: parse_line_def Let_def keeps_listeners_def split: if_splits option.splits)

lemma parse_lines_keeps: "parse_lines E ls s = Ok s' \<Longrightarrow> cs_cmdHasListenAddr s \<Longrightarrow> same_listeners s s'"
proof (induction ls arbitrary: s)
  case (Cons l ls)
  then obtain s1 where s1: "parse_line E l s = Ok s1" "parse_lines E ls s1 = Ok s'" by auto
  have "same_listeners s s1" by (rule parse_line_keeps [OF s1(1) Cons.prems(2)])
  then show ?case using Cons s1 same_listeners_trans by (auto simp: same_listeners_def)
qed simp

lemma merge_one: "mergeListenProxies [p] = [p]"
  by (cases p) (simp_all add: mergeListenProxies_def)

lemma checkConfig_one:
  assumes "checkConfig E s = Ok s'" "map Addr (cs_listen s) = [a]"
  shows "map Addr (cs_listen s') = [a]"
proof -
  obtain s1 where s1: "checkShadowsocks E s = Ok s1"
      "(if cs_listen s1 = [] then (case newHttpProxy defaultListenAddr [] of Inl p \<Rightarrow> Panic p
          | Inr h \<Rightarrow> Ok (s1 \<lparr>cs_listen := mergeListenProxies [HttpProxy h]\<rparr>))
        else Ok (s1 \<lparr>cs_listen := mergeListenProxies (cs_listen s1)\<rparr>)) = Ok s'"
    using assms(1) by (auto simp: checkConfig_def)
  have "same_listeners s s1" using s1(1) by (auto simp: checkShadowsocks_def split: if_splits dest: ParseShadowSocks_same)
  then obtain q where "cs_listen s1 = [q]" "Addr q = a" using assms(2) by (auto simp: same_listeners_def map_eq_Cons_conv)
  then show ?thesis using s1(2) by (auto simp: merge_one)
qed

lemma ParseListen_adds:
  assumes "ParseListen E v s = Ok s'" "\<not> cs_cmdHasListenAddr s"
  shows "\<exists>p. cs_listen s' = cs_listen s @ [p]"
proof -
  have "\<exists>p. cs_listen s' = cs_listen s @ [p]" if "listenParser E name = Some f" "f v s = Ok s'" "\<not> cs_cmdHasListenAddr s" for name f v s
    using map_of_SomeD [OF that(1) [unfolded listenParser_def]] that(2,3)
    by (auto simp: ListenHttp_def ListenCow_def ListenSocks5_def addListenProxy_def Let_def split: if_splits sum.splits option.splits)
  then show ?thesis using assms
    by (fastforce simp: ParseListen_def Let_def split: option.splits if_splits)
qed

lemma main_Started:
  assumes "main M fl = Ok (Started st)"
  obtains cmd s rc s1 up where "parseCmdLineConfig (m_conf M) (m_dir M) fl initial_conf = Ok (cmd, s)"
    "\<not> fl_version fl" "\<not> fl_sample fl" "\<not> fl_systemd fl"
    "parseConfig (m_conf M) (m_lines M (snd (IgnoreUTF8BOM rc))) cmd s = Ok (s1, up)" "main_init M s1 up = Ok st"
  using assms by (auto simp: main_def split: if_splits prod.splits)

lemma or_Ok [simp]: "or_panic x = Ok a \<longleftrightarrow> x = Inr a" "or_fatal msg y = Ok b \<longleftrightarrow> y = Inr b"
  by (auto simp: or_panic_def or_fatal_def split: sum.split)

lemma main_init_fields:
  assumes "main_init M s up = Ok st"
  shows "st_conf st = s" "st_process st = start_process (cs_listen s) emptyPool"
    "initAuth (m_passwd M) (auth_config_of (cs_config s)) auth_zero = Inr (st_auth st)"
    "st_site st = initSiteStat (m_stat M) (m_sites M) (cf_DirectFile (cs_config s)) (cf_BlockedFile (cs_config s)) (m_now M)
       (cf_StatFile (cs_config s))"
    "st_directList st = updateDirectList (st_site st)"
  using assms by (auto simp: main_init_def Let_def)

text \<open>
  C40: the command line decides what is listened on. If the proxy starts with the flag \<open>listen\<close>, then it runs exactly one listener,
  on the address that this flag gives, whatever listeners and options the configuration file has.
\<close>

theorem command_line_listener:
  assumes "main M fl = Ok (Started st)" "fl_listen fl \<noteq> []"
  shows "\<exists>s p q. ParseListen (m_conf M) (fl_listen fl) (on_config (initConfig (m_conf M)
        (m_dir M (if fl_rc fl = [] then getDefaultRcFile (m_conf M) else expandTilde (m_conf M) (fl_rc fl)))) initial_conf) = Ok s \<and>
      cs_listen s = [p] \<and> cs_listen (st_conf st) = [q] \<and> Addr q = Addr p \<and> pr_listeners (st_process st) = [newListening q]"
proof -
  from assms(1) obtain cmd s rc s1 up where
      m: "parseCmdLineConfig (m_conf M) (m_dir M) fl initial_conf = Ok (cmd, s)" "\<not> fl_version fl" "\<not> fl_sample fl" "\<not> fl_systemd fl"
      "parseConfig (m_conf M) (m_lines M (snd (IgnoreUTF8BOM rc))) cmd s = Ok (s1, up)" "main_init M s1 up = Ok st"
    by (rule main_Started)
  let ?i = "on_config (initConfig (m_conf M)
        (m_dir M (if fl_rc fl = [] then getDefaultRcFile (m_conf M) else expandTilde (m_conf M) (fl_rc fl)))) initial_conf"
  obtain t where t: "ParseListen (m_conf M) (fl_listen fl) ?i = Ok t" "s = t \<lparr>cs_cmdHasListenAddr := True\<rparr>"
    using m(1-4) assms(2) by (auto simp: parseCmdLineConfig_def Let_def split: option.splits if_splits)
  have "\<not> cs_cmdHasListenAddr ?i" "cs_listen ?i = []" by (simp_all add: on_config_def initial_conf_def)
  then obtain p where p: "cs_listen t = [p]" using ParseListen_adds [OF t(1)] by auto
  obtain s2 where s2: "parse_lines (m_conf M) (m_lines M (snd (IgnoreUTF8BOM rc))) s = Ok s2"
      "checkConfig (m_conf M) (on_config (overrideConfig cmd) s2) = Ok s1"
    using m(5) by (auto simp: parseConfig_def split: if_splits)
  have "same_listeners s s2" by (rule parse_lines_keeps [OF s2(1)]) (simp add: t(2))
  then have "map Addr (cs_listen (on_config (overrideConfig cmd) s2)) = [Addr p]"
    using p t(2) by (simp add: same_listeners_def on_config_def)
  from checkConfig_one [OF s2(2) this] obtain q where "cs_listen s1 = [q]" "Addr q = Addr p" by (auto simp: map_eq_Cons_conv)
  then show ?thesis using t(1) p main_init_fields(1,2) [OF m(6)] by (auto simp: start_process_def)
qed

text \<open>What holds when the listeners start.\<close>

lemma initAuth_authed:
  "initAuth open C auth_zero = Inr a \<Longrightarrow> auth_required a \<Longrightarrow> \<exists>ts. authed a = Some ts \<and> ts_timeout ts = AuthTimeout C"
  by (auto simp: initAuth_def auth_zero_def NewTimeoutSet_def split: if_splits sum.splits)

lemma started_ok:
  assumes "main M fl = Ok (Started st)"
  shows "auth_ok (st_auth st)"
    and "auth_required (st_auth st) \<Longrightarrow> \<exists>ts. authed (st_auth st) = Some ts \<and> ts_timeout ts = cf_AuthTimeout (cs_config (st_conf st))"
    and "proc_run (cs_listen (st_conf st)) [] (st_process st)"
proof -
  from assms obtain cmd s rc s1 up where m: "main_init M s1 up = Ok st" by (rule main_Started) blast
  note f = main_init_fields [OF m]
  have "auth_ok auth_zero" by (simp add: auth_ok_def auth_zero_def)
  then show "auth_ok (st_auth st)" using initAuth_ok [OF f(3)] by blast
  show "\<exists>ts. authed (st_auth st) = Some ts \<and> ts_timeout ts = cf_AuthTimeout (cs_config (st_conf st))" if "auth_required (st_auth st)"
    using initAuth_authed [OF f(3) that] f(1) by (simp add: auth_config_of_def)
  have "cp_ok emptyPool" by (simp add: cp_ok_def emptyPool_def)
  then show "proc_run (cs_listen (st_conf st)) [] (st_process st)" using run_start f(1,2) by simp
qed

section \<open>An example\<close>

definition ex_main_env :: main_env where
  "ex_main_env =
     \<lparr>m_conf = ex_conf_env, m_dir = id, m_rc = (\<lambda>_. Inr ''listen = http://127.0.0.1:7777''), m_lines = (\<lambda>f. [f]),
      m_addrs = Inl EOF, m_uni = id,
      m_capture = \<lparr>ci_open = (\<lambda>_. Inl EOF), ci_Abs = (\<lambda>_. Inl EOF), ci_MkdirAll = (\<lambda>_. None), ci_ReadFile = (\<lambda>_. NotExist),
        ci_generateCaptureCA = Inl EOF, ci_WriteFile = (\<lambda>_. None), ci_X509KeyPair = (\<lambda>_ _. Inl EOF), ci_ParseCertificate = (\<lambda>_. Inl EOF)\<rparr>,
      m_plugin = \<lparr>os_MkdirAll = (\<lambda>_. None), os_OpenFile = (\<lambda>_. None), os_Close = (\<lambda>_. None), sql_Open = (\<lambda>_. None), db_Exec = (\<lambda>_. None)\<rparr>,
      m_passwd = (\<lambda>_. Inl EOF), m_stat = (\<lambda>_ ss. (ss, Some EOF)), m_sites = (\<lambda>_. Inl EOF), m_now = 0,
      m_sample = [], m_systemd = [], m_gopath = []\<rparr>"

definition ex_flags :: cmd_flags where
  "ex_flags = default_flags \<lparr>fl_listen := ''socks5://127.0.0.1:1080''\<rparr>"

lemma ex_configured:
  "case parseCmdLineConfig ex_conf_env id ex_flags initial_conf of
     Ok (cmd, s) \<Rightarrow>
       (case parseConfig ex_conf_env [''listen = http://127.0.0.1:7777''] cmd s of
          Ok (s1, None) \<Rightarrow> cs_listen s1 = [SocksProxy ''127.0.0.1:1080''] \<and> cs_parents s1 = [] \<and> cf_Plugin (cs_config s1) = [] \<and>
            \<not> cf_Capture (cs_config s1) \<and> cf_UserPasswd (cs_config s1) = [] \<and> cf_UserPasswdFile (cs_config s1) = [] \<and>
            cf_AllowedClient (cs_config s1) = [] \<and> cf_AuthTimeout (cs_config s1) = 2 * hour
        | _ \<Rightarrow> False)
   | _ \<Rightarrow> False"
  by code_simp

lemma ex_started:
  obtains st :: "'d started" where "main ex_main_env ex_flags = Ok (Started st)" "st_auth st = auth_zero"
    "cf_AuthTimeout (cs_config (st_conf st)) = 2 * hour"
proof -
  obtain cmd s where c: "parseCmdLineConfig ex_conf_env id ex_flags initial_conf = Ok (cmd, s)"
    using ex_configured by (cases "parseCmdLineConfig ex_conf_env id ex_flags initial_conf") auto
  obtain s1 up where "parseConfig ex_conf_env [''listen = http://127.0.0.1:7777''] cmd s = Ok (s1, up)"
    using ex_configured c by (cases "parseConfig ex_conf_env [''listen = http://127.0.0.1:7777''] cmd s") auto
  then have s1: "parseConfig ex_conf_env [''listen = http://127.0.0.1:7777''] cmd s = Ok (s1, None)"
      "cs_listen s1 = [SocksProxy ''127.0.0.1:1080'']" "cs_parents s1 = []" "cf_Plugin (cs_config s1) = []" "\<not> cf_Capture (cs_config s1)"
      "cf_UserPasswd (cs_config s1) = []" "cf_UserPasswdFile (cs_config s1) = []" "cf_AllowedClient (cs_config s1) = []"
      "cf_AuthTimeout (cs_config s1) = 2 * hour"
    using ex_configured c by (auto split: option.splits)
  have a: "SplitHostPort ''127.0.0.1:1080'' = Some (''127.0.0.1'', ''1080'')" by code_simp
  have self: "initSelfListenAddr [] [SocksProxy ''127.0.0.1:1080''] = Inr [[], ''127.0.0.1'', ''localhost'']"
    by (simp add: initSelfListenAddr_def a)
  have bom: "snd (IgnoreUTF8BOM ''listen = http://127.0.0.1:7777'') = ''listen = http://127.0.0.1:7777''" by code_simp
  obtain st :: "'d started" where st: "main_init ex_main_env s1 None = Ok st" "st_auth st = auth_zero"
    using s1 self
    by (auto simp: main_init_def ex_main_env_def Let_def initCapture_def initHTTPPlugin_def initAuth_def auth_config_of_def
        initParentPool_def)
  have "main ex_main_env ex_flags = Ok (Started st)"
    using c s1(1) st(1) bom by (simp add: main_def ex_main_env_def ex_flags_def default_flags_def or_fatal_def conf_then_def)
  then show thesis using st(2) main_init_fields(1) [OF st(1)] s1(9) that by blast
qed

theorem command_line_listener_witness:
  "\<exists>(st :: nat started) q. main ex_main_env ex_flags = Ok (Started st) \<and> pr_listeners (st_process st) = [newListening q]"
proof -
  obtain st :: "nat started" where st: "main ex_main_env ex_flags = Ok (Started st)" using ex_started by blast
  have "fl_listen ex_flags \<noteq> []" by (simp add: ex_flags_def)
  from command_line_listener [OF st this] st show ?thesis by blast
qed

end
