(* ===== verification/Spec2Isabelle.thy ===== *)
theory Spec2Isabelle
  imports Site_Table Body Http_Parse Timeouts Parent_Pools Conn_Pool Proxy Auth Socks_Correct Tunnel Config_Correct Socks_Serve Plugin Tunnel_Serve Lifecycle Parent_Connect Error_Page Masterrummy Watchdog Socks_Udp Startup
begin

text \<open>
  COW is a HTTP proxy that learns which sites are blocked and sends only those through parent proxies. This
  development models the Go program under \<open>src/\<close> and proves that its parts do what they promise. All statements
  are about the definitions below, which follow the code function by function and keep its names where HOL allows it.

  \<^bold>\<open>The program.\<close> \<open>main\<close> (\<open>main.go\<close>) reads the command line and the configuration file (\<open>config.go\<close>), initialises the
  components and starts the listeners (\<open>proxy.go\<close>, \<open>socks.go\<close>), each of which accepts clients. HTTP clients are served by
  \<open>clientConn.serve\<close>: a request is parsed (\<open>http.go\<close>), the client is authenticated (\<open>auth.go\<close>), a server connection
  comes from the pool (\<open>conn_pool.go\<close>), from a direct dial or from a parent proxy (\<open>parent_proxy.go\<close>), as the site
  statistics (\<open>sitestat.go\<close>) advise, and the request is sent, with its body, and kept in a buffer so that it can be
  retried over another connection. A response is forwarded, and what happened updates the site statistics. CONNECT
  requests and SOCKS5 clients become tunnels; SOCKS5 clients can also open UDP associations. Traffic can be captured to
  files, with TLS taken apart (\<open>capture.go\<close>), and exchanges of one application are stored in a database (\<open>plugin.go\<close>,
  \<open>plugins/masterrummy\<close>). Dial and read timeouts follow a probe of the network (\<open>estimate_timeout.go\<close>). A PAC file
  (\<open>pac.go\<close>) tells browsers which sites are reached directly.

  \<^bold>\<open>The theories and what they model.\<close>
  \<^item> \<open>Go_Prelude\<close>, \<open>Go_Errors\<close>: byte strings, the functions of \<open>strings\<close>, \<open>bytes\<close> and \<open>strconv\<close> that the program
    uses, 64 bit integers with wrap-around (\<open>go_int\<close>), panics and outcomes, and the error values with the
    classification of \<open>proxy_unix.go\<close> and \<open>proxy.go\<close> (\<open>isErrTimeout\<close>, \<open>maybeBlocked\<close>, ...).
  \<^item> \<open>Util\<close>, \<open>Net_Addr\<close>, \<open>Url\<close>: \<open>util.go\<close> (trimming, fields, integers, host names), the parts of package \<open>net\<close> that
    are used (\<open>ParseIP\<close>, \<open>SplitHostPort\<close>, masks), and the URLs of \<open>http.go\<close>.
  \<^item> \<open>Site_Lists\<close>, \<open>Site_Stat\<close>, \<open>Site_Table\<close>, \<open>Site_Store\<close>: visit counters as 8 bit words, the table of sites, loading,
    filtering and storing of site lists; counters stay within their bounds, what a visit teaches, list precedence, the
    direct list after a block, and that a crash in the middle of storing loses nothing.
  \<^item> \<open>Bufio\<close>, \<open>Body\<close>: a buffered reader over any source that satisfies the laws of the locale given there, and the four
    ways of sending a body. Loops are partial functions in the option monad, so a result \<open>Some\<close> says that the loop ends.
  \<^item> \<open>Http\<close>, \<open>Http_Parse\<close>: headers, requests and responses with the shared raw buffer and its offsets; hop-by-hop
    headers, framing of responses and the slices of the buffer.
  \<^item> \<open>Error_Page\<close>: the pages of \<open>error.go\<close>, which parse as responses again.
  \<^item> \<open>Timeouts\<close>: adaptive timeouts and expiring sets.
  \<^item> \<open>Parent_Proxy\<close>, \<open>Parent_Pools\<close>, \<open>Parent_Connect\<close>: the kinds of parents, how each is connected to, and the backup, hash,
    latency and HTTP pools.
  \<^item> \<open>Conn_Pool\<close>: the pool of idle connections; its operations and the clean-up goroutines are the steps of
    \<open>pool_step\<close>, and statements hold for every interleaving.
  \<^item> \<open>Proxy\<close>: which connection a request gets, and the policy for errors and retries.
  \<^item> \<open>Md5\<close>, \<open>Auth\<close>: MD5 and base64 in full, allowed networks, basic and digest authentication.
  \<^item> \<open>Net_IO\<close>, \<open>Socks\<close>, \<open>Socks_Correct\<close>, \<open>Socks_Udp\<close>: exact reads and writes that may fail, the SOCKS5 server and client
    side, and the three goroutines of a UDP association in every interleaving, which refine a sequential run
    and end once one of them has.
  \<^item> \<open>Forward\<close>: a request on a server connection: \<open>serverWriter\<close> and the buffer, head and body, the response, and the
    loop of attempts of \<open>serve\<close>, without recording.
  \<^item> \<open>Tunnel\<close>, \<open>Watchdog\<close>: the two copying goroutines of a tunnel as blocks that interleave in any order (\<open>tunnel_step\<close>), and
    the goroutine that closes idle tunnels, with a clock.
  \<^item> \<open>Pac\<close>: the script byte for byte, and its meaning.
  \<^item> \<open>Serve\<close>, \<open>Serve_Safe\<close>: all requests of an HTTP client, from parsing to the response; authentication comes first, and no
    request panics. \<open>Socks_Serve\<close>: a whole SOCKS5 client and the mixed listeners.
  \<^item> \<open>Plugin\<close>, \<open>Capture\<close>, \<open>Recording\<close>: slots, jobs and the worker of the plugin in every interleaving; captured domains, log
    files and certificates; and bodies that are recorded while they are sent, which refines sending them alone.
  \<^item> \<open>Aes\<close>, \<open>Masterrummy\<close>: the decoder of the plugin, with AES-256 in full; it reads what the application encrypted.
  \<^item> \<open>Tls_Hello\<close>, \<open>Capture_Serve\<close>, \<open>Tunnel_Serve\<close>: the first bytes of a tunnel, captured tunnels, and whole runs of tunnels in the
    world of \<open>Serve\<close>, so that nothing is assumed of tunnels any more.
  \<^item> \<open>Listen\<close>, \<open>Config\<close>, \<open>Config_Correct\<close>: listeners and their merging, and the configuration file.
  \<^item> \<open>Lifecycle\<close>: accept loops, signal handler and the wait of main; shutdown completes.
  \<^item> \<open>Startup\<close>: the command line and \<open>main\<close> up to the running listeners. This theory puts it all together: from the state
    that \<open>main\<close> sets up, over any clients served, no HTTP client can make the proxy panic.

  \<^bold>\<open>Interfaces.\<close> Locales state what a component relies on: buffered readers and writers (\<open>Bufio\<close>, \<open>Body\<close>,
  \<open>Tls_Hello\<close>), pools of parents (\<open>Parent_Pools\<close>), writers that refine others (\<open>Recording\<close>), invariants of actions with input and
  output (\<open>Serve_Safe\<close>), a block cipher (\<open>Masterrummy\<close>); each is interpreted on the definitions that provide it.

  \<^bold>\<open>Conventions.\<close> A Go function that may panic returns \<open>may_panic\<close> (\<open>Inl\<close> is the panic); errors are values of the
  type \<open>err\<close>. Goroutines and locks appear as steps: a block of code between two blocking operations, or under a lock, is
  one step. The network, the clock, random numbers and files are arguments: functions over an environment state of any
  type, so statements hold for all their behaviours; an environment record says what a component uses of them.
  Deadlines are part of the readers, which may return a timeout at any time. Byte strings are \<open>string\<close>s, Go's \<open>int\<close> is
  \<open>int\<close> with \<open>go_int\<close> where the code can overflow. Clients are served one after another in \<open>proxy_run\<close>; within a client
  the goroutines interleave freely.

  \<^bold>\<open>Not modelled.\<close> Logging and the counters of debug output (\<open>log.go\<close>, \<open>stat.go\<close>), running ssh (\<open>ssh.go\<close>), the relaunch by
  exec, printing of samples and the files for Windows. Ciphers of shadowsocks and cow connections, SQLite, the
  scanner and leaky buffers belong to other packages; TLS, X.509, templates, JSON and file operations of the standard
  library are arguments. Clients that run at the same time share the pool in \<open>Conn_Pool\<close> and \<open>Lifecycle\<close>, but their
  requests are not interleaved.
\<close>

section \<open>The proxy from its start\<close>

text \<open>
  A client of the program: its tunnels are the program's own, its parents are connected to as \<open>Parent_Connect\<close> says.
  TLS handshakes only touch their own connection, and the buffered reader of the client satisfies the laws of
  \<open>Tls_Hello\<close>.
\<close>

definition cow_client :: "'x dialing \<Rightarrow> cfg \<Rightarrow> ('cr, 'sr, 'sw, httpParentPool \<times> 'x) cli_env \<Rightarrow> bool" where
  "cow_client D C Q \<longleftrightarrow> http_listener Q \<and>
     (\<exists>K T V P B str fin. q_P Q = http_program K T V P \<and> p_C P = C \<and> xe_parent (p_E P) = parents_env D \<and> tls_ok T \<and>
        peeking_reader (p_cli P) B str fin)"

definition hosts_agree :: "(bytes \<Rightarrow> bytes) \<Rightarrow> ('cr, 'sr, 'sw, 'e) cli_env \<Rightarrow> ('cr, 'sr, 'sw, 'e) cli \<Rightarrow> bool" where
  "hosts_agree hostOf Q s0 \<longleftrightarrow> (\<forall>s. serve_steps Q s0 (Ok NextRequest) s \<longrightarrow> host_agrees hostOf Q s)"

text \<open>
  What clients leave behind in the authentication state and in the world of site statistics, pool and parents,
  beginning with the state in which \<open>main\<close> starts the listeners.
\<close>

inductive proxy_run ::
    "'d started \<Rightarrow> 'x dialing \<Rightarrow> cfg \<Rightarrow> (bytes \<Rightarrow> bytes) \<Rightarrow> ('cr, 'sr, 'sw, httpParentPool \<times> 'x) cli itself \<Rightarrow>
     auth_state \<Rightarrow> (httpParentPool \<times> 'x) world \<Rightarrow> bool"
  for st D C hostOf ty where
  listening: "w_site w = st_site st \<Longrightarrow> w_parent w = st_parents st \<Longrightarrow> w_pool w = emptyPool \<Longrightarrow>
    proxy_run st D C hostOf ty (st_auth st) w"
| served: "proxy_run st D C hostOf ty (k_auth s0) (f_w (k_f s0)) \<Longrightarrow> cow_client D C Q \<Longrightarrow> hosts_agree hostOf Q s0 \<Longrightarrow>
    serve_steps Q s0 res (s :: ('cr, 'sr, 'sw, httpParentPool \<times> 'x) cli) \<Longrightarrow> proxy_run st D C hostOf ty (k_auth s) (f_w (k_f s))"

lemma cow_client_safe:
  assumes "cow_client D C Q" "serve_steps Q s0 res s" "cli_ok hostOf Q s0" "hosts_agree hostOf Q s0"
  shows "(\<forall>p. res \<noteq> Panic p) \<and> cli_ok hostOf Q s"
proof -
  from assms(1) obtain K T V P B str fin where c: "q_P Q = http_program K T V P" "http_listener Q" "xe_parent (p_E P) = parents_env D"
      "tls_ok T" "peeking_reader (p_cli P) B str fin"
    unfolding cow_client_def by blast
  have "env_conns not_direct (xe_parent (p_E P))" using c(3) parents_not_direct by simp
  then show ?thesis
    using proxy_never_panics [OF c(1,2) _ c(4,5) assms(2,3)] assms(4) by (simp add: hosts_agree_def)
qed

lemma cli_ok_shared: "cow_client D C Q \<Longrightarrow> cli_ok hostOf Q s \<longleftrightarrow> world_ok C hostOf (f_w (k_f s)) \<and> auth_ok (k_auth s) \<and>
    (auth_required (k_auth s) \<longrightarrow> (\<exists>ts. authed (k_auth s) = Some ts \<and> 0 \<le> ts_timeout ts))"
  by (auto simp: cli_ok_def cow_client_def)

lemma proxy_run_ok:
  assumes "proxy_run st D C hostOf ty a w" "main M fl = Ok (Started st)" "0 \<le> cf_AuthTimeout (cs_config (st_conf st))"
  shows "world_ok C hostOf w \<and> auth_ok a \<and> (auth_required a \<longrightarrow> (\<exists>ts. authed a = Some ts \<and> 0 \<le> ts_timeout ts))"
  using assms(1)
proof (induction rule: proxy_run.induct)
  case (listening w)
  have "world_ok C hostOf w"
    using listening(3) by (simp add: world_ok_def cp_ok_def pool_sites_ok_def pooled_def emptyPool_def)
  then show ?case using started_ok(1,2) [OF assms(2)] assms(3) by auto
next
  case (served s0 Q res s)
  then show ?case using cow_client_safe [OF served(2,4)] cli_ok_shared [OF served(2)] by blast
qed


section \<open>An example\<close>

definition ex_dialing :: "unit dialing" where
  "ex_dialing = \<lparr>d_dial = (\<lambda>a x. (Inl EOF, x)), d_ss = (\<lambda>h a x. (Inl EOF, x)), d_socks = (\<lambda>u p url n x. (Some EOF, x)),
     d_probes = (\<lambda>pp x. ([], x)), d_intn = (\<lambda>n x. (0, x)), d_bad = (\<lambda>x. False)\<rparr>"

definition ex_cow_fwd_env :: "(mem_state, mem_state, bytes, httpParentPool \<times> unit) fwd_env" where
  "ex_cow_fwd_env = \<lparr>p_C = ex_cfg,
     p_E = \<lparr>xe_parent = parents_env ex_dialing, xe_now = (\<lambda>e. 0), xe_dial = (\<lambda>a d e. (Inl EOF, e)), xe_page = (\<lambda>b e. e)\<rparr>,
     p_cli = mem_reader httpBufSize, p_srv = mem_reader httpBufSize, p_out = buffer_write, p_cw = (\<lambda>b e. (int (length b), None, e)),
     p_release = (\<lambda>x. x), p_uni = (\<lambda>x. x), p_fold = (\<lambda>x. False), p_tunnel = io_ret (), p_connect = io_ret ()\<rparr>"

definition ex_cow_tls :: "(mem_state, mem_state, bytes, httpParentPool \<times> unit) tls_env" where
  "ex_cow_tls = \<lparr>t_server = (\<lambda>host s. (Inl EOF, s)), t_client = (\<lambda>s. (None, s)), t_cert = (\<lambda>host. None), t_saveReqLine = False\<rparr>"

definition ex_cow_tunnel :: "(mem_state, mem_state, bytes, httpParentPool \<times> unit) tunnel_env" where
  "ex_cow_tunnel = \<lparr>te_detect = False, te_run = (\<lambda>s. []), te_start = (\<lambda>s. 0), te_buffered = (\<lambda>s. None), te_streams = (\<lambda>s. s)\<rparr>"

definition ex_cow_env :: "(mem_state, mem_state, bytes, httpParentPool \<times> unit) cli_env" where
  "ex_cow_env = \<lparr>q_P = http_program ex_capturing ex_cow_tls ex_cow_tunnel ex_cow_fwd_env, q_proxy = ex_listener,
     q_self = [[], ''127.0.0.1'', ''localhost''], q_saveReqLine = False, q_addr = ex_cl, q_tops = [''com''], q_direct = (\<lambda>e. []),
     q_captureCA = None\<rparr>"

text \<open>A client that connects and closes.\<close>

definition ex_cow_cli :: "nat started \<Rightarrow> (mem_state, mem_state, bytes, httpParentPool \<times> unit) cli" where
  "ex_cow_cli st = \<lparr>k_f = \<lparr>f_cli = mem_open [] EOF, f_srv = (\<lambda>_. mem_open [] EOF), f_out = (\<lambda>_. []),
     f_w = \<lparr>w_site = st_site st, w_pool = emptyPool, w_parent = st_parents st, w_times = \<lparr>dialTimeout = 5, readTimeout = 5\<rparr>,
       w_env = (newHTTPParentPool, ())\<rparr>,
     f_rq = zeroRequest, f_rp = zeroResponse, f_sv = newServerConn (plainConn 7) [] AlwaysDirectRef\<rparr>,
     k_auth = st_auth st, k_authed = False\<rparr>"

lemma ex_cow_client: "cow_client ex_dialing ex_cfg ex_cow_env"
proof -
  have "tls_ok ex_cow_tls" by (auto simp: tls_ok_def ex_cow_tls_def handshake_def)
  moreover have "http_listener ex_cow_env"
    using ex_listener_ok by (simp add: listener_ok_def http_listener_def ex_cow_env_def ex_listener_def)
  moreover have "peeking_reader (p_cli ex_cow_fwd_env) httpBufSize mem_str mr_err"
    using mem_peek.peeking_reader_axioms by (simp add: ex_cow_fwd_env_def)
  moreover have "p_C ex_cow_fwd_env = ex_cfg" "xe_parent (p_E ex_cow_fwd_env) = parents_env ex_dialing"
    by (simp_all add: ex_cow_fwd_env_def)
  moreover have "q_P ex_cow_env = http_program ex_capturing ex_cow_tls ex_cow_tunnel ex_cow_fwd_env" by (simp add: ex_cow_env_def)
  ultimately show ?thesis unfolding cow_client_def by blast
qed

lemma ex_cow_parse:
  "\<exists>e c. parseRequest (p_uni (q_P ex_cow_env)) (q_saveReqLine ex_cow_env) (p_cli (q_P ex_cow_env)) (f_rq (k_f (ex_cow_cli st)))
     (f_cli (k_f (ex_cow_cli st))) = Some (Some e, zeroRequest, c)"
proof -
  obtain l e c where r: "ReadSlice (mem_reader httpBufSize) LF (mem_open [] EOF) = (l, e, c)" by (metis prod_cases3)
  have "mem_str (mem_open [] EOF) = l @ mem_str c" using mem.ReadSlice_split [OF r] by simp
  moreover have "mem_str (mem_open [] EOF) = []" by (simp add: mem_open_def mem_str_def)
  ultimately have "e \<noteq> None" using mem.ReadSlice_line [of LF "mem_open [] EOF" l c] r by auto
  then show ?thesis using r by (auto simp: parseRequest_def ex_cow_env_def ex_cow_fwd_env_def ex_cow_cli_def)
qed


end
